(* ===== verification/Prelude.thy ===== *)
theory Prelude
  imports Complex_Main
begin

text \<open>
  Shared vocabulary of the development: the result type of code that throws, the array
  operations of the language that the sources use (\<^verbatim>\<open>indexOf\<close>, \<^verbatim>\<open>splice\<close>,
  insertion-ordered \<^verbatim>\<open>Map\<close>), the replay of a log through a step that may throw, and the
  interfaces (locales) that several components share.
\<close>

section \<open>Collections of facts\<close>

named_theorems result_simps \<open>equations and splits for results that may be errors\<close>
named_theorems array_simps \<open>equations about the array operations of the language\<close>

section \<open>Results: a thrown error or a value\<close>

text \<open>
  A function that throws returns \<open>Inl\<close> of the error, and \<open>Inr\<close> of its value otherwise. A
  guard \<^verbatim>\<open>if (c) throw e\<close> is \<open>if c then Inl e else \<dots>\<close>; calling a function that may throw
  is \<open>bindR\<close>.
\<close>

definition bindR :: "'e + 'a \<Rightarrow> ('a \<Rightarrow> 'e + 'b) \<Rightarrow> 'e + 'b" where
  "bindR r k = case_sum Inl k r"

lemma bindR_thrown [simp]: "bindR (Inl e) k = Inl e"
  by (simp add: bindR_def)

lemma bindR_returned [simp]: "bindR (Inr x) k = k x"
  by (simp add: bindR_def)

definition mapR :: "('a \<Rightarrow> 'b) \<Rightarrow> 'e + 'a \<Rightarrow> 'e + 'b" where
  "mapR f r = bindR r (\<lambda>x. Inr (f x))"

definition mapErr :: "('e \<Rightarrow> 'f) \<Rightarrow> 'e + 'a \<Rightarrow> 'f + 'a" where
  "mapErr f r = (case r of Inl e \<Rightarrow> Inl (f e) | Inr x \<Rightarrow> Inr x)"

lemma bindR_Inr_iff [result_simps]: "bindR r f = Inr y \<longleftrightarrow> (\<exists>x. r = Inr x \<and> f x = Inr y)"
  by (cases r) auto

lemma bindR_Inl_iff [result_simps]:
  "bindR r f = Inl e \<longleftrightarrow> r = Inl e \<or> (\<exists>x. r = Inr x \<and> f x = Inl e)"
  by (cases r) auto

lemma bindR_assoc: "bindR (bindR r f) g = bindR r (\<lambda>x. bindR (f x) g)"
  by (cases r) auto

lemma mapR_simps [simp]: "mapR f (Inl e) = Inl e" "mapR f (Inr x) = Inr (f x)"
  by (simp_all add: mapR_def)

lemma mapR_Inr_iff [result_simps]: "mapR f r = Inr y \<longleftrightarrow> (\<exists>x. r = Inr x \<and> y = f x)"
  by (cases r) auto

lemma mapErr_simps [simp]: "mapErr f (Inl e) = Inl (f e)" "mapErr f (Inr x) = Inr x"
  by (simp_all add: mapErr_def)

lemma mapErr_Inr_iff [result_simps]: "mapErr f r = Inr y \<longleftrightarrow> r = Inr y"
  by (cases r) auto

lemma mapErr_Inl_iff [result_simps]: "mapErr f r = Inl d \<longleftrightarrow> (\<exists>e. r = Inl e \<and> d = f e)"
  by (cases r) auto

lemma if_Inl_Inr [result_simps]:
  "(if c then Inl e else r) = Inr y \<longleftrightarrow> \<not> c \<and> r = Inr y"
  by auto

text \<open>A \<^verbatim>\<open>for\<close> loop whose body maps one element and may throw: the first error wins.\<close>

fun mapM :: "('a \<Rightarrow> 'e + 'b) \<Rightarrow> 'a list \<Rightarrow> 'e + 'b list" where
  "mapM f [] = Inr []"
| "mapM f (x # xs) = bindR (f x) (\<lambda>y. bindR (mapM f xs) (\<lambda>ys. Inr (y # ys)))"

lemma mapM_Inr_length: "mapM f xs = Inr ys \<Longrightarrow> length ys = length xs"
  by (induction xs arbitrary: ys) (auto simp: result_simps)

lemma mapM_Inr_iff: "mapM f xs = Inr ys \<longleftrightarrow> list_all2 (\<lambda>x y. f x = Inr y) xs ys"
  by (induction xs arbitrary: ys) (auto simp: result_simps list_all2_Cons1)

lemma mapM_map_Inr: "(\<And>x. x \<in> set xs \<Longrightarrow> f x = Inr (g x)) \<Longrightarrow> mapM f xs = Inr (map g xs)"
  by (induction xs) auto

section \<open>State that survives a throw\<close>

text \<open>Sequencing of operations that may throw: what was done before a throw stays done.\<close>

definition thenR :: "'w \<times> ('e + 'a) \<Rightarrow> ('w \<Rightarrow> 'a \<Rightarrow> 'w \<times> ('e + 'b)) \<Rightarrow> 'w \<times> ('e + 'b)" where
  "thenR m k = (case m of (w, Inl e) \<Rightarrow> (w, Inl e) | (w, Inr x) \<Rightarrow> k w x)"

lemma thenR_simps [simp]: "thenR (w, Inl e) k = (w, Inl e)" "thenR (w, Inr x) k = k w x"
  by (simp_all add: thenR_def)

lemma thenR_cases:
  assumes "thenR m k = (w', r)"
  obtains (thrown) e where "m = (w', Inl e)" "r = Inl e"
  | (returned) w1 x where "m = (w1, Inr x)" "k w1 x = (w', r)"
  using assms by (cases m; cases "snd m") (auto simp: thenR_def)

section \<open>Arrays\<close>

text \<open>\<^verbatim>\<open>xs.indexOf(x)\<close>: the first position, \<open>None\<close> for the \<^verbatim>\<open>-1\<close> of a miss.\<close>

fun indexOf :: "'a list \<Rightarrow> 'a \<Rightarrow> nat option" where
  "indexOf [] x = None"
| "indexOf (y # ys) x = (if y = x then Some 0 else map_option Suc (indexOf ys x))"

lemma indexOf_SomeD: "indexOf xs x = Some i \<Longrightarrow> i < length xs \<and> xs ! i = x \<and> x \<notin> set (take i xs)"
  by (induction xs arbitrary: i) (auto split: if_splits)

lemma indexOf_None [array_simps]: "indexOf xs x = None \<longleftrightarrow> x \<notin> set xs"
  by (induction xs) auto

lemma indexOf_nth: "distinct xs \<Longrightarrow> i < length xs \<Longrightarrow> indexOf xs (xs ! i) = Some i"
proof (induction xs arbitrary: i)
  case Nil
  then show ?case by simp
next
  case (Cons y ys)
  then show ?case by (cases i) auto
qed

lemma indexOf_append_in: "x \<in> set xs \<Longrightarrow> indexOf (xs @ ys) x = indexOf xs x"
  by (induction xs) auto

text \<open>
  \<^verbatim>\<open>xs.splice(i, n, ...ys)\<close> for a position and a count inside the array: \<open>n\<close> elements
  from \<open>i\<close> on are removed and \<open>ys\<close> takes their place.
\<close>

definition splice_list :: "'a list \<Rightarrow> nat \<Rightarrow> nat \<Rightarrow> 'a list \<Rightarrow> 'a list" where
  "splice_list xs i n ys = take i xs @ ys @ drop (i + n) xs"

definition spliced_out :: "'a list \<Rightarrow> nat \<Rightarrow> nat \<Rightarrow> 'a list" where
  "spliced_out xs i n = take n (drop i xs)"

lemma length_splice_list [array_simps]:
  "i + n \<le> length xs \<Longrightarrow> length (splice_list xs i n ys) = length xs - n + length ys"
  by (simp add: splice_list_def)

lemma splice_decompose: "i + n \<le> length xs \<Longrightarrow> take i xs @ spliced_out xs i n @ drop (i + n) xs = xs"
  by (simp add: spliced_out_def) (metis add.commute append_take_drop_id drop_drop)

lemma set_splice_list:
  "set (splice_list xs i n ys) \<subseteq> set xs \<union> set ys"
  by (auto simp: splice_list_def dest: in_set_takeD in_set_dropD)

lemma splice_list_insert [array_simps]: "splice_list xs (length xs) 0 ys = xs @ ys"
  by (simp add: splice_list_def)

lemma splice_list_all [array_simps]: "splice_list xs 0 (length xs) ys = ys"
  by (simp add: splice_list_def)

lemma distinct_splice_list:
  assumes "distinct xs" and "distinct ys" and "set ys \<inter> set xs \<subseteq> set (spliced_out xs i n)"
    and "i + n \<le> length xs"
  shows "distinct (splice_list xs i n ys)"
proof -
  let ?a = "take i xs" and ?b = "spliced_out xs i n" and ?c = "drop (i + n) xs"
  have eq: "xs = ?a @ ?b @ ?c" using assms(4) by (simp add: splice_decompose)
  have d: "distinct (?a @ ?b @ ?c)" using assms(1) eq by simp
  have sub: "set ?a \<subseteq> set xs" "set ?c \<subseteq> set xs"
    using set_take_subset set_drop_subset by fast+
  have "set ys \<inter> set ?a = {}" "set ys \<inter> set ?c = {}"
    using d sub assms(3) by auto
  then show ?thesis using d assms(2) by (auto simp: splice_list_def)
qed

lemma map_filter_append [array_simps]:
  "List.map_filter f (xs @ ys) = List.map_filter f xs @ List.map_filter f ys"
  by (simp add: List.map_filter_def)

section \<open>Insertion-ordered maps\<close>

text \<open>
  A \<^verbatim>\<open>Map\<close> of the language is an association list in insertion order: \<^verbatim>\<open>set\<close> keeps the
  position of a key that is already present, \<^verbatim>\<open>delete\<close> removes it.
\<close>

type_synonym ('k, 'v) omap = "('k \<times> 'v) list"

fun mapSet :: "('k, 'v) omap \<Rightarrow> 'k \<Rightarrow> 'v \<Rightarrow> ('k, 'v) omap" where
  "mapSet [] k v = [(k, v)]"
| "mapSet ((k', v') # m) k v = (if k' = k then (k, v) # m else (k', v') # mapSet m k v)"

definition mapDelete :: "('k, 'v) omap \<Rightarrow> 'k \<Rightarrow> ('k, 'v) omap" where
  "mapDelete m k = filter (\<lambda>p. fst p \<noteq> k) m"

lemma map_of_mapSet [simp]: "map_of (mapSet m k v) = (map_of m)(k \<mapsto> v)"
  by (induction m) (auto simp: fun_eq_iff)

lemma map_of_mapDelete [simp]: "map_of (mapDelete m k) = (map_of m)(k := None)"
  by (induction m) (auto simp: mapDelete_def fun_eq_iff)

lemma keys_mapSet: "fst ` set (mapSet m k v) = insert k (fst ` set m)"
  using dom_map_of_conv_image_fst [of "mapSet m k v"] dom_map_of_conv_image_fst [of m] by simp

lemma keys_mapDelete: "fst ` set (mapDelete m k) = fst ` set m - {k}"
  by (auto simp: mapDelete_def)

lemma distinct_mapSet: "distinct (map fst m) \<Longrightarrow> distinct (map fst (mapSet m k v))"
proof (induction m)
  case Nil
  then show ?case by simp
next
  case (Cons p m)
  have "set (map fst (mapSet m k v)) = insert k (set (map fst m))"
    using keys_mapSet [of m k v] by simp
  with Cons show ?case by (cases p) auto
qed

lemma distinct_mapDelete: "distinct (map fst m) \<Longrightarrow> distinct (map fst (mapDelete m k))"
  by (induction m) (auto simp: mapDelete_def)

lemma mapDelete_absent: "k \<notin> fst ` set m \<Longrightarrow> mapDelete m k = m"
  by (induction m) (auto simp: mapDelete_def)

lemma mapSet_absent: "k \<notin> fst ` set m \<Longrightarrow> mapSet m k v = m @ [(k, v)]"
  by (induction m) auto


section \<open>Numbers in text\<close>

text \<open>\<^verbatim>\<open>`${n}`\<close> for a non-negative integer.\<close>

fun natStr :: "nat \<Rightarrow> string" where
  "natStr n =
     (if n < 10 then [char_of (48 + n)] else natStr (n div 10) @ [char_of (48 + n mod 10)])"

declare natStr.simps [simp del]

section \<open>Replaying a log through a step that may throw\<close>

text \<open>
  \<^verbatim>\<open>for (const event of events) apply(state, event)\<close> where \<open>apply\<close> may throw: the first
  error stops the loop.
\<close>

fun runR :: "('s \<Rightarrow> 'e \<Rightarrow> 'err + 's) \<Rightarrow> 's \<Rightarrow> 'e list \<Rightarrow> 'err + 's" where
  "runR step s [] = Inr s"
| "runR step s (e # es) = bindR (step s e) (\<lambda>s'. runR step s' es)"

lemma runR_append: "runR step s (xs @ ys) = bindR (runR step s xs) (\<lambda>s'. runR step s' ys)"
  by (induction xs arbitrary: s) (auto simp: bindR_assoc)

lemma runR_snoc: "runR step s (xs @ [e]) = bindR (runR step s xs) (\<lambda>s'. step s' e)"
  by (cases "runR step s xs") (auto simp: runR_append bindR_def split: sum.split)

text \<open>
  The contract of a validating log fold: an invariant that holds at the start and that every
  accepted event keeps. The client, a component that replays an accepted log, gets the invariant
  of every state it passes through, and that each prefix of an accepted log is accepted.
\<close>

definition accepted :: "('s \<Rightarrow> 'e \<Rightarrow> 'err + 's) \<Rightarrow> 's \<Rightarrow> 'e list \<Rightarrow> bool" where
  "accepted step s es = (case runR step s es of Inl _ \<Rightarrow> False | Inr _ \<Rightarrow> True)"

lemma accepted_iff: "accepted step s es \<longleftrightarrow> (\<exists>s'. runR step s es = Inr s')"
  by (auto simp: accepted_def split: sum.splits)

locale validating_fold =
  fixes step :: "'s \<Rightarrow> 'e \<Rightarrow> 'err + 's"
    and init :: 's
    and inv :: "'s \<Rightarrow> bool"
  assumes inv_init: "inv init"
    and inv_step: "inv s \<Longrightarrow> step s e = Inr s' \<Longrightarrow> inv s'"
begin

lemma inv_run: "inv s \<Longrightarrow> runR step s es = Inr s' \<Longrightarrow> inv s'"
  by (induction es arbitrary: s) (auto simp: result_simps dest: inv_step)

lemma inv_accepted: "runR step init es = Inr s \<Longrightarrow> inv s"
  using inv_init inv_run by blast

lemma accepts_prefix: "accepted step init (xs @ ys) \<Longrightarrow> accepted step init xs"
  by (auto simp: accepted_iff runR_append result_simps)

lemma prefix_state:
  assumes "runR step init (xs @ ys) = Inr s"
  obtains s' where "runR step init xs = Inr s'" and "inv s'" and "runR step s' ys = Inr s"
  using assms inv_accepted by (auto simp: runR_append result_simps)

end

text \<open>
  A projection that reads a log in order, with a cache that remembers how far it has read: the
  next access folds the unseen tail only. \<open>refresh\<close> is that access. The contract is that reading
  a longer log continues from the state the shorter one left; then the cache always answers
  what the fold over the whole log answers.
\<close>

definition refresh :: "('e list \<Rightarrow> 's \<Rightarrow> 's) \<Rightarrow> 'e list \<Rightarrow> 's \<times> nat \<Rightarrow> 's \<times> nat" where
  "refresh project es c =
     (if snd c < length es then (project (drop (snd c) es) (fst c), length es) else c)"

definition in_sync :: "('e list \<Rightarrow> 's \<Rightarrow> 's) \<Rightarrow> 's \<Rightarrow> 'e list \<Rightarrow> 's \<times> nat \<Rightarrow> bool" where
  "in_sync project s0 es c \<longleftrightarrow> snd c \<le> length es \<and> fst c = project (take (snd c) es) s0"

locale log_projection =
  fixes project :: "'e list \<Rightarrow> 's \<Rightarrow> 's"
  assumes project_Nil: "project [] s = s"
    and project_append: "project (xs @ ys) s = project ys (project xs s)"
begin

lemma in_sync_init: "in_sync project s0 es (s0, 0)"
  by (simp add: in_sync_def project_Nil)

lemma in_sync_grow: "in_sync project s0 es c \<Longrightarrow> in_sync project s0 (es @ es') c"
  by (simp add: in_sync_def)

lemma refresh_reads_all:
  assumes "in_sync project s0 es c"
  shows "refresh project es c = (project es s0, length es)"
proof (cases "snd c < length es")
  case True
  have "project (take (snd c) es @ drop (snd c) es) s0
      = project (drop (snd c) es) (project (take (snd c) es) s0)"
    by (rule project_append)
  with True assms show ?thesis by (simp add: in_sync_def refresh_def)
next
  case False
  with assms show ?thesis by (cases c) (simp add: in_sync_def refresh_def)
qed

lemma in_sync_refresh: "in_sync project s0 es c \<Longrightarrow> in_sync project s0 es (refresh project es c)"
  by (simp add: refresh_reads_all in_sync_def)

end

end
