(* ===== verification/Json.thy ===== *)
theory Json
  imports Prelude
begin

text \<open>
  JSON values as the session log stores them (\<^verbatim>\<open>packages/core/session/src/json.ts\<close>),
  the numeric predicates the sources apply to them, and the structural equality of
  \<^verbatim>\<open>surface.ts\<close>. A finite number of the language is a rational, so it is a \<open>rat\<close> here;
  the negative zero, the infinities and the not-a-number are not JSON. An object is the list
  of its own properties in insertion order.
\<close>

datatype json =
    JNull
  | JBool bool
  | JNum rat
  | JStr string
  | JArr "json list"
  | JObj "(string \<times> json) list"

section \<open>Numbers\<close>

text \<open>\<^verbatim>\<open>Number.MAX_SAFE_INTEGER\<close> and \<^verbatim>\<open>Number.isSafeInteger\<close>.\<close>

definition maxSafeInteger :: int where
  "maxSafeInteger = 9007199254740991"

definition safeInt :: "int \<Rightarrow> bool" where
  "safeInt n \<longleftrightarrow> \<bar>n\<bar> \<le> maxSafeInteger"

definition ratInt :: "rat \<Rightarrow> int option" where
  "ratInt r = (case quotient_of r of (n, d) \<Rightarrow> if d = 1 then Some n else None)"

definition isSafeInteger :: "rat \<Rightarrow> bool" where
  "isSafeInteger r = (case ratInt r of None \<Rightarrow> False | Some n \<Rightarrow> safeInt n)"

lemma ratInt_of_int [simp]: "ratInt (of_int n) = Some n"
  by (simp add: ratInt_def)

lemma ratInt_of_nat [simp]: "ratInt (of_nat n) = Some (int n)"
  using ratInt_of_int [of "int n"] by (simp del: ratInt_of_int)

lemma ratInt_numeral [simp]: "ratInt (numeral k) = Some (numeral k)"
  using ratInt_of_int [of "numeral k"] by (simp del: ratInt_of_int)

lemma ratInt_0_1 [simp]: "ratInt 0 = Some 0" "ratInt 1 = Some 1"
  using ratInt_of_int [of 0] ratInt_of_int [of 1] by (simp_all del: ratInt_of_int)

lemma ratInt_SomeD: "ratInt r = Some n \<Longrightarrow> r = of_int n"
proof -
  assume a: "ratInt r = Some n"
  obtain p q where pq: "quotient_of r = (p, q)" by fastforce
  with a have "q = 1" "p = n" by (auto simp: ratInt_def split: if_splits)
  with quotient_of_div [OF pq] show ?thesis by simp
qed

lemma isSafeInteger_of_int [simp]: "isSafeInteger (of_int n) = safeInt n"
  by (simp add: isSafeInteger_def)

text \<open>
  A number argument. \<open>NegZero\<close> is the negative zero, which is also what \<^verbatim>\<open>Math.trunc\<close> gives
  for a number between minus one and zero. \<open>finiteOf\<close> is the value of one that
  \<^verbatim>\<open>Number.isFinite\<close> accepts.
\<close>

datatype js_number = Finite rat | NegZero | NotANumber | PlusInfinity | MinusInfinity

fun finiteOf :: "js_number \<Rightarrow> rat option" where
  "finiteOf (Finite r) = Some r"
| "finiteOf NegZero = Some 0"
| "finiteOf _ = None"

section \<open>Objects\<close>

text \<open>
  \<^verbatim>\<open>jprop k j\<close> reads the own property \<open>k\<close>; \<open>None\<close> is \<^verbatim>\<open>undefined\<close>. Reading a property of
  a value that is no object gives \<open>None\<close> too: the sources read properties only after a check
  that the value is an object.
\<close>

fun jprop :: "string \<Rightarrow> json \<Rightarrow> json option" where
  "jprop k (JObj ps) = map_of ps k"
| "jprop k _ = None"

fun objectKeys :: "json \<Rightarrow> string list" where
  "objectKeys (JObj ps) = map fst ps"
| "objectKeys _ = []"

fun isObject :: "json \<Rightarrow> bool" where
  "isObject (JObj _) = True"
| "isObject _ = False"

text \<open>The keys of an object are distinct, at every depth.\<close>

fun json_ok :: "json \<Rightarrow> bool" where
  "json_ok (JArr xs) = list_all json_ok xs"
| "json_ok (JObj ps) = (distinct (map fst ps) \<and> list_all (\<lambda>p. json_ok (snd p)) ps)"
| "json_ok _ = True"

section \<open>Deep structural equality\<close>

text \<open>
  \<^verbatim>\<open>isDeepEqualJson\<close> of \<^verbatim>\<open>surface.ts\<close>: arrays are equal element by element, objects when
  they have as many keys and every key of the left one is a key of the right one with an equal
  value; every other pair is equal when \<^verbatim>\<open>===\<close> says so.
\<close>

lemma size_zip_left [termination_simp]:
  "(x, y) \<in> set (zip xs ys) \<Longrightarrow> size x < Suc (size_list size xs)"
  by (auto dest!: set_zip_leftD simp: less_Suc_eq_le intro: size_list_estimation')

fun isDeepEqualJson :: "json \<Rightarrow> json \<Rightarrow> bool" where
  "isDeepEqualJson (JArr xs) b =
     (case b of
        JArr ys \<Rightarrow> length xs = length ys
          \<and> list_all (\<lambda>(x, y). isDeepEqualJson x y) (zip xs ys)
      | _ \<Rightarrow> False)"
| "isDeepEqualJson (JObj ps) b =
     (case b of
        JObj qs \<Rightarrow> length ps = length qs
          \<and> list_all (\<lambda>p. case map_of qs (fst p) of
                None \<Rightarrow> False
              | Some w \<Rightarrow> isDeepEqualJson (snd p) w) ps
      | _ \<Rightarrow> False)"
| "isDeepEqualJson JNull b = (b = JNull)"
| "isDeepEqualJson (JBool x) b = (b = JBool x)"
| "isDeepEqualJson (JNum x) b = (b = JNum x)"
| "isDeepEqualJson (JStr x) b = (b = JStr x)"

lemma isDeepEqualJson_refl: "json_ok a \<Longrightarrow> isDeepEqualJson a a"
proof (induction a rule: json_ok.induct)
  case (1 xs)
  then show ?case by (auto simp: list_all_length in_set_zip)
next
  case (2 ps)
  then show ?case by (auto simp: list_all_iff)
qed auto

lemma isDeepEqualJson_length:
  "isDeepEqualJson (JObj ps) (JObj qs) \<Longrightarrow> length ps = length qs"
  by simp

lemma isDeepEqualJson_keys:
  assumes eq: "isDeepEqualJson (JObj ps) (JObj qs)" and d: "distinct (map fst ps)"
  shows "fst ` set ps = fst ` set qs"
proof (rule card_subset_eq)
  show "finite (fst ` set qs)" by simp
  show sub: "fst ` set ps \<subseteq> fst ` set qs"
  proof
    fix k assume "k \<in> fst ` set ps"
    with eq have "map_of qs k \<noteq> None" by (auto simp: list_all_iff split: option.splits)
    then show "k \<in> fst ` set qs" by (simp add: map_of_eq_None_iff)
  qed
  have "card (fst ` set ps) = length ps"
    using distinct_card [OF d] by simp
  moreover have "card (fst ` set qs) \<le> length qs"
    using card_length [of "map fst qs"] by simp
  ultimately have "card (fst ` set qs) \<le> card (fst ` set ps)" using eq by simp
  moreover have "card (fst ` set ps) \<le> card (fst ` set qs)"
    using sub by (simp add: card_mono)
  ultimately show "card (fst ` set ps) = card (fst ` set qs)" by simp
qed

lemma isDeepEqualJson_sym:
  "isDeepEqualJson a b \<Longrightarrow> json_ok a \<Longrightarrow> json_ok b \<Longrightarrow> isDeepEqualJson b a"
proof (induction a b rule: isDeepEqualJson.induct)
  case (1 xs b)
  from "1.prems"(1) obtain ys where b: "b = JArr ys" by (cases b) auto
  have len: "length ys = length xs" using "1.prems"(1) by (simp add: b)
  have "isDeepEqualJson (ys ! i) (xs ! i)" if i: "i < length xs" for i
  proof -
    have mem: "(xs ! i, ys ! i) \<in> set (zip xs ys)" using i len by (auto simp: in_set_zip)
    have e: "isDeepEqualJson (xs ! i) (ys ! i)"
      using "1.prems"(1) i len by (auto simp: b list_all_length)
    have ok: "json_ok (xs ! i)" "json_ok (ys ! i)"
      using "1.prems"(2,3) i len by (auto simp: b list_all_length)
    show ?thesis using "1.IH" [OF b mem] e ok by simp
  qed
  then show ?case using len by (simp add: b list_all_length)
next
  case (2 ps b)
  from "2.prems"(1) obtain qs where b: "b = JObj qs" by (cases b) auto
  have dp: "distinct (map fst ps)" and dq: "distinct (map fst qs)"
    using "2.prems"(2,3) by (simp_all add: b)
  have keys: "fst ` set ps = fst ` set qs"
    using isDeepEqualJson_keys [of ps qs] "2.prems"(1) dp by (simp add: b)
  have "\<exists>v. map_of ps k = Some v \<and> isDeepEqualJson w v" if kw: "(k, w) \<in> set qs" for k w
  proof -
    have "k \<in> fst ` set ps" using keys kw by (metis fst_conv image_eqI)
    then obtain v where v: "(k, v) \<in> set ps" by auto
    have mq: "map_of qs k = Some w" using kw dq by (simp add: map_of_is_SomeI)
    have mp: "map_of ps k = Some v" using v dp by (simp add: map_of_is_SomeI)
    have e: "isDeepEqualJson v w"
      using "2.prems"(1) v mq by (auto simp: b list_all_iff dest!: bspec)
    have ok: "json_ok v" "json_ok w"
      using "2.prems"(2,3) v kw by (auto simp: b list_all_iff)
    have "isDeepEqualJson w v" using "2.IH" [OF b, of "(k, v)" w] v mq e ok by simp
    with mp show ?thesis by blast
  qed
  moreover have "length qs = length ps" using "2.prems"(1) by (simp add: b)
  ultimately show ?case by (fastforce simp: b list_all_iff split: option.split)
qed auto

end
