(* ===== verification/Session_Types.thy ===== *)
theory Session_Types
  imports Json
begin

text \<open>
  The vocabulary of the session log: message and stream types of
  \<^verbatim>\<open>packages/llm/llm/src/types.ts\<close> and \<^verbatim>\<open>message.ts\<close>, and the event types of
  \<^verbatim>\<open>packages/core/session/src/types.ts\<close> with the extensions other packages merge into
  \<^verbatim>\<open>SessionEventMap\<close>. A sequence number is a \<open>nat\<close>, because every acceptance path checks
  it to be a non-negative integer; a turn, a step and a time are an \<open>int\<close>. A field that the
  acceptance path reads as \<^verbatim>\<open>unknown\<close> (the surface marker, the cited sources) keeps its raw
  JSON value, with \<open>None\<close> for an absent one.
\<close>

section \<open>Messages\<close>

datatype content_block =
    TextBlock string
  | ReasoningBlock string
  | ImageBlock json
  | ToolCallBlock (call_id: string) (call_name: string) (call_arguments: string)
  | ToolResultBlock string "content_block list" "bool option"

fun isToolCall :: "content_block \<Rightarrow> bool" where
  "isToolCall (ToolCallBlock _ _ _) = True"
| "isToolCall _ = False"

datatype message_source =
    UserSource
  | PluginSource string json
  | ModelSource string string "json option"
  | ToolSource string
  | GoalSource string rat rat
  | OtherSource string json

datatype role = System | User | Assistant

record message =
  msg_id :: string
  msg_role :: role
  msg_content :: "content_block list"
  msg_source :: message_source

text \<open>
  \<^verbatim>\<open>ToolResultMessage\<close>: a user-role message with exactly one tool-result block and a tool
  source. \<^verbatim>\<open>asMessage\<close> is its structural upcast to \<^verbatim>\<open>Message\<close>.
\<close>

record tool_message =
  tm_id :: string
  tm_sourceCallId :: string
  tm_toolCallId :: string
  tm_content :: "content_block list"
  tm_isError :: "bool option"

definition asMessage :: "tool_message \<Rightarrow> message" where
  "asMessage m =
     \<lparr>msg_id = tm_id m, msg_role = User,
      msg_content = [ToolResultBlock (tm_toolCallId m) (tm_content m) (tm_isError m)],
      msg_source = ToolSource (tm_sourceCallId m)\<rparr>"

record token_usage =
  inputTokens :: int
  outputTokens :: int
  cacheReadTokens :: "int option"
  cacheWriteTokens :: "int option"
  reasoningTokens :: "int option"

record llm_failure =
  failure_message :: string
  failure_code :: string
  failure_status :: "int option"
  failure_retryAfterMs :: "rat option"
  failure_requestId :: "string option"

datatype finish_reason =
    FinishStop
  | FinishToolCalls
  | FinishMaxTokens
  | FinishAborted llm_failure
  | FinishError llm_failure

datatype stream_chunk =
    BlockStart int string
  | TextDelta int string
  | ReasoningDelta int string
  | ToolCallDelta int string "string option" string
  | BlockEnd int content_block
  | UsageChunk token_usage
  | FinishChunk finish_reason "json option"

section \<open>Event payloads\<close>

datatype cancel_cause = CancelUser | CancelParent | CancelHook string | CancelDisposed | CancelLegacy

datatype turn_end_reason =
    Completed
  | Aborted cancel_cause
  | Blocked
  | Failed llm_failure
  | MaxTokens
  | Interrupted
  | OtherReason string

datatype todo_status = Pending | InProgress | Done

record todo_item =
  todo_content :: string
  todo_status :: todo_status

record call_config =
  cfg_provider :: string
  cfg_model :: string
  cfg_reasoningEffort :: "string option"
  cfg_temperature :: "rat option"
  cfg_maxTokens :: "rat option"
  cfg_stop :: "string list option"

text \<open>The markers of \<^verbatim>\<open>LlmCallConfigAdapterDefaults\<close> are either \<^verbatim>\<open>true\<close> or absent.\<close>

record adapter_defaults =
  ad_reasoningEffort :: bool
  ad_maxTokens :: bool

record epoch_header =
  eh_config :: call_config
  eh_adapterDefaults :: "adapter_defaults option"
  eh_system :: "string option"
  eh_tools :: "json list option"

record request_context =
  rc_provider :: string
  rc_model :: string
  rc_contextWindow :: "rat option"

record tool_result =
  tr_turn :: int
  tr_step :: int
  tr_message :: tool_message
  tr_error :: "(string \<times> string) option"
  tr_meta :: "json option"

datatype inbox_target = NextTurn | NextStep

record inbox_splice =
  sp_target :: inbox_target
  sp_start :: rat
  sp_removedCount :: "rat option"
  sp_inserted :: "message list"
  sp_canceled :: bool

record compaction_bracket =
  cb_compactionId :: string
  cb_sourceCommandId :: "string option"
  cb_turn :: "int option"

record compaction_summary =
  cs_bracket_id :: string
  cs_sourceCommandId :: "string option"
  cs_summary :: "content_block list"
  cs_start :: nat
  cs_end :: nat
  cs_shadowedSeqs :: "nat list"
  cs_shadowedTokenCount :: int
  cs_rawOutput :: "content_block list option"
  cs_llmStreamCall :: bool
  cs_provider :: string
  cs_model :: string
  cs_maxTokens :: "rat option"
  cs_usage :: "token_usage option"

datatype event_data =
    TurnStart int
  | TurnEnd int turn_end_reason
  | StepStart int int
  | StepEnd int int
  | UserMsg message
  | AssistantChunk int int stream_chunk
  | AssistantMsg int int message "token_usage option"
  | ToolCall int int string string string
  | ToolResult tool_result
  | TodoWrite "todo_item list"
  | RequestHeader epoch_header string
  | RequestContext request_context
  | EndSeed
  | InboxSpliced inbox_splice
  | GoalChange json
  | CompactionStart compaction_bracket
  | CompactionSummary compaction_summary
  | CompactionEnd compaction_bracket "string option"
  | PluginEvent string json

text \<open>The \<^verbatim>\<open>type\<close> tag of an event.\<close>

fun event_type :: "event_data \<Rightarrow> string" where
  "event_type (TurnStart _) = ''turn/start''"
| "event_type (TurnEnd _ _) = ''turn/end''"
| "event_type (StepStart _ _) = ''step/start''"
| "event_type (StepEnd _ _) = ''step/end''"
| "event_type (UserMsg _) = ''user/message''"
| "event_type (AssistantChunk _ _ _) = ''assistant/chunk''"
| "event_type (AssistantMsg _ _ _ _) = ''assistant/message''"
| "event_type (ToolCall _ _ _ _ _) = ''tool/call''"
| "event_type (ToolResult _) = ''tool/result''"
| "event_type (TodoWrite _) = ''todo/write''"
| "event_type (RequestHeader _ _) = ''request/header''"
| "event_type (RequestContext _) = ''request/context''"
| "event_type EndSeed = ''session/end-seed''"
| "event_type (InboxSpliced _) = ''agent/inbox/spliced''"
| "event_type (GoalChange _) = ''goal/change''"
| "event_type (CompactionStart _) = ''compaction/start''"
| "event_type (CompactionSummary _) = ''compaction/summary''"
| "event_type (CompactionEnd _ _) = ''compaction/end''"
| "event_type (PluginEvent t _) = t"

record event =
  seq :: nat
  time :: int
  ev_data :: event_data
  surfaceOp :: "json option"
  sourceEventSeqs :: "json option"
  ignorable :: bool

abbreviation ev_type :: "event \<Rightarrow> string" where
  "ev_type e \<equiv> event_type (ev_data e)"

end
