(* ===== verification/Surface.thy ===== *)
theory Surface
  imports Session_Types
begin

text \<open>
  \<^verbatim>\<open>packages/core/session/src/surface.ts\<close>: the ordered, model-visible view of the
  append-only log. A message-producing event either appends itself to the surface or replaces a
  contiguous range of it; every other event leaves the surface alone. The first part translates
  the validation and the fold; the second the incremental \<^verbatim>\<open>SurfaceManager\<close>.
\<close>

section \<open>Eligibility and projection\<close>

definition SURFACE_EVENT_TYPES :: "string list" where
  "SURFACE_EVENT_TYPES = [''user/message'', ''assistant/message'', ''tool/result'']"

definition isSurfaceEligibleType :: "string \<Rightarrow> bool" where
  "isSurfaceEligibleType t \<longleftrightarrow> t \<in> set SURFACE_EVENT_TYPES"

definition isSurfaceEvent :: "event \<Rightarrow> bool" where
  "isSurfaceEvent e \<longleftrightarrow> isSurfaceEligibleType (ev_type e) \<and> surfaceOp e \<noteq> None"

definition isAppendSurfaceEvent :: "event \<Rightarrow> bool" where
  "isAppendSurfaceEvent e \<longleftrightarrow> isSurfaceEvent e \<and> surfaceOp e = Some (JStr ''append'')"

definition isReplacementSurfaceEvent :: "event \<Rightarrow> bool" where
  "isReplacementSurfaceEvent e \<longleftrightarrow> isSurfaceEvent e \<and> surfaceOp e \<noteq> Some (JStr ''append'')"

fun deriveEventMessage :: "event_data \<Rightarrow> message option" where
  "deriveEventMessage (UserMsg m) = Some m"
| "deriveEventMessage (AssistantMsg _ _ m _) = (if msg_content m = [] then None else Some m)"
| "deriveEventMessage (ToolResult r) = Some (asMessage (tr_message r))"
| "deriveEventMessage _ = None"

section \<open>The fold\<close>

record fold_replacement =
  rp_seq :: nat
  rp_start :: nat
  rp_end :: nat
  rp_shadowed :: "nat list"

record fold_state =
  nodes :: "nat list"
  replaceGeneration :: nat

definition createFoldState :: fold_state where
  "createFoldState = \<lparr>nodes = [], replaceGeneration = 0\<rparr>"

datatype surface_plan =
    PlanAppend nat
  | PlanReplace fold_replacement nat nat

datatype surface_op = OpAppend | OpReplace nat nat

datatype surface_error =
    SeqNotContiguous nat nat
  | OpOnIneligible string
  | SourcesOnIneligible string
  | MissingSurfaceOp string
  | InvalidSurfaceOp string
  | InvalidReplaceOp string
  | SourcesNotArray nat
  | SourcesEmpty
  | SourceNotSeq string
  | SourcesDuplicate
  | SourceNotEarlier nat nat
  | ShadowedNotCited "nat list"
  | StartNotFound nat
  | EndNotFound nat
  | StartAfterEnd nat nat nat nat
  | RewriteNotOne
  | RewriteNotToolResult
  | RewriteBeyondContent

text \<open>A non-negative safe integer, read as a sequence number.\<close>

fun eventSeqOf :: "json \<Rightarrow> nat option" where
  "eventSeqOf (JNum r) =
     (case ratInt r of
        None \<Rightarrow> None
      | Some n \<Rightarrow> if safeInt n \<and> n \<ge> 0 then Some (nat n) else None)"
| "eventSeqOf _ = None"

definition isEventSeq :: "json \<Rightarrow> bool" where
  "isEventSeq j \<longleftrightarrow> eventSeqOf j \<noteq> None"

text \<open>
  \<^verbatim>\<open>isReplaceOp\<close>: exactly the three keys, the tag \<^verbatim>\<open>replace\<close>, two sequence numbers. The
  model returns the range it recognised.
\<close>

definition replaceOpOf :: "(string \<times> json) list \<Rightarrow> (nat \<times> nat) option" where
  "replaceOpOf ps =
     (if length (objectKeys (JObj ps)) = 3 \<and> map_of ps ''op'' = Some (JStr ''replace'') then
        (case (map_of ps ''start'', map_of ps ''end'') of
           (Some s, Some t) \<Rightarrow>
             (case (eventSeqOf s, eventSeqOf t) of
                (Some i, Some j) \<Rightarrow> Some (i, j)
              | _ \<Rightarrow> None)
         | _ \<Rightarrow> None)
      else None)"

definition surfaceOpOf :: "event \<Rightarrow> surface_error + surface_op option" where
  "surfaceOpOf e =
     (if \<not> isSurfaceEligibleType (ev_type e) then
        (if surfaceOp e \<noteq> None then Inl (OpOnIneligible (ev_type e))
         else if sourceEventSeqs e \<noteq> None then Inl (SourcesOnIneligible (ev_type e))
         else Inr None)
      else
        (case surfaceOp e of
           None \<Rightarrow> Inl (MissingSurfaceOp (ev_type e))
         | Some op \<Rightarrow>
             if op = JStr ''append'' then Inr (Some OpAppend)
             else
               (case op of
                  JObj ps \<Rightarrow>
                    (case replaceOpOf ps of
                       None \<Rightarrow> Inl (InvalidReplaceOp (ev_type e))
                     | Some (s, t) \<Rightarrow> Inr (Some (OpReplace s t)))
                | _ \<Rightarrow> Inl (InvalidSurfaceOp (ev_type e)))))"

text \<open>
  The sources cited by an event: in the loop the first element that is no sequence number throws
  at once; duplicates and non-earlier sources are reported after it.
\<close>

definition citedSources :: "event \<Rightarrow> surface_error + nat list" where
  "citedSources e =
     (case sourceEventSeqs e of
        None \<Rightarrow> Inr []
      | Some (JArr raw) \<Rightarrow>
          if raw = [] \<and> ev_type e \<noteq> ''assistant/message'' then Inl SourcesEmpty
          else
            bindR (mapM (\<lambda>j. case eventSeqOf j of
                      None \<Rightarrow> Inl (SourceNotSeq (ev_type e)) | Some s \<Rightarrow> Inr s) raw)
              (\<lambda>sources.
                 if \<not> distinct sources then Inl SourcesDuplicate
                 else (case find (\<lambda>s. s \<ge> seq e) sources of
                         Some s \<Rightarrow> Inl (SourceNotEarlier s (seq e))
                       | None \<Rightarrow> Inr sources))
      | Some _ \<Rightarrow> Inl (SourcesNotArray (seq e)))"

definition assertProvenance :: "event \<Rightarrow> nat list \<Rightarrow> surface_error + unit" where
  "assertProvenance e shadowed =
     bindR (citedSources e)
       (\<lambda>sources.
          let missing = filter (\<lambda>s. s \<notin> set sources) shadowed
          in if missing \<noteq> [] then Inl (ShadowedNotCited missing) else Inr ())"

definition replacementRange ::
  "fold_state \<Rightarrow> nat \<Rightarrow> nat \<Rightarrow> surface_error + (nat \<times> nat \<times> nat list)" where
  "replacementRange st s t =
     (case indexOf (nodes st) s of
        None \<Rightarrow> Inl (StartNotFound s)
      | Some i \<Rightarrow>
          (case indexOf (nodes st) t of
             None \<Rightarrow> Inl (EndNotFound t)
           | Some j \<Rightarrow>
               if i > j then Inl (StartAfterEnd s i t j)
               else Inr (i, j, take (j + 1 - i) (drop i (nodes st)))))"

text \<open>
  The comparison of a tool-result rewrite: both payloads with the content of the one result block
  blanked must be deeply equal. \<^verbatim>\<open>meta\<close> is arbitrary JSON, every other field is scalar.
\<close>

definition equalBesidesContent :: "tool_result \<Rightarrow> tool_result \<Rightarrow> bool" where
  "equalBesidesContent a b \<longleftrightarrow>
     tr_turn a = tr_turn b \<and> tr_step a = tr_step b
     \<and> (tr_message a)\<lparr>tm_content := []\<rparr> = (tr_message b)\<lparr>tm_content := []\<rparr>
     \<and> tr_error a = tr_error b
     \<and> (case (tr_meta a, tr_meta b) of
          (None, None) \<Rightarrow> True
        | (Some x, Some y) \<Rightarrow> isDeepEqualJson x y
        | _ \<Rightarrow> False)"

text \<open>\<^verbatim>\<open>events[originalSeq - baseSeq]\<close>: the event of a sequence number in a loaded window.\<close>

definition eventAt :: "event list \<Rightarrow> nat \<Rightarrow> nat \<Rightarrow> event option" where
  "eventAt events base s =
     (if base \<le> s \<and> s - base < length events then Some (events ! (s - base)) else None)"

definition assertToolResultRewrite ::
  "event \<Rightarrow> nat list \<Rightarrow> event list \<Rightarrow> nat \<Rightarrow> surface_error + unit" where
  "assertToolResultRewrite e shadowed events base =
     (case ev_data e of
        ToolResult new \<Rightarrow>
          (case shadowed of
             [originalSeq] \<Rightarrow>
               (case map_option ev_data (eventAt events base originalSeq) of
                  Some (ToolResult old) \<Rightarrow>
                    if equalBesidesContent old new then Inr () else Inl RewriteBeyondContent
                | _ \<Rightarrow> Inl RewriteNotToolResult)
           | _ \<Rightarrow> Inl RewriteNotOne)
      | _ \<Rightarrow> Inr ())"

definition planSurfaceEvent ::
  "fold_state \<Rightarrow> event \<Rightarrow> nat \<Rightarrow> event list \<Rightarrow> nat \<Rightarrow> surface_error + surface_plan option" where
  "planSurfaceEvent st e expectedSeq events base =
     (if seq e \<noteq> expectedSeq then Inl (SeqNotContiguous (seq e) expectedSeq)
      else
        bindR (surfaceOpOf e)
          (\<lambda>op. case op of
              None \<Rightarrow> Inr None
            | Some OpAppend \<Rightarrow>
                bindR (assertProvenance e []) (\<lambda>_. Inr (Some (PlanAppend (seq e))))
            | Some (OpReplace s t) \<Rightarrow>
                bindR (replacementRange st s t)
                  (\<lambda>(i, j, shadowed).
                     bindR (assertProvenance e shadowed)
                       (\<lambda>_. bindR (assertToolResultRewrite e shadowed events base)
                          (\<lambda>_. Inr (Some (PlanReplace
                             \<lparr>rp_seq = seq e, rp_start = s, rp_end = t, rp_shadowed = shadowed\<rparr>
                             i j)))))))"

fun applySurfacePlan ::
  "fold_state \<Rightarrow> surface_plan option \<Rightarrow> fold_state \<times> fold_replacement option" where
  "applySurfacePlan st None = (st, None)"
| "applySurfacePlan st (Some (PlanAppend s)) = (st\<lparr>nodes := nodes st @ [s]\<rparr>, None)"
| "applySurfacePlan st (Some (PlanReplace r i j)) =
     (st\<lparr>nodes := splice_list (nodes st) i (j + 1 - i) [rp_seq r],
         replaceGeneration := replaceGeneration st + 1\<rparr>,
      Some r)"

definition applySurfaceEvent ::
  "fold_state \<Rightarrow> event \<Rightarrow> nat \<Rightarrow> event list \<Rightarrow> nat
    \<Rightarrow> surface_error + (fold_state \<times> fold_replacement option)" where
  "applySurfaceEvent st e expectedSeq events base =
     mapR (applySurfacePlan st) (planSurfaceEvent st e expectedSeq events base)"

text \<open>The loop of \<^verbatim>\<open>foldSurface\<close>, over the events from position \<open>index\<close> on.\<close>

fun foldSurfaceFrom ::
  "event list \<Rightarrow> fold_state \<Rightarrow> nat \<Rightarrow> event list
    \<Rightarrow> surface_error + (fold_state \<times> fold_replacement list)" where
  "foldSurfaceFrom events st index [] = Inr (st, [])"
| "foldSurfaceFrom events st index (e # es) =
     bindR (applySurfaceEvent st e index events 0)
       (\<lambda>(st', r). bindR (foldSurfaceFrom events st' (index + 1) es)
          (\<lambda>(st'', rs). Inr (st'', (case r of None \<Rightarrow> rs | Some x \<Rightarrow> x # rs))))"

definition foldSurface ::
  "event list \<Rightarrow> surface_error + (nat list \<times> fold_replacement list)" where
  "foldSurface events =
     mapR (\<lambda>(st, rs). (nodes st, rs)) (foldSurfaceFrom events createFoldState 0 events)"

section \<open>The incremental manager\<close>

text \<open>
  \<^verbatim>\<open>SurfaceManager\<close> over a log window that starts at \<open>sm_base\<close>. The log itself is shared
  with the session and passed to each operation; \<open>sm_next\<close> is \<^verbatim>\<open>_lastProcessedSeq + 1\<close>. The
  pending plan remembers the candidate by identity; here a candidate is identified by its value,
  and a plan is only reused for the event it was made for.
\<close>

record surface_manager =
  sm_state :: fold_state
  sm_base :: nat
  sm_next :: nat
  sm_pending :: "(event \<times> nat \<times> surface_plan option) option"

definition newSurfaceManager :: "nat \<Rightarrow> surface_manager" where
  "newSurfaceManager base =
     \<lparr>sm_state = createFoldState, sm_base = base, sm_next = base, sm_pending = None\<rparr>"

definition processOne ::
  "event list \<Rightarrow> surface_manager \<Rightarrow> event \<Rightarrow> surface_error + surface_manager" where
  "processOne events m e =
     bindR
       (case sm_pending m of
          Some (p, expected, plan) \<Rightarrow>
            if p = e \<and> expected = sm_next m
            then Inr (fst (applySurfacePlan (sm_state m) plan))
            else mapR fst (applySurfaceEvent (sm_state m) e (sm_next m) events (sm_base m))
        | None \<Rightarrow> mapR fst (applySurfaceEvent (sm_state m) e (sm_next m) events (sm_base m)))
       (\<lambda>st. Inr (m\<lparr>sm_state := st,
            sm_pending :=
              (case sm_pending m of
                 Some (p, expected, plan) \<Rightarrow> if expected \<le> sm_next m then None else sm_pending m
               | None \<Rightarrow> None),
            sm_next := sm_next m + 1\<rparr>))"

text \<open>
  The loop of \<^verbatim>\<open>_processDelta\<close>. A throw leaves the manager at the event it failed on, so the
  manager is returned beside the error.
\<close>

fun processLoop ::
  "event list \<Rightarrow> surface_manager \<Rightarrow> event list \<Rightarrow> surface_manager \<times> surface_error option" where
  "processLoop events m [] = (m, None)"
| "processLoop events m (e # es) =
     (case processOne events m e of
        Inl err \<Rightarrow> (m, Some err)
      | Inr m' \<Rightarrow> processLoop events m' es)"

definition processDelta ::
  "event list \<Rightarrow> surface_manager \<Rightarrow> surface_manager \<times> surface_error option" where
  "processDelta events m = processLoop events m (drop (sm_next m - sm_base m) events)"

definition validateNext ::
  "event list \<Rightarrow> surface_manager \<Rightarrow> event \<Rightarrow> surface_manager \<times> surface_error option" where
  "validateNext events m e =
     (case processDelta events m of
        (m', Some err) \<Rightarrow> (m', Some err)
      | (m', None) \<Rightarrow>
          (let expected = sm_base m' + length events
           in case planSurfaceEvent (sm_state m') e expected events (sm_base m') of
                Inl err \<Rightarrow> (m', Some err)
              | Inr plan \<Rightarrow> (m'\<lparr>sm_pending := Some (e, expected, plan)\<rparr>, None)))"

definition managerNodes ::
  "event list \<Rightarrow> surface_manager \<Rightarrow> surface_manager \<times> (surface_error + nat list)" where
  "managerNodes events m =
     (case processDelta events m of
        (m', Some err) \<Rightarrow> (m', Inl err)
      | (m', None) \<Rightarrow> (m', Inr (nodes (sm_state m'))))"

definition managerGeneration ::
  "event list \<Rightarrow> surface_manager \<Rightarrow> surface_manager \<times> (surface_error + nat)" where
  "managerGeneration events m =
     (case processDelta events m of
        (m', Some err) \<Rightarrow> (m', Inl err)
      | (m', None) \<Rightarrow> (m', Inr (replaceGeneration (sm_state m'))))"

end
