(* ===== verification/Surface_Facts.thy ===== *)
theory Surface_Facts
  imports Surface
begin

text \<open>
  Correctness of the surface fold: its invariant, what each accepted event does to the surface,
  that the fold over a longer log continues the fold over a shorter one, and that the incremental
  manager always shows the surface of the complete fold.
\<close>

section \<open>The fold as a log machine\<close>

text \<open>
  A live session accepts one event after the other: the state is the log so far and its surface.
  \<open>surfaceLog\<close> replays a whole log this way; \<open>foldSurface_eq_surfaceLog\<close> below shows that the
  fold of the source, which reads rewritten tool results from the complete log, computes the same.
\<close>

definition surfaceLogStep ::
  "event list \<times> fold_state \<Rightarrow> event \<Rightarrow> surface_error + (event list \<times> fold_state)" where
  "surfaceLogStep s e =
     mapR (\<lambda>(st, r). (fst s @ [e], st))
       (applySurfaceEvent (snd s) e (length (fst s)) (fst s) 0)"

definition surfaceLog :: "event list \<Rightarrow> surface_error + fold_state" where
  "surfaceLog es = mapR snd (runR surfaceLogStep ([], createFoldState) es)"

definition surfaceInv :: "event list \<times> fold_state \<Rightarrow> bool" where
  "surfaceInv s \<longleftrightarrow>
     distinct (nodes (snd s))
     \<and> (\<forall>n \<in> set (nodes (snd s)).
          n < length (fst s) \<and> isSurfaceEvent (fst s ! n) \<and> seq (fst s ! n) = n)"

section \<open>One accepted event\<close>

lemma eventSeqOf_SomeD: "eventSeqOf j = Some n \<Longrightarrow> j = JNum (of_nat n) \<and> safeInt (int n)"
  by (cases j) (auto split: option.splits if_splits dest!: ratInt_SomeD)

lemma eventSeqOf_of_nat: "eventSeqOf (JNum (of_nat n)) = (if safeInt (int n) then Some n else None)"
  by simp

lemma replacementRange_InrD:
  assumes "replacementRange st s t = Inr (i, j, shadowed)"
  shows "i \<le> j" and "j < length (nodes st)"
    and "shadowed = spliced_out (nodes st) i (j + 1 - i)"
    and "nodes st ! i = s" and "nodes st ! j = t"
  using assms
  by (auto simp: replacementRange_def spliced_out_def split: option.splits if_splits
      dest!: indexOf_SomeD)

lemma surfaceOpOf_eligible:
  "surfaceOpOf e = Inr (Some op) \<Longrightarrow> isSurfaceEvent e"
  by (auto simp: surfaceOpOf_def isSurfaceEvent_def split: if_splits option.splits)

lemma surfaceOpOf_None:
  "surfaceOpOf e = Inr None \<Longrightarrow> \<not> isSurfaceEligibleType (ev_type e)"
  by (auto simp: surfaceOpOf_def split: if_splits option.splits json.splits)

lemma planSurfaceEvent_cases:
  assumes "planSurfaceEvent st e n events base = Inr plan"
  obtains (skip) "seq e = n" "plan = None" "\<not> isSurfaceEligibleType (ev_type e)"
  | (append) "seq e = n" "plan = Some (PlanAppend n)" "isSurfaceEvent e"
      "surfaceOpOf e = Inr (Some OpAppend)"
  | (replace) s t i j shadowed where
      "seq e = n" "isSurfaceEvent e" "surfaceOpOf e = Inr (Some (OpReplace s t))"
      "replacementRange st s t = Inr (i, j, shadowed)"
      "assertProvenance e shadowed = Inr ()"
      "assertToolResultRewrite e shadowed events base = Inr ()"
      "plan = Some (PlanReplace
         \<lparr>rp_seq = n, rp_start = s, rp_end = t, rp_shadowed = shadowed\<rparr> i j)"
proof -
  from assms have n: "seq e = n"
    by (simp add: planSurfaceEvent_def split: if_splits)
  with assms obtain op where op: "surfaceOpOf e = Inr op"
    by (auto simp: planSurfaceEvent_def result_simps)
  show thesis
  proof (cases op)
    case None
    then show thesis
      using assms op n skip surfaceOpOf_None [of e] by (auto simp: planSurfaceEvent_def)
  next
    case (Some o')
    show thesis
    proof (cases o')
      case OpAppend
      then show thesis
        using assms op n Some append surfaceOpOf_eligible [OF op [unfolded Some]]
        by (auto simp: planSurfaceEvent_def result_simps)
    next
      case (OpReplace s t)
      then show thesis
        using assms op n Some replace surfaceOpOf_eligible [OF op [unfolded Some]]
        by (auto simp: planSurfaceEvent_def result_simps)
    qed
  qed
qed

lemma applySurfaceEvent_Inr:
  "applySurfaceEvent st e n events base = Inr (st', r)
    \<longleftrightarrow> (\<exists>plan. planSurfaceEvent st e n events base = Inr plan
          \<and> applySurfacePlan st plan = (st', r))"
  by (auto simp: applySurfaceEvent_def result_simps)

lemma applySurfaceEvent_state:
  "mapR fst (applySurfaceEvent st e n es base) =
     mapR (\<lambda>plan. fst (applySurfacePlan st plan)) (planSurfaceEvent st e n es base)"
  by (cases "planSurfaceEvent st e n es base") (auto simp: applySurfaceEvent_def)

lemma surfaceLogStep_Inr:
  "surfaceLogStep (es, st) e = Inr s' \<longleftrightarrow>
     (\<exists>plan. planSurfaceEvent st e (length es) es 0 = Inr plan
        \<and> s' = (es @ [e], fst (applySurfacePlan st plan)))"
  by (cases "planSurfaceEvent st e (length es) es 0")
    (auto simp: surfaceLogStep_def applySurfaceEvent_def split: prod.split)

text \<open>What one accepted event does to the surface, in terms of the log it extends.\<close>

lemma surfaceInv_step:
  assumes inv: "surfaceInv s" and step: "surfaceLogStep s e = Inr s'"
  shows "surfaceInv s'"
proof -
  obtain es st where s: "s = (es, st)" by fastforce
  from step obtain plan where
    plan: "planSurfaceEvent st e (length es) es 0 = Inr plan" and
    s': "s' = (es @ [e], fst (applySurfacePlan st plan))"
    using surfaceLogStep_Inr s by auto
  have old: "\<forall>n \<in> set (nodes st). n < length es" "distinct (nodes st)"
    and kept: "\<forall>n \<in> set (nodes st). isSurfaceEvent ((es @ [e]) ! n) \<and> seq ((es @ [e]) ! n) = n"
    using inv by (auto simp: surfaceInv_def s nth_append)
  show ?thesis using plan
  proof (cases rule: planSurfaceEvent_cases)
    case skip
    then show ?thesis using old kept by (auto simp: s' surfaceInv_def)
  next
    case append
    then show ?thesis using old kept by (fastforce simp: s' surfaceInv_def)
  next
    case (replace a b i j shadowed)
    have r: "i + (j + 1 - i) \<le> length (nodes st)"
      using replacementRange_InrD(1,2) [OF replace(4)] by simp
    have "distinct (splice_list (nodes st) i (j + 1 - i) [length es])"
      using old r by (intro distinct_splice_list) auto
    moreover have "set (splice_list (nodes st) i (j + 1 - i) [length es])
        \<subseteq> insert (length es) (set (nodes st))"
      using set_splice_list [of "nodes st" i "j + 1 - i" "[length es]"] by auto
    ultimately show ?thesis
      using replace(1,2,7) old kept by (fastforce simp: s' surfaceInv_def)
  qed
qed

lemma surfaceInv_init: "surfaceInv ([], createFoldState)"
  by (simp add: surfaceInv_def createFoldState_def)

interpretation surface: validating_fold surfaceLogStep "([], createFoldState)" surfaceInv
  by unfold_locales (auto intro: surfaceInv_init surfaceInv_step)

section \<open>The fold over a whole log\<close>

lemma surfaceLog_run:
  "runR surfaceLogStep (pre, st) es = Inr (es', st') \<Longrightarrow> es' = pre @ es"
proof (induction es arbitrary: pre st)
  case Nil
  then show ?case by simp
next
  case (Cons e es)
  then obtain st1 where "runR surfaceLogStep (pre @ [e], st1) es = Inr (es', st')"
    by (auto simp: bindR_Inr_iff surfaceLogStep_Inr)
  from Cons.IH [OF this] show ?case by simp
qed

lemma surfaceLog_iff:
  "surfaceLog es = Inr st \<longleftrightarrow> runR surfaceLogStep ([], createFoldState) es = Inr (es, st)"
  by (auto simp: surfaceLog_def result_simps dest: surfaceLog_run)

lemma surfaceLog_Nil [simp]: "surfaceLog [] = Inr createFoldState"
  by (simp add: surfaceLog_def)

lemma surfaceLog_snoc:
  "surfaceLog (es @ [e]) =
     bindR (surfaceLog es) (\<lambda>st. mapR (\<lambda>plan. fst (applySurfacePlan st plan))
       (planSurfaceEvent st e (length es) es 0))"
proof (cases "runR surfaceLogStep ([], createFoldState) es")
  case (Inl err)
  then show ?thesis by (simp add: surfaceLog_def runR_append)
next
  case (Inr s)
  then obtain st where s: "s = (es, st)"
    using surfaceLog_run by (metis append_Nil surj_pair)
  have log: "surfaceLog es = Inr st" using Inr s by (simp add: surfaceLog_def)
  have "surfaceLog (es @ [e]) = mapR snd (surfaceLogStep (es, st) e)"
    using Inr s by (simp add: surfaceLog_def runR_snoc)
  also have "\<dots> = mapR fst (applySurfaceEvent st e (length es) es 0)"
    by (cases "applySurfaceEvent st e (length es) es 0") (auto simp: surfaceLogStep_def)
  finally show ?thesis by (simp add: log applySurfaceEvent_state)
qed

lemma surfaceLog_inv: "surfaceLog es = Inr st \<Longrightarrow> surfaceInv (es, st)"
  using surface.inv_accepted by (simp add: surfaceLog_iff)

lemma surfaceLog_prefix:
  assumes "surfaceLog (xs @ ys) = Inr st"
  obtains st' where "surfaceLog xs = Inr st'"
proof -
  obtain s where "runR surfaceLogStep ([], createFoldState) xs = Inr s"
    using assms surface.prefix_state by (metis surfaceLog_iff)
  then show ?thesis using that by (cases s) (auto simp: surfaceLog_def)
qed

lemma surfaceLog_seq:
  "surfaceLog es = Inr st \<Longrightarrow> i < length es \<Longrightarrow> seq (es ! i) = i"
proof (induction es arbitrary: st rule: rev_induct)
  case Nil
  then show ?case by simp
next
  case (snoc e es)
  from snoc.prems(1) obtain st' plan where st': "surfaceLog es = Inr st'"
    and plan: "planSurfaceEvent st' e (length es) es 0 = Inr plan"
    by (auto simp: surfaceLog_snoc result_simps)
  have "seq e = length es" using plan by (cases rule: planSurfaceEvent_cases) auto
  with snoc.IH [OF st'] snoc.prems(2) show ?case by (auto simp: nth_append less_Suc_eq)
qed

text \<open>
  Validation reads the log only below the candidate, so a longer log gives the same verdict.
\<close>

lemma eventAt_local:
  "s < length es \<Longrightarrow> eventAt (es @ rest) 0 s = eventAt es 0 s"
  by (simp add: eventAt_def nth_append)

lemma replacementRange_shadowed_nodes:
  "replacementRange st s t = Inr (i, j, shadowed) \<Longrightarrow> set shadowed \<subseteq> set (nodes st)"
  using replacementRange_InrD(3) [of st s t i j shadowed]
  by (auto simp: spliced_out_def dest!: in_set_takeD in_set_dropD)

lemma planSurfaceEvent_local:
  assumes "\<forall>n \<in> set (nodes st). n < length es"
  shows "planSurfaceEvent st e n (es @ rest) 0 = planSurfaceEvent st e n es 0"
proof -
  have "assertToolResultRewrite e shadowed (es @ rest) 0 = assertToolResultRewrite e shadowed es 0"
    if "replacementRange st s t = Inr (i, j, shadowed)" for s t i j shadowed
  proof -
    have "\<forall>x \<in> set shadowed. x < length es"
      using replacementRange_shadowed_nodes [OF that] assms by auto
    then show ?thesis
      by (auto simp: assertToolResultRewrite_def eventAt_local split: event_data.split list.split)
  qed
  then have "bindR (replacementRange st s t)
      (\<lambda>(i, j, sh). bindR (assertProvenance e sh)
         (\<lambda>_. bindR (assertToolResultRewrite e sh (es @ rest) 0) (\<lambda>_. f i j sh)))
    = bindR (replacementRange st s t)
      (\<lambda>(i, j, sh). bindR (assertProvenance e sh)
         (\<lambda>_. bindR (assertToolResultRewrite e sh es 0) (\<lambda>_. f i j sh)))" for s t f
    by (cases "replacementRange st s t") (auto simp: split_def)
  then show ?thesis
    by (cases "surfaceOpOf e") (auto simp: planSurfaceEvent_def split: option.split surface_op.split)
qed

section \<open>The fold of the source is the log machine\<close>

lemma surfaceInv_below: "surfaceInv (es, st) \<Longrightarrow> \<forall>n \<in> set (nodes st). n < length es"
  by (simp add: surfaceInv_def)

lemma foldSurfaceFrom_eq:
  "surfaceInv (pre, st) \<Longrightarrow>
     mapR fst (foldSurfaceFrom (pre @ es) st (length pre) es)
       = mapR snd (runR surfaceLogStep (pre, st) es)"
proof (induction es arbitrary: pre st)
  case Nil
  then show ?case by simp
next
  case (Cons e es)
  have plan: "planSurfaceEvent st e (length pre) (pre @ e # es) 0
      = planSurfaceEvent st e (length pre) pre 0"
    using planSurfaceEvent_local [OF surfaceInv_below [OF Cons.prems]] .
  show ?case
  proof (cases "planSurfaceEvent st e (length pre) pre 0")
    case (Inl err)
    then show ?thesis
      using plan by (simp add: applySurfaceEvent_def surfaceLogStep_def)
  next
    case (Inr p)
    obtain st' r where st': "applySurfacePlan st p = (st', r)" by fastforce
    have step: "surfaceLogStep (pre, st) e = Inr (pre @ [e], st')"
      using Inr st' by (simp add: surfaceLogStep_Inr)
    have "mapR fst (foldSurfaceFrom ((pre @ [e]) @ es) st' (length (pre @ [e])) es)
        = mapR snd (runR surfaceLogStep (pre @ [e], st') es)"
      using surfaceInv_step [OF Cons.prems step] by (rule Cons.IH)
    then show ?thesis
      using plan Inr st' step
      by (cases "foldSurfaceFrom (pre @ e # es) st' (Suc (length pre)) es")
        (auto simp: applySurfaceEvent_def)
  qed
qed

text \<open>
  Claim C1: replaying a complete log with \<open>foldSurface\<close> and accepting its events one by one, as
  a live session does, give the same surface, or fail with the same error on the same logs.
\<close>

theorem foldSurface_eq_surfaceLog: "mapR fst (foldSurface es) = mapR nodes (surfaceLog es)"
proof -
  have eq: "surfaceLog es = mapR fst (foldSurfaceFrom es createFoldState 0 es)"
    using foldSurfaceFrom_eq [OF surfaceInv_init, of es] by (simp add: surfaceLog_def)
  show ?thesis
    by (cases "foldSurfaceFrom es createFoldState 0 es") (auto simp: foldSurface_def eq)
qed

section \<open>What an accepted event does\<close>

lemma surfaceLog_plan:
  assumes "surfaceLog (es @ [e]) = Inr st'"
  obtains st plan where "surfaceLog es = Inr st"
    and "planSurfaceEvent st e (length es) es 0 = Inr plan"
    and "st' = fst (applySurfacePlan st plan)"
  using assms by (auto simp: surfaceLog_snoc result_simps)

lemma citedSources_Inr:
  assumes "citedSources e = Inr sources"
  shows "distinct sources" and "\<forall>s \<in> set sources. s < seq e \<and> safeInt (int s)"
proof -
  have "distinct sources \<and> (\<forall>s \<in> set sources. s < seq e \<and> safeInt (int s))"
  proof (cases "sourceEventSeqs e")
    case None
    with assms show ?thesis by (simp add: citedSources_def)
  next
    case (Some j)
    with assms obtain raw where j: "j = JArr raw" by (cases j) (auto simp: citedSources_def)
    have elems: "mapM (\<lambda>j. case eventSeqOf j of
          None \<Rightarrow> Inl (SourceNotSeq (ev_type e)) | Some s \<Rightarrow> Inr s) raw = Inr sources"
      and dist: "distinct sources" and early: "find (\<lambda>s. s \<ge> seq e) sources = None"
      using assms Some j
      by (auto simp: citedSources_def result_simps split: if_splits option.splits)
    have "safeInt (int s)" if "s \<in> set sources" for s
      using elems that unfolding mapM_Inr_iff
      by (auto simp: in_set_conv_nth list_all2_conv_all_nth split: option.splits
          dest!: eventSeqOf_SomeD)
    with dist early show ?thesis by (auto simp: find_None_iff not_le)
  qed
  then show "distinct sources" and "\<forall>s \<in> set sources. s < seq e \<and> safeInt (int s)" by auto
qed

lemma assertProvenance_Inr:
  "assertProvenance e shadowed = Inr () \<longleftrightarrow>
     (\<exists>sources. citedSources e = Inr sources \<and> set shadowed \<subseteq> set sources)"
  by (auto simp: assertProvenance_def result_simps filter_empty_conv)

text \<open>
  Claim C2: an accepted replacement removes exactly the contiguous range of the surface between
  its two boundaries, puts its own sequence number there, keeps everything else in order, and
  cites every node it removes among its sources.
\<close>

theorem replace_effect:
  assumes "surfaceLog es = Inr st" and "surfaceLog (es @ [e]) = Inr st'"
    and "surfaceOpOf e = Inr (Some (OpReplace s t))"
  shows "\<exists>before shadowed after sources.
     nodes st = before @ shadowed @ after \<and> shadowed \<noteq> [] \<and> hd shadowed = s \<and> last shadowed = t
     \<and> nodes st' = before @ [length es] @ after
     \<and> replaceGeneration st' = replaceGeneration st + 1
     \<and> citedSources e = Inr sources \<and> set shadowed \<subseteq> set sources"
proof -
  obtain plan where plan: "planSurfaceEvent st e (length es) es 0 = Inr plan"
    and st': "st' = fst (applySurfacePlan st plan)"
    using surfaceLog_plan [OF assms(2)] assms(1) by auto
  from plan obtain i j shadowed where range: "replacementRange st s t = Inr (i, j, shadowed)"
    and prov: "assertProvenance e shadowed = Inr ()"
    and p: "plan = Some (PlanReplace
       \<lparr>rp_seq = length es, rp_start = s, rp_end = t, rp_shadowed = shadowed\<rparr> i j)"
    using assms(3) surfaceOpOf_eligible [OF assms(3)]
    by (cases rule: planSurfaceEvent_cases) (auto simp: isSurfaceEvent_def)
  note r = replacementRange_InrD [OF range]
  have len: "length shadowed = j + 1 - i" using r(1,2,3) by (simp add: spliced_out_def)
  have "nodes st = take i (nodes st) @ shadowed @ drop (j + 1) (nodes st)"
    using splice_decompose [of i "j + 1 - i" "nodes st"] r(1,2,3) by simp
  moreover have ne: "shadowed \<noteq> []" using len r(1) by auto
  moreover have "hd shadowed = s"
    using r by (simp add: spliced_out_def hd_drop_conv_nth)
  moreover have "last shadowed = t"
  proof -
    have "last shadowed = shadowed ! (j - i)" using ne len r(1) by (simp add: last_conv_nth)
    also have "\<dots> = nodes st ! j" using r(1,2,3) by (simp add: spliced_out_def)
    finally show ?thesis using r(5) by simp
  qed
  moreover have "nodes st' = take i (nodes st) @ [length es] @ drop (j + 1) (nodes st)"
    using st' p r(1) by (simp add: splice_list_def)
  moreover have "replaceGeneration st' = replaceGeneration st + 1" using st' p by simp
  moreover obtain sources where "citedSources e = Inr sources" "set shadowed \<subseteq> set sources"
    using prov by (auto simp: assertProvenance_Inr)
  ultimately show ?thesis by blast
qed

text \<open>A sample log: two prompts, and a compaction of both into a third message.\<close>

definition sample_user :: "nat \<Rightarrow> event" where
  "sample_user n =
     \<lparr>seq = n, time = 0,
      ev_data = UserMsg \<lparr>msg_id = ''m'', msg_role = User, msg_content = [TextBlock ''hi''],
        msg_source = UserSource\<rparr>,
      surfaceOp = Some (JStr ''append''), sourceEventSeqs = None, ignorable = False\<rparr>"

definition sample_replace :: "nat \<Rightarrow> nat \<Rightarrow> nat \<Rightarrow> nat list \<Rightarrow> event" where
  "sample_replace n s t sources =
     (sample_user n)\<lparr>
       surfaceOp := Some (JObj [(''op'', JStr ''replace''), (''start'', JNum (of_nat s)),
         (''end'', JNum (of_nat t))]),
       sourceEventSeqs := Some (JArr (map (\<lambda>k. JNum (of_nat k)) sources))\<rparr>"

definition sample_result :: "string \<Rightarrow> tool_result" where
  "sample_result c =
     \<lparr>tr_turn = 1, tr_step = 1,
      tr_message = \<lparr>tm_id = ''r'', tm_sourceCallId = ''c'', tm_toolCallId = ''c'',
        tm_content = [TextBlock c], tm_isError = Some False\<rparr>,
      tr_error = None, tr_meta = None\<rparr>"

definition sample_tool :: "nat \<Rightarrow> string \<Rightarrow> event" where
  "sample_tool n c = (sample_user n)\<lparr>ev_data := ToolResult (sample_result c)\<rparr>"

lemma sample_log_1:
  "surfaceLog [sample_user 0, sample_user 1] = Inr \<lparr>nodes = [0, 1], replaceGeneration = 0\<rparr>"
  by code_simp

lemma sample_log_2:
  "surfaceLog [sample_user 0, sample_user 1, sample_replace 2 0 1 [0, 1]]
     = Inr \<lparr>nodes = [2], replaceGeneration = 1\<rparr>"
  by code_simp

theorem replace_effect_witness:
  "\<exists>before shadowed after sources.
     [0, 1] = before @ shadowed @ after \<and> shadowed \<noteq> [] \<and> hd shadowed = 0 \<and> last shadowed = 1
     \<and> [2] = before @ [2] @ after
     \<and> citedSources (sample_replace 2 0 1 [0, 1]) = Inr sources \<and> set shadowed \<subseteq> set sources"
proof -
  have op: "surfaceOpOf (sample_replace 2 0 1 [0, 1]) = Inr (Some (OpReplace 0 1))"
    by code_simp
  show ?thesis
    using replace_effect [OF sample_log_1 _ op] sample_log_2 by (simp add: numeral_2_eq_2)
qed

text \<open>
  A rewrite of a tool result: the message the surface shows afterwards differs from the one it
  replaces in the content of its result block only.
\<close>

theorem rewrite_keeps_identity:
  assumes "surfaceLog (es @ [e]) = Inr st'" and "ev_data e = ToolResult new"
    and "surfaceOpOf e = Inr (Some (OpReplace s t))"
  shows "\<exists>old. s = t \<and> s < length es \<and> ev_data (es ! s) = ToolResult old
     \<and> tr_turn new = tr_turn old \<and> tr_step new = tr_step old \<and> tr_error new = tr_error old
     \<and> (\<exists>c. tr_message new = (tr_message old)\<lparr>tm_content := c\<rparr>)"
proof -
  obtain st plan where plan: "planSurfaceEvent st e (length es) es 0 = Inr plan"
    using surfaceLog_plan [OF assms(1)] by blast
  from plan obtain i j shadowed where range: "replacementRange st s t = Inr (i, j, shadowed)"
    and rw: "assertToolResultRewrite e shadowed es 0 = Inr ()"
    using assms(3) surfaceOpOf_eligible [OF assms(3)]
    by (cases rule: planSurfaceEvent_cases) (auto simp: isSurfaceEvent_def)
  note r = replacementRange_InrD [OF range]
  from rw assms(2) obtain q where q: "shadowed = [q]"
    by (auto simp: assertToolResultRewrite_def split: list.splits)
  have "length shadowed = j + 1 - i" using r(1,2,3) by (simp add: spliced_out_def)
  with q r(1) have ij: "i = j" by simp
  have "shadowed ! 0 = nodes st ! i" using r(1,2,3) by (simp add: spliced_out_def)
  with q r(4,5) ij have st: "q = s" "s = t" by simp_all
  from rw assms(2) q obtain old where old: "map_option ev_data (eventAt es 0 q) = Some (ToolResult old)"
    and eq: "equalBesidesContent old new"
    by (auto simp: assertToolResultRewrite_def split: option.splits event_data.splits if_splits)
  have msg: "(tr_message old)\<lparr>tm_content := []\<rparr> = (tr_message new)\<lparr>tm_content := []\<rparr>"
    using eq by (simp add: equalBesidesContent_def)
  have "tr_message new = (tr_message old)\<lparr>tm_content := tm_content (tr_message new)\<rparr>"
    using msg by (cases "tr_message old"; cases "tr_message new") simp
  moreover have "s < length es \<and> ev_data (es ! s) = ToolResult old"
    using old st by (auto simp: eventAt_def split: if_splits)
  ultimately show ?thesis using eq st by (auto simp: equalBesidesContent_def)
qed

theorem rewrite_keeps_identity_witness:
  "\<exists>old. (1::nat) < 2 \<and> ev_data (sample_tool 1 ''a'') = ToolResult old
     \<and> (\<exists>c. tr_message (sample_result ''b'') = (tr_message old)\<lparr>tm_content := c\<rparr>)"
proof -
  let ?e = "(sample_tool 2 ''b'')\<lparr>surfaceOp := surfaceOp (sample_replace 2 1 1 [1]),
     sourceEventSeqs := sourceEventSeqs (sample_replace 2 1 1 [1])\<rparr>"
  have log: "surfaceLog ([sample_user 0, sample_tool 1 ''a''] @ [?e])
      = Inr \<lparr>nodes = [0, 2], replaceGeneration = 1\<rparr>" by code_simp
  have new: "ev_data ?e = ToolResult (sample_result ''b'')" by code_simp
  have op: "surfaceOpOf ?e = Inr (Some (OpReplace 1 1))" by code_simp
  show ?thesis using rewrite_keeps_identity [OF log new op] by auto
qed

section \<open>The incremental manager\<close>

text \<open>
  The states a manager of a complete log can be in: fresh; after an access; after a candidate was
  validated; after the log grew by a candidate that was validated last, whether or not that
  candidate was the one pushed.
\<close>

inductive managed :: "event list \<Rightarrow> surface_manager \<Rightarrow> bool" where
  fresh: "managed [] (newSurfaceManager 0)"
| access: "managed es m \<Longrightarrow> processDelta es m = (m', r) \<Longrightarrow> managed es m'"
| validated: "managed es m \<Longrightarrow> validateNext es m e = (m', r) \<Longrightarrow> managed es m'"
| admitted: "managed es m \<Longrightarrow> validateNext es m e = (m', None) \<Longrightarrow> managed (es @ [e]) m'"

text \<open>The invariant: the manager is the fold of a prefix, and a pending plan is still right.\<close>

definition managerInv :: "event list \<Rightarrow> surface_manager \<Rightarrow> bool" where
  "managerInv es m \<longleftrightarrow>
     sm_base m = 0 \<and> sm_next m \<le> length es
     \<and> surfaceLog (take (sm_next m) es) = Inr (sm_state m)
     \<and> (\<forall>p expected plan. sm_pending m = Some (p, expected, plan) \<longrightarrow>
          expected = sm_next m \<and> planSurfaceEvent (sm_state m) p expected es 0 = Inr plan)"

lemma processOne_step:
  assumes inv: "managerInv es m" and lt: "sm_next m < length es"
    and ok: "surfaceLog (take (Suc (sm_next m)) es) = Inr st"
  shows "\<exists>m'. processOne es m (es ! sm_next m) = Inr m' \<and> managerInv es m'
     \<and> sm_next m' = Suc (sm_next m) \<and> sm_state m' = st"
proof -
  let ?n = "sm_next m" and ?e = "es ! sm_next m"
  have take: "take (Suc ?n) es = take ?n es @ [?e]" using lt by (simp add: take_Suc_conv_app_nth)
  have pre: "surfaceLog (take ?n es) = Inr (sm_state m)" and base: "sm_base m = 0"
    using inv by (simp_all add: managerInv_def)
  have below: "\<forall>x \<in> set (nodes (sm_state m)). x < length (take ?n es)"
    using surfaceInv_below [OF surfaceLog_inv [OF pre]] .
  obtain plan where p0: "planSurfaceEvent (sm_state m) ?e ?n (take ?n es) 0 = Inr plan"
    and st: "st = fst (applySurfacePlan (sm_state m) plan)"
    using ok lt pre by (auto simp: take surfaceLog_snoc result_simps min_def)
  have plan: "planSurfaceEvent (sm_state m) ?e ?n es 0 = Inr plan"
    using planSurfaceEvent_local [OF below, of ?e ?n "drop ?n es"] p0 by simp
  have fresh: "mapR fst (applySurfaceEvent (sm_state m) ?e ?n es 0) = Inr st"
    by (simp add: applySurfaceEvent_state plan st)
  have next_inv: "managerInv es (m\<lparr>sm_state := st, sm_pending := None, sm_next := Suc ?n\<rparr>)"
    using base lt ok by (simp add: managerInv_def)
  show ?thesis
  proof (cases "sm_pending m")
    case None
    then show ?thesis using fresh next_inv base by (simp add: processOne_def)
  next
    case (Some q)
    obtain p expected pl where q: "q = (p, expected, pl)" by (cases q) auto
    have "expected = ?n" "planSurfaceEvent (sm_state m) p expected es 0 = Inr pl"
      using inv Some q by (auto simp: managerInv_def)
    then show ?thesis using Some q fresh next_inv base plan st by (auto simp: processOne_def)
  qed
qed

lemma processLoop_sync:
  assumes "managerInv es m" and "surfaceLog es = Inr st"
  shows "\<exists>m'. processLoop es m (drop (sm_next m) es) = (m', None) \<and> managerInv es m'
     \<and> sm_next m' = length es \<and> sm_state m' = st"
  using assms(1)
proof (induction "length es - sm_next m" arbitrary: m)
  case 0
  then have "sm_next m = length es" by (simp add: managerInv_def)
  then show ?case using 0 assms(2) by (auto simp: managerInv_def)
next
  case (Suc k)
  then have lt: "sm_next m < length es" by simp
  have "surfaceLog (take (Suc (sm_next m)) es @ drop (Suc (sm_next m)) es) = Inr st"
    using assms(2) by simp
  then obtain st1 where "surfaceLog (take (Suc (sm_next m)) es) = Inr st1"
    by (rule surfaceLog_prefix)
  then obtain m1 where m1: "processOne es m (es ! sm_next m) = Inr m1" "managerInv es m1"
      "sm_next m1 = Suc (sm_next m)"
    using processOne_step [OF Suc.prems lt] by blast
  have "k = length es - sm_next m1" using Suc.hyps(2) m1(3) by simp
  then obtain m' where "processLoop es m1 (drop (sm_next m1) es) = (m', None)" "managerInv es m'"
      "sm_next m' = length es" "sm_state m' = st"
    using Suc.hyps(1) m1(2) by blast
  moreover have "drop (sm_next m) es = es ! sm_next m # drop (sm_next m1) es"
    using lt m1(3) by (simp add: Cons_nth_drop_Suc)
  ultimately have "processLoop es m (drop (sm_next m) es) = (m', None)" by (simp add: m1(1))
  with \<open>managerInv es m'\<close> \<open>sm_next m' = length es\<close> \<open>sm_state m' = st\<close> show ?case by blast
qed

lemma processDelta_sync:
  assumes "managerInv es m" and "surfaceLog es = Inr st"
  obtains m' where "processDelta es m = (m', None)" and "managerInv es m'"
    and "sm_next m' = length es" and "sm_state m' = st"
proof -
  have "sm_base m = 0" using assms(1) by (simp add: managerInv_def)
  then have "processDelta es m = processLoop es m (drop (sm_next m) es)"
    by (simp add: processDelta_def)
  then show thesis using processLoop_sync [OF assms] that by metis
qed

lemma validateNext_sync:
  assumes inv: "managerInv es m" and ok: "surfaceLog es = Inr st"
    and v: "validateNext es m e = (m', r)"
  shows "managerInv es m'" and "r = None \<Longrightarrow> \<exists>st'. surfaceLog (es @ [e]) = Inr st' \<and>
     managerInv (es @ [e]) m'"
    and "r = (case planSurfaceEvent st e (length es) es 0 of Inl err \<Rightarrow> Some err | Inr _ \<Rightarrow> None)"
proof -
  obtain m1 where m1: "processDelta es m = (m1, None)" "managerInv es m1"
      "sm_next m1 = length es" "sm_state m1 = st"
    using processDelta_sync [OF inv ok] .
  have base: "sm_base m1 = 0" using m1(2) by (simp add: managerInv_def)
  have below: "\<forall>x \<in> set (nodes st). x < length es"
    using surfaceInv_below [OF surfaceLog_inv [OF ok]] .
  have "managerInv es m' \<and> (r = None \<longrightarrow> (\<exists>st'. surfaceLog (es @ [e]) = Inr st' \<and>
     managerInv (es @ [e]) m')) \<and>
     r = (case planSurfaceEvent st e (length es) es 0 of Inl err \<Rightarrow> Some err | Inr _ \<Rightarrow> None)"
  proof (cases "planSurfaceEvent st e (length es) es 0")
    case (Inl err)
    then show ?thesis using v m1 base by (auto simp: validateNext_def Let_def)
  next
    case (Inr plan)
    have m': "m' = m1\<lparr>sm_pending := Some (e, length es, plan)\<rparr>" "r = None"
      using v m1 base Inr by (auto simp: validateNext_def Let_def)
    have "planSurfaceEvent st e (length es) (es @ [e]) 0 = Inr plan"
      using planSurfaceEvent_local [OF below] Inr by simp
    then show ?thesis using m' m1 base Inr ok
      by (auto simp: managerInv_def surfaceLog_snoc)
  qed
  then show "managerInv es m'" and "r = None \<Longrightarrow> \<exists>st'. surfaceLog (es @ [e]) = Inr st' \<and>
     managerInv (es @ [e]) m'"
    and "r = (case planSurfaceEvent st e (length es) es 0 of Inl err \<Rightarrow> Some err | Inr _ \<Rightarrow> None)"
    by blast+
qed

lemma managed_inv: "managed es m \<Longrightarrow> managerInv es m \<and> (\<exists>st. surfaceLog es = Inr st)"
proof (induction rule: managed.induct)
  case fresh
  then show ?case by (simp add: managerInv_def newSurfaceManager_def)
next
  case (access es m m' r)
  then show ?case by (metis processDelta_sync prod.inject)
next
  case (validated es m e m' r)
  then show ?case using validateNext_sync(1) by blast
next
  case (admitted es m e m')
  then show ?case using validateNext_sync(2) by blast
qed

text \<open>
  Result: whatever was validated, vetoed, admitted or read before, the incremental manager
  shows the nodes of the complete fold, and it never throws.
\<close>

theorem manager_shows_fold:
  assumes "managed es m"
  shows "\<exists>st. surfaceLog es = Inr st
     \<and> snd (managerNodes es m) = Inr (nodes st)
     \<and> snd (managerGeneration es m) = Inr (replaceGeneration st)"
proof -
  obtain st where st: "surfaceLog es = Inr st" and inv: "managerInv es m"
    using managed_inv [OF assms] by blast
  obtain m' where "processDelta es m = (m', None)" "sm_state m' = st"
    using processDelta_sync [OF inv st] .
  with st show ?thesis by (simp add: managerNodes_def managerGeneration_def)
qed

theorem manager_shows_fold_witness:
  "\<exists>m st. surfaceLog [sample_user 0] = Inr st
     \<and> snd (managerNodes [sample_user 0] m) = Inr (nodes st)
     \<and> snd (managerGeneration [sample_user 0] m) = Inr (replaceGeneration st)"
proof -
  have "snd (validateNext [] (newSurfaceManager 0) (sample_user 0)) = None" by code_simp
  then have "managed ([] @ [sample_user 0])
      (fst (validateNext [] (newSurfaceManager 0) (sample_user 0)))"
    by (intro managed.admitted [OF managed.fresh]) (simp add: prod_eq_iff)
  from manager_shows_fold [OF this] show ?thesis by auto
qed

end
