(* ===== verification/Seed_Shape.thy ===== *)
theory Seed_Shape
  imports Session_Types
begin

text \<open>
  The validators at the seed and load boundary of
  \<^verbatim>\<open>packages/core/session/src/index.ts\<close>: the storage header, the event envelope, request
  headers and message shapes. They read values of which nothing is known but that they are
  JSON, so they work on \<open>json\<close>; \<open>jprop\<close> reads an own property.
\<close>

section \<open>The storage header\<close>

record session_header =
  sh_version :: int
  sh_id :: string
  sh_createdAt :: int
  sh_cwd :: "string option"
  sh_parentSession :: "string option"
  sh_seedLength :: "nat option"
  sh_subagentOrigin :: bool
  sh_delegationDepth :: "nat option"
  sh_agentPreset :: "string option"

definition SESSION_FORMAT_VERSION :: int where
  "SESSION_FORMAT_VERSION = 0"

datatype header_error =
    HeaderNotRecord
  | HeaderVersion
  | HeaderIdMismatch
  | HeaderCreatedAt
  | HeaderCwdType
  | HeaderCwdRelative string
  | HeaderParentType
  | HeaderSeedLength
  | HeaderOrigin
  | HeaderDelegationDepth
  | HeaderAgentPreset
  | HeaderNotJson

text \<open>\<^verbatim>\<open>isAbsolute\<close> of \<^verbatim>\<open>node:path\<close> on POSIX systems.\<close>

definition isAbsolute :: "string \<Rightarrow> bool" where
  "isAbsolute p \<longleftrightarrow> p \<noteq> [] \<and> hd p = CHR ''/''"

fun strOf :: "json \<Rightarrow> string option" where
  "strOf (JStr s) = Some s"
| "strOf _ = None"

text \<open>
  An optional property: absent is fine, present must have the given reading. The error is the
  one thrown for a present value of another shape.
\<close>

definition optionalField ::
  "(json \<Rightarrow> 'a option) \<Rightarrow> 'err \<Rightarrow> string \<Rightarrow> json \<Rightarrow> 'err + 'a option" where
  "optionalField read err k j =
     (case jprop k j of
        None \<Rightarrow> Inr None
      | Some v \<Rightarrow> (case read v of None \<Rightarrow> Inl err | Some x \<Rightarrow> Inr (Some x)))"

fun nonNegSafeInt :: "json \<Rightarrow> nat option" where
  "nonNegSafeInt (JNum r) =
     (case ratInt r of
        None \<Rightarrow> None
      | Some n \<Rightarrow> if safeInt n \<and> n \<ge> 0 then Some (nat n) else None)"
| "nonNegSafeInt _ = None"

definition validateSessionHeader :: "string \<Rightarrow> json \<Rightarrow> header_error + session_header" where
  "validateSessionHeader sid input =
     (if \<not> isObject input then Inl HeaderNotRecord
      else if jprop ''version'' input \<noteq> Some (JNum (of_int SESSION_FORMAT_VERSION))
        then Inl HeaderVersion
      else if jprop ''id'' input \<noteq> Some (JStr sid) then Inl HeaderIdMismatch
      else case Option.bind (jprop ''createdAt'' input) nonNegSafeInt of
        None \<Rightarrow> Inl HeaderCreatedAt
      | Some created \<Rightarrow>
          bindR (optionalField strOf HeaderCwdType ''cwd'' input) (\<lambda>cwd.
          if (case cwd of None \<Rightarrow> False | Some p \<Rightarrow> \<not> isAbsolute p)
            then Inl (HeaderCwdRelative (the cwd))
          else
          bindR (optionalField strOf HeaderParentType ''parentSession'' input) (\<lambda>parent.
          bindR (optionalField nonNegSafeInt HeaderSeedLength ''seedLength'' input) (\<lambda>seedLen.
          bindR (optionalField (\<lambda>v. if v = JStr ''subagent'' then Some True else None)
                   HeaderOrigin ''origin'' input) (\<lambda>origin.
          bindR (optionalField nonNegSafeInt HeaderDelegationDepth ''delegationDepth'' input) (\<lambda>depth.
          bindR (optionalField strOf HeaderAgentPreset ''agentPreset'' input) (\<lambda>preset.
          Inr \<lparr>sh_version = SESSION_FORMAT_VERSION, sh_id = sid, sh_createdAt = int created,
               sh_cwd = cwd, sh_parentSession = parent, sh_seedLength = seedLen,
               sh_subagentOrigin = (origin = Some True), sh_delegationDepth = depth,
               sh_agentPreset = preset\<rparr>)))))))"

section \<open>The event envelope\<close>

datatype seed_error =
    LegacyHeaderDelta
  | LegacyFallbackReason
  | InvalidEnvelope
  | NoProviderModel
  | InvalidReasoningEffort
  | InvalidAdapterDefaults
  | NotIdentified
  | WrongRole
  | InvalidSource
  | InvalidContent
  | NoModelSource
  | NoToolSource
  | NotOneToolResult
  | MismatchedCallIds

fun nonEmptyStr :: "json option \<Rightarrow> bool" where
  "nonEmptyStr (Some (JStr s)) = (s \<noteq> [])"
| "nonEmptyStr _ = False"

definition hasProviderModel :: "json option \<Rightarrow> bool" where
  "hasProviderModel value =
     (case value of
        None \<Rightarrow> False
      | Some v \<Rightarrow> nonEmptyStr (jprop ''provider'' v) \<and> nonEmptyStr (jprop ''model'' v))"

definition allowedAdapterKeys :: "string list" where
  "allowedAdapterKeys = [''reasoningEffort'', ''maxTokens'']"

definition assertAdapterDefaults :: "json option \<Rightarrow> json \<Rightarrow> seed_error + unit" where
  "assertAdapterDefaults value config =
     (case value of
        None \<Rightarrow> Inr ()
      | Some (JObj ps) \<Rightarrow>
          if (\<exists>p \<in> set ps. fst p \<notin> set allowedAdapterKeys)
            \<or> (\<exists>p \<in> set ps. snd p \<noteq> JBool True)
            \<or> map_of ps ''reasoningEffort'' = Some (JBool True)
                \<and> jprop ''reasoningEffort'' config = None
            \<or> map_of ps ''maxTokens'' = Some (JBool True) \<and> jprop ''maxTokens'' config = None
          then Inl InvalidAdapterDefaults
          else Inr ()
      | Some _ \<Rightarrow> Inl InvalidAdapterDefaults)"

definition isMessageType :: "string \<Rightarrow> bool" where
  "isMessageType t \<longleftrightarrow> t \<in> set [''user/message'', ''assistant/message'', ''tool/result'']"

definition assertMessageEventShape :: "string \<Rightarrow> json \<Rightarrow> seed_error + unit" where
  "assertMessageEventShape t data =
     (if \<not> isMessageType t then Inr ()
      else
        let message = (if t = ''user/message'' then Some data else jprop ''message'' data);
            mprop = (\<lambda>k. Option.bind message (jprop k));
            source = mprop ''source'';
            sprop = (\<lambda>k. Option.bind source (jprop k))
        in
        if \<not> nonEmptyStr (mprop ''id'') then Inl NotIdentified
        else if mprop ''role''
            \<noteq> Some (JStr (if t = ''assistant/message'' then ''assistant'' else ''user''))
          then Inl WrongRole
        else if \<not> nonEmptyStr (sprop ''kind'') then Inl InvalidSource
        else case mprop ''content'' of
          Some (JArr content) \<Rightarrow>
            if t = ''assistant/message'' then
              (if sprop ''kind'' \<noteq> Some (JStr ''model'') \<or> \<not> hasProviderModel source
               then Inl NoModelSource else Inr ())
            else if t \<noteq> ''tool/result'' then Inr ()
            else if sprop ''kind'' \<noteq> Some (JStr ''tool'') \<or> \<not> nonEmptyStr (sprop ''callId'')
              then Inl NoToolSource
            else (case content of
                [block] \<Rightarrow>
                  if jprop ''type'' block \<noteq> Some (JStr ''tool-result'')
                    \<or> (case jprop ''content'' block of Some (JArr _) \<Rightarrow> False | _ \<Rightarrow> True)
                  then Inl NotOneToolResult
                  else if jprop ''toolCallId'' block \<noteq> sprop ''callId''
                    then Inl MismatchedCallIds
                  else Inr ()
              | _ \<Rightarrow> Inl NotOneToolResult)
        | _ \<Rightarrow> Inl InvalidContent)"

definition assertCurrentLlmShape :: "string \<Rightarrow> json \<Rightarrow> seed_error + unit" where
  "assertCurrentLlmShape t data =
     (if t = ''request/header'' then
        (let header = (case jprop ''header'' data of Some (JObj hs) \<Rightarrow> Some (JObj hs) | _ \<Rightarrow> None);
             config = Option.bind header (jprop ''config'')
         in if \<not> hasProviderModel config then Inl NoProviderModel
            else (let effort = jprop ''reasoningEffort'' (the config)
                  in if effort \<noteq> None \<and> \<not> nonEmptyStr effort then Inl InvalidReasoningEffort
                     else assertAdapterDefaults
                       (Option.bind header (jprop ''adapterDefaults'')) (the config)))
      else assertMessageEventShape t data)"

definition envelopeKeys :: "string list" where
  "envelopeKeys = [''type'', ''seq'', ''time'', ''data'', ''surfaceOp'', ''sourceEventSeqs'',
     ''ignorable'']"

fun safeIntOf :: "json \<Rightarrow> int option" where
  "safeIntOf (JNum r) =
     (case ratInt r of None \<Rightarrow> None | Some n \<Rightarrow> if safeInt n then Some n else None)"
| "safeIntOf _ = None"

definition assertSessionEventEnvelope :: "json \<Rightarrow> seed_error + unit" where
  "assertSessionEventEnvelope value =
     (if jprop ''type'' value = Some (JStr ''request/header-delta'') then Inl LegacyHeaderDelta
      else if \<exists>k \<in> set (objectKeys value). k \<notin> set envelopeKeys then Inl InvalidEnvelope
      else
        case (Option.bind (jprop ''type'' value) strOf,
              Option.bind (jprop ''seq'' value) nonNegSafeInt,
              Option.bind (jprop ''time'' value) safeIntOf,
              jprop ''data'' value) of
          (Some t, Some _, Some _, Some data) \<Rightarrow>
            if jprop ''ignorable'' value \<notin> {None, Some (JBool True)} then Inl InvalidEnvelope
            else if t \<in> set [''request/header'', ''user/message'', ''assistant/message'',
                ''tool/result'']
              then assertCurrentLlmShape t data
            else Inr ()
        | _ \<Rightarrow> Inl InvalidEnvelope)"

text \<open>
  \<^verbatim>\<open>assertSupportedRequestHeader\<close>: the removed delta type and the removed reason. The
  reason of a \<^verbatim>\<open>request/header\<close> payload that has one is passed as \<open>Some\<close>.
\<close>

definition assertSupportedRequestHeader :: "string \<Rightarrow> string option \<Rightarrow> seed_error + unit" where
  "assertSupportedRequestHeader t reason =
     (if t = ''request/header-delta'' then Inl LegacyHeaderDelta
      else if t = ''request/header'' \<and> reason = Some ''fallback'' then Inl LegacyFallbackReason
      else Inr ())"

section \<open>The typed reading of an accepted envelope\<close>

text \<open>
  After validation the code uses the object as a \<^verbatim>\<open>SessionEvent\<close>. The reading of the
  payload at its tag is a parameter, because the code trusts the static type there; every other
  field is read from the object.
\<close>

definition readEvent :: "(string \<Rightarrow> json \<Rightarrow> event_data) \<Rightarrow> json \<Rightarrow> event" where
  "readEvent payload value =
     \<lparr>seq = (case Option.bind (jprop ''seq'' value) nonNegSafeInt of Some n \<Rightarrow> n | None \<Rightarrow> 0),
      time = (case Option.bind (jprop ''time'' value) safeIntOf of Some n \<Rightarrow> n | None \<Rightarrow> 0),
      ev_data = payload
        (case Option.bind (jprop ''type'' value) strOf of Some t \<Rightarrow> t | None \<Rightarrow> [])
        (case jprop ''data'' value of Some d \<Rightarrow> d | None \<Rightarrow> JNull),
      surfaceOp = jprop ''surfaceOp'' value,
      sourceEventSeqs = jprop ''sourceEventSeqs'' value,
      ignorable = (jprop ''ignorable'' value = Some (JBool True))\<rparr>"

section \<open>What the validators guarantee\<close>

lemma nonEmptyStr_iff: "nonEmptyStr v \<longleftrightarrow> (\<exists>s. v = Some (JStr s) \<and> s \<noteq> [])"
  by (cases v rule: nonEmptyStr.cases) auto

text \<open>
  Result: an accepted tool result names one call everywhere: its source, and the only block of
  its content, carry the same non-empty call id, and the message has the user role.
\<close>

theorem accepted_tool_result_pairs:
  assumes "assertMessageEventShape ''tool/result'' data = Inr ()"
  shows "\<exists>message source block c. jprop ''message'' data = Some message
     \<and> jprop ''role'' message = Some (JStr ''user'')
     \<and> jprop ''source'' message = Some source \<and> jprop ''content'' message = Some (JArr [block])
     \<and> c \<noteq> [] \<and> jprop ''callId'' source = Some (JStr c)
     \<and> jprop ''toolCallId'' block = Some (JStr c)"
proof -
  obtain message where m: "jprop ''message'' data = Some message"
    using assms by (cases "jprop ''message'' data")
      (auto simp: assertMessageEventShape_def isMessageType_def)
  obtain source where s: "jprop ''source'' message = Some source"
    using assms m by (cases "jprop ''source'' message")
      (auto simp: assertMessageEventShape_def isMessageType_def Let_def split: if_splits)
  show ?thesis
    using assms m s
    by (auto simp: assertMessageEventShape_def isMessageType_def nonEmptyStr_iff Let_def
        split: if_splits option.splits json.splits list.splits)
qed

text \<open>
  Result: an accepted envelope has a tag, a non-negative safe sequence number, a safe time and a
  payload, and no key the log does not know.
\<close>

theorem accepted_envelope:
  assumes "assertSessionEventEnvelope value = Inr ()"
  shows "set (objectKeys value) \<subseteq> set envelopeKeys
     \<and> (\<exists>t n tm d. jprop ''type'' value = Some (JStr t)
          \<and> jprop ''seq'' value = Some (JNum (of_nat n)) \<and> safeInt (int n)
          \<and> jprop ''time'' value = Some (JNum (of_int tm)) \<and> safeInt tm
          \<and> jprop ''data'' value = Some d)"
proof -
  have str: "Option.bind v strOf = Some t \<Longrightarrow> v = Some (JStr t)" for v t
    by (cases v; cases "the v") auto
  have nn: "Option.bind v nonNegSafeInt = Some n \<Longrightarrow> v = Some (JNum (of_nat n)) \<and> safeInt (int n)"
    for v n
    by (cases v; cases "the v") (auto split: option.splits if_splits dest!: ratInt_SomeD)
  have si: "Option.bind v safeIntOf = Some n \<Longrightarrow> v = Some (JNum (of_int n)) \<and> safeInt n" for v n
    by (cases v; cases "the v") (auto split: option.splits if_splits dest!: ratInt_SomeD)
  show ?thesis
    using assms
    by (auto simp: assertSessionEventEnvelope_def split: if_splits option.splits
        dest!: str nn si)
qed

end
