(* ===== verification/Request_Header.thy ===== *)
theory Request_Header
  imports Session_Types
begin

text \<open>
  \<^verbatim>\<open>packages/core/session/src/request-header.ts\<close> and the configuration equality of
  \<^verbatim>\<open>packages/llm/llm/src/call-config.ts\<close>: the header a request was built under is the latest
  canonical snapshot of the log. Tool schemas are JSON values; two of them are the same when
  their \<^verbatim>\<open>JSON.stringify\<close> texts are, that is when they agree with their key order.
\<close>

definition callConfigEquals :: "call_config \<Rightarrow> call_config \<Rightarrow> bool" where
  "callConfigEquals a b \<longleftrightarrow>
     cfg_provider a = cfg_provider b \<and> cfg_model a = cfg_model b
     \<and> cfg_reasoningEffort a = cfg_reasoningEffort b \<and> cfg_temperature a = cfg_temperature b
     \<and> cfg_maxTokens a = cfg_maxTokens b
     \<and> (case (cfg_stop a, cfg_stop b) of
          (Some xs, Some ys) \<Rightarrow>
            length xs = length ys \<and> list_all (\<lambda>i. xs ! i = ys ! i) [0..<length xs]
        | (x, y) \<Rightarrow> x = y)"

definition canonicalHeader :: "epoch_header \<Rightarrow> epoch_header" where
  "canonicalHeader h =
     \<lparr>eh_config = eh_config h,
      eh_adapterDefaults =
        (case eh_adapterDefaults h of
           None \<Rightarrow> None
         | Some d \<Rightarrow> if ad_reasoningEffort d \<or> ad_maxTokens d then Some d else None),
      eh_system =
        (case eh_system h of
           None \<Rightarrow> None
         | Some s \<Rightarrow> if length s > 0 then Some s else None),
      eh_tools =
        (case eh_tools h of
           None \<Rightarrow> None
         | Some ts \<Rightarrow> if length ts > 0 then Some ts else None)\<rparr>"

definition sameSchema :: "json \<Rightarrow> json \<Rightarrow> bool" where
  "sameSchema a b \<longleftrightarrow> a = b"

definition headerEquals :: "epoch_header \<Rightarrow> epoch_header \<Rightarrow> bool" where
  "headerEquals a b =
     (let marker = (\<lambda>f h. case eh_adapterDefaults h of None \<Rightarrow> False | Some d \<Rightarrow> f d);
          toolsOf = (\<lambda>h. case eh_tools h of None \<Rightarrow> [] | Some ts \<Rightarrow> ts)
      in if \<not> callConfigEquals (eh_config a) (eh_config b)
           \<or> marker ad_reasoningEffort a \<noteq> marker ad_reasoningEffort b
           \<or> marker ad_maxTokens a \<noteq> marker ad_maxTokens b
           \<or> eh_system a \<noteq> eh_system b
         then False
         else length (toolsOf a) = length (toolsOf b)
           \<and> list_all (\<lambda>i. sameSchema (toolsOf a ! i) (toolsOf b ! i)) [0..<length (toolsOf a)])"

text \<open>\<^verbatim>\<open>foldRequestHeader(events, from)\<close>.\<close>

fun foldRequestHeader :: "event list \<Rightarrow> epoch_header option \<Rightarrow> epoch_header option" where
  "foldRequestHeader [] state = state"
| "foldRequestHeader (e # es) state =
     foldRequestHeader es
       (case ev_data e of RequestHeader h _ \<Rightarrow> Some (canonicalHeader h) | _ \<Rightarrow> state)"

text \<open>The fold of \<^verbatim>\<open>Session.requestContext\<close>: the latest \<^verbatim>\<open>request/context\<close> payload.\<close>

fun foldRequestContext :: "event list \<Rightarrow> request_context option \<Rightarrow> request_context option" where
  "foldRequestContext [] state = state"
| "foldRequestContext (e # es) state =
     foldRequestContext es (case ev_data e of RequestContext c \<Rightarrow> Some c | _ \<Rightarrow> state)"

section \<open>Canonical headers\<close>

lemma nth_all_eq:
  "length xs = length ys \<and> list_all (\<lambda>i. xs ! i = ys ! i) [0..<length xs] \<longleftrightarrow> xs = ys"
  by (auto simp: list_all_iff intro!: nth_equalityI)

lemma callConfigEquals_iff: "callConfigEquals a b \<longleftrightarrow> a = b"
  unfolding callConfigEquals_def nth_all_eq
  by (cases a; cases b) (auto split: option.splits)

definition canonical :: "epoch_header \<Rightarrow> bool" where
  "canonical h \<longleftrightarrow> canonicalHeader h = h"

text \<open>Result: normalising twice is normalising once.\<close>

theorem canonicalHeader_idem: "canonical (canonicalHeader h)"
  by (simp add: canonical_def canonicalHeader_def split: option.split)

lemma canonical_iff:
  "canonical h \<longleftrightarrow>
     (\<forall>d. eh_adapterDefaults h = Some d \<longrightarrow> ad_reasoningEffort d \<or> ad_maxTokens d)
     \<and> eh_system h \<noteq> Some [] \<and> eh_tools h \<noteq> Some []"
  by (cases h) (auto simp: canonical_def canonicalHeader_def split: option.splits if_splits)

text \<open>
  Result: on canonical headers the field-wise comparison is equality, so a header is logged
  again exactly when it differs from the one in force.
\<close>

theorem headerEquals_canonical:
  assumes "canonical a" and "canonical b"
  shows "headerEquals a b \<longleftrightarrow> a = b"
proof -
  have defaults: "eh_adapterDefaults a = eh_adapterDefaults b \<longleftrightarrow>
     (case eh_adapterDefaults a of None \<Rightarrow> False | Some d \<Rightarrow> ad_reasoningEffort d)
       = (case eh_adapterDefaults b of None \<Rightarrow> False | Some d \<Rightarrow> ad_reasoningEffort d)
     \<and> (case eh_adapterDefaults a of None \<Rightarrow> False | Some d \<Rightarrow> ad_maxTokens d)
       = (case eh_adapterDefaults b of None \<Rightarrow> False | Some d \<Rightarrow> ad_maxTokens d)"
    using assms by (auto simp: canonical_iff split: option.splits)
  have tools: "eh_tools a = eh_tools b \<longleftrightarrow>
     (case eh_tools a of None \<Rightarrow> [] | Some ts \<Rightarrow> ts) = (case eh_tools b of None \<Rightarrow> [] | Some ts \<Rightarrow> ts)"
    using assms by (auto simp: canonical_iff split: option.splits)
  have lists: "length xs = length ys \<and> list_all (\<lambda>i. sameSchema (xs ! i) (ys ! i)) [0..<length xs]
      \<longleftrightarrow> xs = ys" for xs ys
    unfolding sameSchema_def by (rule nth_all_eq)
  show ?thesis
    unfolding headerEquals_def Let_def callConfigEquals_iff lists
    using defaults tools by (cases a; cases b) auto
qed

section \<open>The folds continue\<close>

lemma foldRequestHeader_append:
  "foldRequestHeader (xs @ ys) s = foldRequestHeader ys (foldRequestHeader xs s)"
  by (induction xs arbitrary: s) auto

lemma foldRequestContext_append:
  "foldRequestContext (xs @ ys) s = foldRequestContext ys (foldRequestContext xs s)"
  by (induction xs arbitrary: s) auto

interpretation header_fold: log_projection foldRequestHeader
  by unfold_locales (simp_all add: foldRequestHeader_append)

interpretation context_fold: log_projection foldRequestContext
  by unfold_locales (simp_all add: foldRequestContext_append)

text \<open>
  Result: the header in force is the canonical form of the last \<^verbatim>\<open>request/header\<close> snapshot of
  the log, whatever comes after it.
\<close>

theorem foldRequestHeader_last:
  assumes "ev_data e = RequestHeader h r"
    and "\<forall>x \<in> set later. ev_type x \<noteq> ''request/header''"
  shows "foldRequestHeader (earlier @ e # later) s = Some (canonicalHeader h)"
proof -
  have "foldRequestHeader later q = q" for q
    using assms(2) by (induction later arbitrary: q) (auto split: event_data.split)
  then show ?thesis using assms(1) by (simp add: foldRequestHeader_append)
qed

end
