(* ===== verification/Session_Log.thy ===== *)
theory Session_Log
  imports Surface_Facts Seed_Shape Request_Header
begin

text \<open>
  The class \<^verbatim>\<open>Session\<close> of \<^verbatim>\<open>packages/core/session/src/index.ts\<close>: construction from a
  seed, \<^verbatim>\<open>append\<close>, and the cached reads (\<^verbatim>\<open>events\<close>, \<^verbatim>\<open>requestHeader\<close>,
  \<^verbatim>\<open>requestContext\<close>, \<^verbatim>\<open>deriveMessages\<close>). An operation returns the session beside its
  result, because a throw keeps the caches it updated. What happens between validation and the
  return of \<^verbatim>\<open>append\<close> in a session that is attached to a store is in \<open>Session_Store\<close>.
\<close>

record session =
  s_log :: "event list"
  s_manager :: surface_manager
  s_header :: session_header
  s_firstLiveSeq :: nat
  s_eventsSnapshot :: "event list option"
  s_headerFold :: "epoch_header option \<times> nat"
  s_contextFold :: "request_context option \<times> nat"
  s_derived :: "message list"
  s_derivedNodes :: nat
  s_derivedGeneration :: nat

datatype session_error =
    NotJsonData
  | NotJsonMetadata
  | ReenteredAppend
  | SeedNotJson nat
  | SeedRejected nat seed_error
  | SeedSeq nat nat
  | SeedSurface nat surface_error
  | SurfaceRejected surface_error
  | HeaderRejected header_error
  | DataRejected seed_error
  | MissingNode nat

section \<open>Append\<close>

fun reasonOf :: "event_data \<Rightarrow> string option" where
  "reasonOf (RequestHeader _ r) = Some r"
| "reasonOf _ = None"

text \<open>
  The first half of \<^verbatim>\<open>append\<close>, up to and with \<^verbatim>\<open>validateNext\<close>. The payload and the
  surface metadata arrive as the results of \<^verbatim>\<open>snapshotJsonValue\<close>: \<open>None\<close> when the caller's
  value is not lossless JSON. \<open>appending\<close> is the flag of the store entry (\<open>False\<close> for a
  detached session); \<open>now\<close> is \<^verbatim>\<open>Date.now()\<close>.
\<close>

definition prepareAppend ::
  "session \<Rightarrow> bool \<Rightarrow> int \<Rightarrow> event_data option \<Rightarrow> (json option \<times> json option) option
    \<Rightarrow> session \<times> (session_error + event)" where
  "prepareAppend s appending now data meta =
     (case data of
        None \<Rightarrow> (s, Inl NotJsonData)
      | Some d \<Rightarrow>
          (case assertSupportedRequestHeader (event_type d) (reasonOf d) of
             Inl err \<Rightarrow> (s, Inl (DataRejected err))
           | Inr _ \<Rightarrow>
               (case meta of
                  None \<Rightarrow> (s, Inl NotJsonMetadata)
                | Some (op, sources) \<Rightarrow>
                    if appending then (s, Inl ReenteredAppend)
                    else
                      (let e = \<lparr>seq = length (s_log s), time = now, ev_data = d, surfaceOp = op,
                                sourceEventSeqs = sources, ignorable = False\<rparr>
                       in case validateNext (s_log s) (s_manager s) e of
                            (m, Some err) \<Rightarrow> (s\<lparr>s_manager := m\<rparr>, Inl (SurfaceRejected err))
                          | (m, None) \<Rightarrow> (s\<lparr>s_manager := m\<rparr>, Inr e)))))"

text \<open>The commit: the candidate enters the log and the cached snapshot of the log is dropped.\<close>

definition commitAppend :: "session \<Rightarrow> event \<Rightarrow> session" where
  "commitAppend s e = s\<lparr>s_log := s_log s @ [e], s_eventsSnapshot := None\<rparr>"

definition append ::
  "session \<Rightarrow> int \<Rightarrow> event_data option \<Rightarrow> (json option \<times> json option) option
    \<Rightarrow> session \<times> (session_error + event)" where
  "append s now data meta =
     (case prepareAppend s False now data meta of
        (s', Inl err) \<Rightarrow> (s', Inl err)
      | (s', Inr e) \<Rightarrow> (commitAppend s' e, Inr e))"

section \<open>Construction\<close>

datatype seed_mode = Snapshot | Restore

text \<open>
  One round of the seed loop. A seed element is the result of \<^verbatim>\<open>snapshotJsonValue\<close>; in
  restore mode the values come from a JSON decoder, so they are always \<open>Some\<close>.
\<close>

definition acceptSeedEvent ::
  "(string \<Rightarrow> json \<Rightarrow> event_data) \<Rightarrow> event list \<times> surface_manager \<Rightarrow> nat \<times> json option
    \<Rightarrow> session_error + (event list \<times> surface_manager)" where
  "acceptSeedEvent payload st src =
     (case st of (lg, m) \<Rightarrow>
      case src of (index, value) \<Rightarrow>
      case value of
        None \<Rightarrow> Inl (SeedNotJson index)
      | Some j \<Rightarrow>
          bindR (mapErr (SeedRejected index) (assertSessionEventEnvelope j)) (\<lambda>_.
          let e = readEvent payload j;
              reason = (case Option.bind (jprop ''data'' j) (jprop ''reason'') of
                          Some (JStr r) \<Rightarrow> Some r | _ \<Rightarrow> None)
          in bindR (mapErr (SeedRejected index)
                     (assertSupportedRequestHeader
                        (case Option.bind (jprop ''type'' j) strOf of Some t \<Rightarrow> t | None \<Rightarrow> [])
                        reason)) (\<lambda>_.
          if seq e \<noteq> index then Inl (SeedSeq index (seq e))
          else case validateNext lg m e of
                 (m', Some err) \<Rightarrow> Inl (SeedSurface index err)
               | (m', None) \<Rightarrow> Inr (lg @ [e], m'))))"

definition snapshotSessionHeader ::
  "string \<Rightarrow> int \<Rightarrow> json option option \<Rightarrow> header_error + session_header" where
  "snapshotSessionHeader sid now source =
     (case source of
        None \<Rightarrow> validateSessionHeader sid
          (JObj [(''version'', JNum (of_int SESSION_FORMAT_VERSION)), (''id'', JStr sid),
                 (''createdAt'', JNum (of_int now))])
      | Some None \<Rightarrow> Inl HeaderNotJson
      | Some (Some j) \<Rightarrow> validateSessionHeader sid j)"

text \<open>
  The constructor: the header of a restore is checked first, then the seed event by event, then
  the header of a snapshot; a seeded log that does not end with the marker gets one.
\<close>

definition newSession ::
  "(string \<Rightarrow> json \<Rightarrow> event_data) \<Rightarrow> string \<Rightarrow> int \<Rightarrow> seed_mode \<Rightarrow> json option list option
    \<Rightarrow> json option option \<Rightarrow> session_error + session" where
  "newSession payload sid now mode seed header =
     bindR (case mode of
              Restore \<Rightarrow> mapErr HeaderRejected
                (mapR Some (case header of Some (Some j) \<Rightarrow> validateSessionHeader sid j
                                         | _ \<Rightarrow> Inl HeaderNotRecord))
            | Snapshot \<Rightarrow> Inr None) (\<lambda>restoredHeader.
     bindR (runR (acceptSeedEvent payload) ([], newSurfaceManager 0)
              (case seed of None \<Rightarrow> [] | Some xs \<Rightarrow> enumerate 0 xs)) (\<lambda>(lg, m).
     bindR (case restoredHeader of
              Some h \<Rightarrow> Inr h
            | None \<Rightarrow> mapErr HeaderRejected (snapshotSessionHeader sid now header)) (\<lambda>h.
     let s = \<lparr>s_log = lg, s_manager = m, s_header = h, s_firstLiveSeq = length lg,
              s_eventsSnapshot = None, s_headerFold = (None, 0), s_contextFold = (None, 0),
              s_derived = [], s_derivedNodes = 0, s_derivedGeneration = 0\<rparr>
     in if seed \<noteq> None \<and> (lg = [] \<or> ev_type (last lg) \<noteq> ''session/end-seed'')
        then (case append s now (Some EndSeed) (Some (None, None)) of
                (s', Inl err) \<Rightarrow> Inl err
              | (s', Inr _) \<Rightarrow> Inr s')
        else Inr s)))"

section \<open>Cached reads\<close>

definition getEvents :: "session \<Rightarrow> session \<times> event list" where
  "getEvents s =
     (case s_eventsSnapshot s of
        Some es \<Rightarrow> (s, es)
      | None \<Rightarrow> (s\<lparr>s_eventsSnapshot := Some (s_log s)\<rparr>, s_log s))"

definition requestHeader :: "session \<Rightarrow> session \<times> epoch_header option" where
  "requestHeader s =
     (let c = refresh foldRequestHeader (s_log s) (s_headerFold s)
      in (s\<lparr>s_headerFold := c\<rparr>, fst c))"

definition requestContext :: "session \<Rightarrow> session \<times> request_context option" where
  "requestContext s =
     (let c = refresh foldRequestContext (s_log s) (s_contextFold s)
      in (s\<lparr>s_contextFold := c\<rparr>, fst c))"

text \<open>
  One round of the projection loop: the node is read from the log, an event that derives to no
  message adds nothing. A node outside the log would be a crash.
\<close>

definition deriveNode ::
  "event list \<Rightarrow> message list \<Rightarrow> nat \<Rightarrow> session_error + message list" where
  "deriveNode lg acc n =
     (case eventAt lg 0 n of
        None \<Rightarrow> Inl (MissingNode n)
      | Some e \<Rightarrow>
          Inr (case deriveEventMessage (ev_data e) of None \<Rightarrow> acc | Some msg \<Rightarrow> acc @ [msg]))"

definition deriveMessages :: "session \<Rightarrow> session \<times> (session_error + message list)" where
  "deriveMessages s =
     (case managerNodes (s_log s) (s_manager s) of
        (m, Inl err) \<Rightarrow> (s\<lparr>s_manager := m\<rparr>, Inl (SurfaceRejected err))
      | (m, Inr ns) \<Rightarrow>
     (case managerGeneration (s_log s) m of
        (m', Inl err) \<Rightarrow> (s\<lparr>s_manager := m'\<rparr>, Inl (SurfaceRejected err))
      | (m', Inr generation) \<Rightarrow>
          (let s1 = s\<lparr>s_manager := m'\<rparr>;
               s2 = (if generation \<noteq> s_derivedGeneration s1
                     then s1\<lparr>s_derived := [], s_derivedNodes := 0,
                            s_derivedGeneration := generation\<rparr>
                     else s1)
           in case runR (deriveNode (s_log s)) (s_derived s2) (drop (s_derivedNodes s2) ns) of
                Inl err \<Rightarrow> (s2, Inl err)
              | Inr msgs \<Rightarrow>
                  (s2\<lparr>s_derived := msgs, s_derivedNodes := length ns\<rparr>, Inr msgs))))"

end
