(* ===== verification/Session_Facts.thy ===== *)
theory Session_Facts
  imports Session_Log
begin

text \<open>
  Correctness of the session class: the log of every session that construction and the
  operations can produce is an accepted surface log, every cached read answers what the fold over
  the complete log answers, and a session restored from its own log shows the model the same
  history.
\<close>

section \<open>The history shown to the model\<close>

definition modelHistory :: "event list \<Rightarrow> nat list \<Rightarrow> message list" where
  "modelHistory lg ns = List.map_filter (\<lambda>n. deriveEventMessage (ev_data (lg ! n))) ns"

lemma modelHistory_simps [simp]:
  "modelHistory lg [] = []"
  "modelHistory lg (xs @ ys) = modelHistory lg xs @ modelHistory lg ys"
  by (simp_all add: modelHistory_def List.map_filter_def)

lemma modelHistory_grow:
  assumes "\<forall>n \<in> set ns. n < length lg"
  shows "modelHistory (lg @ es) ns = modelHistory lg ns"
  using assms by (induction ns) (auto simp: modelHistory_def List.map_filter_def nth_append)

lemma runR_deriveNode:
  "\<forall>n \<in> set ns. n < length lg \<Longrightarrow>
     runR (deriveNode lg) acc ns = Inr (acc @ modelHistory lg ns)"
proof (induction ns arbitrary: acc)
  case Nil
  then show ?case by simp
next
  case (Cons n ns)
  then show ?case
    by (auto simp: deriveNode_def eventAt_def modelHistory_def List.map_filter_def
        split: option.split)
qed

text \<open>Without a replacement the surface only grows at its end.\<close>

lemma surfaceLog_generation:
  assumes "surfaceLog (xs @ ys) = Inr st2" and "surfaceLog xs = Inr st1"
  shows "replaceGeneration st1 \<le> replaceGeneration st2
    \<and> (replaceGeneration st1 = replaceGeneration st2 \<longrightarrow> (\<exists>more. nodes st2 = nodes st1 @ more))"
  using assms(1)
proof (induction ys arbitrary: st2 rule: rev_induct)
  case Nil
  then show ?case using assms(2) by simp
next
  case (snoc e ys)
  then have "surfaceLog ((xs @ ys) @ [e]) = Inr st2" by simp
  then obtain st plan where st: "surfaceLog (xs @ ys) = Inr st"
    and p: "st2 = fst (applySurfacePlan st plan)"
    by (rule surfaceLog_plan)
  from snoc.IH [OF st] show ?case
    by (cases "(st, plan)" rule: applySurfacePlan.cases) (auto simp: p)
qed

section \<open>The session invariant\<close>

definition derivedOK :: "session \<Rightarrow> bool" where
  "derivedOK s \<longleftrightarrow>
     (\<exists>k st. k \<le> length (s_log s) \<and> surfaceLog (take k (s_log s)) = Inr st
        \<and> s_derivedNodes s = length (nodes st)
        \<and> s_derivedGeneration s = replaceGeneration st
        \<and> s_derived s = modelHistory (s_log s) (nodes st))"

definition sessionInv :: "session \<Rightarrow> bool" where
  "sessionInv s \<longleftrightarrow>
     (\<exists>st. surfaceLog (s_log s) = Inr st)
     \<and> managerInv (s_log s) (s_manager s)
     \<and> (s_eventsSnapshot s = None \<or> s_eventsSnapshot s = Some (s_log s))
     \<and> in_sync foldRequestHeader None (s_log s) (s_headerFold s)
     \<and> in_sync foldRequestContext None (s_log s) (s_contextFold s)
     \<and> derivedOK s"

lemma derivedOK_grow:
  assumes "derivedOK s" and "surfaceLog (s_log s) = Inr st"
  shows "derivedOK (s\<lparr>s_manager := m, s_log := s_log s @ es, s_eventsSnapshot := sn\<rparr>)"
proof -
  obtain k st' where k: "k \<le> length (s_log s)" "surfaceLog (take k (s_log s)) = Inr st'"
      "s_derivedNodes s = length (nodes st')" "s_derivedGeneration s = replaceGeneration st'"
      "s_derived s = modelHistory (s_log s) (nodes st')"
    using assms(1) by (auto simp: derivedOK_def)
  have "\<forall>n \<in> set (nodes st'). n < length (s_log s)"
    using surfaceInv_below [OF surfaceLog_inv [OF k(2)]] k(1) by auto
  then have "modelHistory (s_log s @ es) (nodes st') = modelHistory (s_log s) (nodes st')"
    by (rule modelHistory_grow)
  with k show ?thesis unfolding derivedOK_def by (intro exI [of _ k] exI [of _ st']) simp
qed

lemma derivedOK_manager: "derivedOK (s\<lparr>s_manager := m\<rparr>) = derivedOK s"
  by (simp add: derivedOK_def)

lemma sessionInv_manager:
  "sessionInv s \<Longrightarrow> managerInv (s_log s) m \<Longrightarrow> sessionInv (s\<lparr>s_manager := m\<rparr>)"
  by (simp add: sessionInv_def derivedOK_manager)

lemma prepareAppend_inv:
  assumes inv: "sessionInv s" and p: "prepareAppend s appending now data meta = (s', r)"
  shows "sessionInv s'" and "s_log s' = s_log s"
    and "r = Inr e \<Longrightarrow> sessionInv (commitAppend s' e) \<and> seq e = length (s_log s)
          \<and> data = Some (ev_data e)"
proof -
  obtain st where st: "surfaceLog (s_log s) = Inr st" and m: "managerInv (s_log s) (s_manager s)"
    using inv by (auto simp: sessionInv_def)
  have "sessionInv s' \<and> s_log s' = s_log s \<and> (\<forall>e. r = Inr e \<longrightarrow>
      sessionInv (commitAppend s' e) \<and> seq e = length (s_log s) \<and> data = Some (ev_data e))"
  proof (cases "\<exists>d op src. data = Some d \<and> meta = Some (op, src) \<and> \<not> appending
      \<and> assertSupportedRequestHeader (event_type d) (reasonOf d) = Inr ()")
    case False
    then show ?thesis
      using p inv by (auto simp: prepareAppend_def split: option.splits sum.splits if_splits)
  next
    case True
    then obtain d op src where d: "data = Some d" "meta = Some (op, src)" "\<not> appending"
        "assertSupportedRequestHeader (event_type d) (reasonOf d) = Inr ()" by blast
    define e where "e = \<lparr>seq = length (s_log s), time = now, ev_data = d, surfaceOp = op,
        sourceEventSeqs = src, ignorable = False\<rparr>"
    obtain m' v where v: "validateNext (s_log s) (s_manager s) e = (m', v)" by fastforce
    note sync = validateNext_sync [OF m st v]
    have s': "s' = s\<lparr>s_manager := m'\<rparr>"
      using p d v by (auto simp: prepareAppend_def e_def [symmetric] split: option.splits)
    have inv': "sessionInv s'" unfolding s' using inv sync(1) by (rule sessionInv_manager)
    have "sessionInv (commitAppend s' e)" if none: "v = None"
    proof -
      obtain st' where "surfaceLog (s_log s @ [e]) = Inr st'" "managerInv (s_log s @ [e]) m'"
        using sync(2) [OF none] by blast
      moreover have "derivedOK (s\<lparr>s_manager := m', s_log := s_log s @ [e], s_eventsSnapshot := None\<rparr>)"
        using derivedOK_grow st inv by (simp add: sessionInv_def)
      ultimately show ?thesis
        using inv by (simp add: s' commitAppend_def sessionInv_def header_fold.in_sync_grow
            context_fold.in_sync_grow)
    qed
    moreover have "r = (case v of None \<Rightarrow> Inr e | Some err \<Rightarrow> Inl (SurfaceRejected err))"
      using p d v by (auto simp: prepareAppend_def e_def [symmetric] split: option.splits)
    ultimately show ?thesis
      using inv' s' d(1) by (auto simp: e_def split: option.splits)
  qed
  then show "sessionInv s'" and "s_log s' = s_log s"
    and "r = Inr e \<Longrightarrow> sessionInv (commitAppend s' e) \<and> seq e = length (s_log s)
          \<and> data = Some (ev_data e)"
    by auto
qed

lemma append_inv:
  assumes "sessionInv s" and "append s now data meta = (s', r)"
  shows "sessionInv s'"
    and "s_log s' = s_log s @ (case r of Inl _ \<Rightarrow> [] | Inr e \<Rightarrow> [e])"
proof -
  obtain s1 q where q: "prepareAppend s False now data meta = (s1, q)" by fastforce
  show "sessionInv s'" and "s_log s' = s_log s @ (case r of Inl _ \<Rightarrow> [] | Inr e \<Rightarrow> [e])"
    using assms(2) prepareAppend_inv [OF assms(1) q]
    by (auto simp: append_def q commitAppend_def split: sum.splits)
qed

lemma getEvents_inv:
  assumes "sessionInv s" and "getEvents s = (s', es)"
  shows "sessionInv s'" and "es = s_log s" and "s_log s' = s_log s"
proof -
  have "sessionInv s' \<and> es = s_log s \<and> s_log s' = s_log s"
    using assms by (auto simp: getEvents_def sessionInv_def derivedOK_def split: option.splits)
  then show "sessionInv s'" and "es = s_log s" and "s_log s' = s_log s" by auto
qed

lemma requestHeader_inv:
  assumes "sessionInv s" and "requestHeader s = (s', h)"
  shows "sessionInv s'" and "h = foldRequestHeader (s_log s) None" and "s_log s' = s_log s"
proof -
  have sync: "in_sync foldRequestHeader None (s_log s) (s_headerFold s)"
    using assms(1) by (simp add: sessionInv_def)
  note read = header_fold.refresh_reads_all [OF sync] and kept = header_fold.in_sync_refresh [OF sync]
  have s': "s' = s\<lparr>s_headerFold := refresh foldRequestHeader (s_log s) (s_headerFold s)\<rparr>"
    using assms(2) by (auto simp: requestHeader_def Let_def)
  show "sessionInv s'" using assms(1) kept by (auto simp: s' sessionInv_def derivedOK_def)
  show "h = foldRequestHeader (s_log s) None"
    using assms(2) read by (auto simp: requestHeader_def Let_def)
  show "s_log s' = s_log s" by (simp add: s')
qed

lemma requestContext_inv:
  assumes "sessionInv s" and "requestContext s = (s', c)"
  shows "sessionInv s'" and "c = foldRequestContext (s_log s) None" and "s_log s' = s_log s"
proof -
  have sync: "in_sync foldRequestContext None (s_log s) (s_contextFold s)"
    using assms(1) by (simp add: sessionInv_def)
  note read = context_fold.refresh_reads_all [OF sync]
    and kept = context_fold.in_sync_refresh [OF sync]
  have s': "s' = s\<lparr>s_contextFold := refresh foldRequestContext (s_log s) (s_contextFold s)\<rparr>"
    using assms(2) by (auto simp: requestContext_def Let_def)
  show "sessionInv s'" using assms(1) kept by (auto simp: s' sessionInv_def derivedOK_def)
  show "c = foldRequestContext (s_log s) None"
    using assms(2) read by (auto simp: requestContext_def Let_def)
  show "s_log s' = s_log s" by (simp add: s')
qed

lemma manager_reads:
  assumes "managerInv lg m" and "surfaceLog lg = Inr st"
  obtains m1 where "managerNodes lg m = (m1, Inr (nodes st))" and "managerInv lg m1"
    and "managerGeneration lg m = (m1, Inr (replaceGeneration st))"
proof -
  from processDelta_sync [OF assms] obtain m1 where
    "processDelta lg m = (m1, None)" "managerInv lg m1" "sm_state m1 = st" by blast
  then show ?thesis by (intro that [of m1]) (simp_all add: managerNodes_def managerGeneration_def)
qed

lemma derived_tail:
  assumes inv: "derivedOK s" and st: "surfaceLog (s_log s) = Inr st"
    and same: "s_derivedGeneration s = replaceGeneration st"
  shows "runR (deriveNode (s_log s)) (s_derived s) (drop (s_derivedNodes s) (nodes st))
    = Inr (modelHistory (s_log s) (nodes st))"
proof -
  obtain k st' where k: "k \<le> length (s_log s)" "surfaceLog (take k (s_log s)) = Inr st'"
      "s_derivedNodes s = length (nodes st')" "s_derivedGeneration s = replaceGeneration st'"
      "s_derived s = modelHistory (s_log s) (nodes st')"
    using inv by (auto simp: derivedOK_def)
  from surfaceLog_generation [of "take k (s_log s)" "drop k (s_log s)" st st'] st k same
  obtain new where new: "nodes st = nodes st' @ new" by auto
  have "\<forall>n \<in> set new. n < length (s_log s)"
    using surfaceInv_below [OF surfaceLog_inv [OF st]] new by auto
  then show ?thesis using k by (simp add: new runR_deriveNode)
qed

lemma derivedOK_now:
  assumes "surfaceLog (s_log s) = Inr st"
  shows "derivedOK (s\<lparr>s_manager := m, s_derivedGeneration := replaceGeneration st,
    s_derived := modelHistory (s_log s) (nodes st), s_derivedNodes := length (nodes st)\<rparr>)"
  using assms by (auto simp: derivedOK_def intro!: exI [of _ "length (s_log s)"] exI [of _ st])

lemma deriveMessages_inv:
  assumes inv: "sessionInv s" and st: "surfaceLog (s_log s) = Inr st"
    and d: "deriveMessages s = (s', r)"
  shows "sessionInv s'" and "r = Inr (modelHistory (s_log s) (nodes st))" and "s_log s' = s_log s"
proof -
  let ?h = "modelHistory (s_log s) (nodes st)"
  have m: "managerInv (s_log s) (s_manager s)" and dok: "derivedOK s"
    using inv by (auto simp: sessionInv_def)
  obtain m1 where m1: "managerNodes (s_log s) (s_manager s) = (m1, Inr (nodes st))"
      "managerInv (s_log s) m1" using manager_reads [OF m st] by blast
  obtain m2 where m2: "managerGeneration (s_log s) m1 = (m2, Inr (replaceGeneration st))"
      "managerInv (s_log s) m2" using manager_reads [OF m1(2) st] by metis
  have below: "\<forall>n \<in> set (nodes st). n < length (s_log s)"
    using surfaceInv_below [OF surfaceLog_inv [OF st]] by blast
  have res: "r = Inr ?h \<and> s' = s\<lparr>s_manager := m2, s_derivedGeneration := replaceGeneration st,
      s_derived := ?h, s_derivedNodes := length (nodes st)\<rparr>"
  proof (cases "replaceGeneration st = s_derivedGeneration s")
    case True
    with derived_tail [OF dok st] d m1(1) m2(1) show ?thesis
      by (auto simp: deriveMessages_def Let_def)
  next
    case False
    with d m1(1) m2(1) runR_deriveNode [OF below, of "[]"] show ?thesis
      by (auto simp: deriveMessages_def Let_def)
  qed
  then show "r = Inr ?h" and "s_log s' = s_log s" by auto
  show "sessionInv s'"
    using res inv m2(2) derivedOK_now [OF st, of m2] by (auto simp: sessionInv_def)
qed

section \<open>Acceptance\<close>

lemma validateNext_accepts:
  assumes "managerInv lg m" and "surfaceLog lg = Inr st" and "validateNext lg m e = (m', r)"
  shows "r = None \<longleftrightarrow> (\<exists>st'. surfaceLog (lg @ [e]) = Inr st')"
  using validateNext_sync(3) [OF assms] assms(2)
  by (auto simp: surfaceLog_snoc split: sum.splits)

text \<open>What the seed loop asks of one stored event besides its place on the surface.\<close>

definition seedReason :: "json \<Rightarrow> string option" where
  "seedReason j =
     (case Option.bind (jprop ''data'' j) (jprop ''reason'') of Some (JStr r) \<Rightarrow> Some r | _ \<Rightarrow> None)"

definition seedType :: "json \<Rightarrow> string" where
  "seedType j = (case Option.bind (jprop ''type'' j) strOf of Some t \<Rightarrow> t | None \<Rightarrow> [])"

definition seedEventOK :: "json \<Rightarrow> bool" where
  "seedEventOK j \<longleftrightarrow> assertSessionEventEnvelope j = Inr ()
     \<and> assertSupportedRequestHeader (seedType j) (seedReason j) = Inr ()"

lemma acceptSeedEvent_Inr:
  assumes inv: "managerInv lg m" and st: "surfaceLog lg = Inr st"
  shows "acceptSeedEvent payload (lg, m) (length lg, v) = Inr (lg', m') \<longleftrightarrow>
     (\<exists>j. v = Some j \<and> seedEventOK j \<and> lg' = lg @ [readEvent payload j]
        \<and> validateNext lg m (readEvent payload j) = (m', None))"
proof (cases v)
  case None
  then show ?thesis by (simp add: acceptSeedEvent_def)
next
  case (Some j)
  let ?e = "readEvent payload j"
  obtain m1 r where v: "validateNext lg m ?e = (m1, r)" by fastforce
  have seq: "r = None \<Longrightarrow> seq ?e = length lg"
    using validateNext_sync(2) [OF inv st v] surfaceLog_seq [of "lg @ [?e]" _ "length lg"]
    by auto
  show ?thesis
    using seq by (auto simp: acceptSeedEvent_def Some v seedEventOK_def seedType_def
        seedReason_def Let_def bindR_Inr_iff mapErr_Inr_iff if_Inl_Inr split: option.splits)
qed

lemma seed_run:
  assumes "managerInv lg m" and "surfaceLog lg = Inr st"
  shows "runR (acceptSeedEvent payload) (lg, m) (enumerate (length lg) vs) = Inr (lg', m') \<Longrightarrow>
     (\<exists>js. vs = map Some js \<and> (\<forall>j \<in> set js. seedEventOK j)
        \<and> lg' = lg @ map (readEvent payload) js) \<and> managerInv lg' m' \<and> (\<exists>st'. surfaceLog lg' = Inr st')"
  using assms
proof (induction vs arbitrary: lg m st)
  case Nil
  then show ?case by simp
next
  case (Cons v vs)
  from Cons.prems(1) obtain lg1 m1 where
    step: "acceptSeedEvent payload (lg, m) (length lg, v) = Inr (lg1, m1)"
    and rest: "runR (acceptSeedEvent payload) (lg1, m1) (enumerate (Suc (length lg)) vs) = Inr (lg', m')"
    by (auto simp: bindR_Inr_iff)
  from step obtain j where j: "v = Some j" "seedEventOK j" "lg1 = lg @ [readEvent payload j]"
    "validateNext lg m (readEvent payload j) = (m1, None)"
    using acceptSeedEvent_Inr [OF Cons.prems(2,3)] by blast
  from validateNext_sync(2) [OF Cons.prems(2,3) j(4)] j(3) obtain st1 where
    st1: "surfaceLog lg1 = Inr st1" "managerInv lg1 m1" by auto
  have "length lg1 = Suc (length lg)" by (simp add: j(3))
  with Cons.IH [OF _ st1(2,1)] rest obtain js where
    js: "vs = map Some js" "\<forall>j \<in> set js. seedEventOK j" "lg' = lg1 @ map (readEvent payload) js"
      "managerInv lg' m'" "\<exists>st'. surfaceLog lg' = Inr st'" by auto
  then show ?case by (intro conjI exI [of _ "j # js"]) (auto simp: j)
qed

lemma seed_run_accepts:
  assumes "managerInv lg m" and "surfaceLog lg = Inr st"
    and "\<forall>j \<in> set js. seedEventOK j"
    and "surfaceLog (lg @ map (readEvent payload) js) = Inr st'"
  shows "\<exists>r. runR (acceptSeedEvent payload) (lg, m) (enumerate (length lg) (map Some js)) = Inr r"
  using assms
proof (induction js arbitrary: lg m st)
  case Nil
  then show ?case by simp
next
  case (Cons j js)
  let ?e = "readEvent payload j"
  obtain m1 r where v: "validateNext lg m ?e = (m1, r)" by fastforce
  have all: "surfaceLog ((lg @ [?e]) @ map (readEvent payload) js) = Inr st'"
    using Cons.prems(4) by simp
  then obtain st1 where st1: "surfaceLog (lg @ [?e]) = Inr st1" by (rule surfaceLog_prefix)
  then have r: "r = None" using validateNext_accepts [OF Cons.prems(1,2) v] by blast
  have inv1: "managerInv (lg @ [?e]) m1" using validateNext_sync(2) [OF Cons.prems(1,2) v r] by blast
  have step: "acceptSeedEvent payload (lg, m) (length lg, Some j) = Inr (lg @ [?e], m1)"
    using acceptSeedEvent_Inr [OF Cons.prems(1,2)] Cons.prems(3) v r by auto
  from Cons.IH [OF inv1 st1 _ all] Cons.prems(3)
  show ?case by (simp add: step)
qed

end
