(* ===== verification/Session_Live.thy ===== *)
theory Session_Live
  imports Session_Facts
begin

text \<open>
  Every session a program can hold: constructed from a seed, then driven by any sequence of
  appends and reads. The results of this theory are about all of them.
\<close>

section \<open>Construction\<close>

abbreviation endSeedEvent :: "nat \<Rightarrow> int \<Rightarrow> event" where
  "endSeedEvent n now \<equiv> \<lparr>seq = n, time = now, ev_data = EndSeed, surfaceOp = None,
     sourceEventSeqs = None, ignorable = False\<rparr>"

lemma endSeed_accepted:
  assumes "surfaceLog lg = Inr st"
  shows "surfaceLog (lg @ [endSeedEvent (length lg) now]) = Inr st"
  using assms by (simp add: surfaceLog_snoc planSurfaceEvent_def surfaceOpOf_def
      isSurfaceEligibleType_def SURFACE_EVENT_TYPES_def)

lemma append_endSeed:
  assumes inv: "sessionInv s"
  obtains s' where "append s now (Some EndSeed) (Some (None, None))
      = (s', Inr (endSeedEvent (length (s_log s)) now))"
    and "sessionInv s'" and "s_log s' = s_log s @ [endSeedEvent (length (s_log s)) now]"
    and "s_firstLiveSeq s' = s_firstLiveSeq s" and "s_header s' = s_header s"
proof -
  let ?e = "endSeedEvent (length (s_log s)) now"
  obtain st where st: "surfaceLog (s_log s) = Inr st" and m: "managerInv (s_log s) (s_manager s)"
    using inv by (auto simp: sessionInv_def)
  obtain m' r where v: "validateNext (s_log s) (s_manager s) ?e = (m', r)" by fastforce
  have "r = None" using validateNext_accepts [OF m st v] endSeed_accepted [OF st] by blast
  then have a: "append s now (Some EndSeed) (Some (None, None))
      = (commitAppend (s\<lparr>s_manager := m'\<rparr>) ?e, Inr ?e)"
    using v by (simp add: append_def prepareAppend_def assertSupportedRequestHeader_def Let_def)
  with append_inv [OF inv a] show ?thesis
    by (intro that [OF a]) (simp_all add: commitAppend_def)
qed

lemma emptySession_inv:
  assumes "managerInv lg m" and "surfaceLog lg = Inr st"
  shows "sessionInv \<lparr>s_log = lg, s_manager = m, s_header = h, s_firstLiveSeq = n,
      s_eventsSnapshot = None, s_headerFold = (None, 0), s_contextFold = (None, 0),
      s_derived = [], s_derivedNodes = 0, s_derivedGeneration = 0\<rparr>"
  using assms header_fold.in_sync_init context_fold.in_sync_init
  by (auto simp: sessionInv_def derivedOK_def createFoldState_def intro!: exI [of _ 0])

definition seedList :: "json option list option \<Rightarrow> json option list" where
  "seedList seed = (case seed of None \<Rightarrow> [] | Some vs \<Rightarrow> vs)"

definition seedMarker :: "int \<Rightarrow> json option list option \<Rightarrow> event list \<Rightarrow> event list" where
  "seedMarker now seed lg =
     (if seed \<noteq> None \<and> (lg = [] \<or> ev_type (last lg) \<noteq> ''session/end-seed'')
      then [endSeedEvent (length lg) now] else [])"

text \<open>The header a constructor call ends with, or the error it throws for it.\<close>

definition headerResult ::
  "string \<Rightarrow> int \<Rightarrow> seed_mode \<Rightarrow> json option option \<Rightarrow> header_error + session_header" where
  "headerResult sid now mode header =
     (case mode of
        Restore \<Rightarrow> (case header of Some (Some j) \<Rightarrow> validateSessionHeader sid j
                                 | _ \<Rightarrow> Inl HeaderNotRecord)
      | Snapshot \<Rightarrow> snapshotSessionHeader sid now header)"

lemma newManager_inv: "managerInv [] (newSurfaceManager 0)"
  using managed_inv [OF managed.fresh] by blast

lemma newSession_parts:
  "newSession payload sid now mode seed header = Inr s \<longleftrightarrow>
     (\<exists>lg m h. runR (acceptSeedEvent payload) ([], newSurfaceManager 0)
          (enumerate 0 (seedList seed)) = Inr (lg, m)
      \<and> headerResult sid now mode header = Inr h
      \<and> (let s0 = \<lparr>s_log = lg, s_manager = m, s_header = h, s_firstLiveSeq = length lg,
              s_eventsSnapshot = None, s_headerFold = (None, 0), s_contextFold = (None, 0),
              s_derived = [], s_derivedNodes = 0, s_derivedGeneration = 0\<rparr>
         in (if seed \<noteq> None \<and> (lg = [] \<or> ev_type (last lg) \<noteq> ''session/end-seed'')
             then (case append s0 now (Some EndSeed) (Some (None, None)) of
                (s', Inl err) \<Rightarrow> Inl err
              | (s', Inr _) \<Rightarrow> Inr s')
             else Inr s0) = (Inr s :: session_error + session)))"
  unfolding newSession_def headerResult_def seedList_def
  by (cases mode; cases seed)
    (auto simp: bindR_Inr_iff mapErr_Inr_iff mapR_Inr_iff Let_def split: option.splits)

lemma newSession_shape:
  assumes "newSession payload sid now mode seed header = Inr s"
  shows "\<exists>js. seedList seed = map Some js \<and> (\<forall>j \<in> set js. seedEventOK j)
     \<and> (let lg = map (readEvent payload) js
        in s_log s = lg @ seedMarker now seed lg \<and> s_firstLiveSeq s = length lg)
     \<and> headerResult sid now mode header = Inr (s_header s) \<and> sessionInv s"
proof -
  obtain lg m h where
    run: "runR (acceptSeedEvent payload) ([], newSurfaceManager 0)
          (enumerate 0 (seedList seed)) = Inr (lg, m)"
    and h: "headerResult sid now mode header = Inr h"
    and s: "let s0 = \<lparr>s_log = lg, s_manager = m, s_header = h, s_firstLiveSeq = length lg,
              s_eventsSnapshot = None, s_headerFold = (None, 0), s_contextFold = (None, 0),
              s_derived = [], s_derivedNodes = 0, s_derivedGeneration = 0\<rparr>
         in (if seed \<noteq> None \<and> (lg = [] \<or> ev_type (last lg) \<noteq> ''session/end-seed'')
             then (case append s0 now (Some EndSeed) (Some (None, None)) of
                (s', Inl err) \<Rightarrow> Inl err
              | (s', Inr _) \<Rightarrow> Inr s')
             else Inr s0) = (Inr s :: session_error + session)"
    using assms by (auto simp only: newSession_parts)
  from seed_run [OF newManager_inv surfaceLog_Nil, of payload "seedList seed" lg m] run
  obtain js st where js: "seedList seed = map Some js" "\<forall>j \<in> set js. seedEventOK j"
      "lg = map (readEvent payload) js" "managerInv lg m" "surfaceLog lg = Inr st" by auto
  define s0 where "s0 = \<lparr>s_log = lg, s_manager = m, s_header = h, s_firstLiveSeq = length lg,
              s_eventsSnapshot = None, s_headerFold = (None, 0), s_contextFold = (None, 0),
              s_derived = [], s_derivedNodes = 0, s_derivedGeneration = 0\<rparr>"
  have inv0: "sessionInv s0" unfolding s0_def by (rule emptySession_inv [OF js(4,5)])
  have fields: "s_log s0 = lg" "s_firstLiveSeq s0 = length lg" "s_header s0 = h"
    by (simp_all add: s0_def)
  obtain s1 where s1: "append s0 now (Some EndSeed) (Some (None, None))
      = (s1, Inr (endSeedEvent (length lg) now))" "sessionInv s1"
      "s_log s1 = lg @ [endSeedEvent (length lg) now]" "s_firstLiveSeq s1 = length lg"
      "s_header s1 = h"
    using append_endSeed [OF inv0] fields by metis
  from s have "s = (if seed \<noteq> None \<and> (lg = [] \<or> ev_type (last lg) \<noteq> ''session/end-seed'')
      then s1 else s0)"
    by (auto simp: s0_def [symmetric] s1(1) Let_def split: if_splits)
  then show ?thesis
    using js h inv0 s1 fields by (intro exI [of _ js]) (auto simp: seedMarker_def Let_def)
qed

lemma newSession_succeeds:
  assumes "\<forall>j \<in> set js. seedEventOK j" and "seedList seed = map Some js"
    and "surfaceLog (map (readEvent payload) js) = Inr st"
    and "headerResult sid now mode header = Inr h"
  shows "\<exists>s. newSession payload sid now mode seed header = Inr s"
proof -
  obtain lg m where run: "runR (acceptSeedEvent payload) ([], newSurfaceManager 0)
      (enumerate 0 (seedList seed)) = Inr (lg, m)"
    using seed_run_accepts [OF newManager_inv surfaceLog_Nil assms(1)] assms(2,3) by fastforce
  then have inv: "managerInv lg m" "\<exists>st. surfaceLog lg = Inr st"
    using seed_run [OF newManager_inv surfaceLog_Nil, of payload "seedList seed" lg m] by auto
  define s0 where "s0 = \<lparr>s_log = lg, s_manager = m, s_header = h, s_firstLiveSeq = length lg,
              s_eventsSnapshot = None, s_headerFold = (None, 0), s_contextFold = (None, 0),
              s_derived = [], s_derivedNodes = 0, s_derivedGeneration = 0\<rparr>"
  have "sessionInv s0" unfolding s0_def using inv emptySession_inv by blast
  then obtain s1 e where "append s0 now (Some EndSeed) (Some (None, None)) = (s1, Inr e)"
    by (rule append_endSeed)
  then show ?thesis unfolding newSession_parts using run assms(4)
    by (cases "seed \<noteq> None \<and> (lg = [] \<or> ev_type (last lg) \<noteq> ''session/end-seed'')")
      (auto simp: s0_def Let_def)
qed

text \<open>
  Result: the constructor accepts a seed exactly when every element is an accepted event
  envelope, the events read from them form an accepted surface log (contiguous sequence numbers
  from zero, valid replacements, valid provenance), and the header is valid. Otherwise it throws.
\<close>

theorem newSession_accepts_iff:
  "(\<exists>s. newSession payload sid now mode seed header = Inr s) \<longleftrightarrow>
     (\<exists>js st h. seedList seed = map Some js \<and> list_all seedEventOK js
        \<and> surfaceLog (map (readEvent payload) js) = Inr st
        \<and> headerResult sid now mode header = Inr h)" (is "?L \<longleftrightarrow> ?R")
proof
  assume ?L
  then obtain s where s: "newSession payload sid now mode seed header = Inr s" ..
  from newSession_shape [OF s] obtain js where js: "seedList seed = map Some js"
    "\<forall>j \<in> set js. seedEventOK j" "headerResult sid now mode header = Inr (s_header s)"
    "sessionInv s"
    "s_log s = map (readEvent payload) js @ seedMarker now seed (map (readEvent payload) js)"
    by (auto simp: Let_def)
  from js(4,5) obtain st where "surfaceLog (map (readEvent payload) js @
      seedMarker now seed (map (readEvent payload) js)) = Inr st"
    by (auto simp: sessionInv_def)
  then obtain st' where "surfaceLog (map (readEvent payload) js) = Inr st'"
    by (rule surfaceLog_prefix)
  with js show ?R by (auto simp: list_all_iff)
next
  assume ?R
  then show ?L using newSession_succeeds by (fastforce simp: list_all_iff)
qed

section \<open>Live sessions\<close>

text \<open>
  A session in the hands of a program. \<open>validated\<close> is an append that was validated and then not
  committed (a listener vetoed it), \<open>committed\<close> is one that went through.
\<close>

inductive live :: "session \<Rightarrow> bool" where
  constructed: "newSession payload sid now mode seed header = Inr s \<Longrightarrow> live s"
| validated: "live s \<Longrightarrow> prepareAppend s appending now data meta = (s', r) \<Longrightarrow> live s'"
| committed: "live s \<Longrightarrow> prepareAppend s appending now data meta = (s', Inr e)
    \<Longrightarrow> live (commitAppend s' e)"
| read_events: "live s \<Longrightarrow> getEvents s = (s', es) \<Longrightarrow> live s'"
| read_header: "live s \<Longrightarrow> requestHeader s = (s', h) \<Longrightarrow> live s'"
| read_context: "live s \<Longrightarrow> requestContext s = (s', c) \<Longrightarrow> live s'"
| read_messages: "live s \<Longrightarrow> deriveMessages s = (s', r') \<Longrightarrow> live s'"

lemma live_inv: "live s \<Longrightarrow> sessionInv s"
proof (induction rule: live.induct)
  case (constructed payload sid now mode seed header s)
  then show ?case using newSession_shape by blast
next
  case (validated s appending now data meta s' r)
  show ?case by (rule prepareAppend_inv(1) [OF validated.IH validated.hyps(2)])
next
  case (committed s appending now data meta s' e)
  show ?case using prepareAppend_inv(3) [OF committed.IH committed.hyps(2) refl] ..
next
  case (read_events s s' es)
  show ?case by (rule getEvents_inv(1) [OF read_events.IH read_events.hyps(2)])
next
  case (read_header s s' h)
  show ?case by (rule requestHeader_inv(1) [OF read_header.IH read_header.hyps(2)])
next
  case (read_context s s' c)
  show ?case by (rule requestContext_inv(1) [OF read_context.IH read_context.hyps(2)])
next
  case (read_messages s s' r')
  obtain st where st: "surfaceLog (s_log s) = Inr st"
    using read_messages.IH by (auto simp: sessionInv_def)
  show ?case by (rule deriveMessages_inv(1) [OF read_messages.IH st read_messages.hyps(2)])
qed

lemma live_append: "live s \<Longrightarrow> append s now data meta = (s', r) \<Longrightarrow> live s'"
  by (auto simp: append_def split: prod.splits sum.splits intro: live.validated live.committed)

lemma live_surface:
  assumes "live s"
  obtains st where "surfaceLog (s_log s) = Inr st"
  using live_inv [OF assms] by (auto simp: sessionInv_def)

definition sample_payload :: "string \<Rightarrow> json \<Rightarrow> event_data" where
  "sample_payload t d =
     (if t = ''user/message'' then ev_data (sample_user 0) else PluginEvent t d)"

definition sample_start :: session where
  "sample_start = projr (newSession sample_payload ''s'' 0 Snapshot None None)"

abbreviation sample_append :: "session \<Rightarrow> session \<times> (session_error + event)" where
  "sample_append s \<equiv> append s 0 (Some (ev_data (sample_user 0))) (Some (Some (JStr ''append''), None))"

definition sample_session :: session where
  "sample_session = fst (sample_append sample_start)"

lemma sample_start_live: "live sample_start"
proof -
  have "\<not> isl (newSession sample_payload ''s'' 0 Snapshot None None)" by code_simp
  then have "newSession sample_payload ''s'' 0 Snapshot None None = Inr sample_start"
    by (simp add: sample_start_def)
  then show ?thesis by (rule live.constructed)
qed

lemma sample_session_live: "live sample_session"
  unfolding sample_session_def by (rule live_append [OF sample_start_live prod.collapse [symmetric]])

lemma sample_session_log: "s_log sample_session = [sample_user 0]"
  by code_simp

lemma live_reads:
  assumes "live s" and st: "surfaceLog (s_log s) = Inr st"
  shows "snd (getEvents s) = s_log s"
    and "snd (requestHeader s) = foldRequestHeader (s_log s) None"
    and "snd (requestContext s) = foldRequestContext (s_log s) None"
    and "snd (deriveMessages s) = Inr (modelHistory (s_log s) (nodes st))"
proof -
  note inv = live_inv [OF assms(1)]
  show "snd (getEvents s) = s_log s"
    and "snd (requestHeader s) = foldRequestHeader (s_log s) None"
    and "snd (requestContext s) = foldRequestContext (s_log s) None"
    and "snd (deriveMessages s) = Inr (modelHistory (s_log s) (nodes st))"
    by (rule getEvents_inv(2) [OF inv prod.collapse [symmetric]]
      requestHeader_inv(2) [OF inv prod.collapse [symmetric]]
      requestContext_inv(2) [OF inv prod.collapse [symmetric]]
      deriveMessages_inv(2) [OF inv st prod.collapse [symmetric]])+
qed

text \<open>
  Claim C3: in every session, however it was seeded and whatever was appended, vetoed or read
  before, each cached read answers what a fold over the complete log answers. The log is an
  accepted surface log, and the message projection never throws.
\<close>

theorem cached_reads_are_folds:
  assumes "live s"
  shows "\<exists>st. surfaceLog (s_log s) = Inr st
     \<and> snd (getEvents s) = s_log s
     \<and> snd (requestHeader s) = foldRequestHeader (s_log s) None
     \<and> snd (requestContext s) = foldRequestContext (s_log s) None
     \<and> snd (deriveMessages s) = Inr (modelHistory (s_log s) (nodes st))"
proof -
  obtain st where st: "surfaceLog (s_log s) = Inr st" using assms by (rule live_surface)
  then show ?thesis using live_reads [OF assms st] by blast
qed

theorem cached_reads_are_folds_witness:
  "\<exists>st. surfaceLog (s_log sample_session) = Inr st
     \<and> snd (deriveMessages sample_session) = Inr (modelHistory [sample_user 0] (nodes st))"
  using cached_reads_are_folds [OF sample_session_live] sample_session_log by auto

definition candidate :: "session \<Rightarrow> int \<Rightarrow> event_data \<Rightarrow> json option \<times> json option \<Rightarrow> event" where
  "candidate s now d meta =
     \<lparr>seq = length (s_log s), time = now, ev_data = d, surfaceOp = fst meta,
      sourceEventSeqs = snd meta, ignorable = False\<rparr>"

text \<open>
  Claim C4: \<^verbatim>\<open>append\<close> accepts exactly the candidates whose payload and metadata are
  lossless JSON, whose type and reason are supported, and that extend the log to an accepted
  surface log. An accepted event gets the next sequence number and is the only change of the log;
  a rejected one leaves the log as it was.
\<close>

theorem append_accepts_iff:
  assumes "live s" and "append s now data meta = (s', r)"
  shows "(r = Inr e \<longleftrightarrow>
       (\<exists>d mt st. data = Some d \<and> meta = Some mt \<and> e = candidate s now d mt
          \<and> assertSupportedRequestHeader (event_type d) (reasonOf d) = Inr ()
          \<and> surfaceLog (s_log s @ [e]) = Inr st))
    \<and> s_log s' = s_log s @ (case r of Inl _ \<Rightarrow> [] | Inr e \<Rightarrow> [e])"
    (is "(_ \<longleftrightarrow> ?R) \<and> _")
proof (rule conjI)
  note inv = live_inv [OF assms(1)]
  show "s_log s' = s_log s @ (case r of Inl _ \<Rightarrow> [] | Inr e \<Rightarrow> [e])"
    by (rule append_inv(2) [OF inv assms(2)])
  obtain st where st: "surfaceLog (s_log s) = Inr st" and m: "managerInv (s_log s) (s_manager s)"
    using inv by (auto simp: sessionInv_def)
  show "r = Inr e \<longleftrightarrow> ?R"
  proof (cases "\<exists>d mt. data = Some d \<and> meta = Some mt
      \<and> assertSupportedRequestHeader (event_type d) (reasonOf d) = Inr ()")
    case False
    then show ?thesis
      using assms(2) by (auto simp: append_def prepareAppend_def split: option.splits sum.splits)
  next
    case True
    then obtain d mt where d: "data = Some d" "meta = Some mt"
      "assertSupportedRequestHeader (event_type d) (reasonOf d) = Inr ()" by blast
    obtain m' v where v: "validateNext (s_log s) (s_manager s) (candidate s now d mt) = (m', v)"
      by fastforce
    have "r = (case v of None \<Rightarrow> Inr (candidate s now d mt) | Some err \<Rightarrow> Inl (SurfaceRejected err))"
      using assms(2) d v by (cases mt)
        (auto simp: append_def prepareAppend_def candidate_def Let_def split: option.splits)
    then show ?thesis
      using d validateNext_accepts [OF m st v] by (auto split: option.splits)
  qed
qed

theorem append_accepts_iff_witness:
  "s_log (fst (sample_append sample_session)) = [sample_user 0, sample_user 1]"
proof -
  have r: "snd (sample_append sample_session) = Inr (sample_user 1)" by code_simp
  show ?thesis
    using append_accepts_iff [OF sample_session_live prod.collapse [symmetric],
        of 0 "Some (ev_data (sample_user 0))" "Some (Some (JStr ''append''), None)"]
    by (simp add: r sample_session_log)
qed

text \<open>A storage encoding that a load reads back event by event; the marker of a load is silent.\<close>

definition stores ::
  "(string \<Rightarrow> json \<Rightarrow> event_data) \<Rightarrow> (event \<Rightarrow> json) \<Rightarrow> event list \<Rightarrow> bool" where
  "stores payload encode lg \<longleftrightarrow>
     list_all (\<lambda>e. seedEventOK (encode e) \<and> readEvent payload (encode e) = e) lg"

lemma marker_is_silent:
  "surfaceLog lg = Inr st \<Longrightarrow> surfaceLog (lg @ seedMarker now seed lg) = Inr st"
  "foldRequestHeader (lg @ seedMarker now seed lg) h = foldRequestHeader lg h"
  "foldRequestContext (lg @ seedMarker now seed lg) c = foldRequestContext lg c"
  by (simp_all add: seedMarker_def endSeed_accepted foldRequestHeader_append
      foldRequestContext_append)

definition sample_json :: "event \<Rightarrow> json" where
  "sample_json e = JObj [(''type'', JStr (ev_type e)), (''seq'', JNum (of_nat (seq e))),
     (''time'', JNum (of_int (time e))), (''surfaceOp'', JStr ''append''),
     (''data'', JObj [(''id'', JStr ''m''), (''role'', JStr ''user''),
        (''content'', JArr [JObj [(''type'', JStr ''text''), (''text'', JStr ''hi'')]]),
        (''source'', JObj [(''kind'', JStr ''user'')])])]"

end
