(* ===== verification/Session_Reload.thy ===== *)
theory Session_Reload
  imports Session_Live
begin

text \<open>
  Storing a session and loading it again: the JSON that the storage holds for a header and for an
  event, what a load accepts of it, and that a loaded session is the stored one to its readers.
\<close>

section \<open>The stored header\<close>

definition optProp :: "string \<Rightarrow> ('a \<Rightarrow> json) \<Rightarrow> 'a option \<Rightarrow> (string \<times> json) list" where
  "optProp k f v = (case v of None \<Rightarrow> [] | Some x \<Rightarrow> [(k, f x)])"

lemma optProp_simps [simp]: "optProp k f None = []" "optProp k f (Some x) = [(k, f x)]"
  by (simp_all add: optProp_def)

definition headerJson :: "session_header \<Rightarrow> json" where
  "headerJson h =
     JObj ([(''version'', JNum (of_int (sh_version h))), (''id'', JStr (sh_id h)),
            (''createdAt'', JNum (of_int (sh_createdAt h)))]
       @ optProp ''cwd'' JStr (sh_cwd h) @ optProp ''parentSession'' JStr (sh_parentSession h)
       @ optProp ''seedLength'' (\<lambda>n. JNum (of_nat n)) (sh_seedLength h)
       @ (if sh_subagentOrigin h then [(''origin'', JStr ''subagent'')] else [])
       @ optProp ''delegationDepth'' (\<lambda>n. JNum (of_nat n)) (sh_delegationDepth h)
       @ optProp ''agentPreset'' JStr (sh_agentPreset h))"

definition safeCount :: "nat option \<Rightarrow> bool" where
  "safeCount v \<longleftrightarrow> (case v of None \<Rightarrow> True | Some n \<Rightarrow> safeInt (int n))"

definition headerOK :: "session_header \<Rightarrow> bool" where
  "headerOK h \<longleftrightarrow>
     sh_version h = SESSION_FORMAT_VERSION \<and> 0 \<le> sh_createdAt h \<and> safeInt (sh_createdAt h)
     \<and> (case sh_cwd h of None \<Rightarrow> True | Some p \<Rightarrow> isAbsolute p)
     \<and> safeCount (sh_seedLength h) \<and> safeCount (sh_delegationDepth h)"

lemma nonNegSafeInt_SomeD: "nonNegSafeInt j = Some n \<Longrightarrow> j = JNum (of_nat n) \<and> safeInt (int n)"
  by (cases j) (auto split: option.splits if_splits dest!: ratInt_SomeD)

lemma optional_count: "optionalField nonNegSafeInt err k j = Inr v \<Longrightarrow> safeCount v"
  by (auto simp: optionalField_def safeCount_def split: option.splits dest: nonNegSafeInt_SomeD)

lemma validate_header_OK:
  assumes "validateSessionHeader sid j = Inr h"
  shows "headerOK h \<and> sh_id h = sid"
proof -
  obtain created where c: "Option.bind (jprop ''createdAt'' j) nonNegSafeInt = Some created"
    using assms by (cases "Option.bind (jprop ''createdAt'' j) nonNegSafeInt")
      (simp_all only: validateSessionHeader_def if_Inl_Inr option.case sum.distinct simp_thms)
  have "\<exists>cwd parent seedLen origin depth preset.
      \<not> (case cwd of None \<Rightarrow> False | Some p \<Rightarrow> \<not> isAbsolute p)
      \<and> optionalField nonNegSafeInt HeaderSeedLength ''seedLength'' j = Inr seedLen
      \<and> optionalField nonNegSafeInt HeaderDelegationDepth ''delegationDepth'' j = Inr depth
      \<and> h = \<lparr>sh_version = SESSION_FORMAT_VERSION, sh_id = sid, sh_createdAt = int created,
               sh_cwd = cwd, sh_parentSession = parent, sh_seedLength = seedLen,
               sh_subagentOrigin = (origin = Some True), sh_delegationDepth = depth, sh_agentPreset = preset\<rparr>"
    using assms unfolding validateSessionHeader_def if_Inl_Inr c option.case bindR_Inr_iff sum.inject
    by blast
  then obtain cwd parent seedLen origin depth preset where
    cwd: "\<not> (case cwd of None \<Rightarrow> False | Some p \<Rightarrow> \<not> isAbsolute p)"
    and n: "optionalField nonNegSafeInt HeaderSeedLength ''seedLength'' j = Inr seedLen"
      "optionalField nonNegSafeInt HeaderDelegationDepth ''delegationDepth'' j = Inr depth"
    and h: "h = \<lparr>sh_version = SESSION_FORMAT_VERSION, sh_id = sid, sh_createdAt = int created,
               sh_cwd = cwd, sh_parentSession = parent, sh_seedLength = seedLen,
               sh_subagentOrigin = (origin = Some True), sh_delegationDepth = depth, sh_agentPreset = preset\<rparr>"
    by blast
  have "safeInt (int created)" using c by (auto simp: bind_eq_Some_conv dest: nonNegSafeInt_SomeD)
  then show ?thesis using cwd optional_count [OF n(1)] optional_count [OF n(2)]
    by (auto simp: h headerOK_def split: option.splits)
qed

lemma validate_headerJson:
  assumes "headerOK h"
  shows "validateSessionHeader (sh_id h) (headerJson h) = Inr h"
proof -
  obtain n where n: "sh_createdAt h = int n" using assms nonneg_int_cases by (auto simp: headerOK_def)
  have r: "rat_of_int (int n) = of_nat n" by simp
  show ?thesis
    using assms n
    by (cases h; cases "sh_cwd h"; cases "sh_parentSession h"; cases "sh_seedLength h";
        cases "sh_subagentOrigin h"; cases "sh_delegationDepth h"; cases "sh_agentPreset h")
      (simp_all add: validateSessionHeader_def headerJson_def headerOK_def safeCount_def optionalField_def)
qed

text \<open>Every session in the hands of a program has such a header.\<close>

lemma live_header: "live s \<Longrightarrow> headerOK (s_header s)"
proof (induction rule: live.induct)
  case (constructed payload sid now mode seed header s)
  then have "headerResult sid now mode header = Inr (s_header s)" using newSession_shape by blast
  then show ?case
    using validate_header_OK
    by (auto simp: headerResult_def snapshotSessionHeader_def split: seed_mode.splits option.splits)
next
  case (validated s appending now data meta s' r)
  then show ?case by (auto simp: prepareAppend_def Let_def split: option.splits sum.splits prod.splits if_splits)
next
  case (committed s appending now data meta s' e)
  then show ?case
    by (auto simp: prepareAppend_def commitAppend_def Let_def split: option.splits sum.splits prod.splits if_splits)
next
  case (read_events s s' es)
  then show ?case by (auto simp: getEvents_def split: option.splits)
next
  case (read_header s s' h)
  then show ?case by (auto simp: requestHeader_def Let_def)
next
  case (read_context s s' c)
  then show ?case by (auto simp: requestContext_def Let_def)
next
  case (read_messages s s' r')
  then show ?case by (auto simp: deriveMessages_def Let_def split: prod.splits sum.splits if_splits)
qed

section \<open>The stored event\<close>

text \<open>
  The object of an event: its metadata are there exactly when the event carries them. The JSON of
  the payload is a parameter; \<open>represents d j\<close> says that \<open>j\<close> has the properties which the
  declared types of the payload give it, as far as a load inspects them.
\<close>

definition eventJson :: "(event_data \<Rightarrow> json) \<Rightarrow> event \<Rightarrow> json" where
  "eventJson enc e =
     JObj ([(''type'', JStr (ev_type e)), (''seq'', JNum (of_nat (seq e))), (''time'', JNum (of_int (time e))),
            (''data'', enc (ev_data e))]
       @ optProp ''surfaceOp'' (\<lambda>j. j) (surfaceOp e)
       @ optProp ''sourceEventSeqs'' (\<lambda>j. j) (sourceEventSeqs e)
       @ (if ignorable e then [(''ignorable'', JBool True)] else []))"

definition hasStr :: "json \<Rightarrow> string \<Rightarrow> string \<Rightarrow> bool" where
  "hasStr j k v \<longleftrightarrow> jprop k j = Some (JStr v)"

fun sourceKind :: "message_source \<Rightarrow> string" where
  "sourceKind UserSource = ''user''"
| "sourceKind (PluginSource _ _) = ''plugin''"
| "sourceKind (ModelSource _ _ _) = ''model''"
| "sourceKind (ToolSource _) = ''tool''"
| "sourceKind (GoalSource _ _ _) = ''goal''"
| "sourceKind (OtherSource k _) = k"

fun roleName :: "role \<Rightarrow> string" where
  "roleName System = ''system''"
| "roleName User = ''user''"
| "roleName Assistant = ''assistant''"

definition isSource :: "message_source \<Rightarrow> json \<Rightarrow> bool" where
  "isSource src j \<longleftrightarrow>
     hasStr j ''kind'' (sourceKind src)
     \<and> (case src of
          ModelSource p m _ \<Rightarrow> hasStr j ''provider'' p \<and> hasStr j ''model'' m
        | ToolSource c \<Rightarrow> hasStr j ''callId'' c
        | OtherSource k _ \<Rightarrow> k \<noteq> ''model''
        | _ \<Rightarrow> True)"

definition isMessage :: "message \<Rightarrow> json \<Rightarrow> bool" where
  "isMessage m j \<longleftrightarrow>
     hasStr j ''id'' (msg_id m) \<and> hasStr j ''role'' (roleName (msg_role m))
     \<and> (\<exists>src. jprop ''source'' j = Some src \<and> isSource (msg_source m) src)
     \<and> (\<exists>bs. jprop ''content'' j = Some (JArr bs))"

definition isToolMessage :: "tool_message \<Rightarrow> json \<Rightarrow> bool" where
  "isToolMessage m j \<longleftrightarrow>
     isMessage (asMessage m) j
     \<and> (\<exists>block bs. jprop ''content'' j = Some (JArr [block]) \<and> hasStr block ''type'' ''tool-result''
          \<and> hasStr block ''toolCallId'' (tm_toolCallId m) \<and> jprop ''content'' block = Some (JArr bs))"

definition defaultsJson :: "adapter_defaults \<Rightarrow> json" where
  "defaultsJson d =
     JObj ((if ad_reasoningEffort d then [(''reasoningEffort'', JBool True)] else [])
       @ (if ad_maxTokens d then [(''maxTokens'', JBool True)] else []))"

definition isHeader :: "epoch_header \<Rightarrow> json \<Rightarrow> bool" where
  "isHeader h j \<longleftrightarrow>
     (\<exists>ps cfg. j = JObj ps \<and> jprop ''config'' j = Some cfg
        \<and> hasStr cfg ''provider'' (cfg_provider (eh_config h)) \<and> hasStr cfg ''model'' (cfg_model (eh_config h))
        \<and> jprop ''reasoningEffort'' cfg = map_option JStr (cfg_reasoningEffort (eh_config h))
        \<and> jprop ''maxTokens'' cfg = map_option JNum (cfg_maxTokens (eh_config h))
        \<and> jprop ''adapterDefaults'' j = map_option defaultsJson (eh_adapterDefaults h))"

definition checkedTypes :: "string list" where
  "checkedTypes = [''request/header'', ''user/message'', ''assistant/message'', ''tool/result'']"

fun represents :: "event_data \<Rightarrow> json \<Rightarrow> bool" where
  "represents (UserMsg m) j = isMessage m j"
| "represents (AssistantMsg _ _ m _) j = (\<exists>mj. jprop ''message'' j = Some mj \<and> isMessage m mj)"
| "represents (ToolResult r) j = (\<exists>mj. jprop ''message'' j = Some mj \<and> isToolMessage (tr_message r) mj)"
| "represents (RequestHeader h reason) j =
     ((\<exists>hj. jprop ''header'' j = Some hj \<and> isHeader h hj) \<and> hasStr j ''reason'' reason)"
| "represents (PluginEvent t _) j = (t \<notin> set checkedTypes)"
| "represents _ j = True"

text \<open>What a load asks of an event beyond its place in the log, on the typed payload.\<close>

definition identified :: "message \<Rightarrow> bool" where
  "identified m \<longleftrightarrow> msg_id m \<noteq> [] \<and> sourceKind (msg_source m) \<noteq> []"

fun loadableData :: "event_data \<Rightarrow> bool" where
  "loadableData (UserMsg m) = (identified m \<and> msg_role m = User)"
| "loadableData (AssistantMsg _ _ m _) =
     (identified m \<and> msg_role m = Assistant
      \<and> (case msg_source m of ModelSource p mo _ \<Rightarrow> p \<noteq> [] \<and> mo \<noteq> [] | _ \<Rightarrow> False))"
| "loadableData (ToolResult r) =
     (tm_id (tr_message r) \<noteq> [] \<and> tm_sourceCallId (tr_message r) \<noteq> []
      \<and> tm_toolCallId (tr_message r) = tm_sourceCallId (tr_message r))"
| "loadableData (RequestHeader h reason) =
     (cfg_provider (eh_config h) \<noteq> [] \<and> cfg_model (eh_config h) \<noteq> []
      \<and> cfg_reasoningEffort (eh_config h) \<noteq> Some []
      \<and> (case eh_adapterDefaults h of
           None \<Rightarrow> True
         | Some d \<Rightarrow> (ad_reasoningEffort d \<longrightarrow> cfg_reasoningEffort (eh_config h) \<noteq> None)
             \<and> (ad_maxTokens d \<longrightarrow> cfg_maxTokens (eh_config h) \<noteq> None))
      \<and> reason \<noteq> ''fallback'')"
| "loadableData (PluginEvent t _) = (t \<noteq> ''request/header-delta'')"
| "loadableData _ = True"

definition loadable :: "event \<Rightarrow> bool" where
  "loadable e \<longleftrightarrow> safeInt (int (seq e)) \<and> safeInt (time e) \<and> loadableData (ev_data e)"

lemma eventJson_fields:
  "jprop ''type'' (eventJson enc e) = Some (JStr (ev_type e))"
  "jprop ''seq'' (eventJson enc e) = Some (JNum (of_nat (seq e)))"
  "jprop ''time'' (eventJson enc e) = Some (JNum (of_int (time e)))"
  "jprop ''data'' (eventJson enc e) = Some (enc (ev_data e))"
  by (simp_all add: eventJson_def)

lemma eventJson_meta:
  "jprop ''surfaceOp'' (eventJson enc e) = surfaceOp e"
  "jprop ''sourceEventSeqs'' (eventJson enc e) = sourceEventSeqs e"
  "jprop ''ignorable'' (eventJson enc e) = (if ignorable e then Some (JBool True) else None)"
  by (cases "surfaceOp e"; cases "sourceEventSeqs e"; simp add: eventJson_def)+

lemma eventJson_keys: "set (objectKeys (eventJson enc e)) \<subseteq> set envelopeKeys"
  by (auto simp: eventJson_def envelopeKeys_def optProp_def split: option.split)

lemmas eventJson_props = eventJson_fields eventJson_meta

lemma read_eventJson:
  assumes "safeInt (int (seq e))" "safeInt (time e)" "payload (ev_type e) (enc (ev_data e)) = ev_data e"
  shows "readEvent payload (eventJson enc e) = e"
  using assms by (cases e) (simp add: readEvent_def eventJson_props)

lemma message_shape:
  assumes "isMessage m mj"
  shows "assertMessageEventShape ''user/message'' mj = Inr () \<longleftrightarrow> identified m \<and> msg_role m = User"
  using assms
  by (cases "msg_role m") (auto simp: assertMessageEventShape_def isMessageType_def isMessage_def hasStr_def
      isSource_def identified_def Let_def)

lemma assistant_shape:
  assumes "jprop ''message'' j = Some mj" "isMessage m mj"
  shows "assertMessageEventShape ''assistant/message'' j = Inr () \<longleftrightarrow> loadableData (AssistantMsg t s m u)"
  using assms
  by (cases "msg_role m"; cases "msg_source m") (auto simp: assertMessageEventShape_def isMessageType_def isMessage_def hasStr_def
      isSource_def identified_def hasProviderModel_def Let_def)

lemma tool_shape:
  assumes "jprop ''message'' j = Some mj" "isToolMessage (tr_message r) mj"
  shows "assertMessageEventShape ''tool/result'' j = Inr () \<longleftrightarrow> loadableData (ToolResult r)"
  using assms
  by (auto simp: assertMessageEventShape_def isMessageType_def isMessage_def hasStr_def isToolMessage_def
      isSource_def asMessage_def Let_def split: if_splits)

lemma header_shape:
  assumes "jprop ''header'' j = Some hj" "isHeader h hj"
  shows "assertCurrentLlmShape ''request/header'' j = Inr () \<longleftrightarrow> loadableData (RequestHeader h ''initial'')"
proof -
  obtain ps cfg where hj: "hj = JObj ps" "jprop ''config'' (JObj ps) = Some cfg"
        "jprop ''provider'' cfg = Some (JStr (cfg_provider (eh_config h)))"
        "jprop ''model'' cfg = Some (JStr (cfg_model (eh_config h)))"
        "jprop ''reasoningEffort'' cfg = map_option JStr (cfg_reasoningEffort (eh_config h))"
        "jprop ''maxTokens'' cfg = map_option JNum (cfg_maxTokens (eh_config h))"
        "jprop ''adapterDefaults'' (JObj ps) = map_option defaultsJson (eh_adapterDefaults h)"
    using assms(2) by (auto simp: isHeader_def hasStr_def)
  have d: "assertAdapterDefaults (map_option defaultsJson (eh_adapterDefaults h)) cfg = Inr () \<longleftrightarrow>
      (case eh_adapterDefaults h of None \<Rightarrow> True
       | Some d \<Rightarrow> (ad_reasoningEffort d \<longrightarrow> cfg_reasoningEffort (eh_config h) \<noteq> None)
             \<and> (ad_maxTokens d \<longrightarrow> cfg_maxTokens (eh_config h) \<noteq> None))"
    using hj(5,6) by (auto simp: assertAdapterDefaults_def defaultsJson_def allowedAdapterKeys_def split: option.split)
  show ?thesis
    using hj d assms(1)
    by (cases "cfg_reasoningEffort (eh_config h)")
      (auto simp: assertCurrentLlmShape_def hasProviderModel_def Let_def simp del: jprop.simps)
qed

lemma seed_eventJson:
  assumes "represents (ev_data e) (enc (ev_data e))"
  shows "seedEventOK (eventJson enc e) \<longleftrightarrow> loadable e"
proof -
  have env: "assertSessionEventEnvelope (eventJson enc e) = Inr () \<longleftrightarrow>
      ev_type e \<noteq> ''request/header-delta'' \<and> safeInt (int (seq e)) \<and> safeInt (time e)
      \<and> (ev_type e \<in> set checkedTypes \<longrightarrow> assertCurrentLlmShape (ev_type e) (enc (ev_data e)) = Inr ())"
  proof -
    have "\<not> (\<exists>k \<in> set (objectKeys (eventJson enc e)). k \<notin> set envelopeKeys)"
      using eventJson_keys [of enc e] by blast
    then show ?thesis
      unfolding assertSessionEventEnvelope_def
      by (simp add: eventJson_props checkedTypes_def del: set_simps objectKeys.simps)
  qed
  have reason: "seedReason (eventJson enc e) = (case jprop ''reason'' (enc (ev_data e)) of Some (JStr r) \<Rightarrow> Some r | _ \<Rightarrow> None)"
      "seedType (eventJson enc e) = ev_type e"
    by (simp_all add: seedReason_def seedType_def eventJson_props split: option.split json.split)
  note shapes = assertCurrentLlmShape_def [of "''user/message''"] assertCurrentLlmShape_def [of "''assistant/message''"]
    assertCurrentLlmShape_def [of "''tool/result''"]
  show ?thesis
    unfolding seedEventOK_def env reason loadable_def
    using assms message_shape assistant_shape tool_shape header_shape
    by (cases "ev_data e") (auto simp: checkedTypes_def assertSupportedRequestHeader_def shapes hasStr_def)
qed

section \<open>Loading what was stored\<close>

definition reload ::
  "(string \<Rightarrow> json \<Rightarrow> event_data) \<Rightarrow> (event_data \<Rightarrow> json) \<Rightarrow> int \<Rightarrow> session \<Rightarrow> session_error + session" where
  "reload payload enc now s =
     newSession payload (sh_id (s_header s)) now Restore (Some (map (\<lambda>e. Some (eventJson enc e)) (s_log s)))
       (Some (Some (headerJson (s_header s))))"

text \<open>
  What is asked of the JSON of the payloads: it has the declared properties, and the typed reading
  of it is the payload.
\<close>

definition faithful :: "(string \<Rightarrow> json \<Rightarrow> event_data) \<Rightarrow> (event_data \<Rightarrow> json) \<Rightarrow> event_data \<Rightarrow> bool" where
  "faithful payload enc d \<longleftrightarrow> represents d (enc d) \<and> payload (event_type d) (enc d) = d"

lemma reload_loads:
  assumes "live s" and "\<forall>e \<in> set (s_log s). faithful payload enc (ev_data e)"
  shows "(\<exists>s'. reload payload enc now s = Inr s') \<longleftrightarrow> list_all loadable (s_log s)"
proof
  assume "\<exists>s'. reload payload enc now s = Inr s'"
  then obtain s' where "reload payload enc now s = Inr s'" ..
  from newSession_shape [OF this [unfolded reload_def]] obtain js where
    "map Some (map (eventJson enc) (s_log s)) = map Some js" "\<forall>j \<in> set js. seedEventOK j"
    by (auto simp: seedList_def comp_def)
  then have "\<forall>e \<in> set (s_log s). seedEventOK (eventJson enc e)"
    by (metis inj_Some inj_map_eq_map imageI list.set_map)
  then show "list_all loadable (s_log s)"
    using assms(2) seed_eventJson unfolding list_all_iff faithful_def by blast
next
  assume ok: "list_all loadable (s_log s)"
  obtain st where st: "surfaceLog (s_log s) = Inr st" using assms(1) by (rule live_surface)
  have seeds: "seedList (Some (map (\<lambda>e. Some (eventJson enc e)) (s_log s)))
      = map Some (map (eventJson enc) (s_log s))" by (simp add: seedList_def)
  have read: "map (readEvent payload) (map (eventJson enc) (s_log s)) = s_log s"
    using ok assms(2) read_eventJson by (auto simp: list_all_iff loadable_def faithful_def intro!: map_idI)
  have "\<forall>j \<in> set (map (eventJson enc) (s_log s)). seedEventOK j"
    using ok assms(2) seed_eventJson by (auto simp: list_all_iff faithful_def)
  moreover have "headerResult (sh_id (s_header s)) now Restore (Some (Some (headerJson (s_header s)))) = Inr (s_header s)"
    using validate_headerJson [OF live_header [OF assms(1)]] by (simp add: headerResult_def)
  ultimately show "\<exists>s'. reload payload enc now s = Inr s'"
    unfolding reload_def using newSession_succeeds [OF _ seeds _] read st by metis
qed

text \<open>
  Claim C5: storing and loading. The storage holds the header of the session and its events as
  objects whose payloads are faithful JSON. A load succeeds exactly when every event is loadable:
  its number and time are safe integers, messages are identified and of their role, a model message
  names its model, a tool result names one call, and a request header names its model and only
  marks defaults it has. Then the loaded session has the header of the stored one and its log, with
  an end-of-seed marker behind it unless it ended with one; the events of the seed are not live,
  and the messages, the request header and the request context are read as before.
\<close>

theorem reload_preserves_session:
  assumes "live s" and "\<forall>e \<in> set (s_log s). faithful payload enc (ev_data e)"
  shows "((\<exists>s'. reload payload enc now s = Inr s') \<longleftrightarrow> list_all loadable (s_log s))
     \<and> (\<forall>s'. reload payload enc now s = Inr s' \<longrightarrow>
          s_header s' = s_header s
          \<and> s_log s' = s_log s @ (if s_log s = [] \<or> ev_type (last (s_log s)) \<noteq> ''session/end-seed''
                                 then [endSeedEvent (length (s_log s)) now] else [])
          \<and> s_firstLiveSeq s' = length (s_log s)
          \<and> snd (deriveMessages s') = snd (deriveMessages s)
          \<and> snd (requestHeader s') = snd (requestHeader s)
          \<and> snd (requestContext s') = snd (requestContext s))"
proof (rule conjI [OF reload_loads [OF assms]], intro allI impI)
  fix s' assume s': "reload payload enc now s = Inr s'"
  let ?js = "map (eventJson enc) (s_log s)" and ?seed = "Some (map (\<lambda>e. Some (eventJson enc e)) (s_log s))"
  obtain st where st: "surfaceLog (s_log s) = Inr st" using assms(1) by (rule live_surface)
  have "list_all loadable (s_log s)" using reload_loads [OF assms, of now] s' by blast
  then have read: "map (readEvent payload) ?js = s_log s"
    using assms(2) read_eventJson by (auto simp: list_all_iff loadable_def faithful_def intro!: map_idI)
  from newSession_shape [OF s' [unfolded reload_def]] obtain js where js: "map Some ?js = map Some js"
      "s_log s' = map (readEvent payload) js @ seedMarker now ?seed (map (readEvent payload) js)"
      "s_firstLiveSeq s' = length (map (readEvent payload) js)"
      "headerResult (sh_id (s_header s)) now Restore (Some (Some (headerJson (s_header s)))) = Inr (s_header s')"
    unfolding Let_def by (auto simp: seedList_def comp_def)
  have "js = ?js" using js(1) by (metis inj_Some inj_map_eq_map)
  then have shape: "s_log s' = s_log s @ seedMarker now ?seed (s_log s)"
      "s_firstLiveSeq s' = length (s_log s)"
    using js(2,3) by (simp_all only: read)
  have h: "s_header s' = s_header s"
    using js(4) validate_headerJson [OF live_header [OF assms(1)]] by (simp add: headerResult_def)
  have st': "surfaceLog (s_log s') = Inr st" using marker_is_silent(1) [OF st] shape(1) by simp
  have m: "(if s_log s = [] \<or> ev_type (last (s_log s)) \<noteq> ''session/end-seed''
      then [endSeedEvent (length (s_log s)) now] else []) = seedMarker now ?seed (s_log s)"
    by (simp add: seedMarker_def)
  have "modelHistory (s_log s') (nodes st) = modelHistory (s_log s) (nodes st)"
    unfolding shape(1) by (rule modelHistory_grow, rule surfaceInv_below [OF surfaceLog_inv [OF st]])
  then show "s_header s' = s_header s
          \<and> s_log s' = s_log s @ (if s_log s = [] \<or> ev_type (last (s_log s)) \<noteq> ''session/end-seed''
                                 then [endSeedEvent (length (s_log s)) now] else [])
          \<and> s_firstLiveSeq s' = length (s_log s)
          \<and> snd (deriveMessages s') = snd (deriveMessages s)
          \<and> snd (requestHeader s') = snd (requestHeader s)
          \<and> snd (requestContext s') = snd (requestContext s)"
    unfolding m
    using live_reads [OF assms(1) st] live_reads [OF live.constructed [OF s' [unfolded reload_def]] st'] shape h
    by (simp add: marker_is_silent(2,3))
qed

definition sample_user_json :: "event_data \<Rightarrow> json" where
  "sample_user_json d =
     JObj [(''id'', JStr ''m''), (''role'', JStr ''user''),
       (''content'', JArr [JObj [(''type'', JStr ''text''), (''text'', JStr ''hi'')]]),
       (''source'', JObj [(''kind'', JStr ''user'')])]"

theorem reload_preserves_session_witness:
  "\<exists>s'. reload sample_payload sample_user_json 7 sample_session = Inr s'
     \<and> s_log s' = [sample_user 0, endSeedEvent 1 7]
     \<and> snd (deriveMessages s') = snd (deriveMessages sample_session)"
proof -
  have e: "s_log sample_session = [sample_user 0]" by (rule sample_session_log)
  have "jprop ''source'' (sample_user_json (ev_data (sample_user 0))) = Some (JObj [(''kind'', JStr ''user'')])"
      "jprop ''content'' (sample_user_json (ev_data (sample_user 0)))
        = Some (JArr [JObj [(''type'', JStr ''text''), (''text'', JStr ''hi'')]])" by code_simp+
  moreover have "case ev_data (sample_user 0) of UserMsg m \<Rightarrow>
        hasStr (sample_user_json (ev_data (sample_user 0))) ''id'' (msg_id m)
        \<and> hasStr (sample_user_json (ev_data (sample_user 0))) ''role'' (roleName (msg_role m))
        \<and> isSource (msg_source m) (JObj [(''kind'', JStr ''user'')]) | _ \<Rightarrow> False" by code_simp
  ultimately have "represents (ev_data (sample_user 0)) (sample_user_json (ev_data (sample_user 0)))"
    by (auto simp: isMessage_def split: event_data.splits)
  moreover have "sample_payload (ev_type (sample_user 0)) (sample_user_json (ev_data (sample_user 0)))
      = ev_data (sample_user 0)" by code_simp
  ultimately have "\<forall>e \<in> set (s_log sample_session). faithful sample_payload sample_user_json (ev_data e)"
    by (simp add: e faithful_def)
  from reload_preserves_session [OF sample_session_live this, of 7]
  have r: "(\<exists>s'. reload sample_payload sample_user_json 7 sample_session = Inr s')
        \<longleftrightarrow> list_all loadable (s_log sample_session)"
      "\<forall>s'. reload sample_payload sample_user_json 7 sample_session = Inr s' \<longrightarrow>
        s_log s' = [sample_user 0] @ (if ev_type (sample_user 0) \<noteq> ''session/end-seed''
                                 then [endSeedEvent 1 7] else [])
        \<and> snd (deriveMessages s') = snd (deriveMessages sample_session)"
    by (simp_all add: e)
  have "list_all loadable [sample_user 0]" "ev_type (sample_user 0) \<noteq> ''session/end-seed''" by code_simp+
  with r show ?thesis by (fastforce simp: e)
qed

end
