(* ===== verification/Repair.thy ===== *)
theory Repair
  imports Surface_Facts
begin

text \<open>
  \<^verbatim>\<open>packages/core/session/src/repair.ts\<close>: the synthetic events that close a log whose last
  turn was interrupted. \<open>repairScan\<close> is the loop over the durable log, \<open>interruptedTurnClosers\<close>
  the function. The facts here are about the function alone; that the closers are accepted by
  the surface and by the relational invariants is in \<open>Trace_Facts\<close>.
\<close>

section \<open>The scan\<close>

record repair_state =
  rs_openTurn :: "int option"
  rs_openStep :: "int option"
  rs_pending :: "(string, int \<times> nat option) omap"

definition repairStart :: repair_state where
  "repairStart = \<lparr>rs_openTurn = None, rs_openStep = None, rs_pending = []\<rparr>"

fun registerCalls ::
  "int \<Rightarrow> content_block list \<Rightarrow> (string, int \<times> nat option) omap
    \<Rightarrow> (string, int \<times> nat option) omap" where
  "registerCalls step [] pending = pending"
| "registerCalls step (ToolCallBlock cid _ _ # bs) pending =
     registerCalls step bs (mapSet pending cid (step, None))"
| "registerCalls step (_ # bs) pending = registerCalls step bs pending"

definition repairStep :: "repair_state \<Rightarrow> event \<Rightarrow> repair_state" where
  "repairStep st e =
     (case ev_data e of
        TurnStart turn \<Rightarrow> st\<lparr>rs_openTurn := Some turn, rs_openStep := None, rs_pending := []\<rparr>
      | TurnEnd _ _ \<Rightarrow> st\<lparr>rs_openTurn := None, rs_openStep := None, rs_pending := []\<rparr>
      | StepStart _ step \<Rightarrow> st\<lparr>rs_openStep := Some step\<rparr>
      | StepEnd _ _ \<Rightarrow> st\<lparr>rs_pending := [], rs_openStep := None\<rparr>
      | AssistantMsg _ step msg _ \<Rightarrow>
          st\<lparr>rs_pending := registerCalls step (msg_content msg) (rs_pending st)\<rparr>
      | ToolCall _ _ cid _ _ \<Rightarrow>
          (case map_of (rs_pending st) cid of
             None \<Rightarrow> st
           | Some (step, _) \<Rightarrow> st\<lparr>rs_pending := mapSet (rs_pending st) cid (step, Some (seq e))\<rparr>)
      | ToolResult r \<Rightarrow>
          st\<lparr>rs_pending := mapDelete (rs_pending st) (tm_sourceCallId (tr_message r))\<rparr>
      | _ \<Rightarrow> st)"

definition repairScan :: "event list \<Rightarrow> repair_state" where
  "repairScan events = foldl repairStep repairStart events"

section \<open>The closers\<close>

definition TOOL_NOT_STARTED :: string where
  "TOOL_NOT_STARTED = ''TOOL_NOT_STARTED''"

definition TOOL_OUTCOME_UNKNOWN :: string where
  "TOOL_OUTCOME_UNKNOWN = ''TOOL_OUTCOME_UNKNOWN''"

definition notStartedText :: string where
  "notStartedText = ''The tool call was interrupted before the Harness recorded it as started. Retry it if it is still needed.''"

definition outcomeUnknownText :: string where
  "outcomeUnknownText = ''The tool call was interrupted after it was recorded, but no result was durably recorded. Its outcome is unknown. Decide whether to retry from the tool semantics: retry only if the operation is read-only or idempotent; if it may have side effects, first verify external state or ask the user. Do not retry blindly.''"

definition syntheticResult :: "int \<Rightarrow> nat \<Rightarrow> int \<Rightarrow> string \<Rightarrow> int \<Rightarrow> nat option \<Rightarrow> event" where
  "syntheticResult turn n tm cid step callSeq =
     (let started = (callSeq \<noteq> None) in
      \<lparr>seq = n, time = tm,
       ev_data = ToolResult
         \<lparr>tr_turn = turn, tr_step = step,
          tr_message =
            \<lparr>tm_id = ''interrupted-tool-result-'' @ cid @ ''-'' @ natStr n,
             tm_sourceCallId = cid, tm_toolCallId = cid,
             tm_content = [TextBlock (if started then outcomeUnknownText else notStartedText)],
             tm_isError = Some True\<rparr>,
          tr_error = Some (if started then (''ToolOutcomeUnknownError'', TOOL_OUTCOME_UNKNOWN)
                           else (''ToolNotStartedError'', TOOL_NOT_STARTED)),
          tr_meta = None\<rparr>,
       surfaceOp = Some (JStr ''append''),
       sourceEventSeqs = (case callSeq of None \<Rightarrow> None | Some k \<Rightarrow> Some (JArr [JNum (of_nat k)])),
       ignorable = False\<rparr>)"

fun resultClosers ::
  "int \<Rightarrow> int \<Rightarrow> nat \<Rightarrow> (string, int \<times> nat option) omap \<Rightarrow> event list" where
  "resultClosers turn tm n [] = []"
| "resultClosers turn tm n ((cid, step, callSeq) # pending) =
     syntheticResult turn n tm cid step callSeq # resultClosers turn tm (Suc n) pending"

definition plainEvent :: "nat \<Rightarrow> int \<Rightarrow> event_data \<Rightarrow> event" where
  "plainEvent n tm d =
     \<lparr>seq = n, time = tm, ev_data = d, surfaceOp = None, sourceEventSeqs = None,
      ignorable = False\<rparr>"

definition boundaryClosers :: "int \<Rightarrow> int \<Rightarrow> nat \<Rightarrow> int option \<Rightarrow> event list" where
  "boundaryClosers turn tm n openStep =
     (case openStep of
        None \<Rightarrow> [plainEvent n tm (TurnEnd turn Interrupted)]
      | Some step \<Rightarrow> [plainEvent n tm (StepEnd turn step),
                       plainEvent (Suc n) tm (TurnEnd turn Interrupted)])"

definition interruptedTurnClosers :: "event list \<Rightarrow> event list" where
  "interruptedTurnClosers events =
     (let st = repairScan events in
      case rs_openTurn st of
        None \<Rightarrow> []
      | Some turn \<Rightarrow>
          if events = [] then []
          else (let n = Suc (seq (last events));
                    tm = time (last events);
                    results = resultClosers turn tm n (rs_pending st)
                in results @ boundaryClosers turn tm (n + length results) (rs_openStep st)))"

section \<open>Facts about the scan and the closers\<close>

lemma repairScan_append: "repairScan (xs @ ys) = foldl repairStep (repairScan xs) ys"
  by (simp add: repairScan_def)

lemma length_resultClosers [simp]: "length (resultClosers turn tm n p) = length p"
  by (induction p arbitrary: n) auto

lemma distinct_registerCalls:
  "distinct (map fst p) \<Longrightarrow> distinct (map fst (registerCalls step bs p))"
proof (induction bs arbitrary: p)
  case Nil
  then show ?case by simp
next
  case (Cons b bs)
  then show ?case by (cases b) (auto simp: distinct_mapSet)
qed

lemma distinct_repairStep:
  "distinct (map fst (rs_pending st)) \<Longrightarrow> distinct (map fst (rs_pending (repairStep st e)))"
  by (auto simp: repairStep_def distinct_registerCalls distinct_mapSet distinct_mapDelete
      split: event_data.split option.split)

lemma distinct_pending: "distinct (map fst (rs_pending (repairScan es)))"
proof (induction es rule: rev_induct)
  case Nil
  then show ?case by (simp add: repairScan_def repairStart_def)
next
  case (snoc e es)
  then show ?case
    using distinct_repairStep by (simp add: repairScan_append)
qed

lemma openTurn_nonempty: "rs_openTurn (repairScan es) = Some t \<Longrightarrow> es \<noteq> []"
  by (auto simp: repairScan_def repairStart_def)

text \<open>The results answer the pending calls one by one, so none is left at the step boundary.\<close>

lemma scan_syntheticResult:
  "repairStep st (syntheticResult turn n tm cid step k) = st\<lparr>rs_pending := mapDelete (rs_pending st) cid\<rparr>"
  by (simp add: repairStep_def syntheticResult_def Let_def)

lemma scan_resultClosers:
  assumes "distinct (map fst (rs_pending st))"
  shows "foldl repairStep st (resultClosers turn tm n (rs_pending st)) = st\<lparr>rs_pending := []\<rparr>"
proof -
  have "distinct (map fst p) \<Longrightarrow> rs_pending st = p \<Longrightarrow>
      foldl repairStep st (resultClosers turn tm n p) = st\<lparr>rs_pending := []\<rparr>" for p
  proof (induction p arbitrary: st n)
    case Nil
    then show ?case by simp
  next
    case (Cons c p)
    obtain cid step k where c: "c = (cid, step, k)" by (cases c)
    have "mapDelete p cid = p" "cid \<notin> fst ` set p"
      using Cons.prems(1) by (auto simp: mapDelete_def c filter_id_conv)
    then have "repairStep st (syntheticResult turn n tm cid step k) = st\<lparr>rs_pending := p\<rparr>"
      using Cons.prems(2) by (simp add: scan_syntheticResult c mapDelete_def)
    with Cons.IH [of "st\<lparr>rs_pending := p\<rparr>"] Cons.prems(1) show ?case
      by (simp add: c)
  qed
  with assms show ?thesis by blast
qed

lemma seq_resultClosers:
  "i < length p \<Longrightarrow> seq (resultClosers turn tm n p ! i) = n + i"
proof (induction p arbitrary: n i)
  case Nil
  then show ?case by simp
next
  case (Cons c p)
  then show ?case by (cases c; cases i) (auto simp: syntheticResult_def Let_def)
qed

lemma closers_open:
  assumes "rs_openTurn (repairScan es) = Some turn"
  shows "interruptedTurnClosers es =
    resultClosers turn (time (last es)) (Suc (seq (last es))) (rs_pending (repairScan es))
    @ boundaryClosers turn (time (last es))
        (Suc (seq (last es)) + length (rs_pending (repairScan es))) (rs_openStep (repairScan es))"
  using assms openTurn_nonempty [OF assms] by (simp add: interruptedTurnClosers_def Let_def)

lemma closers_closed:
  "rs_openTurn (repairScan es) = None \<Longrightarrow> interruptedTurnClosers es = []"
  by (simp add: interruptedTurnClosers_def)

lemma scan_closed: "rs_openTurn (repairScan (es @ interruptedTurnClosers es)) = None"
proof (cases "rs_openTurn (repairScan es)")
  case None
  then show ?thesis by (simp add: closers_closed)
next
  case (Some turn)
  show ?thesis
    unfolding closers_open [OF Some] repairScan_append foldl_append
      scan_resultClosers [OF distinct_pending]
    by (simp add: boundaryClosers_def plainEvent_def repairStep_def split: option.split)
qed

text \<open>
  Result: repair is complete and idempotent. Every call that is still pending in the interrupted
  turn gets exactly one result, in the order of the transcript and before any boundary; after the
  closers no turn is open, so a second repair adds nothing. A log whose last turn is closed gets
  no closers.
\<close>

theorem repair_closes:
  "interruptedTurnClosers (es @ interruptedTurnClosers es) = []
   \<and> (rs_openTurn (repairScan es) = None \<longleftrightarrow> interruptedTurnClosers es = [])
   \<and> List.map_filter
       (\<lambda>e. case ev_data e of ToolResult r \<Rightarrow> Some (tm_sourceCallId (tr_message r)) | _ \<Rightarrow> None)
       (interruptedTurnClosers es)
     = (if rs_openTurn (repairScan es) = None then [] else map fst (rs_pending (repairScan es)))"
    (is "_ \<and> ?rest")
proof (rule conjI [OF closers_closed [OF scan_closed]])
  let ?f = "\<lambda>e. case ev_data e of ToolResult r \<Rightarrow> Some (tm_sourceCallId (tr_message r)) | _ \<Rightarrow> None"
  have results: "List.map_filter ?f (resultClosers turn tm n p) = map fst p" for turn tm n p
    by (induction p arbitrary: n) (auto simp: syntheticResult_def Let_def List.map_filter_def)
  have bounds: "List.map_filter ?f (boundaryClosers turn tm n s) = []" for turn tm n s
    by (simp add: boundaryClosers_def plainEvent_def List.map_filter_def split: option.split)
  have ne: "boundaryClosers turn tm n s \<noteq> []" for turn tm n s
    by (simp add: boundaryClosers_def split: option.split)
  show ?rest
    using results bounds ne
    by (cases "rs_openTurn (repairScan es)")
      (simp_all add: closers_closed closers_open array_simps List.map_filter_simps)
qed

end
