(* ===== verification/Trace.thy ===== *)
theory Trace
  imports Repair
begin

text \<open>
  \<^verbatim>\<open>packages/core/session/src/invariant.ts\<close>: the relational invariants of the log, checked
  before an event is published. \<open>validateEvent\<close> is pure and returns the deferred transition,
  \<open>applyTransition\<close> commits it; the installed companion stages a transition per candidate and
  applies it when the candidate is published. The companion is the \<^verbatim>\<open>companion\<close> record at
  the end, with its weak maps as maps over the identities of sessions, traces and events.
\<close>

section \<open>The trace of one session\<close>

record trace =
  lastSeq :: int
  openTurn :: "int option"
  openStep :: "int option"
  nextTurn :: int
  nextStep :: int
  pendingCalls :: "string list"

datatype pending_change = NoChange | AddCall string | DeleteCall string | ClearCalls

record transition =
  t_lastSeq :: int
  t_openTurn :: "int option"
  t_openStep :: "int option"
  t_nextTurn :: int
  t_nextStep :: int
  t_pending :: pending_change

datatype trace_error =
    SeqNotIncreasing nat int
  | TurnStillOpen int "int option"
  | UnexpectedTurn int int
  | TurnEndMismatch int "int option"
  | StepOpenAtTurnEnd int "int option"
  | StepOutsideTurn int "int option"
  | StepStillOpen int "int option"
  | UnexpectedStep int int
  | NotInOpenStep string int int
  | RewriteOutsideTurn
  | ResultWithoutCall string
  | OutsideTurn string
  | NotStaged

definition freshTrace :: trace where
  "freshTrace = \<lparr>lastSeq = -1, openTurn = None, openStep = None, nextTurn = 1, nextStep = 1,
     pendingCalls = []\<rparr>"

definition requireOpenStep :: "trace \<Rightarrow> string \<Rightarrow> int \<Rightarrow> int \<Rightarrow> trace_error + unit" where
  "requireOpenStep t kind turn step =
     (if openTurn t \<noteq> Some turn \<or> openStep t \<noteq> Some step then Inl (NotInOpenStep kind turn step)
      else Inr ())"

text \<open>The transition that changes nothing but the sequence number.\<close>

definition keep :: "trace \<Rightarrow> event \<Rightarrow> transition" where
  "keep t e = \<lparr>t_lastSeq = int (seq e), t_openTurn = openTurn t, t_openStep = openStep t,
     t_nextTurn = nextTurn t, t_nextStep = nextStep t, t_pending = NoChange\<rparr>"

definition syntheticNotStarted :: "tool_result \<Rightarrow> bool" where
  "syntheticNotStarted r \<longleftrightarrow>
     tm_isError (tr_message r) = Some True \<and> map_option snd (tr_error r) = Some TOOL_NOT_STARTED"

definition validateEvent :: "trace \<Rightarrow> event \<Rightarrow> trace_error + transition" where
  "validateEvent t e =
     (if int (seq e) \<le> lastSeq t then Inl (SeqNotIncreasing (seq e) (lastSeq t))
      else case ev_data e of
        TurnStart turn \<Rightarrow>
          if openTurn t \<noteq> None then Inl (TurnStillOpen turn (openTurn t))
          else if turn \<noteq> nextTurn t then Inl (UnexpectedTurn (nextTurn t) turn)
          else Inr ((keep t e)\<lparr>t_openTurn := Some turn, t_nextStep := 1\<rparr>)
      | TurnEnd turn _ \<Rightarrow>
          if openTurn t \<noteq> Some turn then Inl (TurnEndMismatch turn (openTurn t))
          else if openStep t \<noteq> None then Inl (StepOpenAtTurnEnd turn (openStep t))
          else Inr ((keep t e)\<lparr>t_openTurn := None, t_nextTurn := nextTurn t + 1\<rparr>)
      | StepStart turn step \<Rightarrow>
          if openTurn t \<noteq> Some turn then Inl (StepOutsideTurn turn (openTurn t))
          else if openStep t \<noteq> None then Inl (StepStillOpen step (openStep t))
          else if step \<noteq> nextStep t then Inl (UnexpectedStep (nextStep t) step)
          else Inr ((keep t e)\<lparr>t_openStep := Some step\<rparr>)
      | StepEnd turn step \<Rightarrow>
          mapR (\<lambda>_. (keep t e)\<lparr>t_openStep := None, t_nextStep := nextStep t + 1,
              t_pending := ClearCalls\<rparr>)
            (requireOpenStep t ''step/end'' turn step)
      | AssistantChunk turn step _ \<Rightarrow>
          mapR (\<lambda>_. keep t e) (requireOpenStep t ''assistant/chunk'' turn step)
      | AssistantMsg turn step _ _ \<Rightarrow>
          mapR (\<lambda>_. keep t e) (requireOpenStep t ''assistant/message'' turn step)
      | ToolCall turn step cid _ _ \<Rightarrow>
          mapR (\<lambda>_. (keep t e)\<lparr>t_pending := AddCall cid\<rparr>)
            (requireOpenStep t ''tool/call'' turn step)
      | ToolResult r \<Rightarrow>
          if surfaceOp e \<noteq> Some (JStr ''append'') then
            (if openTurn t = None then Inl RewriteOutsideTurn else Inr (keep t e))
          else
            bindR (requireOpenStep t ''tool/result'' (tr_turn r) (tr_step r)) (\<lambda>_.
              let cid = tm_sourceCallId (tr_message r)
              in if cid \<notin> set (pendingCalls t) \<and> \<not> syntheticNotStarted r
                 then Inl (ResultWithoutCall cid)
                 else Inr ((keep t e)\<lparr>t_pending := DeleteCall cid\<rparr>))
      | TodoWrite _ \<Rightarrow>
          if openTurn t = None then Inl (OutsideTurn ''todo/write'') else Inr (keep t e)
      | RequestHeader _ _ \<Rightarrow>
          if openTurn t = None then Inl (OutsideTurn ''request/header'') else Inr (keep t e)
      | RequestContext _ \<Rightarrow>
          if openTurn t = None then Inl (OutsideTurn ''request/context'') else Inr (keep t e)
      | _ \<Rightarrow> Inr (keep t e))"

fun changePending :: "pending_change \<Rightarrow> string list \<Rightarrow> string list" where
  "changePending NoChange cs = cs"
| "changePending (AddCall c) cs = List.insert c cs"
| "changePending (DeleteCall c) cs = removeAll c cs"
| "changePending ClearCalls cs = []"

definition applyTransition :: "trace \<Rightarrow> transition \<Rightarrow> trace" where
  "applyTransition t tr =
     \<lparr>lastSeq = t_lastSeq tr, openTurn = t_openTurn tr, openStep = t_openStep tr,
      nextTurn = t_nextTurn tr, nextStep = t_nextStep tr,
      pendingCalls = changePending (t_pending tr) (pendingCalls t)\<rparr>"

definition traceStep :: "trace \<Rightarrow> event \<Rightarrow> trace_error + trace" where
  "traceStep t e = mapR (applyTransition t) (validateEvent t e)"

text \<open>\<^verbatim>\<open>seedSession\<close>: the trace of a session that already has events.\<close>

definition seedTrace :: "event list \<Rightarrow> trace_error + trace" where
  "seedTrace events = runR traceStep freshTrace events"

section \<open>The installed companion\<close>

text \<open>
  A session, a trace object and an event object are named by a number each. A staged transition
  holds the trace object it was computed on, which a later seeding of the same session does not
  change.
\<close>

record companion =
  cp_traces :: "nat \<rightharpoonup> nat"
  cp_heap :: "nat \<rightharpoonup> trace"
  cp_nextTrace :: nat
  cp_staged :: "nat \<rightharpoonup> nat \<times> nat \<times> transition"

definition emptyCompanion :: companion where
  "emptyCompanion = \<lparr>cp_traces = Map.empty, cp_heap = Map.empty, cp_nextTrace = 0,
     cp_staged = Map.empty\<rparr>"

text \<open>
  The seeding loop mutates the new trace event by event, so a failure leaves the trace of the
  events before it.
\<close>

fun seedLoop :: "trace \<Rightarrow> event list \<Rightarrow> trace \<times> trace_error option" where
  "seedLoop t [] = (t, None)"
| "seedLoop t (e # es) =
     (case traceStep t e of Inl err \<Rightarrow> (t, Some err) | Inr t' \<Rightarrow> seedLoop t' es)"

definition seedSession ::
  "companion \<Rightarrow> nat \<Rightarrow> event list \<Rightarrow> companion \<times> (trace_error + nat)" where
  "seedSession c sid events =
     (let n = cp_nextTrace c; (t, err) = seedLoop freshTrace events;
          c' = c\<lparr>cp_traces := (cp_traces c)(sid \<mapsto> n), cp_heap := (cp_heap c)(n \<mapsto> t),
                 cp_nextTrace := Suc n\<rparr>
      in (c', case err of None \<Rightarrow> Inr n | Some x \<Rightarrow> Inl x))"

definition traceFor ::
  "companion \<Rightarrow> nat \<Rightarrow> event list \<Rightarrow> companion \<times> (trace_error + nat)" where
  "traceFor c sid events =
     (case cp_traces c sid of Some n \<Rightarrow> (c, Inr n) | None \<Rightarrow> seedSession c sid events)"

text \<open>The listener of \<^verbatim>\<open>internal/dispatch\<close>: validate the candidate and stage it.\<close>

definition onDispatch ::
  "companion \<Rightarrow> nat \<Rightarrow> event list \<Rightarrow> nat \<Rightarrow> event \<Rightarrow> companion \<times> trace_error option" where
  "onDispatch c sid events key e =
     (case traceFor c sid events of
        (c', Inl err) \<Rightarrow> (c', Some err)
      | (c', Inr n) \<Rightarrow>
          (case cp_heap c' n of
             None \<Rightarrow> (c', None)
           | Some t \<Rightarrow>
               (case validateEvent t e of
                  Inl err \<Rightarrow> (c', Some err)
                | Inr tr \<Rightarrow>
                    (c'\<lparr>cp_staged := (cp_staged c')(key \<mapsto> (sid, n, tr))\<rparr>, None))))"

text \<open>The listener of \<^verbatim>\<open>session/event\<close>: apply what was staged for exactly this event.\<close>

definition onEvent :: "companion \<Rightarrow> nat \<Rightarrow> nat \<Rightarrow> companion \<times> trace_error option" where
  "onEvent c sid key =
     (case cp_staged c key of
        None \<Rightarrow> (c, Some NotStaged)
      | Some (sid', n, tr) \<Rightarrow>
          if sid' \<noteq> sid then (c, Some NotStaged)
          else (c\<lparr>cp_staged := (cp_staged c)(key := None),
                  cp_heap := (cp_heap c)(n := map_option (\<lambda>t. applyTransition t tr) (cp_heap c n))\<rparr>,
                None))"

end
