(* ===== verification/Trace_Facts.thy ===== *)
theory Trace_Facts
  imports Trace
begin

text \<open>
  Correctness of the relational invariants and of crash repair: what every accepted log
  satisfies, that repair of an accepted log is accepted by the invariants and by the surface, and
  that the companion's trace is the replay of the committed log whatever was vetoed.
\<close>

section \<open>The invariant of an accepted trace\<close>

definition traceInv :: "trace \<Rightarrow> bool" where
  "traceInv t \<longleftrightarrow>
     -1 \<le> lastSeq t \<and> 1 \<le> nextTurn t \<and> 1 \<le> nextStep t
     \<and> (\<forall>k. openTurn t = Some k \<longrightarrow> k = nextTurn t)
     \<and> (\<forall>k. openStep t = Some k \<longrightarrow> k = nextStep t \<and> openTurn t \<noteq> None)
     \<and> (pendingCalls t \<noteq> [] \<longrightarrow> openStep t \<noteq> None) \<and> distinct (pendingCalls t)"

lemma requireOpenStep_Inr [simp]:
  "requireOpenStep t kind turn step = Inr u \<longleftrightarrow> openTurn t = Some turn \<and> openStep t = Some step"
  by (simp add: requireOpenStep_def)

lemmas trace_defs = traceStep_def validateEvent_def applyTransition_def keep_def

lemma traceInv_step:
  assumes "traceInv t" and "traceStep t e = Inr t'"
  shows "traceInv t'"
  using assms
  by (cases "ev_data e")
    (auto simp: trace_defs traceInv_def result_simps Let_def distinct_removeAll split: if_splits)

lemma traceStep_lastSeq: "traceStep t e = Inr t' \<Longrightarrow> lastSeq t' = int (seq e) \<and> lastSeq t < lastSeq t'"
  by (cases "ev_data e") (auto simp: trace_defs result_simps Let_def split: if_splits)

interpretation trace: validating_fold traceStep freshTrace traceInv
  by unfold_locales (simp add: traceInv_def freshTrace_def, rule traceInv_step)

lemma seedLoop_run:
  "seedLoop t es = (t', None) \<longleftrightarrow> runR traceStep t es = Inr t'"
  by (induction es arbitrary: t) (auto simp: result_simps split: sum.split)

section \<open>The scan of repair and the trace agree\<close>

definition scanAgrees :: "repair_state \<Rightarrow> trace \<Rightarrow> bool" where
  "scanAgrees st t \<longleftrightarrow>
     rs_openTurn st = openTurn t \<and> rs_openStep st = openStep t
     \<and> (\<forall>c step k. (c, step, k) \<in> set (rs_pending st) \<longrightarrow>
          openStep t = Some step \<and> (k \<noteq> None \<longrightarrow> c \<in> set (pendingCalls t)))"

lemma mapSet_member:
  "(c, v) \<in> set (mapSet m k w) \<Longrightarrow> (c = k \<and> v = w) \<or> (c, v) \<in> set m"
  by (induction m) (auto split: if_splits)

lemma mapDelete_member: "(c, v) \<in> set (mapDelete m k) \<longleftrightarrow> (c, v) \<in> set m \<and> c \<noteq> k"
  by (auto simp: mapDelete_def)

lemma registerCalls_member:
  "(c, v) \<in> set (registerCalls step bs p) \<Longrightarrow> v = (step, None) \<or> (c, v) \<in> set p"
proof (induction bs arbitrary: p)
  case Nil
  then show ?case by simp
next
  case (Cons b bs)
  then show ?case
    by (cases b) (auto dest!: Cons.IH mapSet_member)
qed

lemma scanAgrees_step:
  assumes inv: "traceInv t" and agrees: "scanAgrees st t" and step: "traceStep t e = Inr t'"
  shows "scanAgrees (repairStep st e) t'"
proof (cases "ev_data e")
  case (AssistantMsg turn step msg usage)
  then show ?thesis
    using step agrees
    by (fastforce simp: trace_defs repairStep_def scanAgrees_def result_simps
        dest: registerCalls_member split: if_splits)
next
  case (ToolCall turn step cid n a)
  then show ?thesis
    using step agrees
    by (fastforce simp: trace_defs repairStep_def scanAgrees_def result_simps
        dest: mapSet_member map_of_SomeD split: if_splits option.splits)
next
  case (ToolResult r)
  then show ?thesis
    using step agrees
    by (fastforce simp: trace_defs repairStep_def scanAgrees_def result_simps Let_def
        mapDelete_member split: if_splits)
qed (use inv step agrees in \<open>auto simp: trace_defs repairStep_def scanAgrees_def traceInv_def
      result_simps split: if_splits\<close>)

lemma scan_follows_trace:
  assumes "runR traceStep freshTrace es = Inr t"
  shows "scanAgrees (repairScan es) t \<and> (es \<noteq> [] \<longrightarrow> lastSeq t = int (seq (last es)))"
  using assms
proof (induction es arbitrary: t rule: rev_induct)
  case Nil
  then show ?case by (auto simp: repairScan_def repairStart_def freshTrace_def scanAgrees_def)
next
  case (snoc e es)
  then obtain t0 where t0: "runR traceStep freshTrace es = Inr t0" "traceStep t0 e = Inr t"
    by (auto simp: runR_snoc result_simps)
  with snoc.IH [OF t0(1)] trace.inv_accepted [OF t0(1)] show ?case
    using scanAgrees_step traceStep_lastSeq [OF t0(2)] by (simp add: repairScan_append)
qed

section \<open>The closers are accepted by the trace\<close>

lemma trace_syntheticResult:
  assumes "openTurn t = Some turn" and "openStep t = Some step" and "lastSeq t < int n"
    and "k \<noteq> None \<longrightarrow> c \<in> set (pendingCalls t)"
  shows "traceStep t (syntheticResult turn n tm c step k)
    = Inr (t\<lparr>lastSeq := int n, pendingCalls := removeAll c (pendingCalls t)\<rparr>)"
  using assms
  by (cases k) (auto simp: trace_defs syntheticResult_def Let_def requireOpenStep_def
      syntheticNotStarted_def)

lemma trace_resultClosers:
  assumes "openTurn t = Some turn" and "lastSeq t < int n" and "distinct (map fst p)"
    and "\<forall>(c, step, k) \<in> set p. openStep t = Some step \<and> (k \<noteq> None \<longrightarrow> c \<in> set (pendingCalls t))"
  shows "\<exists>cs m. runR traceStep t (resultClosers turn tm n p) = Inr (t\<lparr>lastSeq := m, pendingCalls := cs\<rparr>)
     \<and> m < int (n + length p)"
  using assms
proof (induction p arbitrary: t n)
  case Nil
  then show ?case by (intro exI [of _ "pendingCalls t"] exI [of _ "lastSeq t"]) simp
next
  case (Cons x p)
  obtain c step k where x: "x = (c, step, k)" by (cases x)
  let ?t1 = "t\<lparr>lastSeq := int n, pendingCalls := removeAll c (pendingCalls t)\<rparr>"
  have step: "traceStep t (syntheticResult turn n tm c step k) = Inr ?t1"
    using Cons.prems by (intro trace_syntheticResult) (auto simp: x)
  have "\<exists>cs m. runR traceStep ?t1 (resultClosers turn tm (Suc n) p)
      = Inr (?t1\<lparr>lastSeq := m, pendingCalls := cs\<rparr>) \<and> m < int (Suc n + length p)"
    using Cons.prems by (intro Cons.IH) (force simp: x image_iff)+
  with step show ?case by (auto simp: x)
qed

lemma trace_boundaryClosers:
  assumes "openTurn t = Some turn" and "lastSeq t < int n"
  shows "\<exists>t'. runR traceStep t (boundaryClosers turn tm n (openStep t)) = Inr t'
     \<and> openTurn t' = None \<and> openStep t' = None \<and> nextTurn t' = nextTurn t + 1"
  using assms
  by (cases "openStep t")
    (auto simp: boundaryClosers_def plainEvent_def trace_defs requireOpenStep_def)

lemma repaired_trace:
  assumes run: "runR traceStep freshTrace es = Inr t"
  shows "\<exists>t'. runR traceStep freshTrace (es @ interruptedTurnClosers es) = Inr t'
     \<and> openTurn t' = None
     \<and> nextTurn t' = nextTurn t + (if openTurn t = None then 0 else 1)"
proof (cases "openTurn t")
  case None
  then have "rs_openTurn (repairScan es) = None"
    using scan_follows_trace [OF run] by (simp add: scanAgrees_def)
  with None run show ?thesis by (simp add: closers_closed)
next
  case (Some turn)
  let ?st = "repairScan es" and ?n = "Suc (seq (last es))" and ?tm = "time (last es)"
  have agrees: "scanAgrees ?st t" using scan_follows_trace [OF run] by simp
  have st: "rs_openTurn ?st = Some turn" "rs_openStep ?st = openStep t"
    using agrees Some by (simp_all add: scanAgrees_def)
  have last: "lastSeq t < int ?n"
    using scan_follows_trace [OF run] openTurn_nonempty [OF st(1)] by simp
  have "\<forall>(c, step, k) \<in> set (rs_pending ?st).
      openStep t = Some step \<and> (k \<noteq> None \<longrightarrow> c \<in> set (pendingCalls t))"
    using agrees by (auto simp: scanAgrees_def)
  from trace_resultClosers [OF Some last distinct_pending this, of ?tm]
  obtain cs m where r: "runR traceStep t (resultClosers turn ?tm ?n (rs_pending ?st))
      = Inr (t\<lparr>lastSeq := m, pendingCalls := cs\<rparr>)" "m < int (?n + length (rs_pending ?st))"
    by blast
  from trace_boundaryClosers [of "t\<lparr>lastSeq := m, pendingCalls := cs\<rparr>" turn
      "?n + length (rs_pending ?st)" ?tm] r(2) Some
  obtain t' where "runR traceStep (t\<lparr>lastSeq := m, pendingCalls := cs\<rparr>)
      (boundaryClosers turn ?tm (?n + length (rs_pending ?st)) (openStep t)) = Inr t'"
    "openTurn t' = None" "nextTurn t' = nextTurn t + 1" by auto
  then show ?thesis
    using run r(1) Some by (simp add: closers_open [OF st(1)] runR_append st(2))
qed

section \<open>The closers are accepted by the surface\<close>

lemma scan_cited_below:
  assumes "surfaceLog es = Inr st"
  shows "\<forall>(c, step, k) \<in> set (rs_pending (repairScan es)). \<forall>s. k = Some s \<longrightarrow> s < length es"
  using assms
proof (induction es arbitrary: st rule: rev_induct)
  case Nil
  then show ?case by (simp add: repairScan_def repairStart_def)
next
  case (snoc e es)
  obtain st0 where st0: "surfaceLog es = Inr st0" using snoc.prems by (rule surfaceLog_prefix)
  have seq: "seq e = length es" using surfaceLog_seq [OF snoc.prems, of "length es"] by simp
  from snoc.IH [OF st0] show ?case
    by (cases "ev_data e")
      (fastforce simp: repairScan_append repairStep_def mapDelete_member seq less_Suc_eq
        dest: registerCalls_member mapSet_member split: option.splits)+
qed

lemma surface_plain:
  assumes "surfaceLog es = Inr st" and "\<not> isSurfaceEligibleType (event_type d)"
  shows "surfaceLog (es @ [plainEvent (length es) tm d]) = Inr st"
  using assms by (simp add: surfaceLog_snoc planSurfaceEvent_def surfaceOpOf_def plainEvent_def)

lemma surface_syntheticResult:
  assumes "surfaceLog es = Inr st" and "int (length es) \<le> maxSafeInteger"
    and "\<forall>s. k = Some s \<longrightarrow> s < length es"
  shows "surfaceLog (es @ [syntheticResult turn (length es) tm c step k])
    = Inr (st\<lparr>nodes := nodes st @ [length es]\<rparr>)"
proof -
  let ?e = "syntheticResult turn (length es) tm c step k"
  have "\<exists>src. citedSources ?e = Inr src"
    using assms(2,3) by (cases k)
      (auto simp: citedSources_def syntheticResult_def Let_def safeInt_def)
  then show ?thesis
    using assms(1) by (auto simp: surfaceLog_snoc planSurfaceEvent_def surfaceOpOf_def
        syntheticResult_def Let_def isSurfaceEligibleType_def SURFACE_EVENT_TYPES_def
        assertProvenance_def)
qed

lemma surface_resultClosers:
  assumes "surfaceLog es = Inr st" and "int (length es + length p) \<le> maxSafeInteger"
    and "\<forall>(c, step, k) \<in> set p. \<forall>s. k = Some s \<longrightarrow> s < length es"
  shows "surfaceLog (es @ resultClosers turn tm (length es) p)
    = Inr (st\<lparr>nodes := nodes st @ [length es..<length es + length p]\<rparr>)"
  using assms
proof (induction p arbitrary: es st)
  case Nil
  then show ?case by simp
next
  case (Cons x p)
  obtain c step k where x: "x = (c, step, k)" by (cases x)
  let ?e = "syntheticResult turn (length es) tm c step k"
  have one: "surfaceLog (es @ [?e]) = Inr (st\<lparr>nodes := nodes st @ [length es]\<rparr>)"
    using Cons.prems by (intro surface_syntheticResult) (auto simp: x)
  have "surfaceLog ((es @ [?e]) @ resultClosers turn tm (length (es @ [?e])) p)
    = Inr (st\<lparr>nodes := (nodes st @ [length es]) @ [Suc (length es)..<Suc (length es) + length p]\<rparr>)"
    using Cons.IH [OF one] Cons.prems(2,3) by (force simp: x)
  then show ?case by (simp del: upt_Suc add: x upt_conv_Cons)
qed

lemma surface_boundaryClosers:
  assumes "surfaceLog es = Inr st"
  shows "surfaceLog (es @ boundaryClosers turn tm (length es) s) = Inr st"
proof (cases s)
  case None
  then show ?thesis
    using surface_plain [OF assms] by (simp add: boundaryClosers_def isSurfaceEligibleType_def
        SURFACE_EVENT_TYPES_def)
next
  case (Some step)
  have "surfaceLog (es @ [plainEvent (length es) tm (StepEnd turn step)]) = Inr st"
    using surface_plain [OF assms] by (simp add: isSurfaceEligibleType_def SURFACE_EVENT_TYPES_def)
  from surface_plain [OF this, of "TurnEnd turn Interrupted" tm] show ?thesis
    by (simp add: Some boundaryClosers_def isSurfaceEligibleType_def SURFACE_EVENT_TYPES_def)
qed

lemma repaired_surface:
  assumes st: "surfaceLog es = Inr st"
    and bound: "int (length es + length (rs_pending (repairScan es))) \<le> maxSafeInteger"
  shows "surfaceLog (es @ interruptedTurnClosers es) = Inr (st\<lparr>nodes := nodes st @
     (if rs_openTurn (repairScan es) = None then []
      else [length es..<length es + length (rs_pending (repairScan es))])\<rparr>)"
proof (cases "rs_openTurn (repairScan es)")
  case None
  then show ?thesis using st by (simp add: closers_closed)
next
  case (Some turn)
  let ?p = "rs_pending (repairScan es)"
  have "es \<noteq> []" by (rule openTurn_nonempty [OF Some])
  then have n: "Suc (seq (last es)) = length es"
    using surfaceLog_seq [OF st, of "length es - 1"] by (simp add: last_conv_nth)
  have "surfaceLog (es @ resultClosers turn tm (length es) ?p)
      = Inr (st\<lparr>nodes := nodes st @ [length es..<length es + length ?p]\<rparr>)" for tm
    by (rule surface_resultClosers [OF st bound scan_cited_below [OF st]])
  from surface_boundaryClosers [OF this] show ?thesis
    by (simp add: closers_open [OF Some] Some n)
qed

text \<open>
  Claim C6: crash recovery. A durable log that the invariants and the surface accepted, cut off
  anywhere, is accepted by both again with its closers appended, has no open turn and no
  unanswered call left, keeps every node of the surface and adds exactly the synthetic results.
\<close>

theorem repaired_log_accepted:
  assumes "seedTrace es = Inr t" and "surfaceLog es = Inr st"
    and "int (length es + length (rs_pending (repairScan es))) \<le> maxSafeInteger"
  shows "\<exists>t' added. seedTrace (es @ interruptedTurnClosers es) = Inr t'
     \<and> openTurn t' = None \<and> openStep t' = None \<and> pendingCalls t' = []
     \<and> nextTurn t' = nextTurn t + (if openTurn t = None then 0 else 1)
     \<and> surfaceLog (es @ interruptedTurnClosers es) = Inr (st\<lparr>nodes := nodes st @ added\<rparr>)
     \<and> length added = (if openTurn t = None then 0 else length (rs_pending (repairScan es)))"
proof -
  obtain t' where t': "seedTrace (es @ interruptedTurnClosers es) = Inr t'" "openTurn t' = None"
      "nextTurn t' = nextTurn t + (if openTurn t = None then 0 else 1)"
    using repaired_trace assms(1) unfolding seedTrace_def by blast
  have "traceInv t'" using trace.inv_accepted t'(1) by (simp add: seedTrace_def)
  then have closed: "openStep t' = None" "pendingCalls t' = []"
    using t'(2) by (auto simp: traceInv_def)
  have "rs_openTurn (repairScan es) = openTurn t"
    using scan_follows_trace assms(1) by (simp add: seedTrace_def scanAgrees_def)
  then show ?thesis using t' closed repaired_surface [OF assms(2,3)]
    by (intro exI [of _ t']) auto
qed

definition sample_crash :: "event list" where
  "sample_crash =
     [plainEvent 0 0 (TurnStart 1), plainEvent 1 0 (StepStart 1 1),
      (plainEvent 2 0 (AssistantMsg 1 1
         \<lparr>msg_id = ''a'', msg_role = Assistant,
          msg_content = [ToolCallBlock ''c'' ''read'' ''{}'', ToolCallBlock ''d'' ''read'' ''{}''],
          msg_source = ModelSource ''p'' ''m'' None\<rparr> None))\<lparr>surfaceOp := Some (JStr ''append'')\<rparr>,
      plainEvent 3 0 (ToolCall 1 1 ''c'' ''read'' ''{}'')]"

theorem repaired_log_accepted_witness:
  "\<exists>t' added. seedTrace (sample_crash @ interruptedTurnClosers sample_crash) = Inr t'
     \<and> openTurn t' = None \<and> nextTurn t' = 2 \<and> length added = 2
     \<and> surfaceLog (sample_crash @ interruptedTurnClosers sample_crash)
        = Inr \<lparr>nodes = 2 # added, replaceGeneration = 0\<rparr>"
proof -
  have t: "seedTrace sample_crash = Inr \<lparr>lastSeq = 3, openTurn = Some 1, openStep = Some 1,
      nextTurn = 1, nextStep = 1, pendingCalls = [''c'']\<rparr>" by code_simp
  have s: "surfaceLog sample_crash = Inr \<lparr>nodes = [2], replaceGeneration = 0\<rparr>" by code_simp
  have p: "length (rs_pending (repairScan sample_crash)) = 2" by code_simp
  have "int (length sample_crash + length (rs_pending (repairScan sample_crash))) \<le> maxSafeInteger"
    by code_simp
  from repaired_log_accepted [OF t s this] show ?thesis by (auto simp: p)
qed

section \<open>The companion\<close>

text \<open>
  The program around the companion: sessions are created with the events they were seeded with,
  a candidate is dispatched (at most one in flight per session, each a new object), and it is
  then either vetoed by a later listener or committed and published. \<open>lg\<close> is the committed log
  of each session.
\<close>

record observed =
  ob_companion :: companion
  ob_logs :: "nat \<rightharpoonup> event list"
  ob_inflight :: "nat \<rightharpoonup> nat \<times> event"
  ob_used :: "nat set"

inductive observed_step :: "observed \<Rightarrow> observed \<Rightarrow> bool" where
  created: "\<lbrakk>ob_logs o1 sid = None; ob_inflight o1 sid = None;
      seedSession (ob_companion o1) sid events = (c, Inr n)\<rbrakk>
    \<Longrightarrow> observed_step o1 (o1\<lparr>ob_companion := c, ob_logs := (ob_logs o1)(sid \<mapsto> events)\<rparr>)"
| dispatched: "\<lbrakk>ob_logs o1 sid = Some events; ob_inflight o1 sid = None; key \<notin> ob_used o1;
      onDispatch (ob_companion o1) sid events key e = (c, None)\<rbrakk>
    \<Longrightarrow> observed_step o1 (o1\<lparr>ob_companion := c, ob_inflight := (ob_inflight o1)(sid \<mapsto> (key, e)),
         ob_used := insert key (ob_used o1)\<rparr>)"
| rejected: "\<lbrakk>ob_logs o1 sid = Some events; ob_inflight o1 sid = None; key \<notin> ob_used o1;
      onDispatch (ob_companion o1) sid events key e = (c, Some err)\<rbrakk>
    \<Longrightarrow> observed_step o1 (o1\<lparr>ob_companion := c, ob_used := insert key (ob_used o1)\<rparr>)"
| vetoed: "ob_inflight o1 sid = Some (key, e)
    \<Longrightarrow> observed_step o1 (o1\<lparr>ob_inflight := (ob_inflight o1)(sid := None)\<rparr>)"
| published: "\<lbrakk>ob_inflight o1 sid = Some (key, e); ob_logs o1 sid = Some events;
      onEvent (ob_companion o1) sid key = (c, r)\<rbrakk>
    \<Longrightarrow> observed_step o1 (o1\<lparr>ob_companion := c, ob_logs := (ob_logs o1)(sid \<mapsto> events @ [e]),
         ob_inflight := (ob_inflight o1)(sid := None)\<rparr>)"

definition observed_start :: observed where
  "observed_start = \<lparr>ob_companion = emptyCompanion, ob_logs = Map.empty,
     ob_inflight = Map.empty, ob_used = {}\<rparr>"

text \<open>
  The trace of every session is the replay of its log, the traces are separate objects, and what
  is staged for the candidate in flight is the transition of that candidate on that trace.
\<close>

definition tracked :: "companion \<Rightarrow> nat \<Rightarrow> event list \<Rightarrow> bool" where
  "tracked c sid events \<longleftrightarrow>
     (\<exists>n t. cp_traces c sid = Some n \<and> n < cp_nextTrace c \<and> cp_heap c n = Some t
        \<and> seedTrace events = Inr t)"

definition tracesReplay :: "companion \<Rightarrow> (nat \<rightharpoonup> event list) \<Rightarrow> bool" where
  "tracesReplay c logs \<longleftrightarrow>
     (\<forall>sid. case logs sid of None \<Rightarrow> cp_traces c sid = None | Some events \<Rightarrow> tracked c sid events)
     \<and> (\<forall>s1 s2 n. cp_traces c s1 = Some n \<longrightarrow> cp_traces c s2 = Some n \<longrightarrow> s1 = s2)"

definition stagedFor :: "companion \<Rightarrow> nat \<Rightarrow> nat \<Rightarrow> event \<Rightarrow> bool" where
  "stagedFor c sid key e \<longleftrightarrow>
     (\<exists>n t tr. cp_traces c sid = Some n \<and> cp_heap c n = Some t
        \<and> validateEvent t e = Inr tr \<and> cp_staged c key = Some (sid, n, tr))"

definition flightsOK :: "(nat \<rightharpoonup> nat \<times> event) \<Rightarrow> nat set \<Rightarrow> bool" where
  "flightsOK fl used \<longleftrightarrow>
     (\<forall>sid key e. fl sid = Some (key, e) \<longrightarrow> key \<in> used)
     \<and> (\<forall>s1 s2 key e1 e2. fl s1 = Some (key, e1) \<and> fl s2 = Some (key, e2) \<longrightarrow> s1 = s2)"

definition companionInv :: "observed \<Rightarrow> bool" where
  "companionInv ob \<longleftrightarrow>
     tracesReplay (ob_companion ob) (ob_logs ob)
     \<and> flightsOK (ob_inflight ob) (ob_used ob)
     \<and> (\<forall>sid key e. ob_inflight ob sid = Some (key, e) \<longrightarrow>
          stagedFor (ob_companion ob) sid key e)"

lemma companionInv_start: "companionInv observed_start"
  by (simp add: companionInv_def tracesReplay_def flightsOK_def observed_start_def
      emptyCompanion_def)

lemma seedSession_Inr:
  "seedSession c sid events = (c', Inr n) \<longleftrightarrow>
     (\<exists>t. seedTrace events = Inr t \<and> n = cp_nextTrace c
        \<and> c' = c\<lparr>cp_traces := (cp_traces c)(sid \<mapsto> n), cp_heap := (cp_heap c)(n \<mapsto> t),
                 cp_nextTrace := Suc n\<rparr>)"
  by (auto simp: seedSession_def seedTrace_def seedLoop_run [symmetric] Let_def
      split: prod.splits option.splits)

lemma tracesReplayD:
  assumes "tracesReplay c logs"
  shows "logs s = None \<Longrightarrow> cp_traces c s = None"
    and "logs s = Some events \<Longrightarrow> tracked c s events"
    and "cp_traces c s1 = Some n \<Longrightarrow> cp_traces c s2 = Some n \<Longrightarrow> s1 = s2"
    and "cp_traces c s = Some n \<Longrightarrow> n < cp_nextTrace c"
proof -
  have all: "case logs s of None \<Rightarrow> cp_traces c s = None | Some events \<Rightarrow> tracked c s events" for s
    using assms unfolding tracesReplay_def by blast
  show "logs s = None \<Longrightarrow> cp_traces c s = None" "logs s = Some events \<Longrightarrow> tracked c s events"
    using all [of s] by simp_all
  show "cp_traces c s1 = Some n \<Longrightarrow> cp_traces c s2 = Some n \<Longrightarrow> s1 = s2"
    using assms unfolding tracesReplay_def by blast
  show "cp_traces c s = Some n \<Longrightarrow> n < cp_nextTrace c"
    using all [of s] by (auto simp: tracked_def split: option.splits)
qed

lemma companionInv_logD:
  assumes "companionInv ob" and "ob_logs ob sid = Some events"
  obtains n t where "cp_traces (ob_companion ob) sid = Some n"
    and "n < cp_nextTrace (ob_companion ob)" and "cp_heap (ob_companion ob) n = Some t"
    and "seedTrace events = Inr t"
proof -
  have "tracesReplay (ob_companion ob) (ob_logs ob)" using assms(1) by (simp add: companionInv_def)
  from tracesReplayD(2) [OF this, OF assms(2)] that show ?thesis by (auto simp: tracked_def)
qed

lemma onDispatch_staged:
  assumes inv: "companionInv ob" and lg: "ob_logs ob sid = Some events"
    and d: "onDispatch (ob_companion ob) sid events key e = (c, r)"
  obtains n t where "cp_traces (ob_companion ob) sid = Some n"
    and "cp_heap (ob_companion ob) n = Some t" and "seedTrace events = Inr t"
    and "case validateEvent t e of
           Inl err \<Rightarrow> r = Some err \<and> c = ob_companion ob
         | Inr tr \<Rightarrow> r = None \<and> c = (ob_companion ob)\<lparr>cp_staged :=
             (cp_staged (ob_companion ob))(key \<mapsto> (sid, n, tr))\<rparr>"
proof -
  obtain n t where n: "cp_traces (ob_companion ob) sid = Some n"
    "cp_heap (ob_companion ob) n = Some t" "seedTrace events = Inr t"
    using companionInv_logD [OF inv lg] by blast
  with d show ?thesis
    by (intro that [OF n]) (auto simp: onDispatch_def traceFor_def split: sum.splits)
qed

lemma tracked_staged: "tracked (c\<lparr>cp_staged := m\<rparr>) sid es = tracked c sid es"
  by (simp add: tracked_def)

lemma tracesReplay_staged: "tracesReplay (c\<lparr>cp_staged := m\<rparr>) logs = tracesReplay c logs"
  by (simp add: tracesReplay_def tracked_staged cong: option.case_cong)

lemma tracesReplay_created:
  assumes inv: "tracesReplay c logs" and "seedTrace events = Inr t"
  shows "tracesReplay (c\<lparr>cp_traces := (cp_traces c)(sid \<mapsto> cp_nextTrace c),
      cp_heap := (cp_heap c)(cp_nextTrace c \<mapsto> t), cp_nextTrace := Suc (cp_nextTrace c)\<rparr>)
    (logs(sid \<mapsto> events))" (is "tracesReplay ?c _")
proof -
  have fresh: "cp_traces c s \<noteq> Some (cp_nextTrace c)" for s
    using tracesReplayD(4) [OF inv, of s "cp_nextTrace c"] by auto
  have "tracked ?c sid events" using assms(2) by (simp add: tracked_def)
  moreover have "tracked ?c s es" if "tracked c s es" "s \<noteq> sid" for s es
  proof -
    obtain n t where "cp_traces c s = Some n" "n < cp_nextTrace c" "cp_heap c n = Some t"
      "seedTrace es = Inr t" using \<open>tracked c s es\<close> by (auto simp: tracked_def)
    with \<open>s \<noteq> sid\<close> show ?thesis unfolding tracked_def
      by (intro exI [of _ n] exI [of _ t]) auto
  qed
  ultimately show ?thesis
    using tracesReplayD(1-3) [OF inv] fresh unfolding tracesReplay_def
    by (auto split: option.split if_splits)
qed

lemma tracesReplay_published:
  assumes inv: "tracesReplay c logs" and n: "cp_traces c sid = Some n" "cp_heap c n = Some t"
    and lg: "logs sid = Some events" and t': "traceStep t e = Inr t'"
  shows "tracesReplay (c\<lparr>cp_staged := m, cp_heap := (cp_heap c)(n \<mapsto> t')\<rparr>)
    (logs(sid \<mapsto> events @ [e]))" (is "tracesReplay ?c _")
proof -
  have "seedTrace (events @ [e]) = Inr t'"
    using tracesReplayD(2) [OF inv lg] n t' by (auto simp: tracked_def seedTrace_def runR_snoc)
  then have "tracked ?c sid (events @ [e])"
    using n tracesReplayD(4) [OF inv n(1)] by (simp add: tracked_def)
  moreover have "tracked ?c s es" if "tracked c s es" "s \<noteq> sid" for s es
  proof -
    obtain n' t0 where "cp_traces c s = Some n'" "n' < cp_nextTrace c" "cp_heap c n' = Some t0"
      "seedTrace es = Inr t0" using \<open>tracked c s es\<close> by (auto simp: tracked_def)
    with \<open>s \<noteq> sid\<close> show ?thesis unfolding tracked_def
      using tracesReplayD(3) [OF inv n(1), of s] by (intro exI [of _ n'] exI [of _ t0]) auto
  qed
  ultimately show ?thesis
    using tracesReplayD(1,2) [OF inv] tracesReplayD(3) [OF inv] unfolding tracesReplay_def
    by (auto split: option.split if_splits)
qed

lemma stagedFor_other:
  assumes "stagedFor c sid key e" and "cp_traces c' sid = cp_traces c sid"
    and "\<And>n. cp_traces c sid = Some n \<Longrightarrow> cp_heap c' n = cp_heap c n"
    and "cp_staged c' key = cp_staged c key"
  shows "stagedFor c' sid key e"
  using assms unfolding stagedFor_def by metis

lemma companionInvI:
  assumes "tracesReplay (ob_companion ob) (ob_logs ob)"
    and "flightsOK (ob_inflight ob) (ob_used ob)"
    and "\<And>sid key e. ob_inflight ob sid = Some (key, e) \<Longrightarrow> stagedFor (ob_companion ob) sid key e"
  shows "companionInv ob"
  using assms by (auto simp: companionInv_def)

lemma inflight_tracked: "stagedFor c sid key e \<Longrightarrow> cp_traces c sid \<noteq> None"
  by (auto simp: stagedFor_def)

text \<open>What publishing the candidate in flight does: it applies the staged transition.\<close>

lemma onEvent_staged:
  assumes inv: "companionInv ob" and fl: "ob_inflight ob sid = Some (key, e)"
    and lg: "ob_logs ob sid = Some events"
  obtains n t t' where "cp_traces (ob_companion ob) sid = Some n"
    and "cp_heap (ob_companion ob) n = Some t" and "traceStep t e = Inr t'"
    and "onEvent (ob_companion ob) sid key =
      ((ob_companion ob)\<lparr>cp_staged := (cp_staged (ob_companion ob))(key := None),
         cp_heap := (cp_heap (ob_companion ob))(n \<mapsto> t')\<rparr>, None)"
proof -
  obtain n t tr where n: "cp_traces (ob_companion ob) sid = Some n"
    "cp_heap (ob_companion ob) n = Some t" "validateEvent t e = Inr tr"
    "cp_staged (ob_companion ob) key = Some (sid, n, tr)"
    using inv fl unfolding companionInv_def stagedFor_def by blast
  then show ?thesis
    by (intro that [of n t "applyTransition t tr"]) (simp_all add: traceStep_def onEvent_def)
qed

lemma companionInv_step:
  assumes "observed_step o1 o2" and inv: "companionInv o1"
  shows "companionInv o2"
  using assms(1)
proof cases
  case (created sid events c n)
  then obtain t where t: "seedTrace events = Inr t" and c: "c = (ob_companion o1)\<lparr>cp_traces :=
      (cp_traces (ob_companion o1))(sid \<mapsto> cp_nextTrace (ob_companion o1)), cp_heap :=
      (cp_heap (ob_companion o1))(cp_nextTrace (ob_companion o1) \<mapsto> t),
      cp_nextTrace := Suc (cp_nextTrace (ob_companion o1))\<rparr>"
    by (auto simp: seedSession_Inr)
  have rep: "tracesReplay (ob_companion o1) (ob_logs o1)" using inv by (simp add: companionInv_def)
  have "stagedFor c s key e" if "ob_inflight o1 s = Some (key, e)" for s key e
  proof -
    have st: "stagedFor (ob_companion o1) s key e" using inv that by (simp add: companionInv_def)
    have "s \<noteq> sid" using that created by auto
    then show ?thesis
      using tracesReplayD(4) [OF rep] by (intro stagedFor_other [OF st]) (auto simp: c)
  qed
  then show ?thesis
    using tracesReplay_created [OF rep t] inv created c
    by (intro companionInvI) (auto simp: companionInv_def)
next
  case (dispatched sid events key e c)
  obtain n t where n: "cp_traces (ob_companion o1) sid = Some n"
      "cp_heap (ob_companion o1) n = Some t" "seedTrace events = Inr t"
    and v: "case validateEvent t e of
           Inl err \<Rightarrow> (None :: trace_error option) = Some err \<and> c = ob_companion o1
         | Inr tr \<Rightarrow> (None :: trace_error option) = None \<and> c = (ob_companion o1)\<lparr>cp_staged :=
             (cp_staged (ob_companion o1))(key \<mapsto> (sid, n, tr))\<rparr>"
    using onDispatch_staged [OF inv dispatched(2,5)] by blast
  then obtain tr where tr: "validateEvent t e = Inr tr" and c: "c = (ob_companion o1)\<lparr>cp_staged :=
      (cp_staged (ob_companion o1))(key \<mapsto> (sid, n, tr))\<rparr>"
    by (auto split: sum.splits)
  have new: "stagedFor c sid key e" using n tr by (auto simp: stagedFor_def c)
  have old: "stagedFor c s k e'" if "ob_inflight o1 s = Some (k, e')" for s k e'
  proof -
    have st: "stagedFor (ob_companion o1) s k e'" and "k \<in> ob_used o1"
      using inv that unfolding companionInv_def flightsOK_def by blast+
    then show ?thesis using dispatched(4) by (intro stagedFor_other [OF st]) (auto simp: c)
  qed
  have rep: "tracesReplay c (ob_logs o1)"
    using inv by (simp add: companionInv_def c tracesReplay_staged)
  have fl: "flightsOK (ob_inflight o1) (ob_used o1)" using inv by (simp add: companionInv_def)
  have fl': "flightsOK ((ob_inflight o1)(sid \<mapsto> (key, e))) (insert key (ob_used o1))"
    using fl dispatched(4) by (auto simp: flightsOK_def)
  have staged: "stagedFor c s k e'" if "((ob_inflight o1)(sid \<mapsto> (key, e))) s = Some (k, e')" for s k e'
    using that new old by (cases "s = sid") simp_all
  show ?thesis
    unfolding dispatched(1) by (rule companionInvI) (simp_all add: rep fl' staged del: fun_upd_apply)
next
  case (rejected sid events key e c err)
  obtain n t where "case validateEvent t e of
           Inl err' \<Rightarrow> Some err = Some err' \<and> c = ob_companion o1
         | Inr tr \<Rightarrow> Some err = None \<and> c = (ob_companion o1)\<lparr>cp_staged :=
             (cp_staged (ob_companion o1))(key \<mapsto> (sid, n, tr))\<rparr>"
    using onDispatch_staged [OF inv rejected(2,5)] by blast
  then have "c = ob_companion o1" by (auto split: sum.splits)
  then show ?thesis
    using inv rejected by (auto simp: companionInv_def flightsOK_def)
next
  case (vetoed sid key e)
  then show ?thesis
    using inv by (auto simp: companionInv_def flightsOK_def split: if_splits)
next
  case (published sid key e events c r)
  obtain n t t' where n: "cp_traces (ob_companion o1) sid = Some n"
    "cp_heap (ob_companion o1) n = Some t" "traceStep t e = Inr t'"
    and c: "c = (ob_companion o1)\<lparr>cp_staged := (cp_staged (ob_companion o1))(key := None),
         cp_heap := (cp_heap (ob_companion o1))(n \<mapsto> t')\<rparr>"
    using onEvent_staged [OF inv published(2,3)] published(4) by (metis prod.inject)
  have rep: "tracesReplay (ob_companion o1) (ob_logs o1)" and fl: "flightsOK (ob_inflight o1) (ob_used o1)"
    using inv by (simp_all add: companionInv_def)
  have "stagedFor c s k e'" if "ob_inflight o1 s = Some (k, e')" "s \<noteq> sid" for s k e'
  proof -
    have st: "stagedFor (ob_companion o1) s k e'" using inv that by (simp add: companionInv_def)
    have "k \<noteq> key" using fl that published(2) unfolding flightsOK_def by blast
    then show ?thesis
      using tracesReplayD(3) [OF rep n(1), of s] that(2)
      by (intro stagedFor_other [OF st]) (auto simp: c)
  qed
  then show ?thesis
    using tracesReplay_published [OF rep n(1,2) published(3) n(3)] fl published c
    by (intro companionInvI) (auto simp: flightsOK_def split: if_splits)
qed

inductive observed_reach :: "observed \<Rightarrow> bool" where
  start: "observed_reach observed_start"
| step: "observed_reach o1 \<Longrightarrow> observed_step o1 o2 \<Longrightarrow> observed_reach o2"

lemma observed_inv: "observed_reach ob \<Longrightarrow> companionInv ob"
  by (induction rule: observed_reach.induct) (use companionInv_start companionInv_step in blast)+

text \<open>
  Claim C7: pre-commit validation is sound under vetoes. In every reachable state, whatever was
  dispatched, rejected or vetoed in any interleaving of the sessions, the trace of a session is
  exactly the replay of its committed log, so every committed log satisfies the relational
  invariants; and publishing a staged candidate never fails.
\<close>

theorem companion_replays:
  assumes "observed_reach ob" and "ob_logs ob sid = Some events"
  shows "\<exists>n t. cp_traces (ob_companion ob) sid = Some n \<and> cp_heap (ob_companion ob) n = Some t
     \<and> seedTrace events = Inr t
     \<and> (\<forall>key e. ob_inflight ob sid = Some (key, e) \<longrightarrow>
          snd (onEvent (ob_companion ob) sid key) = None
          \<and> (\<exists>t'. seedTrace (events @ [e]) = Inr t'))"
proof -
  note inv = observed_inv [OF assms(1)]
  obtain n t where n: "cp_traces (ob_companion ob) sid = Some n"
    "cp_heap (ob_companion ob) n = Some t" "seedTrace events = Inr t"
    using companionInv_logD [OF inv assms(2)] by blast
  have "snd (onEvent (ob_companion ob) sid key) = None \<and> (\<exists>t'. seedTrace (events @ [e]) = Inr t')"
    if fl: "ob_inflight ob sid = Some (key, e)" for key e
  proof -
    obtain n' t0 t' where "cp_traces (ob_companion ob) sid = Some n'"
      "cp_heap (ob_companion ob) n' = Some t0" "traceStep t0 e = Inr t'"
      "snd (onEvent (ob_companion ob) sid key) = None"
      using onEvent_staged [OF inv fl assms(2)] by (metis snd_conv)
    with n show ?thesis by (auto simp: seedTrace_def runR_snoc)
  qed
  with n show ?thesis by blast
qed

definition sample_observed :: observed where
  "sample_observed = observed_start\<lparr>
     ob_companion := fst (seedSession emptyCompanion 0 [plainEvent 0 0 (TurnStart 1)]),
     ob_logs := [0 \<mapsto> [plainEvent 0 0 (TurnStart 1)]]\<rparr>"

definition sample_flight :: observed where
  "sample_flight = sample_observed\<lparr>
     ob_companion := fst (onDispatch (ob_companion sample_observed) 0
        [plainEvent 0 0 (TurnStart 1)] 5 (plainEvent 1 0 (StepStart 1 1))),
     ob_inflight := [0 \<mapsto> (5, plainEvent 1 0 (StepStart 1 1))], ob_used := {5}\<rparr>"

lemma sample_flight_reach: "observed_reach sample_flight"
proof -
  have "snd (seedSession emptyCompanion 0 [plainEvent 0 0 (TurnStart 1)]) = Inr 0" by code_simp
  then have s: "seedSession emptyCompanion 0 [plainEvent 0 0 (TurnStart 1)]
      = (fst (seedSession emptyCompanion 0 [plainEvent 0 0 (TurnStart 1)]), Inr 0)"
    by (simp add: prod_eq_iff)
  have one: "observed_reach sample_observed"
  proof -
    have "observed_step observed_start (observed_start\<lparr>
        ob_companion := fst (seedSession emptyCompanion 0 [plainEvent 0 0 (TurnStart 1)]),
        ob_logs := (ob_logs observed_start)(0 \<mapsto> [plainEvent 0 0 (TurnStart 1)])\<rparr>)"
      by (rule observed_step.created) (use s in \<open>simp_all add: observed_start_def\<close>)
    then show ?thesis
      using observed_reach.step [OF observed_reach.start]
      by (simp add: sample_observed_def observed_start_def)
  qed
  have "snd (onDispatch (ob_companion sample_observed) 0 [plainEvent 0 0 (TurnStart 1)] 5
      (plainEvent 1 0 (StepStart 1 1))) = None"
    by code_simp
  then have d: "onDispatch (ob_companion sample_observed) 0 [plainEvent 0 0 (TurnStart 1)] 5
      (plainEvent 1 0 (StepStart 1 1)) = (ob_companion sample_flight, None)"
    by (simp add: prod_eq_iff sample_flight_def)
  have "observed_step sample_observed sample_flight"
    using observed_step.dispatched [OF _ _ _ d]
    by (simp add: sample_flight_def sample_observed_def observed_start_def)
  with one show ?thesis by (rule observed_reach.step)
qed

theorem companion_replays_witness:
  "snd (onEvent (ob_companion sample_flight) 0 5) = None
   \<and> (\<exists>t'. seedTrace [plainEvent 0 0 (TurnStart 1), plainEvent 1 0 (StepStart 1 1)] = Inr t')"
  using companion_replays [OF sample_flight_reach, of 0 "[plainEvent 0 0 (TurnStart 1)]"]
  by (auto simp: sample_flight_def sample_observed_def)

end
