(* ===== verification/Session_Store.thy ===== *)
theory Session_Store
  imports Session_Live Trace_Facts
begin

text \<open>
  The class \<^verbatim>\<open>SessionStore\<close> of \<^verbatim>\<open>packages/core/session/src/index.ts\<close> and the part of
  \<^verbatim>\<open>Session.append\<close> that an attachment adds. Session objects and entry objects are named by
  numbers; \<open>w_sessions\<close> and \<open>w_entries\<close> hold their fields. An operation that calls listeners is
  split where the listeners run: \<open>announceBegin\<close>/\<open>announceEnd\<close>, and
  \<open>appendBegin\<close>/\<open>appendCommit\<close>/\<open>appendEnd\<close>. Between the parts a listener may call
  any operation of the store, so the state machine of \<open>Store_Facts\<close> interleaves them freely. The
  dispatch itself (\<^verbatim>\<open>ctx.events.dispatch\<close>) belongs to the plugin framework: a veto is a step.
\<close>

record session_entry =
  en_sid :: string
  en_session :: nat
  en_announced :: bool
  en_announcing :: bool
  en_appending :: bool
  en_detachRequested :: bool

datatype lifecycle_edge = Created nat | Disposed nat | Published nat event

text \<open>
  \<open>w_entered\<close> is the variable \<^verbatim>\<open>entered\<close> that the detach capability of an entry closes over,
  \<open>w_flight\<close> the candidate of an append whose listeners are running, with whether it was
  committed, and \<open>w_edges\<close> the notifications emitted so far, with the entry they concern.
\<close>

record store_state =
  w_sessions :: "nat \<rightharpoonup> session"
  w_nextSession :: nat
  w_entries :: "nat \<rightharpoonup> session_entry"
  w_nextEntry :: nat
  w_store :: "(string, nat) omap"
  w_attachments :: "nat \<rightharpoonup> nat"
  w_counter :: nat
  w_entered :: "nat \<Rightarrow> bool"
  w_flight :: "nat \<rightharpoonup> event \<times> bool"
  w_edges :: "lifecycle_edge list"

datatype store_error =
    SessionFailed session_error
  | SessionExists string
  | AlreadyAttached
  | NotLiveInStore
  | AlreadyAnnounced
  | DispatchThrew
  | FlushFailed string
  | ForkSessionNotFound
  | ForkSessionNotLive
  | ForkChildExists string
  | ForkInvalidBoundary
  | ForkOpenTurn int
  | NoSuchObject

definition emptyStore :: store_state where
  "emptyStore = \<lparr>w_sessions = Map.empty, w_nextSession = 0, w_entries = Map.empty,
     w_nextEntry = 0, w_store = [], w_attachments = Map.empty, w_counter = 0,
     w_entered = (\<lambda>_. False), w_flight = Map.empty, w_edges = []\<rparr>"

section \<open>Identity and construction\<close>

text \<open>
  The loop that mints an identity. Each round looks at a new name, so one round more than the
  store has names is enough (\<open>mintId_enough\<close>).
\<close>

definition sessionName :: "nat \<Rightarrow> string" where
  "sessionName n = ''session-'' @ natStr n"

fun mintId :: "nat \<Rightarrow> nat \<Rightarrow> string list \<Rightarrow> (nat \<times> string) option" where
  "mintId 0 c taken = None"
| "mintId (Suc fuel) c taken =
     (if sessionName (Suc c) \<in> set taken then mintId fuel (Suc c) taken
      else Some (Suc c, sessionName (Suc c)))"

text \<open>
  Creation metadata, read field by field. A field is absent, or present with the result of
  \<^verbatim>\<open>snapshotJsonValue\<close> on its value.
\<close>

type_synonym session_meta = "string \<Rightarrow> json option option"

definition metaKeys :: "string list" where
  "metaKeys = [''cwd'', ''parentSession'', ''seedLength'', ''origin'', ''delegationDepth'',
     ''agentPreset'']"

definition creationHeader :: "string \<Rightarrow> int \<Rightarrow> session_meta \<Rightarrow> json option" where
  "creationHeader sid now meta =
     (let createdAt = (case meta ''createdAt'' of
                         None \<Rightarrow> Some (JNum (of_int now))
                       | Some (Some JNull) \<Rightarrow> Some (JNum (of_int now))
                       | Some v \<Rightarrow> v);
          given = filter (\<lambda>k. meta k \<noteq> None) metaKeys
      in if createdAt = None \<or> (\<exists>k \<in> set given. meta k = Some None) then None
         else Some (JObj ([(''version'', JNum (of_int SESSION_FORMAT_VERSION)), (''id'', JStr sid),
                (''createdAt'', the createdAt)] @ map (\<lambda>k. (k, the (the (meta k)))) given)))"

datatype prepare_options =
    FreshSession "json option list option" session_meta
  | StoredSession "json list" json

definition addSession :: "store_state \<Rightarrow> session \<Rightarrow> store_state \<times> nat" where
  "addSession w S =
     (w\<lparr>w_sessions := (w_sessions w)(w_nextSession w \<mapsto> S), w_nextSession := Suc (w_nextSession w)\<rparr>,
      w_nextSession w)"

definition prepare ::
  "(string \<Rightarrow> json \<Rightarrow> event_data) \<Rightarrow> store_state \<Rightarrow> int \<Rightarrow> string option \<Rightarrow> prepare_options
    \<Rightarrow> store_state \<times> (store_error + nat)" where
  "prepare payload w now sidOpt options =
     (let taken = map fst (w_store w);
          (w1, sid) = (case sidOpt of
              Some i \<Rightarrow> (w, i)
            | None \<Rightarrow> (case mintId (Suc (length taken)) (w_counter w) taken of
                         Some (c, i) \<Rightarrow> (w\<lparr>w_counter := c\<rparr>, i)
                       | None \<Rightarrow> (w, [])))
      in if sid \<in> set taken then (w1, Inl (SessionExists sid))
         else
           (case (case options of
                    StoredSession seed meta \<Rightarrow>
                      newSession payload sid now Restore (Some (map Some seed)) (Some (Some meta))
                  | FreshSession seed meta \<Rightarrow>
                      newSession payload sid now Snapshot seed (Some (creationHeader sid now meta)))
            of Inl err \<Rightarrow> (w1, Inl (SessionFailed err))
             | Inr S \<Rightarrow> (case addSession w1 S of (w2, s) \<Rightarrow> (w2, Inr s))))"

section \<open>Entering, detaching, announcing\<close>

definition sessionId :: "session \<Rightarrow> string" where
  "sessionId S = sh_id (s_header S)"

definition setEntry :: "store_state \<Rightarrow> nat \<Rightarrow> session_entry \<Rightarrow> store_state" where
  "setEntry w e en = w\<lparr>w_entries := (w_entries w)(e \<mapsto> en)\<rparr>"

definition enter :: "store_state \<Rightarrow> nat \<Rightarrow> store_state \<times> (store_error + nat)" where
  "enter w s =
     (case w_sessions w s of
        None \<Rightarrow> (w, Inl NoSuchObject)
      | Some S \<Rightarrow>
          if map_of (w_store w) (sessionId S) \<noteq> None then (w, Inl (SessionExists (sessionId S)))
          else if w_attachments w s \<noteq> None then (w, Inl AlreadyAttached)
          else
            (let e = w_nextEntry w;
                 en = \<lparr>en_sid = sessionId S, en_session = s, en_announced = False,
                       en_announcing = False, en_appending = False, en_detachRequested = False\<rparr>
             in ((setEntry w e en)\<lparr>w_nextEntry := Suc e,
                     w_store := mapSet (w_store w) (sessionId S) e,
                     w_attachments := (w_attachments w)(s \<mapsto> e),
                     w_entered := (w_entered w)(e := True)\<rparr>,
                 Inr e)))"

definition detachEntered :: "store_state \<Rightarrow> nat \<Rightarrow> store_state" where
  "detachEntered w e =
     (case w_entries w e of
        None \<Rightarrow> w
      | Some en \<Rightarrow>
          (let w1 = setEntry w e (en\<lparr>en_detachRequested := False\<rparr>)
           in if map_of (w_store w) (en_sid en) \<noteq> Some e then w1
              else w1\<lparr>w_store := mapDelete (w_store w) (en_sid en),
                      w_attachments := (w_attachments w)(en_session en := None),
                      w_edges := w_edges w @ (if en_announced en then [Disposed e] else [])\<rparr>))"

text \<open>The disposer that \<^verbatim>\<open>enter\<close> returns.\<close>

definition detach :: "store_state \<Rightarrow> nat \<Rightarrow> store_state" where
  "detach w e =
     (if \<not> w_entered w e then w
      else
        (let w1 = w\<lparr>w_entered := (w_entered w)(e := False)\<rparr>
         in case w_entries w e of
              None \<Rightarrow> w1
            | Some en \<Rightarrow>
                if en_announcing en \<or> en_appending en
                then setEntry w1 e (en\<lparr>en_detachRequested := True\<rparr>)
                else detachEntered w1 e))"

definition liveEntryFor :: "store_state \<Rightarrow> nat \<Rightarrow> store_error + nat" where
  "liveEntryFor w s =
     (case w_attachments w s of
        None \<Rightarrow> Inl NotLiveInStore
      | Some e \<Rightarrow>
          (case w_entries w e of
             None \<Rightarrow> Inl NotLiveInStore
           | Some en \<Rightarrow> if map_of (w_store w) (en_sid en) = Some e then Inr e
                        else Inl NotLiveInStore))"

definition announceBegin :: "store_state \<Rightarrow> nat \<Rightarrow> store_state \<times> (store_error + nat)" where
  "announceBegin w s =
     (case liveEntryFor w s of
        Inl err \<Rightarrow> (w, Inl err)
      | Inr e \<Rightarrow>
          (case w_entries w e of
             None \<Rightarrow> (w, Inl NoSuchObject)
           | Some en \<Rightarrow>
               if en_announced en \<or> en_announcing en then (w, Inl AlreadyAnnounced)
               else ((setEntry w e (en\<lparr>en_announced := True, en_announcing := True\<rparr>))
                       \<lparr>w_edges := w_edges w @ [Created e]\<rparr>, Inr e)))"

text \<open>The \<^verbatim>\<open>finally\<close> of \<^verbatim>\<open>announce\<close>.\<close>

definition announceEnd :: "store_state \<Rightarrow> nat \<Rightarrow> store_state" where
  "announceEnd w e =
     (case w_entries w e of
        None \<Rightarrow> w
      | Some en \<Rightarrow>
          (let w1 = setEntry w e (en\<lparr>en_announcing := False\<rparr>)
           in if en_detachRequested en \<and> \<not> en_appending en then detachEntered w1 e else w1))"

text \<open>
  \<^verbatim>\<open>create\<close> with listeners that do not re-enter: \<open>veto\<close> says that one of them throws, and
  then the effect disposes what it yielded.
\<close>

definition create ::
  "(string \<Rightarrow> json \<Rightarrow> event_data) \<Rightarrow> store_state \<Rightarrow> int \<Rightarrow> string option \<Rightarrow> prepare_options \<Rightarrow> bool
    \<Rightarrow> store_state \<times> (store_error + nat)" where
  "create payload w now sidOpt options veto =
     (case prepare payload w now sidOpt options of
        (w1, Inl err) \<Rightarrow> (w1, Inl err)
      | (w1, Inr s) \<Rightarrow>
     (case enter w1 s of
        (w2, Inl err) \<Rightarrow> (w2, Inl err)
      | (w2, Inr e) \<Rightarrow>
     (case announceBegin w2 s of
        (w3, Inl err) \<Rightarrow> (detach w3 e, Inl err)
      | (w3, Inr _) \<Rightarrow>
          (let w4 = announceEnd w3 e
           in if veto then (detach w4 e, Inl DispatchThrew) else (w4, Inr s)))))"

section \<open>Appending to a session of the store\<close>

definition setSession :: "store_state \<Rightarrow> nat \<Rightarrow> session \<Rightarrow> store_state" where
  "setSession w s S = w\<lparr>w_sessions := (w_sessions w)(s \<mapsto> S)\<rparr>"

text \<open>
  Up to the point where the listeners are resolved. A detached session commits at once. The
  result is the entry whose append is now in flight, or \<open>None\<close> when the append is finished.
\<close>

definition appendBegin ::
  "store_state \<Rightarrow> nat \<Rightarrow> int \<Rightarrow> event_data option \<Rightarrow> (json option \<times> json option) option
    \<Rightarrow> store_state \<times> (store_error + nat option)" where
  "appendBegin w s now data meta =
     (case w_sessions w s of
        None \<Rightarrow> (w, Inl NoSuchObject)
      | Some S \<Rightarrow>
          (let entry = Option.bind (w_attachments w s) (\<lambda>e. map_option (Pair e) (w_entries w e));
               busy = (case entry of None \<Rightarrow> False | Some (_, en) \<Rightarrow> en_appending en)
           in case prepareAppend S busy now data meta of
                (S', Inl err) \<Rightarrow> (setSession w s S', Inl (SessionFailed err))
              | (S', Inr ev) \<Rightarrow>
                  (case entry of
                     None \<Rightarrow> (setSession w s (commitAppend S' ev), Inr None)
                   | Some (e, en) \<Rightarrow>
                       ((setEntry (setSession w s S') e (en\<lparr>en_appending := True\<rparr>))
                          \<lparr>w_flight := (w_flight w)(e \<mapsto> (ev, False))\<rparr>,
                        Inr (Some e)))))"

text \<open>The listeners are resolved: the candidate enters the log and is published.\<close>

definition appendCommit :: "store_state \<Rightarrow> nat \<Rightarrow> store_state" where
  "appendCommit w e =
     (case (w_flight w e, w_entries w e) of
        (Some (ev, False), Some en) \<Rightarrow>
          (case w_sessions w (en_session en) of
             None \<Rightarrow> w
           | Some S \<Rightarrow>
               (setSession w (en_session en) (commitAppend S ev))
                 \<lparr>w_flight := (w_flight w)(e \<mapsto> (ev, True)),
                  w_edges := w_edges w @ [Published e ev]\<rparr>)
      | _ \<Rightarrow> w)"

text \<open>The \<^verbatim>\<open>finally\<close> of \<^verbatim>\<open>append\<close>, after a veto or after the observers.\<close>

definition appendEnd :: "store_state \<Rightarrow> nat \<Rightarrow> store_state" where
  "appendEnd w e =
     (case w_entries w e of
        None \<Rightarrow> w
      | Some en \<Rightarrow>
          (let w1 = (setEntry w e (en\<lparr>en_appending := False\<rparr>))
                      \<lparr>w_flight := (w_flight w)(e := None)\<rparr>
           in if en_detachRequested en \<and> \<not> en_announcing en then detachEntered w1 e else w1))"

text \<open>\<^verbatim>\<open>append\<close> with listeners that do not re-enter; \<open>veto\<close> says that the dispatch throws.\<close>

definition storeAppend ::
  "store_state \<Rightarrow> nat \<Rightarrow> int \<Rightarrow> event_data option \<Rightarrow> (json option \<times> json option) option \<Rightarrow> bool
    \<Rightarrow> store_state \<times> (store_error + event)" where
  "storeAppend w s now data meta veto =
     (case appendBegin w s now data meta of
        (w1, Inl err) \<Rightarrow> (w1, Inl err)
      | (w1, Inr None) \<Rightarrow>
          (w1, case w_sessions w1 s of None \<Rightarrow> Inl NoSuchObject | Some S \<Rightarrow> Inr (last (s_log S)))
      | (w1, Inr (Some e)) \<Rightarrow>
          if veto then (appendEnd w1 e, Inl DispatchThrew)
          else (case w_flight w1 e of
                  None \<Rightarrow> (w1, Inl NoSuchObject)
                | Some (ev, _) \<Rightarrow> (appendEnd (appendCommit w1 e) e, Inr ev)))"

section \<open>Reads, flush, fork\<close>

definition getSession :: "store_state \<Rightarrow> string \<Rightarrow> nat option" where
  "getSession w sid =
     Option.bind (map_of (w_store w) sid) (\<lambda>e. map_option en_session (w_entries w e))"

definition listSessions :: "store_state \<Rightarrow> nat list" where
  "listSessions w = List.map_filter (\<lambda>(_, e). map_option en_session (w_entries w e)) (w_store w)"

text \<open>
  \<^verbatim>\<open>flush\<close>: \<open>outcomes\<close> are the settled results of the listeners in registration order.
\<close>

definition flush :: "store_state \<Rightarrow> nat \<Rightarrow> (string + unit) list \<Rightarrow> store_error + bool" where
  "flush w s outcomes =
     bindR (liveEntryFor w s) (\<lambda>_.
       case find isl outcomes of
         Some (Inl reason) \<Rightarrow> Inl (FlushFailed reason)
       | _ \<Rightarrow> Inr (outcomes \<noteq> []))"

datatype fork_source = ById string | ByObject nat

definition resolveForkSource :: "store_state \<Rightarrow> fork_source \<Rightarrow> store_error + nat" where
  "resolveForkSource w src =
     (case src of
        ById sid \<Rightarrow> (case getSession w sid of None \<Rightarrow> Inl ForkSessionNotFound | Some s \<Rightarrow> Inr s)
      | ByObject s \<Rightarrow>
          (case w_sessions w s of
             None \<Rightarrow> Inl NoSuchObject
           | Some S \<Rightarrow>
               (case getSession w (sessionId S) of
                  None \<Rightarrow> Inl ForkSessionNotFound
                | Some t \<Rightarrow> if t \<noteq> s then Inl ForkSessionNotLive else Inr s)))"

fun isTurnBoundary :: "event_data \<Rightarrow> bool" where
  "isTurnBoundary (TurnStart _) = True"
| "isTurnBoundary (TurnEnd _ _) = True"
| "isTurnBoundary _ = False"

definition forkSeed :: "event list \<Rightarrow> rat option \<Rightarrow> store_error + event list" where
  "forkSeed events requested =
     (if requested = None \<and> events = [] then Inr []
      else
        (let boundary = (case requested of Some b \<Rightarrow> b | None \<Rightarrow> of_nat (seq (last events)))
         in case nonNegSafeInt (JNum boundary) of
              None \<Rightarrow> Inl ForkInvalidBoundary
            | Some b \<Rightarrow>
                if length events \<le> b then Inl ForkInvalidBoundary
                else if seq (events ! b) \<noteq> b then Inl ForkInvalidBoundary
                else
                  (case find (\<lambda>e. isTurnBoundary (ev_data e)) (rev (take (b + 1) events)) of
                     Some e \<Rightarrow>
                       (case ev_data e of
                          TurnStart turn \<Rightarrow> Inl (ForkOpenTurn turn)
                        | _ \<Rightarrow> Inr (take (b + 1) events))
                   | None \<Rightarrow> Inr (take (b + 1) events))))"

text \<open>
  \<^verbatim>\<open>fork\<close>: \<open>encode\<close> is an event object seen as the JSON value it is. The child's listeners do
  not re-enter; \<open>veto\<close> says that one of them throws.
\<close>

definition fork ::
  "(string \<Rightarrow> json \<Rightarrow> event_data) \<Rightarrow> (event \<Rightarrow> json) \<Rightarrow> store_state \<Rightarrow> int \<Rightarrow> fork_source
    \<Rightarrow> rat option \<Rightarrow> string option \<Rightarrow> bool \<Rightarrow> store_state \<times> (store_error + nat)" where
  "fork payload encode w now src boundary child veto =
     (case Option.bind child (getSession w) of
        Some _ \<Rightarrow> (w, Inl (ForkChildExists (the child)))
      | None \<Rightarrow>
     (case resolveForkSource w src of
        Inl err \<Rightarrow> (w, Inl err)
      | Inr s \<Rightarrow>
     (case w_sessions w s of
        None \<Rightarrow> (w, Inl NoSuchObject)
      | Some S \<Rightarrow>
     (case getEvents S of (S', events) \<Rightarrow>
     (case forkSeed events boundary of
        Inl err \<Rightarrow> (setSession w s S', Inl err)
      | Inr seed \<Rightarrow>
          create payload (setSession w s S') now child
            (FreshSession (Some (map (\<lambda>e. Some (encode e)) seed))
               (\<lambda>k. if k = ''cwd'' then map_option (\<lambda>p. Some (JStr p)) (sh_cwd (s_header S))
                    else if k = ''parentSession'' then Some (Some (JStr (sessionId S)))
                    else if k = ''seedLength'' then Some (Some (JNum (of_nat (length seed))))
                    else None))
            veto)))))"

end
