(* ===== verification/Store_Facts.thy ===== *)
theory Store_Facts
  imports Session_Store
begin

text \<open>
  Correctness of the session store under re-entrant listeners: the state machine that
  interleaves the parts of its operations freely, its invariant, the pairing of the lifecycle
  notifications, and what a fork gives the child.
\<close>

section \<open>Minting identities\<close>

lemma natStr_digit: "n < 10 \<Longrightarrow> natStr n = [char_of (48 + n)]"
  by (simp add: natStr.simps [of n])

lemma natStr_more: "\<not> n < 10 \<Longrightarrow> natStr n = natStr (n div 10) @ [char_of (48 + n mod 10)]"
  by (simp add: natStr.simps [of n])

lemma natStr_nonempty [simp]: "natStr n \<noteq> []" "[] \<noteq> natStr n"
  by (cases "n < 10"; simp add: natStr_digit natStr_more)+

lemma digit_inj:
  assumes "a < 10" and "b < 10" and "(char_of (48 + a) :: char) = char_of (48 + b)"
  shows "a = (b :: nat)"
proof -
  have "(48 + a) mod 256 = (48 + b) mod 256"
    using assms(3) by (metis of_char_of)
  with assms(1,2) show ?thesis by simp
qed

lemma natStr_inj: "natStr m = natStr n \<Longrightarrow> m = n"
proof (induction m arbitrary: n rule: less_induct)
  case (less m)
  show ?case
  proof (cases "m < 10"; cases "n < 10")
    assume "m < 10" "n < 10"
    with less.prems show ?thesis by (auto simp: natStr_digit dest: digit_inj)
  next
    assume "m < 10" "\<not> n < 10"
    with less.prems show ?thesis by (simp add: natStr_digit natStr_more)
  next
    assume "\<not> m < 10" "n < 10"
    with less.prems show ?thesis by (simp add: natStr_digit natStr_more)
  next
    assume big: "\<not> m < 10" "\<not> n < 10"
    with less.prems have "natStr (m div 10) = natStr (n div 10)"
      and d: "(char_of (48 + m mod 10) :: char) = char_of (48 + n mod 10)"
      by (simp_all add: natStr_more)
    then have "m div 10 = n div 10" using less.IH [of "m div 10"] big by simp
    moreover have "m mod 10 = n mod 10" using digit_inj [OF _ _ d] by simp
    ultimately show ?thesis by (metis div_mult_mod_eq)
  qed
qed

lemma sessionName_inj: "inj_on sessionName A"
  by (rule inj_onI) (auto simp: sessionName_def dest: natStr_inj)

lemma mintId_None:
  "mintId fuel c taken = None \<Longrightarrow> sessionName ` {c<..c + fuel} \<subseteq> set taken"
proof (induction fuel arbitrary: c)
  case 0
  then show ?case by simp
next
  case (Suc fuel)
  then have "sessionName (Suc c) \<in> set taken" "mintId fuel (Suc c) taken = None"
    by (auto split: if_splits)
  moreover have "{c<..c + Suc fuel} = insert (Suc c) {Suc c<..Suc c + fuel}" by auto
  ultimately show ?case using Suc.IH [of "Suc c"] by (simp only: image_insert) simp
qed

lemma mintId_Some: "mintId fuel c taken = Some (c', sid) \<Longrightarrow> sid \<notin> set taken"
proof (induction fuel arbitrary: c)
  case (Suc fuel)
  then show ?case by (cases "sessionName (Suc c) \<in> set taken") auto
qed simp

text \<open>
  Result: minting always ends with a name that is not taken, however many names the store
  holds: one round more than there are names is enough.
\<close>

theorem mintId_enough:
  "\<exists>c' sid. mintId (Suc (length taken)) c taken = Some (c', sid) \<and> sid \<notin> set taken"
proof (cases "mintId (Suc (length taken)) c taken")
  case None
  have "Suc (length taken) = card (sessionName ` {c<..c + Suc (length taken)})"
    by (simp add: card_image [OF sessionName_inj])
  also have "\<dots> \<le> length taken"
    using card_mono [OF finite_set mintId_None [OF None]] card_length [of taken] by linarith
  finally show ?thesis by simp
next
  case (Some r)
  then show ?thesis using mintId_Some by (cases r) blast
qed

section \<open>The state machine\<close>

inductive store_step ::
  "(string \<Rightarrow> json \<Rightarrow> event_data) \<Rightarrow> store_state \<Rightarrow> store_state \<Rightarrow> bool" for payload where
  prepared: "prepare payload w now i options = (w', r) \<Longrightarrow> store_step payload w w'"
| entered: "enter w s = (w', r) \<Longrightarrow> store_step payload w w'"
| detached: "store_step payload w (detach w e)"
| announce_begin: "announceBegin w s = (w', r) \<Longrightarrow> store_step payload w w'"
| announce_end: "w_entries w e = Some en \<Longrightarrow> en_announcing en \<Longrightarrow> store_step payload w (announceEnd w e)"
| append_begin: "appendBegin w s now data meta = (w', r') \<Longrightarrow> store_step payload w w'"
| append_commit: "store_step payload w (appendCommit w e)"
| append_end: "w_flight w e \<noteq> None \<Longrightarrow> store_step payload w (appendEnd w e)"
| read: "w_sessions w s = Some S \<Longrightarrow> S' \<in> {fst (getEvents S), fst (requestHeader S),
      fst (requestContext S), fst (deriveMessages S)} \<Longrightarrow> store_step payload w (setSession w s S')"

inductive store_reach :: "(string \<Rightarrow> json \<Rightarrow> event_data) \<Rightarrow> store_state \<Rightarrow> bool" for payload where
  start: "store_reach payload emptyStore"
| step: "store_reach payload w \<Longrightarrow> store_step payload w w' \<Longrightarrow> store_reach payload w'"

section \<open>The invariant\<close>

definition inStore :: "store_state \<Rightarrow> nat \<Rightarrow> session_entry \<Rightarrow> bool" where
  "inStore w e en \<longleftrightarrow> map_of (w_store w) (en_sid en) = Some e"

fun edgeOf :: "nat \<Rightarrow> lifecycle_edge \<Rightarrow> bool" where
  "edgeOf e (Created e') = (e' = e)"
| "edgeOf e (Disposed e') = (e' = e)"
| "edgeOf e (Published _ _) = False"

definition edgesOf :: "store_state \<Rightarrow> nat \<Rightarrow> lifecycle_edge list" where
  "edgesOf w e = filter (edgeOf e) (w_edges w)"

definition flightOK :: "(event \<times> bool) option \<Rightarrow> event list \<Rightarrow> bool" where
  "flightOK fl lg \<longleftrightarrow>
     (case fl of Some (ev, False) \<Rightarrow> \<exists>st. surfaceLog (lg @ [ev]) = Inr st | _ \<Rightarrow> True)"

definition flagsOK :: "session_entry \<Rightarrow> bool \<Rightarrow> bool \<Rightarrow> bool \<Rightarrow> bool" where
  "flagsOK en present isEntered inFlight \<longleftrightarrow>
     (en_announcing en \<longrightarrow> en_announced en)
     \<and> (en_detachRequested en \<longrightarrow> en_announcing en \<or> en_appending en)
     \<and> (en_announcing en \<or> en_appending en \<longrightarrow> present)
     \<and> (isEntered \<longleftrightarrow> present \<and> \<not> en_detachRequested en)
     \<and> (en_appending en \<longleftrightarrow> inFlight)"

definition entryOK :: "store_state \<Rightarrow> nat \<Rightarrow> session_entry \<Rightarrow> bool" where
  "entryOK w e en \<longleftrightarrow>
     e < w_nextEntry w
     \<and> (\<exists>S. w_sessions w (en_session en) = Some S \<and> sessionId S = en_sid en
          \<and> flightOK (w_flight w e) (s_log S))
     \<and> (inStore w e en \<longleftrightarrow> w_attachments w (en_session en) = Some e)
     \<and> flagsOK en (inStore w e en) (w_entered w e) (w_flight w e \<noteq> None)
     \<and> edgesOf w e = (if en_announced en then [Created e] else [])
          @ (if en_announced en \<and> \<not> inStore w e en then [Disposed e] else [])"

definition storeInvBut :: "nat set \<Rightarrow> store_state \<Rightarrow> bool" where
  "storeInvBut X w \<longleftrightarrow>
     distinct (map fst (w_store w))
     \<and> (\<forall>sid e. map_of (w_store w) sid = Some e \<longrightarrow>
          (\<exists>en. w_entries w e = Some en \<and> en_sid en = sid))
     \<and> (\<forall>s e. w_attachments w s = Some e \<longrightarrow> (\<exists>en. w_entries w e = Some en \<and> en_session en = s))
     \<and> (\<forall>e en. e \<notin> X \<longrightarrow> w_entries w e = Some en \<longrightarrow> entryOK w e en)
     \<and> (\<forall>e. w_entries w e = None \<longrightarrow> edgesOf w e = [] \<and> w_flight w e = None \<and> \<not> w_entered w e)
     \<and> (\<forall>e. w_nextEntry w \<le> e \<longrightarrow> w_entries w e = None)
     \<and> (\<forall>s S. w_sessions w s = Some S \<longrightarrow> sessionInv S \<and> s < w_nextSession w)"

abbreviation storeInv :: "store_state \<Rightarrow> bool" where
  "storeInv \<equiv> storeInvBut {}"

lemma storeInv_start: "storeInv emptyStore"
  by (simp add: storeInvBut_def emptyStore_def edgesOf_def)

lemma storeInvD:
  assumes "storeInvBut X w"
  shows "distinct (map fst (w_store w))"
    and "map_of (w_store w) sid = Some e \<Longrightarrow> \<exists>en. w_entries w e = Some en \<and> en_sid en = sid"
    and "w_attachments w s = Some e \<Longrightarrow> \<exists>en. w_entries w e = Some en \<and> en_session en = s"
    and "e \<notin> X \<Longrightarrow> w_entries w e = Some en \<Longrightarrow> entryOK w e en"
    and "w_entries w e = None \<Longrightarrow> edgesOf w e = [] \<and> w_flight w e = None \<and> \<not> w_entered w e"
    and "w_nextEntry w \<le> e \<Longrightarrow> w_entries w e = None"
    and "w_sessions w s = Some S \<Longrightarrow> sessionInv S \<and> s < w_nextSession w"
  using assms unfolding storeInvBut_def by blast+

lemma storeInv_all: "storeInvBut {e} w \<Longrightarrow> entryOK w e en \<Longrightarrow> w_entries w e = Some en \<Longrightarrow> storeInv w"
  unfolding storeInvBut_def by (simp del: map_of_eq_Some_iff) (metis option.inject)

text \<open>An entry keeps its invariant when nothing it looks at changes.\<close>

lemma entryOK_frame:
  assumes "entryOK w e en" and "w_nextEntry w \<le> w_nextEntry w'"
    and "\<And>S. w_sessions w (en_session en) = Some S \<Longrightarrow> flightOK (w_flight w e) (s_log S) \<Longrightarrow>
      \<exists>S'. w_sessions w' (en_session en) = Some S' \<and> sessionId S' = sessionId S
        \<and> flightOK (w_flight w e) (s_log S')"
    and "inStore w' e en = inStore w e en"
    and "(w_attachments w' (en_session en) = Some e) = (w_attachments w (en_session en) = Some e)"
    and "w_entered w' e = w_entered w e" and "w_flight w' e = w_flight w e"
    and "edgesOf w' e = edgesOf w e"
  shows "entryOK w' e en"
proof -
  obtain S where "w_sessions w (en_session en) = Some S" "sessionId S = en_sid en"
    "flightOK (w_flight w e) (s_log S)" using assms(1) by (auto simp: entryOK_def)
  with assms(3) obtain S' where "w_sessions w' (en_session en) = Some S'"
    "sessionId S' = en_sid en" "flightOK (w_flight w e) (s_log S')" by fastforce
  with assms show ?thesis by (auto simp: entryOK_def)
qed

section \<open>Leaving the store\<close>

definition leavable :: "store_state \<Rightarrow> nat \<Rightarrow> session_entry \<Rightarrow> bool" where
  "leavable w e en \<longleftrightarrow>
     w_entries w e = Some en \<and> e < w_nextEntry w
     \<and> (\<exists>S. w_sessions w (en_session en) = Some S \<and> sessionId S = en_sid en)
     \<and> inStore w e en \<and> w_attachments w (en_session en) = Some e
     \<and> \<not> en_announcing en \<and> \<not> en_appending en \<and> \<not> w_entered w e \<and> w_flight w e = None
     \<and> edgesOf w e = (if en_announced en then [Created e] else [])"

lemma storeInvBut_mono: "storeInvBut X w \<Longrightarrow> X \<subseteq> Y \<Longrightarrow> storeInvBut Y w"
  unfolding storeInvBut_def by blast

lemma detachEntered_inv:
  assumes inv: "storeInvBut {e} w" and leave: "leavable w e en"
  shows "storeInv (detachEntered w e)"
proof -
  let ?en = "en\<lparr>en_detachRequested := False\<rparr>"
  let ?w = "detachEntered w e"
  have en: "w_entries w e = Some en" and st: "map_of (w_store w) (en_sid en) = Some e"
    and att: "w_attachments w (en_session en) = Some e"
    using leave by (simp_all add: leavable_def inStore_def)
  have w: "?w = (setEntry w e ?en)\<lparr>w_store := mapDelete (w_store w) (en_sid en),
      w_attachments := (w_attachments w)(en_session en := None),
      w_edges := w_edges w @ (if en_announced en then [Disposed e] else [])\<rparr>"
    using en st by (simp add: detachEntered_def Let_def)
  have edges: "edgesOf ?w e' = edgesOf w e' @ (if e' = e \<and> en_announced en then [Disposed e] else [])" for e'
    by (simp add: w edgesOf_def setEntry_def)
  have other: "entryOK ?w e' en'" if e': "e' \<noteq> e" "w_entries w e' = Some en'" for e' en'
  proof -
    have ok: "entryOK w e' en'" using storeInvD(4) [OF inv _ e'(2)] e'(1) by simp
    show ?thesis
    proof (rule entryOK_frame [OF ok])
      show "inStore ?w e' en' = inStore w e' en'"
        using st e'(1) by (auto simp: inStore_def w setEntry_def)
      show "(w_attachments ?w (en_session en') = Some e') = (w_attachments w (en_session en') = Some e')"
        using att e'(1) by (auto simp: w setEntry_def)
      show "edgesOf ?w e' = edgesOf w e'" using e'(1) by (simp add: edges)
    qed (auto simp: w setEntry_def)
  qed
  have self: "entryOK ?w e ?en"
    using leave edges [of e]
    by (auto simp: entryOK_def leavable_def flagsOK_def flightOK_def inStore_def w setEntry_def)
  have entries: "w_entries ?w = (w_entries w)(e \<mapsto> ?en)" by (simp add: w setEntry_def)
  show ?thesis
    unfolding storeInvBut_def
  proof (intro conjI allI impI)
    show "distinct (map fst (w_store ?w))"
      using distinct_mapDelete [OF storeInvD(1) [OF inv]] by (simp add: w setEntry_def)
  next
    fix sid e' assume "map_of (w_store ?w) sid = Some e'"
    then have "sid \<noteq> en_sid en" "map_of (w_store w) sid = Some e'"
      by (auto simp: w setEntry_def split: if_splits)
    with storeInvD(2) [OF inv, of sid e'] en
    show "\<exists>en. w_entries ?w e' = Some en \<and> en_sid en = sid" by (auto simp: entries)
  next
    fix s e' assume "w_attachments ?w s = Some e'"
    then have "w_attachments w s = Some e'" by (auto simp: w setEntry_def split: if_splits)
    with storeInvD(3) [OF inv, of s e'] en
    show "\<exists>en. w_entries ?w e' = Some en \<and> en_session en = s" by (auto simp: entries)
  next
    fix e' en' assume "w_entries ?w e' = Some en'"
    then show "entryOK ?w e' en'" using self other by (auto simp: entries split: if_splits)
  next
    fix e' assume "w_entries ?w e' = None"
    then have "e' \<noteq> e" "w_entries w e' = None" by (auto simp: entries split: if_splits)
    with storeInvD(5) [OF inv, of e'] show "edgesOf ?w e' = []" "w_flight ?w e' = None"
      "\<not> w_entered ?w e'" by (auto simp: edges) (auto simp: w setEntry_def)
  next
    fix e' assume "w_nextEntry ?w \<le> e'"
    with storeInvD(6) [OF inv, of e'] leave show "w_entries ?w e' = None"
      by (auto simp: entries leavable_def w setEntry_def)
  next
    fix s S assume "w_sessions ?w s = Some S"
    with storeInvD(7) [OF inv, of s S] show "sessionInv S" "s < w_nextSession ?w"
      by (auto simp: w setEntry_def)
  qed
qed

section \<open>Changing one entry\<close>

text \<open>
  An operation that only rewrites the flags of one entry, its \<open>entered\<close> variable, its flight and
  its own notifications keeps the invariant of everything else.
\<close>

lemma update_entry_inv:
  assumes inv: "storeInvBut {e} w" and en: "w_entries w e = Some en" and "e < w_nextEntry w"
    and ident: "en_sid en' = en_sid en" "en_session en' = en_session en"
    and w': "w' = (setEntry w e en')\<lparr>w_entered := (w_entered w)(e := b), w_flight := (w_flight w)(e := fl),
        w_edges := w_edges w @ es\<rparr>"
    and es: "\<forall>x \<in> set es. \<forall>e'. edgeOf e' x \<longrightarrow> e' = e"
  shows "storeInvBut {e} w'"
proof -
  have entries: "w_entries w' = (w_entries w)(e \<mapsto> en')" by (simp add: w' setEntry_def)
  have edges: "edgesOf w' e' = edgesOf w e'" if "e' \<noteq> e" for e'
    using es that by (auto simp: edgesOf_def w' setEntry_def filter_empty_conv)
  show ?thesis
    unfolding storeInvBut_def
  proof (intro conjI allI impI)
    show "distinct (map fst (w_store w'))" using storeInvD(1) [OF inv] by (simp add: w' setEntry_def)
  next
    fix sid e' assume "map_of (w_store w') sid = Some e'"
    then have "map_of (w_store w) sid = Some e'" by (simp add: w' setEntry_def)
    with storeInvD(2) [OF inv, of sid e'] en ident
    show "\<exists>en. w_entries w' e' = Some en \<and> en_sid en = sid" by (auto simp: entries)
  next
    fix s e' assume "w_attachments w' s = Some e'"
    then have "w_attachments w s = Some e'" by (simp add: w' setEntry_def)
    with storeInvD(3) [OF inv, of s e'] en ident
    show "\<exists>en. w_entries w' e' = Some en \<and> en_session en = s" by (auto simp: entries)
  next
    fix e' en2 assume e': "e' \<notin> {e}" "w_entries w' e' = Some en2"
    then have "w_entries w e' = Some en2" by (simp add: entries)
    then have ok: "entryOK w e' en2" using storeInvD(4) [OF inv e'(1)] by blast
    show "entryOK w' e' en2"
      by (rule entryOK_frame [OF ok]) (use e'(1) edges in \<open>auto simp: w' setEntry_def inStore_def\<close>)
  next
    fix e' assume "w_entries w' e' = None"
    then have "e' \<noteq> e" "w_entries w e' = None" by (auto simp: entries split: if_splits)
    with storeInvD(5) [OF inv, of e'] show "edgesOf w' e' = []" "w_flight w' e' = None"
      "\<not> w_entered w' e'" by (auto simp: edges) (auto simp: w' setEntry_def)
  next
    fix e' assume "w_nextEntry w' \<le> e'"
    with storeInvD(6) [OF inv, of e'] assms(3) show "w_entries w' e' = None"
      by (auto simp: w' setEntry_def)
  next
    fix s S assume "w_sessions w' s = Some S"
    with storeInvD(7) [OF inv, of s S] show "sessionInv S" "s < w_nextSession w'"
      by (auto simp: w' setEntry_def)
  qed
qed

section \<open>The operations keep the invariant\<close>

lemma entered_entry:
  assumes "storeInv w" and "w_entered w e"
  obtains en where "w_entries w e = Some en" and "entryOK w e en"
  using storeInvD(4,5) [OF assms(1), of e] assms(2) by (cases "w_entries w e") auto

lemma detach_inv:
  assumes inv: "storeInv w"
  shows "storeInv (detach w e)"
proof (cases "w_entered w e")
  case False
  then show ?thesis using inv by (simp add: detach_def)
next
  case True
  then obtain en where en: "w_entries w e = Some en" and ok: "entryOK w e en"
    using inv entered_entry by blast
  have lt: "e < w_nextEntry w" using ok by (simp add: entryOK_def)
  have but: "storeInvBut {e} w" using storeInvBut_mono [OF inv] by simp
  let ?w1 = "w\<lparr>w_entered := (w_entered w)(e := False)\<rparr>"
  show ?thesis
  proof (cases "en_announcing en \<or> en_appending en")
    case busy: True
    let ?en = "en\<lparr>en_detachRequested := True\<rparr>"
    have w': "detach w e = setEntry ?w1 e ?en"
      using True en busy by (simp add: detach_def Let_def)
    have "storeInvBut {e} (detach w e)"
      by (rule update_entry_inv [OF but en lt, where es = "[]" and fl = "w_flight w e" and b = False
            and en' = ?en]) (simp_all add: w' setEntry_def)
    moreover have "entryOK (detach w e) e ?en"
      using ok busy True by (auto simp: w' entryOK_def flagsOK_def inStore_def setEntry_def edgesOf_def)
    ultimately show ?thesis
      by (rule storeInv_all) (simp add: w' setEntry_def)
  next
    case idle: False
    have w': "detach w e = detachEntered ?w1 e"
      using True en idle by (simp add: detach_def Let_def)
    have "storeInvBut {e} ?w1"
      by (rule update_entry_inv [OF but en lt, where es = "[]" and fl = "w_flight w e" and b = False
            and en' = en]) (use en in \<open>simp_all add: setEntry_def fun_upd_idem\<close>)
    moreover have "leavable ?w1 e en"
      using ok idle True en
      by (cases "w_flight w e") (auto simp: leavable_def entryOK_def flagsOK_def inStore_def edgesOf_def)
    ultimately show ?thesis unfolding w' by (rule detachEntered_inv)
  qed
qed

lemma announceBegin_inv:
  assumes inv: "storeInv w" and a: "announceBegin w s = (w', r)"
  shows "storeInv w'"
proof (cases r)
  case (Inl err)
  then have "w' = w"
    using a by (auto simp: announceBegin_def split: sum.splits option.splits if_splits)
  then show ?thesis using inv by simp
next
  case (Inr e)
  then obtain en where en: "w_entries w e = Some en" and st: "inStore w e en"
    and new: "\<not> en_announced en" "\<not> en_announcing en"
    and w': "w' = (setEntry w e (en\<lparr>en_announced := True, en_announcing := True\<rparr>))
        \<lparr>w_edges := w_edges w @ [Created e]\<rparr>"
    using a by (auto simp: announceBegin_def liveEntryFor_def inStore_def
        split: sum.splits option.splits if_splits)
  let ?en = "en\<lparr>en_announced := True, en_announcing := True\<rparr>"
  have ok: "entryOK w e en" using storeInvD(4) [OF inv _ en] by simp
  then have lt: "e < w_nextEntry w" by (simp add: entryOK_def)
  have but: "storeInvBut {e} w" using storeInvBut_mono [OF inv] by simp
  have "storeInvBut {e} w'"
    by (rule update_entry_inv [OF but en lt, where es = "[Created e]" and fl = "w_flight w e"
          and b = "w_entered w e" and en' = ?en]) (simp_all add: w' setEntry_def)
  moreover have "entryOK w' e ?en"
    using ok st new by (auto simp: w' entryOK_def flagsOK_def inStore_def setEntry_def edgesOf_def)
  ultimately show ?thesis by (rule storeInv_all) (simp add: w' setEntry_def)
qed

text \<open>The two unwindings: the flag is cleared, and a detach that waited for it happens now.\<close>

lemma unwind_inv:
  assumes inv: "storeInv w" and en: "w_entries w e = Some en"
    and en': "en_sid en' = en_sid en" "en_session en' = en_session en"
      "en_announced en' = en_announced en" "en_detachRequested en' = en_detachRequested en"
    and flags: "(en_announcing en' = en_announcing en \<and> \<not> en_appending en' \<and> fl = None)
      \<or> (\<not> en_announcing en' \<and> en_appending en' = en_appending en \<and> fl = w_flight w e)"
    and busy: "en_announcing en \<or> en_appending en"
    and wa: "wa = (setEntry w e en')\<lparr>w_flight := (w_flight w)(e := fl)\<rparr>"
    and w': "w' = (if en_detachRequested en' \<and> \<not> en_announcing en' \<and> \<not> en_appending en'
        then detachEntered wa e else wa)"
  shows "storeInv w'"
proof -
  have ok: "entryOK w e en" using storeInvD(4) [OF inv _ en] by simp
  then have lt: "e < w_nextEntry w" by (simp add: entryOK_def)
  have but: "storeInvBut {e} w" using storeInvBut_mono [OF inv] by simp
  have but1: "storeInvBut {e} wa"
    by (rule update_entry_inv [OF but en lt, where es = "[]" and fl = fl
          and b = "w_entered w e" and en' = en']) (simp_all add: wa en' setEntry_def)
  have entry1: "w_entries wa e = Some en'" by (simp add: wa setEntry_def)
  show ?thesis
  proof (cases "en_detachRequested en' \<and> \<not> en_announcing en' \<and> \<not> en_appending en'")
    case True
    have "leavable wa e en'"
      using ok True busy en' flags entry1
      by (auto simp: leavable_def entryOK_def flagsOK_def inStore_def edgesOf_def wa setEntry_def)
    then show ?thesis using detachEntered_inv [OF but1] True by (simp add: w')
  next
    case False
    have fl: "w_flight wa e = fl" "inStore wa e en' = inStore w e en" "w_entered wa e = w_entered w e"
      "edgesOf wa e = edgesOf w e"
      by (simp_all add: wa setEntry_def inStore_def en' edgesOf_def)
    have "flagsOK en' (inStore w e en) (w_entered w e) (fl \<noteq> None)"
      using ok flags False busy en' unfolding entryOK_def flagsOK_def by auto
    moreover have "\<exists>S. w_sessions w (en_session en) = Some S \<and> sessionId S = en_sid en
        \<and> flightOK fl (s_log S)"
      using ok flags unfolding entryOK_def by (auto simp: flightOK_def)
    ultimately have "entryOK wa e en'"
      using ok unfolding entryOK_def fl en' by (auto simp: wa setEntry_def)
    then show ?thesis using storeInv_all [OF but1 _ entry1] False by (auto simp: w')
  qed
qed

lemma announceEnd_inv:
  assumes "storeInv w" and "w_entries w e = Some en" and "en_announcing en"
  shows "storeInv (announceEnd w e)"
  by (rule unwind_inv [OF assms(1,2), where en' = "en\<lparr>en_announcing := False\<rparr>"
        and fl = "w_flight w e"
        and wa = "setEntry w e (en\<lparr>en_announcing := False\<rparr>)"])
    (use assms in \<open>simp_all add: announceEnd_def Let_def setEntry_def\<close>)

lemma appendEnd_inv:
  assumes inv: "storeInv w" and fl: "w_flight w e \<noteq> None"
  shows "storeInv (appendEnd w e)"
proof -
  obtain en where en: "w_entries w e = Some en" "entryOK w e en"
    using storeInvD(4,5) [OF inv, of e] fl by (cases "w_entries w e") auto
  then have "en_appending en" using fl by (auto simp: entryOK_def flagsOK_def)
  with inv en show ?thesis
    by (intro unwind_inv [OF inv en(1), where en' = "en\<lparr>en_appending := False\<rparr>" and fl = None
        and wa = "(setEntry w e (en\<lparr>en_appending := False\<rparr>))\<lparr>w_flight := (w_flight w)(e := None)\<rparr>"])
      (auto simp: appendEnd_def Let_def)
qed

section \<open>Changing a session\<close>

lemma setSession_inv:
  assumes inv: "storeInv w" and S: "w_sessions w s = Some S" and S': "sessionInv S'" "sessionId S' = sessionId S"
    and fl: "s_log S' = s_log S
      \<or> (\<forall>e en ev. w_entries w e = Some en \<longrightarrow> en_session en = s \<longrightarrow> w_flight w e \<noteq> Some (ev, False))"
  shows "storeInv (setSession w s S')"
proof -
  let ?w = "setSession w s S'"
  have same: "w_entries ?w = w_entries w" "w_store ?w = w_store w" "w_attachments ?w = w_attachments w"
    "w_nextEntry ?w = w_nextEntry w" "w_entered ?w = w_entered w" "w_flight ?w = w_flight w"
    "w_nextSession ?w = w_nextSession w" "edgesOf ?w = edgesOf w" "inStore ?w = inStore w"
    by (simp_all add: setSession_def edgesOf_def inStore_def fun_eq_iff)
  have sess: "w_sessions ?w = (w_sessions w)(s \<mapsto> S')" by (simp add: setSession_def)
  have "entryOK ?w e en" if en: "w_entries w e = Some en" for e en
  proof -
    have ok: "entryOK w e en" using storeInvD(4) [OF inv _ en] by simp
    show ?thesis
    proof (rule entryOK_frame [OF ok])
      fix S0 assume S0: "w_sessions w (en_session en) = Some S0" "flightOK (w_flight w e) (s_log S0)"
      show "\<exists>S''. w_sessions ?w (en_session en) = Some S'' \<and> sessionId S'' = sessionId S0
          \<and> flightOK (w_flight w e) (s_log S'')"
      proof (cases "en_session en = s")
        case True
        then have "flightOK (w_flight w e) (s_log S')"
          using fl en S0 S by (auto simp: flightOK_def split: option.splits bool.splits)
        then show ?thesis using True S0 S S' by (auto simp: sess)
      next
        case False
        then show ?thesis using S0 by (simp add: sess)
      qed
    qed (simp_all add: same)
  qed
  then show ?thesis
    using storeInvD(1-3,5-7) [OF inv] S' S unfolding storeInvBut_def same sess
    by (auto split: if_splits)
qed

lemma prepareAppend_header: "prepareAppend S busy now data meta = (S', r) \<Longrightarrow> s_header S' = s_header S"
  by (auto simp: prepareAppend_def Let_def split: option.splits sum.splits prod.splits if_splits)

lemma prepareAppend_idle: "prepareAppend S busy now data meta = (S', Inr ev) \<Longrightarrow> \<not> busy"
  by (auto simp: prepareAppend_def split: option.splits sum.splits if_splits)

lemma commitAppend_fields [simp]:
  "s_header (commitAppend S ev) = s_header S" "s_log (commitAppend S ev) = s_log S @ [ev]"
  by (simp_all add: commitAppend_def)

lemma managerInv_grow:
  assumes inv: "managerInv lg m"
  shows "managerInv (lg @ es) m"
proof -
  have le: "sm_next m \<le> length lg" and st: "surfaceLog (take (sm_next m) lg) = Inr (sm_state m)"
    using inv by (simp_all add: managerInv_def)
  have "\<forall>x \<in> set (nodes (sm_state m)). x < length (take (sm_next m) lg)"
    by (rule surfaceInv_below [OF surfaceLog_inv [OF st]])
  then have below: "\<forall>x \<in> set (nodes (sm_state m)). x < length lg" using le by auto
  show ?thesis
    using inv planSurfaceEvent_local [OF below] by (auto simp: managerInv_def)
qed

lemma commit_inv:
  assumes inv: "sessionInv S" and st: "surfaceLog (s_log S @ [ev]) = Inr st"
  shows "sessionInv (commitAppend S ev)"
proof -
  obtain st0 where "surfaceLog (s_log S) = Inr st0" using inv by (auto simp: sessionInv_def)
  then have "derivedOK (S\<lparr>s_manager := s_manager S, s_log := s_log S @ [ev], s_eventsSnapshot := None\<rparr>)"
    using inv by (intro derivedOK_grow) (auto simp: sessionInv_def)
  then have "derivedOK (commitAppend S ev)" by (simp add: commitAppend_def)
  then show ?thesis
    using inv st managerInv_grow [of "s_log S" "s_manager S" "[ev]"]
    by (simp add: sessionInv_def commitAppend_def header_fold.in_sync_grow context_fold.in_sync_grow)
qed

text \<open>An attached session has at most one append in flight, that of its entry.\<close>

lemma flight_attached:
  assumes inv: "storeInv w" and en: "w_entries w e = Some en" and fl: "w_flight w e \<noteq> None"
  shows "w_attachments w (en_session en) = Some e" and "inStore w e en"
proof -
  have ok: "entryOK w e en" using storeInvD(4) [OF inv _ en] by simp
  then show "inStore w e en" using fl by (auto simp: entryOK_def flagsOK_def)
  with ok show "w_attachments w (en_session en) = Some e" by (simp add: entryOK_def)
qed

lemma appendBegin_inv:
  assumes inv: "storeInv w" and a: "appendBegin w s now data meta = (w', r)"
  shows "storeInv w'"
proof (cases "w_sessions w s")
  case None
  then show ?thesis using a inv by (simp add: appendBegin_def)
next
  case (Some S)
  have sinv: "sessionInv S" using storeInvD(7) [OF inv Some] by simp
  define entry where "entry = Option.bind (w_attachments w s) (\<lambda>e. map_option (Pair e) (w_entries w e))"
  define busy where "busy = (case entry of None \<Rightarrow> False | Some (_, en) \<Rightarrow> en_appending en)"
  obtain S' q where p: "prepareAppend S busy now data meta = (S', q)" by fastforce
  note pa = prepareAppend_inv [OF sinv p] and hd = prepareAppend_header [OF p]
  have S': "storeInv (setSession w s S')"
    by (rule setSession_inv [OF inv Some]) (simp_all add: pa(1,2) sessionId_def hd)
  show ?thesis
  proof (cases q)
    case (Inl err)
    then show ?thesis
      using a S' p Some by (simp add: appendBegin_def Let_def entry_def [symmetric] busy_def [symmetric])
  next
    case (Inr ev)
    then have commit: "sessionInv (commitAppend S' ev)" using pa(3) by blast
    show ?thesis
    proof (cases entry)
      case None
      have "w_attachments w s = None"
        using None storeInvD(3) [OF inv, of s] by (cases "w_attachments w s") (force simp: entry_def)+
      then have "\<forall>e en ev. w_entries w e = Some en \<longrightarrow> en_session en = s \<longrightarrow> w_flight w e \<noteq> Some (ev, False)"
        using flight_attached(1) [OF inv] by fastforce
      then have "storeInv (setSession w s (commitAppend S' ev))"
        using commit hd by (intro setSession_inv [OF inv Some]) (auto simp: sessionId_def)
      moreover have "busy = False" by (simp add: busy_def None)
      ultimately show ?thesis
        using a p Some Inr None
        by (simp add: appendBegin_def Let_def entry_def [symmetric])
    next
      case (Some p')
      then obtain e en where e: "entry = Some (e, en)" "w_attachments w s = Some e" "w_entries w e = Some en"
        by (cases p') (auto simp: entry_def bind_eq_Some_conv)
      have idle: "\<not> en_appending en" using prepareAppend_idle [of S busy now data meta S' ev] p Inr e(1)
        by (simp add: busy_def)
      let ?w = "setSession w s S'" and ?en = "en\<lparr>en_appending := True\<rparr>"
      have w': "w' = (setEntry ?w e ?en)\<lparr>w_flight := (w_flight w)(e \<mapsto> (ev, False))\<rparr>"
        using a p \<open>w_sessions w s = Some S\<close> Inr e(1) idle
        by (simp add: appendBegin_def Let_def entry_def [symmetric] busy_def)
      have en: "w_entries ?w e = Some en" using e(3) by (simp add: setSession_def)
      have ok: "entryOK ?w e en" using storeInvD(4) [OF S' _ en] by simp
      then have lt: "e < w_nextEntry ?w" by (simp add: entryOK_def)
      have sess: "en_session en = s" using storeInvD(3) [OF inv e(2)] e(3) by auto
      have but: "storeInvBut {e} ?w" using storeInvBut_mono [OF S'] by simp
      have "storeInvBut {e} w'"
        by (rule update_entry_inv [OF but en lt, where es = "[]" and fl = "Some (ev, False)"
              and b = "w_entered ?w e" and en' = ?en]) (simp_all add: w' setEntry_def setSession_def)
      moreover have "entryOK w' e ?en"
        using ok idle sess e(2) commit
        by (auto simp: w' entryOK_def flagsOK_def inStore_def setEntry_def edgesOf_def setSession_def
            flightOK_def sessionInv_def)
      ultimately show ?thesis by (rule storeInv_all) (simp add: w' setEntry_def)
    qed
  qed
qed

lemma appendCommit_inv:
  assumes inv: "storeInv w"
  shows "storeInv (appendCommit w e)"
proof (cases "\<exists>ev en S. w_flight w e = Some (ev, False) \<and> w_entries w e = Some en
    \<and> w_sessions w (en_session en) = Some S")
  case False
  then have "appendCommit w e = w"
    by (auto simp: appendCommit_def split: option.splits bool.splits)
  then show ?thesis using inv by simp
next
  case True
  then obtain ev en S where fl: "w_flight w e = Some (ev, False)" and en: "w_entries w e = Some en"
    and S: "w_sessions w (en_session en) = Some S" by blast
  have ok: "entryOK w e en" using storeInvD(4) [OF inv _ en] by simp
  then have lt: "e < w_nextEntry w" by (simp add: entryOK_def)
  obtain st where st: "surfaceLog (s_log S @ [ev]) = Inr st"
    using ok S fl by (auto simp: entryOK_def flightOK_def)
  let ?w = "w\<lparr>w_flight := (w_flight w)(e \<mapsto> (ev, True)), w_edges := w_edges w @ [Published e ev]\<rparr>"
  have but: "storeInvBut {e} w" using storeInvBut_mono [OF inv] by simp
  have "storeInvBut {e} ?w"
    by (rule update_entry_inv [OF but en lt, where es = "[Published e ev]" and fl = "Some (ev, True)"
          and b = "w_entered w e" and en' = en]) (use en in \<open>simp_all add: setEntry_def fun_upd_idem\<close>)
  moreover have "entryOK ?w e en"
    using ok fl by (auto simp: entryOK_def flagsOK_def inStore_def edgesOf_def flightOK_def)
  ultimately have inv1: "storeInv ?w" using en by (intro storeInv_all) auto
  have "w_flight ?w e' \<noteq> Some (ev', False)"
    if "w_entries ?w e' = Some en'" "en_session en' = en_session en" for e' en' ev'
    using flight_attached(1) [OF inv1 that(1)] flight_attached(1) [OF inv1, of e en] en that(2)
    by (cases "e' = e") auto
  then have "storeInv (setSession ?w (en_session en) (commitAppend S ev))"
    using commit_inv [OF _ st] storeInvD(7) [OF inv S] S
    by (intro setSession_inv [OF inv1]) (auto simp: sessionId_def)
  moreover have "appendCommit w e = setSession ?w (en_session en) (commitAppend S ev)"
    using fl en S by (simp add: appendCommit_def setSession_def)
  ultimately show ?thesis by simp
qed

lemma addSession_inv:
  assumes inv: "storeInv w" and S: "sessionInv S"
  shows "storeInv (w\<lparr>w_sessions := (w_sessions w)(w_nextSession w \<mapsto> S),
      w_nextSession := Suc (w_nextSession w)\<rparr>)" (is "storeInv ?w")
proof -
  have same: "w_entries ?w = w_entries w" "w_store ?w = w_store w" "w_attachments ?w = w_attachments w"
    "w_nextEntry ?w = w_nextEntry w" "w_entered ?w = w_entered w" "w_flight ?w = w_flight w"
    "edgesOf ?w = edgesOf w" "inStore ?w = inStore w"
    by (simp_all add: edgesOf_def inStore_def fun_eq_iff)
  have "entryOK ?w e en" if en: "w_entries w e = Some en" for e en
  proof -
    have ok: "entryOK w e en" using storeInvD(4) [OF inv _ en] by simp
    then have "en_session en \<noteq> w_nextSession w"
      using storeInvD(7) [OF inv] by (fastforce simp: entryOK_def)
    then show ?thesis by (intro entryOK_frame [OF ok]) (simp_all add: same)
  qed
  then show ?thesis
    using storeInvD(1-3,5-7) [OF inv] S unfolding storeInvBut_def same
    by (auto split: if_splits intro: less_SucI)
qed

lemma counter_inv:
  assumes inv: "storeInv w"
  shows "storeInv (w\<lparr>w_counter := c\<rparr>)" (is "storeInv ?w")
proof -
  have same: "edgesOf ?w = edgesOf w" "inStore ?w = inStore w"
    by (simp_all add: edgesOf_def inStore_def fun_eq_iff)
  have "entryOK ?w e en = entryOK w e en" for e en by (simp add: entryOK_def same)
  with inv show ?thesis by (simp add: storeInvBut_def same)
qed

lemma newSession_inv: "newSession payload sid now mode seed header = Inr S \<Longrightarrow> sessionInv S"
  using newSession_shape by blast

lemma prepare_inv:
  assumes inv: "storeInv w" and p: "prepare payload w now i options = (w', r)"
  shows "storeInv w'"
proof -
  obtain w1 sid where w1: "(case i of Some i \<Rightarrow> (w, i)
      | None \<Rightarrow> (case mintId (Suc (length (map fst (w_store w)))) (w_counter w) (map fst (w_store w)) of
           Some (c, i) \<Rightarrow> (w\<lparr>w_counter := c\<rparr>, i) | None \<Rightarrow> (w, []))) = (w1, sid)"
    by (metis surj_pair)
  have inv1: "storeInv w1"
    using w1 inv by (auto simp: counter_inv split: option.splits)
  obtain q where q: "(case options of
                    StoredSession seed meta \<Rightarrow>
                      newSession payload sid now Restore (Some (map Some seed)) (Some (Some meta))
                  | FreshSession seed meta \<Rightarrow>
                      newSession payload sid now Snapshot seed (Some (creationHeader sid now meta))) = q"
    by blast
  have "sessionInv S" if "q = Inr S" for S
    using q that by (auto split: prepare_options.splits dest: newSession_inv)
  then show ?thesis
    using p inv1 addSession_inv [OF inv1] unfolding prepare_def Let_def w1 prod.case q
    by (auto simp: addSession_def split: if_splits sum.splits)
qed

lemma enter_inv:
  assumes inv: "storeInv w" and a: "enter w s = (w', r)"
  shows "storeInv w'"
proof (cases r)
  case (Inl err)
  then have "w' = w" using a by (auto simp: enter_def Let_def split: option.splits if_splits)
  then show ?thesis using inv by simp
next
  case (Inr e)
  then obtain S where S: "w_sessions w s = Some S" and free: "map_of (w_store w) (sessionId S) = None"
    and loose: "w_attachments w s = None" and e: "e = w_nextEntry w"
    and w': "w' = (setEntry w e \<lparr>en_sid = sessionId S, en_session = s, en_announced = False,
        en_announcing = False, en_appending = False, en_detachRequested = False\<rparr>)
        \<lparr>w_nextEntry := Suc e, w_store := mapSet (w_store w) (sessionId S) e,
         w_attachments := (w_attachments w)(s \<mapsto> e), w_entered := (w_entered w)(e := True)\<rparr>"
    using a by (auto simp: enter_def Let_def split: option.splits if_splits)
  define en where "en = \<lparr>en_sid = sessionId S, en_session = s, en_announced = False,
        en_announcing = False, en_appending = False, en_detachRequested = False\<rparr>"
  have fresh: "w_entries w e = None" using storeInvD(6) [OF inv] e by simp
  have entries: "w_entries w' = (w_entries w)(e \<mapsto> en)" by (simp add: w' setEntry_def en_def)
  have edges: "edgesOf w' = edgesOf w" by (simp add: w' setEntry_def edgesOf_def fun_eq_iff)
  have self: "entryOK w' e en"
    using S storeInvD(5) [OF inv fresh]
    by (simp add: entryOK_def edges)
      (simp add: en_def flagsOK_def inStore_def flightOK_def w' setEntry_def)
  have other: "entryOK w' e' en'" if e': "w_entries w e' = Some en'" for e' en'
  proof -
    have ok: "entryOK w e' en'" using storeInvD(4) [OF inv _ e'] by simp
    have ne: "e' \<noteq> e" using e' fresh by auto
    show ?thesis
    proof (rule entryOK_frame [OF ok])
      show "inStore w' e' en' = inStore w e' en'"
        using free ne by (auto simp: inStore_def w' setEntry_def)
      show "(w_attachments w' (en_session en') = Some e') = (w_attachments w (en_session en') = Some e')"
        using loose ne by (auto simp: w' setEntry_def)
    qed (use ne edges in \<open>auto simp: w' setEntry_def e\<close>)
  qed
  show ?thesis
    unfolding storeInvBut_def
  proof (intro conjI allI impI)
    show "distinct (map fst (w_store w'))"
      using distinct_mapSet [OF storeInvD(1) [OF inv]] by (simp add: w' setEntry_def)
  next
    fix sid e' assume "map_of (w_store w') sid = Some e'"
    then have "(sid = sessionId S \<and> e' = e) \<or> map_of (w_store w) sid = Some e'"
      by (auto simp: w' setEntry_def split: if_splits)
    with storeInvD(2) [OF inv, of sid e'] fresh
    show "\<exists>en. w_entries w' e' = Some en \<and> en_sid en = sid" by (auto simp: entries en_def)
  next
    fix t e' assume "w_attachments w' t = Some e'"
    then have "(t = s \<and> e' = e) \<or> w_attachments w t = Some e'"
      by (auto simp: w' setEntry_def split: if_splits)
    with storeInvD(3) [OF inv, of t e'] fresh
    show "\<exists>en. w_entries w' e' = Some en \<and> en_session en = t" by (auto simp: entries en_def)
  next
    fix e' en' assume "w_entries w' e' = Some en'"
    then show "entryOK w' e' en'" using self other by (auto simp: entries split: if_splits)
  next
    fix e' assume "w_entries w' e' = None"
    then have "e' \<noteq> e" "w_entries w e' = None" by (auto simp: entries split: if_splits)
    with storeInvD(5) [OF inv, of e'] show "edgesOf w' e' = []" "w_flight w' e' = None"
      "\<not> w_entered w' e'" by (auto simp: edges) (auto simp: w' setEntry_def)
  next
    fix e' assume "w_nextEntry w' \<le> e'"
    then have "Suc e \<le> e'" by (simp add: w' setEntry_def)
    with storeInvD(6) [OF inv, of e'] e show "w_entries w' e' = None" by (simp add: entries)
  next
    fix t S assume "w_sessions w' t = Some S"
    with storeInvD(7) [OF inv, of t S] show "sessionInv S" "t < w_nextSession w'"
      by (auto simp: w' setEntry_def)
  qed
qed

lemma read_inv:
  assumes inv: "storeInv w" and S: "w_sessions w s = Some S"
    and S': "S' \<in> {fst (getEvents S), fst (requestHeader S), fst (requestContext S), fst (deriveMessages S)}"
  shows "storeInv (setSession w s S')"
proof -
  have sinv: "sessionInv S" using storeInvD(7) [OF inv S] by simp
  then obtain st where st: "surfaceLog (s_log S) = Inr st" by (auto simp: sessionInv_def)
  have "sessionInv S' \<and> s_log S' = s_log S"
    using S' getEvents_inv [OF sinv prod.collapse [symmetric]]
      requestHeader_inv [OF sinv prod.collapse [symmetric]]
      requestContext_inv [OF sinv prod.collapse [symmetric]]
      deriveMessages_inv [OF sinv st prod.collapse [symmetric]] by auto
  moreover have "s_header S' = s_header S"
    using S' by (auto simp: getEvents_def requestHeader_def requestContext_def deriveMessages_def
        Let_def split: option.splits prod.splits sum.splits)
  ultimately show ?thesis
    by (intro setSession_inv [OF inv S]) (simp_all add: sessionId_def)
qed

lemma storeInv_step: "store_step payload w w' \<Longrightarrow> storeInv w \<Longrightarrow> storeInv w'"
  by (induction rule: store_step.induct)
    (blast intro: prepare_inv enter_inv detach_inv announceBegin_inv announceEnd_inv appendBegin_inv
      appendCommit_inv appendEnd_inv read_inv)+

lemma reach_inv: "store_reach payload w \<Longrightarrow> storeInv w"
  by (induction rule: store_reach.induct) (use storeInv_start storeInv_step in blast)+

section \<open>A sample run\<close>

definition sample_entered :: store_state where
  "sample_entered = fst (enter (fst (prepare sample_payload emptyStore 0 (Some ''s'')
     (FreshSession None (\<lambda>_. None)))) 0)"

definition sample_announcing :: store_state where
  "sample_announcing = fst (announceBegin sample_entered 0)"

definition sample_world :: store_state where
  "sample_world = announceEnd sample_announcing 0"

definition sample_pending :: store_state where
  "sample_pending = fst (appendBegin sample_world 0 0 (Some (ev_data (sample_user 0)))
     (Some (Some (JStr ''append''), None)))"

definition sample_done :: store_state where
  "sample_done = appendEnd (appendCommit sample_pending 0) 0"

lemma sample_announcing_reach: "store_reach sample_payload sample_announcing"
  unfolding sample_announcing_def sample_entered_def
  by (rule store_reach.step, rule store_reach.step, rule store_reach.step, rule store_reach.start,
      rule store_step.prepared [OF prod.collapse [symmetric]],
      rule store_step.entered [OF prod.collapse [symmetric]],
      rule store_step.announce_begin [OF prod.collapse [symmetric]])

lemma announce_end_step:
  "map_option en_announcing (w_entries w e) = Some True \<Longrightarrow> store_step payload w (announceEnd w e)"
  by (auto intro: store_step.announce_end)

lemma sample_world_reach: "store_reach sample_payload sample_world"
  unfolding sample_world_def
  by (rule store_reach.step [OF sample_announcing_reach], rule announce_end_step) code_simp

lemma sample_pending_reach: "store_reach sample_payload sample_pending"
  unfolding sample_pending_def
  by (rule store_reach.step [OF sample_world_reach
        store_step.append_begin [OF prod.collapse [symmetric]]])

lemma sample_done_reach: "store_reach sample_payload sample_done"
proof -
  have "store_reach sample_payload (appendCommit sample_pending 0)"
    by (rule store_reach.step [OF sample_pending_reach store_step.append_commit])
  moreover have "map_option snd (w_flight (appendCommit sample_pending 0) 0) = Some True" by code_simp
  then have "w_flight (appendCommit sample_pending 0) 0 \<noteq> None" by auto
  ultimately show ?thesis
    unfolding sample_done_def using store_reach.step store_step.append_end by blast
qed

section \<open>Lifecycle\<close>

text \<open>
  Claim C9: the lifecycle notifications are paired. In every reachable state, with any
  interleaving of re-entrant listeners, an entry has emitted its creation at most once, its
  disposal exactly when it was announced and has left the store, and never before; an entry is
  attached exactly as long as it is in the store, a detach that was requested while listeners ran
  is still pending only while they run, and an entry whose detach capability was used is gone as
  soon as they have unwound.
\<close>

theorem store_lifecycle:
  assumes "store_reach payload w" and "w_entries w e = Some en"
  shows "edgesOf w e = (if en_announced en then [Created e] else [])
          @ (if en_announced en \<and> \<not> inStore w e en then [Disposed e] else [])
     \<and> (inStore w e en \<longleftrightarrow> w_attachments w (en_session en) = Some e)
     \<and> (en_detachRequested en \<longrightarrow> inStore w e en \<and> (en_announcing en \<or> en_appending en))
     \<and> (\<not> w_entered w e \<and> \<not> en_announcing en \<and> \<not> en_appending en \<longrightarrow> \<not> inStore w e en)"
proof -
  have "entryOK w e en" using storeInvD(4) [OF reach_inv [OF assms(1)] _ assms(2)] by simp
  then show ?thesis by (auto simp: entryOK_def flagsOK_def)
qed

theorem store_lifecycle_witness:
  "edgesOf (announceEnd (detach sample_announcing 0) 0) 0 = [Created 0, Disposed 0]"
proof -
  let ?w = "announceEnd (detach sample_announcing 0) 0"
  have r: "store_reach sample_payload (detach sample_announcing 0)"
    by (rule store_reach.step [OF sample_announcing_reach store_step.detached])
  have "map_option en_announcing (w_entries (detach sample_announcing 0) 0) = Some True" by code_simp
  then have reach: "store_reach sample_payload ?w"
    by (intro store_reach.step [OF r] announce_end_step)
  have "map_option (\<lambda>en. (en_announced en, inStore ?w 0 en)) (w_entries ?w 0) = Some (True, False)"
    by code_simp
  then obtain en where en: "w_entries ?w 0 = Some en" "en_announced en" "\<not> inStore ?w 0 en" by auto
  from store_lifecycle [OF reach en(1)] en(2,3) show ?thesis by simp
qed

lemma reentered_append:
  assumes "en_appending en" and "w_attachments w s = Some e" and "w_entries w e = Some en"
    and "w_sessions w s = Some S" and "appendBegin w s now data meta = (w', r')"
  shows "\<exists>err. r' = Inl (SessionFailed err) \<and> s_log (the (w_sessions w' s)) = s_log S"
proof -
  obtain S' q where p: "prepareAppend S True now data meta = (S', q)" by fastforce
  then obtain err where "q = Inl err" using prepareAppend_idle by (cases q) blast+
  moreover have "s_log S' = s_log S"
    using p by (auto simp: prepareAppend_def split: option.splits sum.splits)
  ultimately show ?thesis
    using assms p by (auto simp: appendBegin_def Let_def setSession_def)
qed

text \<open>
  Claim C8: a session has one writer. While an append is in flight, whatever its listeners did in
  between, the candidate still has the next sequence number and is still accepted by the surface,
  every other append to the session is rejected without touching the log, and the commit adds
  exactly the candidate.
\<close>

theorem append_in_flight:
  assumes "store_reach payload w" and "w_flight w e = Some (ev, False)"
  shows "\<exists>en S st. w_entries w e = Some en \<and> w_sessions w (en_session en) = Some S
     \<and> seq ev = length (s_log S) \<and> surfaceLog (s_log S @ [ev]) = Inr st
     \<and> s_log (the (w_sessions (appendCommit w e) (en_session en))) = s_log S @ [ev]
     \<and> (\<forall>now data meta w' r'. appendBegin w (en_session en) now data meta = (w', r') \<longrightarrow>
          (\<exists>err. r' = Inl (SessionFailed err))
          \<and> s_log (the (w_sessions w' (en_session en))) = s_log S)"
proof -
  note inv = reach_inv [OF assms(1)]
  obtain en where en: "w_entries w e = Some en" "entryOK w e en"
    using storeInvD(4,5) [OF inv, of e] assms(2) by (cases "w_entries w e") auto
  then obtain S st where S: "w_sessions w (en_session en) = Some S"
    and st: "surfaceLog (s_log S @ [ev]) = Inr st"
    using assms(2) by (auto simp: entryOK_def flightOK_def)
  have app: "en_appending en" "w_attachments w (en_session en) = Some e"
    using en assms(2) by (auto simp: entryOK_def flagsOK_def)
  have "seq ev = length (s_log S)" using surfaceLog_seq [OF st, of "length (s_log S)"] by simp
  moreover have "s_log (the (w_sessions (appendCommit w e) (en_session en))) = s_log S @ [ev]"
    using assms(2) en(1) S by (simp add: appendCommit_def setSession_def)
  ultimately show ?thesis
    using en(1) S st reentered_append [OF app en(1) S] by blast
qed

theorem append_in_flight_witness:
  "\<exists>en S. w_entries sample_pending 0 = Some en \<and> w_sessions sample_pending (en_session en) = Some S
     \<and> seq (sample_user 0) = length (s_log S)
     \<and> s_log (the (w_sessions (appendCommit sample_pending 0) (en_session en))) = s_log S @ [sample_user 0]"
proof -
  have "w_flight sample_pending 0 = Some (sample_user 0, False)" by code_simp
  from append_in_flight [OF sample_pending_reach this] show ?thesis by blast
qed

section \<open>Forks\<close>

lemma boundary_tracks_turn:
  assumes "runR traceStep freshTrace es = Inr t"
  shows "openTurn t = (case find (\<lambda>e. isTurnBoundary (ev_data e)) (rev es) of
        None \<Rightarrow> None
      | Some e \<Rightarrow> (case ev_data e of TurnStart turn \<Rightarrow> Some turn | _ \<Rightarrow> None))"
  using assms
proof (induction es arbitrary: t rule: rev_induct)
  case Nil
  then show ?case by (auto simp: freshTrace_def)
next
  case (snoc e es)
  then obtain t0 where t0: "runR traceStep freshTrace es = Inr t0" "traceStep t0 e = Inr t"
    by (auto simp: runR_snoc result_simps)
  from t0(2) snoc.IH [OF t0(1)] show ?case
    by (cases "ev_data e") (auto simp: trace_defs result_simps Let_def split: if_splits)
qed

text \<open>
  Result: the boundary rule of a fork is exact. For an accepted log, a boundary inside the log is
  refused exactly when the trace of the prefix has an open turn, with that turn in the error;
  otherwise the child gets the prefix up to and with the boundary.
\<close>

theorem fork_boundary_exact:
  assumes "seedTrace (take (b + 1) events) = Inr t" and "surfaceLog events = Inr st"
    and "b < length events" and "safeInt (int b)"
  shows "forkSeed events (Some (of_nat b)) =
     (case openTurn t of None \<Rightarrow> Inr (take (b + 1) events) | Some turn \<Rightarrow> Inl (ForkOpenTurn turn))"
proof -
  have "seq (events ! b) = b" using surfaceLog_seq [OF assms(2,3)] .
  moreover have "nonNegSafeInt (JNum (of_nat b)) = Some b" using assms(4) by simp
  ultimately show ?thesis
    using boundary_tracks_turn [of "take (b + 1) events" t] assms(1,3)
    by (auto simp: forkSeed_def seedTrace_def Let_def split: option.splits event_data.splits)
qed

lemma forkSeed_prefix:
  assumes "forkSeed events b = Inr seed" and "seedTrace events = Inr t"
  shows "\<exists>n t'. seed = take n events \<and> n \<le> length events \<and> seedTrace seed = Inr t' \<and> openTurn t' = None"
proof (cases "b = None \<and> events = []")
  case True
  then show ?thesis using assms by (auto simp: forkSeed_def seedTrace_def freshTrace_def)
next
  case False
  then obtain k where k: "seed = take (k + 1) events" "k < length events"
    and closes: "\<forall>e. find (\<lambda>e. isTurnBoundary (ev_data e)) (rev seed) = Some e \<longrightarrow>
      (\<forall>turn. ev_data e \<noteq> TurnStart turn)"
    using assms(1) unfolding forkSeed_def Let_def
    by (auto split: option.splits if_splits event_data.splits)
  obtain t' where t': "runR traceStep freshTrace seed = Inr t'"
    using trace.prefix_state [of seed "drop (k + 1) events" t] assms(2)
    by (metis append_take_drop_id k(1) seedTrace_def)
  from boundary_tracks_turn [OF t'] closes have "openTurn t' = None"
    by (auto split: option.splits event_data.splits)
  with k t' show ?thesis by (intro exI [of _ "k + 1"]) (auto simp: seedTrace_def)
qed

lemma create_session:
  assumes "create payload w now i options veto = (w', Inr s)"
  shows "\<exists>w1 S. prepare payload w now i options = (w1, Inr s) \<and> w_sessions w1 s = Some S
    \<and> w_sessions w' = w_sessions w1"
proof -
  obtain w1 s1 where p: "prepare payload w now i options = (w1, Inr s1)"
    using assms by (auto simp: create_def split: prod.splits sum.splits)
  then obtain w2 e where e: "enter w1 s1 = (w2, Inr e)"
    using assms by (auto simp: create_def split: prod.splits sum.splits)
  then obtain w3 e' where a: "announceBegin w2 s1 = (w3, Inr e')"
    using assms p by (auto simp: create_def split: prod.splits sum.splits)
  have s: "s1 = s" "w' = announceEnd w3 e"
    using assms p e a by (auto simp: create_def Let_def split: if_splits)
  have "w_sessions w2 = w_sessions w1" "w_sessions w1 s1 \<noteq> None"
    using e by (auto simp: enter_def Let_def setEntry_def split: option.splits if_splits)
  moreover have "w_sessions w3 = w_sessions w2"
    using a by (auto simp: announceBegin_def setEntry_def split: option.splits if_splits sum.splits)
  moreover have "w_sessions (announceEnd w3 e) = w_sessions w3"
    by (simp add: announceEnd_def detachEntered_def setEntry_def Let_def split: option.split)
  ultimately show ?thesis using p s by auto
qed

lemma prepare_session:
  assumes "prepare payload w now i (FreshSession seed meta) = (w', Inr s)"
  shows "\<exists>sid S. newSession payload sid now Snapshot seed (Some (creationHeader sid now meta)) = Inr S
    \<and> w_sessions w' = (w_sessions w)(s \<mapsto> S) \<and> s = w_nextSession w
    \<and> sid \<notin> set (map fst (w_store w)) \<and> (\<forall>j. i = Some j \<longrightarrow> sid = j)"
proof -
  obtain w1 sid where w1: "(case i of Some i \<Rightarrow> (w, i)
      | None \<Rightarrow> (case mintId (Suc (length (map fst (w_store w)))) (w_counter w) (map fst (w_store w)) of
           Some (c, i) \<Rightarrow> (w\<lparr>w_counter := c\<rparr>, i) | None \<Rightarrow> (w, []))) = (w1, sid)"
    by (metis surj_pair)
  have same: "w_sessions w1 = w_sessions w" "w_nextSession w1 = w_nextSession w"
    and "\<forall>j. i = Some j \<longrightarrow> sid = j"
    using w1 by (auto split: option.splits)
  moreover obtain q where q: "newSession payload sid now Snapshot seed (Some (creationHeader sid now meta)) = q"
    by blast
  moreover have "sid \<notin> set (map fst (w_store w))" and "q \<noteq> Inl err" for err
    using assms unfolding prepare_def Let_def w1 prod.case prepare_options.case q
    by (auto split: if_splits)
  moreover obtain S where "q = Inr S" using \<open>\<And>err. q \<noteq> Inl err\<close> by (cases q) auto
  moreover have "w' = fst (addSession w1 S)" "s = snd (addSession w1 S)"
    using assms unfolding prepare_def Let_def w1 prod.case prepare_options.case q \<open>q = Inr S\<close>
    by (auto split: if_splits prod.splits)
  ultimately show ?thesis by (auto simp: addSession_def)
qed

lemma trace_endSeed:
  "seedTrace lg = Inr t \<Longrightarrow> surfaceLog lg = Inr st \<Longrightarrow>
     \<exists>t'. seedTrace (lg @ seedMarker now seed lg) = Inr t' \<and> openTurn t' = openTurn t"
proof -
  assume t: "seedTrace lg = Inr t" and st: "surfaceLog lg = Inr st"
  have "lastSeq t < int (length lg)"
  proof (cases "lg = []")
    case True
    then show ?thesis using t by (auto simp: seedTrace_def freshTrace_def)
  next
    case False
    then have "seq (last lg) = length lg - 1"
      using surfaceLog_seq [OF st, of "length lg - 1"] by (simp add: last_conv_nth)
    with False show ?thesis
      using scan_follows_trace [of lg t] t by (simp add: seedTrace_def)
  qed
  then show ?thesis
    using t by (auto simp: seedMarker_def seedTrace_def runR_snoc trace_defs)
qed

lemma newSession_meta:
  assumes "newSession payload sid now Snapshot seed (Some (creationHeader sid now meta)) = Inr S"
  shows "validateSessionHeader sid (the (creationHeader sid now meta)) = Inr (s_header S)"
    and "creationHeader sid now meta \<noteq> None"
  using newSession_shape [OF assms]
  by (auto simp: headerResult_def snapshotSessionHeader_def split: option.splits)

lemma validateSessionHeader_fields:
  assumes "validateSessionHeader sid j = Inr h"
  shows "optionalField strOf HeaderCwdType ''cwd'' j = Inr (sh_cwd h)"
    and "optionalField strOf HeaderParentType ''parentSession'' j = Inr (sh_parentSession h)"
    and "optionalField nonNegSafeInt HeaderSeedLength ''seedLength'' j = Inr (sh_seedLength h)"
    and "sh_id h = sid"
  using assms
  by (auto simp: validateSessionHeader_def bindR_Inr_iff split: if_splits option.splits)

definition forkMeta :: "session \<Rightarrow> nat \<Rightarrow> session_meta" where
  "forkMeta S n =
     (\<lambda>k. if k = ''cwd'' then map_option (\<lambda>p. Some (JStr p)) (sh_cwd (s_header S))
          else if k = ''parentSession'' then Some (Some (JStr (sessionId S)))
          else if k = ''seedLength'' then Some (Some (JNum (of_nat n)))
          else None)"

lemma forkHeader:
  assumes "validateSessionHeader sid (the (creationHeader sid now (forkMeta S n))) = Inr h"
  shows "sh_parentSession h = Some (sessionId S)" and "sh_seedLength h = Some n"
    and "sh_cwd h = sh_cwd (s_header S)"
proof -
  have j: "jprop ''parentSession'' (the (creationHeader sid now (forkMeta S n))) = Some (JStr (sessionId S))"
    "jprop ''seedLength'' (the (creationHeader sid now (forkMeta S n))) = Some (JNum (of_nat n))"
    "jprop ''cwd'' (the (creationHeader sid now (forkMeta S n))) = map_option JStr (sh_cwd (s_header S))"
    by (cases "sh_cwd (s_header S)"; simp add: creationHeader_def forkMeta_def metaKeys_def Let_def)+
  note f = validateSessionHeader_fields [OF assms]
  show "sh_parentSession h = Some (sessionId S)" "sh_seedLength h = Some n"
    "sh_cwd h = sh_cwd (s_header S)"
    using f(1-3) unfolding optionalField_def j
    by (auto split: option.splits if_splits)
qed

text \<open>
  Claim C10: what a fork gives. The child is a new session whose log is a prefix of the source's log
  (with the end-of-seed marker where the prefix has none), the relational invariants accept that
  log and no turn is open in it, the header names the parent, the prefix length and the working
  directory, and the source keeps its log.
\<close>

theorem fork_child:
  assumes "store_reach payload w" and "fork payload encode w now src b child veto = (w', Inr s')"
    and "resolveForkSource w src = Inr s" and "w_sessions w s = Some S"
    and "stores payload encode (s_log S)" and "seedTrace (s_log S) = Inr t"
  shows "\<exists>S' n t'. w_sessions w' s' = Some S' \<and> s' \<noteq> s \<and> n \<le> length (s_log S)
     \<and> s_log S' = take n (s_log S) @ seedMarker now (Some []) (take n (s_log S))
     \<and> seedTrace (s_log S') = Inr t' \<and> openTurn t' = None
     \<and> sh_parentSession (s_header S') = Some (sessionId S)
     \<and> sh_seedLength (s_header S') = Some n \<and> sh_cwd (s_header S') = sh_cwd (s_header S)
     \<and> map_option s_log (w_sessions w' s) = Some (s_log S)"
proof -
  have sinv: "sessionInv S" and lt: "s < w_nextSession w"
    using storeInvD(7) [OF reach_inv [OF assms(1)] assms(4)] by simp_all
  obtain S1 events where ev: "getEvents S = (S1, events)" by fastforce
  have events: "events = s_log S" "s_log S1 = s_log S"
    using getEvents_inv(2,3) [OF sinv ev] by simp_all
  obtain seed where seed: "forkSeed (s_log S) b = Inr seed"
    and cr: "create payload (setSession w s S1) now child
      (FreshSession (Some (map (\<lambda>e. Some (encode e)) seed)) (forkMeta S (length seed))) veto = (w', Inr s')"
    using assms(2-4) ev events
    by (auto simp: fork_def forkMeta_def split: option.splits sum.splits)
  obtain n t' where n: "seed = take n (s_log S)" "n \<le> length (s_log S)" "seedTrace seed = Inr t'"
    "openTurn t' = None" using forkSeed_prefix [OF seed assms(6)] by blast
  obtain w1 where p: "prepare payload (setSession w s S1) now child
      (FreshSession (Some (map (\<lambda>e. Some (encode e)) seed)) (forkMeta S (length seed))) = (w1, Inr s')"
    and same: "w_sessions w' = w_sessions w1" using create_session [OF cr] by blast
  obtain sid S' where new: "newSession payload sid now Snapshot (Some (map (\<lambda>e. Some (encode e)) seed))
      (Some (creationHeader sid now (forkMeta S (length seed)))) = Inr S'"
    and w1: "w_sessions w1 = (w_sessions (setSession w s S1))(s' \<mapsto> S')"
      "s' = w_nextSession (setSession w s S1)" using prepare_session [OF p] by blast
  from newSession_shape [OF new] obtain js where
    js: "map (\<lambda>e. Some (encode e)) seed = map Some js"
      "s_log S' = map (readEvent payload) js @
         seedMarker now (Some (map (\<lambda>e. Some (encode e)) seed)) (map (readEvent payload) js)"
      "sessionInv S'"
    unfolding Let_def seedList_def by auto
  have "map Some (map encode seed) = map Some js" using js(1) by (simp add: comp_def)
  then have "js = map encode seed" by (metis inj_Some inj_map_eq_map)
  moreover have "map (\<lambda>e. readEvent payload (encode e)) seed = seed"
    using assms(5) n(1) by (auto simp: stores_def list_all_iff intro!: map_idI dest: in_set_takeD)
  ultimately have lg: "s_log S' = seed @ seedMarker now (Some []) seed"
    using js(2) by (simp add: comp_def seedMarker_def)
  obtain st where "surfaceLog (s_log S') = Inr st" using js(3) by (auto simp: sessionInv_def)
  then obtain st' where "surfaceLog seed = Inr st'" unfolding lg by (rule surfaceLog_prefix)
  from trace_endSeed [OF n(3) this, of now "Some []"] obtain t2
    where t2: "seedTrace (s_log S') = Inr t2" "openTurn t2 = None"
    using n(4) by (auto simp: lg)
  have "w_sessions w' s' = Some S'" "s' \<noteq> s" "map_option s_log (w_sessions w' s) = Some (s_log S)"
    using same w1 lt events by (simp_all add: setSession_def)
  then show ?thesis
    using lg n t2 forkHeader [OF newSession_meta(1) [OF new]]
    by (intro exI [of _ S'] exI [of _ n] exI [of _ t2]) simp
qed

theorem fork_boundary_exact_witness:
  "forkSeed [plainEvent 0 0 (TurnStart 1), plainEvent 1 0 (TurnEnd 1 Completed)] (Some (of_nat 0))
     = Inl (ForkOpenTurn 1)"
proof -
  let ?es = "[plainEvent 0 0 (TurnStart 1), plainEvent 1 0 (TurnEnd 1 Completed)]"
  have t: "seedTrace (take (0 + 1) ?es) = Inr \<lparr>lastSeq = 0, openTurn = Some 1, openStep = None,
      nextTurn = 1, nextStep = 1, pendingCalls = []\<rparr>" by code_simp
  have s: "surfaceLog ?es = Inr createFoldState" by code_simp
  have b: "safeInt (int 0)" by code_simp
  from fork_boundary_exact [OF t s _ b] show ?thesis by simp
qed

theorem fork_child_witness:
  "\<exists>S' n. w_sessions (fst (fork sample_payload sample_json sample_done 3 (ById ''s'') None
        (Some ''c'') False)) 1 = Some S'
     \<and> s_log S' = take n [sample_user 0] @ seedMarker 3 (Some []) (take n [sample_user 0])
     \<and> sh_parentSession (s_header S') = Some ''s'' \<and> sh_seedLength (s_header S') = Some n"
proof -
  let ?f = "fork sample_payload sample_json sample_done 3 (ById ''s'') None (Some ''c'') False"
  have "snd ?f = Inr 1" by code_simp
  then have f: "?f = (fst ?f, Inr 1)" by (simp add: prod_eq_iff)
  have r: "resolveForkSource sample_done (ById ''s'') = Inr 0" by code_simp
  have "map_option (\<lambda>S. (s_log S, sessionId S)) (w_sessions sample_done 0) = Some ([sample_user 0], ''s'')"
    by code_simp
  then obtain S where S: "w_sessions sample_done 0 = Some S" "s_log S = [sample_user 0]"
    "sessionId S = ''s''" by auto
  have st: "stores sample_payload sample_json (s_log S)" unfolding S by code_simp
  have t: "seedTrace (s_log S) = Inr (freshTrace\<lparr>lastSeq := 0\<rparr>)" unfolding S by code_simp
  from fork_child [OF sample_done_reach f r S(1) st t] show ?thesis unfolding S by blast
qed

end
