(* ===== verification/Component_Append.thy ===== *)
theory Component_Append
  imports Session_Live
begin

text \<open>
  How a component appends to the session it works on: \<^verbatim>\<open>session.append(type, data, opts)\<close>, of a
  session whose store entry is not in the middle of another append; \<open>logAppend\<close> is the form
  without surface metadata. The parameter \<open>veto\<close> says that the dispatch of the event is vetoed.
\<close>

datatype append_error = AppendFailed session_error | AppendVetoed

definition appendWith ::
  "session \<Rightarrow> int \<Rightarrow> bool \<Rightarrow> event_data option \<Rightarrow> (json option \<times> json option) option
    \<Rightarrow> session \<times> (append_error + event)" where
  "appendWith S now veto data meta =
     (case prepareAppend S False now data meta of
        (S', Inl err) \<Rightarrow> (S', Inl (AppendFailed err))
      | (S', Inr ev) \<Rightarrow> if veto then (S', Inl AppendVetoed) else (commitAppend S' ev, Inr ev))"

definition logAppend ::
  "session \<Rightarrow> int \<Rightarrow> bool \<Rightarrow> event_data option \<Rightarrow> session \<times> (append_error + event)" where
  "logAppend S now veto data = appendWith S now veto data (Some (None, None))"

lemma appendWith_Inr:
  "appendWith S now veto d meta = (S', Inr ev) \<Longrightarrow>
     s_log S' = s_log S @ [ev] \<and> s_header S' = s_header S \<and> d = Some (ev_data ev)
     \<and> seq ev = length (s_log S) \<and> time ev = now \<and> meta = Some (surfaceOp ev, sourceEventSeqs ev)
     \<and> \<not> ignorable ev"
  by (cases d; cases meta) (auto simp: appendWith_def prepareAppend_def commitAppend_def Let_def
      split: prod.splits sum.splits option.splits if_splits)

lemma appendWith_Inl:
  "appendWith S now veto d meta = (S', Inl err) \<Longrightarrow> s_log S' = s_log S \<and> s_header S' = s_header S"
  by (auto simp: appendWith_def prepareAppend_def Let_def
      split: prod.splits sum.splits option.splits if_splits)

lemma logAppend_Inr:
  "logAppend S now veto d = (S', Inr ev) \<Longrightarrow>
     s_log S' = s_log S @ [ev] \<and> d = Some (ev_data ev) \<and> s_header S' = s_header S"
  unfolding logAppend_def by (drule appendWith_Inr) simp

lemma logAppend_seq: "logAppend S now veto d = (S', Inr ev) \<Longrightarrow> seq ev = length (s_log S)"
  unfolding logAppend_def by (drule appendWith_Inr) simp

lemma logAppend_Inl:
  "logAppend S now veto d = (S', Inl err) \<Longrightarrow> s_log S' = s_log S \<and> s_header S' = s_header S"
  unfolding logAppend_def by (rule appendWith_Inl)

lemma appendWith_session:
  assumes "sessionInv S" and "appendWith S now veto d meta = (S', r)"
  shows "sessionInv S'"
proof -
  obtain S1 q where q: "prepareAppend S False now d meta = (S1, q)" by fastforce
  show ?thesis
    using assms(2) prepareAppend_inv(1,3) [OF assms(1) q]
    by (auto simp: appendWith_def q split: sum.splits if_splits)
qed

end
