(* ===== verification/Inbox.thy ===== *)
theory Inbox
  imports Component_Append
begin

text \<open>
  \<^verbatim>\<open>packages/core/agent/src/inbox.ts\<close>: the pending-message lists of an agent, kept as an
  incremental projection of durable splice events. An operation returns the inbox, the session it
  appends to, the live notifications it published and its result; an error leaves what was
  committed before it.
\<close>

section \<open>State\<close>

record inbox =
  ib_nextTurn :: "message list"
  ib_nextStep :: "message list"

datatype inbox_note =
    NoteInserted message
  | NoteDiscarded message
  | NoteClaimed message int

datatype inbox_error =
    InvalidSplice
  | AlreadyPending string
  | InvalidPersisted nat inbox_error
  | InboxAppend append_error

definition emptyInbox :: inbox where
  "emptyInbox = \<lparr>ib_nextTurn = [], ib_nextStep = []\<rparr>"

fun pending :: "inbox \<Rightarrow> inbox_target \<Rightarrow> message list" where
  "pending ib NextTurn = ib_nextTurn ib"
| "pending ib NextStep = ib_nextStep ib"

fun setPending :: "inbox \<Rightarrow> inbox_target \<Rightarrow> message list \<Rightarrow> inbox" where
  "setPending ib NextTurn ms = ib\<lparr>ib_nextTurn := ms\<rparr>"
| "setPending ib NextStep ms = ib\<lparr>ib_nextStep := ms\<rparr>"

definition hasPending :: "inbox \<Rightarrow> bool" where
  "hasPending ib \<longleftrightarrow> ib_nextTurn ib \<noteq> [] \<or> ib_nextStep ib \<noteq> []"

section \<open>Validation and replay\<close>

fun firstRepeated :: "string list \<Rightarrow> string list \<Rightarrow> string option" where
  "firstRepeated seen [] = None"
| "firstRepeated seen (x # xs) = (if x \<in> set seen then Some x else firstRepeated (x # seen) xs)"

definition validateSplice :: "inbox \<Rightarrow> inbox_splice \<Rightarrow> inbox_error + (nat \<times> nat)" where
  "validateSplice ib sp =
     (let box = pending ib (sp_target sp);
          removed = (case sp_removedCount sp of None \<Rightarrow> 0 | Some r \<Rightarrow> r)
      in case (nonNegSafeInt (JNum (sp_start sp)), nonNegSafeInt (JNum removed)) of
           (Some start, Some n) \<Rightarrow>
             if start > length box \<or> start + n > length box then Inl InvalidSplice
             else
               (let candidate = splice_list box start n (sp_inserted sp);
                    ids = map msg_id (case sp_target sp of
                            NextTurn \<Rightarrow> candidate @ ib_nextStep ib
                          | NextStep \<Rightarrow> ib_nextTurn ib @ candidate)
                in case firstRepeated [] ids of
                     Some i \<Rightarrow> Inl (AlreadyPending i)
                   | None \<Rightarrow> Inr (start, n))
         | _ \<Rightarrow> Inl InvalidSplice)"

definition applySplice :: "inbox \<Rightarrow> inbox_splice \<Rightarrow> inbox_error + inbox" where
  "applySplice ib sp =
     mapR (\<lambda>(start, n). setPending ib (sp_target sp)
             (splice_list (pending ib (sp_target sp)) start n (sp_inserted sp)))
       (validateSplice ib sp)"

definition replaySplice :: "inbox \<Rightarrow> event \<Rightarrow> inbox_error + inbox" where
  "replaySplice ib e =
     (case ev_data e of
        InboxSpliced sp \<Rightarrow> mapErr (InvalidPersisted (seq e)) (applySplice ib sp)
      | _ \<Rightarrow> Inr ib)"

text \<open>The constructor: the events a fork inherited are not this agent's input.\<close>

definition newInbox :: "session \<Rightarrow> inbox_error + inbox" where
  "newInbox S =
     runR replaySplice emptyInbox
       (drop (case sh_seedLength (s_header S) of None \<Rightarrow> 0 | Some n \<Rightarrow> n) (s_log S))"

section \<open>Splice coordinates\<close>

definition truncate :: "js_number \<Rightarrow> js_number" where
  "truncate x =
     (case x of
        Finite r \<Rightarrow> if r \<ge> 0 then Finite (of_int \<lfloor>r\<rfloor>)
                    else if r > -1 then NegZero else Finite (of_int \<lceil>r\<rceil>)
      | _ \<Rightarrow> x)"

text \<open>The resolved start, and whether it is the negative zero.\<close>

definition actualStart :: "js_number \<Rightarrow> nat \<Rightarrow> nat \<times> bool" where
  "actualStart start len =
     (case truncate start of
        NotANumber \<Rightarrow> (0, False)
      | NegZero \<Rightarrow> (0, True)
      | PlusInfinity \<Rightarrow> (len, False)
      | MinusInfinity \<Rightarrow> (0, False)
      | Finite r \<Rightarrow>
          (if r < 0 then (nat (max (int len + \<lfloor>r\<rfloor>) 0), False)
           else (nat (min \<lfloor>r\<rfloor> (int len)), False)))"

definition actualDeleteCount :: "js_number \<Rightarrow> nat \<Rightarrow> nat" where
  "actualDeleteCount count room =
     (case truncate count of
        PlusInfinity \<Rightarrow> room
      | Finite r \<Rightarrow> nat (min (max \<lfloor>r\<rfloor> 0) (int room))
      | _ \<Rightarrow> 0)"

section \<open>Mutation\<close>

definition normalizedSplice ::
  "inbox_target \<Rightarrow> nat \<Rightarrow> nat \<Rightarrow> message list \<Rightarrow> bool \<Rightarrow> inbox_splice" where
  "normalizedSplice target i n inserted discardRemoved =
     \<lparr>sp_target = target, sp_start = of_nat i,
      sp_removedCount = (if n = 0 then None else Some (of_nat n)),
      sp_inserted = inserted, sp_canceled = (discardRemoved \<and> n > 0)\<rparr>"

type_synonym inbox_state = "inbox \<times> session \<times> inbox_note list"

definition mutate ::
  "inbox_state \<Rightarrow> int \<Rightarrow> bool \<Rightarrow> inbox_target \<Rightarrow> js_number \<Rightarrow> js_number \<Rightarrow> message list \<Rightarrow> bool
    \<Rightarrow> inbox_state \<times> (inbox_error + message list)" where
  "mutate st now veto target start count inserted discardRemoved =
     (case st of (ib, S, notes) \<Rightarrow>
      let box = pending ib target;
          (i, negative) = actualStart start (length box);
          n = actualDeleteCount count (length box - i)
      in if n = 0 \<and> inserted = [] then (st, Inr [])
         else
           (let sp = normalizedSplice target i n inserted discardRemoved
            in case validateSplice ib sp of
                 Inl err \<Rightarrow> (st, Inl err)
               | Inr _ \<Rightarrow>
                   (case logAppend S now veto (if negative then None else Some (InboxSpliced sp)) of
                      (S', Inl err) \<Rightarrow> ((ib, S', notes), Inl (InboxAppend err))
                    | (S', Inr _) \<Rightarrow>
                        (let removed = spliced_out box i n
                         in ((setPending ib target (splice_list box i n inserted), S',
                              notes @ (if discardRemoved then map NoteDiscarded removed else [])
                                @ map NoteInserted inserted),
                             Inr removed)))))"

definition spliceInbox ::
  "inbox_state \<Rightarrow> int \<Rightarrow> bool \<Rightarrow> inbox_target \<Rightarrow> js_number \<Rightarrow> js_number \<Rightarrow> message list
    \<Rightarrow> inbox_state \<times> (inbox_error + message list)" where
  "spliceInbox st now veto target start count inserted =
     mutate st now veto target start count inserted True"

definition appendInbox ::
  "inbox_state \<Rightarrow> int \<Rightarrow> bool \<Rightarrow> inbox_target \<Rightarrow> message
    \<Rightarrow> inbox_state \<times> (inbox_error + message list)" where
  "appendInbox st now veto target m =
     spliceInbox st now veto target (Finite (of_nat (length (pending (fst st) target)))) (Finite 0) [m]"

definition prependInbox ::
  "inbox_state \<Rightarrow> int \<Rightarrow> bool \<Rightarrow> inbox_target \<Rightarrow> message
    \<Rightarrow> inbox_state \<times> (inbox_error + message list)" where
  "prependInbox st now veto target m = spliceInbox st now veto target (Finite 0) (Finite 0) [m]"

fun findIndex :: "('a \<Rightarrow> bool) \<Rightarrow> 'a list \<Rightarrow> nat option" where
  "findIndex p [] = None"
| "findIndex p (x # xs) = (if p x then Some 0 else map_option Suc (findIndex p xs))"

definition locate :: "inbox \<Rightarrow> string \<Rightarrow> (inbox_target \<times> nat) option" where
  "locate ib mid =
     (case findIndex (\<lambda>m. msg_id m = mid) (ib_nextTurn ib) of
        Some i \<Rightarrow> Some (NextTurn, i)
      | None \<Rightarrow> map_option (Pair NextStep) (findIndex (\<lambda>m. msg_id m = mid) (ib_nextStep ib)))"

definition replaceInbox ::
  "inbox_state \<Rightarrow> int \<Rightarrow> bool \<Rightarrow> string \<Rightarrow> message \<Rightarrow> inbox_state \<times> (inbox_error + bool)" where
  "replaceInbox st now veto mid m =
     (case locate (fst st) mid of
        None \<Rightarrow> (st, Inr False)
      | Some (target, i) \<Rightarrow>
          (case spliceInbox st now veto target (Finite (of_nat i)) (Finite 1) [m] of
             (st', r) \<Rightarrow> (st', mapR (\<lambda>_. True) r)))"

definition removeInbox ::
  "inbox_state \<Rightarrow> int \<Rightarrow> bool \<Rightarrow> string \<Rightarrow> inbox_state \<times> (inbox_error + bool)" where
  "removeInbox st now veto mid =
     (case locate (fst st) mid of
        None \<Rightarrow> (st, Inr False)
      | Some (target, i) \<Rightarrow>
          (case spliceInbox st now veto target (Finite (of_nat i)) (Finite 1) [] of
             (st', r) \<Rightarrow> (st', mapR (\<lambda>_. True) r)))"

text \<open>The two splices of \<^verbatim>\<open>clear\<close> and of \<^verbatim>\<open>claim\<close> are two appends, each with its own veto.\<close>

definition clearInbox ::
  "inbox_state \<Rightarrow> int \<Rightarrow> bool \<times> bool \<Rightarrow> inbox_state \<times> (inbox_error + unit)" where
  "clearInbox st now vetoes =
     (case spliceInbox st now (fst vetoes) NextStep (Finite 0)
             (Finite (of_nat (length (ib_nextStep (fst st))))) [] of
        (st1, Inl err) \<Rightarrow> (st1, Inl err)
      | (st1, Inr _) \<Rightarrow>
          (case spliceInbox st1 now (snd vetoes) NextTurn (Finite 0)
                  (Finite (of_nat (length (ib_nextTurn (fst st1))))) [] of
             (st2, r) \<Rightarrow> (st2, mapR (\<lambda>_. ()) r)))"

definition notifyClaimed :: "inbox_state \<Rightarrow> message list \<Rightarrow> int \<Rightarrow> inbox_state" where
  "notifyClaimed st ms turn =
     (case st of (ib, S, notes) \<Rightarrow> (ib, S, notes @ map (\<lambda>m. NoteClaimed m turn) ms))"

definition claimInbox ::
  "inbox_state \<Rightarrow> int \<Rightarrow> bool \<times> bool \<Rightarrow> inbox_target \<Rightarrow> int
    \<Rightarrow> inbox_state \<times> (inbox_error + message list)" where
  "claimInbox st now vetoes target turn =
     (case mutate st now (fst vetoes) NextStep (Finite 0)
             (Finite (of_nat (length (ib_nextStep (fst st))))) [] False of
        (st1, Inl err) \<Rightarrow> (st1, Inl err)
      | (st1, Inr claimed) \<Rightarrow>
          (if target = NextTurn then
             (case mutate st1 now (snd vetoes) NextTurn (Finite 0) (Finite 1) [] False of
                (st2, Inl err) \<Rightarrow> (st2, Inl err)
              | (st2, Inr queued) \<Rightarrow> (notifyClaimed st2 (claimed @ queued) turn, Inr (claimed @ queued)))
           else (notifyClaimed st1 claimed turn, Inr claimed)))"

end
