(* ===== verification/Inbox_Facts.thy ===== *)
theory Inbox_Facts
  imports Inbox "HOL-Library.Multiset"
begin

text \<open>
  Correctness of the inbox: the lists are always what a replay of the session's log gives, no
  identity is pending twice, and every message that was accepted is pending, claimed or discarded,
  exactly once, but for what a claim loses that fails halfway.
\<close>

section \<open>Validation\<close>

lemma firstRepeated_None:
  "firstRepeated seen xs = None \<longleftrightarrow> distinct xs \<and> set xs \<inter> set seen = {}"
  by (induction xs arbitrary: seen) auto

definition inboxInv :: "inbox \<Rightarrow> bool" where
  "inboxInv ib \<longleftrightarrow> distinct (map msg_id (ib_nextTurn ib @ ib_nextStep ib))"

lemma validateSplice_Inr:
  assumes "validateSplice ib sp = Inr (i, n)"
  shows "sp_start sp = of_nat i" and "i + n \<le> length (pending ib (sp_target sp))"
    and "inboxInv (setPending ib (sp_target sp)
          (splice_list (pending ib (sp_target sp)) i n (sp_inserted sp)))"
    and "(case sp_removedCount sp of None \<Rightarrow> n = 0 | Some r \<Rightarrow> r = of_nat n)"
  using assms
  by (cases "sp_target sp";
      auto simp: validateSplice_def Let_def firstRepeated_None inboxInv_def ratInt_of_int
        dest!: ratInt_SomeD split: option.splits if_splits)+

lemma replaySplice_inv:
  assumes "inboxInv ib" and "replaySplice ib e = Inr ib'"
  shows "inboxInv ib'"
  using assms validateSplice_Inr(3)
  by (fastforce simp: replaySplice_def applySplice_def mapR_Inr_iff mapErr_Inr_iff
      split: event_data.splits)

interpretation inbox_fold: validating_fold replaySplice emptyInbox inboxInv
  by unfold_locales (simp add: inboxInv_def emptyInbox_def, rule replaySplice_inv)

section \<open>Coordinates\<close>

lemma actualStart_le: "fst (actualStart x len) \<le> len"
proof (cases x)
  case (Finite r)
  then show ?thesis
    by (auto simp: actualStart_def truncate_def nat_le_iff)
qed (simp_all add: actualStart_def truncate_def)

lemma actualDeleteCount_le: "actualDeleteCount x room \<le> room"
  by (cases x) (auto simp: actualDeleteCount_def truncate_def split: js_number.splits)

lemma actualStart_nat [simp]:
  "actualStart (Finite (of_nat i)) len = (min i len, False)" "actualStart (Finite 0) len = (0, False)"
  by (auto simp: actualStart_def truncate_def floor_of_nat min_def)

lemma actualDeleteCount_nat [simp]:
  "actualDeleteCount (Finite (of_nat i)) room = min i room"
  "actualDeleteCount (Finite 0) room = 0" "actualDeleteCount (Finite 1) room = min 1 room"
  by (auto simp: actualDeleteCount_def truncate_def floor_of_nat min_def)

section \<open>One mutation\<close>

lemma pending_setPending [simp]:
  "pending (setPending ib t ms) t = ms"
  "t' \<noteq> t \<Longrightarrow> pending (setPending ib t ms) t' = pending ib t'"
  by (cases t; cases t'; simp)+

text \<open>What a mutation does: nothing, an error without effect on the lists, or one durable splice.\<close>

lemma mutate_cases:
  assumes "mutate (ib, S, notes) now veto target start cnt ins discard = ((ib', S', notes'), r)"
  obtains
    (unchanged) "ib' = ib" "S' = S" "notes' = notes" "r = Inr []"
  | (failed) err where "r = Inl err" "ib' = ib" "notes' = notes" "s_log S' = s_log S"
      "s_header S' = s_header S"
  | (spliced) i n ev sp where "r = Inr (spliced_out (pending ib target) i n)"
      "i + n \<le> length (pending ib target)"
      "ib' = setPending ib target (splice_list (pending ib target) i n ins)"
      "s_log S' = s_log S @ [ev]" "ev_data ev = InboxSpliced sp" "s_header S' = s_header S"
      "applySplice ib sp = Inr ib'"
      "notes' = notes @ (if discard then map NoteDiscarded (spliced_out (pending ib target) i n) else [])
         @ map NoteInserted ins"
      "i = fst (actualStart start (length (pending ib target)))"
      "n = actualDeleteCount cnt (length (pending ib target) - i)"
proof -
  let ?box = "pending ib target"
  obtain i neg where i: "actualStart start (length ?box) = (i, neg)" by fastforce
  define n where "n = actualDeleteCount cnt (length ?box - i)"
  define sp where "sp = normalizedSplice target i n ins discard"
  have key: "mutate (ib, S, notes) now veto target start cnt ins discard =
     (if n = 0 \<and> ins = [] then ((ib, S, notes), Inr [])
      else case validateSplice ib sp of
        Inl err \<Rightarrow> ((ib, S, notes), Inl err)
      | Inr _ \<Rightarrow>
          (case logAppend S now veto (if neg then None else Some (InboxSpliced sp)) of
             (S', Inl err) \<Rightarrow> ((ib, S', notes), Inl (InboxAppend err))
           | (S', Inr _) \<Rightarrow>
               ((setPending ib target (splice_list ?box i n ins), S',
                 notes @ (if discard then map NoteDiscarded (spliced_out ?box i n) else [])
                   @ map NoteInserted ins),
                Inr (spliced_out ?box i n))))"
    unfolding mutate_def Let_def n_def sp_def by (simp only: prod.case i)
  have le: "i + n \<le> length ?box"
    using actualStart_le [of start "length ?box"] actualDeleteCount_le [of cnt "length ?box - i"] i
    by (simp add: n_def)
  show ?thesis
  proof (cases "n = 0 \<and> ins = []")
    case True
    then have "ib' = ib \<and> S' = S \<and> notes' = notes \<and> r = Inr []"
      using assms unfolding key by auto
    then show ?thesis using unchanged by blast
  next
    case False
    show ?thesis
    proof (cases "validateSplice ib sp")
      case (Inl err)
      then show ?thesis
        using assms False failed unfolding key by auto
    next
      case (Inr p)
      then obtain i' n' where p: "validateSplice ib sp = Inr (i', n')" by (cases p) auto
      have eq: "i' = i" "n' = n"
        using validateSplice_Inr(1,4) [OF p] by (auto simp: sp_def normalizedSplice_def split: if_splits)
      obtain S1 q where q: "logAppend S now veto (if neg then None else Some (InboxSpliced sp)) = (S1, q)"
        by fastforce
      show ?thesis
      proof (cases q)
        case (Inl err)
        then show ?thesis
          using assms False p q failed logAppend_Inl unfolding key by auto
      next
        case (Inr ev)
        have "ib' = setPending ib target (splice_list ?box i n ins)" "S' = S1"
          "r = Inr (spliced_out ?box i n)"
          "notes' = notes @ (if discard then map NoteDiscarded (spliced_out ?box i n) else [])
            @ map NoteInserted ins"
          using assms False p q Inr unfolding key by auto
        moreover have "applySplice ib sp = Inr (setPending ib target (splice_list ?box i n ins))"
          using p eq by (simp add: applySplice_def) (simp add: sp_def normalizedSplice_def)
        moreover have "ev_data ev = InboxSpliced sp" "s_log S1 = s_log S @ [ev]" "s_header S1 = s_header S"
          using logAppend_Inr [of S now veto "if neg then None else Some (InboxSpliced sp)" S1 ev] q Inr
          by (auto split: if_splits)
        ultimately show ?thesis using le i by (intro spliced [of i n ev sp]) (auto simp: n_def)
      qed
    qed
  qed
qed

section \<open>Replay and live projection agree\<close>

definition seedLen :: "session \<Rightarrow> nat" where
  "seedLen S = (case sh_seedLength (s_header S) of None \<Rightarrow> 0 | Some n \<Rightarrow> n)"

definition inboxSynced :: "inbox_state \<Rightarrow> bool" where
  "inboxSynced st \<longleftrightarrow>
     (case st of (ib, S, notes) \<Rightarrow> newInbox S = Inr ib \<and> seedLen S \<le> length (s_log S))"

lemma newInbox_grow:
  assumes "newInbox S = Inr ib" and "seedLen S \<le> length (s_log S)"
    and "s_log S' = s_log S @ [ev]" and "s_header S' = s_header S"
  shows "newInbox S' = replaySplice ib ev"
  using assms by (simp add: newInbox_def seedLen_def runR_snoc)

lemma mutate_synced:
  assumes "inboxSynced (ib, S, notes)"
    and "mutate (ib, S, notes) now veto target start cnt ins discard = ((ib', S', notes'), r)"
  shows "inboxSynced (ib', S', notes')"
  using assms(2)
proof (cases rule: mutate_cases)
  case unchanged
  then show ?thesis using assms(1) by (simp add: inboxSynced_def)
next
  case (failed err)
  then show ?thesis using assms(1) by (simp add: inboxSynced_def newInbox_def seedLen_def)
next
  case (spliced i n ev sp)
  have "newInbox S' = replaySplice ib ev"
    using assms(1) spliced by (intro newInbox_grow) (auto simp: inboxSynced_def)
  then show ?thesis using assms(1) spliced by (simp add: inboxSynced_def replaySplice_def seedLen_def)
qed

section \<open>Every operation\<close>

inductive inbox_edit :: "inbox_state \<Rightarrow> inbox_state \<Rightarrow> bool" where
  op_splice: "spliceInbox st now veto target start cnt ins = (st', r) \<Longrightarrow> inbox_edit st st'"
| op_append: "appendInbox st now veto target m = (st', r) \<Longrightarrow> inbox_edit st st'"
| op_prepend: "prependInbox st now veto target m = (st', r) \<Longrightarrow> inbox_edit st st'"
| op_replace: "replaceInbox st now veto mid m = (st', b) \<Longrightarrow> inbox_edit st st'"
| op_remove: "removeInbox st now veto mid = (st', b) \<Longrightarrow> inbox_edit st st'"
| op_clear: "clearInbox st now vetoes = (st', u) \<Longrightarrow> inbox_edit st st'"
| other_append: "logAppend S now veto (Some d) = (S', q) \<Longrightarrow> \<forall>sp. d \<noteq> InboxSpliced sp
    \<Longrightarrow> inbox_edit (ib, S, notes) (ib, S', notes)"

inductive inbox_step :: "inbox_state \<Rightarrow> inbox_state \<Rightarrow> bool" where
  op_edit: "inbox_edit st st' \<Longrightarrow> inbox_step st st'"
| op_claim: "claimInbox st now vetoes target turn = (st', r) \<Longrightarrow> inbox_step st st'"

inductive inbox_reach :: "inbox_state \<Rightarrow> bool" where
  opened: "newInbox S = Inr ib \<Longrightarrow> seedLen S \<le> length (s_log S) \<Longrightarrow> inbox_reach (ib, S, [])"
| step: "inbox_reach st \<Longrightarrow> inbox_step st st' \<Longrightarrow> inbox_reach st'"

text \<open>What one splice keeps, every operation but a claim keeps.\<close>

lemma inbox_edit_keeps:
  assumes splice: "\<And>st now veto target start cnt ins st' r.
      P st \<Longrightarrow> spliceInbox st now veto target start cnt ins = (st', r) \<Longrightarrow> P st'"
    and other: "\<And>S now veto d S' q ib notes. P (ib, S, notes) \<Longrightarrow> \<forall>sp. d \<noteq> InboxSpliced sp \<Longrightarrow>
      logAppend S now veto (Some d) = (S', q) \<Longrightarrow> P (ib, S', notes)"
    and P: "P st" and edit: "inbox_edit st st'"
  shows "P st'"
  using edit P
proof (cases rule: inbox_edit.cases)
  case (op_splice now veto target start cnt ins r)
  then show ?thesis using splice P by blast
next
  case (op_append now veto target m r)
  then show ?thesis using splice P by (auto simp: appendInbox_def)
next
  case (op_prepend now veto target m r)
  then show ?thesis using splice P by (auto simp: prependInbox_def)
next
  case (op_replace now veto mid m b)
  then show ?thesis using splice P by (auto simp: replaceInbox_def split: option.splits prod.splits)
next
  case (op_remove now veto mid b)
  then show ?thesis using splice P by (auto simp: removeInbox_def split: option.splits prod.splits)
next
  case (op_clear now vetoes u)
  obtain st1 q where m: "spliceInbox st now (fst vetoes) NextStep (Finite 0)
      (Finite (of_nat (length (ib_nextStep (fst st))))) [] = (st1, q)" by fastforce
  have "P st1" by (rule splice [OF P m])
  then show ?thesis
    using splice [of st1] op_clear m by (cases q) (auto simp: clearInbox_def split: prod.splits)
next
  case (other_append S now veto d S' q ib ns)
  then show ?thesis using other P by blast
qed

text \<open>
  An invariant that one mutation and the notification of a claim keep is kept by every operation.
\<close>

lemma inbox_ops_keep:
  assumes mut: "\<And>st now veto target start cnt ins discard st' r.
      P st \<Longrightarrow> mutate st now veto target start cnt ins discard = (st', r) \<Longrightarrow> P st'"
    and notify: "\<And>st ms turn. P st \<Longrightarrow> P (notifyClaimed st ms turn)"
    and other: "\<And>S now veto d S' q ib notes. P (ib, S, notes) \<Longrightarrow> \<forall>sp. d \<noteq> InboxSpliced sp \<Longrightarrow>
      logAppend S now veto (Some d) = (S', q) \<Longrightarrow> P (ib, S', notes)"
    and P: "P st" and step: "inbox_step st st'"
  shows "P st'"
  using step P
proof (cases rule: inbox_step.cases)
  case op_edit
  show ?thesis by (rule inbox_edit_keeps [where P = P, OF _ other P op_edit]) (auto simp: spliceInbox_def intro: mut)
next
  case (op_claim now vetoes target turn r)
  obtain st1 q where m: "mutate st now (fst vetoes) NextStep (Finite 0)
      (Finite (of_nat (length (ib_nextStep (fst st))))) [] False = (st1, q)" by fastforce
  obtain st2 q2 where m2: "mutate st1 now (snd vetoes) NextTurn (Finite 0) (Finite 1) [] False
      = (st2, q2)" by fastforce
  have P1: "P st1" by (rule mut [OF P m])
  then have P2: "P st2" using mut m2 by blast
  show ?thesis
    using notify [OF P1] notify [OF P2] P1 P2 op_claim m m2
    by (cases q; cases q2) (auto simp: claimInbox_def split: if_splits)
qed

lemma inbox_reach_synced: "inbox_reach st \<Longrightarrow> inboxSynced st"
proof (induction rule: inbox_reach.induct)
  case (opened S ib)
  then show ?case by (simp add: inboxSynced_def)
next
  case (step st st')
  show ?case
  proof (rule inbox_ops_keep [where P = inboxSynced, OF _ _ _ step.IH step.hyps(2)])
    fix st now veto target start cnt ins discard st' r
    assume "inboxSynced st" "mutate st now veto target start cnt ins discard = (st', r)"
    then show "inboxSynced st'" using mutate_synced by (cases st; cases st') blast
  next
    fix st ms turn
    assume "inboxSynced st"
    then show "inboxSynced (notifyClaimed st ms turn)"
      by (auto simp: inboxSynced_def notifyClaimed_def split: prod.splits)
  next
    fix S now veto d S' q ib ns
    assume s: "inboxSynced (ib, S, ns)" and d: "\<forall>sp. d \<noteq> InboxSpliced sp"
      and l: "logAppend S now veto (Some d) = (S', q)"
    show "inboxSynced (ib, S', ns)"
    proof (cases q)
      case (Inl err)
      then show ?thesis using logAppend_Inl l s by (auto simp: inboxSynced_def newInbox_def seedLen_def)
    next
      case (Inr ev)
      then have ev: "s_log S' = s_log S @ [ev]" "ev_data ev = d" "s_header S' = s_header S"
        using logAppend_Inr [of S now veto "Some d" S' ev] l by auto
      have "newInbox S' = replaySplice ib ev"
        using s ev by (intro newInbox_grow) (auto simp: inboxSynced_def)
      then show ?thesis
        using s ev d by (auto simp: inboxSynced_def replaySplice_def seedLen_def split: event_data.splits)
    qed
  qed
qed

text \<open>
  Claim C11: the inbox is a function of the log. Whatever operations ran, with whatever numbers,
  vetoes and failures, replaying the session's log gives exactly the pending lists the agent
  holds, and no identity is pending twice.
\<close>

theorem inbox_replays:
  assumes "inbox_reach (ib, S, notes)"
  shows "newInbox S = Inr ib \<and> distinct (map msg_id (ib_nextTurn ib @ ib_nextStep ib))"
proof -
  have "newInbox S = Inr ib" using inbox_reach_synced [OF assms] by (simp add: inboxSynced_def)
  moreover from this have "inboxInv ib"
    unfolding newInbox_def by (rule inbox_fold.inv_accepted)
  ultimately show ?thesis by (simp add: inboxInv_def)
qed

section \<open>Conservation\<close>

text \<open>
  The messages that entered (\<open>NoteInserted\<close>), left unrun (\<open>NoteDiscarded\<close>) and were taken by a
  turn (\<open>NoteClaimed\<close>), as multisets.
\<close>

fun entered :: "inbox_note \<Rightarrow> message option" where
  "entered (NoteInserted m) = Some m"
| "entered _ = None"

fun departed :: "inbox_note \<Rightarrow> message option" where
  "departed (NoteInserted m) = None"
| "departed (NoteDiscarded m) = Some m"
| "departed (NoteClaimed m _) = Some m"

definition notesOf :: "(inbox_note \<Rightarrow> message option) \<Rightarrow> inbox_note list \<Rightarrow> message multiset" where
  "notesOf f ns = mset (List.map_filter f ns)"

definition allPending :: "inbox \<Rightarrow> message multiset" where
  "allPending ib = mset (ib_nextTurn ib) + mset (ib_nextStep ib)"

text \<open>Cancellation, for the balances below.\<close>

lemma bal_cancel: "a + b = c + d \<Longrightarrow> d + r = b + i \<Longrightarrow> a + r = c + (i :: 'a multiset)"
  by (metis (no_types, opaque_lifting) add.assoc add.commute add_left_cancel)

lemma bal_trans:
  "b + p + e = a + e1 \<Longrightarrow> c + q + e1 = b + e2 \<Longrightarrow> c + (p + q) + e = a + (e2 :: 'a multiset)"
proof (rule multiset_eqI)
  fix x assume "b + p + e = a + e1" "c + q + e1 = b + e2"
  then have "count (b + p + e) x = count (a + e1) x" "count (c + q + e1) x = count (b + e2) x"
    by simp_all
  then show "count (c + (p + q) + e) x = count (a + e2) x" by simp
qed

lemma bal_conserved: "a + e = b + l \<Longrightarrow> c + e = b + e' \<Longrightarrow> a + e' = c + (l :: 'a multiset)"
proof (rule multiset_eqI)
  fix x assume "a + e = b + l" "c + e = b + e'"
  then have "count (a + e) x = count (b + l) x" "count (c + e) x = count (b + e') x" by simp_all
  then show "count (a + e') x = count (c + l) x" by simp
qed

lemma notesOf_append [simp]: "notesOf f (xs @ ys) = notesOf f xs + notesOf f ys"
  by (simp add: notesOf_def array_simps)

lemma notesOf_map [simp]:
  "notesOf entered (map NoteInserted ms) = mset ms" "notesOf departed (map NoteInserted ms) = {#}"
  "notesOf entered (map NoteDiscarded ms) = {#}" "notesOf departed (map NoteDiscarded ms) = mset ms"
  "notesOf entered (map (\<lambda>m. NoteClaimed m turn) ms) = {#}"
  "notesOf departed (map (\<lambda>m. NoteClaimed m turn) ms) = mset ms"
  "notesOf f [] = {#}"
  by (induction ms; simp add: notesOf_def List.map_filter_def)+

lemma mset_splice:
  assumes "i + n \<le> length xs"
  shows "mset (splice_list xs i n ys) + mset (spliced_out xs i n) = mset xs + mset ys"
proof -
  have "mset xs = mset (take i xs @ spliced_out xs i n @ drop (i + n) xs)"
    using splice_decompose [OF assms] by simp
  then show ?thesis by (simp add: splice_list_def)
qed

lemma allPending_set:
  "allPending (setPending ib t ms) + mset (pending ib t) = allPending ib + mset ms"
  by (cases t) (simp_all add: allPending_def)

text \<open>The balance of one mutation: \<open>removed\<close> is what it returns without notifying anyone.\<close>

lemma mutate_balance:
  assumes "mutate (ib, S, ns) now veto target start cnt ins discard = ((ib', S', ns'), r)"
  shows "(allPending ib' + notesOf departed ns')
      + (case r of Inr ms \<Rightarrow> if discard then {#} else mset ms | _ \<Rightarrow> {#}) + notesOf entered ns
    = (allPending ib + notesOf departed ns) + notesOf entered ns'"
  using assms
proof (cases rule: mutate_cases)
  case (spliced i n ev sp)
  let ?box = "pending ib target"
  have "allPending ib' + mset (spliced_out ?box i n) = allPending ib + mset ins"
    unfolding spliced(3) by (rule bal_cancel [OF allPending_set mset_splice [OF spliced(2)]])
  then show ?thesis using spliced by (auto simp: ac_simps)
qed (auto simp: ac_simps)

text \<open>
  Runs of all operations, with what was lost on the way: what a claim that failed had already
  taken off the next-step list.
\<close>

inductive inbox_run :: "inbox \<Rightarrow> message multiset \<Rightarrow> inbox_state \<Rightarrow> bool" for ib0 where
  opened: "newInbox S = Inr ib0 \<Longrightarrow> inbox_run ib0 {#} (ib0, S, [])"
| edited: "inbox_run ib0 lost st \<Longrightarrow> inbox_edit st st' \<Longrightarrow> inbox_run ib0 lost st'"
| claimed: "inbox_run ib0 lost st \<Longrightarrow> claimInbox st now vetoes target turn = (st', Inr ms)
    \<Longrightarrow> inbox_run ib0 lost st'"
| claim_failed: "inbox_run ib0 lost st \<Longrightarrow> claimInbox st now vetoes target turn = (st', Inl err)
    \<Longrightarrow> inbox_run ib0 (lost + (mset (ib_nextStep (fst st)) - mset (ib_nextStep (fst st')))) st'"

definition conserved :: "inbox \<Rightarrow> message multiset \<Rightarrow> inbox_state \<Rightarrow> bool" where
  "conserved ib0 lost st \<longleftrightarrow>
     (case st of (ib, S, ns) \<Rightarrow>
        allPending ib0 + notesOf entered ns = allPending ib + notesOf departed ns + lost)"

lemma splice_front:
  "spliced_out xs 0 n = take n xs" "splice_list xs 0 n [] = drop n xs"
  by (simp_all add: spliced_out_def splice_list_def)

lemma conserved_splice:
  assumes "conserved ib0 lost st" "spliceInbox st now veto target start cnt ins = (st', r)"
  shows "conserved ib0 lost st'"
proof -
  obtain ib S ns ib' S' ns' where st: "st = (ib, S, ns)" "st' = (ib', S', ns')"
    by (cases st; cases st')
  have "(allPending ib' + notesOf departed ns') + notesOf entered ns
      = (allPending ib + notesOf departed ns) + notesOf entered ns'"
    using mutate_balance [OF assms(2) [unfolded st spliceInbox_def]] by (simp split: sum.splits)
  moreover have "allPending ib0 + notesOf entered ns = allPending ib + notesOf departed ns + lost"
    using assms(1) st by (simp add: conserved_def)
  ultimately show ?thesis unfolding conserved_def st prod.case by (rule bal_conserved [rotated])
qed

text \<open>
  What a claim that fails leaves: everything, or, when the queued turn could not be taken, an
  empty next-step list whose messages nobody is told about.
\<close>

lemma claim_error:
  assumes "claimInbox (ib, S, ns) now vetoes target turn = ((ib', S', ns'), Inl err)"
  shows "ns' = ns \<and> (ib' = ib \<or> target = NextTurn \<and> ib_nextTurn ib \<noteq> [] \<and> ib' = ib\<lparr>ib_nextStep := []\<rparr>)"
proof -
  obtain ib1 S1 ns1 q1 where m1: "mutate (ib, S, ns) now (fst vetoes) NextStep (Finite 0)
      (Finite (of_nat (length (ib_nextStep ib)))) [] False = ((ib1, S1, ns1), q1)"
    by (metis surj_pair)
  obtain ib2 S2 ns2 q2 where m2: "mutate (ib1, S1, ns1) now (snd vetoes) NextTurn (Finite 0)
      (Finite 1) [] False = ((ib2, S2, ns2), q2)" by (metis surj_pair)
  show ?thesis
  proof (cases q1)
    case (Inl err1)
    from m1 have "ib1 = ib \<and> ns1 = ns" using Inl by (cases rule: mutate_cases) auto
    then show ?thesis using assms m1 Inl by (auto simp: claimInbox_def)
  next
    case (Inr c)
    from m1 have one: "(ib1 = ib \<or> ib1 = ib\<lparr>ib_nextStep := []\<rparr>) \<and> ns1 = ns"
      using Inr by (cases rule: mutate_cases) (auto simp: splice_front)
    obtain err2 where two: "target = NextTurn" "q2 = Inl err2" "ib' = ib2" "ns' = ns2"
      using assms m1 m2 Inr by (cases q2) (auto simp: claimInbox_def split: if_splits)
    from m2 have "ib2 = ib1 \<and> ns2 = ns1" using two by (cases rule: mutate_cases) auto
    moreover have "ib_nextTurn ib1 \<noteq> []" using m2 two by (auto simp: mutate_def Let_def split: prod.splits)
    ultimately show ?thesis using one two by auto
  qed
qed

lemma claim_balance:
  assumes "claimInbox (ib, S, ns) now vetoes target turn = ((ib', S', ns'), Inr ms)"
  shows "(allPending ib' + notesOf departed ns') + notesOf entered ns
      = (allPending ib + notesOf departed ns) + notesOf entered ns'"
proof -
  obtain ib1 S1 ns1 q1 where m1: "mutate (ib, S, ns) now (fst vetoes) NextStep (Finite 0)
      (Finite (of_nat (length (ib_nextStep ib)))) [] False = ((ib1, S1, ns1), q1)"
    by (metis surj_pair)
  obtain ib2 S2 ns2 q2 where m2: "mutate (ib1, S1, ns1) now (snd vetoes) NextTurn (Finite 0)
      (Finite 1) [] False = ((ib2, S2, ns2), q2)" by (metis surj_pair)
  note b1 = mutate_balance [OF m1] and b2 = mutate_balance [OF m2]
  obtain c where q1: "q1 = Inr c" using assms m1 by (cases q1) (auto simp: claimInbox_def)
  show ?thesis
  proof (cases "target = NextTurn")
    case True
    obtain d where q2: "q2 = Inr d" using assms m1 m2 q1 True by (cases q2) (auto simp: claimInbox_def)
    have c1: "(allPending ib1 + notesOf departed ns1) + mset c + notesOf entered ns
        = (allPending ib + notesOf departed ns) + notesOf entered ns1" using b1 q1 by simp
    have c2: "(allPending ib2 + notesOf departed ns2) + mset d + notesOf entered ns1
        = (allPending ib1 + notesOf departed ns1) + notesOf entered ns2" using b2 q2 by simp
    have "(allPending ib2 + notesOf departed ns2) + (mset c + mset d) + notesOf entered ns
        = (allPending ib + notesOf departed ns) + notesOf entered ns2"
      by (rule bal_trans [OF c1 c2])
    then show ?thesis
      using assms m1 m2 q1 q2 True by (auto simp: claimInbox_def notifyClaimed_def ac_simps)
  next
    case False
    then show ?thesis
      using assms b1 m1 q1 by (auto simp: claimInbox_def notifyClaimed_def ac_simps)
  qed
qed

text \<open>
  Claim C12: where messages go. Whatever operations ran, what was pending when the inbox was
  opened and what entered since is, as a multiset, exactly what is pending now, what was discarded
  or claimed since, and what was lost by claims that failed. A claim that fails notifies nobody
  and leaves the lists alone, unless it is the removal of the queued turn that failed: then the
  whole next-step batch is lost and the queued turn stays. So nothing is lost or duplicated
  in a run without such a claim.
\<close>

theorem inbox_conserves:
  assumes "inbox_run ib0 lost (ib, S, ns)"
  shows "allPending ib0 + notesOf entered ns = allPending ib + notesOf departed ns + lost
     \<and> (\<forall>now vetoes target turn ib' S' ns' err.
          claimInbox (ib, S, ns) now vetoes target turn = ((ib', S', ns'), Inl err) \<longrightarrow>
            ns' = ns \<and> (ib' = ib \<or> target = NextTurn \<and> ib_nextTurn ib \<noteq> [] \<and> ib' = ib\<lparr>ib_nextStep := []\<rparr>))"
proof -
  have "conserved ib0 lost (ib, S, ns)"
    using assms
  proof (induction rule: inbox_run.induct)
    case (opened S)
    then show ?case by (simp add: conserved_def)
  next
    case (edited lost st st')
    show ?case
      by (rule inbox_edit_keeps [where P = "conserved ib0 lost", OF conserved_splice _ edited(3,2)])
        (simp_all add: conserved_def)
  next
    case (claimed lost st now vetoes target turn st' ms)
    obtain ib S ns ib' S' ns' where st: "st = (ib, S, ns)" "st' = (ib', S', ns')"
      by (cases st; cases st')
    have "allPending ib0 + notesOf entered ns = allPending ib + notesOf departed ns + lost"
      using claimed(3) st by (simp add: conserved_def)
    from bal_conserved [OF this claim_balance [OF claimed(2) [unfolded st]]]
    show ?case unfolding conserved_def st prod.case .
  next
    case (claim_failed lost st now vetoes target turn st' err)
    obtain ib S ns ib' S' ns' where st: "st = (ib, S, ns)" "st' = (ib', S', ns')"
      by (cases st; cases st')
    show ?case
      using claim_error [OF claim_failed(2) [unfolded st]] claim_failed(3)
      by (auto simp: conserved_def st allPending_def ac_simps)
  qed
  then show ?thesis using claim_error unfolding conserved_def by blast
qed

section \<open>What a claim takes, what a splice removes\<close>

text \<open>
  Result: a claim that succeeds returns the complete next-step batch in order, followed by the
  oldest queued turn when the boundary also starts a turn; exactly those messages leave the
  lists, and each is announced as claimed by the turn.
\<close>

theorem claim_takes:
  assumes "claimInbox (ib, S, ns) now vetoes target turn = ((ib', S', ns'), Inr ms)"
  shows "ms = ib_nextStep ib @ (if target = NextTurn then take 1 (ib_nextTurn ib) else [])
     \<and> ib_nextStep ib' = []
     \<and> ib_nextTurn ib' = (if target = NextTurn then drop 1 (ib_nextTurn ib) else ib_nextTurn ib)
     \<and> ns' = ns @ map (\<lambda>m. NoteClaimed m turn) ms"
proof -
  obtain ib1 S1 ns1 q1 where m1: "mutate (ib, S, ns) now (fst vetoes) NextStep (Finite 0)
      (Finite (of_nat (length (ib_nextStep ib)))) [] False = ((ib1, S1, ns1), q1)"
    by (metis surj_pair)
  then obtain c where q1: "q1 = Inr c" using assms by (cases q1) (auto simp: claimInbox_def)
  have one: "c = ib_nextStep ib \<and> ib_nextStep ib1 = [] \<and> ib_nextTurn ib1 = ib_nextTurn ib \<and> ns1 = ns"
    using m1 unfolding q1
  proof (cases rule: mutate_cases)
    case unchanged
    then show ?thesis
      using m1 by (auto simp: mutate_def Let_def q1 splice_front split: if_splits prod.splits sum.splits)
  qed (auto simp: splice_front)
  show ?thesis
  proof (cases "target = NextTurn")
    case False
    then show ?thesis using assms m1 q1 one by (auto simp: claimInbox_def notifyClaimed_def)
  next
    case True
    obtain ib2 S2 ns2 q2 where m2: "mutate (ib1, S1, ns1) now (snd vetoes) NextTurn (Finite 0)
        (Finite 1) [] False = ((ib2, S2, ns2), q2)" by (metis surj_pair)
    then obtain d where q2: "q2 = Inr d"
      using assms m1 q1 True by (cases q2) (auto simp: claimInbox_def)
    have two: "d = take 1 (ib_nextTurn ib1) \<and> ib_nextTurn ib2 = drop 1 (ib_nextTurn ib1)
        \<and> ib_nextStep ib2 = ib_nextStep ib1 \<and> ns2 = ns1"
      using m2 unfolding q2
    proof (cases rule: mutate_cases)
      case unchanged
      then show ?thesis
        using m2 by (cases "ib_nextTurn ib1")
          (auto simp: mutate_def Let_def q2 splice_front split: if_splits prod.splits sum.splits)
    next
      case (spliced i n ev sp)
      then show ?thesis by (cases "ib_nextTurn ib1") (auto simp: splice_front)
    qed auto
    show ?thesis using assms m1 m2 q1 q2 one two True by (auto simp: claimInbox_def notifyClaimed_def)
  qed
qed

section \<open>A sample run\<close>

definition sample_message :: "string \<Rightarrow> message" where
  "sample_message i = \<lparr>msg_id = i, msg_role = User, msg_content = [TextBlock ''go''],
     msg_source = UserSource\<rparr>"

definition sample_inbox :: inbox_state where
  "sample_inbox = fst (appendInbox (emptyInbox, sample_session, []) 0 False NextTurn
     (sample_message ''x''))"

lemma sample_opened: "newInbox sample_session = Inr emptyInbox"
  by code_simp

lemma sample_inbox_parts: "sample_inbox = (fst sample_inbox, fst (snd sample_inbox), snd (snd sample_inbox))"
  by simp

theorem inbox_replays_witness:
  "newInbox (fst (snd sample_inbox)) = Inr \<lparr>ib_nextTurn = [sample_message ''x''], ib_nextStep = []\<rparr>"
proof -
  have "seedLen sample_session \<le> length (s_log sample_session)" by code_simp
  then have "inbox_reach sample_inbox"
    using inbox_reach.step [OF inbox_reach.opened [OF sample_opened]
        inbox_step.op_edit [OF op_append [OF prod.collapse [symmetric]]]]
    by (simp add: sample_inbox_def)
  then have "inbox_reach (fst sample_inbox, fst (snd sample_inbox), snd (snd sample_inbox))" by simp
  moreover have "fst sample_inbox = \<lparr>ib_nextTurn = [sample_message ''x''], ib_nextStep = []\<rparr>"
    by code_simp
  ultimately show ?thesis using inbox_replays by metis
qed

text \<open>A message for the next step and a queued turn, whose claim fails at the second append.\<close>

definition sample_waiting :: inbox_state where
  "sample_waiting = fst (appendInbox sample_inbox 0 False NextStep (sample_message ''y''))"

definition sample_lost :: inbox_state where
  "sample_lost = fst (claimInbox sample_waiting 0 (False, True) NextTurn 1)"

theorem inbox_conserves_witness:
  "allPending emptyInbox + notesOf entered (snd (snd sample_lost))
     = allPending (fst sample_lost) + notesOf departed (snd (snd sample_lost)) + {#sample_message ''y''#}
   \<and> \<not> isl (snd (claimInbox sample_lost 0 (False, False) NextTurn 1))"
proof -
  obtain r where r: "claimInbox sample_waiting 0 (False, True) NextTurn 1 = (sample_lost, r)"
    unfolding sample_lost_def by (metis prod.collapse)
  have "isl (snd (claimInbox sample_waiting 0 (False, True) NextTurn 1))" by code_simp
  then obtain err where f: "claimInbox sample_waiting 0 (False, True) NextTurn 1 = (sample_lost, Inl err)"
    using r by (cases r) auto
  have "inbox_run emptyInbox {#} sample_inbox"
    unfolding sample_inbox_def
    by (rule inbox_run.edited [OF inbox_run.opened [OF sample_opened] op_append [OF prod.collapse [symmetric]]])
  then have "inbox_run emptyInbox {#} sample_waiting"
    unfolding sample_waiting_def by (rule inbox_run.edited [OF _ op_append [OF prod.collapse [symmetric]]])
  from inbox_run.claim_failed [OF this f]
  have "inbox_run emptyInbox (mset (ib_nextStep (fst sample_waiting)) - mset (ib_nextStep (fst sample_lost))) sample_lost"
    by simp
  moreover have "ib_nextStep (fst sample_waiting) = [sample_message ''y'']" "ib_nextStep (fst sample_lost) = []"
    by code_simp+
  ultimately have "inbox_run emptyInbox {#sample_message ''y''#}
      (fst sample_lost, fst (snd sample_lost), snd (snd sample_lost))" by simp
  note facts = inbox_conserves [OF this]
  have "ib_nextStep (fst sample_lost) = []" "\<not> isl (snd (claimInbox sample_lost 0 (False, False) NextTurn 1))"
    by code_simp+
  with facts show ?thesis by blast
qed

theorem claim_takes_witness:
  "snd (snd (fst (claimInbox sample_inbox 0 (False, False) NextTurn 1)))
     = snd (snd sample_inbox) @ [NoteClaimed (sample_message ''x'') 1]"
proof -
  have r: "snd (claimInbox sample_inbox 0 (False, False) NextTurn 1) = Inr [sample_message ''x'']"
    by code_simp
  have "claimInbox (fst sample_inbox, fst (snd sample_inbox), snd (snd sample_inbox)) 0 (False, False)
      NextTurn 1 = ((fst (fst (claimInbox sample_inbox 0 (False, False) NextTurn 1)),
        fst (snd (fst (claimInbox sample_inbox 0 (False, False) NextTurn 1))),
        snd (snd (fst (claimInbox sample_inbox 0 (False, False) NextTurn 1)))),
      Inr [sample_message ''x''])"
    using r by (simp add: prod_eq_iff)
  from claim_takes [OF this] show ?thesis by simp
qed

end
