(* ===== verification/Consumed_Work.thy ===== *)
theory Consumed_Work
  imports Repair
begin

text \<open>
  \<^verbatim>\<open>packages/core/agent/src/consumed-work.ts\<close>: how one agent log accounts for the work it
  consumed. The fold is compared with a specification that reads the log by positions.
\<close>

section \<open>The fold\<close>

fun accountsForClaim :: "turn_end_reason \<Rightarrow> bool" where
  "accountsForClaim Completed = False"
| "accountsForClaim _ = True"

record consumed_state =
  cw_stepped :: "int set"
  cw_claimed :: "int set"
  cw_open :: "int option"
  cw_end :: "event option"
  cw_dropped :: bool

definition consumedStart :: consumed_state where
  "consumedStart = \<lparr>cw_stepped = {}, cw_claimed = {}, cw_open = None, cw_end = None,
     cw_dropped = False\<rparr>"

definition consumedStep :: "consumed_state \<Rightarrow> event \<Rightarrow> consumed_state" where
  "consumedStep st e =
     (case ev_data e of
        TurnStart turn \<Rightarrow> st\<lparr>cw_open := Some turn\<rparr>
      | StepStart turn _ \<Rightarrow> st\<lparr>cw_stepped := insert turn (cw_stepped st)\<rparr>
      | InboxSpliced sp \<Rightarrow>
          if sp_removedCount sp = None then st
          else if sp_canceled sp then st\<lparr>cw_dropped := cw_dropped st \<or> sp_inserted sp = []\<rparr>
          else (case cw_open st of
                  None \<Rightarrow> st
                | Some t \<Rightarrow> st\<lparr>cw_claimed := insert t (cw_claimed st)\<rparr>)
      | TurnEnd turn reason \<Rightarrow>
          (let st1 = st\<lparr>cw_open := None\<rparr>
           in if turn \<in> cw_stepped st1
              then st1\<lparr>cw_stepped := cw_stepped st1 - {turn}, cw_end := Some e, cw_dropped := False\<rparr>
              else if turn \<in> cw_claimed st1
              then (let st2 = st1\<lparr>cw_claimed := cw_claimed st1 - {turn}\<rparr>
                    in if accountsForClaim reason
                       then st2\<lparr>cw_end := Some e, cw_dropped := False\<rparr> else st2)
              else st1)
      | _ \<Rightarrow> st)"

definition foldConsumedWork :: "event list \<Rightarrow> event option \<times> bool" where
  "foldConsumedWork events =
     (let st = foldl consumedStep consumedStart events in (cw_end st, cw_dropped st))"

section \<open>The specification\<close>

fun steppedTurn :: "event_data \<Rightarrow> int option" where
  "steppedTurn (StepStart turn _) = Some turn"
| "steppedTurn _ = None"

definition enteredStep :: "event list \<Rightarrow> int \<Rightarrow> bool" where
  "enteredStep es turn \<longleftrightarrow> list_ex (\<lambda>e. steppedTurn (ev_data e) = Some turn) es"

fun endedTurn :: "event_data \<Rightarrow> int option" where
  "endedTurn (TurnEnd turn _) = Some turn"
| "endedTurn _ = None"

definition endedTurns :: "event list \<Rightarrow> int list" where
  "endedTurns es = List.map_filter (endedTurn \<circ> ev_data) es"

text \<open>The turn that is open after a log, by its turn boundaries alone.\<close>

definition openAfter :: "event list \<Rightarrow> int option" where
  "openAfter es =
     foldl (\<lambda>t e. case ev_data e of TurnStart n \<Rightarrow> Some n | TurnEnd _ _ \<Rightarrow> None | _ \<Rightarrow> t) None es"

fun isClaim :: "event_data \<Rightarrow> bool" where
  "isClaim (InboxSpliced sp) = (sp_removedCount sp \<noteq> None \<and> \<not> sp_canceled sp)"
| "isClaim _ = False"

fun isDrop :: "event_data \<Rightarrow> bool" where
  "isDrop (InboxSpliced sp) = (sp_removedCount sp \<noteq> None \<and> sp_canceled sp \<and> sp_inserted sp = [])"
| "isDrop _ = False"

definition tookInput :: "event list \<Rightarrow> int \<Rightarrow> bool" where
  "tookInput es turn \<longleftrightarrow>
     list_ex (\<lambda>i. isClaim (ev_data (es ! i)) \<and> openAfter (take i es) = Some turn) [0..<length es]"

text \<open>
  Position \<open>i\<close> is an accounting end: the end of a turn that entered a step, or of one that took
  input and did not simply complete.
\<close>

definition accountsAt :: "event list \<Rightarrow> nat \<Rightarrow> bool" where
  "accountsAt es i \<longleftrightarrow>
     (case ev_data (es ! i) of
        TurnEnd turn reason \<Rightarrow> enteredStep (take i es) turn
          \<or> (tookInput (take i es) turn \<and> accountsForClaim reason)
      | _ \<Rightarrow> False)"

definition accountingEnds :: "event list \<Rightarrow> nat list" where
  "accountingEnds es = filter (accountsAt es) [0..<length es]"

definition droppedAfter :: "event list \<Rightarrow> bool" where
  "droppedAfter es \<longleftrightarrow>
     list_ex (\<lambda>j. isDrop (ev_data (es ! j)) \<and> list_all (\<lambda>i. i < j) (accountingEnds es)) [0..<length es]"

section \<open>The fold meets the specification\<close>

lemma enteredStep_snoc:
  "enteredStep (es @ [e]) t \<longleftrightarrow> enteredStep es t \<or> steppedTurn (ev_data e) = Some t"
  by (simp add: enteredStep_def)

lemma openAfter_snoc:
  "openAfter (es @ [e]) =
     (case ev_data e of TurnStart n \<Rightarrow> Some n | TurnEnd _ _ \<Rightarrow> None | _ \<Rightarrow> openAfter es)"
  by (simp add: openAfter_def split: event_data.split)

lemma tookInput_snoc:
  "tookInput (es @ [e]) t \<longleftrightarrow> tookInput es t \<or> (isClaim (ev_data e) \<and> openAfter es = Some t)"
proof -
  have "(isClaim (ev_data ((es @ [e]) ! i)) \<and> openAfter (take i (es @ [e])) = Some t)
      = (isClaim (ev_data (es ! i)) \<and> openAfter (take i es) = Some t)" if "i < length es" for i
    using that by (simp add: nth_append)
  then show ?thesis by (auto simp: tookInput_def list_ex_iff)
qed

lemma endedTurns_snoc:
  "endedTurns (es @ [e]) = endedTurns es @ (case endedTurn (ev_data e) of None \<Rightarrow> [] | Some t \<Rightarrow> [t])"
  by (simp add: endedTurns_def array_simps List.map_filter_simps split: option.split)

lemma accountingEnds_snoc:
  "accountingEnds (es @ [e]) = accountingEnds es @
     (if (case ev_data e of
        TurnEnd turn reason \<Rightarrow> enteredStep es turn \<or> (tookInput es turn \<and> accountsForClaim reason)
      | _ \<Rightarrow> False) then [length es] else [])"
proof -
  have "accountsAt (es @ [e]) i = accountsAt es i" if "i < length es" for i
  proof -
    have below: "take i (es @ [e]) = take i es" "(es @ [e]) ! i = es ! i"
      using that by (simp_all add: nth_append)
    show ?thesis unfolding accountsAt_def below by (rule refl)
  qed
  moreover have "accountsAt (es @ [e]) (length es) = (case ev_data e of
        TurnEnd turn reason \<Rightarrow> enteredStep es turn \<or> (tookInput es turn \<and> accountsForClaim reason)
      | _ \<Rightarrow> False)"
    by (simp add: accountsAt_def split: event_data.split)
  moreover have "filter (accountsAt (es @ [e])) [0..<length es] = filter (accountsAt es) [0..<length es]"
    by (rule filter_cong) (simp_all add: calculation(1))
  ultimately show ?thesis by (simp add: accountingEnds_def)
qed

lemma accountingEnds_below: "i \<in> set (accountingEnds es) \<Longrightarrow> i < length es"
  by (simp add: accountingEnds_def)

lemma droppedAfter_snoc:
  "droppedAfter (es @ [e]) \<longleftrightarrow>
     (accountingEnds (es @ [e]) = accountingEnds es \<and> (droppedAfter es \<or> isDrop (ev_data e)))"
proof (cases "accountingEnds (es @ [e]) = accountingEnds es")
  case True
  then show ?thesis
    using accountingEnds_below unfolding droppedAfter_def True
    by (auto simp: nth_append list_ex_iff list_all_iff)
next
  case False
  then have new: "accountingEnds (es @ [e]) = accountingEnds es @ [length es]"
    by (auto simp: accountingEnds_snoc split: if_splits)
  show ?thesis using False by (auto simp: droppedAfter_def new list_ex_iff list_all_iff)
qed

definition consumedInv :: "event list \<Rightarrow> consumed_state \<Rightarrow> bool" where
  "consumedInv es st \<longleftrightarrow>
     (\<forall>t. t \<notin> set (endedTurns es) \<longrightarrow> (t \<in> cw_stepped st \<longleftrightarrow> enteredStep es t)
        \<and> (t \<in> cw_claimed st \<longleftrightarrow> tookInput es t))
     \<and> cw_open st = openAfter es
     \<and> cw_end st = (if accountingEnds es = [] then None else Some (es ! last (accountingEnds es)))
     \<and> cw_dropped st = droppedAfter es"

lemma consumedInv_step:
  assumes inv: "consumedInv es st" and fresh: "distinct (endedTurns (es @ [e]))"
  shows "consumedInv (es @ [e]) (consumedStep st e)"
proof -
  have last: "accountingEnds es \<noteq> [] \<Longrightarrow> last (accountingEnds es) < length es"
    using accountingEnds_below last_in_set by blast
  then have keep: "accountingEnds es \<noteq> [] \<Longrightarrow>
      (es @ [e]) ! last (accountingEnds es) = es ! last (accountingEnds es)"
    by (simp add: nth_append)
  show ?thesis
  proof (cases "ev_data e")
    case (TurnEnd turn reason)
    have new: "turn \<notin> set (endedTurns es)" using fresh TurnEnd by (simp add: endedTurns_snoc)
    show ?thesis
      using inv new keep TurnEnd
      by (auto simp: consumedInv_def consumedStep_def Let_def enteredStep_snoc tookInput_snoc
          openAfter_snoc endedTurns_snoc accountingEnds_snoc droppedAfter_snoc)
  next
    case (InboxSpliced sp)
    then show ?thesis
      using inv keep
      by (auto simp: consumedInv_def consumedStep_def enteredStep_snoc tookInput_snoc
          openAfter_snoc endedTurns_snoc accountingEnds_snoc droppedAfter_snoc split: option.splits)
  qed (use inv keep in \<open>auto simp: consumedInv_def consumedStep_def enteredStep_snoc tookInput_snoc
          openAfter_snoc endedTurns_snoc accountingEnds_snoc droppedAfter_snoc\<close>)
qed

lemma consumedInv_fold: "distinct (endedTurns es) \<Longrightarrow> consumedInv es (foldl consumedStep consumedStart es)"
proof (induction es rule: rev_induct)
  case Nil
  then show ?case
    by (simp add: consumedInv_def consumedStart_def endedTurns_def enteredStep_def tookInput_def
        openAfter_def accountingEnds_def droppedAfter_def)
next
  case (snoc e es)
  then have "distinct (endedTurns es)" by (simp add: endedTurns_snoc)
  from consumedInv_step [OF snoc.IH [OF this] snoc.prems] show ?case by simp
qed

text \<open>
  Claim C13: the single pass computes the account. In a log that ends each turn at most once, the
  reported end is the last one that accounts for consumed work, and work is reported as dropped
  exactly when a cancellation that left nothing behind comes after it.
\<close>

theorem foldConsumedWork_correct:
  assumes "distinct (endedTurns es)"
  shows "foldConsumedWork es =
     ((if accountingEnds es = [] then None else Some (es ! last (accountingEnds es))), droppedAfter es)"
  using consumedInv_fold [OF assms] by (simp add: foldConsumedWork_def consumedInv_def Let_def)

definition sample_work :: "event list" where
  "sample_work =
     [plainEvent 0 0 (TurnStart 1),
      plainEvent 1 0 (InboxSpliced \<lparr>sp_target = NextTurn, sp_start = 0, sp_removedCount = Some 1,
        sp_inserted = [], sp_canceled = False\<rparr>),
      plainEvent 2 0 (TurnEnd 1 Blocked),
      plainEvent 3 0 (InboxSpliced \<lparr>sp_target = NextTurn, sp_start = 0, sp_removedCount = Some 1,
        sp_inserted = [], sp_canceled = True\<rparr>)]"

theorem foldConsumedWork_correct_witness:
  "accountingEnds sample_work = [2] \<and> droppedAfter sample_work
   \<and> foldConsumedWork sample_work = (Some (sample_work ! 2), True)"
proof -
  have f: "foldConsumedWork sample_work = (Some (sample_work ! 2), True)" by code_simp
  have d: "distinct (endedTurns sample_work)" by code_simp
  have e: "accountingEnds sample_work = [2]" by code_simp
  from foldConsumedWork_correct [OF d] show ?thesis using e f by simp
qed

end
