(* ===== verification/Scope.thy ===== *)
theory Scope
  imports Prelude
begin

text \<open>
  \<^verbatim>\<open>packages/core/scope/src/index.ts\<close> and \<^verbatim>\<open>store.ts\<close>: nested registration scopes. A scope
  key is an object, named by a number. The parent relation is a weak map that only
  \<open>bindScopeParent\<close> and \<open>rebind\<close> write; its readers walk it to the root, and every walk is a
  partial function, so that a cycle would be the value \<open>None\<close>. Tables of entries hand out an undo
  for each insertion.
\<close>

section \<open>The parent relation\<close>

type_synonym scope_parents = "nat \<rightharpoonup> nat"

datatype scope_error = ScopeCycle | ScopeAlreadyBound | DuplicateName string

text \<open>The loop of \<open>linkScopeParent\<close>: does the walk from \<open>cursor\<close> meet \<open>key\<close>?\<close>

partial_function (option) walkMeets :: "scope_parents \<Rightarrow> nat \<Rightarrow> nat \<Rightarrow> bool option" where
  "walkMeets p cursor key =
     (if cursor = key then Some True
      else case p cursor of None \<Rightarrow> Some False | Some up \<Rightarrow> walkMeets p up key)"

partial_function (option) scopeChain :: "scope_parents \<Rightarrow> nat \<Rightarrow> nat list option" where
  "scopeChain p key =
     (case p key of
        None \<Rightarrow> Some [key]
      | Some up \<Rightarrow> Option.bind (scopeChain p up) (\<lambda>rest. Some (key # rest)))"

declare walkMeets.simps [code] scopeChain.simps [code]

text \<open>The results are \<open>None\<close> when the walk does not end.\<close>

definition linkScopeParent :: "scope_parents \<Rightarrow> nat \<Rightarrow> nat \<Rightarrow> (scope_error + scope_parents) option" where
  "linkScopeParent p key parent =
     map_option (\<lambda>meets. if meets then Inl ScopeCycle else Inr (p(key \<mapsto> parent)))
       (walkMeets p parent key)"

definition bindScopeParent :: "scope_parents \<Rightarrow> nat \<Rightarrow> nat \<Rightarrow> (scope_error + scope_parents) option" where
  "bindScopeParent p key parent =
     (if p key \<noteq> None then Some (Inl ScopeAlreadyBound) else linkScopeParent p key parent)"

definition rebind :: "scope_parents \<Rightarrow> nat \<Rightarrow> nat \<Rightarrow> (scope_error + scope_parents) option" where
  "rebind p key next = linkScopeParent p key next"

definition scopeParentOf :: "scope_parents \<Rightarrow> nat \<Rightarrow> nat option" where
  "scopeParentOf p key = p key"

definition scopeChainOf :: "scope_parents \<Rightarrow> nat option \<Rightarrow> nat list option" where
  "scopeChainOf p key = (case key of None \<Rightarrow> Some [] | Some k \<Rightarrow> scopeChain p k)"

text \<open>
  The filter of a carrier: \<open>base\<close> is the verdict of the subject's own filter, \<open>tag\<close> the scope of
  the listener, \<open>key\<close> the routed scope.
\<close>

definition scopeTarget :: "scope_parents \<Rightarrow> bool \<Rightarrow> nat option \<Rightarrow> nat option \<Rightarrow> bool option" where
  "scopeTarget p base key tag =
     (if \<not> base then Some False
      else case tag of
        None \<Rightarrow> Some True
      | Some t \<Rightarrow> (case key of None \<Rightarrow> Some False | Some k \<Rightarrow> walkMeets p k t))"

section \<open>Every walk ends\<close>

definition parentRel :: "scope_parents \<Rightarrow> (nat \<times> nat) set" where
  "parentRel p = {(up, k). p k = Some up}"

definition rooted :: "scope_parents \<Rightarrow> bool" where
  "rooted p \<longleftrightarrow> finite (dom p) \<and> acyclic (parentRel p)"

lemma rooted_wf:
  assumes "rooted p"
  shows "wf (parentRel p)"
proof -
  have "parentRel p \<subseteq> (\<lambda>k. (the (p k), k)) ` dom p" by (force simp: parentRel_def)
  then have "finite (parentRel p)" using assms finite_subset rooted_def by blast
  then show ?thesis using assms by (simp add: rooted_def finite_acyclic_wf)
qed

lemma walkMeets_ends:
  assumes "rooted p"
  shows "walkMeets p cursor key = Some ((key, cursor) \<in> (parentRel p)\<^sup>*)"
proof (induction cursor rule: wf_induct_rule [OF rooted_wf [OF assms]])
  case (1 cursor)
  show ?case
  proof (cases "cursor = key")
    case True
    then show ?thesis by (simp add: walkMeets.simps)
  next
    case ne: False
    show ?thesis
    proof (cases "p cursor")
      case None
      then have "(x, cursor) \<notin> parentRel p" for x by (simp add: parentRel_def)
      then have "(key, cursor) \<notin> (parentRel p)\<^sup>*" using ne by (metis rtranclE)
      with None ne show ?thesis by (simp add: walkMeets.simps)
    next
      case (Some up)
      then have step: "(x, cursor) \<in> parentRel p \<longleftrightarrow> x = up" for x by (auto simp: parentRel_def)
      have "(key, cursor) \<in> (parentRel p)\<^sup>* \<longleftrightarrow> (key, up) \<in> (parentRel p)\<^sup>*"
        using ne step by (metis rtranclE rtrancl.rtrancl_into_rtrancl)
      then show ?thesis using 1 step [of up] ne Some
        by (subst walkMeets.simps) simp
    qed
  qed
qed

lemma scopeChain_ends:
  assumes "rooted p"
  shows "\<exists>rest. scopeChain p key = Some (key # rest) \<and> distinct (key # rest)
     \<and> set (key # rest) = {a. (a, key) \<in> (parentRel p)\<^sup>*}"
proof (induction key rule: wf_induct_rule [OF rooted_wf [OF assms]])
  case (1 key)
  show ?case
  proof (cases "p key")
    case None
    then have none: "(x, key) \<notin> parentRel p" for x by (simp add: parentRel_def)
    have "{a. (a, key) \<in> (parentRel p)\<^sup>*} = {key}" using none by (auto elim: rtranclE)
    then show ?thesis using None by (simp add: scopeChain.simps)
  next
    case (Some up)
    then have step: "(x, key) \<in> parentRel p \<longleftrightarrow> x = up" for x by (auto simp: parentRel_def)
    obtain rest where r: "scopeChain p up = Some (up # rest)" "distinct (up # rest)"
      "set (up # rest) = {a. (a, up) \<in> (parentRel p)\<^sup>*}" using 1 step by blast
    have eq: "{a. (a, key) \<in> (parentRel p)\<^sup>*} = insert key {a. (a, up) \<in> (parentRel p)\<^sup>*}"
      using step by (auto elim: rtranclE intro: rtrancl.rtrancl_into_rtrancl)
    have "key \<notin> set (up # rest)"
    proof
      assume "key \<in> set (up # rest)"
      then have "(key, up) \<in> (parentRel p)\<^sup>*" using r(3) by blast
      then have "(key, key) \<in> (parentRel p)\<^sup>+" using step by (metis rtrancl_into_trancl1)
      then show False using assms by (auto simp: rooted_def acyclic_def)
    qed
    then show ?thesis
      using r eq Some by (subst scopeChain.simps) auto
  qed
qed

lemma link_rooted:
  assumes "rooted p" and "p' = p(key \<mapsto> parent)" and "(key, parent) \<notin> (parentRel p)\<^sup>*"
  shows "rooted p'"
proof -
  have sub: "parentRel p' \<subseteq> insert (parent, key) (parentRel p)"
    using assms(2) by (auto simp: parentRel_def split: if_splits)
  have "acyclic (insert (parent, key) (parentRel p))"
    using assms(1,3) by (simp add: rooted_def acyclic_insert)
  then have "acyclic (parentRel p')" using sub by (rule acyclic_subset)
  then show ?thesis using assms(1,2) by (simp add: rooted_def)
qed

text \<open>The parent relations a program can build.\<close>

inductive scope_reach :: "scope_parents \<Rightarrow> bool" where
  none: "scope_reach Map.empty"
| bound: "scope_reach p \<Longrightarrow> bindScopeParent p key parent = Some (Inr p') \<Longrightarrow> scope_reach p'"
| rebound: "scope_reach p \<Longrightarrow> rebind p key parent = Some (Inr p') \<Longrightarrow> scope_reach p'"

lemma reach_rooted: "scope_reach p \<Longrightarrow> rooted p"
proof (induction rule: scope_reach.induct)
  case none
  then show ?case by (simp add: rooted_def parentRel_def acyclic_def)
next
  case (bound p key parent p')
  then show ?case
    using walkMeets_ends [OF bound.IH, of parent key] link_rooted [OF bound.IH]
    by (auto simp: bindScopeParent_def linkScopeParent_def split: if_splits)
next
  case (rebound p key parent p')
  then show ?case
    using walkMeets_ends [OF rebound.IH, of parent key] link_rooted [OF rebound.IH]
    by (auto simp: rebind_def linkScopeParent_def split: if_splits)
qed

text \<open>
  Result: scope walks always end. Whatever was bound and re-bound, in whatever order, the chain
  of a key is finite without repetition and holds exactly its ancestors; a binding is answered,
  and it is refused exactly when the parent is the key or has it as an ancestor; and an event
  routed to a key reaches exactly the listeners that are untagged or tagged with an ancestor.
\<close>

theorem scope_walks_end:
  assumes "scope_reach p"
  shows "(\<exists>chain. scopeChainOf p (Some key) = Some chain \<and> distinct chain
            \<and> set chain = {a. (a, key) \<in> (parentRel p)\<^sup>*})
     \<and> rebind p key parent =
          Some (if (key, parent) \<in> (parentRel p)\<^sup>* then Inl ScopeCycle else Inr (p(key \<mapsto> parent)))
     \<and> scopeTarget p True (Some key) (Some tag) = Some ((tag, key) \<in> (parentRel p)\<^sup>*)"
proof -
  note r = reach_rooted [OF assms]
  obtain rest where "scopeChain p key = Some (key # rest)" "distinct (key # rest)"
    "set (key # rest) = {a. (a, key) \<in> (parentRel p)\<^sup>*}" using scopeChain_ends [OF r] by blast
  then show ?thesis
    by (simp add: scopeChainOf_def rebind_def linkScopeParent_def scopeTarget_def walkMeets_ends [OF r])
qed

theorem scope_walks_end_witness:
  "\<exists>p. bindScopeParent Map.empty 1 2 = Some (Inr p)
     \<and> rebind p 2 1 = Some (Inl ScopeCycle)"
proof -
  have p: "bindScopeParent Map.empty 1 2 = Some (Inr [1 \<mapsto> 2])"
    by (simp add: bindScopeParent_def linkScopeParent_def walkMeets.simps)
  have reach: "scope_reach [1 \<mapsto> 2]" by (rule scope_reach.bound [OF scope_reach.none p])
  have "(2, 1) \<in> (parentRel [1 \<mapsto> 2])\<^sup>*" by (rule r_into_rtrancl) (simp add: parentRel_def)
  with scope_walks_end [OF reach, of 2 1 0] p show ?thesis by auto
qed

end
