(* ===== verification/Scope_Store.thy ===== *)
theory Scope_Store
  imports Scope
begin

text \<open>
  \<^verbatim>\<open>packages/core/scope/src/store.ts\<close>: insertion-ordered tables whose insertions hand out an
  undo, and the layering of scoped tables over the global one. The undo of an insertion closes
  over the \<^verbatim>\<open>Map\<close> object it inserted into, and a table that was drained starts a new
  \<^verbatim>\<open>Map\<close>; the objects are numbered, and an undo is a triple of its object, its name and
  whether it is still active.
\<close>

section \<open>Named entries\<close>

record 'v named_entries =
  ne_maps :: "nat \<Rightarrow> (string, 'v) omap"
  ne_data :: nat
  ne_next :: nat
  ne_undos :: "(nat \<times> string \<times> bool) list"

definition emptyEntries :: "'v named_entries" where
  "emptyEntries = \<lparr>ne_maps = (\<lambda>_. []), ne_data = 0, ne_next = 1, ne_undos = []\<rparr>"

definition entriesOf :: "'v named_entries \<Rightarrow> (string, 'v) omap" where
  "entriesOf t = ne_maps t (ne_data t)"

definition insertEntry ::
  "'v named_entries \<Rightarrow> string \<Rightarrow> 'v \<Rightarrow> scope_error + ('v named_entries \<times> nat)" where
  "insertEntry t name v =
     (if map_of (entriesOf t) name \<noteq> None then Inl (DuplicateName name)
      else Inr (t\<lparr>ne_maps := (ne_maps t)(ne_data t := mapSet (entriesOf t) name v),
                  ne_undos := ne_undos t @ [(ne_data t, name, True)]\<rparr>,
                length (ne_undos t)))"

definition undoEntry :: "'v named_entries \<Rightarrow> nat \<Rightarrow> 'v named_entries" where
  "undoEntry t i =
     (if length (ne_undos t) \<le> i then t
      else case ne_undos t ! i of
        (d, name, active) \<Rightarrow>
          if \<not> active then t
          else
            (let m = mapDelete (ne_maps t d) name;
                 t1 = t\<lparr>ne_undos := (ne_undos t)[i := (d, name, False)],
                        ne_maps := (ne_maps t)(d := m)\<rparr>
             in if m = [] \<and> ne_data t = d
                then t1\<lparr>ne_data := ne_next t1, ne_maps := (ne_maps t1)(ne_next t1 := []),
                        ne_next := Suc (ne_next t1)\<rparr>
                else t1))"

definition getEntry :: "'v named_entries \<Rightarrow> string \<Rightarrow> 'v option" where
  "getEntry t name = map_of (entriesOf t) name"

section \<open>Layers\<close>

definition overlay :: "(string, 'v) omap \<Rightarrow> (string, 'v) omap \<Rightarrow> (string, 'v) omap" where
  "overlay m t = foldl (\<lambda>m (name, v). mapSet m name v) m t"

definition chainLayers ::
  "scope_parents \<Rightarrow> (nat \<rightharpoonup> (string, 'v) omap) \<Rightarrow> nat option \<Rightarrow> (string, 'v) omap list option" where
  "chainLayers p scoped scope =
     map_option (\<lambda>ks. List.map_filter scoped (rev ks)) (scopeChainOf p scope)"

definition merge ::
  "scope_parents \<Rightarrow> (string, 'v) omap \<Rightarrow> (nat \<rightharpoonup> (string, 'v) omap) \<Rightarrow> nat option
    \<Rightarrow> (string, 'v) omap option" where
  "merge p global scoped scope =
     map_option (\<lambda>layers. foldl overlay global layers) (chainLayers p scoped scope)"

section \<open>The undo of an insertion removes that insertion\<close>

text \<open>
  The tables a program can build, with every insertion it made; the undo of insertion \<open>i\<close> may be
  called any number of times.
\<close>

inductive entries_reach :: "'v named_entries \<Rightarrow> (string \<times> 'v) list \<Rightarrow> bool" where
  start: "entries_reach emptyEntries []"
| inserted: "entries_reach t ins \<Longrightarrow> insertEntry t name v = Inr (t', i)
    \<Longrightarrow> entries_reach t' (ins @ [(name, v)])"
| undone: "entries_reach t ins \<Longrightarrow> entries_reach (undoEntry t i) ins"

definition isActive :: "nat \<times> string \<times> bool \<Rightarrow> bool" where
  "isActive u \<longleftrightarrow> snd (snd u)"

definition liveEntries :: "(nat \<times> string \<times> bool) list \<Rightarrow> 'a list \<Rightarrow> 'a list" where
  "liveEntries us ins = map snd (filter (\<lambda>(u, e). isActive u) (zip us ins))"

definition entriesInv :: "'v named_entries \<Rightarrow> (string \<times> 'v) list \<Rightarrow> bool" where
  "entriesInv t ins \<longleftrightarrow>
     length (ne_undos t) = length ins \<and> ne_data t < ne_next t
     \<and> (\<forall>i < length ins. fst (snd (ne_undos t ! i)) = fst (ins ! i))
     \<and> (\<forall>u \<in> set (ne_undos t). isActive u \<longrightarrow> fst u = ne_data t)
     \<and> entriesOf t = liveEntries (ne_undos t) ins
     \<and> distinct (map fst (entriesOf t))"

lemma liveEntries_snoc:
  "length us = length ins \<Longrightarrow>
     liveEntries (us @ [u]) (ins @ [e]) = liveEntries us ins @ (if isActive u then [e] else [])"
  by (simp add: liveEntries_def)

lemma liveEntries_off:
  assumes "length us = length ins" and "i < length us" and "isActive (us ! i)" and "\<not> isActive u"
    and "distinct (map fst (liveEntries us ins))"
  shows "liveEntries (us[i := u]) ins = mapDelete (liveEntries us ins) (fst (ins ! i))"
proof -
  have split: "us = take i us @ us ! i # drop (Suc i) us" "ins = take i ins @ ins ! i # drop (Suc i) ins"
    using assms(1,2) by (simp_all add: id_take_nth_drop [symmetric])
  let ?a = "liveEntries (take i us) (take i ins)" and ?c = "liveEntries (drop (Suc i) us) (drop (Suc i) ins)"
  have live: "liveEntries us ins = ?a @ ins ! i # ?c"
    using assms(1-3) by (subst split(1), subst split(2)) (simp add: liveEntries_def)
  have off: "liveEntries (us[i := u]) ins = ?a @ ?c"
    using assms(1,2,4) by (subst split(2)) (simp add: upd_conv_take_nth_drop liveEntries_def)
  have "fst (ins ! i) \<notin> fst ` set ?a" "fst (ins ! i) \<notin> fst ` set ?c"
    using assms(5) unfolding live by auto
  then have "mapDelete ?a (fst (ins ! i)) = ?a" "mapDelete ?c (fst (ins ! i)) = ?c"
    by (simp_all add: mapDelete_absent)
  then show ?thesis unfolding live off by (simp add: mapDelete_def)
qed

lemma entriesInv_insert:
  assumes "entriesInv t ins" and "insertEntry t name v = Inr (t', i)"
  shows "entriesInv t' (ins @ [(name, v)])"
proof -
  have new: "name \<notin> fst ` set (entriesOf t)"
    using assms(2) by (auto simp: insertEntry_def map_of_eq_None_iff split: if_splits)
  have t': "t' = t\<lparr>ne_maps := (ne_maps t)(ne_data t := mapSet (entriesOf t) name v),
      ne_undos := ne_undos t @ [(ne_data t, name, True)]\<rparr>"
    using assms(2) by (auto simp: insertEntry_def split: if_splits)
  have e: "entriesOf t' = entriesOf t @ [(name, v)]"
    by (simp add: t' entriesOf_def mapSet_absent [OF new [unfolded entriesOf_def]])
  show ?thesis
    using assms(1) new unfolding entriesInv_def e
    by (auto simp: t' liveEntries_snoc nth_append isActive_def less_Suc_eq)
qed

lemma entriesInv_undo:
  assumes inv: "entriesInv t ins"
  shows "entriesInv (undoEntry t i) ins"
proof (cases "i < length (ne_undos t) \<and> isActive (ne_undos t ! i)")
  case False
  then have "undoEntry t i = t"
    by (auto simp: undoEntry_def isActive_def split: prod.splits)
  then show ?thesis using inv by simp
next
  case True
  obtain d name where u: "ne_undos t ! i = (d, name, True)"
    using True by (cases "ne_undos t ! i") (auto simp: isActive_def)
  have d: "d = ne_data t" and name: "name = fst (ins ! i)"
    using inv True u by (auto simp: entriesInv_def) (metis fst_conv nth_mem)+
  let ?m = "mapDelete (entriesOf t) name" and ?us = "(ne_undos t)[i := (d, name, False)]"
  have len: "length (ne_undos t) = length ins" using inv by (simp add: entriesInv_def)
  have same: "entriesOf t = liveEntries (ne_undos t) ins" and dist0: "distinct (map fst (entriesOf t))"
    using inv unfolding entriesInv_def by blast+
  have live: "liveEntries ?us ins = ?m"
    unfolding same name
    by (rule liveEntries_off [OF len]) (use True dist0 in \<open>simp_all add: isActive_def same\<close>)
  have dist: "distinct (map fst ?m)" by (rule distinct_mapDelete [OF dist0])
  have names: "\<forall>j < length ins. fst (snd (?us ! j)) = fst (ins ! j)"
    using inv True u name by (auto simp: entriesInv_def nth_list_update)
  have act: "\<forall>x \<in> set ?us. isActive x \<longrightarrow> fst x = ne_data t"
    using inv by (auto simp: entriesInv_def isActive_def dest!: set_update_subset_insert [THEN subsetD])
  show ?thesis
  proof (cases "?m = []")
    case False
    then have "undoEntry t i = t\<lparr>ne_undos := ?us, ne_maps := (ne_maps t)(d := ?m)\<rparr>"
      using True u d by (simp add: undoEntry_def Let_def entriesOf_def)
    then show ?thesis
      using inv live dist names act d by (simp add: entriesInv_def entriesOf_def)
  next
    case True': True
    then have t': "undoEntry t i = t\<lparr>ne_undos := ?us,
        ne_maps := (ne_maps t)(d := ?m, ne_next t := []), ne_data := ne_next t,
        ne_next := Suc (ne_next t)\<rparr>"
      using True u d by (simp add: undoEntry_def Let_def entriesOf_def)
    have "\<not> isActive x" if "x \<in> set ?us" for x
    proof
      assume "isActive x"
      with that obtain j where "j < length ?us" "?us ! j = x" by (metis in_set_conv_nth)
      with \<open>isActive x\<close> len have "ins ! j \<in> set (liveEntries ?us ins)"
        by (force simp: liveEntries_def set_zip)
      with live True' show False by simp
    qed
    then show ?thesis
      using live True' names len by (auto simp: t' entriesInv_def entriesOf_def)
  qed
qed

lemma entries_reach_inv: "entries_reach t ins \<Longrightarrow> entriesInv t ins"
proof (induction rule: entries_reach.induct)
  case start
  then show ?case by (simp add: entriesInv_def emptyEntries_def entriesOf_def liveEntries_def)
next
  case (inserted t ins name v t' i)
  show ?case by (rule entriesInv_insert [OF inserted.IH inserted.hyps(2)])
next
  case (undone t ins i)
  show ?case by (rule entriesInv_undo [OF undone.IH])
qed

text \<open>
  Result: an undo removes its own insertion and nothing else. Whatever was inserted, undone,
  undone twice or inserted again under the same name, the table holds exactly the insertions whose
  undo has not run, in insertion order, with no name twice.
\<close>

theorem entries_are_live_insertions:
  assumes "entries_reach t ins"
  shows "entriesOf t = liveEntries (ne_undos t) ins \<and> distinct (map fst (entriesOf t))"
  using entries_reach_inv [OF assms] unfolding entriesInv_def by blast

section \<open>The nearest scope wins\<close>

lemma map_of_overlay:
  "distinct (map fst t) \<Longrightarrow> map_of (overlay m t) name =
     (case map_of t name of None \<Rightarrow> map_of m name | Some v \<Rightarrow> Some v)"
proof (induction t arbitrary: m)
  case Nil
  then show ?case by (simp add: overlay_def)
next
  case (Cons e t)
  obtain n v where e: "e = (n, v)" by (cases e)
  have "map_of (overlay m (e # t)) name = map_of (overlay (mapSet m n v) t) name"
    by (simp add: overlay_def e)
  also have "\<dots> = (case map_of t name of None \<Rightarrow> map_of (mapSet m n v) name | Some w \<Rightarrow> Some w)"
    using Cons by simp
  also have "\<dots> = (case map_of (e # t) name of None \<Rightarrow> map_of m name | Some w \<Rightarrow> Some w)"
  proof (cases "name = n")
    case True
    have "map_of t n = None" using Cons.prems by (simp add: e map_of_eq_None_iff)
    then show ?thesis using True by (simp add: e)
  next
    case False
    then show ?thesis by (simp add: e split: option.split)
  qed
  finally show ?case .
qed

fun nearest :: "(nat \<rightharpoonup> (string, 'v) omap) \<Rightarrow> nat list \<Rightarrow> string \<Rightarrow> 'v option" where
  "nearest scoped [] name = None"
| "nearest scoped (k # ks) name =
     (case Option.bind (scoped k) (\<lambda>t. map_of t name) of
        Some v \<Rightarrow> Some v
      | None \<Rightarrow> nearest scoped ks name)"

lemma merge_chain:
  assumes "\<forall>k t. scoped k = Some t \<longrightarrow> distinct (map fst t)"
  shows "map_of (foldl overlay global (List.map_filter scoped (rev ks))) name =
     (case nearest scoped ks name of None \<Rightarrow> map_of global name | Some v \<Rightarrow> Some v)"
proof (induction ks)
  case Nil
  then show ?case by (simp add: List.map_filter_def)
next
  case (Cons k ks)
  show ?case
  proof (cases "scoped k")
    case None
    then show ?thesis using Cons by (simp add: array_simps List.map_filter_simps)
  next
    case (Some t)
    then have "distinct (map fst t)" using assms by blast
    then show ?thesis
      using Cons Some map_of_overlay [of t] by (simp add: array_simps List.map_filter_simps split: option.split)
  qed
qed

text \<open>
  Claim C14: name resolution over nested scopes. The merged view always exists, and a name resolves
  to the entry of the nearest scope of the chain that has it, and to the global one otherwise.
\<close>

theorem merge_nearest_wins:
  assumes "scope_reach p" and "\<forall>k t. scoped k = Some t \<longrightarrow> distinct (map fst t)"
  shows "\<exists>chain merged. scopeChainOf p (Some key) = Some (key # chain)
     \<and> merge p global scoped (Some key) = Some merged
     \<and> map_of merged name =
          (case nearest scoped (key # chain) name of None \<Rightarrow> map_of global name | Some v \<Rightarrow> Some v)"
proof -
  obtain rest where c: "scopeChain p key = Some (key # rest)"
    using scopeChain_ends [OF reach_rooted [OF assms(1)]] by blast
  show ?thesis
    by (intro exI [of _ rest] exI [of _ "foldl overlay global (List.map_filter scoped (rev (key # rest)))"])
      (simp only: scopeChainOf_def c merge_def chainLayers_def option.case option.map
        merge_chain [OF assms(2)] simp_thms)
qed

theorem entries_are_live_insertions_witness:
  "\<exists>t. entriesOf (undoEntry (undoEntry t 0) 0) = [(''b'', 2 :: nat)]"
proof -
  let ?t = "fst (projr (insertEntry (fst (projr (insertEntry emptyEntries ''a'' (1 :: nat)))) ''b'' 2))"
  have one: "insertEntry emptyEntries ''a'' (1 :: nat) = Inr (fst (projr (insertEntry emptyEntries ''a'' 1)), 0)"
    by (simp add: insertEntry_def emptyEntries_def entriesOf_def)
  have two: "insertEntry (fst (projr (insertEntry emptyEntries ''a'' (1 :: nat)))) ''b'' 2 = Inr (?t, 1)"
    by (simp add: insertEntry_def emptyEntries_def entriesOf_def)
  have "entries_reach ?t ([] @ [(''a'', 1)] @ [(''b'', 2)])"
    using entries_reach.inserted [OF entries_reach.inserted [OF entries_reach.start one] two] by simp
  then have "entries_reach (undoEntry (undoEntry ?t 0) 0) ([] @ [(''a'', 1)] @ [(''b'', 2)])"
    by (intro entries_reach.undone)
  from entries_are_live_insertions [OF this]
  have "entriesOf (undoEntry (undoEntry ?t 0) 0)
      = liveEntries (ne_undos (undoEntry (undoEntry ?t 0) 0)) [(''a'', 1), (''b'', 2)]" by simp
  also have "\<dots> = [(''b'', 2)]"
    by (simp add: insertEntry_def emptyEntries_def entriesOf_def undoEntry_def mapDelete_def
        liveEntries_def isActive_def Let_def)
  finally show ?thesis by blast
qed

theorem merge_nearest_wins_witness:
  "\<exists>merged. merge [1 \<mapsto> 2] [(''n'', 0 :: nat)] [1 \<mapsto> [(''n'', 1)], 2 \<mapsto> [(''n'', 2)]] (Some 1) = Some merged
     \<and> map_of merged ''n'' = Some 1"
proof -
  have p: "bindScopeParent Map.empty 1 2 = Some (Inr [1 \<mapsto> 2])"
    by (simp add: bindScopeParent_def linkScopeParent_def walkMeets.simps)
  have reach: "scope_reach [1 \<mapsto> 2]" by (rule scope_reach.bound [OF scope_reach.none p])
  have "\<forall>k t. [1 \<mapsto> [(''n'', 1 :: nat)], 2 \<mapsto> [(''n'', 2)]] k = Some t \<longrightarrow> distinct (map fst t)"
    by auto
  from merge_nearest_wins [OF reach this, of 1 "[(''n'', 0)]" "''n''"]
  obtain chain merged where
    m: "merge [1 \<mapsto> 2] [(''n'', 0 :: nat)] [1 \<mapsto> [(''n'', 1)], 2 \<mapsto> [(''n'', 2)]] (Some 1) = Some merged"
    and n: "map_of merged ''n'' = (case nearest [1 \<mapsto> [(''n'', 1)], 2 \<mapsto> [(''n'', 2)]] (1 # chain) ''n'' of
      None \<Rightarrow> map_of [(''n'', 0)] ''n'' | Some v \<Rightarrow> Some v)" by blast
  show ?thesis by (rule exI, rule conjI, rule m) (simp add: n)
qed

end
