(* ===== verification/Json_Read.thy ===== *)
theory Json_Read
  imports Json
begin

text \<open>
  How the sources read a value they have only parsed: the type tests they apply to a property,
  the exact-key test of \<^verbatim>\<open>chunk-rows.ts\<close>, and the casts they apply once a test has
  established the shape.
\<close>

section \<open>Reading parsed values\<close>

fun isRecord :: "json \<Rightarrow> bool" where
  "isRecord (JObj _) = True"
| "isRecord (JArr _) = True"
| "isRecord _ = False"

text \<open>
  An array has no own property of the names this module asks for, so it never has exactly them.
\<close>

fun hasExactKeys :: "json \<Rightarrow> string list \<Rightarrow> bool" where
  "hasExactKeys (JObj ps) ks =
     (length ps = length ks \<and> list_all (\<lambda>k. map_of ps k \<noteq> None) ks)"
| "hasExactKeys _ ks = False"

definition jget :: "string \<Rightarrow> json option \<Rightarrow> json option" where
  "jget k j = Option.bind j (jprop k)"

fun isNumber :: "json option \<Rightarrow> bool" where
  "isNumber (Some (JNum _)) = True"
| "isNumber _ = False"

fun isString :: "json option \<Rightarrow> bool" where
  "isString (Some (JStr _)) = True"
| "isString _ = False"

text \<open>\<^verbatim>\<open>Number.isSafeInteger(value)\<close>, with the integer when it is one.\<close>

fun safeIntField :: "json option \<Rightarrow> int option" where
  "safeIntField (Some (JNum r)) =
     (case ratInt r of None \<Rightarrow> None | Some n \<Rightarrow> if safeInt n then Some n else None)"
| "safeIntField _ = None"

text \<open>
  The casts of the source (\<^verbatim>\<open>as number\<close>, \<^verbatim>\<open>as string\<close>), which it applies only to values
  whose shape a check has established.
\<close>

fun asNumber :: "json option \<Rightarrow> rat" where
  "asNumber (Some (JNum r)) = r"
| "asNumber _ = 0"

fun asString :: "json option \<Rightarrow> string" where
  "asString (Some (JStr s)) = s"
| "asString _ = ''''"

definition asInt :: "json option \<Rightarrow> int" where
  "asInt j = (case safeIntField j of None \<Rightarrow> 0 | Some n \<Rightarrow> n)"

definition jint :: "int \<Rightarrow> json" where
  "jint n = JNum (of_int n)"

section \<open>What the tests establish\<close>

lemma jget_Some [simp]: "jget k (Some j) = jprop k j"
  by (simp add: jget_def)

lemma safeIntField_jint [simp]: "safeInt n \<Longrightarrow> safeIntField (Some (jint n)) = Some n"
  by (simp add: jint_def)

lemma asInt_jint [simp]: "safeInt n \<Longrightarrow> asInt (Some (jint n)) = n"
  by (simp add: asInt_def)

lemma safeIntField_SomeD:
  assumes "safeIntField j = Some n"
  shows "j = Some (jint n) \<and> safeInt n"
proof (cases j)
  case (Some v)
  with assms show ?thesis
    by (cases v) (auto simp: jint_def dest: ratInt_SomeD split: option.splits if_splits)
qed (use assms in simp)

lemma isString_D: "isString j \<Longrightarrow> j = Some (JStr (asString j))"
  by (cases j rule: isString.cases) auto

lemma isNumber_D: "isNumber j \<Longrightarrow> j = Some (JNum (asNumber j))"
  by (cases j rule: isNumber.cases) auto

lemma hasExactKeys_D:
  "hasExactKeys j ks \<Longrightarrow> \<exists>ps. j = JObj ps \<and> length ps = length ks"
  by (cases j) auto

lemma hasExactKeys_keys:
  assumes "hasExactKeys (JObj ps) ks" and "distinct ks"
  shows "fst ` set ps = set ks"
proof -
  have sub: "set ks \<subseteq> fst ` set ps"
    using assms(1) by (auto simp: list_all_iff map_of_eq_None_iff)
  have "card (fst ` set ps) \<le> length ps"
    using card_length [of "map fst ps"] by simp
  with assms have "card (fst ` set ps) \<le> card (set ks)" by (simp add: distinct_card)
  with sub show ?thesis by (metis card_seteq finite_imageI finite_set)
qed

end
