(* ===== verification/Chunk_Rows.thy ===== *)
theory Chunk_Rows
  imports Json_Read
begin

text \<open>
  The storage packing of streamed deltas, \<^verbatim>\<open>packages/core/session/src/chunk-rows.ts\<close>: a run
  of consecutive delta events of one block becomes one row, and a row expands back into the
  events. The encoder inspects shapes, so an event is its JSON value here. A row is the record
  \<open>chunk_row\<close> the source's \<^verbatim>\<open>ChunkRow\<close> type names, and \<open>recordJson\<close> is the value that goes
  to the log line.

  Times and sequence numbers are doubles in the source. Every sum the module forms has safe
  integers as operands (or a safe integer and an array length), so it lies within \<open>2 ^ 54\<close>;
  \<open>f64\<close> is the rounding of such a sum to the nearest double, ties to even.
\<close>

section \<open>Doubles\<close>

definition f64 :: "int \<Rightarrow> int" where
  "f64 n =
     (if \<bar>n\<bar> \<le> 9007199254740992 \<or> even n then n
      else if (n - 1) mod 4 = 0 then n - 1 else n + 1)"

lemma f64_exact [simp]: "safeInt n \<Longrightarrow> f64 n = n"
  by (simp add: f64_def safeInt_def maxSafeInteger_def)

lemma safeInt_f64 [simp]: "safeInt (f64 n) \<longleftrightarrow> safeInt n"
  unfolding f64_def safeInt_def maxSafeInteger_def by presburger

section \<open>The encoder\<close>

datatype delta_kind = TextKind | ReasoningKind | ToolCallKind

text \<open>\<^verbatim>\<open>classify\<close>: the kind of an event whose entire shape is whitelisted.\<close>

definition classifyChunk :: "json \<Rightarrow> delta_kind option" where
  "classifyChunk chunk =
     (case jprop ''type'' chunk of
        Some (JStr t) \<Rightarrow>
          if t = ''text-delta'' \<or> t = ''reasoning-delta'' then
            (if hasExactKeys chunk [''type'', ''index'', ''text'']
                \<and> isString (jprop ''text'' chunk)
             then Some (if t = ''text-delta'' then TextKind else ReasoningKind) else None)
          else if t = ''tool-call-delta'' then
            (let shapeOk =
                   hasExactKeys chunk [''type'', ''index'', ''id'', ''argumentsDelta'']
                   \<or> (hasExactKeys chunk [''type'', ''index'', ''id'', ''name'', ''argumentsDelta'']
                       \<and> isString (jprop ''name'' chunk))
             in if shapeOk \<and> isString (jprop ''id'' chunk)
                   \<and> isString (jprop ''argumentsDelta'' chunk)
                then Some ToolCallKind else None)
          else None
      | _ \<Rightarrow> None)"

definition classify :: "json \<Rightarrow> delta_kind option" where
  "classify ev =
     (if jprop ''type'' ev \<noteq> Some (JStr ''assistant/chunk'') then None
      else if \<not> hasExactKeys ev [''type'', ''seq'', ''time'', ''data''] then None
      else case safeIntField (jprop ''seq'' ev) of
        None \<Rightarrow> None
      | Some s \<Rightarrow>
          if s < 0 \<or> safeIntField (jprop ''time'' ev) = None then None
          else case jprop ''data'' ev of
            None \<Rightarrow> None
          | Some data \<Rightarrow>
              if \<not> isRecord data \<or> \<not> hasExactKeys data [''turn'', ''step'', ''chunk''] then None
              else if \<not> isNumber (jprop ''turn'' data) \<or> \<not> isNumber (jprop ''step'' data) then None
              else case jprop ''chunk'' data of
                None \<Rightarrow> None
              | Some chunk \<Rightarrow>
                  if \<not> isRecord chunk \<or> \<not> isNumber (jprop ''index'' chunk) then None
                  else classifyChunk chunk)"

definition chunkOf :: "json \<Rightarrow> json option" where
  "chunkOf ev = jget ''chunk'' (jprop ''data'' ev)"

definition eventSeq :: "json \<Rightarrow> int" where
  "eventSeq ev = asInt (jprop ''seq'' ev)"

definition eventTime :: "json \<Rightarrow> int" where
  "eventTime ev = asInt (jprop ''time'' ev)"

text \<open>\<^verbatim>\<open>continues\<close>: the events of a run share everything but their payload.\<close>

definition continues :: "json \<Rightarrow> json \<Rightarrow> delta_kind \<Rightarrow> bool" where
  "continues prev nxt kind =
     (if eventSeq nxt \<noteq> f64 (eventSeq prev + 1) then False
      else if \<not> safeInt (f64 (eventTime nxt - eventTime prev)) then False
      else if jget ''turn'' (jprop ''data'' nxt) \<noteq> jget ''turn'' (jprop ''data'' prev)
           \<or> jget ''step'' (jprop ''data'' nxt) \<noteq> jget ''step'' (jprop ''data'' prev) then False
      else if jget ''index'' (chunkOf nxt) \<noteq> jget ''index'' (chunkOf prev) then False
      else if kind \<noteq> ToolCallKind then True
      else jget ''id'' (chunkOf prev) = jget ''id'' (chunkOf nxt)
           \<and> (jget ''name'' (chunkOf prev) \<noteq> None) = (jget ''name'' (chunkOf nxt) \<noteq> None)
           \<and> jget ''name'' (chunkOf prev) = jget ''name'' (chunkOf nxt))"

text \<open>\<^verbatim>\<open>ChunkRow\<close>: \<open>row_call\<close> is the identity a tool-call row has, \<open>None\<close> for the others.\<close>

record chunk_row =
  row_kind :: delta_kind
  row_seq0 :: int
  row_time0 :: int
  row_turn :: rat
  row_step :: rat
  row_index :: rat
  row_dt :: "int list"
  row_call :: "(string \<times> string option) option"
  row_members :: "string list"

datatype storage_record = Verbatim json | Packed chunk_row

definition minRun :: nat where
  "minRun = 3"

fun payloadKey :: "delta_kind \<Rightarrow> string" where
  "payloadKey ToolCallKind = ''argumentsDelta''"
| "payloadKey _ = ''text''"

definition nameOf :: "json option \<Rightarrow> string option" where
  "nameOf j = (case j of None \<Rightarrow> None | Some _ \<Rightarrow> Some (asString j))"

definition buildRow :: "delta_kind \<Rightarrow> json list \<Rightarrow> chunk_row" where
  "buildRow kind run =
     (let first = hd run in
      \<lparr>row_kind = kind,
       row_seq0 = eventSeq first,
       row_time0 = eventTime first,
       row_turn = asNumber (jget ''turn'' (jprop ''data'' first)),
       row_step = asNumber (jget ''step'' (jprop ''data'' first)),
       row_index = asNumber (jget ''index'' (chunkOf first)),
       row_dt = map (\<lambda>(prev, ev). f64 (eventTime ev - eventTime prev)) (zip run (tl run)),
       row_call =
         (if kind = ToolCallKind
          then Some (asString (jget ''id'' (chunkOf first)), nameOf (jget ''name'' (chunkOf first)))
          else None),
       row_members = map (\<lambda>ev. asString (jget (payloadKey kind) (chunkOf ev))) run\<rparr>)"

text \<open>\<^verbatim>\<open>packChunkRuns\<close>: its locals are the record \<open>packer\<close>, its closure is \<open>flushRun\<close>.\<close>

record packer =
  pk_out :: "storage_record list"
  pk_kind :: "delta_kind option"
  pk_run :: "json list"

definition flushRun :: "packer \<Rightarrow> packer" where
  "flushRun p =
     \<lparr>pk_out = pk_out p @
        (case pk_kind p of
           Some k \<Rightarrow>
             if minRun \<le> length (pk_run p) then [Packed (buildRow k (pk_run p))]
             else map Verbatim (pk_run p)
         | None \<Rightarrow> map Verbatim (pk_run p)),
      pk_kind = None, pk_run = []\<rparr>"

definition packStep :: "json \<Rightarrow> packer \<Rightarrow> packer" where
  "packStep ev p =
     (case classify ev of
        None \<Rightarrow> (let q = flushRun p in q\<lparr>pk_out := pk_out q @ [Verbatim ev]\<rparr>)
      | Some k \<Rightarrow>
          if Some k = pk_kind p \<and> pk_run p \<noteq> [] \<and> continues (last (pk_run p)) ev k
          then p\<lparr>pk_run := pk_run p @ [ev]\<rparr>
          else (flushRun p)\<lparr>pk_kind := Some k, pk_run := [ev]\<rparr>)"

definition packChunkRuns :: "json list \<Rightarrow> storage_record list" where
  "packChunkRuns evs =
     pk_out (flushRun (fold packStep evs \<lparr>pk_out = [], pk_kind = None, pk_run = []\<rparr>))"

section \<open>The log line of a record\<close>

fun rowTag :: "delta_kind \<Rightarrow> string" where
  "rowTag TextKind = ''text-chunks''"
| "rowTag ReasoningKind = ''reasoning-chunks''"
| "rowTag ToolCallKind = ''tool-call-chunks''"

definition rowData :: "chunk_row \<Rightarrow> json" where
  "rowData r =
     JObj ([(''turn'', JNum (row_turn r)), (''step'', JNum (row_step r)),
            (''index'', JNum (row_index r)), (''dt'', JArr (map jint (row_dt r)))]
       @ (case row_call r of
            None \<Rightarrow> [(''texts'', JArr (map JStr (row_members r)))]
          | Some (i, nm) \<Rightarrow>
              [(''id'', JStr i)]
              @ (case nm of None \<Rightarrow> [] | Some n \<Rightarrow> [(''name'', JStr n)])
              @ [(''args'', JArr (map JStr (row_members r)))]))"

definition rowJson :: "chunk_row \<Rightarrow> json" where
  "rowJson r =
     JObj [(''type'', JStr (rowTag (row_kind r))), (''seq0'', jint (row_seq0 r)),
           (''time0'', jint (row_time0 r)), (''data'', rowData r)]"

fun recordJson :: "storage_record \<Rightarrow> json" where
  "recordJson (Verbatim ev) = ev"
| "recordJson (Packed r) = rowJson r"

section \<open>The decoder\<close>

definition malformed :: "string \<Rightarrow> string \<Rightarrow> string" where
  "malformed tag why = ''malformed '' @ tag @ '' storage row: '' @ why"

text \<open>\<^verbatim>\<open>validateRunData\<close> answers the payload; \<open>dt\<close> is what the check of the gaps read.\<close>

fun stringArray :: "json option \<Rightarrow> string list option" where
  "stringArray (Some (JArr xs)) =
     (if xs = [] \<or> \<not> list_all (\<lambda>x. isString (Some x)) xs then None
      else Some (map (\<lambda>x. asString (Some x)) xs))"
| "stringArray _ = None"

fun gapArray :: "json option \<Rightarrow> int list option" where
  "gapArray (Some (JArr xs)) =
     (if \<not> list_all (\<lambda>x. safeIntField (Some x) \<noteq> None) xs then None
      else Some (map (\<lambda>x. asInt (Some x)) xs))"
| "gapArray _ = None"

definition validateRunData ::
  "string \<Rightarrow> json \<Rightarrow> string \<Rightarrow> string + (string list \<times> int list)" where
  "validateRunData tag data key =
     (if \<not> isNumber (jprop ''turn'' data) \<or> \<not> isNumber (jprop ''step'' data)
         \<or> \<not> isNumber (jprop ''index'' data)
      then Inl (malformed tag ''turn/step/index must be numbers'')
      else case stringArray (jprop key data) of
        None \<Rightarrow> Inl (malformed tag (key @ '' must be a non-empty string array''))
      | Some payload \<Rightarrow>
          (case gapArray (jprop ''dt'' data) of
             None \<Rightarrow> Inl (malformed tag ''dt must be an array of safe integers'')
           | Some dt \<Rightarrow>
               if length dt \<noteq> length payload - 1
               then Inl (malformed tag (''dt length '' @ natStr (length dt)
                      @ '' does not match '' @ natStr (length payload) @ '' members''))
               else Inr (payload, dt)))"

text \<open>The loop over the gaps: the running time must stay a safe integer.\<close>

fun timesSafe :: "int \<Rightarrow> int list \<Rightarrow> bool" where
  "timesSafe t [] = True"
| "timesSafe t (g # gs) = (let t' = f64 (t + g) in safeInt t' \<and> timesSafe t' gs)"

fun tagKind :: "string \<Rightarrow> delta_kind option" where
  "tagKind t =
     (if t = ''text-chunks'' then Some TextKind
      else if t = ''reasoning-chunks'' then Some ReasoningKind
      else if t = ''tool-call-chunks'' then Some ToolCallKind else None)"

text \<open>The part of \<^verbatim>\<open>validateRow\<close> that depends on the row's kind.\<close>

definition validateRowData ::
  "delta_kind \<Rightarrow> json \<Rightarrow> string + (string \<times> string option) option \<times> string list \<times> int list" where
  "validateRowData kind data =
     (let tag = rowTag kind in
      if kind = ToolCallKind then
        (let withName = hasExactKeys data [''turn'', ''step'', ''index'', ''id'', ''name'', ''dt'', ''args''] in
         if \<not> withName \<and> \<not> hasExactKeys data [''turn'', ''step'', ''index'', ''id'', ''dt'', ''args'']
         then Inl (malformed tag ''data must be exactly {turn, step, index, id, name?, dt, args}'')
         else if \<not> isString (jprop ''id'' data) \<or> (withName \<and> \<not> isString (jprop ''name'' data))
         then Inl (malformed tag ''id (and name when present) must be strings'')
         else mapR (\<lambda>p. (Some (asString (jprop ''id'' data), nameOf (jprop ''name'' data)), p))
                (validateRunData tag data ''args''))
      else if \<not> hasExactKeys data [''turn'', ''step'', ''index'', ''dt'', ''texts'']
      then Inl (malformed tag ''data must be exactly {turn, step, index, dt, texts}'')
      else mapR (\<lambda>p. (None, p)) (validateRunData tag data ''texts''))"

definition validateRow :: "json \<Rightarrow> delta_kind \<Rightarrow> string + chunk_row" where
  "validateRow v kind =
     (let tag = rowTag kind in
      if \<not> hasExactKeys v [''type'', ''seq0'', ''time0'', ''data'']
      then Inl (malformed tag ''envelope must be exactly {type, seq0, time0, data}'')
      else case safeIntField (jprop ''seq0'' v) of
        None \<Rightarrow> Inl (malformed tag ''seq0 must be a non-negative safe integer'')
      | Some s \<Rightarrow>
          if s < 0 then Inl (malformed tag ''seq0 must be a non-negative safe integer'')
          else (case safeIntField (jprop ''time0'' v) of
             None \<Rightarrow> Inl (malformed tag ''time0 must be a safe integer'')
           | Some t \<Rightarrow>
               (case jprop ''data'' v of
                  None \<Rightarrow> Inl (malformed tag ''data must be an object'')
                | Some data \<Rightarrow>
                    if \<not> isRecord data then Inl (malformed tag ''data must be an object'')
                    else bindR (validateRowData kind data) (\<lambda>(call, payload, dt).
                      if \<not> safeInt (f64 (f64 (s + int (length payload)) - 1))
                      then Inl (malformed tag ''member seqs must stay safe integers'')
                      else if \<not> timesSafe t dt
                      then Inl (malformed tag ''member times must stay safe integers'')
                      else Inr
                        \<lparr>row_kind = kind, row_seq0 = s, row_time0 = t,
                         row_turn = asNumber (jprop ''turn'' data),
                         row_step = asNumber (jprop ''step'' data),
                         row_index = asNumber (jprop ''index'' data),
                         row_dt = dt, row_call = call, row_members = payload\<rparr>))))"

text \<open>\<^verbatim>\<open>expandRow\<close>: the chunk of one member, its event, and the loop with its running time.\<close>

definition memberChunk :: "chunk_row \<Rightarrow> string \<Rightarrow> json" where
  "memberChunk r m =
     (case row_kind r of
        TextKind \<Rightarrow>
          JObj [(''type'', JStr ''text-delta''), (''index'', JNum (row_index r)), (''text'', JStr m)]
      | ReasoningKind \<Rightarrow>
          JObj [(''type'', JStr ''reasoning-delta''), (''index'', JNum (row_index r)),
                (''text'', JStr m)]
      | ToolCallKind \<Rightarrow>
          (case row_call r of
             None \<Rightarrow> JNull
           | Some (i, nm) \<Rightarrow>
               JObj ([(''type'', JStr ''tool-call-delta''), (''index'', JNum (row_index r)),
                      (''id'', JStr i)]
                 @ (case nm of None \<Rightarrow> [] | Some n \<Rightarrow> [(''name'', JStr n)])
                 @ [(''argumentsDelta'', JStr m)])))"

definition memberEvent :: "chunk_row \<Rightarrow> nat \<Rightarrow> int \<Rightarrow> string \<Rightarrow> json" where
  "memberEvent r k t m =
     JObj [(''type'', JStr ''assistant/chunk''), (''seq'', jint (f64 (row_seq0 r + int k))),
           (''time'', jint t),
           (''data'', JObj [(''turn'', JNum (row_turn r)), (''step'', JNum (row_step r)),
                            (''chunk'', memberChunk r m)])]"

fun expandFrom :: "chunk_row \<Rightarrow> nat \<Rightarrow> int \<Rightarrow> string list \<Rightarrow> json list" where
  "expandFrom r k t [] = []"
| "expandFrom r k t (m # ms) =
     (let t' = (if 0 < k then f64 (t + row_dt r ! (k - 1)) else t)
      in memberEvent r k t' m # expandFrom r (Suc k) t' ms)"

definition expandRow :: "chunk_row \<Rightarrow> json list" where
  "expandRow r = expandFrom r 0 (row_time0 r) (row_members r)"

definition decodeStorageRecord :: "json \<Rightarrow> string + json list" where
  "decodeStorageRecord v =
     (if \<not> isRecord v then Inr [v]
      else case jprop ''type'' v of
        Some (JStr t) \<Rightarrow>
          (case tagKind t of
             None \<Rightarrow> Inr [v]
           | Some kind \<Rightarrow> mapR expandRow (validateRow v kind))
      | _ \<Rightarrow> Inr [v])"

end
