(* ===== verification/Chunk_Facts.thy ===== *)
theory Chunk_Facts
  imports Chunk_Rows
begin

text \<open>
  The storage packing loses nothing: a packed batch decodes to the events it was packed from, in
  order. The lemmas follow the code: what a whitelisted event looks like, what a run has in
  common, that the decoder accepts every row the encoder builds, and that the expansion of a
  row is the run.
\<close>

section \<open>Whitelisted events\<close>

definition callOf :: "delta_kind \<Rightarrow> json \<Rightarrow> (string \<times> string option) option" where
  "callOf kind ev =
     (if kind = ToolCallKind
      then Some (asString (jget ''id'' (chunkOf ev)), nameOf (jget ''name'' (chunkOf ev)))
      else None)"

definition payloadOf :: "delta_kind \<Rightarrow> json \<Rightarrow> string" where
  "payloadOf kind ev = asString (jget (payloadKey kind) (chunkOf ev))"

text \<open>What \<^verbatim>\<open>classify\<close> establishes of an event it whitelists.\<close>

lemma classify_D:
  assumes "classify ev = Some k"
  obtains ps dps cps s t tu st ix where
    "ev = JObj ps" "length ps = 4" "map_of ps ''type'' = Some (JStr ''assistant/chunk'')"
    "map_of ps ''seq'' = Some (jint s)" "0 \<le> s" "safeInt s"
    "map_of ps ''time'' = Some (jint t)" "safeInt t"
    "map_of ps ''data'' = Some (JObj dps)" "length dps = 3"
    "map_of dps ''turn'' = Some (JNum tu)" "map_of dps ''step'' = Some (JNum st)"
    "map_of dps ''chunk'' = Some (JObj cps)" "map_of cps ''index'' = Some (JNum ix)"
    "classifyChunk (JObj cps) = Some k"
proof -
  note a = assms [unfolded classify_def]
  have ty: "jprop ''type'' ev = Some (JStr ''assistant/chunk'')"
    and keys: "hasExactKeys ev [''type'', ''seq'', ''time'', ''data'']"
    using a by (auto split: if_splits)
  obtain s where s: "safeIntField (jprop ''seq'' ev) = Some s" "0 \<le> s"
    using a ty keys by (auto split: if_splits option.splits)
  obtain t where t: "safeIntField (jprop ''time'' ev) = Some t"
    using a ty keys s by (auto split: if_splits)
  obtain data where data: "jprop ''data'' ev = Some data"
    and dkeys: "hasExactKeys data [''turn'', ''step'', ''chunk'']"
    and nums: "isNumber (jprop ''turn'' data)" "isNumber (jprop ''step'' data)"
    using a ty keys s t by (cases "jprop ''data'' ev") (auto split: if_splits)
  obtain chunk where chunk: "jprop ''chunk'' data = Some chunk"
    and ix: "isNumber (jprop ''index'' chunk)" and k: "classifyChunk chunk = Some k"
    using a ty keys s t data dkeys nums
    by (cases "jprop ''chunk'' data") (auto split: if_splits)
  obtain ps where ps: "ev = JObj ps" "length ps = 4" using hasExactKeys_D [OF keys] by auto
  obtain dps where dps: "data = JObj dps" "length dps = 3" using hasExactKeys_D [OF dkeys] by auto
  obtain cps where cps: "chunk = JObj cps" using ix by (cases chunk) auto
  show thesis
    using that [of ps s t dps "asNumber (jprop ''turn'' data)" "asNumber (jprop ''step'' data)" cps
        "asNumber (jprop ''index'' chunk)"]
      ty s t data chunk k ps dps cps isNumber_D [OF nums(1)] isNumber_D [OF nums(2)]
      isNumber_D [OF ix] safeIntField_SomeD [OF s(1)] safeIntField_SomeD [OF t]
    by simp
qed

lemma classifyChunk_text:
  assumes "classifyChunk (JObj cps) = Some k" and "k \<noteq> ToolCallKind"
  shows "length cps = 3
    \<and> map_of cps ''type''
        = Some (JStr (if k = TextKind then ''text-delta'' else ''reasoning-delta''))
    \<and> (\<exists>x. map_of cps ''text'' = Some (JStr x))"
  using assms
  by (auto simp: classifyChunk_def Let_def split: option.splits json.splits if_splits
      dest: isString_D)

lemma classifyChunk_tool:
  assumes "classifyChunk (JObj cps) = Some ToolCallKind"
  shows "map_of cps ''type'' = Some (JStr ''tool-call-delta'')
    \<and> (\<exists>i x. map_of cps ''id'' = Some (JStr i) \<and> map_of cps ''argumentsDelta'' = Some (JStr x))
    \<and> (map_of cps ''name'' = None \<and> length cps = 4
       \<or> (\<exists>n. map_of cps ''name'' = Some (JStr n) \<and> length cps = 5))"
proof -
  obtain t where ty: "map_of cps ''type'' = Some (JStr t)"
    using assms by (auto simp: classifyChunk_def split: option.splits json.splits)
  have t: "t = ''tool-call-delta''"
    using assms ty by (auto simp: classifyChunk_def split: if_splits)
  let ?four = "[''type'', ''index'', ''id'', ''argumentsDelta'']"
  let ?five = "[''type'', ''index'', ''id'', ''name'', ''argumentsDelta'']"
  have shape: "hasExactKeys (JObj cps) ?four
      \<or> hasExactKeys (JObj cps) ?five \<and> isString (map_of cps ''name'')"
    and strs: "isString (map_of cps ''id'')" "isString (map_of cps ''argumentsDelta'')"
    using assms ty t by (auto simp: classifyChunk_def Let_def simp del: hasExactKeys.simps split: if_splits)
  have four: "map_of cps ''name'' = None \<and> length cps = 4" if h: "hasExactKeys (JObj cps) ?four"
  proof -
    have "''name'' \<notin> fst ` set cps" using hasExactKeys_keys [OF h] by simp
    with h show ?thesis by (simp add: map_of_eq_None_iff)
  qed
  have five: "length cps = 5" if "hasExactKeys (JObj cps) ?five" using that by simp
  have "map_of cps ''name'' = None \<and> length cps = 4
       \<or> (\<exists>n. map_of cps ''name'' = Some (JStr n) \<and> length cps = 5)"
    using shape four five isString_D by blast
  then show ?thesis using ty t isString_D [OF strs(1)] isString_D [OF strs(2)] by blast
qed

text \<open>The event the decoder rebuilds from a whitelisted event's fields is that event.\<close>

lemma isDeepEqualJson_JStr [simp]: "isDeepEqualJson (JStr s) j \<longleftrightarrow> j = JStr s"
  by simp

lemma memberChunk_equal:
  assumes c: "classifyChunk (JObj cps) = Some k" and ix: "map_of cps ''index'' = Some (JNum (row_index r))"
    and k: "row_kind r = k"
    and call: "row_call r = (if k = ToolCallKind
        then Some (asString (map_of cps ''id''), nameOf (map_of cps ''name'')) else None)"
  shows "isDeepEqualJson (memberChunk r (asString (map_of cps (payloadKey k)))) (JObj cps)"
proof (cases "k = ToolCallKind")
  case True
  obtain i x where f: "map_of cps ''type'' = Some (JStr ''tool-call-delta'')"
      "map_of cps ''id'' = Some (JStr i)" "map_of cps ''argumentsDelta'' = Some (JStr x)"
    and nm: "map_of cps ''name'' = None \<and> length cps = 4
       \<or> (\<exists>n. map_of cps ''name'' = Some (JStr n) \<and> length cps = 5)"
    using classifyChunk_tool [OF c [unfolded True]] by blast
  from nm show ?thesis
  proof
    assume "map_of cps ''name'' = None \<and> length cps = 4"
    with f ix k True call show ?thesis by (simp add: memberChunk_def nameOf_def)
  next
    assume "\<exists>n. map_of cps ''name'' = Some (JStr n) \<and> length cps = 5"
    then obtain n where "map_of cps ''name'' = Some (JStr n)" "length cps = 5" by blast
    with f ix k True call show ?thesis by (simp add: memberChunk_def nameOf_def)
  qed
next
  case False
  note f = classifyChunk_text [OF c False]
  have pk: "payloadKey k = ''text''" using False by (cases k) auto
  have "memberChunk r x = JObj [(''type'', JStr (if k = TextKind then ''text-delta''
      else ''reasoning-delta'')), (''index'', JNum (row_index r)), (''text'', JStr x)]" for x
    using False k by (cases k) (auto simp: memberChunk_def)
  with f ix show ?thesis unfolding pk by auto
qed

definition describes :: "chunk_row \<Rightarrow> json \<Rightarrow> bool" where
  "describes r ev \<longleftrightarrow>
     classify ev = Some (row_kind r)
     \<and> jget ''turn'' (jprop ''data'' ev) = Some (JNum (row_turn r))
     \<and> jget ''step'' (jprop ''data'' ev) = Some (JNum (row_step r))
     \<and> jget ''index'' (chunkOf ev) = Some (JNum (row_index r))
     \<and> callOf (row_kind r) ev = row_call r"

lemma memberEvent_equal:
  assumes d: "describes r ev" and s: "f64 (row_seq0 r + int j) = eventSeq ev"
  shows "isDeepEqualJson (memberEvent r j (eventTime ev) (payloadOf (row_kind r) ev)) ev"
proof -
  have k: "classify ev = Some (row_kind r)" using d by (simp add: describes_def)
  obtain ps dps cps s' t tu st ix where ev: "ev = JObj ps" "length ps = 4"
      "map_of ps ''type'' = Some (JStr ''assistant/chunk'')"
      "map_of ps ''seq'' = Some (jint s')" "0 \<le> s'" "safeInt s'"
      "map_of ps ''time'' = Some (jint t)" "safeInt t"
      "map_of ps ''data'' = Some (JObj dps)" "length dps = 3"
      "map_of dps ''turn'' = Some (JNum tu)" "map_of dps ''step'' = Some (JNum st)"
      "map_of dps ''chunk'' = Some (JObj cps)" "map_of cps ''index'' = Some (JNum ix)"
      "classifyChunk (JObj cps) = Some (row_kind r)"
    using classify_D [OF k] by metis
  have ch: "chunkOf ev = Some (JObj cps)" using ev by (simp add: chunkOf_def)
  have eq: "row_turn r = tu" "row_step r = st" "row_index r = ix" "eventSeq ev = s'" "eventTime ev = t"
    using d ev ch by (auto simp: describes_def eventSeq_def eventTime_def)
  have call: "row_call r = (if row_kind r = ToolCallKind
      then Some (asString (map_of cps ''id''), nameOf (map_of cps ''name'')) else None)"
    using d unfolding describes_def callOf_def ch jget_Some jprop.simps by simp
  have "isDeepEqualJson (memberChunk r (payloadOf (row_kind r) ev)) (JObj cps)"
    using memberChunk_equal [OF ev(15) _ refl call] ev(14) eq ch by (simp add: payloadOf_def)
  then show ?thesis using ev s eq by (simp add: memberEvent_def jint_def)
qed

section \<open>The decoder accepts what the encoder writes\<close>

definition row_ok :: "chunk_row \<Rightarrow> bool" where
  "row_ok r \<longleftrightarrow>
     0 \<le> row_seq0 r \<and> safeInt (row_seq0 r) \<and> safeInt (row_time0 r)
     \<and> row_members r \<noteq> [] \<and> length (row_dt r) = length (row_members r) - 1
     \<and> list_all safeInt (row_dt r)
     \<and> (row_call r = None \<longleftrightarrow> row_kind r \<noteq> ToolCallKind)
     \<and> safeInt (row_seq0 r + int (length (row_members r)) - 1)
     \<and> timesSafe (row_time0 r) (row_dt r)"

lemma stringArray_strings: "ms \<noteq> [] \<Longrightarrow> stringArray (Some (JArr (map JStr ms))) = Some ms"
  by (auto simp: list_all_iff comp_def)

lemma gapArray_gaps: "list_all safeInt gs \<Longrightarrow> gapArray (Some (JArr (map jint gs))) = Some gs"
  by (auto simp: list_all_iff comp_def intro: map_idI)

lemma f64_last: "safeInt (s + int n - 1) \<Longrightarrow> 0 \<le> s \<Longrightarrow> safeInt (f64 (f64 (s + int n) - 1))"
  by (auto simp: f64_def safeInt_def maxSafeInteger_def)

lemma validateRunData_ok:
  assumes "isNumber (jprop ''turn'' d)" "isNumber (jprop ''step'' d)" "isNumber (jprop ''index'' d)"
    and "jprop key d = Some (JArr (map JStr ms))" "jprop ''dt'' d = Some (JArr (map jint gs))"
    and "ms \<noteq> []" "list_all safeInt gs" "length gs = length ms - 1"
  shows "validateRunData tag d key = Inr (ms, gs)"
  using assms stringArray_strings gapArray_gaps
  by (simp add: validateRunData_def del: stringArray.simps gapArray.simps)

lemma rowTag_cases: "rowTag k = (case k of TextKind \<Rightarrow> ''text-chunks''
    | ReasoningKind \<Rightarrow> ''reasoning-chunks'' | ToolCallKind \<Rightarrow> ''tool-call-chunks'')"
  by (cases k) auto

lemma validateRowData_ok:
  assumes ok: "row_ok r"
  shows "validateRowData (row_kind r) (rowData r) = Inr (row_call r, row_members r, row_dt r)"
proof (cases "row_kind r = ToolCallKind")
  case True
  with ok obtain i nm where call: "row_call r = Some (i, nm)" by (auto simp: row_ok_def)
  have v: "validateRunData t (rowData r) ''args'' = Inr (row_members r, row_dt r)" for t
    by (rule validateRunData_ok) (use ok in \<open>auto simp: rowData_def call row_ok_def split: option.split\<close>)
  show ?thesis
    using v True call
    by (cases nm) (simp_all add: validateRowData_def Let_def nameOf_def, simp_all add: rowData_def)
next
  case False
  with ok have call: "row_call r = None" by (auto simp: row_ok_def)
  have v: "validateRunData t (rowData r) ''texts'' = Inr (row_members r, row_dt r)" for t
    by (rule validateRunData_ok) (use ok in \<open>auto simp: rowData_def call row_ok_def\<close>)
  show ?thesis
    using v False call by (simp add: validateRowData_def Let_def) (simp add: rowData_def)
qed

lemma validateRow_ok:
  assumes ok: "row_ok r"
  shows "validateRow (rowJson r) (row_kind r) = Inr r"
proof -
  have s: "safeInt (f64 (f64 (row_seq0 r + int (length (row_members r))) - 1))"
    using ok f64_last by (simp add: row_ok_def)
  have nums: "asNumber (jprop ''turn'' (rowData r)) = row_turn r"
      "asNumber (jprop ''step'' (rowData r)) = row_step r"
      "asNumber (jprop ''index'' (rowData r)) = row_index r"
      "isRecord (rowData r)"
    by (simp_all add: rowData_def)
  show ?thesis
    using ok s nums validateRowData_ok [OF ok]
    by (simp add: validateRow_def rowJson_def Let_def row_ok_def del: safeInt_f64)
qed

lemma decode_packed:
  assumes "row_ok r"
  shows "decodeStorageRecord (recordJson (Packed r)) = Inr (expandRow r)"
proof -
  have "jprop ''type'' (rowJson r) = Some (JStr (rowTag (row_kind r)))" "isRecord (rowJson r)"
    by (simp_all add: rowJson_def)
  moreover have "tagKind (rowTag (row_kind r)) = Some (row_kind r)"
    by (cases "row_kind r") simp_all
  ultimately show ?thesis
    using validateRow_ok [OF assms] by (simp add: decodeStorageRecord_def)
qed

section \<open>Runs\<close>

definition is_run :: "delta_kind \<Rightarrow> json list \<Rightarrow> bool" where
  "is_run k run \<longleftrightarrow> list_all (\<lambda>ev. classify ev = Some k) run
     \<and> successively (\<lambda>a b. continues a b k) run"

definition gaps :: "json list \<Rightarrow> int list" where
  "gaps run = map (\<lambda>(prev, ev). f64 (eventTime ev - eventTime prev)) (zip run (tl run))"

lemma gaps_simps [simp]:
  "gaps [] = []" "gaps [a] = []"
  "gaps (a # b # run) = f64 (eventTime b - eventTime a) # gaps (b # run)"
  by (simp_all add: gaps_def)

lemma classify_safe:
  assumes "classify ev = Some k"
  shows "safeInt (eventSeq ev) \<and> 0 \<le> eventSeq ev \<and> safeInt (eventTime ev)"
  by (rule classify_D [OF assms]) (simp add: eventSeq_def eventTime_def)

lemma continues_D:
  assumes "continues a b k"
  shows "eventSeq b = f64 (eventSeq a + 1)" "safeInt (eventTime b - eventTime a)"
    "jget ''turn'' (jprop ''data'' b) = jget ''turn'' (jprop ''data'' a)"
    "jget ''step'' (jprop ''data'' b) = jget ''step'' (jprop ''data'' a)"
    "jget ''index'' (chunkOf b) = jget ''index'' (chunkOf a)"
    "callOf k b = callOf k a"
  using assms by (auto simp: continues_def callOf_def split: if_splits)

lemma continues_seq:
  assumes "continues a b k" and "classify a = Some k" and "classify b = Some k"
  shows "eventSeq b = eventSeq a + 1"
proof -
  have "eventSeq b = f64 (eventSeq a + 1)" by (rule continues_D [OF assms(1)])
  then show ?thesis using classify_safe [OF assms(2)] classify_safe [OF assms(3)]
    by (auto simp: f64_def safeInt_def maxSafeInteger_def split: if_splits)
qed

lemma is_run_Cons2:
  "is_run k (a # b # run) \<longleftrightarrow> classify a = Some k \<and> continues a b k \<and> is_run k (b # run)"
  by (auto simp: is_run_def)

lemma run_seqs:
  "is_run k (a # run) \<Longrightarrow> i < length (a # run) \<Longrightarrow> eventSeq ((a # run) ! i) = eventSeq a + int i"
proof (induction run arbitrary: a i)
  case (Cons b run)
  have r: "classify a = Some k" "continues a b k" "is_run k (b # run)" "classify b = Some k"
    using Cons.prems(1) by (auto simp: is_run_Cons2 is_run_def)
  show ?case
  proof (cases i)
    case (Suc j)
    with Cons.IH [OF r(3), of j] Cons.prems(2) continues_seq [OF r(2,1,4)] show ?thesis by simp
  qed simp
qed simp

lemma run_times: "is_run k (a # run) \<Longrightarrow> timesSafe (eventTime a) (gaps (a # run))
    \<and> list_all safeInt (gaps (a # run))"
proof (induction run arbitrary: a)
  case (Cons b run)
  have r: "continues a b k" "is_run k (b # run)" "classify b = Some k"
    using Cons.prems by (auto simp: is_run_Cons2 is_run_def)
  have d: "f64 (eventTime b - eventTime a) = eventTime b - eventTime a"
    using continues_D(2) [OF r(1)] by simp
  show ?case
    using Cons.IH [OF r(2)] d continues_D(2) [OF r(1)] classify_safe [OF r(3)] by (simp add: Let_def)
qed simp

lemma run_describes:
  "is_run k (a # run) \<Longrightarrow> describes r a \<Longrightarrow> row_kind r = k \<Longrightarrow> list_all (describes r) (a # run)"
proof (induction run arbitrary: a)
  case (Cons b run)
  have r: "continues a b k" "is_run k (b # run)" "classify b = Some k"
    using Cons.prems(1) by (auto simp: is_run_Cons2 is_run_def)
  have "describes r b"
    using Cons.prems(2,3) continues_D [OF r(1)] r(3) unfolding describes_def by simp
  with Cons.IH [OF r(2)] Cons.prems show ?case by simp
qed simp

lemma buildRow_describes:
  assumes "classify a = Some k"
  shows "describes (buildRow k (a # run)) a"
  by (rule classify_D [OF assms])
    (use assms in \<open>simp add: describes_def buildRow_def Let_def callOf_def chunkOf_def\<close>)

lemma buildRow_fields:
  "row_kind (buildRow k run) = k" "row_seq0 (buildRow k run) = eventSeq (hd run)"
  "row_time0 (buildRow k run) = eventTime (hd run)" "row_dt (buildRow k run) = gaps run"
  "row_members (buildRow k run) = map (payloadOf k) run"
  "row_call (buildRow k run) = callOf k (hd run)"
  by (simp_all add: buildRow_def Let_def gaps_def payloadOf_def callOf_def)

lemma buildRow_ok:
  assumes run: "is_run k run" and ne: "run \<noteq> []"
  shows "row_ok (buildRow k run)"
proof -
  obtain a rest where eq: "run = a # rest" using ne by (cases run) auto
  have a: "classify a = Some k" using run eq by (simp add: is_run_def)
  have "last run \<in> set run" using ne by simp
  then have "classify (last run) = Some k" using run by (auto simp: is_run_def list_all_iff)
  moreover have "last run = (a # rest) ! length rest"
    using eq by (simp add: last_conv_nth del: last.simps)
  then have "eventSeq (last run) = eventSeq a + int (length run) - 1"
    using run_seqs [of k a rest "length rest"] run eq by simp
  ultimately have "safeInt (eventSeq a + int (length run) - 1)" using classify_safe by metis
  then show ?thesis
    using classify_safe [OF a] run_times [of k a rest] run eq
    by (simp add: row_ok_def buildRow_fields callOf_def) (simp add: gaps_def)
qed

lemma expandFrom_run:
  assumes "is_run (row_kind r) (a # run)" and "list_all (describes r) (a # run)"
    and "eventSeq a = row_seq0 r + int j"
    and "(if 0 < j then f64 (t + row_dt r ! (j - 1)) else t) = eventTime a"
    and "drop j (row_dt r) = gaps (a # run)"
  shows "list_all2 isDeepEqualJson
    (expandFrom r j t (map (payloadOf (row_kind r)) (a # run))) (a # run)"
  using assms
proof (induction run arbitrary: a j t)
  case Nil
  have c: "classify a = Some (row_kind r)" using Nil.prems(1) by (simp add: is_run_def)
  have "isDeepEqualJson (memberEvent r j (eventTime a) (payloadOf (row_kind r) a)) a"
    using Nil.prems classify_safe [OF c] by (intro memberEvent_equal) simp_all
  with Nil.prems(4) show ?case by (simp add: Let_def)
next
  case (Cons b run)
  have r: "continues a b (row_kind r)" "is_run (row_kind r) (b # run)"
      "classify a = Some (row_kind r)" "classify b = Some (row_kind r)"
    using Cons.prems(1) by (auto simp: is_run_Cons2 is_run_def)
  have dt: "row_dt r ! j = f64 (eventTime b - eventTime a)" "drop (Suc j) (row_dt r) = gaps (b # run)"
    using Cons.prems(5) by (metis gaps_simps(3) nth_via_drop, metis drop_Suc gaps_simps(3) list.sel(3) tl_drop)
  have t: "f64 (eventTime a + row_dt r ! j) = eventTime b"
    using dt(1) continues_D(2) [OF r(1)] classify_safe [OF r(4)] by simp
  have head: "isDeepEqualJson (memberEvent r j (eventTime a) (payloadOf (row_kind r) a)) a"
    using Cons.prems classify_safe [OF r(3)] by (intro memberEvent_equal) simp_all
  have tail: "list_all2 isDeepEqualJson
      (expandFrom r (Suc j) (eventTime a) (map (payloadOf (row_kind r)) (b # run))) (b # run)"
    using Cons.prems(2,3) continues_seq [OF r(1,3,4)] t dt(2)
    by (intro Cons.IH [OF r(2)]) simp_all
  show ?case
    using head tail Cons.prems(4) by (simp only: list.map expandFrom.simps(2) [of r j t] Let_def list_all2_Cons simp_thms)
qed

lemma expandRow_run:
  assumes run: "is_run k run" and ne: "run \<noteq> []"
  shows "list_all2 isDeepEqualJson (expandRow (buildRow k run)) run"
proof -
  obtain a rest where eq: "run = a # rest" using ne by (cases run) auto
  have a: "classify a = Some k" using run eq by (simp add: is_run_def)
  show ?thesis
    unfolding expandRow_def eq buildRow_fields
    using expandFrom_run [of "buildRow k run" a rest 0 "eventTime a"] run eq
      run_describes [OF _ buildRow_describes [OF a] buildRow_fields(1)]
    by (simp add: buildRow_fields)
qed

section \<open>Packing a batch\<close>

text \<open>
  The log never holds a storage row as an event: the tags are of another vocabulary.
\<close>

definition rowTagged :: "json \<Rightarrow> bool" where
  "rowTagged ev =
     (case jprop ''type'' ev of Some (JStr t) \<Rightarrow> tagKind t \<noteq> None | _ \<Rightarrow> False)"

definition storable :: "json \<Rightarrow> bool" where
  "storable ev \<longleftrightarrow> json_ok ev \<and> \<not> rowTagged ev"

definition decodeRecords :: "storage_record list \<Rightarrow> string + json list" where
  "decodeRecords rs = mapR concat (mapM (\<lambda>r. decodeStorageRecord (recordJson r)) rs)"

lemma decodeRecords_Nil [simp]: "decodeRecords [] = Inr []"
  by (simp add: decodeRecords_def)

lemma decodeRecords_Cons: "decodeRecords (r # rs) =
    bindR (decodeStorageRecord (recordJson r)) (\<lambda>xs. mapR (\<lambda>ys. xs @ ys) (decodeRecords rs))"
  by (cases "decodeStorageRecord (recordJson r)";
      cases "mapM (\<lambda>r. decodeStorageRecord (recordJson r)) rs") (simp_all add: decodeRecords_def)

lemma decodeRecords_append: "decodeRecords (rs @ qs) =
    bindR (decodeRecords rs) (\<lambda>xs. mapR (\<lambda>ys. xs @ ys) (decodeRecords qs))"
proof (induction rs)
  case Nil
  then show ?case by (cases "decodeRecords qs") simp_all
next
  case (Cons r rs)
  then show ?case
    by (cases "decodeStorageRecord (recordJson r)"; cases "decodeRecords rs"; cases "decodeRecords qs")
      (simp_all add: decodeRecords_Cons)
qed

lemma decode_verbatim: "\<not> rowTagged ev \<Longrightarrow> decodeStorageRecord ev = Inr [ev]"
  by (auto simp: decodeStorageRecord_def rowTagged_def split: option.splits json.splits)

lemma decodeRecords_verbatim:
  "list_all storable evs \<Longrightarrow> decodeRecords (map Verbatim evs) = Inr evs"
  by (induction evs) (auto simp: decodeRecords_Cons decode_verbatim storable_def)

lemma equal_storable: "list_all storable evs \<Longrightarrow> list_all2 isDeepEqualJson evs evs"
  by (induction evs) (auto simp: storable_def intro: isDeepEqualJson_refl)

definition storesAs :: "storage_record list \<Rightarrow> json list \<Rightarrow> bool" where
  "storesAs rs evs \<longleftrightarrow> (\<exists>ds. decodeRecords rs = Inr ds \<and> list_all2 isDeepEqualJson ds evs)"

lemma storesAs_Nil [intro]: "storesAs [] []"
  by (simp add: storesAs_def)

lemma storesAs_append [intro]: "storesAs rs evs \<Longrightarrow> storesAs qs fs \<Longrightarrow> storesAs (rs @ qs) (evs @ fs)"
  by (auto simp: storesAs_def decodeRecords_append intro: list_all2_appendI)

lemma storesAs_verbatim [intro]: "list_all storable evs \<Longrightarrow> storesAs (map Verbatim evs) evs"
  by (auto simp: storesAs_def decodeRecords_verbatim equal_storable)

lemma storesAs_packed [intro]: "is_run k run \<Longrightarrow> run \<noteq> [] \<Longrightarrow> storesAs [Packed (buildRow k run)] run"
  using decode_packed [OF buildRow_ok] expandRow_run
  by (simp add: storesAs_def decodeRecords_Cons del: recordJson.simps)

text \<open>The invariant of the encoder's loop: its output storesAs what is not in the open run.\<close>

definition pack_inv :: "json list \<Rightarrow> packer \<Rightarrow> bool" where
  "pack_inv evs p \<longleftrightarrow>
     (\<exists>before. evs = before @ pk_run p \<and> storesAs (pk_out p) before)
     \<and> (case pk_kind p of None \<Rightarrow> pk_run p = [] | Some k \<Rightarrow> is_run k (pk_run p))"

lemma flush_stores:
  assumes inv: "pack_inv evs p" and ok: "list_all storable evs"
  shows "storesAs (pk_out (flushRun p)) evs"
proof -
  obtain before where evs: "evs = before @ pk_run p" and st: "storesAs (pk_out p) before"
    using inv by (auto simp: pack_inv_def)
  have ok': "list_all storable (pk_run p)" using ok evs by simp
  show ?thesis
  proof (cases "pk_kind p")
    case None
    then show ?thesis
      using storesAs_append [OF st storesAs_verbatim [OF ok']] by (simp add: flushRun_def evs)
  next
    case (Some k)
    then have run: "is_run k (pk_run p)" using inv by (simp add: pack_inv_def)
    show ?thesis
    proof (cases "minRun \<le> length (pk_run p)")
      case True
      then have "pk_run p \<noteq> []" by (auto simp: minRun_def)
      with True Some show ?thesis
        using storesAs_append [OF st storesAs_packed [OF run]] by (simp add: flushRun_def evs)
    next
      case False
      with Some show ?thesis
        using storesAs_append [OF st storesAs_verbatim [OF ok']] by (simp add: flushRun_def evs)
    qed
  qed
qed

lemma is_run_snoc:
  "is_run k run \<Longrightarrow> run \<noteq> [] \<Longrightarrow> continues (last run) ev k \<Longrightarrow> classify ev = Some k
   \<Longrightarrow> is_run k (run @ [ev])"
  by (simp add: is_run_def successively_append_iff)

lemma packStep_inv:
  assumes inv: "pack_inv evs p" and ok: "list_all storable (evs @ [ev])"
  shows "pack_inv (evs @ [ev]) (packStep ev p)"
proof -
  have st: "storesAs (pk_out (flushRun p)) evs"
    using flush_stores [OF inv] ok by simp
  show ?thesis
  proof (cases "classify ev")
    case None
    have "storesAs (pk_out (flushRun p) @ map Verbatim [ev]) (evs @ [ev])"
      using st ok by (intro storesAs_append storesAs_verbatim) simp_all
    then show ?thesis
      using None by (simp add: packStep_def pack_inv_def Let_def) (simp add: flushRun_def)
  next
    case (Some k)
    show ?thesis
    proof (cases "Some k = pk_kind p \<and> pk_run p \<noteq> [] \<and> continues (last (pk_run p)) ev k")
      case True
      then have run: "is_run k (pk_run p)" and kind: "pk_kind p = Some k"
        using inv by (auto simp: pack_inv_def split: option.splits)
      have "is_run k (pk_run p @ [ev])" using is_run_snoc [OF run] True Some by simp
      with True Some kind inv show ?thesis by (auto simp: packStep_def pack_inv_def)
    next
      case False
      have "packStep ev p = (flushRun p)\<lparr>pk_kind := Some k, pk_run := [ev]\<rparr>"
        using False Some by (auto simp: packStep_def)
      then show ?thesis using st Some by (simp add: pack_inv_def is_run_def)
    qed
  qed
qed

lemma fold_packStep_inv:
  "pack_inv evs p \<Longrightarrow> list_all storable (evs @ es) \<Longrightarrow> pack_inv (evs @ es) (fold packStep es p)"
proof (induction es arbitrary: evs p)
  case (Cons e es)
  then have "pack_inv (evs @ [e]) (packStep e p)" by (intro packStep_inv) simp_all
  with Cons.IH [of "evs @ [e]" "packStep e p"] Cons.prems(2) show ?case by simp
qed simp

text \<open>
  Claim C15: packing a batch of events for storage loses nothing: every record of the packed batch
  decodes, and the decoded events are, one by one and in order, deeply equal to the events that
  were packed. The events are JSON values whose objects have distinct keys, none of which carries
  the tag of a storage row.
\<close>

theorem pack_roundtrip:
  assumes "list_all storable events"
  shows "\<exists>decoded. decodeRecords (packChunkRuns events) = Inr decoded
    \<and> list_all2 isDeepEqualJson decoded events"
proof -
  have "pack_inv [] \<lparr>pk_out = [], pk_kind = None, pk_run = []\<rparr>"
    by (auto simp: pack_inv_def)
  from fold_packStep_inv [OF this, of events] flush_stores assms
  have "storesAs (packChunkRuns events) events" by (simp add: packChunkRuns_def)
  then show ?thesis by (simp add: storesAs_def)
qed

text \<open>Three deltas of one block and a boundary: the deltas become one row.\<close>

definition sample_delta :: "int \<Rightarrow> int \<Rightarrow> string \<Rightarrow> json" where
  "sample_delta s t x =
     JObj [(''type'', JStr ''assistant/chunk''), (''seq'', jint s), (''time'', jint t),
       (''data'', JObj [(''turn'', jint 1), (''step'', jint 1),
          (''chunk'', JObj [(''type'', JStr ''text-delta''), (''index'', jint 0),
             (''text'', JStr x)])])]"

definition sample_batch :: "json list" where
  "sample_batch =
     [sample_delta 4 100 ''He'', sample_delta 5 90 ''llo'', sample_delta 6 120 ''!'',
      JObj [(''type'', JStr ''turn/end''), (''seq'', jint 7), (''time'', jint 120)]]"

lemma sample_batch_storable: "list_all storable sample_batch"
  by (simp add: sample_batch_def sample_delta_def storable_def rowTagged_def jint_def)

lemma sample_batch_packs: "length (packChunkRuns sample_batch) = 2"
  by code_simp

lemma pack_roundtrip_witness:
  "length (packChunkRuns sample_batch) = 2
   \<and> (\<exists>decoded. decodeRecords (packChunkRuns sample_batch) = Inr decoded
        \<and> list_all2 isDeepEqualJson decoded sample_batch)"
  using pack_roundtrip [OF sample_batch_storable] sample_batch_packs by blast

section \<open>What a decoded row may hold\<close>

definition memberInBounds :: "json \<Rightarrow> bool" where
  "memberInBounds ev \<longleftrightarrow>
     jprop ''type'' ev = Some (JStr ''assistant/chunk'')
     \<and> (case jprop ''seq'' ev of
          Some (JNum n) \<Rightarrow> 0 \<le> n \<and> n \<le> of_int (maxSafeInteger + 1) | _ \<Rightarrow> False)
     \<and> safeIntField (jprop ''time'' ev) \<noteq> None"

lemma validateRunData_D:
  "validateRunData tag d key = Inr (ms, gs) \<Longrightarrow> ms \<noteq> [] \<and> length gs = length ms - 1"
  by (cases "jprop key d" rule: stringArray.cases)
    (auto simp: validateRunData_def split: if_splits option.splits)

lemma validateRowData_D:
  "validateRowData k d = Inr (call, ms, gs) \<Longrightarrow> ms \<noteq> [] \<and> length gs = length ms - 1"
  by (auto simp: validateRowData_def Let_def mapR_Inr_iff dest: validateRunData_D split: if_splits)

lemma f64_lastD: "safeInt s \<Longrightarrow> safeInt (f64 (f64 (s + int n) - 1)) \<Longrightarrow> s + int n - 1 \<le> maxSafeInteger + 1"
  unfolding safeInt_f64 by (auto simp: f64_def safeInt_def maxSafeInteger_def split: if_splits)

lemma validateRow_D:
  assumes "validateRow v k = Inr r"
  shows "0 \<le> row_seq0 r \<and> safeInt (row_time0 r) \<and> row_members r \<noteq> []
    \<and> length (row_dt r) = length (row_members r) - 1
    \<and> row_seq0 r + int (length (row_members r)) - 1 \<le> maxSafeInteger + 1
    \<and> timesSafe (row_time0 r) (row_dt r)"
proof -
  note a = assms [unfolded validateRow_def Let_def]
  have keys: "hasExactKeys v [''type'', ''seq0'', ''time0'', ''data'']"
    using a by (auto split: if_splits)
  obtain s t d where s: "safeIntField (jprop ''seq0'' v) = Some s" "0 \<le> s"
    and t: "safeIntField (jprop ''time0'' v) = Some t" and d: "jprop ''data'' v = Some d" "isRecord d"
    using a keys by (auto split: if_splits option.splits)
  obtain call ms gs where rd: "validateRowData k d = Inr (call, ms, gs)"
    and b: "safeInt (f64 (f64 (s + int (length ms)) - 1))" "timesSafe t gs"
    and r: "row_seq0 r = s" "row_time0 r = t" "row_dt r = gs" "row_members r = ms"
    using a keys s t d by (auto simp: bindR_Inr_iff if_Inl_Inr simp del: safeInt_f64)
  show ?thesis
    using validateRowData_D [OF rd] b r s f64_lastD [OF _ b(1)]
      safeIntField_SomeD [OF s(1)] safeIntField_SomeD [OF t] by (simp del: safeInt_f64)
qed

lemma expandFrom_bounds:
  assumes "0 \<le> row_seq0 r" and "row_seq0 r + int (j + length ms) - 1 \<le> maxSafeInteger + 1"
    and "safeInt (if 0 < j then f64 (t + row_dt r ! (j - 1)) else t)"
    and "timesSafe (if 0 < j then f64 (t + row_dt r ! (j - 1)) else t) (drop j (row_dt r))"
    and "j + length ms = Suc (length (row_dt r))"
  shows "list_all memberInBounds (expandFrom r j t ms)"
  using assms
proof (induction ms arbitrary: j t)
  case (Cons m ms)
  define t' where "t' = (if 0 < j then f64 (t + row_dt r ! (j - 1)) else t)"
  have "f64 (row_seq0 r + int j) = row_seq0 r + int j"
    using Cons.prems(1,2) by (simp add: f64_def maxSafeInteger_def)
  then have head: "memberInBounds (memberEvent r j t' m)"
    using Cons.prems(1,2,3) unfolding t'_def [symmetric]
    by (simp add: memberInBounds_def memberEvent_def jint_def)
  have tail: "list_all memberInBounds (expandFrom r (Suc j) t' ms)"
  proof (cases ms)
    case (Cons m' ms')
    then have j: "j < length (row_dt r)" using Cons.prems(5) by simp
    have "timesSafe t' (row_dt r ! j # drop (Suc j) (row_dt r))"
      using Cons.prems(4) j by (simp add: t'_def Cons_nth_drop_Suc)
    then have "safeInt (f64 (t' + row_dt r ! j))
      \<and> timesSafe (f64 (t' + row_dt r ! j)) (drop (Suc j) (row_dt r))"
      by (simp only: timesSafe.simps Let_def)
    then show ?thesis
      using Cons.prems(1,2,5) by (intro Cons.IH) (simp_all del: safeInt_f64 f64_exact)
  qed simp
  show ?case using head tail by (simp add: t'_def Let_def)
qed simp

text \<open>
  Result: a value with a row tag that decodes yields at least one event, every one of them an
  \<^verbatim>\<open>assistant/chunk\<close> whose time is a safe integer and whose sequence number lies
  between 0 and \<open>2 ^ 53\<close>. (The last bound is one above the safe integers, which the check of the
  source means to exclude: see the next lemma.)
\<close>

theorem decoded_row_bounds:
  assumes "rowTagged v" and "decodeStorageRecord v = Inr events"
  shows "events \<noteq> [] \<and> list_all memberInBounds events"
proof -
  obtain tag k where "jprop ''type'' v = Some (JStr tag)" "tagKind tag = Some k" "isRecord v"
    using assms(1) by (cases v) (auto simp: rowTagged_def split: option.splits json.splits)
  then obtain r where r: "validateRow v k = Inr r" "events = expandRow r"
    using assms(2) by (auto simp: decodeStorageRecord_def mapR_Inr_iff)
  note d = validateRow_D [OF r(1)]
  then obtain m ms where ms: "row_members r = m # ms" by (cases "row_members r") auto
  have "list_all memberInBounds (expandRow r)"
    unfolding expandRow_def using d ms by (intro expandFrom_bounds) simp_all
  then show ?thesis using r(2) ms by (simp add: expandRow_def Let_def)
qed

definition sample_row :: "int \<Rightarrow> json" where
  "sample_row s =
     rowJson \<lparr>row_kind = TextKind, row_seq0 = s, row_time0 = 100, row_turn = 1, row_step = 1,
       row_index = 0, row_dt = [-10], row_call = None, row_members = [''He'', ''llo'']\<rparr>"

lemma decoded_row_bounds_witness:
  "\<exists>events. decodeStorageRecord (sample_row 4) = Inr events
     \<and> events \<noteq> [] \<and> list_all memberInBounds events"
proof -
  have "rowTagged (sample_row 4)" by code_simp
  moreover have "\<not> isl (decodeStorageRecord (sample_row 4))" by code_simp
  ultimately show ?thesis
    using decoded_row_bounds [of "sample_row 4"] by (cases "decodeStorageRecord (sample_row 4)") auto
qed

text \<open>
  Result: the decoder's bound \<^verbatim>\<open>isSafeInteger(seq0 + payload.length - 1)\<close> adds before it subtracts, so
  the sum is rounded: a row of two members that starts at the largest safe integer is accepted,
  and its second event has the sequence number \<open>2 ^ 53\<close>.
\<close>

lemma row_seq_bound_missed:
  "map_option (jprop ''seq'') (case decodeStorageRecord (sample_row maxSafeInteger) of
       Inr [_, ev] \<Rightarrow> Some ev | _ \<Rightarrow> None)
   = Some (Some (jint (maxSafeInteger + 1)))"
  by code_simp

end
