(* ===== verification/Assembler.thy ===== *)
theory Assembler
  imports Session_Types
begin

text \<open>
  The assembly of a chunk stream into content blocks, the class \<^verbatim>\<open>BlockAssembler\<close> of
  \<^verbatim>\<open>packages/llm/llm/src/assembler.ts\<close>. A partial block is an object the map holds and the
  class mutates in place; only the map refers to it, so writing it back under its index is the
  same. The content of every block is given by a reference function of the chunks alone.
\<close>

section \<open>The class\<close>

record partial_block =
  pb_blockType :: string
  pb_text :: string
  pb_toolCallId :: "string option"
  pb_toolCallName :: "string option"
  pb_toolCallArguments :: string
  pb_block :: "content_block option"

record assembler =
  as_partials :: "(int, partial_block) omap"
  as_order :: "int list"
  as_usage :: "token_usage option"
  as_finish :: "finish_reason option"
  as_replayState :: "json option"

definition emptyAssembler :: assembler where
  "emptyAssembler =
     \<lparr>as_partials = [], as_order = [], as_usage = None, as_finish = None, as_replayState = None\<rparr>"

definition freshPartial :: "string \<Rightarrow> partial_block" where
  "freshPartial ty =
     \<lparr>pb_blockType = ty, pb_text = '''', pb_toolCallId = None, pb_toolCallName = None,
      pb_toolCallArguments = '''', pb_block = None\<rparr>"

text \<open>\<^verbatim>\<open>ensure\<close>: the partial of an index, made and put at the end of the order on first use.\<close>

definition ensurePartial :: "assembler \<Rightarrow> int \<Rightarrow> string \<Rightarrow> assembler \<times> partial_block" where
  "ensurePartial a i ty =
     (case map_of (as_partials a) i of
        Some p \<Rightarrow> (a, p)
      | None \<Rightarrow>
          (let p = freshPartial ty in
           (a\<lparr>as_partials := mapSet (as_partials a) i p, as_order := as_order a @ [i]\<rparr>, p)))"

definition putPartial :: "assembler \<Rightarrow> int \<Rightarrow> partial_block \<Rightarrow> assembler" where
  "putPartial a i p = a\<lparr>as_partials := mapSet (as_partials a) i p\<rparr>"

fun blockTypeOf :: "content_block \<Rightarrow> string" where
  "blockTypeOf (TextBlock _) = ''text''"
| "blockTypeOf (ReasoningBlock _) = ''reasoning''"
| "blockTypeOf (ImageBlock _) = ''image''"
| "blockTypeOf (ToolCallBlock _ _ _) = ''tool-call''"
| "blockTypeOf (ToolResultBlock _ _ _) = ''tool-result''"

text \<open>\<^verbatim>\<open>push\<close>: an empty tool name is falsy, so it does not overwrite an earlier one.\<close>

fun push :: "assembler \<Rightarrow> stream_chunk \<Rightarrow> assembler" where
  "push a (BlockStart i ty) =
     (if map_of (as_partials a) i \<noteq> None then a
      else a\<lparr>as_order := as_order a @ [i],
             as_partials := mapSet (as_partials a) i (freshPartial ty)\<rparr>)"
| "push a (TextDelta i t) =
     (let (a', p) = ensurePartial a i ''text'' in
      if pb_block p \<noteq> None then a' else putPartial a' i (p\<lparr>pb_text := pb_text p @ t\<rparr>))"
| "push a (ReasoningDelta i t) =
     (let (a', p) = ensurePartial a i ''reasoning'' in
      if pb_block p \<noteq> None then a' else putPartial a' i (p\<lparr>pb_text := pb_text p @ t\<rparr>))"
| "push a (ToolCallDelta i cid nm args) =
     (let (a', p) = ensurePartial a i ''tool-call'' in
      if pb_block p \<noteq> None then a'
      else putPartial a' i
        (p\<lparr>pb_toolCallId := Some cid,
           pb_toolCallName :=
             (if nm = None \<or> nm = Some '''' then pb_toolCallName p else nm),
           pb_toolCallArguments := pb_toolCallArguments p @ args\<rparr>))"
| "push a (BlockEnd i b) =
     (let (a', p) = ensurePartial a i (blockTypeOf b) in
      if pb_block p \<noteq> None then a' else putPartial a' i (p\<lparr>pb_block := Some b\<rparr>))"
| "push a (UsageChunk u) = a\<lparr>as_usage := Some u\<rparr>"
| "push a (FinishChunk r s) = a\<lparr>as_finish := Some r, as_replayState := s\<rparr>"

definition pushAll :: "stream_chunk list \<Rightarrow> assembler" where
  "pushAll cs = fold (\<lambda>c a. push a c) cs emptyAssembler"

definition intStr :: "int \<Rightarrow> string" where
  "intStr n = (if n < 0 then ''-'' @ natStr (nat (- n)) else natStr (nat n))"

definition assemble :: "partial_block \<Rightarrow> int \<Rightarrow> string + content_block" where
  "assemble p i =
     (case pb_block p of
        Some b \<Rightarrow> Inr b
      | None \<Rightarrow>
          if pb_blockType p = ''text'' then Inr (TextBlock (pb_text p))
          else if pb_blockType p = ''reasoning'' then Inr (ReasoningBlock (pb_text p))
          else if pb_blockType p = ''tool-call'' then
            Inr (ToolCallBlock
              (case pb_toolCallId p of None \<Rightarrow> ''call-'' @ intStr i | Some c \<Rightarrow> c)
              (case pb_toolCallName p of None \<Rightarrow> '''' | Some n \<Rightarrow> n)
              (pb_toolCallArguments p))
          else Inl (''cannot assemble incomplete block of type '' @ pb_blockType p))"

definition mustGet :: "assembler \<Rightarrow> int \<Rightarrow> string + partial_block" where
  "mustGet a i =
     (case map_of (as_partials a) i of
        None \<Rightarrow> Inl (''BlockAssembler invariant violated: no partial for index '' @ intStr i)
      | Some p \<Rightarrow> Inr p)"

definition usageOf :: "assembler \<Rightarrow> token_usage option" where
  "usageOf a = as_usage a"

definition finishOf :: "assembler \<Rightarrow> finish_reason" where
  "finishOf a = (case as_finish a of None \<Rightarrow> FinishStop | Some r \<Rightarrow> r)"

definition blocks :: "assembler \<Rightarrow> string + content_block list" where
  "blocks a =
     mapR (\<lambda>bs. if finishOf a = FinishMaxTokens then filter (\<lambda>b. \<not> isToolCall b) bs else bs)
       (mapM (\<lambda>i. bindR (mustGet a i) (\<lambda>p. assemble p i)) (as_order a))"

text \<open>\<^verbatim>\<open>message\<close>: the identity \<^verbatim>\<open>createMessage\<close> mints is a parameter.\<close>

definition assembledMessage :: "string \<Rightarrow> message_source \<Rightarrow> assembler \<Rightarrow> string + message" where
  "assembledMessage fresh src a =
     mapR (\<lambda>bs. \<lparr>msg_id = fresh, msg_role = Assistant, msg_content = bs, msg_source = src\<rparr>)
       (blocks a)"

section \<open>The reference\<close>

fun chunkIndex :: "stream_chunk \<Rightarrow> int option" where
  "chunkIndex (BlockStart i _) = Some i"
| "chunkIndex (TextDelta i _) = Some i"
| "chunkIndex (ReasoningDelta i _) = Some i"
| "chunkIndex (ToolCallDelta i _ _ _) = Some i"
| "chunkIndex (BlockEnd i _) = Some i"
| "chunkIndex _ = None"

text \<open>The block type the first chunk of an index gives it, and what a chunk contributes.\<close>

fun firstType :: "stream_chunk \<Rightarrow> string" where
  "firstType (BlockStart _ ty) = ty"
| "firstType (TextDelta _ _) = ''text''"
| "firstType (ReasoningDelta _ _) = ''reasoning''"
| "firstType (ToolCallDelta _ _ _ _) = ''tool-call''"
| "firstType (BlockEnd _ b) = blockTypeOf b"
| "firstType _ = ''''"

fun closes :: "stream_chunk \<Rightarrow> content_block option" where
  "closes (BlockEnd _ b) = Some b"
| "closes _ = None"

fun deltaText :: "stream_chunk \<Rightarrow> string" where
  "deltaText (TextDelta _ t) = t"
| "deltaText (ReasoningDelta _ t) = t"
| "deltaText _ = ''''"

fun deltaArguments :: "stream_chunk \<Rightarrow> string" where
  "deltaArguments (ToolCallDelta _ _ _ x) = x"
| "deltaArguments _ = ''''"

fun deltaCallId :: "stream_chunk \<Rightarrow> string option" where
  "deltaCallId (ToolCallDelta _ i _ _) = Some i"
| "deltaCallId _ = None"

fun deltaName :: "stream_chunk \<Rightarrow> string option" where
  "deltaName (ToolCallDelta _ _ nm _) = (if nm = Some '''' then None else nm)"
| "deltaName _ = None"

definition lastSome :: "'a option list \<Rightarrow> 'a option" where
  "lastSome xs = fold (\<lambda>x acc. if x = None then acc else x) xs None"

fun firstSome :: "'a option list \<Rightarrow> 'a option" where
  "firstSome [] = None"
| "firstSome (x # xs) = (if x = None then firstSome xs else x)"

definition chunksAt :: "int \<Rightarrow> stream_chunk list \<Rightarrow> stream_chunk list" where
  "chunksAt i cs = filter (\<lambda>c. chunkIndex c = Some i) cs"

text \<open>
  The block of an index whose chunks are \<open>ds\<close>: the first closing block, or what the deltas
  before it accumulate, by the type the first chunk gave.
\<close>

definition referenceBlock :: "int \<Rightarrow> stream_chunk list \<Rightarrow> string + content_block" where
  "referenceBlock i ds =
     (case firstSome (map closes ds) of
        Some b \<Rightarrow> Inr b
      | None \<Rightarrow>
          (let ty = firstType (hd ds); txt = concat (map deltaText ds) in
           if ty = ''text'' then Inr (TextBlock txt)
           else if ty = ''reasoning'' then Inr (ReasoningBlock txt)
           else if ty = ''tool-call'' then
             Inr (ToolCallBlock
               (case lastSome (map deltaCallId ds) of None \<Rightarrow> ''call-'' @ intStr i | Some c \<Rightarrow> c)
               (case lastSome (map deltaName ds) of None \<Rightarrow> '''' | Some n \<Rightarrow> n)
               (concat (map deltaArguments ds)))
           else Inl (''cannot assemble incomplete block of type '' @ ty)))"

definition mentioned :: "stream_chunk list \<Rightarrow> int list" where
  "mentioned cs = rev (remdups (rev (List.map_filter chunkIndex cs)))"

fun finishReason :: "stream_chunk \<Rightarrow> finish_reason option" where
  "finishReason (FinishChunk r _) = Some r"
| "finishReason _ = None"

definition referenceBlocks :: "stream_chunk list \<Rightarrow> string + content_block list" where
  "referenceBlocks cs =
     mapR (\<lambda>bs. if lastSome (map finishReason cs) = Some FinishMaxTokens
                then filter (\<lambda>b. \<not> isToolCall b) bs else bs)
       (mapM (\<lambda>i. referenceBlock i (chunksAt i cs)) (mentioned cs))"

section \<open>The state after a stream\<close>

lemma lastSome_snoc: "lastSome (xs @ [x]) = (if x = None then lastSome xs else x)"
  by (simp add: lastSome_def)

lemma lastSome_simps [simp]: "lastSome [] = None" "lastSome [x] = x"
  by (simp_all add: lastSome_def)

lemma firstSome_snoc: "firstSome (xs @ [x]) = (if firstSome xs = None then x else firstSome xs)"
  by (induction xs) auto

lemma chunksAt_snoc:
  "chunksAt i (cs @ [c]) = (if chunkIndex c = Some i then chunksAt i cs @ [c] else chunksAt i cs)"
  by (simp add: chunksAt_def)

lemma mentioned_snoc:
  "mentioned (cs @ [c]) =
     (case chunkIndex c of
        None \<Rightarrow> mentioned cs
      | Some i \<Rightarrow> if i \<in> set (mentioned cs) then mentioned cs else mentioned cs @ [i])"
  by (auto simp: mentioned_def List.map_filter_def split: option.split)

lemma set_mentioned: "i \<in> set (mentioned cs) \<longleftrightarrow> (\<exists>c\<in>set cs. chunkIndex c = Some i)"
  by (auto simp: mentioned_def List.map_filter_def image_iff)

lemma mentioned_chunksAt: "i \<in> set (mentioned cs) \<longleftrightarrow> chunksAt i cs \<noteq> []"
  by (simp add: set_mentioned chunksAt_def filter_empty_conv)

text \<open>What a chunk does to the partial of its index.\<close>

definition advance :: "partial_block \<Rightarrow> stream_chunk \<Rightarrow> partial_block" where
  "advance p c =
     (if pb_block p \<noteq> None then p
      else p\<lparr>pb_text := pb_text p @ deltaText c,
             pb_toolCallArguments := pb_toolCallArguments p @ deltaArguments c,
             pb_toolCallId := (if deltaCallId c = None then pb_toolCallId p else deltaCallId c),
             pb_toolCallName := (if deltaName c = None then pb_toolCallName p else deltaName c),
             pb_block := closes c\<rparr>)"

definition partialAt :: "assembler \<Rightarrow> int \<Rightarrow> stream_chunk \<Rightarrow> partial_block" where
  "partialAt a i c =
     (case map_of (as_partials a) i of None \<Rightarrow> freshPartial (firstType c) | Some p \<Rightarrow> p)"

definition touched :: "assembler \<Rightarrow> int \<Rightarrow> int list" where
  "touched a i = (if map_of (as_partials a) i = None then as_order a @ [i] else as_order a)"

lemma ensurePartial_at:
  assumes "ensurePartial a i (firstType c) = (a', p)"
  shows "as_order a' = touched a i \<and> map_of (as_partials a') = (map_of (as_partials a))(i \<mapsto> p)
    \<and> p = partialAt a i c \<and> as_finish a' = as_finish a"
  using assms
  by (cases "map_of (as_partials a) i")
    (auto simp: ensurePartial_def touched_def partialAt_def Let_def fun_eq_iff)

lemma push_at:
  assumes "chunkIndex c = Some i"
  shows "as_order (push a c) = touched a i
    \<and> map_of (as_partials (push a c)) = (map_of (as_partials a))(i \<mapsto> advance (partialAt a i c) c)
    \<and> as_finish (push a c) = as_finish a"
proof (cases "\<exists>ty. c = BlockStart i ty")
  case True
  then show ?thesis
    by (cases "map_of (as_partials a) i")
      (auto simp: touched_def partialAt_def advance_def freshPartial_def fun_eq_iff)
next
  case False
  obtain a' p where e: "ensurePartial a i (firstType c) = (a', p)" by fastforce
  note f = ensurePartial_at [OF e]
  show ?thesis using False assms e f
    by (cases c) (auto simp: putPartial_def advance_def)
qed

lemma push_off: "chunkIndex c = None \<Longrightarrow> as_order (push a c) = as_order a
    \<and> as_partials (push a c) = as_partials a"
  by (cases c) simp_all

lemma push_finish: "as_finish (push a c) = (if finishReason c = None then as_finish a else finishReason c)"
  using push_at [of c] by (cases c) auto

text \<open>What a partial records of the chunks of its index.\<close>

definition tracks :: "partial_block \<Rightarrow> stream_chunk list \<Rightarrow> bool" where
  "tracks p ds \<longleftrightarrow>
     ds \<noteq> [] \<and> pb_blockType p = firstType (hd ds)
     \<and> pb_block p = firstSome (map closes ds)
     \<and> (pb_block p = None \<longrightarrow>
          pb_text p = concat (map deltaText ds)
          \<and> pb_toolCallArguments p = concat (map deltaArguments ds)
          \<and> pb_toolCallId p = lastSome (map deltaCallId ds)
          \<and> pb_toolCallName p = lastSome (map deltaName ds))"

lemma tracks_assemble: "tracks p ds \<Longrightarrow> assemble p i = referenceBlock i ds"
  by (auto simp: tracks_def assemble_def referenceBlock_def Let_def split: option.split)

lemma tracks_advance: "tracks p ds \<Longrightarrow> tracks (advance p c) (ds @ [c])"
  by (cases "pb_block p") (auto simp: tracks_def advance_def lastSome_snoc firstSome_snoc)

lemma tracks_fresh: "tracks (advance (freshPartial (firstType c)) c) [c]"
  by (simp add: tracks_def advance_def freshPartial_def)

definition asm_inv :: "stream_chunk list \<Rightarrow> assembler \<Rightarrow> bool" where
  "asm_inv cs a \<longleftrightarrow>
     as_order a = mentioned cs
     \<and> (\<forall>i. case map_of (as_partials a) i of
            None \<Rightarrow> chunksAt i cs = [] | Some p \<Rightarrow> tracks p (chunksAt i cs))
     \<and> as_finish a = lastSome (map finishReason cs)"

lemma asm_inv_at:
  "asm_inv cs a \<Longrightarrow> map_of (as_partials a) i = None \<longleftrightarrow> i \<notin> set (mentioned cs)"
  by (auto simp: asm_inv_def mentioned_chunksAt tracks_def split: option.splits dest: spec [of _ i])

lemma asm_inv_step:
  assumes inv: "asm_inv cs a"
  shows "asm_inv (cs @ [c]) (push a c)"
proof -
  have fin: "as_finish (push a c) = lastSome (map finishReason (cs @ [c]))"
    using inv by (simp add: push_finish asm_inv_def lastSome_snoc)
  show ?thesis
  proof (cases "chunkIndex c")
    case None
    then have same: "chunksAt i (cs @ [c]) = chunksAt i cs" for i by (simp add: chunksAt_snoc)
    show ?thesis
      using inv fin None push_off [OF None, of a] unfolding asm_inv_def same
      by (simp add: mentioned_snoc)
  next
    case (Some i)
    note p = push_at [OF Some, of a]
    have ord: "as_order (push a c) = mentioned (cs @ [c])"
      using p Some inv asm_inv_at [OF inv, of i] by (simp add: mentioned_snoc touched_def asm_inv_def)
    have t: "tracks (advance (partialAt a i c) c) (chunksAt i (cs @ [c]))"
    proof (cases "map_of (as_partials a) i")
      case None
      then have "chunksAt i cs = []" using inv by (auto simp: asm_inv_def dest: spec [of _ i])
      then show ?thesis using None Some tracks_fresh by (simp add: chunksAt_snoc partialAt_def)
    next
      case (Some q)
      then have "tracks q (chunksAt i cs)" using inv by (auto simp: asm_inv_def dest: spec [of _ i])
      then show ?thesis
        using Some \<open>chunkIndex c = Some i\<close> tracks_advance by (simp add: chunksAt_snoc partialAt_def)
    qed
    have "case map_of (as_partials (push a c)) j of
        None \<Rightarrow> chunksAt j (cs @ [c]) = [] | Some p \<Rightarrow> tracks p (chunksAt j (cs @ [c]))" for j
    proof (cases "j = i")
      case True
      with p t show ?thesis by simp
    next
      case False
      then have same: "chunksAt j (cs @ [c]) = chunksAt j cs" using Some by (simp add: chunksAt_snoc)
      show ?thesis using False p inv unfolding asm_inv_def same by simp
    qed
    with ord fin show ?thesis by (simp add: asm_inv_def)
  qed
qed

lemma asm_inv_pushAll: "asm_inv cs (pushAll cs)"
proof (induction cs rule: rev_induct)
  case Nil
  show ?case by (simp add: asm_inv_def pushAll_def emptyAssembler_def mentioned_def chunksAt_def
      List.map_filter_def)
next
  case (snoc c cs)
  then show ?case using asm_inv_step by (simp add: pushAll_def)
qed

lemma mapM_cong: "(\<And>x. x \<in> set xs \<Longrightarrow> f x = g x) \<Longrightarrow> mapM f xs = mapM g xs"
  by (induction xs) auto

text \<open>
  Claim C16: whatever the chunk stream, the assembler yields one block per index in the order the
  stream first mentions them, each block being the first authoritative one the stream closed the
  index with, or else everything its deltas said in order (the last call identity, the last
  non-empty tool name); after a stream that ended at the token limit the tool calls are left
  out. It fails only for an index of a type it cannot assemble that no chunk closed: its
  invariant accessor never does.
\<close>

theorem blocks_reference: "blocks (pushAll cs) = referenceBlocks cs"
proof -
  have inv: "asm_inv cs (pushAll cs)" by (rule asm_inv_pushAll)
  have each: "bindR (mustGet (pushAll cs) i) (\<lambda>p. assemble p i) = referenceBlock i (chunksAt i cs)"
    if i: "i \<in> set (mentioned cs)" for i
  proof -
    obtain p where p: "map_of (as_partials (pushAll cs)) i = Some p"
      using asm_inv_at [OF inv, of i] i by auto
    then have "tracks p (chunksAt i cs)" using inv by (auto simp: asm_inv_def dest: spec [of _ i])
    with p show ?thesis by (simp add: mustGet_def tracks_assemble)
  qed
  have "finishOf (pushAll cs) = FinishMaxTokens
      \<longleftrightarrow> lastSome (map finishReason cs) = Some FinishMaxTokens"
    using inv by (auto simp: finishOf_def asm_inv_def split: option.split)
  moreover have "as_order (pushAll cs) = mentioned cs" using inv by (simp add: asm_inv_def)
  moreover have "mapM (\<lambda>i. bindR (mustGet (pushAll cs) i) (\<lambda>p. assemble p i)) (mentioned cs)
      = mapM (\<lambda>i. referenceBlock i (chunksAt i cs)) (mentioned cs)"
    by (rule mapM_cong) (rule each)
  ultimately show ?thesis by (simp add: blocks_def referenceBlocks_def)
qed

text \<open>A stream with a text block and a call whose name arrives once.\<close>

definition sample_stream :: "stream_chunk list" where
  "sample_stream =
     [TextDelta 0 ''He'', ToolCallDelta 1 ''c1'' (Some ''read'') ''{'', TextDelta 0 ''llo'',
      BlockEnd 0 (TextBlock ''Hello''), TextDelta 0 ''late'', ToolCallDelta 1 ''c1'' (Some '''') ''}'',
      FinishChunk FinishToolCalls None]"

lemma sample_stream_blocks:
  "blocks (pushAll sample_stream) = Inr [TextBlock ''Hello'', ToolCallBlock ''c1'' ''read'' ''{}'']"
  by code_simp

text \<open>
  Result: an index that is closed keeps its block. Whatever chunks follow, the assembled blocks
  of the longer stream hold, at an index that some prefix closed, the block that prefix closed it
  with.
\<close>

theorem closed_block_stays:
  assumes "firstSome (map closes (chunksAt i cs)) = Some b"
  shows "bindR (mustGet (pushAll (cs @ ds)) i) (\<lambda>p. assemble p i) = Inr b"
proof -
  have inv: "asm_inv (cs @ ds) (pushAll (cs @ ds))" by (rule asm_inv_pushAll)
  have app: "firstSome (xs @ ys) = (if firstSome xs = None then firstSome ys else firstSome xs)"
    for xs ys :: "content_block option list" by (induction xs) auto
  have first: "firstSome (map closes (chunksAt i (cs @ ds))) = Some b"
    using assms app by (simp add: chunksAt_def)
  then have "chunksAt i (cs @ ds) \<noteq> []" by auto
  then obtain p where p: "map_of (as_partials (pushAll (cs @ ds))) i = Some p"
    using asm_inv_at [OF inv, of i] by (auto simp: mentioned_chunksAt)
  then have "tracks p (chunksAt i (cs @ ds))" using inv by (auto simp: asm_inv_def dest: spec [of _ i])
  with p first show ?thesis by (simp add: mustGet_def tracks_def assemble_def)
qed

lemma closed_block_stays_witness:
  "bindR (mustGet (pushAll (sample_stream @ [BlockEnd 0 (TextBlock ''again'')])) 0)
     (\<lambda>p. assemble p 0) = Inr (TextBlock ''Hello'')"
proof (rule closed_block_stays)
  show "firstSome (map closes (chunksAt 0 sample_stream)) = Some (TextBlock ''Hello'')" by code_simp
qed

end
