(* ===== verification/Retry_Policy.thy ===== *)
theory Retry_Policy
  imports Json_Read
begin

text \<open>
  The provider-owned retry policy, \<^verbatim>\<open>packages/llm/llm/src/retry-policy.ts\<close>: a configuration
  is validated, completed with the defaults and detached. The runtime schema of the file
  describes the same bounds to the configuration loader and is not modelled. A number is a
  rational, an infinity or not a number; the arithmetic is exact.
\<close>

definition maxTimerDelayMs :: rat where
  "maxTimerDelayMs = 2147483647"

fun numOr :: "js_number option \<Rightarrow> rat \<Rightarrow> js_number" where
  "numOr None d = Finite d"
| "numOr (Some n) d = n"

text \<open>
  Configurations: the own keys of the object, for the unknown-key check, and the fields the code
  reads. The codes are read before their types are checked, so they are JSON.
\<close>

record backoff_config =
  bc_keys :: "string list"
  bc_initialDelayMs :: "js_number option"
  bc_maxDelayMs :: "js_number option"
  bc_jitterRatio :: "js_number option"

record retry_config =
  rcf_keys :: "string list"
  rcf_mode :: string
  rcf_maxRetries :: "js_number option"
  rcf_retryableCodes :: "json list option"
  rcf_backoff :: "backoff_config option"

datatype policy_mode = NormalMode (mode_maxRetries: int) (mode_codes: "string list") | AlwaysMode

record retry_policy =
  rp_mode :: policy_mode
  rp_initialDelayMs :: rat
  rp_maxDelayMs :: rat
  rp_jitterRatio :: rat

definition defaultRetryableCodes :: "string list" where
  "defaultRetryableCodes =
     [''EMPTY_RESPONSE'', ''RATE_LIMIT'', ''SERVER'', ''TIMEOUT'', ''TRANSPORT'']"

datatype policy_error =
    UnknownKey string string
  | InitialDelayRange string
  | MaxDelayRange string
  | InitialAboveMax string
  | JitterRange string
  | MaxRetriesRange string
  | CodesEmpty string
  | CodesNotStrings string
  | CodesDuplicate string
  | ModeUnknown string

fun validateKeys :: "string list \<Rightarrow> string list \<Rightarrow> string \<Rightarrow> policy_error + unit" where
  "validateKeys [] allowed path = Inr ()"
| "validateKeys (k # ks) allowed path =
     (if k \<notin> set allowed then Inl (UnknownKey path k) else validateKeys ks allowed path)"

text \<open>The range test that both delays share: a positive finite number a timer can wait for.\<close>

definition delayOf :: "js_number \<Rightarrow> rat option" where
  "delayOf n =
     (case finiteOf n of
        None \<Rightarrow> None
      | Some r \<Rightarrow> if r \<le> 0 \<or> r > maxTimerDelayMs then None else Some r)"

definition resolveBackoff ::
  "backoff_config option \<Rightarrow> string \<Rightarrow> policy_error + (rat \<times> rat \<times> rat)" where
  "resolveBackoff config path =
     bindR (case config of
              None \<Rightarrow> Inr ()
            | Some c \<Rightarrow> validateKeys (bc_keys c) [''initialDelayMs'', ''maxDelayMs'', ''jitterRatio''] path)
       (\<lambda>_.
         let initialDelay = numOr (Option.bind config bc_initialDelayMs) 500;
             maxDelay = numOr (Option.bind config bc_maxDelayMs) 10000;
             jitter = numOr (Option.bind config bc_jitterRatio) (1 / 10)
         in case delayOf initialDelay of
              None \<Rightarrow> Inl (InitialDelayRange path)
            | Some i \<Rightarrow>
                (case delayOf maxDelay of
                   None \<Rightarrow> Inl (MaxDelayRange path)
                 | Some m \<Rightarrow>
                     if i > m then Inl (InitialAboveMax path)
                     else (case finiteOf jitter of
                        None \<Rightarrow> Inl (JitterRange path)
                      | Some j \<Rightarrow>
                          if j < 0 \<or> j > 1 then Inl (JitterRange path) else Inr (i, m, j))))"

definition withBackoff ::
  "policy_mode \<Rightarrow> backoff_config option \<Rightarrow> string \<Rightarrow> policy_error + retry_policy" where
  "withBackoff mode config path =
     mapR (\<lambda>(i, m, j). \<lparr>rp_mode = mode, rp_initialDelayMs = i, rp_maxDelayMs = m, rp_jitterRatio = j\<rparr>)
       (resolveBackoff config (path @ ''.backoff''))"

definition nonEmptyString :: "json \<Rightarrow> string option" where
  "nonEmptyString j = (case j of JStr s \<Rightarrow> if s = '''' then None else Some s | _ \<Rightarrow> None)"

definition resolveRetryPolicy :: "retry_config option \<Rightarrow> string \<Rightarrow> policy_error + retry_policy" where
  "resolveRetryPolicy config path =
     (case config of
        None \<Rightarrow> withBackoff (NormalMode 2 defaultRetryableCodes) None path
      | Some c \<Rightarrow>
          if rcf_mode c = ''normal'' then
            bindR (validateKeys (rcf_keys c) [''mode'', ''maxRetries'', ''retryableCodes'', ''backoff''] path)
              (\<lambda>_.
                let maxRetries = numOr (rcf_maxRetries c) 2;
                    codes = (case rcf_retryableCodes c of
                               None \<Rightarrow> map JStr defaultRetryableCodes | Some cs \<Rightarrow> cs)
                in case safeIntField (map_option JNum (finiteOf maxRetries)) of
                     None \<Rightarrow> Inl (MaxRetriesRange path)
                   | Some n \<Rightarrow>
                       if n < 0 then Inl (MaxRetriesRange path)
                       else if codes = [] then Inl (CodesEmpty path)
                       else if list_ex (\<lambda>j. nonEmptyString j = None) codes
                       then Inl (CodesNotStrings path)
                       else if \<not> distinct codes then Inl (CodesDuplicate path)
                       else withBackoff (NormalMode n (List.map_filter nonEmptyString codes))
                              (rcf_backoff c) path)
          else if rcf_mode c = ''always'' then
            bindR (validateKeys (rcf_keys c) [''mode'', ''backoff''] path)
              (\<lambda>_. withBackoff AlwaysMode (rcf_backoff c) path)
          else Inl (ModeUnknown path))"

section \<open>A resolved policy is well formed\<close>

fun mode_ok :: "policy_mode \<Rightarrow> bool" where
  "mode_ok (NormalMode n codes) =
     (0 \<le> n \<and> safeInt n \<and> codes \<noteq> [] \<and> distinct codes \<and> list_all (\<lambda>c. c \<noteq> '''') codes)"
| "mode_ok AlwaysMode = True"

definition policy_ok :: "retry_policy \<Rightarrow> bool" where
  "policy_ok p \<longleftrightarrow>
     mode_ok (rp_mode p)
     \<and> 0 < rp_initialDelayMs p \<and> rp_initialDelayMs p \<le> rp_maxDelayMs p
     \<and> rp_maxDelayMs p \<le> maxTimerDelayMs
     \<and> 0 \<le> rp_jitterRatio p \<and> rp_jitterRatio p \<le> 1"

lemma delayOf_D: "delayOf n = Some r \<Longrightarrow> 0 < r \<and> r \<le> maxTimerDelayMs"
  by (auto simp: delayOf_def split: option.splits if_splits)

lemma resolveBackoff_D:
  "resolveBackoff config path = Inr (i, m, j) \<Longrightarrow>
     0 < i \<and> i \<le> m \<and> m \<le> maxTimerDelayMs \<and> 0 \<le> j \<and> j \<le> 1"
  by (auto simp: resolveBackoff_def bindR_Inr_iff Let_def dest!: delayOf_D
      split: option.splits if_splits js_number.splits)

lemma withBackoff_ok: "withBackoff mode config path = Inr p \<Longrightarrow> mode_ok mode \<Longrightarrow> policy_ok p"
  by (auto simp: withBackoff_def mapR_Inr_iff policy_ok_def dest!: resolveBackoff_D)

lemma nonEmptyString_Some: "nonEmptyString j = Some s \<longleftrightarrow> j = JStr s \<and> s \<noteq> ''''"
  by (cases j) (auto simp: nonEmptyString_def)

lemma codes_strings:
  "\<not> list_ex (\<lambda>j. nonEmptyString j = None) codes \<Longrightarrow>
     codes = map JStr (List.map_filter nonEmptyString codes)
     \<and> list_all (\<lambda>c. c \<noteq> '''') (List.map_filter nonEmptyString codes)"
proof (induction codes)
  case (Cons j codes)
  then obtain s where s: "nonEmptyString j = Some s" by auto
  with Cons show ?case using nonEmptyString_Some [of j s] by (simp add: List.map_filter_simps)
qed (simp add: List.map_filter_simps)

lemma codes_ok:
  assumes "\<not> list_ex (\<lambda>j. nonEmptyString j = None) codes" and "distinct codes" and "codes \<noteq> []"
  shows "let cs = List.map_filter nonEmptyString codes
    in cs \<noteq> [] \<and> distinct cs \<and> list_all (\<lambda>c. c \<noteq> '''') cs"
  using codes_strings [OF assms(1)] assms(2,3)
  by (metis (no_types, lifting) distinct_map list.map_disc_iff)

text \<open>
  Claim C17: a retry policy that resolves is well formed, whatever the configuration: the initial
  delay is positive and at most the maximum one, which a timer can wait for, the jitter ratio is a
  proportion, and a bounded policy has a non-negative safe number of retries and a non-empty list
  of distinct non-empty codes.
\<close>

theorem resolved_policy_ok:
  assumes "resolveRetryPolicy config path = Inr p"
  shows "policy_ok p"
proof (cases config)
  case None
  with assms show ?thesis
    by (auto simp: resolveRetryPolicy_def defaultRetryableCodes_def safeInt_def maxSafeInteger_def
        intro: withBackoff_ok)
next
  case (Some c)
  show ?thesis
  proof (cases "rcf_mode c = ''normal''")
    case True
    define codes where "codes = (case rcf_retryableCodes c of
        None \<Rightarrow> map JStr defaultRetryableCodes | Some cs \<Rightarrow> cs)"
    obtain x n where x: "safeIntField x = Some n" "\<not> n < 0"
      and cs: "codes \<noteq> []" "\<not> list_ex (\<lambda>j. nonEmptyString j = None) codes" "distinct codes"
      and b: "withBackoff (NormalMode n (List.map_filter nonEmptyString codes)) (rcf_backoff c) path = Inr p"
      using assms Some True
      by (auto simp: resolveRetryPolicy_def bindR_Inr_iff Let_def codes_def [symmetric]
          split: option.splits if_splits)
    have n: "0 \<le> n" "safeInt n" using x safeIntField_SomeD by auto
    show ?thesis
      using withBackoff_ok [OF b] codes_ok [OF cs(2,3,1)] n by (simp add: Let_def)
  next
    case False
    with assms Some show ?thesis
      by (auto simp: resolveRetryPolicy_def bindR_Inr_iff intro: withBackoff_ok split: if_splits)
  qed
qed

lemma resolved_policy_ok_witness:
  "\<exists>p. resolveRetryPolicy (Some \<lparr>rcf_keys = [''mode'', ''maxRetries''], rcf_mode = ''normal'',
        rcf_maxRetries = Some (Finite 5), rcf_retryableCodes = None, rcf_backoff = None\<rparr>) ''p'' = Inr p
     \<and> policy_ok p"
proof -
  have "\<not> isl (resolveRetryPolicy (Some \<lparr>rcf_keys = [''mode'', ''maxRetries''], rcf_mode = ''normal'',
        rcf_maxRetries = Some (Finite 5), rcf_retryableCodes = None, rcf_backoff = None\<rparr>) ''p'')"
    by code_simp
  then show ?thesis
    using resolved_policy_ok by (metis isl_def old.sum.exhaust)
qed

end
