(* ===== verification/Retry.thy ===== *)
theory Retry
  imports Retry_Policy Session_Types "HOL-Library.List_Lexorder" "HOL-Library.Char_ord"
begin

text \<open>
  Recovery of a failed model request, \<^verbatim>\<open>packages/llm/llm-retry/src\<close>: \<^verbatim>\<open>history.ts\<close>,
  the recovery of \<^verbatim>\<open>index.ts\<close> and the invariants of \<^verbatim>\<open>invariant.ts\<close>. The two retry
  records are events of another package, so their payloads are JSON in the log, and the invariants
  read them as such.

  The recovery is asynchronous. What happens at its suspension points is the record
  \<open>recovery_env\<close>: the events others append meanwhile, the outcome of the downstream recovery, the
  state of the fused abort signal at each check, whether the wait completes, the random sample and
  the minted identity. \<^verbatim>\<open>JSON.stringify\<close> of a policy is the parameter \<open>stringify\<close>. Delays are
  rationals: the rounding of the backoff product is not modelled; \<open>2 ** 1024\<close>, which overflows, is.
\<close>

section \<open>History\<close>

text \<open>\<^verbatim>\<open>events.findLast(p)\<close>, and the events before and after the last match.\<close>

definition findLast :: "('a \<Rightarrow> bool) \<Rightarrow> 'a list \<Rightarrow> 'a option" where
  "findLast p xs = find p (rev xs)"

fun afterLast :: "('a \<Rightarrow> bool) \<Rightarrow> 'a list \<Rightarrow> 'a list option" where
  "afterLast p [] = None"
| "afterLast p (x # xs) =
     (case afterLast p xs of
        Some ys \<Rightarrow> Some ys
      | None \<Rightarrow> if p x then Some xs else None)"

fun headerProvider :: "event_data \<Rightarrow> string option" where
  "headerProvider (RequestHeader h _) = Some (cfg_provider (eh_config h))"
| "headerProvider _ = None"

fun stepStarts :: "int \<Rightarrow> int \<Rightarrow> event_data \<Rightarrow> bool" where
  "stepStarts turn step (StepStart t s) = (t = turn \<and> s = step)"
| "stepStarts turn step _ = False"

fun closesStep :: "event_data \<Rightarrow> bool" where
  "closesStep (StepEnd _ _) = True"
| "closesStep (TurnEnd _ _) = True"
| "closesStep _ = False"

definition providerForOpenStep :: "event_data list \<Rightarrow> int \<Rightarrow> int \<Rightarrow> string option" where
  "providerForOpenStep events turn step =
     (case afterLast (stepStarts turn step) events of
        None \<Rightarrow> None
      | Some rest \<Rightarrow>
          if list_ex closesStep rest then None
          else Option.bind (findLast (\<lambda>e. headerProvider e \<noteq> None) events) headerProvider)"

section \<open>Retry records\<close>

fun retryData :: "event_data \<Rightarrow> json option" where
  "retryData (PluginEvent t d) = (if t = ''llm/retry'' then Some d else None)"
| "retryData _ = None"

fun startedData :: "event_data \<Rightarrow> json option" where
  "startedData (PluginEvent t d) = (if t = ''llm/retry-started'' then Some d else None)"
| "startedData _ = None"

definition failureJson :: "llm_failure \<Rightarrow> json" where
  "failureJson f =
     JObj ([(''message'', JStr (failure_message f)), (''code'', JStr (failure_code f))]
       @ (case failure_status f of None \<Rightarrow> [] | Some s \<Rightarrow> [(''status'', jint s)])
       @ (case failure_retryAfterMs f of None \<Rightarrow> [] | Some r \<Rightarrow> [(''providerRetryAfterMs'', JNum r)])
       @ (case failure_requestId f of None \<Rightarrow> [] | Some i \<Rightarrow> [(''requestId'', JStr i)]))"

section \<open>Recovery\<close>

text \<open>The terms whose JSON text is the policy key; the codes are sorted.\<close>

definition retryPolicyTerms :: "retry_policy \<Rightarrow> json" where
  "retryPolicyTerms p =
     JArr (case rp_mode p of
        AlwaysMode \<Rightarrow>
          [JStr ''always'', JNum (rp_initialDelayMs p), JNum (rp_maxDelayMs p), JNum (rp_jitterRatio p)]
      | NormalMode n codes \<Rightarrow>
          [JStr ''normal'', jint n, JArr (map JStr (sort codes)),
           JNum (rp_initialDelayMs p), JNum (rp_maxDelayMs p), JNum (rp_jitterRatio p)])"

definition retryPolicyKey :: "(json \<Rightarrow> string) \<Rightarrow> retry_policy \<Rightarrow> string" where
  "retryPolicyKey stringify p = stringify (retryPolicyTerms p)"

definition localDelay :: "retry_policy \<Rightarrow> int \<Rightarrow> rat \<Rightarrow> rat" where
  "localDelay p retry random =
     (let e = min (retry - 1) 1024;
          exponential =
            (if 1024 \<le> e then rp_maxDelayMs p
             else min (rp_initialDelayMs p * 2 ^ nat e) (rp_maxDelayMs p));
          jitter = 1 - rp_jitterRatio p + 2 * rp_jitterRatio p * random
      in min (exponential * jitter) (rp_maxDelayMs p))"

datatype downstream = DownThrew | DownRetry | DownNone

record recovery_env =
  env_abortedFirst :: bool
  env_downEvents :: "event_data list"
  env_down :: downstream
  env_abortedAfter :: bool
  env_abortedBackoff :: bool
  env_waitEvents :: "event_data list"
  env_waitCompletes :: bool
  env_random :: rat
  env_freshId :: string

record request_failure =
  rf_turn :: int
  rf_step :: int
  rf_provider :: string
  rf_failure :: llm_failure
  rf_policy :: "retry_policy option"

text \<open>How a recovery ends: as the downstream recovery does, with a retry, or without an action.\<close>

datatype recovery = Delegated downstream | Retry | NoAction

definition chainMember :: "int \<Rightarrow> int \<Rightarrow> string \<Rightarrow> string \<Rightarrow> json \<Rightarrow> bool" where
  "chainMember turn step provider key d \<longleftrightarrow>
     jprop ''turn'' d = Some (jint turn) \<and> jprop ''step'' d = Some (jint step)
     \<and> jprop ''provider'' d = Some (JStr provider) \<and> jprop ''policyKey'' d = Some (JStr key)"

definition priorRetry :: "event_data list \<Rightarrow> int \<Rightarrow> int \<Rightarrow> string \<Rightarrow> string \<Rightarrow> json option" where
  "priorRetry events turn step provider key =
     Option.bind
       (findLast (\<lambda>e. case retryData e of None \<Rightarrow> False
                    | Some d \<Rightarrow> chainMember turn step provider key d) events)
       retryData"

definition retryPayload ::
  "request_failure \<Rightarrow> policy_mode \<Rightarrow> string \<Rightarrow> int \<Rightarrow> string \<Rightarrow> rat \<Rightarrow> json" where
  "retryPayload q mode key retry retryId delay =
     JObj ([(''retryId'', JStr retryId), (''turn'', jint (rf_turn q)), (''step'', jint (rf_step q)),
            (''provider'', JStr (rf_provider q))]
       @ (case mode of
            NormalMode n _ \<Rightarrow>
              [(''mode'', JStr ''normal''), (''policyKey'', JStr key), (''retry'', jint retry),
               (''maxRetries'', jint n)]
          | AlwaysMode \<Rightarrow>
              [(''mode'', JStr ''always''), (''policyKey'', JStr key), (''retry'', jint retry)])
       @ [(''delayMs'', JNum delay), (''failure'', failureJson (rf_failure q))])"

definition retryEvent ::
  "request_failure \<Rightarrow> retry_policy \<Rightarrow> string \<Rightarrow> int \<Rightarrow> string \<Rightarrow> rat \<Rightarrow> event_data" where
  "retryEvent q p key retry retryId delay =
     PluginEvent ''llm/retry'' (retryPayload q (rp_mode p) key retry retryId delay)"

definition startedPayload :: "request_failure \<Rightarrow> int \<Rightarrow> string \<Rightarrow> json" where
  "startedPayload q retry retryId =
     JObj [(''retryId'', JStr retryId), (''turn'', jint (rf_turn q)), (''step'', jint (rf_step q)),
           (''retry'', jint retry)]"

definition startedEvent :: "request_failure \<Rightarrow> int \<Rightarrow> string \<Rightarrow> event_data" where
  "startedEvent q retry retryId = PluginEvent ''llm/retry-started'' (startedPayload q retry retryId)"

definition backoff ::
  "request_failure \<Rightarrow> recovery_env \<Rightarrow> retry_policy \<Rightarrow> string \<Rightarrow> int \<Rightarrow> string \<Rightarrow> rat
    \<Rightarrow> event_data list \<Rightarrow> event_data list \<times> recovery" where
  "backoff q env p key retry retryId delay events =
     (if env_abortedBackoff env then (events, NoAction)
      else
        (let waiting = events @ [retryEvent q p key retry retryId delay] @ env_waitEvents env
         in if \<not> env_waitCompletes env then (waiting, NoAction)
            else (waiting @ [startedEvent q retry retryId], Retry)))"

text \<open>\<^verbatim>\<open>return next()\<close>: the downstream recovery runs and decides.\<close>

definition delegate :: "recovery_env \<Rightarrow> event_data list \<Rightarrow> event_data list \<times> recovery" where
  "delegate env events = (events @ env_downEvents env, Delegated (env_down env))"

text \<open>
  The part of \<^verbatim>\<open>recover\<close> after the mode has been decided: the chain's next retry and its delay.
  \<open>events\<close> is the log at that point; a bounded policy may still delegate.
\<close>

definition schedule ::
  "(json \<Rightarrow> string) \<Rightarrow> request_failure \<Rightarrow> recovery_env \<Rightarrow> retry_policy \<Rightarrow> event_data list
    \<Rightarrow> event_data list \<times> recovery" where
  "schedule stringify q env p events =
     (let key = retryPolicyKey stringify p;
          prior = priorRetry events (rf_turn q) (rf_step q) (rf_provider q) key;
          previous = (case prior of None \<Rightarrow> 0 | Some d \<Rightarrow> asInt (jprop ''retry'' d));
          retry = previous + 1;
          retryId = (case prior of None \<Rightarrow> env_freshId env | Some d \<Rightarrow> asString (jprop ''retryId'' d));
          computed = localDelay p retry (env_random env);
          go = (\<lambda>delay. backoff q env p key retry retryId delay events)
      in if (case rp_mode p of NormalMode n _ \<Rightarrow> n \<le> previous | AlwaysMode \<Rightarrow> False)
         then delegate env events
         else case failure_retryAfterMs (rf_failure q) of
           None \<Rightarrow> go computed
         | Some after \<Rightarrow>
             if after \<le> 0 then go computed
             else if after > rp_maxDelayMs p then
               (if rp_mode p = AlwaysMode then go computed else delegate env events)
             else go after)"

definition recover ::
  "(json \<Rightarrow> string) \<Rightarrow> request_failure \<Rightarrow> recovery_env \<Rightarrow> event_data list
    \<Rightarrow> event_data list \<times> recovery" where
  "recover stringify q env events =
     (case rf_policy q of
        None \<Rightarrow> delegate env events
      | Some p \<Rightarrow>
          (case rp_mode p of
             AlwaysMode \<Rightarrow>
               if env_abortedFirst env then (events, NoAction)
               else
                 (let settled = events @ env_downEvents env
                  in if env_abortedAfter env then (settled, NoAction)
                     else if env_down env = DownRetry then (settled, Delegated DownRetry)
                     else schedule stringify q env p settled)
           | NormalMode n codes \<Rightarrow>
               if failure_code (rf_failure q) \<notin> set codes then delegate env events
               else schedule stringify q env p events))"

section \<open>The invariants of the records\<close>

datatype retry_violation =
    RetryIdInvalid | FailureInvalid string | RetryInvalid | ProviderInvalid | PolicyKeyInvalid
  | MaxRetriesInvalid | MaxRetriesPresent | ModeInvalid | DelayInvalid
  | NoOpenTurn | WrongTurn | NoOpenStep | WrongStep | WrongProvider
  | NotNext | RetryIdChanged | RetryIdTaken
  | StartedIdInvalid | StartedUnpaired | StartedElsewhere | StartedTwice

definition nonEmptyText :: "json option \<Rightarrow> bool" where
  "nonEmptyText j \<longleftrightarrow> isString j \<and> asString j \<noteq> ''''"

text \<open>\<^verbatim>\<open>Number.isInteger\<close> of a JSON value, with the integer.\<close>

fun intOf :: "json option \<Rightarrow> int option" where
  "intOf (Some (JNum r)) = ratInt r"
| "intOf _ = None"

definition validateFailure :: "json option \<Rightarrow> retry_violation + unit" where
  "validateFailure value =
     (case value of
        None \<Rightarrow> Inl (FailureInvalid ''object'')
      | Some f \<Rightarrow>
          if \<not> isRecord f then Inl (FailureInvalid ''object'')
          else if \<not> nonEmptyText (jprop ''message'' f) then Inl (FailureInvalid ''message'')
          else if \<not> nonEmptyText (jprop ''code'' f) then Inl (FailureInvalid ''code'')
          else if jprop ''status'' f \<noteq> None
            \<and> (case intOf (jprop ''status'' f) of None \<Rightarrow> True | Some s \<Rightarrow> s < 100 \<or> s > 599)
          then Inl (FailureInvalid ''status'')
          else if jprop ''providerRetryAfterMs'' f \<noteq> None
            \<and> (\<not> isNumber (jprop ''providerRetryAfterMs'' f)
                \<or> asNumber (jprop ''providerRetryAfterMs'' f) \<le> 0)
          then Inl (FailureInvalid ''providerRetryAfterMs'')
          else if jprop ''requestId'' f \<noteq> None \<and> \<not> nonEmptyText (jprop ''requestId'' f)
          then Inl (FailureInvalid ''requestId'')
          else Inr ())"

text \<open>The checks that read the record alone.\<close>

definition validateMode :: "json \<Rightarrow> int \<Rightarrow> retry_violation + unit" where
  "validateMode d retry =
     (case jprop ''mode'' d of
        Some (JStr m) \<Rightarrow>
          if m = ''normal'' then
            (case safeIntField (jprop ''maxRetries'' d) of
               None \<Rightarrow> Inl MaxRetriesInvalid
             | Some n \<Rightarrow> if n < 1 \<or> retry > n then Inl MaxRetriesInvalid else Inr ())
          else if m = ''always'' then
            (if jprop ''maxRetries'' d \<noteq> None then Inl MaxRetriesPresent else Inr ())
          else Inl ModeInvalid
      | _ \<Rightarrow> Inl ModeInvalid)"

definition validateRecord :: "json \<Rightarrow> retry_violation + int" where
  "validateRecord d =
     (if \<not> nonEmptyText (jprop ''retryId'' d) then Inl RetryIdInvalid
      else bindR (validateFailure (jprop ''failure'' d)) (\<lambda>_.
        case safeIntField (jprop ''retry'' d) of
          None \<Rightarrow> Inl RetryInvalid
        | Some retry \<Rightarrow>
            if retry < 1 then Inl RetryInvalid
            else if \<not> nonEmptyText (jprop ''provider'' d) then Inl ProviderInvalid
            else if \<not> nonEmptyText (jprop ''policyKey'' d) then Inl PolicyKeyInvalid
            else bindR (validateMode d retry) (\<lambda>_.
              if \<not> isNumber (jprop ''delayMs'' d) \<or> asNumber (jprop ''delayMs'' d) < 0
                \<or> asNumber (jprop ''delayMs'' d) > maxTimerDelayMs
              then Inl DelayInvalid
              else Inr retry)))"

fun turnBoundary :: "event_data \<Rightarrow> bool" where
  "turnBoundary (TurnStart _) = True"
| "turnBoundary (TurnEnd _ _) = True"
| "turnBoundary _ = False"

fun stepBoundary :: "event_data \<Rightarrow> bool" where
  "stepBoundary (StepStart _ _) = True"
| "stepBoundary (StepEnd _ _) = True"
| "stepBoundary _ = False"

text \<open>The checks that place the record in the open step.\<close>

definition validatePlace :: "event_data list \<Rightarrow> json \<Rightarrow> retry_violation + (int \<times> int)" where
  "validatePlace history d =
     (case findLast turnBoundary history of
        Some (TurnStart t) \<Rightarrow>
          if jprop ''turn'' d \<noteq> Some (jint t) then Inl WrongTurn
          else (case findLast stepBoundary history of
             Some (StepStart t' s) \<Rightarrow>
               if jprop ''step'' d \<noteq> Some (jint s) \<or> jprop ''turn'' d \<noteq> Some (jint t')
               then Inl WrongStep
               else if map_option JStr (providerForOpenStep history t s) \<noteq> jprop ''provider'' d
               then Inl WrongProvider
               else Inr (t, s)
           | _ \<Rightarrow> Inl NoOpenStep)
      | _ \<Rightarrow> Inl NoOpenTurn)"

definition usesRetryId :: "string \<Rightarrow> event_data \<Rightarrow> bool" where
  "usesRetryId i e \<longleftrightarrow>
     (case retryData e of Some d \<Rightarrow> jprop ''retryId'' d = Some (JStr i) | None \<Rightarrow> False)
     \<or> (case startedData e of Some d \<Rightarrow> jprop ''retryId'' d = Some (JStr i) | None \<Rightarrow> False)"

definition validateRetry :: "event_data list \<Rightarrow> json \<Rightarrow> retry_violation + unit" where
  "validateRetry history d =
     bindR (validateRecord d) (\<lambda>retry. bindR (validatePlace history d) (\<lambda>(turn, step).
       let prior = priorRetry history turn step (asString (jprop ''provider'' d))
                     (asString (jprop ''policyKey'' d));
           expected = (case prior of None \<Rightarrow> 0 | Some p \<Rightarrow> asInt (jprop ''retry'' p)) + 1
       in if retry \<noteq> expected then Inl NotNext
          else if (case prior of None \<Rightarrow> False | Some p \<Rightarrow> jprop ''retryId'' p \<noteq> jprop ''retryId'' d)
          then Inl RetryIdChanged
          else if prior = None \<and> list_ex (usesRetryId (asString (jprop ''retryId'' d))) history
          then Inl RetryIdTaken
          else Inr ()))"

definition pairsStarted :: "json \<Rightarrow> json \<Rightarrow> bool" where
  "pairsStarted d prior \<longleftrightarrow>
     jprop ''retryId'' prior = jprop ''retryId'' d \<and> jprop ''retry'' prior = jprop ''retry'' d"

definition validateStarted :: "event_data list \<Rightarrow> json \<Rightarrow> retry_violation + unit" where
  "validateStarted history d =
     (if \<not> nonEmptyText (jprop ''retryId'' d) then Inl StartedIdInvalid
      else case Option.bind
          (findLast (\<lambda>e. case retryData e of None \<Rightarrow> False | Some p \<Rightarrow> pairsStarted d p) history)
          retryData of
        None \<Rightarrow> Inl StartedUnpaired
      | Some scheduled \<Rightarrow>
          if jprop ''turn'' scheduled \<noteq> jprop ''turn'' d \<or> jprop ''step'' scheduled \<noteq> jprop ''step'' d
          then Inl StartedElsewhere
          else if list_ex (\<lambda>e. case startedData e of None \<Rightarrow> False | Some p \<Rightarrow> pairsStarted d p) history
          then Inl StartedTwice
          else Inr ())"

definition validateRetryEvent :: "event_data list \<Rightarrow> event_data \<Rightarrow> retry_violation + unit" where
  "validateRetryEvent history e =
     (case retryData e of
        Some d \<Rightarrow> validateRetry history d
      | None \<Rightarrow> (case startedData e of Some d \<Rightarrow> validateStarted history d | None \<Rightarrow> Inr ()))"

text \<open>\<^verbatim>\<open>validateSession\<close>: every record, against the events before it.\<close>

definition validateRetries :: "event_data list \<Rightarrow> retry_violation + unit" where
  "validateRetries events =
     mapR (\<lambda>_. ()) (mapM (\<lambda>i. validateRetryEvent (take i events) (events ! i)) [0..<length events])"

end
