(* ===== verification/Retry_Facts.thy ===== *)
theory Retry_Facts
  imports Retry
begin

text \<open>
  The recovery keeps the invariants of its records. A log whose records satisfy the invariant
  companion has, for every chain (a policy at work in one step), records numbered 1, 2, 3 and so
  on under one identity; the recovery continues the numbering, within the bound of its policy.
\<close>

section \<open>The last match\<close>

lemma findLast_filter: "findLast p xs = (if filter p xs = [] then None else Some (last (filter p xs)))"
proof (induction xs rule: rev_induct)
  case (snoc x xs)
  then show ?case by (auto simp: findLast_def)
qed (simp add: findLast_def)

lemma findLast_snoc: "findLast p (xs @ [x]) = (if p x then Some x else findLast p xs)"
  by (simp add: findLast_def)

lemma findLast_append_none:
  "list_all (\<lambda>x. \<not> p x) ys \<Longrightarrow> findLast p (xs @ ys) = findLast p xs"
  by (simp add: findLast_filter filter_empty_conv list_all_iff)

lemma findLast_SomeD: "findLast p xs = Some x \<Longrightarrow> x \<in> set xs \<and> p x"
  unfolding findLast_def by (metis find_Some_iff nth_mem set_rev)

lemma findLast_None: "findLast p xs = None \<longleftrightarrow> list_all (\<lambda>x. \<not> p x) xs"
  by (simp add: findLast_filter filter_empty_conv list_all_iff)

definition retries :: "event_data list \<Rightarrow> json list" where
  "retries events = List.map_filter retryData events"

definition starts :: "event_data list \<Rightarrow> json list" where
  "starts events = List.map_filter startedData events"

lemma retries_append: "retries (xs @ ys) = retries xs @ retries ys"
  by (simp add: retries_def array_simps)

lemma starts_append: "starts (xs @ ys) = starts xs @ starts ys"
  by (simp add: starts_def array_simps)

lemma findLast_retryData:
  "Option.bind (findLast (\<lambda>e. case retryData e of None \<Rightarrow> False | Some d \<Rightarrow> P d) h) retryData
    = findLast P (retries h)"
proof (induction h rule: rev_induct)
  case (snoc e h)
  then show ?case
    by (cases "retryData e")
      (simp_all add: findLast_snoc retries_append retries_def [of "[_]"] List.map_filter_simps)
qed (simp add: findLast_def retries_def List.map_filter_simps)

lemma list_ex_starts:
  "list_ex (\<lambda>e. case startedData e of None \<Rightarrow> False | Some p \<Rightarrow> P p) h \<longleftrightarrow> list_ex P (starts h)"
  by (induction h) (auto simp: starts_def List.map_filter_simps split: option.splits)

section \<open>Chains\<close>

definition chain :: "json \<Rightarrow> json option \<times> json option \<times> json option \<times> json option" where
  "chain d = (jprop ''turn'' d, jprop ''step'' d, jprop ''provider'' d, jprop ''policyKey'' d)"

definition numberOf :: "json \<Rightarrow> int" where
  "numberOf d = asInt (jprop ''retry'' d)"

definition ofChain :: "json option \<times> json option \<times> json option \<times> json option \<Rightarrow> json list \<Rightarrow> json list" where
  "ofChain c rs = filter (\<lambda>d. chain d = c) rs"

lemma chainMember_chain:
  "chainMember t s p k = (\<lambda>d. chain d = (Some (jint t), Some (jint s), Some (JStr p), Some (JStr k)))"
  by (auto simp: chainMember_def chain_def fun_eq_iff)

lemma priorRetry_chain:
  "priorRetry h t s p k =
     (let ds = ofChain (Some (jint t), Some (jint s), Some (JStr p), Some (JStr k)) (retries h)
      in if ds = [] then None else Some (last ds))"
  unfolding priorRetry_def findLast_retryData
  by (simp add: findLast_filter chainMember_chain ofChain_def Let_def)

definition numbers_ok :: "json list \<Rightarrow> bool" where
  "numbers_ok rs \<longleftrightarrow>
     (\<forall>d\<in>set rs. jprop ''retry'' d = Some (jint (numberOf d)) \<and> 1 \<le> numberOf d)"

definition identities_ok :: "json list \<Rightarrow> bool" where
  "identities_ok rs \<longleftrightarrow>
     (\<forall>d\<in>set rs. \<forall>d'\<in>set rs. jprop ''retryId'' d = jprop ''retryId'' d' \<longleftrightarrow> chain d = chain d')"

definition numbered :: "json list \<Rightarrow> bool" where
  "numbered rs \<longleftrightarrow> (\<forall>c. map numberOf (ofChain c rs) = map int [1..<Suc (length (ofChain c rs))])"

definition starts_ok :: "json list \<Rightarrow> json list \<Rightarrow> bool" where
  "starts_ok rs ss \<longleftrightarrow> (\<forall>s\<in>set ss. \<exists>d\<in>set rs. pairsStarted s d)"

definition retry_inv :: "event_data list \<Rightarrow> bool" where
  "retry_inv h \<longleftrightarrow> numbers_ok (retries h) \<and> identities_ok (retries h) \<and> numbered (retries h)
     \<and> starts_ok (retries h) (starts h)"

text \<open>What a validated record establishes.\<close>

lemma nonEmptyText_D: "nonEmptyText j \<Longrightarrow> j = Some (JStr (asString j))"
  by (simp add: nonEmptyText_def isString_D)

lemma validateRecord_D:
  assumes "validateRecord d = Inr n"
  shows "nonEmptyText (jprop ''retryId'' d) \<and> nonEmptyText (jprop ''provider'' d)
    \<and> nonEmptyText (jprop ''policyKey'' d) \<and> jprop ''retry'' d = Some (jint n) \<and> numberOf d = n \<and> 1 \<le> n"
  using assms
  by (auto simp: validateRecord_def bindR_Inr_iff numberOf_def
      dest!: safeIntField_SomeD split: if_splits option.splits)

lemma validatePlace_D:
  assumes "validatePlace h d = Inr (t, s)"
  shows "jprop ''turn'' d = Some (jint t) \<and> jprop ''step'' d = Some (jint s)"
  using assms
  by (auto simp: validatePlace_def split: option.splits event_data.splits if_splits)

lemma usesRetryId_none:
  "\<not> list_ex (usesRetryId i) h \<Longrightarrow> d \<in> set (retries h) \<Longrightarrow> jprop ''retryId'' d \<noteq> Some (JStr i)"
  by (fastforce simp: usesRetryId_def list_ex_iff retries_def List.map_filter_def)

lemma validateRetry_D:
  assumes "validateRetry h d = Inr ()"
  shows "jprop ''retry'' d = Some (jint (numberOf d)) \<and> 1 \<le> numberOf d
    \<and> numberOf d = (if ofChain (chain d) (retries h) = [] then 0
         else numberOf (last (ofChain (chain d) (retries h)))) + 1
    \<and> (if ofChain (chain d) (retries h) = []
       then \<forall>d'\<in>set (retries h). jprop ''retryId'' d' \<noteq> jprop ''retryId'' d
       else jprop ''retryId'' (last (ofChain (chain d) (retries h))) = jprop ''retryId'' d)"
proof -
  obtain n t s where n: "validateRecord d = Inr n" and p: "validatePlace h d = Inr (t, s)"
    using assms by (auto simp: validateRetry_def bindR_Inr_iff)
  note r = validateRecord_D [OF n] and q = validatePlace_D [OF p]
  have ch: "chain d = (Some (jint t), Some (jint s), Some (JStr (asString (jprop ''provider'' d))),
      Some (JStr (asString (jprop ''policyKey'' d))))"
    using r q nonEmptyText_D by (simp add: chain_def)
  have i: "jprop ''retryId'' d = Some (JStr (asString (jprop ''retryId'' d)))"
    using r nonEmptyText_D by blast
  define prior where "prior = priorRetry h t s (asString (jprop ''provider'' d))
    (asString (jprop ''policyKey'' d))"
  have prior: "prior = (if ofChain (chain d) (retries h) = [] then None
      else Some (last (ofChain (chain d) (retries h))))"
    unfolding prior_def priorRetry_chain ch by (simp add: Let_def)
  have v: "n = (case prior of None \<Rightarrow> 0 | Some p \<Rightarrow> numberOf p) + 1"
      "(case prior of None \<Rightarrow> True | Some p \<Rightarrow> jprop ''retryId'' p = jprop ''retryId'' d)"
      "prior = None \<Longrightarrow> \<not> list_ex (usesRetryId (asString (jprop ''retryId'' d))) h"
    using assms n p unfolding validateRetry_def
    by (auto simp: prior_def [symmetric] Let_def numberOf_def split: if_splits option.splits)
  have fresh: "jprop ''retryId'' d' \<noteq> jprop ''retryId'' d"
    if "prior = None" "d' \<in> set (retries h)" for d'
    using usesRetryId_none [OF v(3) that(2)] that(1) i by metis
  show ?thesis
    using v(1,2) fresh prior r by (cases "ofChain (chain d) (retries h) = []") simp_all
qed

section \<open>The invariants of a validated log\<close>

lemma validateRetries_iff:
  "validateRetries h = Inr () \<longleftrightarrow> (\<forall>i<length h. validateRetryEvent (take i h) (h ! i) = Inr ())"
  by (auto simp: validateRetries_def mapR_Inr_iff mapM_Inr_iff list_all2_conv_all_nth
      intro!: exI [of _ "replicate (length h) ()"])

lemma validateRetries_snoc:
  "validateRetries (h @ [e]) = Inr () \<longleftrightarrow>
     validateRetries h = Inr () \<and> validateRetryEvent h e = Inr ()"
  by (auto simp: validateRetries_iff nth_append less_Suc_eq)

lemma validateRetries_quiet:
  "validateRetries h = Inr () \<Longrightarrow> list_all (\<lambda>e. retryData e = None \<and> startedData e = None) es
   \<Longrightarrow> validateRetries (h @ es) = Inr ()"
proof (induction es arbitrary: h)
  case (Cons e es)
  then have "validateRetries (h @ [e]) = Inr ()"
    by (simp add: validateRetries_snoc validateRetryEvent_def)
  with Cons.IH [of "h @ [e]"] Cons.prems(2) show ?case by simp
qed simp

lemma ofChain_snoc:
  "ofChain c (rs @ [d]) = (if chain d = c then ofChain c rs @ [d] else ofChain c rs)"
  by (simp add: ofChain_def)

lemma numbered_last:
  "numbered rs \<Longrightarrow> ofChain c rs \<noteq> [] \<Longrightarrow> numberOf (last (ofChain c rs)) = int (length (ofChain c rs))"
proof -
  assume n: "numbered rs" and ne: "ofChain c rs \<noteq> []"
  have "numberOf (last (ofChain c rs)) = last (map numberOf (ofChain c rs))"
    using ne by (simp add: last_map)
  also have "\<dots> = last (map int [1..<Suc (length (ofChain c rs))])"
    using n by (simp only: numbered_def)
  also have "\<dots> = int (length (ofChain c rs))"
    using ne by (cases "ofChain c rs") simp_all
  finally show ?thesis .
qed

lemma last_ofChain: "ofChain c rs \<noteq> [] \<Longrightarrow> last (ofChain c rs) \<in> set rs \<and> chain (last (ofChain c rs)) = c"
  using last_in_set [of "ofChain c rs"] by (auto simp: ofChain_def)

lemma retry_inv_retry:
  assumes inv: "retry_inv h" and v: "validateRetry h d = Inr ()" and e: "retryData e = Some d"
  shows "retry_inv (h @ [e])"
proof -
  let ?rs = "retries h" and ?c = "ofChain (chain d) (retries h)"
  have rs: "retries (h @ [e]) = ?rs @ [d]"
    by (simp add: retries_append) (simp add: retries_def List.map_filter_simps e)
  have ss: "starts (h @ [e]) = starts h"
  proof -
    have "startedData e = None" using e by (cases e) (auto split: if_splits)
    then show ?thesis by (simp add: starts_append) (simp add: starts_def List.map_filter_simps)
  qed
  note D = validateRetry_D [OF v]
  have num: "numberOf d = int (length ?c) + 1"
    using D inv numbered_last [of ?rs "chain d"] by (cases "?c = []") (auto simp: retry_inv_def)
  have ids: "jprop ''retryId'' d' = jprop ''retryId'' d \<longleftrightarrow> chain d' = chain d" if d': "d' \<in> set ?rs" for d'
  proof (cases "?c = []")
    case True
    then have "chain d' \<noteq> chain d" using d' by (auto simp: ofChain_def filter_empty_conv)
    with True D d' show ?thesis by simp
  next
    case False
    note l = last_ofChain [OF False]
    have "jprop ''retryId'' d' = jprop ''retryId'' (last ?c) \<longleftrightarrow> chain d' = chain (last ?c)"
      using inv d' l by (simp add: retry_inv_def identities_ok_def)
    with False D l show ?thesis by simp
  qed
  have "numbers_ok (?rs @ [d])"
    using inv D by (simp add: retry_inv_def numbers_ok_def)
  moreover have "identities_ok (?rs @ [d])"
    using inv ids ids [THEN sym] unfolding retry_inv_def identities_ok_def
    by (metis rotate1.simps(2) set_ConsD set_rotate1)
  moreover have "numbered (?rs @ [d])"
  proof -
    have "map numberOf (ofChain c (?rs @ [d])) = map int [1..<Suc (length (ofChain c (?rs @ [d])))]" for c
    proof (cases "chain d = c")
      case True
      have "[1..<Suc (Suc (length ?c))] = [1..<Suc (length ?c)] @ [Suc (length ?c)]" by simp
      moreover have "map numberOf ?c = map int [1..<Suc (length ?c)]"
        using inv by (simp only: retry_inv_def numbered_def)
      ultimately show ?thesis using num True by (simp add: ofChain_snoc del: upt_Suc)
    next
      case False
      have "map numberOf (ofChain c ?rs) = map int [1..<Suc (length (ofChain c ?rs))]"
        using inv by (simp only: retry_inv_def numbered_def)
      with False show ?thesis by (simp add: ofChain_snoc del: upt_Suc)
    qed
    then show ?thesis unfolding numbered_def by blast
  qed
  moreover have "starts_ok (?rs @ [d]) (starts h)"
    using inv by (auto simp: retry_inv_def starts_ok_def)
  ultimately show ?thesis by (simp add: retry_inv_def rs ss)
qed

lemma validateStarted_eq:
  "validateStarted h d =
     (if \<not> nonEmptyText (jprop ''retryId'' d) then Inl StartedIdInvalid
      else case findLast (pairsStarted d) (retries h) of
        None \<Rightarrow> Inl StartedUnpaired
      | Some p \<Rightarrow>
          if jprop ''turn'' p \<noteq> jprop ''turn'' d \<or> jprop ''step'' p \<noteq> jprop ''step'' d
          then Inl StartedElsewhere
          else if list_ex (pairsStarted d) (starts h) then Inl StartedTwice
          else Inr ())"
  unfolding validateStarted_def findLast_retryData list_ex_starts by (rule refl)

lemma validateStarted_D:
  assumes "validateStarted h d = Inr ()"
  shows "\<exists>p\<in>set (retries h). pairsStarted d p"
proof (cases "findLast (pairsStarted d) (retries h)")
  case None
  have "validateStarted h d = Inl StartedIdInvalid \<or> validateStarted h d = Inl StartedUnpaired"
    by (simp only: validateStarted_eq None option.case if_split simp_thms split: if_split)
  with assms show ?thesis by auto
next
  case (Some p)
  note found = findLast_SomeD [OF Some]
  show ?thesis by (rule bexI [of _ p]) (use found in simp_all)
qed

lemma retry_inv_started:
  assumes inv: "retry_inv h" and v: "validateStarted h d = Inr ()" and e: "startedData e = Some d"
  shows "retry_inv (h @ [e])"
proof -
  have "retryData e = None" using e by (cases e) (auto split: if_splits)
  then have rs: "retries (h @ [e]) = retries h"
    by (simp add: retries_append) (simp add: retries_def List.map_filter_simps)
  have ss: "starts (h @ [e]) = starts h @ [d]"
    by (simp add: starts_append) (simp add: starts_def List.map_filter_simps e)
  show ?thesis
    using inv validateStarted_D [OF v] by (auto simp: retry_inv_def rs ss starts_ok_def)
qed

lemma valid_retry_inv: "validateRetries h = Inr () \<Longrightarrow> retry_inv h"
proof (induction h rule: rev_induct)
  case Nil
  show ?case by (simp add: retry_inv_def numbers_ok_def identities_ok_def numbered_def starts_ok_def
      ofChain_def retries_def starts_def List.map_filter_simps)
next
  case (snoc e h)
  then have inv: "retry_inv h" and v: "validateRetryEvent h e = Inr ()"
    by (simp_all add: validateRetries_snoc)
  consider (r) d where "retryData e = Some d" | (s) d where "startedData e = Some d" "retryData e = None"
    | (q) "retryData e = None" "startedData e = None" by fastforce
  then show ?case
  proof cases
    case r
    then show ?thesis using v inv by (simp add: validateRetryEvent_def retry_inv_retry)
  next
    case s
    then show ?thesis using v inv by (simp add: validateRetryEvent_def retry_inv_started)
  next
    case q
    then have "retries (h @ [e]) = retries h" "starts (h @ [e]) = starts h"
      by (simp add: retries_append, simp add: retries_def List.map_filter_simps,
          simp add: starts_append, simp add: starts_def List.map_filter_simps)
    with inv show ?thesis by (simp add: retry_inv_def)
  qed
qed

section \<open>What the recovery appends\<close>

definition failure_ok :: "llm_failure \<Rightarrow> bool" where
  "failure_ok f \<longleftrightarrow>
     failure_message f \<noteq> '''' \<and> failure_code f \<noteq> ''''
     \<and> pred_option (\<lambda>s. 100 \<le> s \<and> s \<le> 599) (failure_status f)
     \<and> pred_option (\<lambda>r. 0 < r) (failure_retryAfterMs f)
     \<and> pred_option (\<lambda>i. i \<noteq> '''') (failure_requestId f)"

lemma nonEmptyText_JStr [simp]: "nonEmptyText (Some (JStr s)) \<longleftrightarrow> s \<noteq> ''''"
  by (simp add: nonEmptyText_def)

lemma intOf_jint [simp]: "intOf (Some (jint n)) = Some n"
  by (simp add: jint_def)

lemma failureJson_fields:
  "isRecord (failureJson f)" "jprop ''message'' (failureJson f) = Some (JStr (failure_message f))"
  "jprop ''code'' (failureJson f) = Some (JStr (failure_code f))"
  "jprop ''status'' (failureJson f) = map_option jint (failure_status f)"
  "jprop ''providerRetryAfterMs'' (failureJson f) = map_option JNum (failure_retryAfterMs f)"
  "jprop ''requestId'' (failureJson f) = map_option JStr (failure_requestId f)"
  by (auto simp: failureJson_def split: option.split)

lemma validateFailure_ok: "failure_ok f \<Longrightarrow> validateFailure (Some (failureJson f)) = Inr ()"
  by (cases "failure_status f"; cases "failure_retryAfterMs f"; cases "failure_requestId f")
    (simp_all add: validateFailure_def failureJson_fields failure_ok_def)

lemma retryPayload_fields:
  fixes q mode key n i delay
  defines "d \<equiv> retryPayload q mode key n i delay"
  shows "jprop ''retryId'' d = Some (JStr i)" "jprop ''turn'' d = Some (jint (rf_turn q))"
    "jprop ''step'' d = Some (jint (rf_step q))" "jprop ''provider'' d = Some (JStr (rf_provider q))"
    "jprop ''policyKey'' d = Some (JStr key)" "jprop ''retry'' d = Some (jint n)"
    "jprop ''delayMs'' d = Some (JNum delay)" "jprop ''failure'' d = Some (failureJson (rf_failure q))"
    "jprop ''mode'' d = Some (JStr (if mode = AlwaysMode then ''always'' else ''normal''))"
    "jprop ''maxRetries'' d = (case mode of AlwaysMode \<Rightarrow> None | NormalMode m _ \<Rightarrow> Some (jint m))"
  unfolding d_def retryPayload_def by (cases mode; simp)+

lemma startedPayload_fields:
  "jprop ''retryId'' (startedPayload q n i) = Some (JStr i)"
  "jprop ''turn'' (startedPayload q n i) = Some (jint (rf_turn q))"
  "jprop ''step'' (startedPayload q n i) = Some (jint (rf_step q))"
  "jprop ''retry'' (startedPayload q n i) = Some (jint n)"
  by (simp_all add: startedPayload_def)

lemma localDelay_bounds:
  assumes p: "policy_ok p" and r: "0 \<le> random" "random \<le> 1" and n: "1 \<le> n"
  shows "0 \<le> localDelay p n random \<and> localDelay p n random \<le> rp_maxDelayMs p"
proof -
  let ?j = "rp_jitterRatio p"
  have j: "0 \<le> ?j" "?j \<le> 1" and m: "0 < rp_initialDelayMs p" "0 < rp_maxDelayMs p"
    using p by (auto simp: policy_ok_def)
  have "0 \<le> 1 - ?j" "0 \<le> 2 * ?j * random" using j r by simp_all
  then have jit: "0 \<le> 1 - ?j + 2 * ?j * random" by linarith
  have exp: "0 \<le> (if 1024 \<le> min (n - 1) 1024 then rp_maxDelayMs p
      else min (rp_initialDelayMs p * 2 ^ nat (min (n - 1) 1024)) (rp_maxDelayMs p))"
    using m by (auto simp: min_def)
  show ?thesis
    unfolding localDelay_def Let_def using mult_nonneg_nonneg [OF exp jit] m by (auto simp: min_def)
qed

definition mode_allows :: "policy_mode \<Rightarrow> int \<Rightarrow> bool" where
  "mode_allows mode n \<longleftrightarrow> (case mode of NormalMode m _ \<Rightarrow> n \<le> m \<and> safeInt m | AlwaysMode \<Rightarrow> True)"

lemma validateRecord_payload:
  assumes "i \<noteq> ''''" "failure_ok (rf_failure q)" "1 \<le> n" "safeInt n" "rf_provider q \<noteq> ''''" "key \<noteq> ''''"
    and "mode_allows mode n" and "0 \<le> delay" "delay \<le> maxTimerDelayMs"
  shows "validateRecord (retryPayload q mode key n i delay) = Inr n"
proof -
  have "validateMode (retryPayload q mode key n i delay) n = Inr ()"
    using assms(3,7)
    by (cases mode) (auto simp: validateMode_def retryPayload_fields mode_allows_def)
  then show ?thesis
    using assms validateFailure_ok by (simp add: validateRecord_def retryPayload_fields)
qed

definition openRequest :: "request_failure \<Rightarrow> event_data list \<Rightarrow> bool" where
  "openRequest q h \<longleftrightarrow>
     findLast turnBoundary h = Some (TurnStart (rf_turn q))
     \<and> findLast stepBoundary h = Some (StepStart (rf_turn q) (rf_step q))
     \<and> providerForOpenStep h (rf_turn q) (rf_step q) = Some (rf_provider q)"

lemma validatePlace_payload:
  "openRequest q h \<Longrightarrow>
     validatePlace h (retryPayload q mode key n i delay) = Inr (rf_turn q, rf_step q)"
  by (simp add: validatePlace_def retryPayload_fields openRequest_def)

text \<open>The number and the identity the recovery computes for the next record of a chain.\<close>

definition nextNumber :: "json option \<Rightarrow> int" where
  "nextNumber prior = (case prior of None \<Rightarrow> 0 | Some d \<Rightarrow> asInt (jprop ''retry'' d)) + 1"

definition nextId :: "string \<Rightarrow> json option \<Rightarrow> string" where
  "nextId fresh prior = (case prior of None \<Rightarrow> fresh | Some d \<Rightarrow> asString (jprop ''retryId'' d))"

lemma priorRetry_mem: "priorRetry h t s p k = Some d \<Longrightarrow> d \<in> set (retries h)"
  unfolding priorRetry_chain Let_def using last_ofChain by (auto split: if_splits)

lemma retryId_string:
  "validateRetries h = Inr () \<Longrightarrow> d \<in> set (retries h) \<Longrightarrow> nonEmptyText (jprop ''retryId'' d)"
proof (induction h rule: rev_induct)
  case (snoc e h)
  then have v: "validateRetries h = Inr ()" "validateRetryEvent h e = Inr ()"
    by (simp_all add: validateRetries_snoc)
  show ?case
  proof (cases "d \<in> set (retries h)")
    case True
    then show ?thesis using snoc.IH v by simp
  next
    case False
    then have "retryData e = Some d"
      using snoc.prems(2) by (simp add: retries_append) (simp add: retries_def List.map_filter_simps split: option.splits)
    then have "validateRetry h d = Inr ()" using v by (simp add: validateRetryEvent_def)
    then show ?thesis by (auto simp: validateRetry_def bindR_Inr_iff dest!: validateRecord_D)
  qed
qed (simp add: retries_def List.map_filter_simps)

lemma validateRetry_payload:
  fixes q h key
  defines "prior \<equiv> priorRetry h (rf_turn q) (rf_step q) (rf_provider q) key"
  assumes valid: "validateRetries h = Inr ()" and opn: "openRequest q h"
    and fresh: "\<not> list_ex (usesRetryId fresh) h"
    and rec: "validateRecord (retryPayload q mode key (nextNumber prior) (nextId fresh prior) delay)
      = Inr (nextNumber prior)"
  shows "validateRetry h (retryPayload q mode key (nextNumber prior) (nextId fresh prior) delay) = Inr ()"
proof -
  let ?d = "retryPayload q mode key (nextNumber prior) (nextId fresh prior) delay"
  have same: "(case prior of None \<Rightarrow> False | Some p \<Rightarrow> jprop ''retryId'' p \<noteq> jprop ''retryId'' ?d) = False"
  proof (cases prior)
    case (Some p)
    then have "nonEmptyText (jprop ''retryId'' p)"
      using retryId_string [OF valid] priorRetry_mem unfolding prior_def by blast
    with Some nonEmptyText_D show ?thesis by (simp add: nextId_def retryPayload_fields)
  qed simp
  have "prior = None \<Longrightarrow> nextId fresh prior = fresh" by (simp add: nextId_def)
  then show ?thesis
    unfolding validateRetry_def rec validatePlace_payload [OF opn] bindR_returned prod.case
      retryPayload_fields asString.simps prior_def [symmetric]
    using fresh same by (cases prior) (auto simp: Let_def nextNumber_def retryPayload_fields)
qed

section \<open>The recovery keeps the invariants\<close>

definition quiet :: "event_data \<Rightarrow> bool" where
  "quiet e \<longleftrightarrow> \<not> turnBoundary e \<and> \<not> stepBoundary e \<and> retryData e = None \<and> startedData e = None
     \<and> headerProvider e = None"

lemma quiet_records: "list_all quiet es \<Longrightarrow> list_all (\<lambda>e. retryData e = None \<and> startedData e = None) es"
  by (auto simp: quiet_def list_all_iff)

lemma quiet_retries: "list_all quiet es \<Longrightarrow> retries es = [] \<and> starts es = []"
  by (induction es) (auto simp: retries_def starts_def List.map_filter_simps quiet_def)

lemma afterLast_append:
  "list_all (\<lambda>x. \<not> p x) ys \<Longrightarrow> afterLast p (xs @ ys) = map_option (\<lambda>zs. zs @ ys) (afterLast p xs)"
proof (induction xs)
  case Nil
  then show ?case by (induction ys) simp_all
next
  case (Cons x xs)
  then show ?case by (auto split: option.split)
qed

lemma stepStarts_boundary: "stepStarts t s e \<Longrightarrow> stepBoundary e"
  by (cases e) auto

lemma closesStep_boundary: "closesStep e \<Longrightarrow> turnBoundary e \<or> stepBoundary e"
  by (cases e) auto

lemma openRequest_quiet:
  assumes o: "openRequest q h" and es: "list_all quiet es"
  shows "openRequest q (h @ es)"
proof -
  have none: "list_all (\<lambda>e. \<not> turnBoundary e) es" "list_all (\<lambda>e. \<not> stepBoundary e) es"
    "list_all (\<lambda>e. \<not> headerProvider e \<noteq> None) es"
    using es by (auto simp: quiet_def list_all_iff)
  have st: "list_all (\<lambda>e. \<not> stepStarts t s e) es" for t s
    using none(2) stepStarts_boundary by (auto simp: list_all_iff)
  have cl: "\<not> list_ex closesStep es"
    using none(1,2) closesStep_boundary by (auto simp: list_all_iff list_ex_iff)
  have "providerForOpenStep (h @ es) t s = providerForOpenStep h t s" for t s
    unfolding providerForOpenStep_def afterLast_append [OF st] findLast_append_none [OF none(3)]
    using cl by (cases "afterLast (stepStarts t s) h") simp_all
  with o show ?thesis
    by (simp add: openRequest_def findLast_append_none [OF none(1)] findLast_append_none [OF none(2)])
qed

text \<open>No record of the chain has the number of the next one, so no wait of it has ended.\<close>

lemma not_started:
  fixes q h key fresh
  defines "prior \<equiv> priorRetry h (rf_turn q) (rf_step q) (rf_provider q) key"
  assumes valid: "validateRetries h = Inr ()" and fresh: "\<not> list_ex (usesRetryId fresh) h"
    and s: "s \<in> set (starts h)"
  shows "\<not> (jprop ''retryId'' s = Some (JStr (nextId fresh prior))
    \<and> jprop ''retry'' s = Some (jint (nextNumber prior)))"
proof
  assume a: "jprop ''retryId'' s = Some (JStr (nextId fresh prior))
    \<and> jprop ''retry'' s = Some (jint (nextNumber prior))"
  have inv: "retry_inv h" using valid by (rule valid_retry_inv)
  then obtain d where d: "d \<in> set (retries h)" "pairsStarted s d"
    using s by (auto simp: retry_inv_def starts_ok_def)
  have id: "jprop ''retryId'' d = Some (JStr (nextId fresh prior))"
    and num: "jprop ''retry'' d = Some (jint (nextNumber prior))"
    using d(2) a by (simp_all add: pairsStarted_def)
  show False
  proof (cases prior)
    case None
    then show False using usesRetryId_none [OF fresh d(1)] id by (simp add: nextId_def)
  next
    case (Some p)
    let ?c = "(Some (jint (rf_turn q)), Some (jint (rf_step q)), Some (JStr (rf_provider q)), Some (JStr key))"
    have ne: "ofChain ?c (retries h) \<noteq> []" and p: "p = last (ofChain ?c (retries h))"
      using Some unfolding prior_def priorRetry_chain Let_def by (auto split: if_splits)
    note l = last_ofChain [OF ne, folded p]
    have "nonEmptyText (jprop ''retryId'' p)" using retryId_string [OF valid] l by blast
    then have "jprop ''retryId'' p = jprop ''retryId'' d"
      using id Some nonEmptyText_D by (simp add: nextId_def)
    then have "chain d = ?c" using inv l d(1) by (auto simp: retry_inv_def identities_ok_def)
    then have "d \<in> set (ofChain ?c (retries h))" using d(1) by (simp add: ofChain_def)
    then have "numberOf d \<in> set (map numberOf (ofChain ?c (retries h)))" by simp
    also have "map numberOf (ofChain ?c (retries h)) = map int [1..<Suc (length (ofChain ?c (retries h)))]"
      using inv by (simp only: retry_inv_def numbered_def)
    finally have "numberOf d \<le> int (length (ofChain ?c (retries h)))" by auto
    moreover have "numberOf p = int (length (ofChain ?c (retries h)))"
      unfolding p using inv ne by (intro numbered_last) (simp_all add: retry_inv_def)
    moreover have "numberOf d = nextNumber prior"
    proof -
      have "jprop ''retry'' d = Some (jint (numberOf d))"
        using inv d(1) by (simp add: retry_inv_def numbers_ok_def)
      with num show ?thesis by (simp add: jint_def)
    qed
    moreover have "nextNumber prior = numberOf p + 1" using Some by (simp add: nextNumber_def numberOf_def)
    ultimately show False by linarith
  qed
qed

lemma backoff_valid:
  fixes q h key env
  defines "prior \<equiv> priorRetry h (rf_turn q) (rf_step q) (rf_provider q) key"
  assumes valid: "validateRetries h = Inr ()" and opn: "openRequest q h"
    and fresh: "\<not> list_ex (usesRetryId (env_freshId env)) h" and fne: "env_freshId env \<noteq> ''''"
    and wait: "list_all quiet (env_waitEvents env)"
    and rec: "validateRecord (retryPayload q (rp_mode p) key (nextNumber prior)
        (nextId (env_freshId env) prior) delay) = Inr (nextNumber prior)"
  shows "validateRetries (fst (backoff q env p key (nextNumber prior)
      (nextId (env_freshId env) prior) delay h)) = Inr ()"
proof -
  let ?n = "nextNumber prior" and ?i = "nextId (env_freshId env) prior"
  let ?e = "retryEvent q p key ?n ?i delay" and ?s = "startedPayload q ?n ?i"
  let ?w = "h @ [?e] @ env_waitEvents env"
  have "validateRetry h (retryPayload q (rp_mode p) key ?n ?i delay) = Inr ()"
    unfolding prior_def by (rule validateRetry_payload [OF valid opn fresh rec [unfolded prior_def]])
  then have one: "validateRetries (h @ [?e]) = Inr ()"
    using valid by (simp add: validateRetries_snoc validateRetryEvent_def retryEvent_def)
  have w: "validateRetries ?w = Inr ()"
    using validateRetries_quiet [OF one quiet_records [OF wait]] by simp
  have rs: "retries ?w = retries h @ [retryPayload q (rp_mode p) key ?n ?i delay]"
    using quiet_retries [OF wait]
    by (simp add: retries_append) (simp add: retries_def List.map_filter_simps retryEvent_def)
  have ss: "starts ?w = starts h"
    using quiet_retries [OF wait]
    by (simp add: starts_append) (simp add: starts_def List.map_filter_simps retryEvent_def)
  have ine: "?i \<noteq> ''''"
    using rec validateRecord_D [OF rec] by (simp add: retryPayload_fields)
  have none: "\<not> list_ex (pairsStarted ?s) (starts h)"
    using not_started [OF valid fresh, of _ q key]
    by (auto simp: list_ex_iff pairsStarted_def startedPayload_fields prior_def)
  have "validateStarted ?w ?s = Inr ()"
    unfolding validateStarted_eq rs ss findLast_snoc
    using ine none by (simp add: pairsStarted_def startedPayload_fields retryPayload_fields)
  then have "validateRetries (?w @ [startedEvent q ?n ?i]) = Inr ()"
    using w unfolding validateRetries_snoc by (simp add: validateRetryEvent_def startedEvent_def)
  then show ?thesis
    using valid w by (simp add: backoff_def Let_def)
qed

lemma schedule_valid:
  assumes pol: "policy_ok p" and f: "failure_ok (rf_failure q)" and prov: "rf_provider q \<noteq> ''''"
    and key: "retryPolicyKey stringify p \<noteq> ''''" and rnd: "0 \<le> env_random env" "env_random env \<le> 1"
    and valid: "validateRetries h = Inr ()" and opn: "openRequest q h"
    and fresh: "\<not> list_ex (usesRetryId (env_freshId env)) h" and fne: "env_freshId env \<noteq> ''''"
    and quiet: "list_all quiet (env_downEvents env)" "list_all quiet (env_waitEvents env)"
    and room: "list_all (\<lambda>d. numberOf d < maxSafeInteger) (retries h)"
  shows "validateRetries (fst (schedule stringify q env p h)) = Inr ()"
proof -
  define key where "key = retryPolicyKey stringify p"
  define prior where "prior = priorRetry h (rf_turn q) (rf_step q) (rf_provider q) key"
  let ?n = "nextNumber prior" and ?i = "nextId (env_freshId env) prior"
  define over where "over = (case rp_mode p of NormalMode n _ \<Rightarrow>
      n \<le> (case prior of None \<Rightarrow> 0 | Some d \<Rightarrow> asInt (jprop ''retry'' d)) | AlwaysMode \<Rightarrow> False)"
  have inv: "retry_inv h" using valid by (rule valid_retry_inv)
  have n: "1 \<le> ?n" "safeInt ?n"
  proof (atomize (full), cases prior)
    case None
    then show "1 \<le> ?n \<and> safeInt ?n" by (simp add: nextNumber_def safeInt_def maxSafeInteger_def)
  next
    case (Some d)
    then have d: "d \<in> set (retries h)" unfolding prior_def by (rule priorRetry_mem)
    have "1 \<le> numberOf d" using inv d by (simp add: retry_inv_def numbers_ok_def)
    moreover have "numberOf d < maxSafeInteger" using room d by (simp add: list_all_iff)
    ultimately show "1 \<le> ?n \<and> safeInt ?n"
      using Some by (simp add: nextNumber_def numberOf_def safeInt_def)
  qed
  have i: "?i \<noteq> ''''"
  proof (cases prior)
    case (Some d)
    then have "d \<in> set (retries h)" unfolding prior_def by (rule priorRetry_mem)
    then have "nonEmptyText (jprop ''retryId'' d)" using retryId_string [OF valid] by blast
    with Some show ?thesis by (simp add: nextId_def nonEmptyText_def)
  qed (simp add: nextId_def fne)
  have go: "validateRetries (fst (backoff q env p key ?n ?i delay h)) = Inr ()"
    if o: "\<not> over" and d: "0 \<le> delay" "delay \<le> rp_maxDelayMs p" for delay
  proof -
    have m: "mode_allows (rp_mode p) ?n"
      using o pol by (cases "rp_mode p") (simp_all add: over_def mode_allows_def policy_ok_def nextNumber_def)
    have "delay \<le> maxTimerDelayMs" using d pol by (simp add: policy_ok_def)
    then have "validateRecord (retryPayload q (rp_mode p) key ?n ?i delay) = Inr ?n"
      using validateRecord_payload [OF i f n prov assms(4) m d(1)] by (simp add: key_def)
    then show ?thesis
      unfolding prior_def by (rule backoff_valid [OF valid opn fresh fne quiet(2)])
  qed
  have del: "validateRetries (fst (delegate env h)) = Inr ()"
    using validateRetries_quiet [OF valid quiet_records [OF quiet(1)]] by (simp add: delegate_def)
  have loc: "\<not> over \<Longrightarrow> validateRetries (fst (backoff q env p key ?n ?i
      (localDelay p ?n (env_random env)) h)) = Inr ()"
    using localDelay_bounds [OF pol rnd n(1)] by (intro go) simp_all
  have eq: "schedule stringify q env p h =
      (if over then delegate env h
       else case failure_retryAfterMs (rf_failure q) of
         None \<Rightarrow> backoff q env p key ?n ?i (localDelay p ?n (env_random env)) h
       | Some after \<Rightarrow>
           if after \<le> 0 then backoff q env p key ?n ?i (localDelay p ?n (env_random env)) h
           else if after > rp_maxDelayMs p then
             (if rp_mode p = AlwaysMode
              then backoff q env p key ?n ?i (localDelay p ?n (env_random env)) h
              else delegate env h)
           else backoff q env p key ?n ?i after h)"
    unfolding schedule_def Let_def over_def key_def [symmetric] prior_def [symmetric]
      nextNumber_def nextId_def by (rule refl)
  show ?thesis
    unfolding eq using del loc go by (auto split: option.split)
qed

text \<open>
  Claim C18: recovery keeps the invariants of its records. When a request has failed in the step that
  is open, with the provider in force, and the log's records satisfy the invariant companion, then
  the log after the recovery satisfies it too, whatever the policy, the failure, the jitter, the
  downstream outcome and the moments of cancellation: every record it appends is the next number
  of its chain, within the policy's bound and with a delay a timer can wait for, and a wait that
  ends is recorded once. What others append while the recovery waits opens or closes no step and
  is no retry record; the fresh identity is new; no chain has used up the safe integers.
\<close>

theorem recover_keeps_invariants:
  assumes "pred_option policy_ok (rf_policy q)" and "failure_ok (rf_failure q)"
    and "rf_provider q \<noteq> ''''" and "\<And>p. retryPolicyKey stringify p \<noteq> ''''"
    and "0 \<le> env_random env" and "env_random env \<le> 1"
    and "env_freshId env \<noteq> ''''" and "\<not> list_ex (usesRetryId (env_freshId env)) h"
    and "list_all quiet (env_downEvents env)" and "list_all quiet (env_waitEvents env)"
    and "list_all (\<lambda>d. numberOf d < maxSafeInteger) (retries h)"
    and "openRequest q h" and "validateRetries h = Inr ()"
  shows "validateRetries (fst (recover stringify q env h)) = Inr ()"
proof -
  let ?s = "h @ env_downEvents env"
  have s: "validateRetries ?s = Inr ()"
    by (rule validateRetries_quiet [OF assms(13) quiet_records [OF assms(9)]])
  have quiet_id: "\<not> usesRetryId i e" if "quiet e" for i e
    using that by (simp add: quiet_def usesRetryId_def)
  have f: "\<not> list_ex (usesRetryId (env_freshId env)) ?s"
    using assms(8,9) quiet_id by (auto simp: list_all_iff list_ex_iff)
  have r: "list_all (\<lambda>d. numberOf d < maxSafeInteger) (retries ?s)"
    using assms(11) quiet_retries [OF assms(9)] by (simp add: retries_append)
  note o = openRequest_quiet [OF assms(12,9)]
  show ?thesis
  proof (cases "rf_policy q")
    case None
    then show ?thesis using s by (simp add: recover_def delegate_def)
  next
    case (Some p)
    then have pol: "policy_ok p" using assms(1) by simp
    note sched = schedule_valid [OF pol assms(2,3,4,5,6)]
    show ?thesis
    proof (cases "rp_mode p")
      case AlwaysMode
      then show ?thesis
        using Some assms(13) s sched [OF s o f assms(7,9,10) r] by (simp add: recover_def Let_def)
    next
      case (NormalMode n codes)
      then show ?thesis
        using Some s sched [OF assms(13,12,8,7,9,10,11)] by (simp add: recover_def delegate_def)
    qed
  qed
qed

definition sample_failure :: request_failure where
  "sample_failure =
     \<lparr>rf_turn = 1, rf_step = 1, rf_provider = ''deepseek'',
      rf_failure = \<lparr>failure_message = ''busy'', failure_code = ''RATE_LIMIT'', failure_status = Some 429,
        failure_retryAfterMs = Some 800, failure_requestId = None\<rparr>,
      rf_policy = Some \<lparr>rp_mode = NormalMode 2 [''RATE_LIMIT''], rp_initialDelayMs = 500,
        rp_maxDelayMs = 10000, rp_jitterRatio = 1 / 10\<rparr>\<rparr>"

definition sample_env :: recovery_env where
  "sample_env =
     \<lparr>env_abortedFirst = False, env_downEvents = [], env_down = DownNone, env_abortedAfter = False,
      env_abortedBackoff = False, env_waitEvents = [TodoWrite []], env_waitCompletes = True,
      env_random = 1 / 2, env_freshId = ''r1''\<rparr>"

definition sample_header :: epoch_header where
  "sample_header =
     \<lparr>eh_config = \<lparr>cfg_provider = ''deepseek'', cfg_model = ''m'', cfg_reasoningEffort = None,
        cfg_temperature = None, cfg_maxTokens = None, cfg_stop = None\<rparr>,
      eh_adapterDefaults = None, eh_system = None, eh_tools = None\<rparr>"

definition sample_open :: "event_data list" where
  "sample_open = [TurnStart 1, RequestHeader sample_header ''h'', StepStart 1 1]"

lemma recover_keeps_invariants_witness:
  "validateRetries (fst (recover (\<lambda>_. ''key'') sample_failure sample_env sample_open)) = Inr ()
   \<and> snd (recover (\<lambda>_. ''key'') sample_failure sample_env sample_open) = Retry
   \<and> length (fst (recover (\<lambda>_. ''key'') sample_failure sample_env sample_open)) = 6"
proof (intro conjI)
  show "validateRetries (fst (recover (\<lambda>_. ''key'') sample_failure sample_env sample_open)) = Inr ()"
  proof (rule recover_keeps_invariants)
    show "pred_option policy_ok (rf_policy sample_failure)"
      by (simp add: sample_failure_def policy_ok_def safeInt_def maxSafeInteger_def maxTimerDelayMs_def)
    show "failure_ok (rf_failure sample_failure)" by (simp add: sample_failure_def failure_ok_def)
    show "rf_provider sample_failure \<noteq> ''''" by (simp add: sample_failure_def)
    show "retryPolicyKey (\<lambda>_. ''key'') p \<noteq> ''''" for p by (simp add: retryPolicyKey_def)
    show "\<not> list_ex (usesRetryId (env_freshId sample_env)) sample_open" by code_simp
    show "list_all quiet (env_waitEvents sample_env)" by (simp add: sample_env_def quiet_def)
    show "list_all (\<lambda>d. numberOf d < maxSafeInteger) (retries sample_open)"
      by (simp add: sample_open_def retries_def List.map_filter_simps)
    show "openRequest sample_failure sample_open" by code_simp
    show "validateRetries sample_open = Inr ()" by code_simp
  qed (simp_all add: sample_env_def)
  show "snd (recover (\<lambda>_. ''key'') sample_failure sample_env sample_open) = Retry" by code_simp
  show "length (fst (recover (\<lambda>_. ''key'') sample_failure sample_env sample_open)) = 6" by code_simp
qed

text \<open>
  Claim C19: a bounded policy retries at most as often as it says. Once the chain of a policy in the
  step has as many records as the policy allows, the recovery appends nothing of its own and leaves
  the failure to the downstream recovery.
\<close>

theorem bounded_policy_stops:
  assumes "rf_policy q = Some p" and "rp_mode p = NormalMode n codes" and "validateRetries h = Inr ()"
    and "n \<le> int (length (filter
      (chainMember (rf_turn q) (rf_step q) (rf_provider q) (retryPolicyKey stringify p)) (retries h)))"
  shows "recover stringify q env h = (h @ env_downEvents env, Delegated (env_down env))"
proof -
  let ?key = "retryPolicyKey stringify p"
  let ?c = "(Some (jint (rf_turn q)), Some (jint (rf_step q)), Some (JStr (rf_provider q)), Some (JStr ?key))"
  define prior where "prior = priorRetry h (rf_turn q) (rf_step q) (rf_provider q) ?key"
  have len: "n \<le> int (length (ofChain ?c (retries h)))"
    using assms(4) by (simp add: ofChain_def chainMember_chain)
  have "n \<le> (case prior of None \<Rightarrow> 0 | Some d \<Rightarrow> asInt (jprop ''retry'' d))"
  proof (cases "ofChain ?c (retries h) = []")
    case True
    then show ?thesis using len by (simp add: prior_def priorRetry_chain)
  next
    case False
    have "numbered (retries h)" using valid_retry_inv [OF assms(3)] by (simp add: retry_inv_def)
    from numbered_last [OF this False] len False show ?thesis
      by (simp add: prior_def priorRetry_chain numberOf_def)
  qed
  then show ?thesis
    using assms(1,2)
    by (simp add: recover_def schedule_def Let_def prior_def [symmetric] delegate_def)
qed

definition once_policy :: retry_policy where
  "once_policy = \<lparr>rp_mode = NormalMode 1 [''RATE_LIMIT''], rp_initialDelayMs = 500,
     rp_maxDelayMs = 10000, rp_jitterRatio = 0\<rparr>"

definition once_failure :: request_failure where
  "once_failure = sample_failure\<lparr>rf_policy := Some once_policy\<rparr>"

definition once_log :: "event_data list" where
  "once_log = fst (recover (\<lambda>_. ''key'') once_failure sample_env sample_open)"

lemma bounded_policy_stops_witness:
  "length once_log = 6
   \<and> recover (\<lambda>_. ''key'') once_failure sample_env once_log = (once_log, Delegated DownNone)"
proof -
  have "recover (\<lambda>_. ''key'') once_failure sample_env once_log
      = (once_log @ env_downEvents sample_env, Delegated (env_down sample_env))"
  proof (rule bounded_policy_stops [where p = once_policy and n = 1 and codes = "[''RATE_LIMIT'']"])
    show "validateRetries once_log = Inr ()" by code_simp
    show "1 \<le> int (length (filter (chainMember (rf_turn once_failure) (rf_step once_failure)
        (rf_provider once_failure) (retryPolicyKey (\<lambda>_. ''key'') once_policy)) (retries once_log)))"
      by code_simp
  qed (simp_all add: once_failure_def once_policy_def)
  moreover have "length once_log = 6" by code_simp
  ultimately show ?thesis by (simp add: sample_env_def)
qed

end
