(* ===== verification/Goal_Fold.thy ===== *)
theory Goal_Fold
  imports Session_Types Json_Read "HOL-Library.List_Lexorder" "HOL-Library.Char_ord"
begin

text \<open>
  The durable state of a goal, \<^verbatim>\<open>packages/goal/goal/src/fold.ts\<close>: the strict decoder of a
  goal change, the transition each operation is allowed, and the fold over a session log. Text is
  Latin-1 here, so the white space that \<^verbatim>\<open>trim\<close> removes is the one of that range. Errors are
  the messages of the source without their interpolated values.
\<close>

section \<open>Types\<close>

datatype goal_phase = ActivePhase | PausedPhase | BlockedPhase | CompletePhase

record goal_ref =
  gr_id :: string
  gr_revision :: int

record goal_snapshot =
  g_id :: string
  g_revision :: int
  g_objective :: string
  g_phase :: goal_phase
  g_blockedReason :: "(string \<times> string) option"
  g_maxRounds :: int

datatype goal_operation = OpCreate | OpEdit | OpPause | OpResume | OpComplete | OpBlock

datatype goal_change =
    SnapshotChange goal_operation (change_goal: goal_snapshot) (change_rounds: int)
      (change_createdAt: int) (change_updatedAt: int)
  | ClearChange (change_cleared: goal_ref) (change_clearedAt: int)

section \<open>Text\<close>

definition isSpace :: "char \<Rightarrow> bool" where
  "isSpace c \<longleftrightarrow> of_char c \<in> {9, 10, 11, 12, 13, 32, 160 :: nat}"

definition trim :: "string \<Rightarrow> string" where
  "trim s = rev (dropWhile isSpace (rev (dropWhile isSpace s)))"

definition isLower :: "char \<Rightarrow> bool" where
  "isLower c \<longleftrightarrow> (97::nat) \<le> of_char c \<and> of_char c \<le> (122::nat)"

definition isLowerOrDigit :: "char \<Rightarrow> bool" where
  "isLowerOrDigit c \<longleftrightarrow> isLower c \<or> ((48::nat) \<le> of_char c \<and> of_char c \<le> (57::nat))"

text \<open>\<^verbatim>\<open>/^[a-z][a-z0-9]*(?:-[a-z0-9]+)*$/\<close>; the flag says that a segment has begun.\<close>

fun kebabTail :: "bool \<Rightarrow> string \<Rightarrow> bool" where
  "kebabTail begun [] = begun"
| "kebabTail begun (c # cs) =
     (if isLowerOrDigit c then kebabTail True cs
      else c = CHR ''-'' \<and> begun \<and> kebabTail False cs)"

fun lowerKebab :: "string \<Rightarrow> bool" where
  "lowerKebab [] = False"
| "lowerKebab (c # cs) = (isLower c \<and> kebabTail True cs)"

definition normalized :: "string \<Rightarrow> bool" where
  "normalized s \<longleftrightarrow> trim s \<noteq> [] \<and> s = trim s"

text \<open>\<^verbatim>\<open>Object.keys(value).sort().join(',')\<close>\<close>

fun joinComma :: "string list \<Rightarrow> string" where
  "joinComma [] = []"
| "joinComma [k] = k"
| "joinComma (k # ks) = k @ '','' @ joinComma ks"

definition keyText :: "json \<Rightarrow> string" where
  "keyText v = joinComma (sort (objectKeys v))"

section \<open>Decoding\<close>

definition atLeast :: "int \<Rightarrow> string \<Rightarrow> json option \<Rightarrow> string + int" where
  "atLeast low why v =
     (case safeIntField v of None \<Rightarrow> Inl why | Some n \<Rightarrow> if n < low then Inl why else Inr n)"

abbreviation positiveInteger :: "json option \<Rightarrow> string + int" where
  "positiveInteger \<equiv> atLeast 1 ''must be a positive safe integer''"

abbreviation nonNegativeInteger :: "json option \<Rightarrow> string + int" where
  "nonNegativeInteger \<equiv> atLeast 0 ''must be a non-negative safe integer''"

fun phaseName :: "goal_phase \<Rightarrow> string" where
  "phaseName ActivePhase = ''active''"
| "phaseName PausedPhase = ''paused''"
| "phaseName BlockedPhase = ''blocked''"
| "phaseName CompletePhase = ''complete''"

definition phaseOf :: "json option \<Rightarrow> goal_phase option" where
  "phaseOf v = find (\<lambda>p. v = Some (JStr (phaseName p))) [ActivePhase, PausedPhase, BlockedPhase, CompletePhase]"

fun operationName :: "goal_operation \<Rightarrow> string" where
  "operationName OpCreate = ''create''"
| "operationName OpEdit = ''edit''"
| "operationName OpPause = ''pause''"
| "operationName OpResume = ''resume''"
| "operationName OpComplete = ''complete''"
| "operationName OpBlock = ''block''"

definition operationOf :: "json option \<Rightarrow> goal_operation option" where
  "operationOf v =
     find (\<lambda>p. v = Some (JStr (operationName p)))
       [OpCreate, OpEdit, OpPause, OpResume, OpComplete, OpBlock]"

definition decodeBlockReason :: "json option \<Rightarrow> string + (string \<times> string)" where
  "decodeBlockReason value =
     (case value of
        None \<Rightarrow> Inl ''goal change goal.blockedReason must have exactly code and message fields''
      | Some v \<Rightarrow>
          if \<not> isObject v \<or> keyText v \<noteq> ''code,message''
          then Inl ''goal change goal.blockedReason must have exactly code and message fields''
          else if \<not> isString (jprop ''code'' v) \<or> \<not> lowerKebab (asString (jprop ''code'' v))
          then Inl ''goal change goal.blockedReason.code must be lower-kebab-case''
          else if \<not> isString (jprop ''message'' v) \<or> \<not> normalized (asString (jprop ''message'' v))
          then Inl ''goal change goal.blockedReason.message must be non-empty and normalized''
          else Inr (asString (jprop ''code'' v), asString (jprop ''message'' v)))"

definition snapshotKeys :: "goal_phase \<Rightarrow> string" where
  "snapshotKeys phase =
     (if phase = BlockedPhase then ''blockedReason,id,maxGoalRounds,objective,phase,revision''
      else ''id,maxGoalRounds,objective,phase,revision'')"

definition decodeSnapshot :: "json option \<Rightarrow> string + goal_snapshot" where
  "decodeSnapshot value =
     (case value of
        None \<Rightarrow> Inl ''goal change goal must be a record''
      | Some v \<Rightarrow>
          if \<not> isObject v then Inl ''goal change goal must be a record''
          else if \<not> isString (jprop ''id'' v) \<or> asString (jprop ''id'' v) = []
          then Inl ''goal change goal.id must be a non-empty string''
          else if \<not> isString (jprop ''objective'' v) \<or> \<not> normalized (asString (jprop ''objective'' v))
          then Inl ''goal change goal.objective must be non-empty and normalized''
          else case phaseOf (jprop ''phase'' v) of
            None \<Rightarrow> Inl ''goal change goal.phase is invalid''
          | Some phase \<Rightarrow>
              if keyText v \<noteq> snapshotKeys phase
              then Inl ''goal change goal for phase must have exactly the expected fields''
              else bindR (positiveInteger (jprop ''revision'' v)) (\<lambda>revision.
                bindR (positiveInteger (jprop ''maxGoalRounds'' v)) (\<lambda>maxRounds.
                bindR (if phase = BlockedPhase
                       then mapR Some (decodeBlockReason (jprop ''blockedReason'' v)) else Inr None)
                  (\<lambda>reason. Inr
                    \<lparr>g_id = asString (jprop ''id'' v), g_revision = revision,
                     g_objective = asString (jprop ''objective'' v), g_phase = phase,
                     g_blockedReason = reason, g_maxRounds = maxRounds\<rparr>))))"

definition decodeRef :: "json option \<Rightarrow> string + goal_ref" where
  "decodeRef value =
     (case value of
        None \<Rightarrow> Inl ''goal clear tombstone must have exactly id and revision fields''
      | Some v \<Rightarrow>
          if \<not> isObject v \<or> keyText v \<noteq> ''id,revision''
          then Inl ''goal clear tombstone must have exactly id and revision fields''
          else if \<not> isString (jprop ''id'' v) \<or> asString (jprop ''id'' v) = []
          then Inl ''goal clear tombstone id must be a non-empty string''
          else mapR (\<lambda>n. \<lparr>gr_id = asString (jprop ''id'' v), gr_revision = n\<rparr>)
                 (positiveInteger (jprop ''revision'' v)))"

text \<open>\<open>Inr None\<close> is the \<^verbatim>\<open>undefined\<close> of a value that is no goal change.\<close>

definition decodeGoalChange :: "json \<Rightarrow> string + goal_change option" where
  "decodeGoalChange v =
     (if \<not> isObject v \<or> jprop ''kind'' v \<noteq> Some (JStr ''goal/change'') then Inr None
      else if jprop ''version'' v \<noteq> Some (jint 1) then Inl ''unsupported goal change version''
      else if jprop ''operation'' v = Some (JStr ''clear'') then
        (if keyText v \<noteq> ''cleared,clearedAt,kind,operation,version''
         then Inl ''goal clear change must have exactly the expected fields''
         else bindR (decodeRef (jprop ''cleared'' v)) (\<lambda>ref.
           bindR (nonNegativeInteger (jprop ''clearedAt'' v)) (\<lambda>stamp.
           Inr (Some (ClearChange ref stamp)))))
      else case operationOf (jprop ''operation'' v) of
        None \<Rightarrow> Inl ''goal change operation is invalid''
      | Some operation \<Rightarrow>
          if keyText v \<noteq> ''createdAt,goal,kind,operation,roundsStarted,updatedAt,version''
          then Inl ''goal snapshot change must have exactly the expected fields''
          else bindR (nonNegativeInteger (jprop ''createdAt'' v)) (\<lambda>createdAt.
            bindR (nonNegativeInteger (jprop ''updatedAt'' v)) (\<lambda>updatedAt.
            if updatedAt < createdAt then Inl ''goal change updatedAt cannot precede createdAt''
            else bindR (decodeSnapshot (jprop ''goal'' v)) (\<lambda>goal.
              bindR (nonNegativeInteger (jprop ''roundsStarted'' v)) (\<lambda>rounds.
              Inr (Some (SnapshotChange operation goal rounds createdAt updatedAt)))))))"

section \<open>The fold\<close>

record goal_state =
  gs_goal :: "goal_snapshot option"
  gs_rounds :: int
  gs_createdAt :: "int option"
  gs_updatedAt :: "int option"
  gs_lastRef :: "goal_ref option"
  gs_seen :: "string list"

definition emptyGoalFoldState :: goal_state where
  "emptyGoalFoldState =
     \<lparr>gs_goal = None, gs_rounds = 0, gs_createdAt = None, gs_updatedAt = None, gs_lastRef = None,
      gs_seen = []\<rparr>"

definition goalChangeRef :: "goal_change \<Rightarrow> goal_ref" where
  "goalChangeRef c =
     (case c of
        ClearChange r _ \<Rightarrow> r
      | SnapshotChange _ g _ _ _ \<Rightarrow> \<lparr>gr_id = g_id g, gr_revision = g_revision g\<rparr>)"

definition sameDefinition :: "goal_snapshot \<Rightarrow> goal_snapshot \<Rightarrow> bool" where
  "sameDefinition current nxt \<longleftrightarrow>
     g_objective nxt = g_objective current \<and> g_maxRounds nxt = g_maxRounds current"

definition isNextRevision :: "goal_snapshot \<Rightarrow> goal_ref \<Rightarrow> bool" where
  "isNextRevision current r \<longleftrightarrow> gr_id r = g_id current \<and> gr_revision r = g_revision current + 1"

definition validateSnapshotTransition ::
  "goal_state \<Rightarrow> goal_change \<Rightarrow> goal_snapshot \<Rightarrow> string + unit" where
  "validateSnapshotTransition st c current =
     (case c of
        ClearChange _ _ \<Rightarrow> Inl ''not a snapshot''
      | SnapshotChange operation nxt rounds createdAt updatedAt \<Rightarrow>
          if \<not> isNextRevision current (goalChangeRef c)
          then Inl ''must advance the current goal by one revision''
          else case gs_updatedAt st of
            None \<Rightarrow> Inl ''current goal fold lacks updatedAt''
          | Some before \<Rightarrow>
              if Some createdAt \<noteq> gs_createdAt st \<or> updatedAt < before \<or> rounds \<noteq> gs_rounds st
              then Inl ''does not preserve the current counters and timestamps''
              else if operation \<noteq> OpEdit \<and> operation \<noteq> OpCreate \<and> \<not> sameDefinition current nxt
              then Inl ''cannot change objective or maxGoalRounds''
              else (case operation of
                 OpEdit \<Rightarrow>
                   if g_phase nxt \<noteq> g_phase current \<or> g_blockedReason nxt \<noteq> g_blockedReason current
                   then Inl ''goal edit cannot change phase or blocked reason'' else Inr ()
               | OpPause \<Rightarrow>
                   if g_phase current \<noteq> ActivePhase \<or> g_phase nxt \<noteq> PausedPhase
                   then Inl ''goal pause has an invalid phase transition'' else Inr ()
               | OpResume \<Rightarrow>
                   if g_phase current \<notin> {ActivePhase, PausedPhase, BlockedPhase}
                     \<or> g_phase nxt \<noteq> ActivePhase \<or> g_maxRounds nxt \<le> gs_rounds st
                   then Inl ''goal resume has an invalid phase transition or exhausted round budget''
                   else Inr ()
               | OpComplete \<Rightarrow>
                   if g_phase current = CompletePhase \<or> g_phase nxt \<noteq> CompletePhase
                   then Inl ''goal complete has an invalid phase transition'' else Inr ()
               | OpBlock \<Rightarrow>
                   if g_phase current \<noteq> ActivePhase \<or> g_phase nxt \<noteq> BlockedPhase
                   then Inl ''goal block has an invalid phase transition'' else Inr ()
               | OpCreate \<Rightarrow> Inl ''goal create cannot be validated as a current-goal transition''))"

definition applyGoalChange :: "goal_state \<Rightarrow> goal_change \<Rightarrow> string + goal_state" where
  "applyGoalChange st c =
     (case c of
        ClearChange cleared clearedAt \<Rightarrow>
          (case gs_goal st of
             None \<Rightarrow> Inl ''goal clear requires a current goal''
           | Some current \<Rightarrow>
               if \<not> isNextRevision current cleared
               then Inl ''must advance the current goal by one revision''
               else (case gs_updatedAt st of
                  None \<Rightarrow> Inl ''current goal fold lacks updatedAt''
                | Some before \<Rightarrow>
                    if clearedAt < before
                    then Inl ''goal clear timestamp cannot precede the current goal update''
                    else Inr (st\<lparr>gs_goal := None, gs_rounds := 0, gs_createdAt := None,
                                 gs_updatedAt := None, gs_lastRef := Some cleared\<rparr>)))
      | SnapshotChange operation goal rounds createdAt updatedAt \<Rightarrow>
          bindR
            (if operation = OpCreate then
               (if g_revision goal \<noteq> 1 \<or> g_phase goal \<noteq> ActivePhase \<or> rounds \<noteq> 0
                   \<or> (case gs_goal st of None \<Rightarrow> False | Some g \<Rightarrow> g_phase g \<noteq> CompletePhase)
                   \<or> g_id goal \<in> set (gs_seen st)
                then Inl ''goal create requires a fresh active revision-one goal with zero rounds''
                else Inr (st\<lparr>gs_seen := gs_seen st @ [g_id goal]\<rparr>))
             else (case gs_goal st of
               None \<Rightarrow> Inl ''requires a current goal''
             | Some current \<Rightarrow> mapR (\<lambda>_. st) (validateSnapshotTransition st c current)))
            (\<lambda>st'. Inr (st'\<lparr>gs_goal := Some goal, gs_rounds := rounds, gs_createdAt := Some createdAt,
                            gs_updatedAt := Some updatedAt, gs_lastRef := Some (goalChangeRef c)\<rparr>)))"

text \<open>\<^verbatim>\<open>goalSource\<close>: the attribution of an admitted round, checked.\<close>

definition goalSource :: "message_source \<Rightarrow> string + (string \<times> int \<times> int) option" where
  "goalSource src =
     (case src of
        GoalSource gid revision rnd \<Rightarrow>
          (case (safeIntField (Some (JNum revision)), safeIntField (Some (JNum rnd))) of
             (Some v, Some r) \<Rightarrow>
               if gid = [] \<or> v < 1 \<or> r < 1 then Inl ''goal message source is invalid''
               else Inr (Some (gid, v, r))
           | _ \<Rightarrow> Inl ''goal message source is invalid'')
      | _ \<Rightarrow> Inr None)"

definition applyGoalEvent :: "goal_state \<Rightarrow> event \<Rightarrow> string + goal_state" where
  "applyGoalEvent st e =
     (case ev_data e of
        GoalChange v \<Rightarrow>
          bindR (decodeGoalChange v) (\<lambda>c.
            case c of
              None \<Rightarrow> Inl ''goal change has an invalid kind''
            | Some change \<Rightarrow> applyGoalChange st change)
      | UserMsg m \<Rightarrow>
          bindR (goalSource (msg_source m)) (\<lambda>src.
            case src of
              None \<Rightarrow> Inr st
            | Some (gid, revision, rnd) \<Rightarrow>
                (case gs_goal st of
                   None \<Rightarrow> Inl ''not the next admitted round of the active goal''
                 | Some current \<Rightarrow>
                     if g_phase current \<noteq> ActivePhase \<or> gid \<noteq> g_id current
                        \<or> revision \<noteq> g_revision current \<or> rnd \<noteq> gs_rounds st + 1
                        \<or> rnd > g_maxRounds current
                     then Inl ''not the next admitted round of the active goal''
                     else Inr (st\<lparr>gs_rounds := rnd\<rparr>)))
      | _ \<Rightarrow> Inr st)"

definition foldGoal :: "event list \<Rightarrow> string + goal_state" where
  "foldGoal events = runR applyGoalEvent emptyGoalFoldState events"

section \<open>Encoding\<close>

text \<open>The payload of a \<^verbatim>\<open>goal/change\<close> event for a change built by the service.\<close>

definition snapshotJson :: "goal_snapshot \<Rightarrow> json" where
  "snapshotJson g =
     JObj ([(''id'', JStr (g_id g)), (''revision'', jint (g_revision g)),
            (''objective'', JStr (g_objective g)), (''phase'', JStr (phaseName (g_phase g))),
            (''maxGoalRounds'', jint (g_maxRounds g))]
       @ (case g_blockedReason g of
            None \<Rightarrow> []
          | Some (code, message) \<Rightarrow>
              [(''blockedReason'', JObj [(''code'', JStr code), (''message'', JStr message)])]))"

definition changeJson :: "goal_change \<Rightarrow> json" where
  "changeJson c =
     (case c of
        SnapshotChange operation g rounds createdAt updatedAt \<Rightarrow>
          JObj [(''kind'', JStr ''goal/change''), (''version'', jint 1),
                (''operation'', JStr (operationName operation)), (''goal'', snapshotJson g),
                (''roundsStarted'', jint rounds), (''createdAt'', jint createdAt),
                (''updatedAt'', jint updatedAt)]
      | ClearChange r stamp \<Rightarrow>
          JObj [(''kind'', JStr ''goal/change''), (''version'', jint 1),
                (''operation'', JStr ''clear''),
                (''cleared'', JObj [(''id'', JStr (gr_id r)), (''revision'', jint (gr_revision r))]),
                (''clearedAt'', jint stamp)])"

section \<open>A change that decodes is well formed, and a well-formed one decodes\<close>

definition snapshot_ok :: "goal_snapshot \<Rightarrow> bool" where
  "snapshot_ok g \<longleftrightarrow>
     g_id g \<noteq> [] \<and> 1 \<le> g_revision g \<and> safeInt (g_revision g) \<and> normalized (g_objective g)
     \<and> 1 \<le> g_maxRounds g \<and> safeInt (g_maxRounds g)
     \<and> (g_blockedReason g \<noteq> None \<longleftrightarrow> g_phase g = BlockedPhase)
     \<and> pred_option (\<lambda>r. lowerKebab (fst r) \<and> normalized (snd r)) (g_blockedReason g)"

definition change_ok :: "goal_change \<Rightarrow> bool" where
  "change_ok c \<longleftrightarrow>
     (case c of
        SnapshotChange _ g rounds createdAt updatedAt \<Rightarrow>
          snapshot_ok g \<and> 0 \<le> rounds \<and> safeInt rounds
          \<and> 0 \<le> createdAt \<and> createdAt \<le> updatedAt \<and> safeInt updatedAt
      | ClearChange r stamp \<Rightarrow>
          gr_id r \<noteq> [] \<and> 1 \<le> gr_revision r \<and> safeInt (gr_revision r) \<and> 0 \<le> stamp \<and> safeInt stamp)"

lemma atLeast_Inr: "atLeast low why v = Inr n \<longleftrightarrow> v = Some (jint n) \<and> safeInt n \<and> low \<le> n"
  by (auto simp: atLeast_def dest: safeIntField_SomeD split: option.splits)

lemma phaseOf_name [simp]: "phaseOf (Some (JStr (phaseName p))) = Some p"
  by (cases p) (simp_all add: phaseOf_def)

lemma phaseOf_blocked [simp]: "phaseOf (Some (JStr ''blocked'')) = Some BlockedPhase"
  using phaseOf_name [of BlockedPhase] by simp

lemma operationOf_name [simp]: "operationOf (Some (JStr (operationName p))) = Some p"
  by (cases p) (simp_all add: operationOf_def)

lemma operationName_clear: "operationName p \<noteq> ''clear''"
  by (cases p) simp_all

lemma decodeBlockReason_ok:
  "decodeBlockReason j = Inr (c, m) \<Longrightarrow> lowerKebab c \<and> normalized m"
  by (auto simp: decodeBlockReason_def split: option.splits if_splits)

lemma decodeSnapshot_ok: "decodeSnapshot j = Inr g \<Longrightarrow> snapshot_ok g"
  by (auto simp: decodeSnapshot_def snapshot_ok_def bindR_Inr_iff mapR_Inr_iff atLeast_Inr
      dest!: decodeBlockReason_ok split: option.splits if_splits)

lemma decodeRef_ok: "decodeRef j = Inr r \<Longrightarrow> gr_id r \<noteq> [] \<and> 1 \<le> gr_revision r \<and> safeInt (gr_revision r)"
  by (auto simp: decodeRef_def mapR_Inr_iff atLeast_Inr split: option.splits if_splits)

lemma decodeGoalChange_ok: "decodeGoalChange v = Inr (Some c) \<Longrightarrow> change_ok c"
  by (auto simp: decodeGoalChange_def change_ok_def bindR_Inr_iff atLeast_Inr
      dest!: decodeRef_ok decodeSnapshot_ok split: option.splits if_splits)

lemma key_texts:
  "joinComma (sort [''id'', ''revision'', ''objective'', ''phase'', ''maxGoalRounds''])
    = ''id,maxGoalRounds,objective,phase,revision''"
  "joinComma (sort [''id'', ''revision'', ''objective'', ''phase'', ''maxGoalRounds'', ''blockedReason''])
    = ''blockedReason,id,maxGoalRounds,objective,phase,revision''"
  "joinComma (sort [''code'', ''message'']) = ''code,message''"
  "joinComma (sort [''id'', ''revision'']) = ''id,revision''"
  "joinComma (sort [''kind'', ''version'', ''operation'', ''cleared'', ''clearedAt''])
    = ''cleared,clearedAt,kind,operation,version''"
  "joinComma (sort [''kind'', ''version'', ''operation'', ''goal'', ''roundsStarted'', ''createdAt'',
      ''updatedAt'']) = ''createdAt,goal,kind,operation,roundsStarted,updatedAt,version''"
  by code_simp+

lemma atLeast_jint [simp]: "safeInt n \<Longrightarrow> low \<le> n \<Longrightarrow> atLeast low why (Some (jint n)) = Inr n"
  by (simp add: atLeast_Inr)

lemma decodeSnapshot_json:
  assumes "snapshot_ok g"
  shows "decodeSnapshot (Some (snapshotJson g)) = Inr g"
proof (cases "g_blockedReason g")
  case None
  with assms have np: "g_phase g \<noteq> BlockedPhase" by (auto simp: snapshot_ok_def)
  have j: "snapshotJson g = JObj [(''id'', JStr (g_id g)), (''revision'', jint (g_revision g)),
      (''objective'', JStr (g_objective g)), (''phase'', JStr (phaseName (g_phase g))),
      (''maxGoalRounds'', jint (g_maxRounds g))]"
    using None by (simp add: snapshotJson_def)
  have keys: "keyText (snapshotJson g) = snapshotKeys (g_phase g)"
    using np key_texts(1) unfolding j by (simp add: snapshotKeys_def keyText_def)
  show ?thesis
    using assms np keys None unfolding j decodeSnapshot_def snapshot_ok_def
    by (cases g) simp
next
  case (Some r)
  with assms have p: "g_phase g = BlockedPhase" by (auto simp: snapshot_ok_def)
  obtain c m where r: "r = (c, m)" by fastforce
  have j: "snapshotJson g = JObj [(''id'', JStr (g_id g)), (''revision'', jint (g_revision g)),
      (''objective'', JStr (g_objective g)), (''phase'', JStr (phaseName (g_phase g))),
      (''maxGoalRounds'', jint (g_maxRounds g)),
      (''blockedReason'', JObj [(''code'', JStr c), (''message'', JStr m)])]"
    using Some r by (simp add: snapshotJson_def)
  have keys: "keyText (snapshotJson g) = snapshotKeys (g_phase g)"
    using p key_texts(2) unfolding j by (simp add: snapshotKeys_def keyText_def)
  have "decodeBlockReason (Some (JObj [(''code'', JStr c), (''message'', JStr m)])) = Inr (c, m)"
    using assms Some r key_texts(3) by (simp add: decodeBlockReason_def keyText_def snapshot_ok_def)
  then show ?thesis
    using assms p keys Some r unfolding j decodeSnapshot_def snapshot_ok_def
    by (cases g) simp
qed

lemma decode_changeJson:
  assumes ok: "change_ok c"
  shows "decodeGoalChange (changeJson c) = Inr (Some c)"
proof (cases c)
  case (SnapshotChange operation g rounds createdAt updatedAt)
  have "decodeSnapshot (Some (snapshotJson g)) = Inr g"
    using ok SnapshotChange by (intro decodeSnapshot_json) (simp add: change_ok_def)
  moreover have "keyText (changeJson c)
      = ''createdAt,goal,kind,operation,roundsStarted,updatedAt,version''"
    unfolding SnapshotChange changeJson_def keyText_def using key_texts(6) by simp
  moreover have "safeInt createdAt"
    using ok SnapshotChange by (auto simp: change_ok_def safeInt_def abs_le_iff)
  ultimately show ?thesis
    using ok SnapshotChange operationName_clear [of operation]
    by (simp add: decodeGoalChange_def changeJson_def change_ok_def)
next
  case (ClearChange r stamp)
  have "decodeRef (Some (JObj [(''id'', JStr (gr_id r)), (''revision'', jint (gr_revision r))])) = Inr r"
    using ok ClearChange key_texts(4) by (simp add: decodeRef_def keyText_def change_ok_def)
  moreover have "keyText (changeJson c) = ''cleared,clearedAt,kind,operation,version''"
    unfolding ClearChange changeJson_def keyText_def using key_texts(5) by simp
  ultimately show ?thesis
    using ok ClearChange by (simp add: decodeGoalChange_def changeJson_def change_ok_def)
qed

text \<open>
  Result: a goal change the service builds decodes to itself exactly when it is well formed: a
  non-empty identity, a positive safe revision and round cap, a normalised objective, a blocker
  explanation exactly while the goal is blocked, counters and times that are safe and ordered.
  So nothing a replay accepts is malformed and nothing well formed is refused.
\<close>

theorem goal_change_roundtrip:
  "decodeGoalChange (changeJson c) = Inr (Some c) \<longleftrightarrow> change_ok c"
  using decodeGoalChange_ok decode_changeJson by blast

section \<open>The invariant of the fold\<close>

text \<open>
  What every accepted log gives: the current goal, its times and its last reference belong
  together, its identity is on record, and the rounds are counted from zero.
\<close>

definition goal_inv :: "goal_state \<Rightarrow> bool" where
  "goal_inv st \<longleftrightarrow>
     0 \<le> gs_rounds st
     \<and> (case gs_goal st of
          None \<Rightarrow> gs_createdAt st = None \<and> gs_updatedAt st = None \<and> gs_rounds st = 0
        | Some g \<Rightarrow>
            snapshot_ok g \<and> g_id g \<in> set (gs_seen st)
            \<and> gs_lastRef st = Some \<lparr>gr_id = g_id g, gr_revision = g_revision g\<rparr>
            \<and> (\<exists>c u. gs_createdAt st = Some c \<and> gs_updatedAt st = Some u
                 \<and> 0 \<le> c \<and> c \<le> u \<and> safeInt u))
     \<and> safeInt (gs_rounds st) \<and> distinct (gs_seen st)"

lemma validateSnapshotTransition_D:
  assumes "validateSnapshotTransition st (SnapshotChange operation g rounds createdAt updatedAt) current = Inr ()"
  shows "g_id g = g_id current \<and> g_revision g = g_revision current + 1
    \<and> gs_createdAt st = Some createdAt \<and> rounds = gs_rounds st
    \<and> (\<exists>u. gs_updatedAt st = Some u \<and> u \<le> updatedAt)"
  using assms
  by (auto simp: validateSnapshotTransition_def isNextRevision_def goalChangeRef_def
      split: if_splits option.splits)

lemma applyGoalChange_snapshot:
  assumes "applyGoalChange st (SnapshotChange operation g rounds createdAt updatedAt) = Inr st'"
  shows "gs_goal st' = Some g \<and> gs_rounds st' = rounds \<and> gs_createdAt st' = Some createdAt
    \<and> gs_updatedAt st' = Some updatedAt
    \<and> gs_lastRef st' = Some \<lparr>gr_id = g_id g, gr_revision = g_revision g\<rparr>
    \<and> (operation = OpCreate \<and> g_id g \<notin> set (gs_seen st) \<and> gs_seen st' = gs_seen st @ [g_id g]
       \<or> gs_seen st' = gs_seen st \<and> (\<exists>current. gs_goal st = Some current
           \<and> validateSnapshotTransition st (SnapshotChange operation g rounds createdAt updatedAt)
               current = Inr ()))"
  using assms
  by (cases "operation = OpCreate"; cases "gs_goal st")
    (auto simp: applyGoalChange_def goalChangeRef_def bindR_Inr_iff mapR_Inr_iff split: if_splits)

lemma applyGoalChange_inv:
  assumes inv: "goal_inv st" and ok: "change_ok c" and app: "applyGoalChange st c = Inr st'"
  shows "goal_inv st'"
proof (cases c)
  case (ClearChange r stamp)
  then show ?thesis
    using inv app by (auto simp: applyGoalChange_def goal_inv_def safeInt_def maxSafeInteger_def
        split: if_splits option.splits)
next
  case (SnapshotChange operation g rounds createdAt updatedAt)
  note n = applyGoalChange_snapshot [OF app [unfolded SnapshotChange]]
  have g: "snapshot_ok g" "0 \<le> rounds" "safeInt rounds" "0 \<le> createdAt" "createdAt \<le> updatedAt"
      "safeInt updatedAt"
    using ok SnapshotChange by (auto simp: change_ok_def)
  have seen: "g_id g \<in> set (gs_seen st')" "distinct (gs_seen st')"
  proof (atomize (full), cases "operation = OpCreate \<and> g_id g \<notin> set (gs_seen st)
      \<and> gs_seen st' = gs_seen st @ [g_id g]")
    case True
    then show "g_id g \<in> set (gs_seen st') \<and> distinct (gs_seen st')"
      using inv by (simp add: goal_inv_def)
  next
    case False
    then obtain current where cur: "gs_goal st = Some current" "gs_seen st' = gs_seen st"
      and v: "validateSnapshotTransition st (SnapshotChange operation g rounds createdAt updatedAt)
        current = Inr ()"
      using n by blast
    then show "g_id g \<in> set (gs_seen st') \<and> distinct (gs_seen st')"
      using inv validateSnapshotTransition_D [OF v] by (simp add: goal_inv_def)
  qed
  show ?thesis using n g seen by (simp add: goal_inv_def)
qed

lemma goalSource_D: "goalSource s = Inr (Some (i, v, r)) \<Longrightarrow> 1 \<le> r \<and> safeInt r"
  by (auto simp: goalSource_def dest: safeIntField_SomeD split: message_source.splits option.splits if_splits)

text \<open>A user message changes the round counter of an active goal, or nothing.\<close>

lemma applyGoalEvent_user:
  assumes "ev_data e = UserMsg m" and "applyGoalEvent st e = Inr st'"
  shows "st' = st \<or> (\<exists>g. gs_goal st = Some g \<and> st' = st\<lparr>gs_rounds := gs_rounds st + 1\<rparr>
    \<and> safeInt (gs_rounds st + 1) \<and> gs_rounds st + 1 \<le> g_maxRounds g)"
proof -
  obtain src where src: "goalSource (msg_source m) = Inr src"
    using assms by (auto simp: applyGoalEvent_def bindR_Inr_iff)
  show ?thesis
  proof (cases src)
    case None
    with src assms show ?thesis by (simp add: applyGoalEvent_def)
  next
    case (Some t)
    obtain i v r where t: "t = (i, v, r)" by (cases t) auto
    obtain g where "gs_goal st = Some g" "st' = st\<lparr>gs_rounds := r\<rparr>" "r = gs_rounds st + 1"
        "r \<le> g_maxRounds g"
      using src assms Some t by (auto simp: applyGoalEvent_def split: option.splits if_splits)
    then show ?thesis using goalSource_D [of "msg_source m"] src Some t by auto
  qed
qed

lemma applyGoalEvent_inv:
  assumes "goal_inv st" and "applyGoalEvent st e = Inr st'"
  shows "goal_inv st'"
proof (cases "ev_data e")
  case (GoalChange v)
  then obtain c where "decodeGoalChange v = Inr (Some c)" "applyGoalChange st c = Inr st'"
    using assms(2) by (auto simp: applyGoalEvent_def bindR_Inr_iff split: option.splits)
  then show ?thesis using assms(1) decodeGoalChange_ok applyGoalChange_inv by blast
next
  case (UserMsg m)
  from applyGoalEvent_user [OF this assms(2)] show ?thesis
    using assms(1) by (auto simp: goal_inv_def)
qed (use assms in \<open>simp_all add: applyGoalEvent_def\<close>)

interpretation goal_fold: validating_fold applyGoalEvent emptyGoalFoldState goal_inv
  by unfold_locales
    (simp add: goal_inv_def emptyGoalFoldState_def safeInt_def maxSafeInteger_def, rule applyGoalEvent_inv)

end
