(* ===== verification/Goal_Service.thy ===== *)
theory Goal_Service
  imports Goal_Fold Component_Append
begin

text \<open>
  The goal service, \<^verbatim>\<open>packages/goal/goal/src/index.ts\<close>: compare-and-set operations on the
  goal of one session. The world is the session, the per-session cache the service keeps in a
  \<^verbatim>\<open>WeakMap\<close> (\<open>None\<close> before its first use) and the notifications it emitted. An operation
  takes \<open>isLive\<close> (the agent is the registry's instance), \<^verbatim>\<open>Date.now()\<close> and whether the dispatch
  of its append is vetoed. The remote boundary and the projection schema are not modelled.
\<close>

section \<open>State\<close>

record goal_cache =
  gc_state :: goal_state
  gc_armed :: bool
  gc_observed :: nat
  gc_pending :: "(nat \<times> bool) option"

record goal_view =
  gv_goal :: goal_snapshot
  gv_rounds :: int
  gv_createdAt :: int
  gv_updatedAt :: int
  gv_armed :: bool

record goal_world =
  gw_session :: session
  gw_cache :: "goal_cache option"
  gw_changed :: "(goal_change \<times> goal_view option) list"

datatype goal_failure =
    AgentNotLive | GoalNotFound | GoalAlreadyExists | StaleRevision
  | InvalidObjective | InvalidMaxRounds | InvalidBlockReason | InvalidEdit | InvalidTransition
  | ReplayFailed string | ChangeNotAppended append_error | LacksTimestamps | LostGoal

section \<open>Requests\<close>

definition resolveMaxGoalRounds :: "js_number \<Rightarrow> goal_failure + int" where
  "resolveMaxGoalRounds value =
     (case safeIntField (map_option JNum (finiteOf value)) of
        None \<Rightarrow> Inl InvalidMaxRounds
      | Some n \<Rightarrow> if n < 1 then Inl InvalidMaxRounds else Inr n)"

definition resolveObjective :: "json option \<Rightarrow> goal_failure + string" where
  "resolveObjective value =
     (if \<not> isString value \<or> trim (asString value) = [] then Inl InvalidObjective
      else Inr (trim (asString value)))"

definition resolveBlockReason :: "json option \<Rightarrow> goal_failure + (string \<times> string)" where
  "resolveBlockReason reason =
     (let code = (case reason of Some v \<Rightarrow> jprop ''code'' v | None \<Rightarrow> None);
          message = (case reason of Some v \<Rightarrow> jprop ''message'' v | None \<Rightarrow> None)
      in if \<not> isString code \<or> \<not> lowerKebab (asString code)
           \<or> \<not> isString message \<or> trim (asString message) = []
         then Inl InvalidBlockReason
         else Inr (asString code, trim (asString message)))"

section \<open>The cache\<close>

text \<open>
  \<^verbatim>\<open>sync\<close>: the events the cache has not seen; a throw leaves what was folded before it.
\<close>

fun syncLoop :: "goal_cache \<Rightarrow> event list \<Rightarrow> goal_cache \<times> (goal_failure + unit)" where
  "syncLoop c [] = (c, Inr ())"
| "syncLoop c (e # es) =
     (case applyGoalEvent (gc_state c) e of
        Inl err \<Rightarrow> (c, Inl (ReplayFailed err))
      | Inr st \<Rightarrow>
          syncLoop
            (c\<lparr>gc_state := st,
               gc_armed :=
                 (if ev_type e = ''goal/change''
                  then (case gc_pending c of
                          Some (n, a) \<Rightarrow> if n = seq e then a else False
                        | None \<Rightarrow> False)
                  else gc_armed c),
               gc_observed := Suc (gc_observed c)\<rparr>)
            es)"

definition syncCache :: "goal_world \<Rightarrow> goal_cache \<Rightarrow> goal_world \<times> (goal_failure + goal_cache)" where
  "syncCache w c =
     (case syncLoop c (drop (gc_observed c) (s_log (gw_session w))) of
        (c', r) \<Rightarrow> (w\<lparr>gw_cache := Some c'\<rparr>, mapR (\<lambda>_. c') r))"

text \<open>\<^verbatim>\<open>cache\<close>: made on first use by folding the log, with activation disarmed.\<close>

definition cacheOf :: "goal_world \<Rightarrow> goal_world \<times> (goal_failure + goal_cache)" where
  "cacheOf w =
     (case gw_cache w of
        Some c \<Rightarrow> (w, Inr c)
      | None \<Rightarrow>
          (case foldGoal (s_log (gw_session w)) of
             Inl err \<Rightarrow> (w, Inl (ReplayFailed err))
           | Inr st \<Rightarrow>
               (let c = \<lparr>gc_state = st, gc_armed = False,
                         gc_observed = length (s_log (gw_session w)), gc_pending = None\<rparr>
                in (w\<lparr>gw_cache := Some c\<rparr>, Inr c))))"

definition prepareMutation :: "bool \<Rightarrow> goal_world \<Rightarrow> goal_world \<times> (goal_failure + goal_cache)" where
  "prepareMutation isLive w =
     (if \<not> isLive then (w, Inl AgentNotLive) else thenR (cacheOf w) syncCache)"

definition viewOf :: "goal_cache \<Rightarrow> goal_failure + goal_view option" where
  "viewOf c =
     (case gs_goal (gc_state c) of
        None \<Rightarrow> Inr None
      | Some g \<Rightarrow>
          (case (gs_createdAt (gc_state c), gs_updatedAt (gc_state c)) of
             (Some cr, Some u) \<Rightarrow>
               Inr (Some \<lparr>gv_goal = g, gv_rounds = gs_rounds (gc_state c), gv_createdAt = cr,
                          gv_updatedAt = u, gv_armed = gc_armed c\<rparr>)
           | _ \<Rightarrow> Inl LacksTimestamps))"

definition getGoal :: "bool \<Rightarrow> goal_world \<Rightarrow> goal_world \<times> (goal_failure + goal_view option)" where
  "getGoal isLive w = thenR (prepareMutation isLive w) (\<lambda>w c. (w, viewOf c))"

definition disarm :: "bool \<Rightarrow> goal_world \<Rightarrow> goal_world \<times> (goal_failure + goal_view option)" where
  "disarm isLive w =
     thenR (prepareMutation isLive w) (\<lambda>w c.
       (let c' = c\<lparr>gc_armed := False\<rparr> in (w\<lparr>gw_cache := Some c'\<rparr>, viewOf c')))"

text \<open>The listener of \<^verbatim>\<open>agent/session-start\<close>.\<close>

definition onSessionStart :: "goal_world \<Rightarrow> goal_world \<times> (goal_failure + unit)" where
  "onSessionStart w =
     thenR (cacheOf w) (\<lambda>w c. (w\<lparr>gw_cache := Some (c\<lparr>gc_armed := False\<rparr>)\<rparr>, Inr ()))"

section \<open>Commit\<close>

definition commit ::
  "goal_world \<Rightarrow> goal_cache \<Rightarrow> int \<Rightarrow> bool \<Rightarrow> goal_change \<Rightarrow> bool \<Rightarrow> goal_world \<times> (goal_failure + goal_cache)"
where
  "commit w c now veto change armed =
     (let c1 = c\<lparr>gc_pending := Some (length (s_log (gw_session w)), armed)\<rparr>
      in case logAppend (gw_session w) now veto (Some (GoalChange (changeJson change))) of
           (S, Inl err) \<Rightarrow>
             (w\<lparr>gw_session := S, gw_cache := Some (c1\<lparr>gc_pending := None\<rparr>)\<rparr>, Inl (ChangeNotAppended err))
         | (S, Inr _) \<Rightarrow>
             (case syncLoop c1 (drop (gc_observed c1) (s_log S)) of
                (c2, r) \<Rightarrow>
                  (let c3 = c2\<lparr>gc_pending := None\<rparr>; w' = w\<lparr>gw_session := S, gw_cache := Some c3\<rparr>
                   in case bindR r (\<lambda>_. viewOf c3) of
                        Inl err \<Rightarrow> (w', Inl err)
                      | Inr v \<Rightarrow> (w'\<lparr>gw_changed := gw_changed w @ [(change, v)]\<rparr>, Inr c3))))"

definition commitSnapshot ::
  "goal_world \<Rightarrow> goal_cache \<Rightarrow> int \<Rightarrow> bool \<Rightarrow> goal_operation \<Rightarrow> goal_snapshot \<Rightarrow> int \<Rightarrow> int \<Rightarrow> int
    \<Rightarrow> bool \<Rightarrow> goal_world \<times> (goal_failure + goal_view)" where
  "commitSnapshot w c now veto operation g rounds createdAt updatedAt armed =
     thenR (commit w c now veto (SnapshotChange operation g rounds createdAt updatedAt) armed)
       (\<lambda>w c. (w, bindR (viewOf c) (\<lambda>v. case v of None \<Rightarrow> Inl LostGoal | Some x \<Rightarrow> Inr x)))"

definition nextMutationTime :: "goal_cache \<Rightarrow> int \<Rightarrow> goal_failure + int" where
  "nextMutationTime c now =
     (case gs_updatedAt (gc_state c) of None \<Rightarrow> Inl LacksTimestamps | Some u \<Rightarrow> Inr (max now u))"

definition commitCurrent ::
  "goal_world \<Rightarrow> goal_cache \<Rightarrow> int \<Rightarrow> bool \<Rightarrow> goal_operation \<Rightarrow> goal_snapshot \<Rightarrow> bool
    \<Rightarrow> goal_world \<times> (goal_failure + goal_view)" where
  "commitCurrent w c now veto operation g armed =
     (case gs_createdAt (gc_state c) of
        None \<Rightarrow> (w, Inl LacksTimestamps)
      | Some createdAt \<Rightarrow>
          thenR (w, nextMutationTime c now) (\<lambda>w updatedAt.
            commitSnapshot w c now veto operation g (gs_rounds (gc_state c)) createdAt updatedAt armed))"

section \<open>Operations\<close>

definition expectCurrent :: "goal_cache \<Rightarrow> goal_ref \<Rightarrow> goal_failure + goal_snapshot" where
  "expectCurrent c r =
     (case gs_goal (gc_state c) of
        None \<Rightarrow> Inl GoalNotFound
      | Some current \<Rightarrow>
          if gr_id r \<noteq> g_id current \<or> gr_revision r \<noteq> g_revision current then Inl StaleRevision
          else Inr current)"

definition withPhase :: "goal_snapshot \<Rightarrow> goal_phase \<Rightarrow> goal_snapshot" where
  "withPhase current phase =
     \<lparr>g_id = g_id current, g_revision = g_revision current + 1, g_objective = g_objective current,
      g_phase = phase, g_blockedReason = None, g_maxRounds = g_maxRounds current\<rparr>"

definition createGoal ::
  "bool \<Rightarrow> int \<Rightarrow> bool \<Rightarrow> string \<Rightarrow> js_number \<Rightarrow> json option \<Rightarrow> js_number option \<Rightarrow> goal_world
    \<Rightarrow> goal_world \<times> (goal_failure + goal_view)" where
  "createGoal isLive now veto freshId defaultRounds objective maxRounds w =
     thenR (w, resolveObjective objective) (\<lambda>w obj.
     thenR (w, resolveMaxGoalRounds (case maxRounds of None \<Rightarrow> defaultRounds | Some n \<Rightarrow> n)) (\<lambda>w cap.
     thenR (prepareMutation isLive w) (\<lambda>w c.
       if (case gs_goal (gc_state c) of None \<Rightarrow> False | Some g \<Rightarrow> g_phase g \<noteq> CompletePhase)
       then (w, Inl GoalAlreadyExists)
       else commitSnapshot w c now veto OpCreate
              \<lparr>g_id = freshId, g_revision = 1, g_objective = obj, g_phase = ActivePhase,
               g_blockedReason = None, g_maxRounds = cap\<rparr>
              0 now now True)))"

definition onCurrent ::
  "bool \<Rightarrow> goal_ref \<Rightarrow> (goal_world \<Rightarrow> goal_cache \<Rightarrow> goal_snapshot \<Rightarrow> goal_world \<times> (goal_failure + 'a))
    \<Rightarrow> goal_world \<Rightarrow> goal_world \<times> (goal_failure + 'a)" where
  "onCurrent isLive r f w =
     thenR (prepareMutation isLive w) (\<lambda>w c. thenR (w, expectCurrent c r) (\<lambda>w current. f w c current))"

definition editGoal ::
  "bool \<Rightarrow> int \<Rightarrow> bool \<Rightarrow> goal_ref \<Rightarrow> json option \<Rightarrow> js_number option \<Rightarrow> goal_world
    \<Rightarrow> goal_world \<times> (goal_failure + goal_view)" where
  "editGoal isLive now veto r objective maxRounds =
     onCurrent isLive r (\<lambda>w c current.
       if objective = None \<and> maxRounds = None then (w, Inl InvalidEdit)
       else
         thenR (w, case objective of None \<Rightarrow> Inr (g_objective current) | Some _ \<Rightarrow> resolveObjective objective)
           (\<lambda>w obj.
         thenR (w, case maxRounds of None \<Rightarrow> Inr (g_maxRounds current) | Some n \<Rightarrow> resolveMaxGoalRounds n)
           (\<lambda>w cap.
           commitCurrent w c now veto OpEdit
             (current\<lparr>g_revision := g_revision current + 1, g_objective := obj, g_maxRounds := cap\<rparr>)
             (gc_armed c))))"

definition transitionGoal ::
  "bool \<Rightarrow> int \<Rightarrow> bool \<Rightarrow> goal_ref \<Rightarrow> goal_operation \<Rightarrow> goal_phase list \<Rightarrow> goal_phase \<Rightarrow> bool \<Rightarrow> goal_world
    \<Rightarrow> goal_world \<times> (goal_failure + goal_view)" where
  "transitionGoal isLive now veto r operation allowed phase armed =
     onCurrent isLive r (\<lambda>w c current.
       if g_phase current \<notin> set allowed then (w, Inl InvalidTransition)
       else commitCurrent w c now veto operation (withPhase current phase) armed)"

definition pauseGoal ::
  "bool \<Rightarrow> int \<Rightarrow> bool \<Rightarrow> goal_ref \<Rightarrow> goal_world \<Rightarrow> goal_world \<times> (goal_failure + goal_view)" where
  "pauseGoal isLive now veto r = transitionGoal isLive now veto r OpPause [ActivePhase] PausedPhase False"

definition completeGoal ::
  "bool \<Rightarrow> int \<Rightarrow> bool \<Rightarrow> goal_ref \<Rightarrow> goal_world \<Rightarrow> goal_world \<times> (goal_failure + goal_view)" where
  "completeGoal isLive now veto r =
     transitionGoal isLive now veto r OpComplete [ActivePhase, PausedPhase, BlockedPhase] CompletePhase False"

definition resumeGoal ::
  "bool \<Rightarrow> int \<Rightarrow> bool \<Rightarrow> goal_ref \<Rightarrow> goal_world \<Rightarrow> goal_world \<times> (goal_failure + goal_view)" where
  "resumeGoal isLive now veto r =
     onCurrent isLive r (\<lambda>w c current.
       if g_phase current \<notin> {ActivePhase, PausedPhase, BlockedPhase} then (w, Inl InvalidTransition)
       else if g_phase current = ActivePhase \<and> gc_armed c then (w, Inl InvalidTransition)
       else if g_maxRounds current \<le> gs_rounds (gc_state c) then (w, Inl InvalidTransition)
       else commitCurrent w c now veto OpResume (withPhase current ActivePhase) True)"

definition blockGoal ::
  "bool \<Rightarrow> int \<Rightarrow> bool \<Rightarrow> goal_ref \<Rightarrow> json option \<Rightarrow> goal_world \<Rightarrow> goal_world \<times> (goal_failure + goal_view)"
where
  "blockGoal isLive now veto r reason =
     onCurrent isLive r (\<lambda>w c current.
       if g_phase current \<noteq> ActivePhase then (w, Inl InvalidTransition)
       else thenR (w, resolveBlockReason reason) (\<lambda>w why.
         commitCurrent w c now veto OpBlock
           ((withPhase current BlockedPhase)\<lparr>g_blockedReason := Some why\<rparr>) False))"

definition clearGoal ::
  "bool \<Rightarrow> int \<Rightarrow> bool \<Rightarrow> goal_ref \<Rightarrow> goal_world \<Rightarrow> goal_world \<times> (goal_failure + goal_ref)" where
  "clearGoal isLive now veto r =
     onCurrent isLive r (\<lambda>w c current.
       let tombstone = \<lparr>gr_id = g_id current, gr_revision = g_revision current + 1\<rparr>
       in thenR (w, nextMutationTime c now) (\<lambda>w stamp.
            thenR (commit w c now veto (ClearChange tombstone stamp) False)
              (\<lambda>w _. (w, Inr tombstone))))"

section \<open>The light projection\<close>

text \<open>\<^verbatim>\<open>applyGoalProjection\<close>: last change wins, anything else keeps the state.\<close>

record goal_projection =
  gp_goal :: goal_snapshot
  gp_rounds :: int
  gp_createdAt :: int
  gp_updatedAt :: int

definition applyGoalProjection :: "goal_projection option \<Rightarrow> event \<Rightarrow> goal_projection option" where
  "applyGoalProjection st e =
     (case ev_data e of
        GoalChange v \<Rightarrow>
          (case decodeGoalChange v of
             Inl _ \<Rightarrow> st
           | Inr None \<Rightarrow> st
           | Inr (Some (ClearChange _ _)) \<Rightarrow> None
           | Inr (Some (SnapshotChange _ g rounds createdAt updatedAt)) \<Rightarrow>
               Some \<lparr>gp_goal = g, gp_rounds = rounds, gp_createdAt = createdAt, gp_updatedAt = updatedAt\<rparr>)
      | _ \<Rightarrow> st)"

end
