(* ===== verification/Goal_Facts.thy ===== *)
theory Goal_Facts
  imports Goal_Service Session_Live
begin

text \<open>
  The goal service never writes what a replay refuses. In every world the service can be in, the
  log of the session folds, the cache is the fold of the part of the log it has seen, and what a
  read answers is the fold of the whole log; a goal that is armed is active.
\<close>

section \<open>Synchronising\<close>

definition armed_ok :: "goal_cache \<Rightarrow> bool" where
  "armed_ok c \<longleftrightarrow>
     (gc_armed c \<longrightarrow> (case gs_goal (gc_state c) of None \<Rightarrow> False | Some g \<Rightarrow> g_phase g = ActivePhase))"

lemma applyGoalEvent_goal:
  "applyGoalEvent st e = Inr st' \<Longrightarrow> ev_type e \<noteq> ''goal/change'' \<Longrightarrow> gs_goal st' = gs_goal st"
proof (cases "ev_data e")
  case (UserMsg m)
  assume "applyGoalEvent st e = Inr st'"
  from applyGoalEvent_user [OF UserMsg this] show ?thesis by auto
qed (auto simp: applyGoalEvent_def)

lemma syncLoop_run:
  assumes "runR applyGoalEvent (gc_state c) es = Inr st" and "gc_pending c = None" and "armed_ok c"
  shows "\<exists>a. syncLoop c es = (c\<lparr>gc_state := st, gc_armed := a, gc_observed := gc_observed c + length es\<rparr>,
      Inr ()) \<and> armed_ok (c\<lparr>gc_state := st, gc_armed := a\<rparr>)"
  using assms
proof (induction es arbitrary: c)
  case Nil
  then show ?case by (intro exI [of _ "gc_armed c"]) (simp add: armed_ok_def)
next
  case (Cons e es)
  obtain s1 where s1: "applyGoalEvent (gc_state c) e = Inr s1" "runR applyGoalEvent s1 es = Inr st"
    using Cons.prems(1) by (auto simp: bindR_Inr_iff)
  define c1 where "c1 = c\<lparr>gc_state := s1,
      gc_armed := (if ev_type e = ''goal/change'' then False else gc_armed c),
      gc_observed := Suc (gc_observed c)\<rparr>"
  have "syncLoop c (e # es) = syncLoop c1 es"
    using s1 Cons.prems(2) by (simp add: c1_def)
  moreover have "armed_ok c1"
    using Cons.prems(3) applyGoalEvent_goal [OF s1(1)] by (simp add: armed_ok_def c1_def)
  moreover have "gc_state c1 = s1" "gc_pending c1 = None" "gc_observed c1 = Suc (gc_observed c)"
    using Cons.prems(2) by (simp_all add: c1_def)
  ultimately obtain a where "syncLoop c (e # es) = (c1\<lparr>gc_state := st, gc_armed := a,
      gc_observed := gc_observed c1 + length es\<rparr>, Inr ())" "armed_ok (c1\<lparr>gc_state := st, gc_armed := a\<rparr>)"
    using Cons.IH [of c1] s1(2) by auto
  then show ?case by (intro exI [of _ a]) (simp add: c1_def armed_ok_def)
qed

definition cacheInv :: "event list \<Rightarrow> goal_cache \<Rightarrow> bool" where
  "cacheInv lg c \<longleftrightarrow>
     gc_observed c \<le> length lg \<and> foldGoal (take (gc_observed c) lg) = Inr (gc_state c)
     \<and> gc_pending c = None \<and> armed_ok c"

definition goalInv :: "goal_world \<Rightarrow> bool" where
  "goalInv w \<longleftrightarrow>
     (\<exists>st. foldGoal (s_log (gw_session w)) = Inr st) \<and> pred_option (cacheInv (s_log (gw_session w))) (gw_cache w)"

text \<open>A cache that has seen the whole log.\<close>

definition synced :: "goal_world \<Rightarrow> goal_cache \<Rightarrow> bool" where
  "synced w c \<longleftrightarrow>
     gw_cache w = Some c \<and> cacheInv (s_log (gw_session w)) c
     \<and> gc_observed c = length (s_log (gw_session w))"

lemma synced_D:
  assumes "synced w c"
  shows "foldGoal (s_log (gw_session w)) = Inr (gc_state c)" "goalInv w" "gc_pending c = None"
    "goal_inv (gc_state c)" "armed_ok c"
proof -
  show f: "foldGoal (s_log (gw_session w)) = Inr (gc_state c)"
    using assms by (auto simp: synced_def cacheInv_def)
  show "goalInv w" using assms f by (simp add: goalInv_def synced_def)
  show "gc_pending c = None" "armed_ok c" using assms by (simp_all add: synced_def cacheInv_def)
  show "goal_inv (gc_state c)" using goal_fold.inv_accepted f by (simp add: foldGoal_def)
qed

lemma syncCache_synced:
  assumes inv: "goalInv w" and c: "gw_cache w = Some c"
  obtains c' where "syncCache w c = (w\<lparr>gw_cache := Some c'\<rparr>, Inr c')"
    "synced (w\<lparr>gw_cache := Some c'\<rparr>) c'"
proof -
  let ?lg = "s_log (gw_session w)"
  have ci: "cacheInv ?lg c" using inv c by (simp add: goalInv_def)
  obtain st where st: "foldGoal ?lg = Inr st" using inv by (auto simp: goalInv_def)
  have "runR applyGoalEvent emptyGoalFoldState (take (gc_observed c) ?lg @ drop (gc_observed c) ?lg) = Inr st"
    using st by (simp add: foldGoal_def)
  then have "runR applyGoalEvent (gc_state c) (drop (gc_observed c) ?lg) = Inr st"
    using ci unfolding runR_append by (simp add: cacheInv_def foldGoal_def)
  then obtain a where a: "syncLoop c (drop (gc_observed c) ?lg)
      = (c\<lparr>gc_state := st, gc_armed := a, gc_observed := length ?lg\<rparr>, Inr ())"
      "armed_ok (c\<lparr>gc_state := st, gc_armed := a\<rparr>)"
    using syncLoop_run ci by (fastforce simp: cacheInv_def)
  show thesis
    by (rule that [of "c\<lparr>gc_state := st, gc_armed := a, gc_observed := length ?lg\<rparr>"])
      (use a ci st in \<open>simp_all add: syncCache_def synced_def cacheInv_def armed_ok_def\<close>)
qed

lemma cacheOf_inv:
  assumes "goalInv w"
  obtains c where "cacheOf w = (w\<lparr>gw_cache := Some c\<rparr>, Inr c)" "goalInv (w\<lparr>gw_cache := Some c\<rparr>)"
proof (cases "gw_cache w")
  case None
  obtain st where st: "foldGoal (s_log (gw_session w)) = Inr st"
    using assms by (auto simp: goalInv_def)
  show thesis
    by (rule that [of "\<lparr>gc_state = st, gc_armed = False,
          gc_observed = length (s_log (gw_session w)), gc_pending = None\<rparr>"])
      (use None st in \<open>simp_all add: cacheOf_def Let_def goalInv_def cacheInv_def armed_ok_def\<close>)
next
  case (Some c)
  have same: "w\<lparr>gw_cache := Some c\<rparr> = w" using Some by (cases w) simp
  show thesis by (rule that [of c]) (use Some assms in \<open>simp_all only: same, simp add: cacheOf_def\<close>)
qed

lemma prepareMutation_synced:
  assumes "goalInv w"
  obtains c where "prepareMutation True w = (w\<lparr>gw_cache := Some c\<rparr>, Inr c)"
    "synced (w\<lparr>gw_cache := Some c\<rparr>) c"
proof -
  obtain c0 where c0: "cacheOf w = (w\<lparr>gw_cache := Some c0\<rparr>, Inr c0)" "goalInv (w\<lparr>gw_cache := Some c0\<rparr>)"
    using cacheOf_inv [OF assms] .
  obtain c where c: "syncCache (w\<lparr>gw_cache := Some c0\<rparr>) c0 = (w\<lparr>gw_cache := Some c0\<rparr>\<lparr>gw_cache := Some c\<rparr>, Inr c)"
      "synced (w\<lparr>gw_cache := Some c0\<rparr>\<lparr>gw_cache := Some c\<rparr>) c"
    by (rule syncCache_synced [OF c0(2)]) simp_all
  show thesis by (rule that [of c]) (use c0 c in \<open>simp_all add: prepareMutation_def\<close>)
qed

lemma viewOf_ok:
  assumes "goal_inv (gc_state c)"
  shows "\<exists>v. viewOf c = Inr v \<and> map_option gv_goal v = gs_goal (gc_state c)
    \<and> pred_option (\<lambda>x. gv_rounds x = gs_rounds (gc_state c)
         \<and> Some (gv_createdAt x) = gs_createdAt (gc_state c)
         \<and> Some (gv_updatedAt x) = gs_updatedAt (gc_state c) \<and> gv_armed x = gc_armed c) v"
  using assms by (auto simp: viewOf_def goal_inv_def split: option.split)

section \<open>Committing\<close>

lemma syncLoop_commit:
  assumes p: "gc_pending c = Some (n, armed)" and e: "ev_data e = GoalChange (changeJson change)" "seq e = n"
    and ok: "change_ok change" and app: "applyGoalChange (gc_state c) change = Inr st'"
  shows "syncLoop c [e] = (c\<lparr>gc_state := st', gc_armed := armed, gc_observed := Suc (gc_observed c)\<rparr>, Inr ())"
proof -
  have "decodeGoalChange (changeJson change) = Inr (Some change)" using ok by (simp add: decode_changeJson)
  then have "applyGoalEvent (gc_state c) e = Inr st'" using e app by (simp add: applyGoalEvent_def)
  then show ?thesis using p e by simp
qed

definition activeIf :: "bool \<Rightarrow> goal_state \<Rightarrow> bool" where
  "activeIf armed st \<longleftrightarrow>
     (armed \<longrightarrow> (case gs_goal st of None \<Rightarrow> False | Some g \<Rightarrow> g_phase g = ActivePhase))"

text \<open>A commit of a change the fold accepts: nothing is appended, or exactly this change.\<close>

lemma commit_cases:
  assumes sy: "synced w c" and ok: "change_ok change"
    and app: "applyGoalChange (gc_state c) change = Inr st'" and act: "activeIf armed st'"
    and com: "commit w c now veto change armed = (w', r)"
  obtains (refused) err where "r = Inl (ChangeNotAppended err)" "goalInv w'"
      "s_log (gw_session w') = s_log (gw_session w)"
  | (committed) e c' where "r = Inr c'" "synced w' c'" "gc_state c' = st'" "gc_armed c' = armed"
      "s_log (gw_session w') = s_log (gw_session w) @ [e]" "ev_data e = GoalChange (changeJson change)"
proof -
  let ?lg = "s_log (gw_session w)"
  define c1 where "c1 = c\<lparr>gc_pending := Some (length ?lg, armed)\<rparr>"
  have ci: "cacheInv ?lg c" "gc_observed c = length ?lg" "gw_cache w = Some c" and f: "foldGoal ?lg = Inr (gc_state c)"
    using sy synced_D(1) [OF sy] by (simp_all add: synced_def)
  obtain S q where q: "logAppend (gw_session w) now veto (Some (GoalChange (changeJson change))) = (S, q)"
    by fastforce
  show thesis
  proof (cases q)
    case (Inl err)
    have lg: "s_log S = ?lg" using logAppend_Inl q Inl by blast
    have "c1\<lparr>gc_pending := None\<rparr> = c" using ci by (cases c) (simp add: c1_def cacheInv_def)
    then have "w' = w\<lparr>gw_session := S, gw_cache := Some c\<rparr>" "r = Inl (ChangeNotAppended err)"
      using com q Inl unfolding commit_def Let_def c1_def by simp_all
    then show thesis using refused [of err] lg ci f by (simp add: goalInv_def)
  next
    case (Inr e)
    have e: "s_log S = ?lg @ [e]" "ev_data e = GoalChange (changeJson change)" "seq e = length ?lg"
      using logAppend_Inr [of "gw_session w" now veto "Some (GoalChange (changeJson change))" S e]
        logAppend_seq [of "gw_session w" now veto "Some (GoalChange (changeJson change))" S e] q Inr by simp_all
    define c2 where "c2 = c1\<lparr>gc_state := st', gc_armed := armed, gc_observed := Suc (gc_observed c1)\<rparr>"
    have sl: "syncLoop c1 (drop (gc_observed c1) (s_log S)) = (c2, Inr ())"
      using syncLoop_commit [of c1 "length ?lg" armed e change st'] e ok app ci(2)
      by (simp add: c1_def c2_def)
    define c3 where "c3 = c2\<lparr>gc_pending := None\<rparr>"
    have c3: "gc_state c3 = st'" "gc_armed c3 = armed" "gc_observed c3 = Suc (length ?lg)" "gc_pending c3 = None"
      using ci(2) by (simp_all add: c3_def c2_def c1_def)
    have inv': "goal_inv st'" using applyGoalChange_inv [OF synced_D(4) [OF sy] ok app] .
    obtain v where v: "viewOf c3 = Inr v" using viewOf_ok [of c3] inv' c3(1) by auto
    have w': "w' = (w\<lparr>gw_session := S, gw_cache := Some c3\<rparr>)\<lparr>gw_changed := gw_changed w @ [(change, v)]\<rparr>"
      and r: "r = Inr c3"
      using com q Inr sl v unfolding commit_def Let_def c1_def [symmetric] by (simp_all add: c3_def)
    have "foldGoal (?lg @ [e]) = Inr st'"
      using f e ok app by (simp add: foldGoal_def runR_snoc applyGoalEvent_def decode_changeJson)
    then have "synced w' c3"
      using c3 e act by (simp add: w' synced_def cacheInv_def armed_ok_def activeIf_def)
    then show thesis using committed [of c3 e] r c3 e by (simp add: w')
  qed
qed

section \<open>Every operation keeps the invariant\<close>

lemma commitSnapshot_inv:
  assumes "synced w c" and "change_ok (SnapshotChange operation g rounds createdAt updatedAt)"
    and "applyGoalChange (gc_state c) (SnapshotChange operation g rounds createdAt updatedAt) = Inr st'"
    and "armed \<Longrightarrow> g_phase g = ActivePhase"
  shows "goalInv (fst (commitSnapshot w c now veto operation g rounds createdAt updatedAt armed))"
proof -
  have act: "activeIf armed st'"
    using assms(4) applyGoalChange_snapshot [OF assms(3)] by (simp add: activeIf_def)
  obtain w' r where com: "commit w c now veto (SnapshotChange operation g rounds createdAt updatedAt) armed
      = (w', r)" by fastforce
  show ?thesis
    by (rule commit_cases [OF assms(1,2,3) act com])
      (use com synced_D(2) in \<open>auto simp: commitSnapshot_def\<close>)
qed

lemma commitCurrent_inv:
  assumes sy: "synced w c" and cur: "gs_goal (gc_state c) = Some current" and op: "operation \<noteq> OpCreate"
    and g: "snapshot_ok g" and now: "safeInt now"
    and v: "\<And>cr u. gs_createdAt (gc_state c) = Some cr \<Longrightarrow> gs_updatedAt (gc_state c) = Some u \<Longrightarrow>
      validateSnapshotTransition (gc_state c)
        (SnapshotChange operation g (gs_rounds (gc_state c)) cr (max now u)) current = Inr ()"
    and armed: "armed \<Longrightarrow> g_phase g = ActivePhase"
  shows "goalInv (fst (commitCurrent w c now veto operation g armed))"
proof -
  have inv: "goal_inv (gc_state c)" using synced_D(4) [OF sy] .
  obtain cr u where t: "gs_createdAt (gc_state c) = Some cr" "gs_updatedAt (gc_state c) = Some u"
      "0 \<le> cr" "cr \<le> u" "safeInt u"
    using inv cur by (auto simp: goal_inv_def)
  let ?c = "SnapshotChange operation g (gs_rounds (gc_state c)) cr (max now u)"
  have ok: "change_ok ?c"
    using g t now inv by (auto simp: change_ok_def goal_inv_def safeInt_def max_def)
  obtain st' where "applyGoalChange (gc_state c) ?c = Inr st'"
    using op cur v [OF t(1,2)] by (simp add: applyGoalChange_def)
  from commitSnapshot_inv [OF sy ok this armed, where now = now and veto = veto] t show ?thesis
    by (simp add: commitCurrent_def nextMutationTime_def)
qed

lemma onCurrent_inv:
  assumes inv: "goalInv w"
    and f: "\<And>w1 c current. synced w1 c \<Longrightarrow> s_log (gw_session w1) = s_log (gw_session w)
      \<Longrightarrow> gs_goal (gc_state c) = Some current \<Longrightarrow> goalInv (fst (f w1 c current))"
  shows "goalInv (fst (onCurrent isLive r f w))"
proof (cases isLive)
  case False
  then show ?thesis using inv by (simp add: onCurrent_def prepareMutation_def)
next
  case True
  obtain c where c: "prepareMutation True w = (w\<lparr>gw_cache := Some c\<rparr>, Inr c)" "synced (w\<lparr>gw_cache := Some c\<rparr>) c"
    using prepareMutation_synced [OF inv] .
  show ?thesis
  proof (cases "expectCurrent c r")
    case (Inl err)
    then show ?thesis using True c synced_D(2) by (simp add: onCurrent_def)
  next
    case (Inr current)
    then have "gs_goal (gc_state c) = Some current"
      by (auto simp: expectCurrent_def split: option.splits if_splits)
    then show ?thesis using True c Inr f [OF c(2)] by (simp add: onCurrent_def)
  qed
qed

definition revisionsLeft :: "event list \<Rightarrow> bool" where
  "revisionsLeft lg \<longleftrightarrow>
     (case foldGoal lg of
        Inl _ \<Rightarrow> True
      | Inr st \<Rightarrow> pred_option (\<lambda>g. g_revision g < maxSafeInteger) (gs_goal st))"

lemma synced_current:
  assumes "synced w c" and "gs_goal (gc_state c) = Some current" and "revisionsLeft (s_log (gw_session w))"
  shows "snapshot_ok current" "1 \<le> g_revision current" "safeInt (g_revision current + 1)"
proof -
  show "snapshot_ok current" using synced_D(4) [OF assms(1)] assms(2) by (simp add: goal_inv_def)
  then show "1 \<le> g_revision current" by (simp add: snapshot_ok_def)
  moreover have "g_revision current < maxSafeInteger"
    using assms(2,3) synced_D(1) [OF assms(1)] by (simp add: revisionsLeft_def)
  ultimately show "safeInt (g_revision current + 1)" by (simp add: safeInt_def)
qed

lemma withPhase_ok:
  assumes "snapshot_ok current" "1 \<le> g_revision current" "safeInt (g_revision current + 1)"
  shows "phase \<noteq> BlockedPhase \<Longrightarrow> snapshot_ok (withPhase current phase)"
    and "lowerKebab code \<Longrightarrow> normalized why \<Longrightarrow>
      snapshot_ok ((withPhase current BlockedPhase)\<lparr>g_blockedReason := Some (code, why)\<rparr>)"
  using assms by (auto simp: snapshot_ok_def withPhase_def)

lemmas transition_defs = validateSnapshotTransition_def isNextRevision_def goalChangeRef_def
  sameDefinition_def withPhase_def

lemma transitionGoal_inv:
  assumes inv: "goalInv w" and now: "safeInt now" and left: "revisionsLeft (s_log (gw_session w))"
    and op: "operation = OpPause \<and> allowed = [ActivePhase] \<and> phase = PausedPhase
      \<or> operation = OpComplete \<and> allowed = [ActivePhase, PausedPhase, BlockedPhase] \<and> phase = CompletePhase"
  shows "goalInv (fst (transitionGoal isLive now veto r operation allowed phase False w))"
  unfolding transitionGoal_def
proof (rule onCurrent_inv [OF inv])
  fix w1 c current
  assume sy: "synced w1 c" and lg: "s_log (gw_session w1) = s_log (gw_session w)"
    and cur: "gs_goal (gc_state c) = Some current"
  note k = synced_current [OF sy cur left [folded lg]]
  show "goalInv (fst (if g_phase current \<notin> set allowed then (w1, Inl InvalidTransition)
      else commitCurrent w1 c now veto operation (withPhase current phase) False))"
  proof (cases "g_phase current \<in> set allowed")
    case True
    have ok: "snapshot_ok (withPhase current phase)" using withPhase_ok(1) [OF k] op by auto
    have "goalInv (fst (commitCurrent w1 c now veto operation (withPhase current phase) False))"
      by (rule commitCurrent_inv [OF sy cur _ ok now]) (use op True in \<open>auto simp: transition_defs\<close>)
    with True show ?thesis by simp
  qed (use synced_D(2) [OF sy] in simp)
qed

lemma resumeGoal_inv:
  assumes inv: "goalInv w" and now: "safeInt now" and left: "revisionsLeft (s_log (gw_session w))"
  shows "goalInv (fst (resumeGoal isLive now veto r w))"
  unfolding resumeGoal_def
proof (rule onCurrent_inv [OF inv])
  fix w1 c current
  assume sy: "synced w1 c" and lg: "s_log (gw_session w1) = s_log (gw_session w)"
    and cur: "gs_goal (gc_state c) = Some current"
  note k = synced_current [OF sy cur left [folded lg]]
  have "goalInv (fst (commitCurrent w1 c now veto OpResume (withPhase current ActivePhase) True))"
    if "g_phase current \<in> {ActivePhase, PausedPhase, BlockedPhase}"
      "\<not> g_maxRounds current \<le> gs_rounds (gc_state c)"
    by (rule commitCurrent_inv [OF sy cur _ withPhase_ok(1) [OF k] now])
      (use that in \<open>auto simp: transition_defs\<close>)
  then show "goalInv (fst (if g_phase current \<notin> {ActivePhase, PausedPhase, BlockedPhase}
      then (w1, Inl InvalidTransition)
      else if g_phase current = ActivePhase \<and> gc_armed c then (w1, Inl InvalidTransition)
      else if g_maxRounds current \<le> gs_rounds (gc_state c) then (w1, Inl InvalidTransition)
      else commitCurrent w1 c now veto OpResume (withPhase current ActivePhase) True))"
    using synced_D(2) [OF sy] by auto
qed

lemma trim_trim: "normalized (trim s) \<longleftrightarrow> trim s \<noteq> []"
proof -
  define u where "u = dropWhile isSpace s"
  define v where "v = dropWhile isSpace (rev u)"
  have v: "trim s = rev v" by (simp add: trim_def u_def v_def)
  have vd: "dropWhile isSpace v = v" by (simp add: v_def dropWhile_idem)
  have "dropWhile isSpace (rev v) = rev v"
  proof (cases "rev v")
    case (Cons x xs)
    obtain zs where zs: "u = rev v @ zs"
      using takeWhile_dropWhile_id [of isSpace "rev u"] unfolding v_def by (metis rev_append rev_rev_ident)
    then have "u = x # xs @ zs" using Cons by simp
    then have "\<not> isSpace x" using hd_dropWhile [of isSpace s] unfolding u_def by (metis list.distinct(1) list.sel(1))
    with Cons show ?thesis by simp
  qed simp
  then have "trim (trim s) = trim s" by (simp add: v trim_def [of "rev v"] vd)
  then show ?thesis by (auto simp: normalized_def)
qed

lemma blockGoal_inv:
  assumes inv: "goalInv w" and now: "safeInt now" and left: "revisionsLeft (s_log (gw_session w))"
  shows "goalInv (fst (blockGoal isLive now veto r reason w))"
  unfolding blockGoal_def
proof (rule onCurrent_inv [OF inv])
  fix w1 c current
  assume sy: "synced w1 c" and lg: "s_log (gw_session w1) = s_log (gw_session w)"
    and cur: "gs_goal (gc_state c) = Some current"
  note k = synced_current [OF sy cur left [folded lg]]
  have "goalInv (fst (commitCurrent w1 c now veto OpBlock
      ((withPhase current BlockedPhase)\<lparr>g_blockedReason := Some (code, why)\<rparr>) False))"
    if "resolveBlockReason reason = Inr (code, why)" "g_phase current = ActivePhase" for code why
  proof (rule commitCurrent_inv [OF sy cur _ withPhase_ok(2) [OF k] now])
    show "lowerKebab code" "normalized why"
      using that(1) trim_trim by (auto simp: resolveBlockReason_def Let_def split: if_splits)
  qed (use that in \<open>auto simp: transition_defs\<close>)
  then show "goalInv (fst (if g_phase current \<noteq> ActivePhase then (w1, Inl InvalidTransition)
      else thenR (w1, resolveBlockReason reason) (\<lambda>w why.
        commitCurrent w c now veto OpBlock
          ((withPhase current BlockedPhase)\<lparr>g_blockedReason := Some why\<rparr>) False)))"
    using synced_D(2) [OF sy] by (cases "resolveBlockReason reason") auto
qed

lemma resolveObjective_ok: "resolveObjective v = Inr s \<Longrightarrow> normalized s"
  using trim_trim by (auto simp: resolveObjective_def split: if_splits)

lemma resolveMaxGoalRounds_ok: "resolveMaxGoalRounds v = Inr n \<Longrightarrow> 1 \<le> n \<and> safeInt n"
  by (auto simp: resolveMaxGoalRounds_def dest!: safeIntField_SomeD split: option.splits if_splits)

lemma editGoal_inv:
  assumes inv: "goalInv w" and now: "safeInt now" and left: "revisionsLeft (s_log (gw_session w))"
  shows "goalInv (fst (editGoal isLive now veto r objective maxRounds w))"
  unfolding editGoal_def
proof (rule onCurrent_inv [OF inv])
  fix w1 c current
  assume sy: "synced w1 c" and lg: "s_log (gw_session w1) = s_log (gw_session w)"
    and cur: "gs_goal (gc_state c) = Some current"
  note k = synced_current [OF sy cur left [folded lg]]
  let ?obj = "case objective of None \<Rightarrow> Inr (g_objective current) | Some _ \<Rightarrow> resolveObjective objective"
  let ?cap = "case maxRounds of None \<Rightarrow> Inr (g_maxRounds current) | Some n \<Rightarrow> resolveMaxGoalRounds n"
  have "goalInv (fst (commitCurrent w1 c now veto OpEdit
      (current\<lparr>g_revision := g_revision current + 1, g_objective := obj, g_maxRounds := cap\<rparr>) (gc_armed c)))"
    if "?obj = Inr obj" "?cap = Inr cap" for obj cap
  proof (rule commitCurrent_inv [OF sy cur _ _ now])
    have "normalized obj" using that(1) k(1) resolveObjective_ok
      by (auto simp: snapshot_ok_def split: option.splits)
    moreover have "1 \<le> cap \<and> safeInt cap" using that(2) k(1) resolveMaxGoalRounds_ok
      by (auto simp: snapshot_ok_def split: option.splits)
    ultimately show "snapshot_ok (current\<lparr>g_revision := g_revision current + 1, g_objective := obj, g_maxRounds := cap\<rparr>)"
      using k by (simp add: snapshot_ok_def)
    show "g_phase (current\<lparr>g_revision := g_revision current + 1, g_objective := obj, g_maxRounds := cap\<rparr>) = ActivePhase"
      if "gc_armed c" using that synced_D(5) [OF sy] cur by (simp add: armed_ok_def)
  qed (auto simp: transition_defs)
  then show "goalInv (fst (if objective = None \<and> maxRounds = None then (w1, Inl InvalidEdit)
      else thenR (w1, ?obj) (\<lambda>w obj. thenR (w, ?cap) (\<lambda>w cap.
        commitCurrent w c now veto OpEdit
          (current\<lparr>g_revision := g_revision current + 1, g_objective := obj, g_maxRounds := cap\<rparr>)
          (gc_armed c)))))"
    using synced_D(2) [OF sy] by (cases ?obj; cases ?cap) auto
qed

lemma clearGoal_inv:
  assumes inv: "goalInv w" and now: "safeInt now" and left: "revisionsLeft (s_log (gw_session w))"
  shows "goalInv (fst (clearGoal isLive now veto r w))"
  unfolding clearGoal_def Let_def
proof (rule onCurrent_inv [OF inv])
  fix w1 c current
  assume sy: "synced w1 c" and lg: "s_log (gw_session w1) = s_log (gw_session w)"
    and cur: "gs_goal (gc_state c) = Some current"
  note k = synced_current [OF sy cur left [folded lg]]
  let ?t = "\<lparr>gr_id = g_id current, gr_revision = g_revision current + 1\<rparr>"
  obtain u where u: "gs_updatedAt (gc_state c) = Some u" "0 \<le> u" "safeInt u"
    using synced_D(4) [OF sy] cur by (auto simp: goal_inv_def)
  have ok: "change_ok (ClearChange ?t (max now u))"
    using k u now by (auto simp: change_ok_def snapshot_ok_def max_def safeInt_def)
  obtain st' where app: "applyGoalChange (gc_state c) (ClearChange ?t (max now u)) = Inr st'"
    using cur u by (simp add: applyGoalChange_def isNextRevision_def)
  obtain w' q where com: "commit w1 c now veto (ClearChange ?t (max now u)) False = (w', q)" by fastforce
  have "goalInv w'"
    by (rule commit_cases [OF sy ok app _ com]) (use synced_D(2) in \<open>auto simp: activeIf_def\<close>)
  then show "goalInv (fst (thenR (w1, nextMutationTime c now) (\<lambda>w stamp.
      thenR (commit w c now veto (ClearChange ?t stamp) False) (\<lambda>w _. (w, Inr ?t)))))"
    using com u by (cases q) (simp_all add: nextMutationTime_def)
qed

text \<open>The identities a log has already used; a fresh one is none of them.\<close>

definition unusedGoalId :: "string \<Rightarrow> event list \<Rightarrow> bool" where
  "unusedGoalId i lg \<longleftrightarrow> i \<noteq> [] \<and> (case foldGoal lg of Inl _ \<Rightarrow> True | Inr st \<Rightarrow> i \<notin> set (gs_seen st))"

lemma createGoal_inv:
  assumes inv: "goalInv w" and now: "0 \<le> now" "safeInt now"
    and fresh: "unusedGoalId i (s_log (gw_session w))"
  shows "goalInv (fst (createGoal isLive now veto i def objective maxRounds w))"
proof -
  have main: "goalInv (fst (thenR (prepareMutation isLive w) (\<lambda>w c.
       if (case gs_goal (gc_state c) of None \<Rightarrow> False | Some g \<Rightarrow> g_phase g \<noteq> CompletePhase)
       then (w, Inl GoalAlreadyExists)
       else commitSnapshot w c now veto OpCreate
              \<lparr>g_id = i, g_revision = 1, g_objective = obj, g_phase = ActivePhase,
               g_blockedReason = None, g_maxRounds = cap\<rparr> 0 now now True)))" (is "goalInv (fst (thenR _ ?k))")
    if "normalized obj" "1 \<le> cap" "safeInt cap" for obj cap
  proof (cases isLive)
    case True
    let ?g = "\<lparr>g_id = i, g_revision = 1, g_objective = obj, g_phase = ActivePhase,
               g_blockedReason = None, g_maxRounds = cap\<rparr>"
    obtain c where c: "prepareMutation True w = (w\<lparr>gw_cache := Some c\<rparr>, Inr c)" "synced (w\<lparr>gw_cache := Some c\<rparr>) c"
      using prepareMutation_synced [OF inv] .
    show ?thesis
    proof (cases "case gs_goal (gc_state c) of None \<Rightarrow> False | Some g \<Rightarrow> g_phase g \<noteq> CompletePhase")
      case True
      then show ?thesis using c \<open>isLive\<close> synced_D(2) [OF c(2)] by simp
    next
      case False
      have "foldGoal (s_log (gw_session w)) = Inr (gc_state c)" using synced_D(1) [OF c(2)] by simp
      then have "i \<notin> set (gs_seen (gc_state c))" "i \<noteq> []" using fresh by (simp_all add: unusedGoalId_def)
      then obtain st' where "applyGoalChange (gc_state c) (SnapshotChange OpCreate ?g 0 now now) = Inr st'"
        using False by (simp add: applyGoalChange_def)
      moreover have "change_ok (SnapshotChange OpCreate ?g 0 now now)"
        using that now \<open>i \<noteq> []\<close> by (simp add: change_ok_def snapshot_ok_def safeInt_def maxSafeInteger_def)
      ultimately have "goalInv (fst (commitSnapshot (w\<lparr>gw_cache := Some c\<rparr>) c now veto OpCreate ?g 0 now now True))"
        by (intro commitSnapshot_inv [OF c(2)]) simp_all
      then show ?thesis using c \<open>isLive\<close> False by simp
    qed
  qed (use inv in \<open>simp add: prepareMutation_def\<close>)
  show ?thesis
    unfolding createGoal_def
    using main inv resolveObjective_ok resolveMaxGoalRounds_ok
    by (cases "resolveObjective objective";
        cases "resolveMaxGoalRounds (case maxRounds of None \<Rightarrow> def | Some n \<Rightarrow> n)") auto
qed

lemma prepare_frame:
  assumes "goalInv w"
  shows "goalInv (fst (prepareMutation isLive w))"
proof (cases isLive)
  case True
  then show ?thesis using prepareMutation_synced [OF assms] synced_D(2) by (metis fst_conv)
qed (use assms in \<open>simp add: prepareMutation_def\<close>)

lemma disarm_cache: "cacheInv lg c \<Longrightarrow> cacheInv lg (c\<lparr>gc_armed := False\<rparr>)"
  by (simp add: cacheInv_def armed_ok_def)

lemma disarm_inv:
  assumes "goalInv w"
  shows "goalInv (fst (disarm isLive w))"
proof (cases isLive)
  case True
  obtain c where c: "prepareMutation True w = (w\<lparr>gw_cache := Some c\<rparr>, Inr c)" "synced (w\<lparr>gw_cache := Some c\<rparr>) c"
    using prepareMutation_synced [OF assms] .
  with True assms show ?thesis
    by (simp add: disarm_def Let_def goalInv_def synced_def disarm_cache)
qed (use assms in \<open>simp add: disarm_def prepareMutation_def\<close>)

lemma onSessionStart_inv:
  assumes "goalInv w"
  shows "goalInv (fst (onSessionStart w))"
proof -
  obtain c where "cacheOf w = (w\<lparr>gw_cache := Some c\<rparr>, Inr c)" "goalInv (w\<lparr>gw_cache := Some c\<rparr>)"
    using cacheOf_inv [OF assms] .
  then show ?thesis by (simp add: onSessionStart_def goalInv_def disarm_cache)
qed

lemma append_goalInv:
  assumes inv: "goalInv w" and app: "logAppend (gw_session w) now veto d = (S, r)"
    and ok: "case r of Inl _ \<Rightarrow> True | Inr e \<Rightarrow> \<not> isl (foldGoal (s_log (gw_session w) @ [e]))"
  shows "goalInv (w\<lparr>gw_session := S\<rparr>)"
proof (cases r)
  case (Inl err)
  then have "s_log S = s_log (gw_session w)" using logAppend_Inl app by blast
  with inv show ?thesis by (simp add: goalInv_def)
next
  case (Inr e)
  then have lg: "s_log S = s_log (gw_session w) @ [e]"
    using logAppend_Inr [of "gw_session w" now veto d S e] app by simp
  have "cacheInv (s_log S) c" if "cacheInv (s_log (gw_session w)) c" for c
    using that by (simp add: cacheInv_def lg)
  with inv ok Inr lg show ?thesis
    by (cases "foldGoal (s_log (gw_session w) @ [e])"; cases "gw_cache w") (auto simp: goalInv_def)
qed

section \<open>Worlds the service can be in\<close>

text \<open>
  A clock that shows a safe non-negative time, a fresh identity for a new goal, revisions that have
  not used up the safe integers; and between the operations anyone may append to the session what
  the strict fold accepts (the package's invariant companion vetoes the rest).
\<close>

inductive goal_reach :: "goal_world \<Rightarrow> bool" where
  attached: "foldGoal (s_log S) = Inr st \<Longrightarrow> goal_reach \<lparr>gw_session = S, gw_cache = None, gw_changed = []\<rparr>"
| created: "goal_reach w \<Longrightarrow> 0 \<le> now \<Longrightarrow> safeInt now \<Longrightarrow> unusedGoalId i (s_log (gw_session w))
    \<Longrightarrow> goal_reach (fst (createGoal isLive now veto i def objective maxRounds w))"
| edited: "goal_reach w \<Longrightarrow> safeInt now \<Longrightarrow> revisionsLeft (s_log (gw_session w))
    \<Longrightarrow> goal_reach (fst (editGoal isLive now veto r objective maxRounds w))"
| paused: "goal_reach w \<Longrightarrow> safeInt now \<Longrightarrow> revisionsLeft (s_log (gw_session w))
    \<Longrightarrow> goal_reach (fst (pauseGoal isLive now veto r w))"
| resumed: "goal_reach w \<Longrightarrow> safeInt now \<Longrightarrow> revisionsLeft (s_log (gw_session w))
    \<Longrightarrow> goal_reach (fst (resumeGoal isLive now veto r w))"
| completed: "goal_reach w \<Longrightarrow> safeInt now \<Longrightarrow> revisionsLeft (s_log (gw_session w))
    \<Longrightarrow> goal_reach (fst (completeGoal isLive now veto r w))"
| blocked: "goal_reach w \<Longrightarrow> safeInt now \<Longrightarrow> revisionsLeft (s_log (gw_session w))
    \<Longrightarrow> goal_reach (fst (blockGoal isLive now veto r reason w))"
| cleared: "goal_reach w \<Longrightarrow> safeInt now \<Longrightarrow> revisionsLeft (s_log (gw_session w))
    \<Longrightarrow> goal_reach (fst (clearGoal isLive now veto r w))"
| read: "goal_reach w \<Longrightarrow> goal_reach (fst (getGoal isLive w))"
| disarmed: "goal_reach w \<Longrightarrow> goal_reach (fst (disarm isLive w))"
| session_start: "goal_reach w \<Longrightarrow> goal_reach (fst (onSessionStart w))"
| other_append: "goal_reach w \<Longrightarrow> logAppend (gw_session w) now veto d = (S, r)
    \<Longrightarrow> (case r of Inl _ \<Rightarrow> True | Inr e \<Rightarrow> \<not> isl (foldGoal (s_log (gw_session w) @ [e])))
    \<Longrightarrow> goal_reach (w\<lparr>gw_session := S\<rparr>)"

lemma goal_reach_inv: "goal_reach w \<Longrightarrow> goalInv w"
proof (induction rule: goal_reach.induct)
  case (attached S st)
  then show ?case by (simp add: goalInv_def)
next
  case (paused w now isLive veto r)
  then show ?case unfolding pauseGoal_def by (intro transitionGoal_inv) simp_all
next
  case (completed w now isLive veto r)
  then show ?case unfolding completeGoal_def by (intro transitionGoal_inv) simp_all
next
  case (read w isLive)
  have "fst (getGoal isLive w) = fst (prepareMutation isLive w)"
    by (cases "prepareMutation isLive w"; cases "snd (prepareMutation isLive w)")
      (simp_all add: getGoal_def)
  with read show ?case by (simp add: prepare_frame)
next
  case (other_append w now veto d S r)
  then show ?case using append_goalInv by blast
qed (simp_all add: createGoal_inv editGoal_inv resumeGoal_inv blockGoal_inv clearGoal_inv disarm_inv
    onSessionStart_inv)

section \<open>What the operations answer\<close>

text \<open>
  Claim C20: a read of the goal is a function of the log alone. In every world the service can be in,
  the log folds and \<^verbatim>\<open>get\<close> answers the goal, the round counter and the times of that fold;
  the one bit that is not durable, whether the goal is armed, is set only on an active goal.
\<close>

theorem goal_reads_are_folds:
  assumes "goal_reach w"
  shows "\<exists>st v. foldGoal (s_log (gw_session w)) = Inr st \<and> snd (getGoal True w) = Inr v
    \<and> s_log (gw_session (fst (getGoal True w))) = s_log (gw_session w)
    \<and> map_option gv_goal v = gs_goal st
    \<and> pred_option (\<lambda>x. gv_rounds x = gs_rounds st \<and> Some (gv_createdAt x) = gs_createdAt st
         \<and> Some (gv_updatedAt x) = gs_updatedAt st
         \<and> (gv_armed x \<longrightarrow> g_phase (gv_goal x) = ActivePhase)) v"
proof -
  obtain c where c: "prepareMutation True w = (w\<lparr>gw_cache := Some c\<rparr>, Inr c)"
      "synced (w\<lparr>gw_cache := Some c\<rparr>) c"
    using prepareMutation_synced [OF goal_reach_inv [OF assms]] .
  obtain v where v: "viewOf c = Inr v" "map_option gv_goal v = gs_goal (gc_state c)"
      "pred_option (\<lambda>x. gv_rounds x = gs_rounds (gc_state c)
         \<and> Some (gv_createdAt x) = gs_createdAt (gc_state c)
         \<and> Some (gv_updatedAt x) = gs_updatedAt (gc_state c) \<and> gv_armed x = gc_armed c) v"
    using viewOf_ok [OF synced_D(4) [OF c(2)]] by blast
  have "gv_armed x \<longrightarrow> g_phase (gv_goal x) = ActivePhase" if "v = Some x" for x
    using that v(2,3) synced_D(5) [OF c(2)] by (auto simp: armed_ok_def split: option.splits)
  with c v synced_D(1) [OF c(2)] show ?thesis
    by (intro exI [of _ "gc_state c"] exI [of _ v]) (cases v; simp add: getGoal_def)
qed

definition sample_goal_world :: goal_world where
  "sample_goal_world =
     fst (createGoal True 9 False ''g1'' (Finite 5) (Some (JStr ''ship it'')) None
       \<lparr>gw_session = sample_session, gw_cache = None, gw_changed = []\<rparr>)"

lemma sample_goal_reach: "goal_reach sample_goal_world"
proof -
  have "foldGoal (s_log sample_session) = Inr emptyGoalFoldState"
    unfolding sample_session_log by code_simp
  moreover from this have "unusedGoalId ''g1'' (s_log sample_session)"
    by (simp add: unusedGoalId_def emptyGoalFoldState_def)
  ultimately show ?thesis
    unfolding sample_goal_world_def by (intro goal_reach.created goal_reach.attached) (simp_all add: safeInt_def maxSafeInteger_def)
qed

theorem goal_reads_are_folds_witness:
  "(\<exists>v. snd (getGoal True sample_goal_world) = Inr v)
     \<and> length (s_log (gw_session sample_goal_world)) = 2"
proof -
  have "length (s_log (gw_session sample_goal_world)) = 2" by code_simp
  then show ?thesis using goal_reads_are_folds [OF sample_goal_reach] by blast
qed

text \<open>Whether a reference names the current goal of a fold at its current revision.\<close>

definition refersTo :: "goal_ref \<Rightarrow> goal_state \<Rightarrow> bool" where
  "refersTo r st \<longleftrightarrow>
     (case gs_goal st of None \<Rightarrow> False | Some g \<Rightarrow> gr_id r = g_id g \<and> gr_revision r = g_revision g)"

text \<open>An operation that failed without touching the session or notifying anyone.\<close>

definition rejectedIn :: "goal_world \<Rightarrow> goal_world \<times> (goal_failure + 'a) \<Rightarrow> bool" where
  "rejectedIn w q \<longleftrightarrow>
     isl (snd q) \<and> gw_session (fst q) = gw_session w \<and> gw_changed (fst q) = gw_changed w"

lemma onCurrent_stale:
  assumes "goalInv w" and "foldGoal (s_log (gw_session w)) = Inr st" and "\<not> refersTo r st"
  shows "rejectedIn w (onCurrent isLive r f w)"
proof (cases isLive)
  case True
  obtain c where c: "prepareMutation True w = (w\<lparr>gw_cache := Some c\<rparr>, Inr c)"
      "synced (w\<lparr>gw_cache := Some c\<rparr>) c"
    using prepareMutation_synced [OF assms(1)] .
  have "gc_state c = st" using synced_D(1) [OF c(2)] assms(2) by simp
  then have "isl (expectCurrent c r)"
    using assms(3) by (auto simp: expectCurrent_def refersTo_def split: option.splits)
  then obtain e where "expectCurrent c r = Inl e" by (cases "expectCurrent c r") simp_all
  with c True show ?thesis by (simp add: onCurrent_def rejectedIn_def)
qed (simp add: onCurrent_def prepareMutation_def rejectedIn_def)

text \<open>
  Claim C21: every operation on an existing goal is compare-and-set. With a reference that does not
  name the current goal at its current revision, \<^verbatim>\<open>edit\<close>, \<^verbatim>\<open>pause\<close>, \<^verbatim>\<open>resume\<close>,
  \<^verbatim>\<open>complete\<close>, \<^verbatim>\<open>block\<close> and \<^verbatim>\<open>clear\<close> all fail, the session is untouched and
  nobody is notified.
\<close>

theorem stale_ref_rejected:
  assumes "goal_reach w" and "foldGoal (s_log (gw_session w)) = Inr st" and "\<not> refersTo r st"
  shows "rejectedIn w (editGoal isLive now veto r objective maxRounds w)
    \<and> rejectedIn w (pauseGoal isLive now veto r w) \<and> rejectedIn w (resumeGoal isLive now veto r w)
    \<and> rejectedIn w (completeGoal isLive now veto r w)
    \<and> rejectedIn w (blockGoal isLive now veto r reason w) \<and> rejectedIn w (clearGoal isLive now veto r w)"
  unfolding editGoal_def pauseGoal_def resumeGoal_def completeGoal_def blockGoal_def clearGoal_def
    transitionGoal_def
  by (intro conjI onCurrent_stale [OF goal_reach_inv [OF assms(1)] assms(2,3)])

theorem stale_ref_rejected_witness:
  "rejectedIn sample_goal_world (pauseGoal True 9 False \<lparr>gr_id = ''g1'', gr_revision = 7\<rparr> sample_goal_world)"
proof -
  let ?r = "\<lparr>gr_id = ''g1'', gr_revision = 7\<rparr>"
  let ?f = "foldGoal (s_log (gw_session sample_goal_world))"
  have "\<not> isl ?f \<and> \<not> refersTo ?r (projr ?f)" by code_simp
  then obtain st where "?f = Inr st" "\<not> refersTo ?r st" by (cases ?f) simp_all
  from stale_ref_rejected [OF sample_goal_reach this] show ?thesis by blast
qed

text \<open>
  Claim C22: the projection the clients read agrees with the strict fold on every log the strict fold
  accepts, on the goal and its times. Its round counter is the one of the latest change, so it may
  lag behind the rounds admitted since.
\<close>

theorem projection_agrees:
  assumes "foldGoal lg = Inr st"
  shows "map_option gp_goal (foldl applyGoalProjection None lg) = gs_goal st
    \<and> map_option gp_createdAt (foldl applyGoalProjection None lg) = gs_createdAt st
    \<and> map_option gp_updatedAt (foldl applyGoalProjection None lg) = gs_updatedAt st
    \<and> pred_option (\<lambda>p. gp_rounds p \<le> gs_rounds st) (foldl applyGoalProjection None lg)"
  using assms
proof (induction lg arbitrary: st rule: rev_induct)
  case Nil
  then show ?case by (auto simp: foldGoal_def emptyGoalFoldState_def)
next
  case (snoc e lg)
  obtain s0 where s0: "foldGoal lg = Inr s0" "applyGoalEvent s0 e = Inr st"
    using snoc.prems by (auto simp: foldGoal_def runR_snoc bindR_Inr_iff)
  note ih = snoc.IH [OF s0(1)]
  show ?case
  proof (cases "ev_data e")
    case (GoalChange v)
    then obtain c where c: "decodeGoalChange v = Inr (Some c)" "applyGoalChange s0 c = Inr st"
      using s0(2) by (auto simp: applyGoalEvent_def bindR_Inr_iff split: option.splits)
    show ?thesis
    proof (cases c)
      case (ClearChange r stamp)
      then show ?thesis using c GoalChange
        by (auto simp: applyGoalProjection_def applyGoalChange_def split: option.splits if_splits)
    next
      case (SnapshotChange operation g rounds createdAt updatedAt)
      then show ?thesis using c GoalChange applyGoalChange_snapshot
        by (auto simp: applyGoalProjection_def)
    qed
  next
    case (UserMsg m)
    with applyGoalEvent_user [OF UserMsg s0(2)] ih show ?thesis
      by (auto simp: applyGoalProjection_def elim!: option.pred_mono_strong)
  qed (use s0 ih in \<open>auto simp: applyGoalEvent_def applyGoalProjection_def\<close>)
qed

theorem projection_agrees_witness:
  "map_option gp_goal (foldl applyGoalProjection None (s_log (gw_session sample_goal_world))) \<noteq> None"
proof -
  let ?f = "foldGoal (s_log (gw_session sample_goal_world))"
  have "\<not> isl ?f \<and> gs_goal (projr ?f) \<noteq> None" by code_simp
  then obtain st where "?f = Inr st" "gs_goal st \<noteq> None" by (cases ?f) simp_all
  with projection_agrees [of "s_log (gw_session sample_goal_world)" st] show ?thesis by simp
qed

end
