(* ===== verification/Tool_Pairing.thy ===== *)
theory Tool_Pairing
  imports Session_Facts
begin

text \<open>
  \<^verbatim>\<open>packages/compaction/compaction/src/tool-pairing.ts\<close>: at which cuts of the surface no tool
  call is waiting for its result. The answers come from a cache per session that follows the
  surface incrementally and is rebuilt when the surface was rewritten; the theory shows that
  they are a function of the current surface alone.
\<close>

section \<open>The cache\<close>

record balance_cache =
  bc_generation :: nat
  bc_cutBalanced :: "bool list"
  bc_indexBySeq :: "nat \<Rightarrow> nat option"
  bc_inProgress :: int

datatype pairing_error = CorruptSurface nat | UnmatchedResult nat | SeqAbsent nat

definition eventDelta :: "event_data \<Rightarrow> int" where
  "eventDelta d =
     (case d of
        AssistantMsg _ _ m _ \<Rightarrow> int (length (filter isToolCall (msg_content m)))
      | ToolResult _ \<Rightarrow> -1
      | _ \<Rightarrow> 0)"

definition eventForSeq :: "event list \<Rightarrow> nat \<Rightarrow> pairing_error + event" where
  "eventForSeq events s =
     (if s < length events \<and> seq (events ! s) = s then Inr (events ! s) else Inl (CorruptSurface s))"

text \<open>The loop of \<^verbatim>\<open>extendCache\<close> over the unseen tail, and its index updates.\<close>

fun tailCuts :: "event list \<Rightarrow> int \<Rightarrow> nat list \<Rightarrow> pairing_error + (bool list \<times> int)" where
  "tailCuts events n [] = Inr ([], n)"
| "tailCuts events n (s # ss) =
     bindR (eventForSeq events s) (\<lambda>e.
       let n' = n + eventDelta (ev_data e)
       in if n' < 0 then Inl (UnmatchedResult s)
          else mapR (\<lambda>(cuts, k). ((n' = 0) # cuts, k)) (tailCuts events n' ss))"

fun indexTail :: "(nat \<Rightarrow> nat option) \<Rightarrow> nat \<Rightarrow> nat list \<Rightarrow> nat \<Rightarrow> nat option" where
  "indexTail m k [] = m"
| "indexTail m k (s # ss) = indexTail (m(s := Some k)) (Suc k) ss"

definition extendCache ::
  "event list \<Rightarrow> balance_cache \<Rightarrow> nat list \<Rightarrow> pairing_error + balance_cache" where
  "extendCache events c seqs =
     (let processed = length (bc_cutBalanced c) - 1; tail = drop processed seqs
      in mapR (\<lambda>(cuts, n).
           c\<lparr>bc_indexBySeq := indexTail (bc_indexBySeq c) processed tail,
             bc_cutBalanced := bc_cutBalanced c @ cuts, bc_inProgress := n\<rparr>)
         (tailCuts events (bc_inProgress c) tail))"

definition emptyBalance :: "nat \<Rightarrow> balance_cache" where
  "emptyBalance generation =
     \<lparr>bc_generation = generation, bc_cutBalanced = [True], bc_indexBySeq = (\<lambda>_. None),
      bc_inProgress = 0\<rparr>"

definition balanceCache ::
  "event list \<Rightarrow> nat list \<Rightarrow> nat \<Rightarrow> balance_cache option \<Rightarrow> pairing_error + balance_cache" where
  "balanceCache events seqs generation cached =
     (case cached of
        None \<Rightarrow> extendCache events (emptyBalance generation) seqs
      | Some c \<Rightarrow>
          if bc_generation c \<noteq> generation \<or> length seqs < length (bc_cutBalanced c) - 1
          then extendCache events (emptyBalance generation) seqs
          else if length (bc_cutBalanced c) - 1 < length seqs then extendCache events c seqs
          else Inr c)"

text \<open>What the map of caches holds after a call: a throw leaves the old entry.\<close>

definition keepBalance ::
  "balance_cache option \<Rightarrow> pairing_error + balance_cache \<Rightarrow> balance_cache option" where
  "keepBalance cached r = (case r of Inl _ \<Rightarrow> cached | Inr c \<Rightarrow> Some c)"

definition cutBalance :: "balance_cache \<Rightarrow> nat \<Rightarrow> nat \<Rightarrow> pairing_error + bool" where
  "cutBalance c s offset =
     (case bc_indexBySeq c s of
        None \<Rightarrow> Inl (SeqAbsent s)
      | Some i \<Rightarrow>
          if i + offset < length (bc_cutBalanced c) then Inr (bc_cutBalanced c ! (i + offset))
          else Inl (SeqAbsent s))"

definition toolPairingBalancedBefore ::
  "event list \<Rightarrow> nat list \<Rightarrow> nat \<Rightarrow> balance_cache option \<Rightarrow> nat
    \<Rightarrow> balance_cache option \<times> (pairing_error + bool)" where
  "toolPairingBalancedBefore events seqs generation cached s =
     (let r = balanceCache events seqs generation cached
      in (keepBalance cached r, bindR r (\<lambda>c. cutBalance c s 0)))"

definition toolPairingBalancedAfter ::
  "event list \<Rightarrow> nat list \<Rightarrow> nat \<Rightarrow> balance_cache option \<Rightarrow> nat
    \<Rightarrow> balance_cache option \<times> (pairing_error + bool)" where
  "toolPairingBalancedAfter events seqs generation cached s =
     (let r = balanceCache events seqs generation cached
      in (keepBalance cached r, bindR r (\<lambda>c. cutBalance c s 1)))"

section \<open>A build from nothing\<close>

definition freshBalance :: "event list \<Rightarrow> nat list \<Rightarrow> nat \<Rightarrow> pairing_error + balance_cache" where
  "freshBalance events seqs generation = extendCache events (emptyBalance generation) seqs"

text \<open>The calls that are open after a stretch of the surface, by counting.\<close>

definition openCalls :: "event list \<Rightarrow> nat list \<Rightarrow> int" where
  "openCalls events seqs = (\<Sum>s\<leftarrow>seqs. eventDelta (ev_data (events ! s)))"

lemma openCalls_simps [simp]:
  "openCalls events [] = 0"
  "openCalls events (s # ss) = eventDelta (ev_data (events ! s)) + openCalls events ss"
  "openCalls events (xs @ ys) = openCalls events xs + openCalls events ys"
  by (simp_all add: openCalls_def)

definition pairingOK :: "event list \<Rightarrow> nat list \<Rightarrow> bool" where
  "pairingOK events seqs \<longleftrightarrow> (\<forall>k \<le> length seqs. 0 \<le> openCalls events (take k seqs))"

lemma pairingOK_code [code]:
  "pairingOK events seqs \<longleftrightarrow>
     list_all (\<lambda>k. 0 \<le> openCalls events (take k seqs)) [0..<Suc (length seqs)]"
  unfolding pairingOK_def list_all_iff by (auto simp: less_Suc_eq_le)

definition onLog :: "event list \<Rightarrow> nat list \<Rightarrow> bool" where
  "onLog events seqs \<longleftrightarrow> list_all (\<lambda>s. s < length events \<and> seq (events ! s) = s) seqs"

lemma onLog_simps [simp]:
  "onLog events []"
  "onLog events (s # ss) \<longleftrightarrow> s < length events \<and> seq (events ! s) = s \<and> onLog events ss"
  "onLog events (xs @ ys) \<longleftrightarrow> onLog events xs \<and> onLog events ys"
  by (simp_all add: onLog_def)

lemma surface_onLog: "surfaceLog lg = Inr st \<Longrightarrow> onLog lg (nodes st)"
  using surfaceLog_inv [of lg st] by (simp add: surfaceInv_def onLog_def list_all_iff)

lemma tailCuts_append:
  "tailCuts events n (xs @ ys) =
     bindR (tailCuts events n xs) (\<lambda>(cuts, k). mapR (\<lambda>(rest, l). (cuts @ rest, l)) (tailCuts events k ys))"
proof (induction xs arbitrary: n)
  case Nil
  show ?case by (cases "tailCuts events n ys") auto
next
  case (Cons x xs)
  show ?case
  proof (cases "eventForSeq events x")
    case (Inr e)
    let ?n = "n + eventDelta (ev_data e)"
    show ?thesis
      using Inr Cons.IH [of ?n]
      by (cases "tailCuts events ?n xs"; cases "tailCuts events (snd (projr (tailCuts events ?n xs))) ys")
        (auto simp: Let_def)
  qed simp
qed

lemma tailCuts_length: "tailCuts events n seqs = Inr (cuts, k) \<Longrightarrow> length cuts = length seqs"
  by (induction seqs arbitrary: n cuts k)
    (auto simp: bindR_Inr_iff mapR_Inr_iff Let_def split: if_splits)

lemma tailCuts_local:
  "list_all (\<lambda>s. s < length es) seqs \<Longrightarrow> tailCuts (es @ rest) n seqs = tailCuts es n seqs"
  by (induction seqs arbitrary: n) (auto simp: eventForSeq_def nth_append Let_def)

lemma tailCuts_ok:
  assumes "onLog events seqs" and "\<And>k. k \<le> length seqs \<Longrightarrow> 0 \<le> n + openCalls events (take k seqs)"
  shows "tailCuts events n seqs =
     Inr (map (\<lambda>k. n + openCalls events (take (Suc k) seqs) = 0) [0..<length seqs],
          n + openCalls events seqs)"
  using assms
proof (induction seqs arbitrary: n)
  case (Cons s ss)
  let ?n = "n + eventDelta (ev_data (events ! s))"
  have "0 \<le> ?n" using Cons.prems(2) [of 1] by simp
  moreover have "0 \<le> ?n + openCalls events (take k ss)" if "k \<le> length ss" for k
    using Cons.prems(2) [of "Suc k"] that by (simp add: algebra_simps)
  ultimately show ?case
    using Cons.prems(1) Cons.IH [of ?n]
    by (simp add: eventForSeq_def Let_def upt_conv_Cons map_Suc_upt [symmetric] add.assoc
        del: upt_Suc) 
qed simp

lemma tailCuts_bad:
  assumes "onLog events seqs" and "0 \<le> n" and "k \<le> length seqs" and "n + openCalls events (take k seqs) < 0"
  shows "\<exists>s \<in> set seqs. tailCuts events n seqs = Inl (UnmatchedResult s)"
  using assms
proof (induction seqs arbitrary: n k)
  case (Cons s ss)
  let ?n = "n + eventDelta (ev_data (events ! s))"
  show ?case
  proof (cases "?n < 0")
    case True
    then show ?thesis using Cons.prems(1) by (simp add: eventForSeq_def)
  next
    case False
    obtain k' where "k = Suc k'" using Cons.prems(2,4) by (cases k) auto
    then have "\<exists>x \<in> set ss. tailCuts events ?n ss = Inl (UnmatchedResult x)"
      using Cons.prems False by (intro Cons.IH [of ?n k']) (simp_all add: add.assoc)
    then show ?thesis using Cons.prems(1) False by (auto simp: eventForSeq_def Let_def)
  qed
qed simp

lemma indexTail_append: "indexTail m k (xs @ ys) = indexTail (indexTail m k xs) (k + length xs) ys"
  by (induction xs arbitrary: m k) simp_all

lemma indexTail_indexOf:
  "distinct seqs \<Longrightarrow>
     indexTail m k seqs s = (case indexOf seqs s of None \<Rightarrow> m s | Some i \<Rightarrow> Some (k + i))"
  by (induction seqs arbitrary: m k) (auto simp: array_simps split: option.split dest: indexOf_SomeD)

text \<open>Extending what was built for a first part is building for the whole.\<close>

lemma extend_fresh:
  assumes "freshBalance events xs g = Inr c"
  shows "extendCache events c (xs @ ys) = freshBalance events (xs @ ys) g"
    and "length (bc_cutBalanced c) = Suc (length xs)" and "bc_generation c = g"
proof -
  obtain cuts n where t: "tailCuts events 0 xs = Inr (cuts, n)"
    and c: "c = \<lparr>bc_generation = g, bc_cutBalanced = True # cuts,
        bc_indexBySeq = indexTail (\<lambda>_. None) 0 xs, bc_inProgress = n\<rparr>"
    using assms by (auto simp: freshBalance_def extendCache_def emptyBalance_def mapR_Inr_iff)
  show l: "length (bc_cutBalanced c) = Suc (length xs)" and "bc_generation c = g"
    using tailCuts_length [OF t] by (simp_all add: c)
  show "extendCache events c (xs @ ys) = freshBalance events (xs @ ys) g"
    using t tailCuts_length [OF t]
    by (cases "tailCuts events n ys")
      (auto simp: c freshBalance_def extendCache_def emptyBalance_def tailCuts_append indexTail_append Let_def)
qed

lemma fresh_local:
  "onLog es xs \<Longrightarrow> freshBalance (es @ rest) xs g = freshBalance es xs g"
  using tailCuts_local [of es xs rest]
  by (simp add: freshBalance_def extendCache_def emptyBalance_def onLog_def list_all_iff)

lemma fresh_ok:
  assumes "onLog events seqs" and "pairingOK events seqs"
  shows "freshBalance events seqs g =
    Inr \<lparr>bc_generation = g,
         bc_cutBalanced = map (\<lambda>k. openCalls events (take k seqs) = 0) [0..<Suc (length seqs)],
         bc_indexBySeq = indexTail (\<lambda>_. None) 0 seqs, bc_inProgress = openCalls events seqs\<rparr>"
  using tailCuts_ok [of events seqs 0] assms
  by (simp add: freshBalance_def extendCache_def emptyBalance_def pairingOK_def upt_conv_Cons
      map_Suc_upt [symmetric] del: upt_Suc)

lemma fresh_bad:
  assumes "onLog events seqs" and "\<not> pairingOK events seqs"
  shows "\<exists>s \<in> set seqs. freshBalance events seqs g = Inl (UnmatchedResult s)"
proof -
  obtain k where "k \<le> length seqs" "0 + openCalls events (take k seqs) < 0"
    using assms(2) by (auto simp: pairingOK_def not_le)
  then show ?thesis
    using tailCuts_bad [of events seqs 0 k] assms(1)
    by (auto simp: freshBalance_def extendCache_def emptyBalance_def)
qed

section \<open>The cache follows the surface\<close>

text \<open>A cached entry is a build for the surface of some earlier state of the log.\<close>

definition balanceInv :: "event list \<Rightarrow> balance_cache option \<Rightarrow> bool" where
  "balanceInv lg cached \<longleftrightarrow>
     pred_option (\<lambda>c. \<exists>n st0. n \<le> length lg \<and> surfaceLog (take n lg) = Inr st0
       \<and> freshBalance (take n lg) (nodes st0) (replaceGeneration st0) = Inr c) cached"

lemma balanceInv_None [simp]: "balanceInv lg None"
  by (simp add: balanceInv_def)

lemma balanceInv_grow: "balanceInv lg cached \<Longrightarrow> balanceInv (lg @ rest) cached"
proof (cases cached)
  case (Some c)
  assume "balanceInv lg cached"
  with Some obtain n st0 where "n \<le> length lg" "surfaceLog (take n lg) = Inr st0"
      "freshBalance (take n lg) (nodes st0) (replaceGeneration st0) = Inr c"
    by (auto simp: balanceInv_def)
  then show ?thesis using Some by (auto simp: balanceInv_def intro!: exI [of _ n])
qed simp

lemma balanceCache_fresh:
  assumes st: "surfaceLog lg = Inr st" and inv: "balanceInv lg cached"
  shows "balanceCache lg (nodes st) (replaceGeneration st) cached
    = freshBalance lg (nodes st) (replaceGeneration st)"
proof (cases cached)
  case None
  then show ?thesis by (simp add: balanceCache_def freshBalance_def)
next
  case (Some c)
  obtain n st0 where n: "n \<le> length lg" "surfaceLog (take n lg) = Inr st0"
    and c: "freshBalance (take n lg) (nodes st0) (replaceGeneration st0) = Inr c"
    using inv Some by (auto simp: balanceInv_def)
  have c': "freshBalance lg (nodes st0) (replaceGeneration st0) = Inr c"
    using c fresh_local [OF surface_onLog [OF n(2)], of "drop n lg"] by simp
  note e = extend_fresh [OF c']
  show ?thesis
  proof (cases "bc_generation c = replaceGeneration st")
    case False
    then show ?thesis using Some by (simp add: balanceCache_def freshBalance_def)
  next
    case True
    then obtain ys where ys: "nodes st = nodes st0 @ ys"
      using surfaceLog_generation [of "take n lg" "drop n lg" st st0] st n(2) e(3) by auto
    then show ?thesis
      using Some True e c' by (cases ys) (simp_all add: balanceCache_def ys)
  qed
qed

lemma keepBalance_inv:
  assumes "surfaceLog lg = Inr st" and "balanceInv lg cached"
  shows "balanceInv lg (keepBalance cached (balanceCache lg (nodes st) (replaceGeneration st) cached))"
proof (cases "freshBalance lg (nodes st) (replaceGeneration st)")
  case (Inr c)
  then have "balanceInv lg (Some c)"
    using assms(1) unfolding balanceInv_def by (auto intro!: exI [of _ "length lg"])
  then show ?thesis using Inr by (simp add: balanceCache_fresh [OF assms] keepBalance_def)
qed (simp add: balanceCache_fresh [OF assms] keepBalance_def assms(2))

text \<open>
  Every cache a program can hold: the log grows by accepted events, with and without replacements,
  and both questions are asked at any time about any sequence.
\<close>

inductive observed :: "event list \<Rightarrow> balance_cache option \<Rightarrow> bool" where
  unseen: "observed [] None"
| grown: "observed lg cached \<Longrightarrow> surfaceLog (lg @ [e]) = Inr st \<Longrightarrow> observed (lg @ [e]) cached"
| asked_before: "observed lg cached \<Longrightarrow> surfaceLog lg = Inr st
    \<Longrightarrow> observed lg (fst (toolPairingBalancedBefore lg (nodes st) (replaceGeneration st) cached s))"
| asked_after: "observed lg cached \<Longrightarrow> surfaceLog lg = Inr st
    \<Longrightarrow> observed lg (fst (toolPairingBalancedAfter lg (nodes st) (replaceGeneration st) cached s))"

lemma questions_inv: "observed lg cached \<Longrightarrow> balanceInv lg cached"
proof (induction rule: observed.induct)
  case (asked_before lg cached st s)
  then show ?case using keepBalance_inv by (simp add: toolPairingBalancedBefore_def Let_def)
next
  case (asked_after lg cached st s)
  then show ?case using keepBalance_inv by (simp add: toolPairingBalancedAfter_def Let_def)
qed (simp_all add: balanceInv_grow)

text \<open>What a question about a position answers, by counting along the surface.\<close>

definition cutAnswer :: "event list \<Rightarrow> nat list \<Rightarrow> nat \<Rightarrow> nat \<Rightarrow> pairing_error + bool" where
  "cutAnswer lg seqs s offset =
     (case indexOf seqs s of
        None \<Rightarrow> Inl (SeqAbsent s)
      | Some i \<Rightarrow> Inr (openCalls lg (take (i + offset) seqs) = 0))"

lemma cutBalance_fresh:
  assumes "surfaceLog lg = Inr st" and "pairingOK lg (nodes st)" and "offset \<le> 1"
  shows "bindR (freshBalance lg (nodes st) g) (\<lambda>c. cutBalance c s offset) = cutAnswer lg (nodes st) s offset"
proof -
  have d: "distinct (nodes st)" using surfaceLog_inv [OF assms(1)] by (simp add: surfaceInv_def)
  show ?thesis
    using assms(3)
    by (auto simp: fresh_ok [OF surface_onLog [OF assms(1)] assms(2)] cutBalance_def cutAnswer_def
        indexTail_indexOf [OF d] nth_append less_Suc_eq_le split: option.split dest!: indexOf_SomeD
        simp del: upt_Suc)
qed

text \<open>
  Claim C23: the answers of the incremental cache are a function of the current surface alone. On a
  surface in which no result precedes its call, the cut before and the cut after a sequence are
  balanced exactly when the calls and results up to there cancel out, and a sequence that is not
  on the surface is refused; on any other surface every question is refused.
\<close>

theorem balance_is_rebuild:
  assumes "observed lg cached" and "surfaceLog lg = Inr st"
  shows "if pairingOK lg (nodes st)
    then snd (toolPairingBalancedBefore lg (nodes st) (replaceGeneration st) cached s) = cutAnswer lg (nodes st) s 0
      \<and> snd (toolPairingBalancedAfter lg (nodes st) (replaceGeneration st) cached s) = cutAnswer lg (nodes st) s 1
    else isl (snd (toolPairingBalancedBefore lg (nodes st) (replaceGeneration st) cached s))
      \<and> isl (snd (toolPairingBalancedAfter lg (nodes st) (replaceGeneration st) cached s))"
proof -
  note f = balanceCache_fresh [OF assms(2) questions_inv [OF assms(1)]]
  show ?thesis
  proof (cases "pairingOK lg (nodes st)")
    case True
    then show ?thesis
      using cutBalance_fresh [OF assms(2) True, of 0] cutBalance_fresh [OF assms(2) True, of 1]
      by (simp add: toolPairingBalancedBefore_def toolPairingBalancedAfter_def Let_def f)
  next
    case False
    then obtain x where "freshBalance lg (nodes st) (replaceGeneration st) = Inl (UnmatchedResult x)"
      using fresh_bad [OF surface_onLog [OF assms(2)]] by blast
    then show ?thesis
      using False by (simp add: toolPairingBalancedBefore_def toolPairingBalancedAfter_def Let_def f)
  qed
qed

definition sample_call :: "nat \<Rightarrow> event" where
  "sample_call n =
     \<lparr>seq = n, time = 0,
      ev_data = AssistantMsg 1 1
        \<lparr>msg_id = ''a'', msg_role = Assistant, msg_content = [ToolCallBlock ''c1'' ''ls'' ''{}''],
         msg_source = ModelSource ''p'' ''m'' None\<rparr> None,
      surfaceOp = Some (JStr ''append''), sourceEventSeqs = None, ignorable = False\<rparr>"

theorem balance_is_rebuild_witness:
  "\<exists>st. surfaceLog [sample_user 0, sample_call 1, sample_tool 2 ''c1''] = Inr st
     \<and> snd (toolPairingBalancedBefore [sample_user 0, sample_call 1, sample_tool 2 ''c1''] (nodes st)
         (replaceGeneration st) None 2) = Inr False
     \<and> snd (toolPairingBalancedAfter [sample_user 0, sample_call 1, sample_tool 2 ''c1''] (nodes st)
         (replaceGeneration st) None 2) = Inr True"
proof -
  let ?lg = "[sample_user 0, sample_call 1, sample_tool 2 ''c1'']"
  define st where "st = \<lparr>nodes = [0, 1, 2], replaceGeneration = 0\<rparr>"
  have l: "surfaceLog [sample_user 0] = Inr \<lparr>nodes = [0], replaceGeneration = 0\<rparr>"
      "surfaceLog [sample_user 0, sample_call 1] = Inr \<lparr>nodes = [0, 1], replaceGeneration = 0\<rparr>"
      "surfaceLog ?lg = Inr st"
    unfolding st_def by code_simp+
  have "observed ?lg None"
    using observed.grown [OF observed.grown [OF observed.grown [OF observed.unseen]],
        of "sample_user 0" _ "sample_call 1" _ "sample_tool 2 ''c1''"] l by simp
  moreover have "pairingOK ?lg (nodes st)"
    unfolding st_def by code_simp
  moreover have "cutAnswer ?lg (nodes st) 2 0 = Inr False" "cutAnswer ?lg (nodes st) 2 1 = Inr True"
    unfolding st_def by code_simp+
  ultimately show ?thesis using balance_is_rebuild [of ?lg None st 2] l(3) by auto
qed

end
