(* ===== verification/Token_Meter.thy ===== *)
theory Token_Meter
  imports Session_Facts Request_Header Assembler
begin

text \<open>
  The token meter, \<^verbatim>\<open>packages/llm/token-meter/src\<close>: \<^verbatim>\<open>estimate.ts\<close>, \<^verbatim>\<open>surface-fold.ts\<close> and
  the class \<^verbatim>\<open>TokenMeter\<close> of \<^verbatim>\<open>index.ts\<close>. A replay prices every node of the surface and keeps
  the latest provider usage as an anchor. Token counts are integers; \<open>stringify\<close> is
  \<^verbatim>\<open>JSON.stringify\<close>, of which only the length is read.
\<close>

section \<open>Estimates\<close>

definition ceilTokens :: "nat \<Rightarrow> int" where
  "ceilTokens n = int ((n + 3) div 4)"

fun estimateBlock :: "(json \<Rightarrow> string) \<Rightarrow> content_block \<Rightarrow> int"
  and estimateContent :: "(json \<Rightarrow> string) \<Rightarrow> content_block list \<Rightarrow> int" where
  "estimateBlock stringify (TextBlock t) = ceilTokens (length t) + 4"
| "estimateBlock stringify (ReasoningBlock t) = ceilTokens (length t) + 4"
| "estimateBlock stringify (ToolCallBlock i n a) = ceilTokens (length n) + ceilTokens (length a) + 4"
| "estimateBlock stringify (ToolResultBlock i bs e) = estimateContent stringify bs + 4"
| "estimateBlock stringify (ImageBlock j) = 4 + ceilTokens (length (stringify j))"
| "estimateContent stringify [] = 0"
| "estimateContent stringify (b # bs) = estimateBlock stringify b + estimateContent stringify bs"

definition estimateMessage :: "(json \<Rightarrow> string) \<Rightarrow> message \<Rightarrow> int" where
  "estimateMessage stringify m = estimateContent stringify (msg_content m) + 4"

definition estimateSystemTokens :: "epoch_header option \<Rightarrow> int" where
  "estimateSystemTokens h =
     (case Option.bind h eh_system of None \<Rightarrow> 0 | Some s \<Rightarrow> ceilTokens (length s) + 4)"

definition estimateToolsTokens :: "(json \<Rightarrow> string) \<Rightarrow> epoch_header option \<Rightarrow> int" where
  "estimateToolsTokens stringify h =
     (case Option.bind h eh_tools of
        None \<Rightarrow> 0
      | Some ts \<Rightarrow> if ts = [] then 0 else ceilTokens (length (stringify (JArr ts))) + 4)"

definition estimateHeader :: "(json \<Rightarrow> string) \<Rightarrow> epoch_header option \<Rightarrow> int" where
  "estimateHeader stringify h = estimateSystemTokens h + estimateToolsTokens stringify h"

definition usageTokens :: "token_usage \<Rightarrow> int" where
  "usageTokens u =
     inputTokens u + (case cacheReadTokens u of None \<Rightarrow> 0 | Some n \<Rightarrow> n)
     + (case cacheWriteTokens u of None \<Rightarrow> 0 | Some n \<Rightarrow> n) + outputTokens u"

section \<open>The priced surface\<close>

record token_node =
  tn_seq :: nat
  tn_tokens :: int

record token_fold =
  tf_tokens :: int
  tf_nodes :: "token_node list"
  tf_delta :: int

datatype meter_error =
    StepStillOpen nat
  | StepEndUnmatched nat
  | MessageOutsideStep nat
  | PricedRangeInvalid nat
  | SourcesMalformed nat
  | SourceTooLate nat nat
  | SourceRepeated nat nat
  | SourceNotChunk nat nat
  | SourceOtherStep nat nat
  | AssemblyFailed string

definition nodeTokens :: "token_node list \<Rightarrow> int" where
  "nodeTokens ns = (\<Sum>n\<leftarrow>ns. tn_tokens n)"

text \<open>\<^verbatim>\<open>nodes.findIndex(node => node.seq === op.start)\<close>\<close>

definition findNode :: "token_node list \<Rightarrow> json option \<Rightarrow> nat option" where
  "findNode ns j = indexOf (map (\<lambda>n. Some (JNum (of_nat (tn_seq n)))) ns) j"

definition foldSurfaceTokens ::
  "(json \<Rightarrow> string) \<Rightarrow> token_node list \<Rightarrow> event \<Rightarrow> meter_error + token_fold" where
  "foldSurfaceTokens stringify ns e =
     (let tokens = (case deriveEventMessage (ev_data e) of
                      None \<Rightarrow> 0 | Some m \<Rightarrow> estimateMessage stringify m);
          node = \<lparr>tn_seq = seq e, tn_tokens = tokens\<rparr>;
          bound = (\<lambda>k. Option.bind (surfaceOp e) (jprop k))
      in if surfaceOp e = Some (JStr ''append'')
         then Inr \<lparr>tf_tokens = tokens, tf_nodes = ns @ [node], tf_delta = tokens\<rparr>
         else case (findNode ns (bound ''start''), findNode ns (bound ''end'')) of
           (Some i, Some j) \<Rightarrow>
             if i > j then Inl (PricedRangeInvalid (seq e))
             else Inr \<lparr>tf_tokens = tokens, tf_nodes = splice_list ns i (j + 1 - i) [node],
                       tf_delta = tokens - nodeTokens (take (j + 1 - i) (drop i ns))\<rparr>
         | _ \<Rightarrow> Inl (PricedRangeInvalid (seq e)))"

section \<open>The replay\<close>

datatype token_baseline =
    NoBaseline
  | EstimatedBaseline int
  | UsageBaseline int token_usage

fun baselineTokens :: "token_baseline \<Rightarrow> int" where
  "baselineTokens NoBaseline = 0"
| "baselineTokens (EstimatedBaseline n) = n"
| "baselineTokens (UsageBaseline n _) = n"

record meter_anchor =
  an_header :: "epoch_header option"
  an_surfaceTokens :: int
  an_baseline :: token_baseline

record meter_state =
  mt_consumed :: nat
  mt_header :: "epoch_header option"
  mt_surface :: "token_node list"
  mt_surfaceTokens :: int
  mt_stepStart :: "(int \<times> int \<times> int) option"
  mt_anchor :: "meter_anchor option"

definition newMeter :: meter_state where
  "newMeter =
     \<lparr>mt_consumed = 0, mt_header = None, mt_surface = [], mt_surfaceTokens = 0, mt_stepStart = None,
      mt_anchor = None\<rparr>"

definition optionalHeaderEquals :: "epoch_header option \<Rightarrow> epoch_header option \<Rightarrow> bool" where
  "optionalHeaderEquals l r =
     (case (l, r) of (Some a, Some b) \<Rightarrow> headerEquals a b | (None, None) \<Rightarrow> True | _ \<Rightarrow> False)"

text \<open>
  \<^verbatim>\<open>_estimateProviderAssistant\<close>: the chunks the message cites, in citation order. A citation
  that is no list of sequence numbers was refused when the event was accepted.
\<close>

fun sourceChunks ::
  "event list \<Rightarrow> nat \<Rightarrow> int \<times> int \<Rightarrow> nat list \<Rightarrow> nat list \<Rightarrow> meter_error + stream_chunk list" where
  "sourceChunks events n at_step seen [] = Inr []"
| "sourceChunks events n at_step seen (s # ss) =
     (if n \<le> s then Inl (SourceTooLate n s)
      else if s \<in> set seen then Inl (SourceRepeated n s)
      else case eventAt events 0 s of
        None \<Rightarrow> Inl (SourceNotChunk n s)
      | Some source \<Rightarrow>
          (case ev_data source of
             AssistantChunk t p c \<Rightarrow>
               if (t, p) \<noteq> at_step then Inl (SourceOtherStep n s)
               else mapR ((#) c) (sourceChunks events n at_step (s # seen) ss)
           | _ \<Rightarrow> Inl (SourceNotChunk n s)))"

definition estimateProviderAssistant ::
  "(json \<Rightarrow> string) \<Rightarrow> event list \<Rightarrow> event \<Rightarrow> int \<times> int \<Rightarrow> int \<Rightarrow> meter_error + int" where
  "estimateProviderAssistant stringify events e at_step durableTokens =
     (case sourceEventSeqs e of
        None \<Rightarrow> Inr durableTokens
      | Some (JArr raw) \<Rightarrow>
          bindR (mapM (\<lambda>j. case eventSeqOf j of None \<Rightarrow> Inl (SourcesMalformed (seq e)) | Some s \<Rightarrow> Inr s) raw)
            (\<lambda>sources. bindR (sourceChunks events (seq e) at_step [] sources)
            (\<lambda>chunks. bindR (mapErr AssemblyFailed (blocks (foldl push emptyAssembler chunks)))
            (\<lambda>content. Inr (if content = [] then 0 else estimateContent stringify content + 4))))
      | Some _ \<Rightarrow> Inl (SourcesMalformed (seq e)))"

text \<open>The step bookkeeping of \<^verbatim>\<open>_foldEvent\<close>, before anything is changed.\<close>

definition nextStepStart :: "meter_state \<Rightarrow> event \<Rightarrow> meter_error + (int \<times> int \<times> int) option" where
  "nextStepStart st e =
     (case ev_data e of
        StepStart t p \<Rightarrow>
          if mt_stepStart st \<noteq> None then Inl (StepStillOpen (seq e))
          else Inr (Some (t, p, mt_surfaceTokens st))
      | StepEnd t p \<Rightarrow>
          (case mt_stepStart st of
             Some (t', p', _) \<Rightarrow> if t' \<noteq> t \<or> p' \<noteq> p then Inl (StepEndUnmatched (seq e)) else Inr None
           | None \<Rightarrow> Inl (StepEndUnmatched (seq e)))
      | _ \<Rightarrow> Inr (mt_stepStart st))"

definition nextAnchor ::
  "(json \<Rightarrow> string) \<Rightarrow> event list \<Rightarrow> meter_state \<Rightarrow> event \<Rightarrow> epoch_header option \<Rightarrow> int
    \<Rightarrow> meter_error + meter_anchor option" where
  "nextAnchor stringify events st e header eventTokens =
     (case ev_data e of
        AssistantMsg t p _ usage \<Rightarrow>
          (case mt_stepStart st of
             None \<Rightarrow> Inl (MessageOutsideStep (seq e))
           | Some (t', p', before) \<Rightarrow>
               if t' \<noteq> t \<or> p' \<noteq> p then Inl (MessageOutsideStep (seq e))
               else case (usage, header) of
                 (Some u, Some _) \<Rightarrow>
                   bindR (estimateProviderAssistant stringify events e (t, p) eventTokens) (\<lambda>n.
                     let surfaceTokens = before + n;
                         providerTokens = usageTokens u;
                         estimated = estimateHeader stringify header + surfaceTokens
                     in Inr (Some \<lparr>an_header = header, an_surfaceTokens = surfaceTokens,
                          an_baseline =
                            (if estimated \<le> providerTokens then UsageBaseline providerTokens u
                             else EstimatedBaseline estimated)\<rparr>))
               | _ \<Rightarrow>
                   (let surfaceTokens = before + eventTokens
                    in Inr (Some \<lparr>an_header = header, an_surfaceTokens = surfaceTokens,
                         an_baseline =
                           EstimatedBaseline (estimateHeader stringify header + surfaceTokens)\<rparr>)))
      | _ \<Rightarrow> Inr (mt_anchor st))"

definition foldMeterEvent ::
  "(json \<Rightarrow> string) \<Rightarrow> event list \<Rightarrow> meter_state \<Rightarrow> event \<Rightarrow> meter_error + meter_state" where
  "foldMeterEvent stringify events st e =
     (let header = (case ev_data e of RequestHeader h _ \<Rightarrow> Some (canonicalHeader h) | _ \<Rightarrow> mt_header st)
      in bindR (nextStepStart st e) (\<lambda>stepStart.
         bindR (if isSurfaceEvent e then mapR Some (foldSurfaceTokens stringify (mt_surface st) e)
                else Inr None) (\<lambda>surface.
         bindR (nextAnchor stringify events st e header
                  (case surface of None \<Rightarrow> 0 | Some f \<Rightarrow> tf_tokens f)) (\<lambda>anchor.
         Inr (st\<lparr>mt_header := header, mt_stepStart := stepStart,
                 mt_surface := (case surface of None \<Rightarrow> mt_surface st | Some f \<Rightarrow> tf_nodes f),
                 mt_surfaceTokens :=
                   mt_surfaceTokens st + (case surface of None \<Rightarrow> 0 | Some f \<Rightarrow> tf_delta f),
                 mt_anchor := anchor\<rparr>)))))"

text \<open>
  \<^verbatim>\<open>_sync\<close>: an event that cannot be folded stays unread, so every later call fails on it again.
\<close>

fun meterLoop ::
  "(json \<Rightarrow> string) \<Rightarrow> event list \<Rightarrow> meter_state \<Rightarrow> event list \<Rightarrow> meter_state \<times> meter_error option" where
  "meterLoop stringify events st [] = (st, None)"
| "meterLoop stringify events st (e # es) =
     (case foldMeterEvent stringify events st e of
        Inl err \<Rightarrow> (st, Some err)
      | Inr st' \<Rightarrow> meterLoop stringify events (st'\<lparr>mt_consumed := Suc (mt_consumed st')\<rparr>) es)"

definition syncMeter ::
  "(json \<Rightarrow> string) \<Rightarrow> event list \<Rightarrow> meter_state \<Rightarrow> meter_state \<times> meter_error option" where
  "syncMeter stringify events st = meterLoop stringify events st (drop (mt_consumed st) events)"

section \<open>Measurement\<close>

record measurement =
  ms_logRevision :: nat
  ms_baseline :: token_baseline
  ms_surfaceDelta :: int
  ms_totalTokens :: int
  ms_surfaceTokens :: int
  ms_nodes :: "token_node list"

definition measure_with ::
  "(json \<Rightarrow> string) \<Rightarrow> meter_state \<Rightarrow> epoch_header option \<Rightarrow> measurement" where
  "measure_with stringify st requested =
     (let header = (case requested of None \<Rightarrow> mt_header st | Some h \<Rightarrow> Some (canonicalHeader h));
          (baseline, delta) =
            (case mt_anchor st of
               Some a \<Rightarrow>
                 if optionalHeaderEquals (an_header a) header
                 then (an_baseline a, mt_surfaceTokens st - an_surfaceTokens a)
                 else if header = None \<and> mt_surfaceTokens st = 0 then (NoBaseline, 0)
                 else (EstimatedBaseline (estimateHeader stringify header + mt_surfaceTokens st), 0)
             | None \<Rightarrow>
                 if header = None \<and> mt_surfaceTokens st = 0 then (NoBaseline, 0)
                 else (EstimatedBaseline (estimateHeader stringify header + mt_surfaceTokens st), 0))
      in \<lparr>ms_logRevision = mt_consumed st, ms_baseline = baseline, ms_surfaceDelta = delta,
          ms_totalTokens = max 0 (baselineTokens baseline + delta),
          ms_surfaceTokens = mt_surfaceTokens st, ms_nodes = mt_surface st\<rparr>)"

text \<open>The argument is the state the meter keeps for the session, \<open>newMeter\<close> before the first use.\<close>

definition measureSession ::
  "(json \<Rightarrow> string) \<Rightarrow> event list \<Rightarrow> meter_state \<Rightarrow> epoch_header option
    \<Rightarrow> meter_state \<times> (meter_error + measurement)" where
  "measureSession stringify events st requested =
     (case syncMeter stringify events st of
        (st', Some err) \<Rightarrow> (st', Inl err)
      | (st', None) \<Rightarrow> (st', Inr (measure_with stringify st' requested)))"

section \<open>The priced surface is the surface\<close>

definition priceOf :: "(json \<Rightarrow> string) \<Rightarrow> event list \<Rightarrow> nat \<Rightarrow> int" where
  "priceOf stringify lg s =
     (case deriveEventMessage (ev_data (lg ! s)) of None \<Rightarrow> 0 | Some m \<Rightarrow> estimateMessage stringify m)"

definition priced :: "(json \<Rightarrow> string) \<Rightarrow> event list \<Rightarrow> nat list \<Rightarrow> token_node list" where
  "priced stringify lg ns = map (\<lambda>s. \<lparr>tn_seq = s, tn_tokens = priceOf stringify lg s\<rparr>) ns"

lemma priced_simps [simp]:
  "length (priced stringify lg ns) = length ns"
  "map tn_seq (priced stringify lg ns) = ns"
  "priced stringify lg (xs @ ys) = priced stringify lg xs @ priced stringify lg ys"
  "take k (priced stringify lg ns) = priced stringify lg (take k ns)"
  "drop k (priced stringify lg ns) = priced stringify lg (drop k ns)"
  by (simp_all add: priced_def take_map drop_map map_idI comp_def)

lemma priced_local:
  "\<forall>s \<in> set ns. s < length lg \<Longrightarrow> priced stringify (lg @ rest) ns = priced stringify lg ns"
  by (simp add: priced_def priceOf_def nth_append)

lemma priced_splice:
  "priced stringify lg (splice_list ns i n xs)
    = splice_list (priced stringify lg ns) i n (priced stringify lg xs)"
  by (simp add: splice_list_def)

lemma nodeTokens_append [simp]: "nodeTokens (xs @ ys) = nodeTokens xs + nodeTokens ys"
  by (simp add: nodeTokens_def)

lemma findNode_priced: "findNode (priced stringify lg ns) (Some (JNum (of_nat s))) = indexOf ns s"
  by (induction ns) (simp_all add: findNode_def priced_def)

text \<open>An anchor is never below the heuristic price of what it stands for.\<close>

definition anchorOK :: "(json \<Rightarrow> string) \<Rightarrow> meter_anchor \<Rightarrow> bool" where
  "anchorOK stringify a \<longleftrightarrow>
     estimateHeader stringify (an_header a) + an_surfaceTokens a \<le> baselineTokens (an_baseline a)"

lemma nextAnchor_ok:
  assumes "nextAnchor stringify events st e header n = Inr a" and "pred_option (anchorOK stringify) (mt_anchor st)"
  shows "pred_option (anchorOK stringify) a"
  using assms
  by (cases "ev_data e")
    (auto simp: nextAnchor_def anchorOK_def Let_def result_simps split: option.splits prod.splits if_splits)

definition meterInv :: "(json \<Rightarrow> string) \<Rightarrow> event list \<Rightarrow> meter_state \<Rightarrow> bool" where
  "meterInv stringify lg st \<longleftrightarrow>
     mt_consumed st \<le> length lg
     \<and> (\<exists>fs. surfaceLog (take (mt_consumed st) lg) = Inr fs
          \<and> mt_surface st = priced stringify (take (mt_consumed st) lg) (nodes fs))
     \<and> mt_surfaceTokens st = nodeTokens (mt_surface st)
     \<and> mt_header st = foldRequestHeader (take (mt_consumed st) lg) None
     \<and> pred_option (anchorOK stringify) (mt_anchor st)"

lemma surfaceOpOf_append: "surfaceOpOf e = Inr (Some OpAppend) \<Longrightarrow> surfaceOp e = Some (JStr ''append'')"
  by (auto simp: surfaceOpOf_def split: if_splits option.splits json.splits)

lemma surfaceOpOf_replace:
  assumes "surfaceOpOf e = Inr (Some (OpReplace s t))"
  shows "surfaceOp e \<noteq> Some (JStr ''append'')
    \<and> Option.bind (surfaceOp e) (jprop ''start'') = Some (JNum (of_nat s))
    \<and> Option.bind (surfaceOp e) (jprop ''end'') = Some (JNum (of_nat t))"
  using assms
  by (auto simp: surfaceOpOf_def replaceOpOf_def dest!: eventSeqOf_SomeD
      split: if_splits option.splits json.splits)

lemma priced_snoc:
  assumes "seq e = length lg"
  shows "priced stringify (lg @ [e]) [length lg] =
    [\<lparr>tn_seq = seq e, tn_tokens = (case deriveEventMessage (ev_data e) of None \<Rightarrow> 0
       | Some m \<Rightarrow> estimateMessage stringify m)\<rparr>]"
  using assms by (simp add: priced_def priceOf_def)

lemma nodeTokens_range:
  assumes "i \<le> j" "j < length ns"
  shows "nodeTokens (splice_list ns i (j + 1 - i) xs)
    = nodeTokens ns - nodeTokens (take (j + 1 - i) (drop i ns)) + nodeTokens xs"
proof -
  have "ns = take i ns @ take (j + 1 - i) (drop i ns) @ drop (i + (j + 1 - i)) ns"
    using splice_decompose [of i "j + 1 - i" ns] assms by (simp add: spliced_out_def)
  then have "nodeTokens ns = nodeTokens (take i ns) + nodeTokens (take (j + 1 - i) (drop i ns))
      + nodeTokens (drop (i + (j + 1 - i)) ns)"
    by (metis nodeTokens_append add.assoc)
  then show ?thesis by (simp add: splice_list_def)
qed

text \<open>One accepted surface event: the priced surface takes the same step as the surface.\<close>

lemma foldSurfaceTokens_step:
  assumes st: "surfaceLog lg = Inr st" and st': "surfaceLog (lg @ [e]) = Inr st'"
    and surf: "isSurfaceEvent e"
  shows "\<exists>f. foldSurfaceTokens stringify (priced stringify lg (nodes st)) e = Inr f
    \<and> tf_nodes f = priced stringify (lg @ [e]) (nodes st')
    \<and> tf_delta f = nodeTokens (tf_nodes f) - nodeTokens (priced stringify lg (nodes st))"
proof -
  obtain plan where plan: "planSurfaceEvent st e (length lg) lg 0 = Inr plan"
    and p: "st' = fst (applySurfacePlan st plan)"
    using surfaceLog_plan [OF st'] st by (metis Inr_inject)
  have below: "\<forall>s \<in> set (nodes st). s < length lg" using surfaceInv_below [OF surfaceLog_inv [OF st]] .
  have n: "seq e = length lg" using plan by (cases rule: planSurfaceEvent_cases) auto
  note new = priced_snoc [OF n, of stringify]
  show ?thesis using plan
  proof (cases rule: planSurfaceEvent_cases)
    case skip
    then show ?thesis using surf by (simp add: isSurfaceEvent_def)
  next
    case append
    then have "st' = st\<lparr>nodes := nodes st @ [length lg]\<rparr>" by (simp add: p)
    then show ?thesis
      using surfaceOpOf_append [OF append(4)] new priced_local [OF below, of stringify "[e]"]
      by (simp add: foldSurfaceTokens_def Let_def) (simp add: nodeTokens_def)
  next
    case (replace s t i j shadowed)
    note r = replacementRange_InrD [OF replace(4)]
    have "indexOf (nodes st) s = Some i" "indexOf (nodes st) t = Some j"
      using replace(4) by (auto simp: replacementRange_def split: option.splits if_splits)
    then have f: "findNode (priced stringify lg (nodes st)) (Some (JNum (of_nat s))) = Some i"
      "findNode (priced stringify lg (nodes st)) (Some (JNum (of_nat t))) = Some j"
      by (simp_all add: findNode_priced)
    have "nodes st' = splice_list (nodes st) i (j + 1 - i) [length lg]"
      using replace(7) by (simp add: p)
    then have "priced stringify (lg @ [e]) (nodes st')
        = splice_list (priced stringify lg (nodes st)) i (j + 1 - i) (priced stringify (lg @ [e]) [length lg])"
      using priced_local [OF below, of stringify "[e]"] by (simp add: priced_splice)
    then show ?thesis
      using surfaceOpOf_replace [OF replace(3)] f r(1,2) new
        nodeTokens_range [of i j "priced stringify lg (nodes st)"]
      by (simp add: foldSurfaceTokens_def Let_def) (simp add: nodeTokens_def)
  qed
qed

lemma surfaceLog_silent:
  assumes "surfaceLog lg = Inr st" and "surfaceLog (lg @ [e]) = Inr st'" and "\<not> isSurfaceEvent e"
  shows "st' = st"
  using assms(2)
proof (rule surfaceLog_plan)
  fix s0 plan
  assume s0: "surfaceLog lg = Inr s0" and plan: "planSurfaceEvent s0 e (length lg) lg 0 = Inr plan"
    and st': "st' = fst (applySurfacePlan s0 plan)"
  from plan assms(3) have "plan = None" by (cases rule: planSurfaceEvent_cases) auto
  with s0 st' assms(1) show "st' = st" by simp
qed

lemma foldMeterEvent_inv:
  assumes st: "surfaceLog lg = Inr fs" and st': "surfaceLog (lg @ [e]) = Inr fs'"
    and m: "mt_surface st = priced stringify lg (nodes fs)" "mt_surfaceTokens st = nodeTokens (mt_surface st)"
    and f: "foldMeterEvent stringify events st e = Inr st'"
  shows "mt_surface st' = priced stringify (lg @ [e]) (nodes fs')"
    and "mt_surfaceTokens st' = nodeTokens (mt_surface st')" and "mt_consumed st' = mt_consumed st"
    and "mt_header st = foldRequestHeader lg None \<Longrightarrow> mt_header st' = foldRequestHeader (lg @ [e]) None"
    and "pred_option (anchorOK stringify) (mt_anchor st) \<Longrightarrow> pred_option (anchorOK stringify) (mt_anchor st')"
proof -
  show "mt_header st' = foldRequestHeader (lg @ [e]) None" if "mt_header st = foldRequestHeader lg None"
    using f that by (cases "ev_data e") (auto simp: foldMeterEvent_def foldRequestHeader_append Let_def result_simps)
  show "pred_option (anchorOK stringify) (mt_anchor st')" if "pred_option (anchorOK stringify) (mt_anchor st)"
    using f that nextAnchor_ok by (auto simp: foldMeterEvent_def Let_def result_simps)
  show "mt_surface st' = priced stringify (lg @ [e]) (nodes fs')"
    and "mt_surfaceTokens st' = nodeTokens (mt_surface st')" and "mt_consumed st' = mt_consumed st"
  proof (atomize (full), cases "isSurfaceEvent e")
    case True
    obtain t where t: "foldSurfaceTokens stringify (priced stringify lg (nodes fs)) e = Inr t"
        "tf_nodes t = priced stringify (lg @ [e]) (nodes fs')"
        "tf_delta t = nodeTokens (tf_nodes t) - nodeTokens (priced stringify lg (nodes fs))"
      using foldSurfaceTokens_step [OF st st' True] by blast
    then show "mt_surface st' = priced stringify (lg @ [e]) (nodes fs')
        \<and> mt_surfaceTokens st' = nodeTokens (mt_surface st') \<and> mt_consumed st' = mt_consumed st"
      using f True m by (auto simp: foldMeterEvent_def Let_def result_simps)
  next
    case False
    have "priced stringify (lg @ [e]) (nodes fs') = priced stringify lg (nodes fs)"
      using surfaceLog_silent [OF st st' False] surfaceInv_below [OF surfaceLog_inv [OF st]]
      by (simp add: priced_local)
    then show "mt_surface st' = priced stringify (lg @ [e]) (nodes fs')
        \<and> mt_surfaceTokens st' = nodeTokens (mt_surface st') \<and> mt_consumed st' = mt_consumed st"
      using f False m by (auto simp: foldMeterEvent_def Let_def result_simps)
  qed
qed

lemma meterInv_new: "meterInv stringify lg newMeter"
  by (simp add: meterInv_def newMeter_def createFoldState_def priced_def nodeTokens_def)

lemma meterInv_grow: "meterInv stringify lg st \<Longrightarrow> meterInv stringify (lg @ rest) st"
  by (auto simp: meterInv_def)

lemma meterLoop_inv:
  assumes "surfaceLog (take n lg @ es) = Inr fs1" and "lg = take n lg @ es" and "mt_consumed st = n"
    and "n \<le> length lg" and "meterInv stringify lg st"
  shows "meterInv stringify lg (fst (meterLoop stringify lg st es))
    \<and> (snd (meterLoop stringify lg st es) = None
        \<longrightarrow> mt_consumed (fst (meterLoop stringify lg st es)) = length lg)"
  using assms
proof (induction es arbitrary: n st)
  case Nil
  then have "n = length lg" by (metis append_Nil2 length_take min.absorb2)
  with Nil show ?case by simp
next
  case (Cons e es)
  have lg: "lg = (take n lg @ [e]) @ es" using Cons.prems(2) by simp
  have len: "n < length lg" using Cons.prems(2,4) by (metis append_Nil2 le_neq_implies_less list.distinct(1) same_append_eq take_all_iff order_refl)
  have tk: "take (Suc n) lg = take n lg @ [e]"
    using Cons.prems(2) len by (metis append_eq_conv_conj length_Cons length_append_singleton lg length_take min.absorb4)
  obtain fs where fs: "surfaceLog (take n lg) = Inr fs" "mt_surface st = priced stringify (take n lg) (nodes fs)"
      "mt_surfaceTokens st = nodeTokens (mt_surface st)" "mt_header st = foldRequestHeader (take n lg) None"
      "pred_option (anchorOK stringify) (mt_anchor st)"
    using Cons.prems(3,5) by (auto simp: meterInv_def)
  obtain fs' where fs': "surfaceLog (take n lg @ [e]) = Inr fs'"
    using surfaceLog_prefix [of "take n lg @ [e]" es fs1] Cons.prems(1) by auto
  show ?case
  proof (cases "foldMeterEvent stringify lg st e")
    case (Inl err)
    then show ?thesis using Cons.prems(5) by simp
  next
    case (Inr st')
    note s = foldMeterEvent_inv(1,2,3) [OF fs(1) fs' fs(2,3) Inr]
      foldMeterEvent_inv(4,5) [OF fs(1) fs' fs(2,3) Inr]
    let ?st = "st'\<lparr>mt_consumed := Suc (mt_consumed st')\<rparr>"
    have c: "mt_consumed ?st = Suc n" using s(3) Cons.prems(3) by simp
    have "meterInv stringify lg ?st"
      using s fs(4,5) fs' len c by (simp add: meterInv_def tk)
    then have "meterInv stringify lg (fst (meterLoop stringify lg ?st es))
        \<and> (snd (meterLoop stringify lg ?st es) = None
            \<longrightarrow> mt_consumed (fst (meterLoop stringify lg ?st es)) = length lg)"
      using Cons.IH [of "Suc n" ?st] Cons.prems(1) c len lg unfolding tk by simp
    then show ?thesis using Inr by simp
  qed
qed

lemma measureSession_inv:
  assumes st: "surfaceLog lg = Inr fs" and inv: "meterInv stringify lg mt"
  shows "meterInv stringify lg (fst (measureSession stringify lg mt requested))"
    and "snd (measureSession stringify lg mt requested) = Inr m
      \<Longrightarrow> ms_nodes m = priced stringify lg (nodes fs) \<and> ms_surfaceTokens m = nodeTokens (ms_nodes m)
        \<and> ms_logRevision m = length lg"
proof -
  let ?n = "mt_consumed mt"
  have n: "?n \<le> length lg" using inv by (simp add: meterInv_def)
  obtain mt' q where s: "syncMeter stringify lg mt = (mt', q)" by fastforce
  have l: "meterInv stringify lg mt' \<and> (q = None \<longrightarrow> mt_consumed mt' = length lg)"
    using meterLoop_inv [of ?n lg "drop ?n lg" fs mt stringify] st inv n s by (simp add: syncMeter_def)
  show "meterInv stringify lg (fst (measureSession stringify lg mt requested))"
    using l s by (cases q) (simp_all add: measureSession_def)
  show "ms_nodes m = priced stringify lg (nodes fs) \<and> ms_surfaceTokens m = nodeTokens (ms_nodes m)
      \<and> ms_logRevision m = length lg"
    if "snd (measureSession stringify lg mt requested) = Inr m"
  proof -
    have q: "q = None" and m: "m = measure_with stringify mt' requested"
      using that s by (cases q; simp add: measureSession_def)+
    have "ms_nodes m = mt_surface mt' \<and> ms_surfaceTokens m = mt_surfaceTokens mt'
        \<and> ms_logRevision m = mt_consumed mt'"
      unfolding m measure_with_def by (simp add: Let_def split: prod.split)
    then show ?thesis using l q st by (auto simp: meterInv_def)
  qed
qed

lemma estimateHeader_cong:
  assumes "optionalHeaderEquals a b"
  shows "estimateHeader stringify a = estimateHeader stringify b"
proof (cases a; cases b)
  fix x y assume ab: "a = Some x" "b = Some y"
  have lists: "length xs = length ys \<and> list_all (\<lambda>i. sameSchema (xs ! i) (ys ! i)) [0..<length xs]
      \<longleftrightarrow> xs = ys" for xs ys
    unfolding sameSchema_def by (rule nth_all_eq)
  have "eh_system x = eh_system y"
    and t: "(case eh_tools x of None \<Rightarrow> [] | Some ts \<Rightarrow> ts) = (case eh_tools y of None \<Rightarrow> [] | Some ts \<Rightarrow> ts)"
    using assms ab unfolding optionalHeaderEquals_def headerEquals_def Let_def lists
    by (auto split: if_splits)
  moreover have "estimateToolsTokens stringify (Some x) = estimateToolsTokens stringify (Some y)"
    using t by (auto simp: estimateToolsTokens_def split: option.splits)
  ultimately show ?thesis using ab by (simp add: estimateHeader_def estimateSystemTokens_def)
qed (use assms in \<open>auto simp: optionalHeaderEquals_def\<close>)

text \<open>The envelope a measurement is for: the one asked for, or the latest of the log.\<close>

definition measuredHeader :: "event list \<Rightarrow> epoch_header option \<Rightarrow> epoch_header option" where
  "measuredHeader lg requested =
     (case requested of None \<Rightarrow> foldRequestHeader lg None | Some h \<Rightarrow> Some (canonicalHeader h))"

lemma measure_with_covers:
  assumes "pred_option (anchorOK stringify) (mt_anchor mt)"
    and "header = (case requested of None \<Rightarrow> mt_header mt | Some h \<Rightarrow> Some (canonicalHeader h))"
  shows "estimateHeader stringify header + mt_surfaceTokens mt \<le> ms_totalTokens (measure_with stringify mt requested)"
proof -
  have none: "estimateHeader stringify None = 0"
    by (simp add: estimateHeader_def estimateSystemTokens_def estimateToolsTokens_def)
  have "estimateHeader stringify header + mt_surfaceTokens mt
      \<le> baselineTokens (an_baseline a) + (mt_surfaceTokens mt - an_surfaceTokens a)"
    if "mt_anchor mt = Some a" "optionalHeaderEquals (an_header a) header" for a
    using that assms(1) estimateHeader_cong [OF that(2), of stringify] by (simp add: anchorOK_def)
  then show ?thesis
    using none unfolding measure_with_def assms(2) [symmetric]
    by (auto simp: Let_def split: option.split)
qed

text \<open>
  Every meter a session can have: it is new, the log grows by accepted events, it measures.
\<close>

inductive metered :: "(json \<Rightarrow> string) \<Rightarrow> event list \<Rightarrow> meter_state \<Rightarrow> bool" for stringify where
  fresh_meter: "metered stringify [] newMeter"
| log_grows: "metered stringify lg mt \<Longrightarrow> surfaceLog (lg @ [e]) = Inr fs \<Longrightarrow> metered stringify (lg @ [e]) mt"
| measured: "metered stringify lg mt \<Longrightarrow> surfaceLog lg = Inr fs
    \<Longrightarrow> metered stringify lg (fst (measureSession stringify lg mt requested))"

lemma metered_inv: "metered stringify lg mt \<Longrightarrow> meterInv stringify lg mt"
  by (induction rule: metered.induct) (simp_all add: meterInv_new meterInv_grow measureSession_inv(1))

text \<open>
  Result: what the meter measures is the current surface. However its replay was interleaved with
  the growth of the log, a measurement lists exactly the current nodes in their order, each with
  the price of its message, its total is their sum, and it is as recent as the log.
\<close>

theorem measured_surface_is_current:
  assumes "metered stringify lg mt" and "surfaceLog lg = Inr fs"
    and "snd (measureSession stringify lg mt requested) = Inr m"
  shows "ms_nodes m = priced stringify lg (nodes fs) \<and> ms_surfaceTokens m = nodeTokens (ms_nodes m)
    \<and> ms_logRevision m = length lg"
  using measureSession_inv(2) [OF assms(2) metered_inv [OF assms(1)] assms(3)] .

text \<open>
  Claim C24: the measured pressure is conservative. Whether it starts from the usage a provider
  reported or from an estimate, it is never below the heuristic price of the request envelope and
  the current surface together.
\<close>

theorem pressure_is_conservative:
  assumes "metered stringify lg mt" and "surfaceLog lg = Inr fs"
    and "snd (measureSession stringify lg mt requested) = Inr m"
  shows "estimateHeader stringify (measuredHeader lg requested) + nodeTokens (priced stringify lg (nodes fs))
    \<le> ms_totalTokens m"
proof -
  obtain mt' q where s: "syncMeter stringify lg mt = (mt', q)" by fastforce
  have q: "q = None" and m: "m = measure_with stringify mt' requested"
    using assms(3) s by (cases q; simp add: measureSession_def)+
  have "meterInv stringify lg mt'"
    using measureSession_inv(1) [OF assms(2) metered_inv [OF assms(1)], of requested] s q
    by (simp add: measureSession_def)
  moreover have "ms_logRevision m = mt_consumed mt'" "ms_surfaceTokens m = mt_surfaceTokens mt'"
    unfolding m measure_with_def by (simp_all add: Let_def split: prod.split)
  moreover note measureSession_inv(2) [OF assms(2) metered_inv [OF assms(1)] assms(3)]
  ultimately have "pred_option (anchorOK stringify) (mt_anchor mt')"
      "mt_header mt' = foldRequestHeader lg None"
      "mt_surfaceTokens mt' = nodeTokens (priced stringify lg (nodes fs))"
    by (simp_all add: meterInv_def)
  moreover from this have
      "measuredHeader lg requested = (case requested of None \<Rightarrow> mt_header mt' | Some h \<Rightarrow> Some (canonicalHeader h))"
    by (cases requested) (simp_all add: measuredHeader_def)
  ultimately show ?thesis
    using measure_with_covers [of stringify mt' "measuredHeader lg requested" requested] by (simp add: m)
qed

theorem pressure_is_conservative_witness:
  "\<exists>m. snd (measureSession (\<lambda>_. '''') [sample_user 0] newMeter None) = Inr m \<and> 9 \<le> ms_totalTokens m"
proof -
  let ?lg = "[sample_user 0]"
  define fs where "fs = \<lparr>nodes = [0], replaceGeneration = 0\<rparr>"
  have st: "surfaceLog ?lg = Inr fs" unfolding fs_def by code_simp
  have "metered (\<lambda>_. '''') ([] @ ?lg) newMeter"
    by (rule metered.log_grows [OF metered.fresh_meter]) (use st in simp)
  then have w: "metered (\<lambda>_. '''') ?lg newMeter" by simp
  have "\<not> isl (snd (measureSession (\<lambda>_. '''') ?lg newMeter None))" by code_simp
  then obtain m where m: "snd (measureSession (\<lambda>_. '''') ?lg newMeter None) = Inr m"
    by (cases "snd (measureSession (\<lambda>_. '''') ?lg newMeter None)") simp_all
  have "estimateHeader (\<lambda>_. '''') (measuredHeader ?lg None) + nodeTokens (priced (\<lambda>_. '''') ?lg (nodes fs)) = 9"
    unfolding fs_def by code_simp
  with pressure_is_conservative [OF w st m] m show ?thesis by auto
qed

end
