(* ===== verification/Compaction.thy ===== *)
theory Compaction
  imports Component_Append Tool_Pairing Token_Meter
begin

text \<open>
  The compaction transaction, \<^verbatim>\<open>packages/compaction/compaction-basic/src/region.ts\<close>: which range
  of the surface is compacted, and the durable bracket of events that replaces it by a summary.
  The world is the session with the two caches kept for it, the one of the tool pairing and the
  one of the token meter. What happens while the summarizer is awaited is a list of appends by
  other code; \<^verbatim>\<open>Date.now()\<close>, the vetoes of the dispatched appends, the identities and the state
  of the abort signal at its checks are arguments.
\<close>

section \<open>State\<close>

record region_world =
  rw_session :: session
  rw_balance :: "balance_cache option"
  rw_meter :: meter_state

datatype manual_code = ChangedCode | SummaryCode | CommitCode | PersistenceCode

datatype region_error =
    RegionSurface surface_error
  | RegionPairing pairing_error
  | RegionMeter meter_error
  | MeterMismatch
  | StartNotOnSurface nat
  | EndNotOnSurface nat
  | RangeReversed nat nat
  | StartUnbalanced nat
  | EndUnbalanced nat
  | CompactionBusy
  | SessionBusy
  | NoOpenTurn
  | SurfaceChanged string
  | SummaryFailed string
  | SummaryNotSmaller int int
  | RegionAppend append_error
  | RegionAborted
  | FlushFailed
  | ManualFailed manual_code region_error

record surface_selection =
  sel_start :: nat
  sel_end :: nat
  sel_startIdx :: nat
  sel_endIdx :: nat
  sel_shadowed :: "nat list"

record summarization_input =
  si_system :: "string option"
  si_tools :: "json list option"
  si_messages :: "message list"

record summary_result =
  sr_summary :: "content_block list"
  sr_provider :: string
  sr_model :: string
  sr_maxTokens :: "rat option"
  sr_usage :: "token_usage option"
  sr_rawOutput :: "content_block list option"
  sr_llmStreamCall :: bool

record prepared_compaction =
  pc_selection :: surface_selection
  pc_nodes :: "token_node list"
  pc_selected :: "token_node list"
  pc_shadowedTokens :: int
  pc_input :: summarization_input

record compaction_result =
  cr_compactionId :: string
  cr_sourceCommandId :: "string option"
  cr_startSeq :: nat
  cr_summarySeq :: nat
  cr_endSeq :: nat
  cr_summary :: "content_block list"
  cr_start :: nat
  cr_end :: nat
  cr_shadowedSeqs :: "nat list"
  cr_shadowedTokens :: int

record region_options =
  ro_manual :: bool
  ro_selectedSpan :: bool
  ro_sourceCommandId :: "string option"

text \<open>
  What the run-time supplies: times and vetoes of the appends (start, summary, checkpoint, end,
  end after a failure), the appends of other code during the summary, the outcome of the
  summarizer hook, the abort signal at its three checks, the outcome of the flush when there is
  one, and the text of an error.
\<close>

record region_env =
  re_stringify :: "json \<Rightarrow> string"
  re_now :: "nat \<Rightarrow> int"
  re_veto :: "nat \<Rightarrow> bool"
  re_compactionId :: string
  re_messageId :: string
  re_during :: "(event_data \<times> json option \<times> json option \<times> int) list"
  re_summarize :: "summarization_input \<Rightarrow> string + summary_result"
  re_abortedStart :: bool
  re_abortedSummary :: bool
  re_abortedEnd :: bool
  re_flush :: "bool option"
  re_describe :: "region_error \<Rightarrow> string"

section \<open>Reads\<close>

definition logOf :: "region_world \<Rightarrow> event list" where
  "logOf w = s_log (rw_session w)"

text \<open>\<^verbatim>\<open>session.surface.nodes\<close> and \<^verbatim>\<open>session.surface.replaceGeneration\<close>\<close>

definition readSurface :: "region_world \<Rightarrow> region_world \<times> (region_error + (nat list \<times> nat))" where
  "readSurface w =
     (case managerNodes (logOf w) (s_manager (rw_session w)) of
        (m, Inl err) \<Rightarrow> (w\<lparr>rw_session := (rw_session w)\<lparr>s_manager := m\<rparr>\<rparr>, Inl (RegionSurface err))
      | (m, Inr ns) \<Rightarrow>
          (case managerGeneration (logOf w) m of
             (m', Inl err) \<Rightarrow>
               (w\<lparr>rw_session := (rw_session w)\<lparr>s_manager := m'\<rparr>\<rparr>, Inl (RegionSurface err))
           | (m', Inr g) \<Rightarrow> (w\<lparr>rw_session := (rw_session w)\<lparr>s_manager := m'\<rparr>\<rparr>, Inr (ns, g))))"

definition balancedBefore :: "region_world \<Rightarrow> nat \<Rightarrow> region_world \<times> (region_error + bool)" where
  "balancedBefore w s =
     thenR (readSurface w) (\<lambda>w (ns, g).
       case toolPairingBalancedBefore (logOf w) ns g (rw_balance w) s of
         (c, r) \<Rightarrow> (w\<lparr>rw_balance := c\<rparr>, mapErr RegionPairing r))"

definition balancedAfter :: "region_world \<Rightarrow> nat \<Rightarrow> region_world \<times> (region_error + bool)" where
  "balancedAfter w s =
     thenR (readSurface w) (\<lambda>w (ns, g).
       case toolPairingBalancedAfter (logOf w) ns g (rw_balance w) s of
         (c, r) \<Rightarrow> (w\<lparr>rw_balance := c\<rparr>, mapErr RegionPairing r))"

definition measureWorld :: "region_env \<Rightarrow> region_world \<Rightarrow> region_world \<times> (region_error + measurement)" where
  "measureWorld env w =
     (case measureSession (re_stringify env) (logOf w) (rw_meter w) None of
        (mt, r) \<Rightarrow> (w\<lparr>rw_meter := mt\<rparr>, mapErr RegionMeter r))"

section \<open>Selection\<close>

text \<open>
  The backward loop over the priced nodes: \<open>k\<close> nodes are not yet visited, the visited tail
  costs \<open>acc\<close>. The result is the position the tail starts at.
\<close>

fun keepFrom :: "token_node list \<Rightarrow> int \<Rightarrow> int \<Rightarrow> nat \<Rightarrow> nat" where
  "keepFrom ns retain acc 0 = 0"
| "keepFrom ns retain acc (Suc k) =
     (let acc' = acc + tn_tokens (ns ! k) in if retain \<le> acc' then k else keepFrom ns retain acc' k)"

text \<open>The walk to the nearest balanced cut at or before a position.\<close>

fun walkBack :: "region_world \<Rightarrow> nat list \<Rightarrow> nat \<Rightarrow> region_world \<times> (region_error + nat)" where
  "walkBack w ns 0 = (w, Inr 0)"
| "walkBack w ns (Suc k) =
     thenR (balancedBefore w (ns ! Suc k)) (\<lambda>w b. if b then (w, Inr (Suc k)) else walkBack w ns k)"

definition selectCompactableRange ::
  "region_world \<Rightarrow> measurement \<Rightarrow> int \<Rightarrow> region_world \<times> (region_error + (nat \<times> nat) option)" where
  "selectCompactableRange w m retain =
     (if ms_nodes m = [] then (w, Inr None)
      else
        thenR (readSurface w) (\<lambda>w (ns, _).
          if ns \<noteq> map tn_seq (ms_nodes m) then (w, Inl MeterMismatch)
          else
            (let keep = keepFrom (ms_nodes m) retain 0 (length (ms_nodes m))
             in if keep = 0 then (w, Inr None)
                else thenR (walkBack w ns keep) (\<lambda>w k.
                  if k = 0 then (w, Inr None) else (w, Inr (Some (ns ! 0, ns ! (k - 1))))))))"

definition validateSurfaceRegion ::
  "region_world \<Rightarrow> nat \<Rightarrow> nat \<Rightarrow> region_world \<times> (region_error + surface_selection)" where
  "validateSurfaceRegion w s t =
     thenR (readSurface w) (\<lambda>w (ns, _).
       case indexOf ns s of
         None \<Rightarrow> (w, Inl (StartNotOnSurface s))
       | Some i \<Rightarrow>
           (case indexOf ns t of
              None \<Rightarrow> (w, Inl (EndNotOnSurface t))
            | Some j \<Rightarrow>
                if i > j then (w, Inl (RangeReversed s t))
                else
                  thenR (balancedBefore w (ns ! i)) (\<lambda>w b.
                    if \<not> b then (w, Inl (StartUnbalanced s))
                    else
                      thenR (balancedAfter w (ns ! j)) (\<lambda>w b.
                        if \<not> b then (w, Inl (EndUnbalanced t))
                        else (w, Inr \<lparr>sel_start = s, sel_end = t, sel_startIdx = i, sel_endIdx = j,
                                      sel_shadowed = take (j + 1 - i) (drop i ns)\<rparr>)))))"

section \<open>The entry state of the log\<close>

record entry_state =
  es_openTurn :: "int option"
  es_turnKnown :: bool
  es_start :: "event option"
  es_startKnown :: bool
  es_endSeed :: "nat option"

text \<open>The loop of \<^verbatim>\<open>inspectCompactionEntryState\<close>, over the log from its end.\<close>

fun entryLoop :: "entry_state \<Rightarrow> event list \<Rightarrow> entry_state" where
  "entryLoop st [] = st"
| "entryLoop st (e # es) =
     (let st1 = (if es_endSeed st = None \<and> ev_data e = EndSeed
                 then st\<lparr>es_endSeed := Some (seq e)\<rparr> else st);
          st2 = (if es_startKnown st1 then st1
                 else case ev_data e of
                   CompactionStart _ \<Rightarrow> st1\<lparr>es_start := Some e, es_startKnown := True\<rparr>
                 | CompactionEnd _ _ \<Rightarrow> st1\<lparr>es_startKnown := True\<rparr>
                 | _ \<Rightarrow> st1);
          st3 = (if es_turnKnown st2 then st2
                 else case ev_data e of
                   TurnStart t \<Rightarrow> st2\<lparr>es_openTurn := Some t, es_turnKnown := True\<rparr>
                 | TurnEnd _ _ \<Rightarrow> st2\<lparr>es_turnKnown := True\<rparr>
                 | _ \<Rightarrow> st2)
      in if es_turnKnown st3 \<and> es_startKnown st3 \<and> es_endSeed st3 \<noteq> None then st3
         else entryLoop st3 es)"

definition inspectCompactionEntryState :: "event list \<Rightarrow> entry_state" where
  "inspectCompactionEntryState events =
     entryLoop
       \<lparr>es_openTurn = None, es_turnKnown = False, es_start = None, es_startKnown = False,
        es_endSeed = None\<rparr>
       (rev events)"

definition assertCompactionInactive :: "event option \<Rightarrow> nat option \<Rightarrow> region_error + unit" where
  "assertCompactionInactive start endSeed =
     (case start of
        None \<Rightarrow> Inr ()
      | Some e \<Rightarrow>
          (case endSeed of
             Some n \<Rightarrow> if seq e < n then Inr () else Inl CompactionBusy
           | None \<Rightarrow> Inl CompactionBusy))"

definition assertNoActiveCompaction :: "event list \<Rightarrow> region_error + unit" where
  "assertNoActiveCompaction events =
     (let st = inspectCompactionEntryState events in assertCompactionInactive (es_start st) (es_endSeed st))"

section \<open>The transaction\<close>

text \<open>\<^verbatim>\<open>buildSummarizationInput\<close>\<close>

definition buildSummarizationInput ::
  "region_world \<Rightarrow> nat list \<Rightarrow> region_world \<times> summarization_input" where
  "buildSummarizationInput w shadowed =
     (case requestHeader (rw_session w) of
        (S, header) \<Rightarrow>
          (w\<lparr>rw_session := S\<rparr>,
           \<lparr>si_system = Option.bind header eh_system, si_tools = Option.bind header eh_tools,
            si_messages =
              List.map_filter (\<lambda>s. Option.bind (eventAt (s_log S) 0 s) (\<lambda>e. deriveEventMessage (ev_data e)))
                shadowed\<rparr>))"

definition prepareCompaction ::
  "region_env \<Rightarrow> region_world \<Rightarrow> surface_selection \<Rightarrow> region_world \<times> (region_error + prepared_compaction)"
where
  "prepareCompaction env w sel =
     thenR (measureWorld env w) (\<lambda>w m.
       let selected = take (sel_endIdx sel + 1 - sel_startIdx sel) (drop (sel_startIdx sel) (ms_nodes m))
       in if map tn_seq selected \<noteq> sel_shadowed sel
          then (w, Inl (SurfaceChanged ''selected surface changed before summarization began''))
          else
            (case buildSummarizationInput w (sel_shadowed sel) of
               (w', input) \<Rightarrow>
                 (w', Inr \<lparr>pc_selection = sel, pc_nodes = ms_nodes m, pc_selected = selected,
                           pc_shadowedTokens = nodeTokens selected, pc_input = input\<rparr>)))"

definition newline :: string where
  "newline = [CHR 0x0A]"

definition frameSummary :: "content_block list \<Rightarrow> content_block list" where
  "frameSummary summary =
     TextBlock
       (''This is an automatically generated checkpoint condensing an earlier span of the conversation to free up context. Treat the captured context as established background and build on it without restating it. Continue the task directly from the messages that follow, without acknowledging this checkpoint.''
        @ newline @ newline @ ''<compacted-summary>'')
     # summary @ [TextBlock ''</compacted-summary>'']"

definition compactCheckpointSource :: "string \<Rightarrow> string option \<Rightarrow> message_source" where
  "compactCheckpointSource compactionId sourceCommandId =
     PluginSource ''compact''
       (JObj ((''compactionId'', JStr compactionId)
          # (case sourceCommandId of None \<Rightarrow> [] | Some c \<Rightarrow> [(''sourceCommandId'', JStr c)])))"

definition checkpointMessage :: "region_env \<Rightarrow> string option \<Rightarrow> summary_result \<Rightarrow> message" where
  "checkpointMessage env sourceCommandId r =
     \<lparr>msg_id = re_messageId env, msg_role = User, msg_content = frameSummary (sr_summary r),
      msg_source = compactCheckpointSource (re_compactionId env) sourceCommandId\<rparr>"

text \<open>What other code appends while the summary is awaited; an append that throws throws there.\<close>

definition otherAppend ::
  "region_world \<Rightarrow> event_data \<times> json option \<times> json option \<times> int \<Rightarrow> region_world" where
  "otherAppend w x =
     (case x of (d, op, sources, now) \<Rightarrow>
        w\<lparr>rw_session := fst (appendWith (rw_session w) now False (Some d) (Some (op, sources)))\<rparr>)"

definition summarizeCompaction ::
  "region_env \<Rightarrow> region_world \<Rightarrow> prepared_compaction \<Rightarrow> string option
    \<Rightarrow> region_world \<times> (region_error + (summary_result \<times> message))" where
  "summarizeCompaction env w prepared sourceCommandId =
     (let w' = foldl otherAppend w (re_during env)
      in case re_summarize env (pc_input prepared) of
           Inl err \<Rightarrow> (w', Inl (SummaryFailed err))
         | Inr r \<Rightarrow>
             (let message = checkpointMessage env sourceCommandId r;
                  framed = estimateMessage (re_stringify env) message
              in if pc_shadowedTokens prepared \<le> framed
                 then (w', Inl (SummaryNotSmaller framed (pc_shadowedTokens prepared)))
                 else (w', Inr (r, message))))"

definition assertWholeSurfaceUnchanged ::
  "region_env \<Rightarrow> region_world \<Rightarrow> prepared_compaction \<Rightarrow> region_world \<times> (region_error + unit)" where
  "assertWholeSurfaceUnchanged env w prepared =
     thenR (measureWorld env w) (\<lambda>w m.
       if ms_nodes m \<noteq> pc_nodes prepared
       then (w, Inl (SurfaceChanged ''session surface changed during summarization'')) else (w, Inr ()))"

text \<open>Every error of the revalidation is wrapped; the ones of the measurement are not.\<close>

definition assertSelectedSpanStable ::
  "region_env \<Rightarrow> region_world \<Rightarrow> prepared_compaction \<Rightarrow> region_world \<times> (region_error + unit)" where
  "assertSelectedSpanStable env w prepared =
     (case validateSurfaceRegion w (sel_start (pc_selection prepared)) (sel_end (pc_selection prepared)) of
        (w1, Inl _) \<Rightarrow> (w1, Inl (SurfaceChanged ''the selected span is no longer a valid replacement target''))
      | (w1, Inr current) \<Rightarrow>
          if sel_shadowed current \<noteq> sel_shadowed (pc_selection prepared)
          then (w1, Inl (SurfaceChanged ''the selected span changed during summarization''))
          else
            thenR (measureWorld env w1) (\<lambda>w2 m.
              if take (sel_endIdx current + 1 - sel_startIdx current)
                   (drop (sel_startIdx current) (ms_nodes m)) \<noteq> pc_selected prepared
              then (w2, Inl (SurfaceChanged ''the selected span was rewritten during summarization''))
              else (w2, Inr ())))"

text \<open>\<^verbatim>\<open>session.append\<close> by the transaction; the index names the append for its time and veto.\<close>

definition regionAppend ::
  "region_env \<Rightarrow> nat \<Rightarrow> event_data \<Rightarrow> json option \<times> json option \<Rightarrow> region_world
    \<Rightarrow> region_world \<times> (region_error + event)" where
  "regionAppend env k d meta w =
     (case appendWith (rw_session w) (re_now env k) (re_veto env k) (Some d) (Some meta) of
        (S, r) \<Rightarrow> (w\<lparr>rw_session := S\<rparr>, mapErr RegionAppend r))"

definition replaceJson :: "nat \<Rightarrow> nat \<Rightarrow> json" where
  "replaceJson s t =
     JObj [(''op'', JStr ''replace''), (''start'', JNum (of_nat s)), (''end'', JNum (of_nat t))]"

definition seqsJson :: "nat list \<Rightarrow> json" where
  "seqsJson ss = JArr (map (\<lambda>s. JNum (of_nat s)) ss)"

definition summaryPayload ::
  "compaction_bracket \<Rightarrow> surface_selection \<Rightarrow> int \<Rightarrow> summary_result \<Rightarrow> compaction_summary" where
  "summaryPayload bracket sel tokens r =
     \<lparr>cs_bracket_id = cb_compactionId bracket, cs_sourceCommandId = cb_sourceCommandId bracket,
      cs_summary = sr_summary r, cs_start = sel_start sel, cs_end = sel_end sel,
      cs_shadowedSeqs = sel_shadowed sel, cs_shadowedTokenCount = tokens,
      cs_rawOutput = sr_rawOutput r, cs_llmStreamCall = sr_llmStreamCall r,
      cs_provider = sr_provider r, cs_model = sr_model r, cs_maxTokens = sr_maxTokens r,
      cs_usage = sr_usage r\<rparr>"

text \<open>The result without its \<^verbatim>\<open>endSeq\<close> is a function of the end.\<close>

definition commitCompactionBody ::
  "region_env \<Rightarrow> region_world \<Rightarrow> event \<Rightarrow> compaction_bracket \<Rightarrow> prepared_compaction
    \<Rightarrow> summary_result \<times> message \<Rightarrow> region_world \<times> (region_error + (nat \<Rightarrow> compaction_result))" where
  "commitCompactionBody env w startEvent bracket prepared summarized =
     (let sel = pc_selection prepared
      in thenR
           (regionAppend env 1
              (CompactionSummary (summaryPayload bracket sel (pc_shadowedTokens prepared) (fst summarized)))
              (None, None) w) (\<lambda>w summaryEvent.
         thenR
           (regionAppend env 2 (UserMsg (snd summarized))
              (Some (replaceJson (sel_start sel) (sel_end sel)),
               Some (seqsJson (seq startEvent # seq summaryEvent # sel_shadowed sel))) w) (\<lambda>w _.
         (w, Inr (\<lambda>endSeq.
            \<lparr>cr_compactionId = cb_compactionId bracket, cr_sourceCommandId = cb_sourceCommandId bracket,
             cr_startSeq = seq startEvent, cr_summarySeq = seq summaryEvent, cr_endSeq = endSeq,
             cr_summary = sr_summary (fst summarized), cr_start = sel_start sel, cr_end = sel_end sel,
             cr_shadowedSeqs = sel_shadowed sel,
             cr_shadowedTokens = pc_shadowedTokens prepared\<rparr>)))))"

datatype region_stage = SummaryStage | CommitStage

text \<open>
  The body of the \<^verbatim>\<open>try\<close> block. A throw carries the stage and whether the end marker was
  already attempted.
\<close>

definition atStage ::
  "region_stage \<Rightarrow> bool \<Rightarrow> region_world \<times> (region_error + 'a)
    \<Rightarrow> region_world \<times> ((region_stage \<times> bool \<times> region_error) + 'a)" where
  "atStage stage closing m = (fst m, mapErr (\<lambda>e. (stage, closing, e)) (snd m))"

definition assertStable ::
  "region_env \<Rightarrow> region_options \<Rightarrow> region_world \<Rightarrow> prepared_compaction \<Rightarrow> region_world \<times> (region_error + unit)"
where
  "assertStable env opts w prepared =
     (if ro_selectedSpan opts then assertSelectedSpanStable env w prepared
      else assertWholeSurfaceUnchanged env w prepared)"

definition compactionWork ::
  "region_env \<Rightarrow> region_options \<Rightarrow> region_world \<Rightarrow> event \<Rightarrow> compaction_bracket \<Rightarrow> surface_selection
    \<Rightarrow> region_world \<times> ((region_stage \<times> bool \<times> region_error) + (nat \<Rightarrow> compaction_result))" where
  "compactionWork env opts w startEvent bracket sel =
     thenR (atStage SummaryStage False (prepareCompaction env w sel)) (\<lambda>w prepared.
     thenR (atStage SummaryStage False (summarizeCompaction env w prepared (ro_sourceCommandId opts)))
       (\<lambda>w summarized.
     thenR (atStage SummaryStage False
         (w, if ro_manual opts \<and> re_abortedSummary env then Inl RegionAborted else Inr ())) (\<lambda>w _.
     thenR (atStage SummaryStage False (assertStable env opts w prepared)) (\<lambda>w _.
     atStage CommitStage False (commitCompactionBody env w startEvent bracket prepared summarized)))))"

definition attemptCompaction ::
  "region_env \<Rightarrow> region_options \<Rightarrow> region_world \<Rightarrow> event \<Rightarrow> compaction_bracket \<Rightarrow> surface_selection
    \<Rightarrow> region_world \<times> ((region_stage \<times> bool \<times> region_error) + compaction_result)" where
  "attemptCompaction env opts w startEvent bracket sel =
     thenR (compactionWork env opts w startEvent bracket sel) (\<lambda>w pending.
     thenR (atStage CommitStage True (regionAppend env 3 (CompactionEnd bracket None) (None, None) w))
       (\<lambda>w endEvent. (w, Inr (pending (seq endEvent)))))"

text \<open>
  The \<^verbatim>\<open>catch\<close> block: one attempt to append the end marker unless it was already made. The
  flag says whether the bracket is closed.
\<close>

definition settleCompaction ::
  "region_env \<Rightarrow> compaction_bracket
    \<Rightarrow> region_world \<times> ((region_stage \<times> bool \<times> region_error) + compaction_result)
    \<Rightarrow> region_world \<times> bool \<times> ((region_stage \<times> region_error) + compaction_result)" where
  "settleCompaction env bracket m =
     (case m of
        (w, Inr result) \<Rightarrow> (w, True, Inr result)
      | (w, Inl (stage, True, e)) \<Rightarrow> (w, False, Inl (CommitStage, e))
      | (w, Inl (stage, False, e)) \<Rightarrow>
          (case regionAppend env 4 (CompactionEnd bracket (Some (re_describe env e))) (None, None) w of
             (w', Inr _) \<Rightarrow> (w', True, Inl (stage, e))
           | (w', Inl closeError) \<Rightarrow> (w', False, Inl (CommitStage, closeError))))"

definition manualFailure :: "region_stage \<Rightarrow> region_error \<Rightarrow> region_error" where
  "manualFailure stage e =
     (if stage = CommitStage then ManualFailed CommitCode e
      else case e of
        SurfaceChanged _ \<Rightarrow> ManualFailed ChangedCode e
      | _ \<Rightarrow> ManualFailed SummaryCode e)"

definition compactionOwner :: "region_options \<Rightarrow> entry_state \<Rightarrow> region_error + int option" where
  "compactionOwner opts entry =
     (if ro_manual opts then
        (if es_openTurn entry \<noteq> None then Inl SessionBusy else Inr None)
      else
        (case es_openTurn entry of None \<Rightarrow> Inl NoOpenTurn | Some turn \<Rightarrow> Inr (Some turn)))"

definition finishCompaction ::
  "region_env \<Rightarrow> region_options
    \<Rightarrow> region_world \<times> bool \<times> ((region_stage \<times> region_error) + compaction_result)
    \<Rightarrow> region_world \<times> (region_error + compaction_result)" where
  "finishCompaction env opts settled =
     (case settled of (w, ended, outcome) \<Rightarrow>
        let flushFailed = (ended \<and> re_flush env = Some False)
        in if ro_manual opts \<and> re_abortedEnd env then (w, Inl RegionAborted)
           else case outcome of
             Inl (stage, e) \<Rightarrow> (w, Inl (if ro_manual opts then manualFailure stage e else e))
           | Inr result \<Rightarrow>
               if flushFailed then (w, Inl (ManualFailed PersistenceCode FlushFailed))
               else (w, Inr result))"

definition compactSurfaceRegion ::
  "region_env \<Rightarrow> region_options \<Rightarrow> region_world \<Rightarrow> nat \<Rightarrow> nat
    \<Rightarrow> region_world \<times> (region_error + compaction_result)" where
  "compactSurfaceRegion env opts w s t =
     (if ro_manual opts \<and> re_abortedStart env then (w, Inl RegionAborted)
      else
        thenR (validateSurfaceRegion w s t) (\<lambda>w sel.
          let entry = inspectCompactionEntryState (logOf w)
          in thenR (w, assertCompactionInactive (es_start entry) (es_endSeed entry)) (\<lambda>w _.
             thenR (w, compactionOwner opts entry) (\<lambda>w owner.
               let bracket = \<lparr>cb_compactionId = re_compactionId env,
                              cb_sourceCommandId = ro_sourceCommandId opts, cb_turn = owner\<rparr>
               in thenR (regionAppend env 0 (CompactionStart bracket) (None, None) w) (\<lambda>w startEvent.
                    finishCompaction env opts
                      (settleCompaction env bracket
                         (attemptCompaction env opts w startEvent bracket sel)))))))"

end
