(* ===== verification/Compaction_Facts.thy ===== *)
theory Compaction_Facts
  imports Compaction
begin

text \<open>
  Correctness of compaction. The automatically selected range is the longest head of the surface
  that leaves the required tail and splits no call from its result; a transaction that succeeds
  replaces exactly its range by one smaller checkpoint; and a transaction that opened its bracket
  closes it, whatever fails in between.
\<close>

section \<open>The invariant of the world\<close>

definition regionInv :: "(json \<Rightarrow> string) \<Rightarrow> region_world \<Rightarrow> bool" where
  "regionInv sf w \<longleftrightarrow>
     sessionInv (rw_session w) \<and> balanceInv (logOf w) (rw_balance w) \<and> meterInv sf (logOf w) (rw_meter w)"

text \<open>A step that writes nothing to the log.\<close>

definition quiet :: "(json \<Rightarrow> string) \<Rightarrow> region_world \<Rightarrow> region_world \<Rightarrow> bool" where
  "quiet sf w w' \<longleftrightarrow> (regionInv sf w \<longrightarrow> regionInv sf w' \<and> logOf w' = logOf w)"

lemma quiet_refl [simp]: "quiet sf w w"
  by (simp add: quiet_def)

lemma quiet_trans: "quiet sf w w1 \<Longrightarrow> quiet sf w1 w2 \<Longrightarrow> quiet sf w w2"
  by (simp add: quiet_def)

lemma quiet_D: "quiet sf w w' \<Longrightarrow> regionInv sf w \<Longrightarrow> regionInv sf w' \<and> logOf w' = logOf w"
  by (simp add: quiet_def)

lemma quiet_thenR:
  assumes "quiet sf w (fst m)" and "\<And>w1 x. m = (w1, Inr x) \<Longrightarrow> quiet sf w1 (fst (k w1 x))"
  shows "quiet sf w (fst (thenR m k))"
proof (cases m)
  case (Pair w1 r)
  with assms show ?thesis by (cases r) (auto intro: quiet_trans)
qed

lemma thenR_Inr_iff: "thenR m k = (w', Inr y) \<longleftrightarrow> (\<exists>w1 x. m = (w1, Inr x) \<and> k w1 x = (w', Inr y))"
  by (cases m; cases "snd m") auto

lemma regionInv_surface:
  assumes "regionInv sf w"
  obtains st where "surfaceLog (logOf w) = Inr st" "onLog (logOf w) (nodes st)" "distinct (nodes st)"
proof -
  obtain st where st: "surfaceLog (logOf w) = Inr st"
    using assms by (auto simp: regionInv_def sessionInv_def logOf_def)
  then show thesis
    using that surface_onLog [OF st] surfaceLog_inv [OF st] by (simp add: surfaceInv_def)
qed

section \<open>Reads\<close>

lemma readSurface_ok:
  assumes inv: "regionInv sf w" and st: "surfaceLog (logOf w) = Inr st"
  shows "\<exists>w'. readSurface w = (w', Inr (nodes st, replaceGeneration st)) \<and> quiet sf w w'"
proof -
  have m: "managerInv (logOf w) (s_manager (rw_session w))"
    using inv by (simp add: regionInv_def sessionInv_def logOf_def)
  obtain m1 where m1: "managerNodes (logOf w) (s_manager (rw_session w)) = (m1, Inr (nodes st))"
      "managerInv (logOf w) m1"
    using manager_reads [OF m st] by blast
  obtain m2 where "managerNodes (logOf w) m1 = (m2, Inr (nodes st))" "managerInv (logOf w) m2"
      "managerGeneration (logOf w) m1 = (m2, Inr (replaceGeneration st))"
    using manager_reads [OF m1(2) st] .
  with m1 inv sessionInv_manager show ?thesis
    by (simp add: readSurface_def quiet_def regionInv_def logOf_def)
qed

lemma readSurface_quiet: "quiet sf w (fst (readSurface w))"
proof (cases "regionInv sf w")
  case True
  then show ?thesis using regionInv_surface readSurface_ok by (metis fst_conv)
qed (simp add: quiet_def)

lemma regionInv_balance:
  "regionInv sf w \<Longrightarrow> balanceInv (logOf w) c \<Longrightarrow> quiet sf w (w\<lparr>rw_balance := c\<rparr>)"
  by (simp add: quiet_def regionInv_def logOf_def)

lemma pairing_quiet:
  assumes "regionInv sf w" and "surfaceLog (logOf w) = Inr st"
  shows "quiet sf w (w\<lparr>rw_balance := keepBalance (rw_balance w)
    (balanceCache (logOf w) (nodes st) (replaceGeneration st) (rw_balance w))\<rparr>)"
  using assms keepBalance_inv regionInv_balance by (simp add: regionInv_def)

text \<open>Both questions, with the log and the surface of the world.\<close>

lemma balanced_reads:
  assumes inv: "regionInv sf w" and st: "surfaceLog (logOf w) = Inr st"
  shows "\<exists>w'. balancedBefore w s = (w', mapErr RegionPairing
      (bindR (freshBalance (logOf w) (nodes st) (replaceGeneration st)) (\<lambda>c. cutBalance c s 0))) \<and> quiet sf w w'"
    and "\<exists>w'. balancedAfter w s = (w', mapErr RegionPairing
      (bindR (freshBalance (logOf w) (nodes st) (replaceGeneration st)) (\<lambda>c. cutBalance c s 1))) \<and> quiet sf w w'"
proof -
  obtain w1 where w1: "readSurface w = (w1, Inr (nodes st, replaceGeneration st))" "quiet sf w w1"
    using readSurface_ok [OF assms] by blast
  have q: "regionInv sf w1" "logOf w1 = logOf w" using quiet_D [OF w1(2) inv] by simp_all
  have c: "balanceCache (logOf w) (nodes st) (replaceGeneration st) (rw_balance w1)
      = freshBalance (logOf w) (nodes st) (replaceGeneration st)"
    using balanceCache_fresh [OF st] q by (simp add: regionInv_def)
  note p = quiet_trans [OF w1(2) pairing_quiet [OF q(1), of st]]
  show "\<exists>w'. balancedBefore w s = (w', mapErr RegionPairing
      (bindR (freshBalance (logOf w) (nodes st) (replaceGeneration st)) (\<lambda>c. cutBalance c s 0))) \<and> quiet sf w w'"
    "\<exists>w'. balancedAfter w s = (w', mapErr RegionPairing
      (bindR (freshBalance (logOf w) (nodes st) (replaceGeneration st)) (\<lambda>c. cutBalance c s 1))) \<and> quiet sf w w'"
    using w1(1) q(2) st p c
    by (simp_all add: balancedBefore_def balancedAfter_def toolPairingBalancedBefore_def
        toolPairingBalancedAfter_def Let_def)
qed

lemma balanced_quiet: "quiet sf w (fst (balancedBefore w s))" "quiet sf w (fst (balancedAfter w s))"
proof -
  have "quiet sf w (fst (balancedBefore w s)) \<and> quiet sf w (fst (balancedAfter w s))"
  proof (cases "regionInv sf w")
    case True
    then obtain st where "surfaceLog (logOf w) = Inr st" using regionInv_surface by blast
    from balanced_reads [OF True this, of s] show ?thesis by (metis fst_conv)
  qed (simp add: quiet_def)
  then show "quiet sf w (fst (balancedBefore w s))" "quiet sf w (fst (balancedAfter w s))" by simp_all
qed

text \<open>A balanced answer means that no result precedes its call and the calls cancel out.\<close>

lemma balanced_True:
  assumes inv: "regionInv sf w" and st: "surfaceLog (logOf w) = Inr st"
  shows "balancedBefore w s = (w', Inr b) \<Longrightarrow> pairingOK (logOf w) (nodes st)
      \<and> (\<exists>i. indexOf (nodes st) s = Some i \<and> b = (openCalls (logOf w) (take i (nodes st)) = 0))"
    and "balancedAfter w s = (w', Inr b) \<Longrightarrow> pairingOK (logOf w) (nodes st)
      \<and> (\<exists>i. indexOf (nodes st) s = Some i \<and> b = (openCalls (logOf w) (take (Suc i) (nodes st)) = 0))"
proof -
  let ?f = "freshBalance (logOf w) (nodes st) (replaceGeneration st)"
  have main: "pairingOK (logOf w) (nodes st)
      \<and> (\<exists>i. indexOf (nodes st) s = Some i \<and> b = (openCalls (logOf w) (take (i + off) (nodes st)) = 0))"
    if r: "mapErr RegionPairing (bindR ?f (\<lambda>c. cutBalance c s off)) = Inr b" and off: "off \<le> 1" for off b
  proof -
    have p: "pairingOK (logOf w) (nodes st)"
      using r fresh_bad [OF surface_onLog [OF st], of "replaceGeneration st"] by force
    have "cutAnswer (logOf w) (nodes st) s off = Inr b"
      using r cutBalance_fresh [OF st p off, of "replaceGeneration st" s] by (simp add: mapErr_Inr_iff)
    with p show ?thesis by (auto simp: cutAnswer_def split: option.splits)
  qed
  show "pairingOK (logOf w) (nodes st)
      \<and> (\<exists>i. indexOf (nodes st) s = Some i \<and> b = (openCalls (logOf w) (take i (nodes st)) = 0))"
    if "balancedBefore w s = (w', Inr b)"
    using main [of 0 b] that balanced_reads(1) [OF assms, of s] by auto
  show "pairingOK (logOf w) (nodes st)
      \<and> (\<exists>i. indexOf (nodes st) s = Some i \<and> b = (openCalls (logOf w) (take (Suc i) (nodes st)) = 0))"
    if "balancedAfter w s = (w', Inr b)"
    using main [of 1 b] that balanced_reads(2) [OF assms, of s] by auto
qed

lemma measureWorld_ok:
  assumes inv: "regionInv (re_stringify env) w" and st: "surfaceLog (logOf w) = Inr st"
  shows "quiet (re_stringify env) w (fst (measureWorld env w))"
    and "snd (measureWorld env w) = Inr m \<Longrightarrow> ms_nodes m = priced (re_stringify env) (logOf w) (nodes st)"
proof -
  let ?m = "measureSession (re_stringify env) (logOf w) (rw_meter w) None"
  have mi: "meterInv (re_stringify env) (logOf w) (rw_meter w)" using inv by (simp add: regionInv_def)
  show "quiet (re_stringify env) w (fst (measureWorld env w))"
    using measureSession_inv(1) [OF st mi, of None] inv
    by (cases ?m) (simp add: measureWorld_def quiet_def regionInv_def logOf_def)
  show "ms_nodes m = priced (re_stringify env) (logOf w) (nodes st)" if "snd (measureWorld env w) = Inr m"
    using measureSession_inv(2) [OF st mi, of None m] that
    by (cases ?m) (auto simp: measureWorld_def result_simps)
qed

section \<open>Selection\<close>

lemma estimate_nonneg:
  "0 \<le> estimateBlock sf b" "0 \<le> estimateContent sf bs"
  by (induction sf b and sf bs rule: estimateBlock_estimateContent.induct) (simp_all add: ceilTokens_def)

lemma nodeTokens_priced_nonneg: "0 \<le> nodeTokens (priced sf lg ns)"
  using estimate_nonneg
  by (auto simp: nodeTokens_def priced_def priceOf_def estimateMessage_def intro!: sum_list_nonneg
      split: option.split)

lemma nodeTokens_drop_mono:
  assumes "j \<le> k" and "ms = priced sf lg ns"
  shows "nodeTokens (drop k ms) \<le> nodeTokens (drop j ms)"
proof -
  have "drop j ms = take (k - j) (drop j ms) @ drop k ms"
    using assms(1) by (metis append_take_drop_id drop_drop le_add_diff_inverse2)
  then have "nodeTokens (drop j ms) = nodeTokens (take (k - j) (drop j ms)) + nodeTokens (drop k ms)"
    by (metis nodeTokens_append)
  then show ?thesis using nodeTokens_priced_nonneg [of sf lg "take (k - j) (drop j ns)"] assms(2) by simp
qed

lemma keepFrom_spec:
  assumes "k \<le> length ns" and "acc = nodeTokens (drop k ns)"
  shows "(k = 0 \<and> keepFrom ns retain acc k = 0)
    \<or> (keepFrom ns retain acc k < k
       \<and> (keepFrom ns retain acc k = 0 \<or> retain \<le> nodeTokens (drop (keepFrom ns retain acc k) ns))
       \<and> (\<forall>j. keepFrom ns retain acc k < j \<longrightarrow> j < k \<longrightarrow> nodeTokens (drop j ns) < retain))"
  using assms
proof (induction k arbitrary: acc)
  case (Suc k)
  have acc: "acc + tn_tokens (ns ! k) = nodeTokens (drop k ns)"
    using Suc.prems by (simp add: Cons_nth_drop_Suc [symmetric] nodeTokens_def)
  show ?case
  proof (cases "retain \<le> nodeTokens (drop k ns)")
    case True
    then show ?thesis using acc by simp
  next
    case False
    with Suc.IH [of "nodeTokens (drop k ns)"] Suc.prems(1) acc show ?thesis
      by (auto simp: less_Suc_eq not_le)
  qed
qed simp

lemma walkBack_Inr:
  assumes "regionInv sf w" and "surfaceLog (logOf w) = Inr st" and "k < length (nodes st)"
    and "walkBack w (nodes st) k = (w', Inr k')"
  shows "regionInv sf w' \<and> logOf w' = logOf w \<and> k' \<le> k \<and> openCalls (logOf w) (take k' (nodes st)) = 0
    \<and> (\<forall>j. k' < j \<longrightarrow> j \<le> k \<longrightarrow> openCalls (logOf w) (take j (nodes st)) \<noteq> 0)
    \<and> (0 < k \<longrightarrow> pairingOK (logOf w) (nodes st))"
  using assms
proof (induction k arbitrary: w)
  case (Suc k)
  have d: "distinct (nodes st)" using surfaceLog_inv [OF Suc.prems(2)] by (simp add: surfaceInv_def)
  obtain w1 b where w1: "balancedBefore w (nodes st ! Suc k) = (w1, Inr b)"
    and r: "(if b then (w1, Inr (Suc k)) else walkBack w1 (nodes st) k) = (w', Inr k')"
    using Suc.prems(4) by (auto simp: thenR_Inr_iff)
  have b: "pairingOK (logOf w) (nodes st)" "b = (openCalls (logOf w) (take (Suc k) (nodes st)) = 0)"
    using balanced_True(1) [OF Suc.prems(1,2) w1] indexOf_nth [OF d Suc.prems(3)] by auto
  have "quiet sf w w1" using balanced_quiet(1) [of sf w "nodes st ! Suc k"] w1 by simp
  note q = conjunct1 [OF quiet_D [OF this Suc.prems(1)]] conjunct2 [OF quiet_D [OF this Suc.prems(1)]]
  show ?case
  proof (cases b)
    case True
    then show ?thesis using r q b by simp
  next
    case False
    then show ?thesis
      using Suc.IH [of w1] q r b Suc.prems(2,3) by (auto simp: le_Suc_eq)
  qed
qed auto

lemma validate_balanced:
  assumes inv: "regionInv sf w" and st: "surfaceLog (logOf w) = Inr st"
    and ok: "pairingOK (logOf w) (nodes st)" and ij: "i \<le> j" "j < length (nodes st)"
    and b: "openCalls (logOf w) (take i (nodes st)) = 0" "openCalls (logOf w) (take (Suc j) (nodes st)) = 0"
  shows "snd (validateSurfaceRegion w (nodes st ! i) (nodes st ! j)) =
    Inr \<lparr>sel_start = nodes st ! i, sel_end = nodes st ! j, sel_startIdx = i, sel_endIdx = j,
         sel_shadowed = take (j + 1 - i) (drop i (nodes st))\<rparr>"
proof -
  have d: "distinct (nodes st)" using surfaceLog_inv [OF st] by (simp add: surfaceInv_def)
  have ix: "indexOf (nodes st) (nodes st ! i) = Some i" "indexOf (nodes st) (nodes st ! j) = Some j"
    using indexOf_nth [OF d] ij by simp_all
  obtain w1 where w1: "readSurface w = (w1, Inr (nodes st, replaceGeneration st))" "quiet sf w w1"
    using readSurface_ok [OF inv st] by blast
  note q1 = quiet_D [OF w1(2) inv]
  obtain w2 where w2: "balancedBefore w1 (nodes st ! i) = (w2, Inr True)" "quiet sf w1 w2"
    using balanced_reads(1) [of sf w1 st "nodes st ! i"] cutBalance_fresh [OF st ok, of 0] q1 st ix b(1)
    by (auto simp: cutAnswer_def)
  note q2 = quiet_D [OF w2(2)]
  obtain w3 where "balancedAfter w2 (nodes st ! j) = (w3, Inr True)" "quiet sf w2 w3"
    using balanced_reads(2) [of sf w2 st "nodes st ! j"] cutBalance_fresh [OF st ok, of 1] q1 q2 st ix b(2)
    by (auto simp: cutAnswer_def)
  with w1 w2 ix ij show ?thesis by (simp add: validateSurfaceRegion_def)
qed

text \<open>The cuts a head of the surface may end at: a real head and tail, balanced, the tail priced enough.\<close>

definition fitsCut :: "event list \<Rightarrow> nat list \<Rightarrow> measurement \<Rightarrow> int \<Rightarrow> nat \<Rightarrow> bool" where
  "fitsCut lg ns m retain k \<longleftrightarrow>
     0 < k \<and> k < length ns \<and> openCalls lg (take k ns) = 0 \<and> retain \<le> nodeTokens (drop k (ms_nodes m))"

text \<open>
  Claim C25: the range that automatic compaction selects is the longest head of the surface that
  splits no tool call from its result and leaves a tail of at least the retained tokens; it
  reports that there is none only when there is none. The range passes the validation of the
  transaction, so a selection is never refused for its shape.
\<close>

theorem selected_range_is_longest:
  assumes inv: "regionInv (re_stringify env) w" and st: "surfaceLog (logOf w) = Inr st"
    and m: "measureWorld env w = (w1, Inr m)" and r: "selectCompactableRange w1 m retain = (w2, Inr r)"
  shows "case r of
      None \<Rightarrow> \<forall>k. \<not> fitsCut (logOf w) (nodes st) m retain k
    | Some (s, t) \<Rightarrow> \<exists>k. fitsCut (logOf w) (nodes st) m retain k
        \<and> (\<forall>j. fitsCut (logOf w) (nodes st) m retain j \<longrightarrow> j \<le> k)
        \<and> snd (validateSurfaceRegion w2 s t) =
            Inr \<lparr>sel_start = s, sel_end = t, sel_startIdx = 0, sel_endIdx = k - 1,
                 sel_shadowed = take k (nodes st)\<rparr>"
proof (cases "nodes st = []")
  case True
  then have "ms_nodes m = []" using measureWorld_ok(2) [OF inv st, of m] m by (simp add: priced_def)
  then show ?thesis using r True by (auto simp: selectCompactableRange_def fitsCut_def)
next
  case False
  let ?ns = "nodes st"
  have ms: "ms_nodes m = priced (re_stringify env) (logOf w) ?ns"
    using measureWorld_ok(2) [OF inv st, of m] m by simp
  have q1: "regionInv (re_stringify env) w1" "logOf w1 = logOf w"
    using quiet_D [OF measureWorld_ok(1) [OF inv st] inv] m by simp_all
  obtain wa where wa: "readSurface w1 = (wa, Inr (?ns, replaceGeneration st))" "quiet (re_stringify env) w1 wa"
    using readSurface_ok [OF q1(1), of st] st q1(2) by auto
  have qa: "regionInv (re_stringify env) wa" "logOf wa = logOf w" using quiet_D [OF wa(2) q1(1)] q1(2) by simp_all
  define keep where "keep = keepFrom (ms_nodes m) retain 0 (length (ms_nodes m))"
  have len: "length (ms_nodes m) = length ?ns" "ms_nodes m \<noteq> []" "map tn_seq (ms_nodes m) = ?ns"
    using ms False by (auto simp: priced_def comp_def)
  have keep: "keep < length ?ns" "keep = 0 \<or> retain \<le> nodeTokens (drop keep (ms_nodes m))"
    "\<And>j. keep < j \<Longrightarrow> j < length ?ns \<Longrightarrow> nodeTokens (drop j (ms_nodes m)) < retain"
    using keepFrom_spec [of "length (ms_nodes m)" "ms_nodes m" 0 retain] len False
    by (auto simp: keep_def nodeTokens_def)
  have sel: "selectCompactableRange w1 m retain = (if keep = 0 then (wa, Inr None)
      else thenR (walkBack wa ?ns keep) (\<lambda>w k.
        if k = 0 then (w, Inr None) else (w, Inr (Some (?ns ! 0, ?ns ! (k - 1))))))"
    unfolding selectCompactableRange_def using wa(1) len(2,3) by (simp add: keep_def Let_def)
  have fits: "j \<le> keep" if f: "fitsCut (logOf w) ?ns m retain j" for j
  proof (rule ccontr)
    assume "\<not> j \<le> keep"
    with keep(3) [of j] f show False by (simp add: fitsCut_def)
  qed
  show ?thesis
  proof (cases "keep = 0")
    case True
    then have "r = None" using r sel by simp
    then show ?thesis using fits True by (fastforce simp: fitsCut_def)
  next
    case kp: False
    obtain wb k where wb: "walkBack wa ?ns keep = (wb, Inr k)"
      and r': "r = (if k = 0 then None else Some (?ns ! 0, ?ns ! (k - 1)))" "w2 = wb"
      using r sel kp by (auto simp: thenR_Inr_iff split: if_splits)
    have k: "regionInv (re_stringify env) wb" "logOf wb = logOf w" "k \<le> keep"
        "openCalls (logOf w) (take k ?ns) = 0" "pairingOK (logOf w) ?ns"
        "\<And>j. k < j \<Longrightarrow> j \<le> keep \<Longrightarrow> openCalls (logOf w) (take j ?ns) \<noteq> 0"
      using walkBack_Inr [OF qa(1) _ _ wb] st qa(2) keep(1) kp by auto
    have best: "j \<le> k" if f: "fitsCut (logOf w) ?ns m retain j" for j
    proof (rule ccontr)
      assume "\<not> j \<le> k"
      with k(6) [of j] fits [OF f] f show False by (simp add: fitsCut_def)
    qed
    show ?thesis
    proof (cases "k = 0")
      case True
      then show ?thesis using r' best by (fastforce simp: fitsCut_def)
    next
      case False
      have "retain \<le> nodeTokens (drop k (ms_nodes m))"
        using keep(2) kp nodeTokens_drop_mono [OF k(3) ms] by simp
      then have fit: "fitsCut (logOf w) ?ns m retain k"
        using False k keep(1) by (simp add: fitsCut_def)
      have "snd (validateSurfaceRegion wb (?ns ! 0) (?ns ! (k - 1))) =
          Inr \<lparr>sel_start = ?ns ! 0, sel_end = ?ns ! (k - 1), sel_startIdx = 0, sel_endIdx = k - 1,
               sel_shadowed = take (k - 1 + 1 - 0) (drop 0 ?ns)\<rparr>"
        by (rule validate_balanced [OF k(1)]) (use st k keep(1) False in simp_all)
      then show ?thesis using False fit best r' by (auto intro!: exI [of _ k])
    qed
  qed
qed

section \<open>Writes\<close>

lemma regionInv_grow:
  assumes "regionInv sf w" and "sessionInv S" and "s_log S = logOf w @ es"
  shows "regionInv sf (w\<lparr>rw_session := S\<rparr>)"
  using assms balanceInv_grow meterInv_grow by (simp add: regionInv_def logOf_def)

lemma regionAppend_ok:
  assumes inv: "regionInv sf w" and a: "regionAppend env k d meta w = (w', r)"
  shows "regionInv sf w'"
    and "r = Inl err \<Longrightarrow> logOf w' = logOf w"
    and "r = Inr e \<Longrightarrow> logOf w' = logOf w @ [e] \<and> ev_data e = d \<and> seq e = length (logOf w)
      \<and> meta = (surfaceOp e, sourceEventSeqs e)"
proof -
  obtain S q where q: "appendWith (rw_session w) (re_now env k) (re_veto env k) (Some d) (Some meta) = (S, q)"
    by fastforce
  have w': "w' = w\<lparr>rw_session := S\<rparr>" "r = mapErr RegionAppend q"
    using a q by (simp_all add: regionAppend_def)
  have S: "sessionInv S" using appendWith_session q inv by (auto simp: regionInv_def)
  have "\<exists>es. s_log S = logOf w @ es"
    using appendWith_Inr [of "rw_session w"] appendWith_Inl [of "rw_session w"] q
    by (cases q) (fastforce simp: logOf_def)+
  then show "regionInv sf w'" using regionInv_grow [OF inv S] w' by auto
  show "r = Inl err \<Longrightarrow> logOf w' = logOf w"
    using appendWith_Inl [of "rw_session w"] q w' by (cases q) (auto simp: logOf_def)
  show "r = Inr e \<Longrightarrow> logOf w' = logOf w @ [e] \<and> ev_data e = d \<and> seq e = length (logOf w)
      \<and> meta = (surfaceOp e, sourceEventSeqs e)"
    using appendWith_Inr [of "rw_session w" "re_now env k" "re_veto env k" "Some d" "Some meta" S e] q w'
    by (cases q) (auto simp: logOf_def)
qed

text \<open>An end marker is a log-only event, so nothing but a veto keeps it out.\<close>

lemma end_accepted:
  assumes inv: "regionInv sf w" and "\<not> re_veto env k"
  obtains w' e where "regionAppend env k (CompactionEnd b err) (None, None) w = (w', Inr e)"
proof -
  let ?S = "rw_session w"
  obtain st where st: "surfaceLog (s_log ?S) = Inr st" and m: "managerInv (s_log ?S) (s_manager ?S)"
    using inv by (auto simp: regionInv_def sessionInv_def)
  let ?e = "\<lparr>seq = length (s_log ?S), time = re_now env k, ev_data = CompactionEnd b err,
      surfaceOp = None, sourceEventSeqs = None, ignorable = False\<rparr>"
  obtain m' r where v: "validateNext (s_log ?S) (s_manager ?S) ?e = (m', r)" by fastforce
  have "surfaceLog (s_log ?S @ [?e]) = Inr st"
    using st by (simp add: surfaceLog_snoc planSurfaceEvent_def surfaceOpOf_def
        isSurfaceEligibleType_def SURFACE_EVENT_TYPES_def)
  then have "r = None" using validateNext_accepts [OF m st v] by blast
  with v assms(2) show thesis
    by (intro that) (auto simp: regionAppend_def appendWith_def prepareAppend_def
        assertSupportedRequestHeader_def Let_def)
qed

text \<open>
  A step that writes to the log only events of which \<open>P\<close> holds.
\<close>

definition writes :: "(json \<Rightarrow> string) \<Rightarrow> (event \<Rightarrow> bool) \<Rightarrow> region_world \<Rightarrow> region_world \<Rightarrow> bool" where
  "writes sf P w w' \<longleftrightarrow>
     (regionInv sf w \<longrightarrow> regionInv sf w' \<and> (\<exists>es. logOf w' = logOf w @ es \<and> list_all P es))"

lemma quiet_writes: "quiet sf w w' \<Longrightarrow> writes sf P w w'"
  by (auto simp: quiet_def writes_def)

lemma writes_refl [simp]: "writes sf P w w"
  by (simp add: writes_def)

lemma writes_trans: "writes sf P w w1 \<Longrightarrow> writes sf P w1 w2 \<Longrightarrow> writes sf P w w2"
  by (fastforce simp: writes_def)

lemma writes_thenR:
  assumes "writes sf P w (fst m)" and "\<And>w1 x. m = (w1, Inr x) \<Longrightarrow> writes sf P w1 (fst (k w1 x))"
  shows "writes sf P w (fst (thenR m k))"
proof (cases m)
  case (Pair w1 r)
  with assms show ?thesis by (cases r) (auto intro: writes_trans)
qed

lemma regionAppend_writes:
  assumes "\<And>e. ev_data e = d \<Longrightarrow> P e"
  shows "writes sf P w (fst (regionAppend env k d meta w))"
proof -
  obtain w' r where a: "regionAppend env k d meta w = (w', r)" by fastforce
  show ?thesis
  proof (cases r)
    case (Inl err)
    then show ?thesis using regionAppend_ok(1,2) [OF _ a] a by (auto simp: writes_def)
  next
    case (Inr e)
    then show ?thesis using regionAppend_ok(1,3) [OF _ a] a assms by (fastforce simp: writes_def)
  qed
qed

lemma otherAppend_writes:
  assumes "\<And>e. ev_data e \<in> fst ` set xs \<Longrightarrow> P e"
  shows "writes sf P w (foldl otherAppend w xs)"
  using assms
proof (induction xs arbitrary: w)
  case (Cons x xs)
  obtain d op src now where x: "x = (d, op, src, now)" by (cases x) auto
  obtain S r where a: "appendWith (rw_session w) now False (Some d) (Some (op, src)) = (S, r)" by fastforce
  have "writes sf P w (otherAppend w x)"
  proof (cases "regionInv sf w")
    case True
    have S: "sessionInv S" using appendWith_session a True by (auto simp: regionInv_def)
    have "\<exists>es. s_log S = logOf w @ es \<and> list_all P es"
    proof (cases r)
      case (Inl err)
      then show ?thesis using appendWith_Inl [of "rw_session w"] a by (force simp: logOf_def)
    next
      case (Inr e)
      then have "s_log S = logOf w @ [e]" "ev_data e = d"
        using appendWith_Inr [of "rw_session w" now False "Some d" "Some (op, src)" S e] a
        by (simp_all add: logOf_def)
      moreover have "P e" using Cons.prems [of e] calculation(2) x by simp
      ultimately show ?thesis by simp
    qed
    then show ?thesis using regionInv_grow [OF True S] a x by (auto simp: otherAppend_def writes_def logOf_def)
  qed (simp add: writes_def)
  moreover have "writes sf P (otherAppend w x) (foldl otherAppend (otherAppend w x) xs)"
    using Cons.prems by (intro Cons.IH) simp
  ultimately show ?case by (simp add: writes_trans)
qed simp

section \<open>The bracket\<close>

lemma validate_quiet: "quiet sf w (fst (validateSurfaceRegion w s t))"
  unfolding validateSurfaceRegion_def
  by (intro quiet_thenR readSurface_quiet)
    (auto split: option.split intro!: quiet_thenR balanced_quiet)

lemma measure_quiet: "quiet (re_stringify env) w (fst (measureWorld env w))"
proof (cases "regionInv (re_stringify env) w")
  case True
  then obtain st where "surfaceLog (logOf w) = Inr st" using regionInv_surface by blast
  then show ?thesis using measureWorld_ok(1) True by blast
qed (simp add: quiet_def)

lemma input_quiet: "quiet sf w (fst (buildSummarizationInput w shadowed))"
proof -
  obtain S h where "requestHeader (rw_session w) = (S, h)" by fastforce
  then show ?thesis
    using requestHeader_inv(1,3) [of "rw_session w" S h]
    by (auto simp: buildSummarizationInput_def quiet_def regionInv_def logOf_def)
qed

lemma prepare_quiet: "quiet (re_stringify env) w (fst (prepareCompaction env w sel))"
  unfolding prepareCompaction_def
proof (rule quiet_thenR [OF measure_quiet])
  fix w1 m
  show "quiet (re_stringify env) w1 (fst (let selected = take (sel_endIdx sel + 1 - sel_startIdx sel)
        (drop (sel_startIdx sel) (ms_nodes m))
      in if map tn_seq selected \<noteq> sel_shadowed sel
         then (w1, Inl (SurfaceChanged ''selected surface changed before summarization began''))
         else (case buildSummarizationInput w1 (sel_shadowed sel) of
            (w', input) \<Rightarrow> (w', Inr \<lparr>pc_selection = sel, pc_nodes = ms_nodes m, pc_selected = selected,
               pc_shadowedTokens = nodeTokens selected, pc_input = input\<rparr>))))"
    using input_quiet [of "re_stringify env" w1 "sel_shadowed sel"]
    by (cases "buildSummarizationInput w1 (sel_shadowed sel)") (simp add: Let_def)
qed

lemma stable_quiet: "quiet (re_stringify env) w (fst (assertStable env opts w prepared))"
proof -
  have "quiet (re_stringify env) w (fst (assertWholeSurfaceUnchanged env w prepared))"
    unfolding assertWholeSurfaceUnchanged_def by (intro quiet_thenR measure_quiet) simp
  moreover have "quiet (re_stringify env) w (fst (assertSelectedSpanStable env w prepared))"
  proof -
    obtain w1 r where v: "validateSurfaceRegion w (sel_start (pc_selection prepared))
        (sel_end (pc_selection prepared)) = (w1, r)" by fastforce
    have q: "quiet (re_stringify env) w w1"
      using validate_quiet [of "re_stringify env" w "sel_start (pc_selection prepared)"
          "sel_end (pc_selection prepared)"] v by simp
    have "quiet (re_stringify env) w1 (fst (thenR (measureWorld env w1) (\<lambda>w2 m.
        if take (sel_endIdx c + 1 - sel_startIdx c) (drop (sel_startIdx c) (ms_nodes m)) \<noteq> pc_selected prepared
        then (w2, Inl (SurfaceChanged x)) else (w2, Inr ()))))" for c x
      by (intro quiet_thenR measure_quiet) simp
    with q v show ?thesis
      by (cases r) (auto simp: assertSelectedSpanStable_def intro: quiet_trans)
  qed
  ultimately show ?thesis by (simp add: assertStable_def)
qed

text \<open>The events that may stand inside a bracket.\<close>

definition insideBracket :: "region_env \<Rightarrow> compaction_bracket \<Rightarrow> event \<Rightarrow> bool" where
  "insideBracket env b e \<longleftrightarrow>
     ev_data e \<in> fst ` set (re_during env)
     \<or> (case ev_data e of
          CompactionSummary p \<Rightarrow> cs_bracket_id p = cb_compactionId b
        | UserMsg m \<Rightarrow> msg_source m = compactCheckpointSource (re_compactionId env) (cb_sourceCommandId b)
        | _ \<Rightarrow> False)"

lemma summarize_writes:
  "writes sf (insideBracket env b) w (fst (summarizeCompaction env w prepared c))"
  using otherAppend_writes [of "re_during env" "insideBracket env b" sf w]
  by (cases "re_summarize env (pc_input prepared)")
    (simp_all add: summarizeCompaction_def insideBracket_def Let_def)

lemma atStage_fst [simp]: "fst (atStage stage closing m) = fst m"
  by (simp add: atStage_def)

lemma atStage_Inr: "atStage stage closing m = (w, Inr x) \<longleftrightarrow> m = (w, Inr x)"
  by (cases m; cases "snd m") (auto simp: atStage_def)

lemma summarize_checkpoint:
  "summarizeCompaction env w prepared c = (w', Inr summarized)
    \<Longrightarrow> snd summarized = checkpointMessage env c (fst summarized)
      \<and> estimateMessage (re_stringify env) (snd summarized) < pc_shadowedTokens prepared
      \<and> w' = foldl otherAppend w (re_during env)"
  by (cases "re_summarize env (pc_input prepared)")
    (auto simp: summarizeCompaction_def Let_def split: if_splits)

lemma body_writes:
  assumes "msg_source (snd summarized) = compactCheckpointSource (re_compactionId env) (cb_sourceCommandId b)"
  shows "writes sf (insideBracket env b) w (fst (commitCompactionBody env w startEvent b prepared summarized))"
  unfolding commitCompactionBody_def Let_def
  by (intro writes_thenR regionAppend_writes)
    (use assms in \<open>auto simp: insideBracket_def summaryPayload_def\<close>)

text \<open>
  The work of the transaction writes inside the bracket; a throw of it comes before the attempt to
  write the end marker.
\<close>

lemma atStage_closing: "atStage stage c m = (w', Inl (st, closing, e)) \<Longrightarrow> closing = c"
  by (cases "snd m") (auto simp: atStage_def)

lemma work_writes:
  assumes "cb_sourceCommandId b = ro_sourceCommandId opts"
  shows "writes (re_stringify env) (insideBracket env b) w
    (fst (compactionWork env opts w startEvent b sel))"
  unfolding compactionWork_def
proof (rule writes_thenR)
  show "writes (re_stringify env) (insideBracket env b) w
      (fst (atStage SummaryStage False (prepareCompaction env w sel)))"
    using prepare_quiet by (simp add: quiet_writes)
next
  fix w1 prepared
  show "writes (re_stringify env) (insideBracket env b) w1
    (fst (thenR (atStage SummaryStage False (summarizeCompaction env w1 prepared (ro_sourceCommandId opts)))
       (\<lambda>w summarized.
     thenR (atStage SummaryStage False
         (w, if ro_manual opts \<and> re_abortedSummary env then Inl RegionAborted else Inr ())) (\<lambda>w _.
     thenR (atStage SummaryStage False (assertStable env opts w prepared)) (\<lambda>w _.
     atStage CommitStage False (commitCompactionBody env w startEvent b prepared summarized))))))"
  proof (rule writes_thenR)
    fix w2 summarized
    assume "atStage SummaryStage False (summarizeCompaction env w1 prepared (ro_sourceCommandId opts))
      = (w2, Inr summarized)"
    then have "snd summarized = checkpointMessage env (ro_sourceCommandId opts) (fst summarized)"
      using summarize_checkpoint by (simp add: atStage_Inr)
    then have "msg_source (snd summarized) = compactCheckpointSource (re_compactionId env) (cb_sourceCommandId b)"
      using assms by (simp add: checkpointMessage_def)
    then show "writes (re_stringify env) (insideBracket env b) w2
      (fst (thenR (atStage SummaryStage False
         (w2, if ro_manual opts \<and> re_abortedSummary env then Inl RegionAborted else Inr ())) (\<lambda>w _.
     thenR (atStage SummaryStage False (assertStable env opts w prepared)) (\<lambda>w _.
     atStage CommitStage False (commitCompactionBody env w startEvent b prepared summarized)))))"
      by (intro writes_thenR) (simp_all add: stable_quiet quiet_writes body_writes)
  qed (simp add: summarize_writes)
qed

lemma work_closing:
  assumes "compactionWork env opts w startEvent b sel = (w', Inl (stage, closing, e))"
  shows "\<not> closing"
  using assms unfolding compactionWork_def
  by (elim thenR_cases) (auto dest!: atStage_closing elim!: thenR_cases)

lemma attempt_cases:
  assumes inv: "regionInv (re_stringify env) w" and b: "cb_sourceCommandId b = ro_sourceCommandId opts"
    and a: "attemptCompaction env opts w startEvent b sel = (w', r)"
  obtains (finished) res w1 e where "r = Inr res" "writes (re_stringify env) (insideBracket env b) w w1"
      "regionAppend env 3 (CompactionEnd b None) (None, None) w1 = (w', Inr e)"
  | (failed) stage err where "r = Inl (stage, False, err)"
      "writes (re_stringify env) (insideBracket env b) w w'"
  | (vetoed) stage err where "r = Inl (stage, True, err)" "re_veto env 3"
      "writes (re_stringify env) (insideBracket env b) w w'"
proof -
  let ?k = "\<lambda>w pending. thenR (atStage CommitStage True (regionAppend env 3 (CompactionEnd b None) (None, None) w))
       (\<lambda>w endEvent. (w, Inr (pending (seq endEvent))))"
  obtain w1 q where q: "compactionWork env opts w startEvent b sel = (w1, q)" by fastforce
  have ww: "writes (re_stringify env) (insideBracket env b) w w1"
    using work_writes [OF b, of env w startEvent sel] q by simp
  show thesis
  proof (cases q)
    case (Inl x)
    obtain stage closing err where x: "x = (stage, closing, err)" by (cases x) auto
    then have "\<not> closing" using work_closing q Inl by blast
    then show thesis using failed [of stage err] a q Inl x ww by (simp add: attemptCompaction_def)
  next
    case (Inr pending)
    obtain w2 z where z: "regionAppend env 3 (CompactionEnd b None) (None, None) w1 = (w2, z)" by fastforce
    show thesis
    proof (cases z)
      case (Inr e)
      then show thesis
        using finished [of "pending (seq e)" w1 e] a q z ww \<open>q = Inr pending\<close>
        by (simp add: attemptCompaction_def atStage_def)
    next
      case (Inl err)
      have i1: "regionInv (re_stringify env) w1" using ww inv by (simp add: writes_def)
      have "re_veto env 3" using end_accepted [OF i1, of env 3 b None] z Inl by fastforce
      moreover have "writes (re_stringify env) (insideBracket env b) w w2"
        using ww regionAppend_ok(1,2) [OF i1 z] Inl by (auto simp: writes_def)
      ultimately show thesis
        using vetoed [of CommitStage err] a q z \<open>q = Inr pending\<close> Inl
        by (simp add: attemptCompaction_def atStage_def)
    qed
  qed
qed

lemma finish_world: "fst (finishCompaction env opts (w, ended, outcome)) = w"
  by (auto simp: finishCompaction_def Let_def split: sum.split)

lemma finish_Inr:
  "finishCompaction env opts (w, ended, outcome) = (w', Inr res) \<Longrightarrow> outcome = Inr res \<and> w' = w"
  by (auto simp: finishCompaction_def Let_def split: sum.splits prod.splits if_splits)

text \<open>Without a veto of an end marker, settling leaves the bracket closed.\<close>

lemma settle_closes:
  assumes inv: "regionInv (re_stringify env) w" and b: "cb_sourceCommandId b = ro_sourceCommandId opts"
    and v: "\<not> re_veto env 3" "\<not> re_veto env 4"
    and s: "settleCompaction env b (attemptCompaction env opts w startEvent b sel) = (w', ended, outcome)"
  shows "ended \<and> regionInv (re_stringify env) w'
    \<and> (\<exists>inside endE err. logOf w' = logOf w @ inside @ [endE] \<and> list_all (insideBracket env b) inside
         \<and> ev_data endE = CompactionEnd b err \<and> (err = None \<longleftrightarrow> \<not> isl outcome))"
proof -
  obtain w1 q where a: "attemptCompaction env opts w startEvent b sel = (w1, q)" by fastforce
  from inv b a show ?thesis
  proof (cases rule: attempt_cases)
    case (finished res w2 e)
    obtain es where es: "regionInv (re_stringify env) w2" "logOf w2 = logOf w @ es" "list_all (insideBracket env b) es"
      using finished(2) inv by (auto simp: writes_def)
    have "ended" "w' = w1" "outcome = Inr res" using s a finished(1) by (auto simp: settleCompaction_def)
    then show ?thesis using regionAppend_ok(1,3) [OF es(1) finished(3)] es(2,3) by auto
  next
    case (failed stage err)
    obtain es where es: "regionInv (re_stringify env) w1" "logOf w1 = logOf w @ es" "list_all (insideBracket env b) es"
      using failed(2) inv by (auto simp: writes_def)
    obtain w2 e where w2: "regionAppend env 4 (CompactionEnd b (Some (re_describe env err))) (None, None) w1 = (w2, Inr e)"
      using end_accepted [OF es(1) v(2)] by blast
    then have "ended" "w' = w2" "isl outcome" using s a failed(1) by (auto simp: settleCompaction_def)
    then show ?thesis using regionAppend_ok(1,3) [OF es(1) w2] es(2,3) by auto
  next
    case (vetoed stage err)
    with v show ?thesis by simp
  qed
qed

text \<open>A call either writes nothing or gets its start marker and settles.\<close>

lemma compact_cases:
  assumes inv: "regionInv (re_stringify env) w" and c: "compactSurfaceRegion env opts w s t = (w', r)"
  obtains (refused) "logOf w' = logOf w" "isl r"
  | (opened) w1 sel owner b w2 startE where
      "validateSurfaceRegion w s t = (w1, Inr sel)" "regionInv (re_stringify env) w1" "logOf w1 = logOf w"
      "assertNoActiveCompaction (logOf w) = Inr ()"
      "compactionOwner opts (inspectCompactionEntryState (logOf w)) = Inr owner"
      "b = \<lparr>cb_compactionId = re_compactionId env, cb_sourceCommandId = ro_sourceCommandId opts,
         cb_turn = owner\<rparr>"
      "regionAppend env 0 (CompactionStart b) (None, None) w1 = (w2, Inr startE)"
      "finishCompaction env opts (settleCompaction env b (attemptCompaction env opts w2 startE b sel)) = (w', r)"
proof (cases "ro_manual opts \<and> re_abortedStart env")
  case True
  then show thesis using c refused by (auto simp: compactSurfaceRegion_def)
next
  case False
  obtain w1 q where val: "validateSurfaceRegion w s t = (w1, q)" by fastforce
  have q1: "regionInv (re_stringify env) w1" "logOf w1 = logOf w"
    using quiet_D [OF validate_quiet inv, of s t] val by simp_all
  let ?entry = "inspectCompactionEntryState (logOf w)"
  show thesis
  proof (cases "\<exists>sel owner. q = Inr sel \<and> compactionOwner opts ?entry = Inr owner
      \<and> assertCompactionInactive (es_start ?entry) (es_endSeed ?entry) = Inr ()")
    case no: False
    have "logOf w' = logOf w \<and> isl r"
      using c False val q1 no
      by (cases q; cases "assertCompactionInactive (es_start ?entry) (es_endSeed ?entry)";
          cases "compactionOwner opts ?entry") (auto simp: compactSurfaceRegion_def Let_def)
    then show thesis using refused by blast
  next
    case True
    then obtain sel owner where ok: "q = Inr sel" "compactionOwner opts ?entry = Inr owner"
        "assertCompactionInactive (es_start ?entry) (es_endSeed ?entry) = Inr ()" by blast
    define b where "b = \<lparr>cb_compactionId = re_compactionId env,
        cb_sourceCommandId = ro_sourceCommandId opts, cb_turn = owner\<rparr>"
    obtain w2 z where st: "regionAppend env 0 (CompactionStart b) (None, None) w1 = (w2, z)" by fastforce
    show thesis
    proof (cases z)
      case (Inl err)
      have "w' = w2" "isl r"
        using c False val ok st q1(2) Inl by (auto simp: compactSurfaceRegion_def Let_def b_def)
      then show thesis using refused regionAppend_ok(2) [OF q1(1) st] Inl q1(2) by simp
    next
      case (Inr startE)
      have "finishCompaction env opts (settleCompaction env b (attemptCompaction env opts w2 startE b sel)) = (w', r)"
        using c False val ok st q1(2) Inr by (auto simp: compactSurfaceRegion_def Let_def b_def)
      then show thesis
        using opened val ok st q1 Inr b_def by (auto simp: assertNoActiveCompaction_def Let_def)
    qed
  qed
qed

text \<open>
  Claim C27: a compaction takes the lock only when no live bracket is open, in the name of the owner
  it was asked for, and releases it whatever happens in between. Either nothing was written and
  the call failed, or the log grew by the start marker, by the events of this transaction and of
  other code, and by the matching end marker as the last one; the end marker is without an error
  when the call succeeds, and the call fails when it names one. Only a veto of the end marker
  itself leaves the bracket open.
\<close>

theorem bracket_closes:
  assumes inv: "regionInv (re_stringify env) w" and c: "compactSurfaceRegion env opts w s t = (w', r)"
    and v: "\<not> re_veto env 3" "\<not> re_veto env 4"
  shows "logOf w' = logOf w \<and> isl r
    \<or> (\<exists>b startE inside endE err.
         assertNoActiveCompaction (logOf w) = Inr ()
         \<and> compactionOwner opts (inspectCompactionEntryState (logOf w)) = Inr (cb_turn b)
         \<and> logOf w' = logOf w @ startE # inside @ [endE]
         \<and> ev_data startE = CompactionStart b \<and> ev_data endE = CompactionEnd b err
         \<and> list_all (insideBracket env b) inside \<and> (err \<noteq> None \<longrightarrow> isl r))"
  using inv c
proof (cases rule: compact_cases)
  case refused
  then show ?thesis by simp
next
  case (opened w1 sel owner b w2 startE)
  have i2: "regionInv (re_stringify env) w2" "logOf w2 = logOf w @ [startE]" "ev_data startE = CompactionStart b"
    using regionAppend_ok(1,3) [OF opened(2,7)] opened(3) by simp_all
  obtain w3 ended outcome where s3: "settleCompaction env b (attemptCompaction env opts w2 startE b sel)
      = (w3, ended, outcome)" by (metis prod_cases3)
  have "w' = w3" using opened(8) s3 finish_world [of env opts w3 ended outcome] by simp
  moreover have "isl r" if "isl outcome"
    using opened(8) s3 finish_Inr [of env opts w3 ended outcome w'] that by (cases r) auto
  moreover obtain inside endE err where "logOf w3 = logOf w2 @ inside @ [endE]"
      "list_all (insideBracket env b) inside" "ev_data endE = CompactionEnd b err" "err = None \<longleftrightarrow> \<not> isl outcome"
    using settle_closes [OF i2(1) _ v s3] opened(6) by auto
  ultimately show ?thesis
    using i2 opened(4-6)
    by (intro disjI2 exI [of _ b] exI [of _ startE] exI [of _ inside] exI [of _ endE] exI [of _ err]) simp
qed

section \<open>The replacement\<close>

lemma validate_Inr:
  assumes inv: "regionInv sf w" and st: "surfaceLog (logOf w) = Inr st"
    and v: "validateSurfaceRegion w s t = (w', Inr sel)"
  shows "\<exists>pre post. nodes st = pre @ sel_shadowed sel @ post \<and> sel_shadowed sel \<noteq> []
    \<and> hd (sel_shadowed sel) = s \<and> last (sel_shadowed sel) = t \<and> sel_start sel = s \<and> sel_end sel = t
    \<and> sel_startIdx sel = length pre \<and> Suc (sel_endIdx sel) = length pre + length (sel_shadowed sel)
    \<and> openCalls (logOf w) (sel_shadowed sel) = 0"
proof -
  obtain w1 where w1: "readSurface w = (w1, Inr (nodes st, replaceGeneration st))" "quiet sf w w1"
    using readSurface_ok [OF inv st] by blast
  have q1: "regionInv sf w1" "logOf w1 = logOf w" using quiet_D [OF w1(2) inv] by simp_all
  obtain i j w2 w3 where ix: "indexOf (nodes st) s = Some i" "indexOf (nodes st) t = Some j" "i \<le> j"
    and b: "balancedBefore w1 (nodes st ! i) = (w2, Inr True)" "balancedAfter w2 (nodes st ! j) = (w3, Inr True)"
    and sel: "sel = \<lparr>sel_start = s, sel_end = t, sel_startIdx = i, sel_endIdx = j,
        sel_shadowed = take (j + 1 - i) (drop i (nodes st))\<rparr>"
    using v w1(1) by (auto simp: validateSurfaceRegion_def thenR_Inr_iff not_less split: option.splits if_splits)
  note i = indexOf_SomeD [OF ix(1)] and j = indexOf_SomeD [OF ix(2)]
  have q2: "regionInv sf w2" "logOf w2 = logOf w"
    using balanced_quiet(1) [of sf w1 "nodes st ! i"] quiet_D [of sf w1 w2] q1 b(1) by simp_all
  have "indexOf (nodes st) (nodes st ! i) = Some i" "indexOf (nodes st) (nodes st ! j) = Some j"
    using ix i j by simp_all
  then have o: "openCalls (logOf w) (take i (nodes st)) = 0" "openCalls (logOf w) (take (Suc j) (nodes st)) = 0"
    using balanced_True(1) [OF q1(1) _ b(1), of st] balanced_True(2) [OF q2(1) _ b(2), of st] st q1(2) q2(2)
    by auto
  let ?sh = "take (j + 1 - i) (drop i (nodes st))"
  have split: "nodes st = take i (nodes st) @ ?sh @ drop (Suc j) (nodes st)"
    using splice_decompose [of i "j + 1 - i" "nodes st"] ix(3) j by (simp add: spliced_out_def)
  have "take (Suc j) (nodes st) = take i (nodes st) @ ?sh"
    using ix(3) take_add [of i "j + 1 - i" "nodes st"] by simp
  then have "openCalls (logOf w) ?sh = 0" using o by simp
  moreover have "?sh \<noteq> []" "hd ?sh = s" using i j ix(3) by (simp_all add: hd_drop_conv_nth)
  moreover have "last ?sh = t"
    proof -
    have "length ?sh - 1 = j - i" using j ix(3) by (auto simp: min_def)
    then have "last ?sh = ?sh ! (j - i)" using \<open>?sh \<noteq> []\<close> by (simp add: last_conv_nth)
    then show ?thesis using j ix(3) by simp
  qed
  moreover have "length ?sh = j + 1 - i" using j ix(3) by (auto simp: min_def)
  ultimately show ?thesis
    using split sel i ix(3) by (intro exI [of _ "take i (nodes st)"] exI [of _ "drop (Suc j) (nodes st)"]) simp
qed

lemma prepare_Inr:
  assumes inv: "regionInv (re_stringify env) w" and st: "surfaceLog (logOf w) = Inr st"
    and p: "prepareCompaction env w sel = (w', Inr p)"
  shows "pc_selection p = sel \<and> pc_nodes p = priced (re_stringify env) (logOf w) (nodes st)
    \<and> pc_selected p = priced (re_stringify env) (logOf w) (sel_shadowed sel)
    \<and> pc_shadowedTokens p = nodeTokens (priced (re_stringify env) (logOf w) (sel_shadowed sel))"
proof -
  obtain w1 m where m: "measureWorld env w = (w1, Inr m)"
    and k: "map tn_seq (take (sel_endIdx sel + 1 - sel_startIdx sel) (drop (sel_startIdx sel) (ms_nodes m)))
      = sel_shadowed sel"
    and r: "pc_selection p = sel" "pc_nodes p = ms_nodes m" "pc_selected p
      = take (sel_endIdx sel + 1 - sel_startIdx sel) (drop (sel_startIdx sel) (ms_nodes m))"
      "pc_shadowedTokens p = nodeTokens (pc_selected p)"
    using p by (auto simp: prepareCompaction_def Let_def thenR_Inr_iff split: if_splits prod.splits)
  have n: "ms_nodes m = priced (re_stringify env) (logOf w) (nodes st)"
    using measureWorld_ok(2) [OF inv st, of m] m by simp
  then have "take (sel_endIdx sel + 1 - sel_startIdx sel) (drop (sel_startIdx sel) (nodes st)) = sel_shadowed sel"
    using k by simp
  then have "pc_selected p = priced (re_stringify env) (logOf w) (sel_shadowed sel)"
    using r(3) n by simp
  with r n show ?thesis by simp
qed

lemma priced_seqs: "priced sf lg ns = priced sf lg' ns' \<Longrightarrow> ns = ns'"
  using priced_simps(2) by metis

lemma stable_Inr:
  assumes inv: "regionInv (re_stringify env) w" and st: "surfaceLog (logOf w) = Inr st"
    and a: "assertStable env opts w p = (w', Inr ())"
    and p: "pc_nodes p = priced (re_stringify env) lg0 (pre0 @ sel_shadowed (pc_selection p) @ post0)"
  shows "\<exists>pre post. nodes st = pre @ sel_shadowed (pc_selection p) @ post
    \<and> (\<not> ro_selectedSpan opts \<longrightarrow> pre = pre0 \<and> post = post0)"
proof (cases "ro_selectedSpan opts")
  case True
  then obtain w1 current where v: "validateSurfaceRegion w (sel_start (pc_selection p)) (sel_end (pc_selection p))
      = (w1, Inr current)" and same: "sel_shadowed current = sel_shadowed (pc_selection p)"
    using a by (auto simp: assertStable_def assertSelectedSpanStable_def split: prod.splits sum.splits if_splits)
  show ?thesis using validate_Inr [OF inv st v] True unfolding same by auto
next
  case False
  then obtain w1 m where "measureWorld env w = (w1, Inr m)" "ms_nodes m = pc_nodes p"
    using a by (auto simp: assertStable_def assertWholeSurfaceUnchanged_def thenR_Inr_iff split: if_splits)
  then have "priced (re_stringify env) (logOf w) (nodes st) = priced (re_stringify env) lg0 (pre0 @ sel_shadowed (pc_selection p) @ post0)"
    using measureWorld_ok(2) [OF inv st, of m] p by simp
  then show ?thesis using priced_seqs by blast
qed

text \<open>What the replacing message does to the surface it is appended to.\<close>

lemma replacement_commits:
  assumes st: "surfaceLog lg = Inr st" and st': "surfaceLog (lg @ [e]) = Inr st'"
    and op: "surfaceOp e = Some (replaceJson s t)" and u: "ev_data e = UserMsg m"
    and ns: "nodes st = pre @ sh @ post" "sh \<noteq> []" "hd sh = s" "last sh = t"
  shows "nodes st' = pre @ [length lg] @ post"
proof -
  have d: "distinct (nodes st)" using surfaceLog_inv [OF st] by (simp add: surfaceInv_def)
  obtain x ys where x: "sh = x # ys" using ns(2) by (cases sh) auto
  have "nodes st ! length pre = s" "nodes st ! (length pre + length ys) = t"
    using ns x by (cases ys rule: rev_cases; simp add: nth_append)+
  then have ix: "indexOf (nodes st) s = Some (length pre)" "indexOf (nodes st) t = Some (length pre + length ys)"
    using indexOf_nth [OF d, of "length pre"] indexOf_nth [OF d, of "length pre + length ys"] ns(1) x by auto
  obtain plan where plan: "planSurfaceEvent st e (length lg) lg 0 = Inr plan"
    and p: "st' = fst (applySurfacePlan st plan)"
    using surfaceLog_plan [OF st'] st by (metis Inr_inject)
  show ?thesis using plan
  proof (cases rule: planSurfaceEvent_cases)
    case skip
    then show ?thesis using u by (simp add: isSurfaceEligibleType_def SURFACE_EVENT_TYPES_def)
  next
    case append
    then show ?thesis using surfaceOpOf_append op by (simp add: replaceJson_def)
  next
    case (replace s' t' i j shadowed)
    have "s' = s" "t' = t"
      using surfaceOpOf_replace [OF replace(3)] op by (simp_all add: replaceJson_def)
    then have "i = length pre" "j = length pre + length ys"
      using replace(4) ix by (auto simp: replacementRange_def split: option.splits if_splits)
    then show ?thesis using replace(7) ns(1) x by (simp add: p splice_list_def)
  qed
qed

lemma open_local: "onLog lg ns \<Longrightarrow> openCalls (lg @ rest) ns = openCalls lg ns"
  by (induction ns) (simp_all add: nth_append)

lemma onLog_grow: "onLog lg ns \<Longrightarrow> onLog (lg @ rest) ns"
  by (induction ns) (simp_all add: nth_append)

lemma onLog_below: "onLog lg ns \<Longrightarrow> \<forall>s \<in> set ns. s < length lg"
  by (simp add: onLog_def list_all_iff)

lemma commit_Inr:
  assumes inv: "regionInv (re_stringify env) w" and st: "surfaceLog (logOf w) = Inr st"
    and c: "commitCompactionBody env w startE b p (r, m) = (w', Inr pending)"
    and ns: "nodes st = pre @ sel_shadowed (pc_selection p) @ post" "sel_shadowed (pc_selection p) \<noteq> []"
      "hd (sel_shadowed (pc_selection p)) = sel_start (pc_selection p)"
      "last (sel_shadowed (pc_selection p)) = sel_end (pc_selection p)"
  shows "\<exists>e1 e2 st'. regionInv (re_stringify env) w' \<and> logOf w' = logOf w @ [e1, e2]
    \<and> ev_data e1 = CompactionSummary (summaryPayload b (pc_selection p) (pc_shadowedTokens p) r)
    \<and> ev_data e2 = UserMsg m \<and> seq e2 = Suc (length (logOf w))
    \<and> surfaceLog (logOf w @ [e1]) = Inr st
    \<and> surfaceLog (logOf w') = Inr st' \<and> nodes st' = pre @ [Suc (length (logOf w))] @ post
    \<and> pending = (\<lambda>n. \<lparr>cr_compactionId = cb_compactionId b, cr_sourceCommandId = cb_sourceCommandId b,
         cr_startSeq = seq startE, cr_summarySeq = length (logOf w), cr_endSeq = n, cr_summary = sr_summary r,
         cr_start = sel_start (pc_selection p), cr_end = sel_end (pc_selection p),
         cr_shadowedSeqs = sel_shadowed (pc_selection p), cr_shadowedTokens = pc_shadowedTokens p\<rparr>)"
proof -
  let ?sel = "pc_selection p"
  let ?d1 = "CompactionSummary (summaryPayload b ?sel (pc_shadowedTokens p) r)"
  let ?meta = "\<lambda>e1. (Some (replaceJson (sel_start ?sel) (sel_end ?sel)),
      Some (seqsJson (seq startE # seq e1 # sel_shadowed ?sel)))"
  obtain w1 e1 w2 e2 where a1: "regionAppend env 1 ?d1 (None, None) w = (w1, Inr e1)"
    and a2: "regionAppend env 2 (UserMsg m) (?meta e1) w1 = (w2, Inr e2)"
    and w': "w' = w2" and pend: "pending = (\<lambda>n. \<lparr>cr_compactionId = cb_compactionId b,
         cr_sourceCommandId = cb_sourceCommandId b, cr_startSeq = seq startE, cr_summarySeq = seq e1,
         cr_endSeq = n, cr_summary = sr_summary r, cr_start = sel_start ?sel, cr_end = sel_end ?sel,
         cr_shadowedSeqs = sel_shadowed ?sel, cr_shadowedTokens = pc_shadowedTokens p\<rparr>)"
    using c by (auto simp: commitCompactionBody_def Let_def thenR_Inr_iff)
  have i1: "regionInv (re_stringify env) w1" "logOf w1 = logOf w @ [e1]" "ev_data e1 = ?d1"
      "seq e1 = length (logOf w)"
    using regionAppend_ok(1,3) [OF inv a1] by simp_all
  have i2: "regionInv (re_stringify env) w2" "logOf w2 = (logOf w @ [e1]) @ [e2]" "ev_data e2 = UserMsg m"
      "seq e2 = Suc (length (logOf w))" "surfaceOp e2 = Some (replaceJson (sel_start ?sel) (sel_end ?sel))"
    using regionAppend_ok(1,3) [OF i1(1) a2] i1(2) by simp_all
  obtain st1 where "surfaceLog (logOf w @ [e1]) = Inr st1" using regionInv_surface [OF i1(1)] i1(2) by metis
  moreover have "\<not> isSurfaceEvent e1"
    using i1(3) by (simp add: isSurfaceEvent_def isSurfaceEligibleType_def SURFACE_EVENT_TYPES_def)
  ultimately have s1: "surfaceLog (logOf w @ [e1]) = Inr st" using surfaceLog_silent [OF st] by blast
  obtain st2 where s2: "surfaceLog ((logOf w @ [e1]) @ [e2]) = Inr st2"
    using regionInv_surface [OF i2(1)] i2(2) by metis
  have "nodes st2 = pre @ [length (logOf w @ [e1])] @ post"
    by (rule replacement_commits [OF s1 s2 i2(5,3) ns])
  then show ?thesis using i1 i2 s1 s2 w' pend
    by (intro exI [of _ e1] exI [of _ e2] exI [of _ st2]) simp
qed

text \<open>
  The work of a transaction that got its start marker: the world before it, the replacement, and
  what the replaced range cost when it was priced.
\<close>

lemma work_Inr:
  assumes inv: "regionInv (re_stringify env) w" and st: "surfaceLog (logOf w) = Inr st0"
    and ns0: "nodes st0 = pre0 @ sel_shadowed sel @ post0" "sel_shadowed sel \<noteq> []"
      "hd (sel_shadowed sel) = sel_start sel" "last (sel_shadowed sel) = sel_end sel"
    and k: "compactionWork env opts w startE b sel = (w', Inr pending)"
  shows "\<exists>others e1 e2 st st' pre post r.
     regionInv (re_stringify env) w' \<and> logOf w' = logOf w @ others @ [e1, e2]
   \<and> list_all (\<lambda>e. ev_data e \<in> fst ` set (re_during env)) others
   \<and> ev_data e2 = UserMsg (checkpointMessage env (ro_sourceCommandId opts) r)
   \<and> estimateMessage (re_stringify env) (checkpointMessage env (ro_sourceCommandId opts) r)
       < nodeTokens (priced (re_stringify env) (logOf w) (sel_shadowed sel))
   \<and> surfaceLog (logOf w @ others @ [e1]) = Inr st \<and> nodes st = pre @ sel_shadowed sel @ post
   \<and> surfaceLog (logOf w') = Inr st'
   \<and> nodes st' = pre @ [Suc (length (logOf w @ others))] @ post
   \<and> (\<not> ro_selectedSpan opts \<longrightarrow> pre = pre0 \<and> post = post0)
   \<and> pending = (\<lambda>n. \<lparr>cr_compactionId = cb_compactionId b, cr_sourceCommandId = cb_sourceCommandId b,
         cr_startSeq = seq startE, cr_summarySeq = length (logOf w @ others), cr_endSeq = n,
         cr_summary = sr_summary r, cr_start = sel_start sel, cr_end = sel_end sel,
         cr_shadowedSeqs = sel_shadowed sel,
         cr_shadowedTokens = nodeTokens (priced (re_stringify env) (logOf w) (sel_shadowed sel))\<rparr>)"
proof -
  let ?sf = "re_stringify env"
  obtain w1 p w2 r m w3 where p1: "prepareCompaction env w sel = (w1, Inr p)"
    and p2: "summarizeCompaction env w1 p (ro_sourceCommandId opts) = (w2, Inr (r, m))"
    and p3: "assertStable env opts w2 p = (w3, Inr ())"
    and p4: "commitCompactionBody env w3 startE b p (r, m) = (w', Inr pending)"
    using k by (auto simp: compactionWork_def thenR_Inr_iff atStage_Inr split: if_splits)
  note p = prepare_Inr [OF inv st p1]
  have q1: "regionInv ?sf w1" "logOf w1 = logOf w"
    using quiet_D [OF prepare_quiet inv, of sel] p1 by simp_all
  note sc = summarize_checkpoint [OF p2]
  have m: "m = checkpointMessage env (ro_sourceCommandId opts) r" using conjunct1 [OF sc] by simp
  have m2: "estimateMessage ?sf m < nodeTokens (priced ?sf (logOf w) (sel_shadowed sel))"
    using conjunct1 [OF conjunct2 [OF sc]] p by simp
  have m3: "w2 = foldl otherAppend w1 (re_during env)" using conjunct2 [OF conjunct2 [OF sc]] .
  obtain others where o: "regionInv ?sf w2" "logOf w2 = logOf w @ others"
      "list_all (\<lambda>e. ev_data e \<in> fst ` set (re_during env)) others"
    using otherAppend_writes [of "re_during env" "\<lambda>e. ev_data e \<in> fst ` set (re_during env)" ?sf w1] q1 m3
    by (auto simp: writes_def)
  have q3: "regionInv ?sf w3" "logOf w3 = logOf w @ others"
    using quiet_D [OF stable_quiet o(1), of opts p] p3 o(2) by simp_all
  obtain st where st2: "surfaceLog (logOf w @ others) = Inr st"
    using regionInv_surface [OF o(1)] o(2) by metis
  obtain pre post where ns: "nodes st = pre @ sel_shadowed sel @ post"
      "\<not> ro_selectedSpan opts \<longrightarrow> pre = pre0 \<and> post = post0"
    using stable_Inr [OF o(1) _ p3, of st "logOf w" pre0 post0] st2 o(2) p ns0(1) by auto
  obtain e1 e2 st' where c: "regionInv ?sf w'" "logOf w' = logOf w3 @ [e1, e2]" "ev_data e2 = UserMsg m"
      "surfaceLog (logOf w3 @ [e1]) = Inr st" "surfaceLog (logOf w') = Inr st'"
      "nodes st' = pre @ [Suc (length (logOf w3))] @ post"
      "pending = (\<lambda>n. \<lparr>cr_compactionId = cb_compactionId b, cr_sourceCommandId = cb_sourceCommandId b,
         cr_startSeq = seq startE, cr_summarySeq = length (logOf w3), cr_endSeq = n, cr_summary = sr_summary r,
         cr_start = sel_start (pc_selection p), cr_end = sel_end (pc_selection p),
         cr_shadowedSeqs = sel_shadowed (pc_selection p), cr_shadowedTokens = pc_shadowedTokens p\<rparr>)"
    using commit_Inr [OF q3(1) _ p4, of st pre post] q3(2) st2 p ns(1) ns0 by auto
  show ?thesis
    using c o(3) m2 [unfolded m] m q3(2) ns p
    by (intro exI [of _ others] exI [of _ e1] exI [of _ e2] exI [of _ st] exI [of _ st'] exI [of _ pre]
        exI [of _ post] exI [of _ r]) simp
qed

lemma attempt_Inr:
  assumes "finishCompaction env opts (settleCompaction env b (attemptCompaction env opts w startE b sel))
    = (w', Inr res)"
  shows "\<exists>w1 pending e. compactionWork env opts w startE b sel = (w1, Inr pending)
    \<and> regionAppend env 3 (CompactionEnd b None) (None, None) w1 = (w', Inr e) \<and> res = pending (seq e)"
proof -
  obtain w2 ended outcome where s: "settleCompaction env b (attemptCompaction env opts w startE b sel)
      = (w2, ended, outcome)" by (metis prod_cases3)
  then have "outcome = Inr res" "w' = w2" using assms finish_Inr by auto
  then have "attemptCompaction env opts w startE b sel = (w', Inr res)"
    using s by (auto simp: settleCompaction_def split: prod.splits sum.splits bool.splits)
  then show ?thesis by (auto simp: attemptCompaction_def thenR_Inr_iff atStage_Inr)
qed

lemma compact_Inr:
  assumes "compactSurfaceRegion env opts w s t = (w', Inr res)"
  shows "\<exists>w1 sel b w2 startE. validateSurfaceRegion w s t = (w1, Inr sel)
    \<and> regionAppend env 0 (CompactionStart b) (None, None) w1 = (w2, Inr startE)
    \<and> finishCompaction env opts (settleCompaction env b (attemptCompaction env opts w2 startE b sel)) = (w', Inr res)"
  using assms by (auto simp: compactSurfaceRegion_def thenR_Inr_iff Let_def split: if_splits) blast+

text \<open>
  Claim C26: a compaction that succeeds replaces exactly its range. Just before the checkpoint the
  surface is \<open>pre @ shadowed @ post\<close>, with \<open>shadowed\<close> from the first to the last
  requested node; in the end it is \<open>pre\<close>, the checkpoint and \<open>post\<close>. The checkpoint
  frames the summary, the range holds as many calls as results, so no pair is split, and the
  priced surface has become smaller. A transaction that requires the whole surface to be stable
  found it as it was at the call.
\<close>

theorem compaction_replaces_range:
  assumes inv: "regionInv (re_stringify env) w" and c: "compactSurfaceRegion env opts w s t = (w', Inr res)"
  shows "\<exists>st st' pre shadowed post m.
     surfaceLog (take (Suc (cr_summarySeq res)) (logOf w')) = Inr st \<and> nodes st = pre @ shadowed @ post
   \<and> surfaceLog (logOf w') = Inr st' \<and> nodes st' = pre @ [Suc (cr_summarySeq res)] @ post
   \<and> shadowed = cr_shadowedSeqs res \<and> shadowed \<noteq> [] \<and> hd shadowed = s \<and> last shadowed = t
   \<and> ev_data (logOf w' ! Suc (cr_summarySeq res)) = UserMsg m \<and> msg_content m = frameSummary (cr_summary res)
   \<and> openCalls (logOf w') shadowed = 0
   \<and> nodeTokens (priced (re_stringify env) (logOf w') (nodes st'))
       < nodeTokens (priced (re_stringify env) (logOf w') (nodes st))
   \<and> (\<not> ro_selectedSpan opts \<longrightarrow> mapR nodes (surfaceLog (logOf w)) = Inr (nodes st))"
proof -
  let ?sf = "re_stringify env"
  obtain w1 sel b w2 startE where v: "validateSurfaceRegion w s t = (w1, Inr sel)"
    and a0: "regionAppend env 0 (CompactionStart b) (None, None) w1 = (w2, Inr startE)"
    and f: "finishCompaction env opts (settleCompaction env b (attemptCompaction env opts w2 startE b sel)) = (w', Inr res)"
    using compact_Inr [OF c] by blast
  obtain st0 where st0: "surfaceLog (logOf w) = Inr st0" "onLog (logOf w) (nodes st0)"
    using regionInv_surface [OF inv] by metis
  obtain pre0 post0 where sel: "nodes st0 = pre0 @ sel_shadowed sel @ post0" "sel_shadowed sel \<noteq> []"
      "hd (sel_shadowed sel) = s" "last (sel_shadowed sel) = t" "sel_start sel = s" "sel_end sel = t"
      "openCalls (logOf w) (sel_shadowed sel) = 0"
    using validate_Inr [OF inv st0(1) v] by blast
  have i1: "regionInv ?sf w1" "logOf w1 = logOf w"
    using quiet_D [OF validate_quiet inv, of s t] v by simp_all
  have i2: "regionInv ?sf w2" "logOf w2 = logOf w @ [startE]" "ev_data startE = CompactionStart b"
    using regionAppend_ok(1,3) [OF i1(1) a0] i1(2) by simp_all
  obtain st1 where st1: "surfaceLog (logOf w @ [startE]) = Inr st1" using regionInv_surface [OF i2(1)] i2(2) by metis
  have "st1 = st0"
    by (rule surfaceLog_silent [OF st0(1) st1])
      (simp add: i2(3) isSurfaceEvent_def isSurfaceEligibleType_def SURFACE_EVENT_TYPES_def)
  then have s2: "surfaceLog (logOf w2) = Inr st0" using st1 i2(2) by simp
  have ends: "hd (sel_shadowed sel) = sel_start sel" "last (sel_shadowed sel) = sel_end sel"
    using sel(3-6) by simp_all
  obtain w3 pending endE where k: "compactionWork env opts w2 startE b sel = (w3, Inr pending)"
    and a3: "regionAppend env 3 (CompactionEnd b None) (None, None) w3 = (w', Inr endE)"
    and res: "res = pending (seq endE)"
    using attempt_Inr [OF f] by blast
  obtain others e1 e2 st st' pre post r where
    i3: "regionInv ?sf w3" "logOf w3 = logOf w2 @ others @ [e1, e2]"
    and e2: "ev_data e2 = UserMsg (checkpointMessage env (ro_sourceCommandId opts) r)"
    and less: "estimateMessage ?sf (checkpointMessage env (ro_sourceCommandId opts) r)
       < nodeTokens (priced ?sf (logOf w2) (sel_shadowed sel))"
    and st: "surfaceLog (logOf w2 @ others @ [e1]) = Inr st" "nodes st = pre @ sel_shadowed sel @ post"
    and st': "surfaceLog (logOf w3) = Inr st'" "nodes st' = pre @ [Suc (length (logOf w2 @ others))] @ post"
    and whole: "\<not> ro_selectedSpan opts \<longrightarrow> pre = pre0 \<and> post = post0"
    and pend: "pending = (\<lambda>n. \<lparr>cr_compactionId = cb_compactionId b, cr_sourceCommandId = cb_sourceCommandId b,
         cr_startSeq = seq startE, cr_summarySeq = length (logOf w2 @ others), cr_endSeq = n,
         cr_summary = sr_summary r, cr_start = sel_start sel, cr_end = sel_end sel,
         cr_shadowedSeqs = sel_shadowed sel,
         cr_shadowedTokens = nodeTokens (priced ?sf (logOf w2) (sel_shadowed sel))\<rparr>)"
    using work_Inr [OF i2(1) s2 sel(1,2) ends k] by blast
  have i4: "regionInv ?sf w'" "logOf w' = logOf w3 @ [endE]" "ev_data endE = CompactionEnd b None"
    using regionAppend_ok(1,3) [OF i3(1) a3] by simp_all
  let ?n = "length (logOf w2 @ others)"
  have lg': "logOf w' = (logOf w2 @ others @ [e1]) @ [e2, endE]" using i3(2) i4(2) by simp
  obtain st2 where st2: "surfaceLog (logOf w3 @ [endE]) = Inr st2" using regionInv_surface [OF i4(1)] i4(2) by metis
  have "st2 = st'"
    by (rule surfaceLog_silent [OF st'(1) st2])
      (simp add: i4(3) isSurfaceEvent_def isSurfaceEligibleType_def SURFACE_EVENT_TYPES_def)
  then have fin: "surfaceLog (logOf w') = Inr st'" using st2 i4(2) by simp
  have at: "logOf w' ! Suc ?n = e2" by (simp add: lg' nth_append)
  have sh: "onLog (logOf w) (sel_shadowed sel)" using st0(2) sel(1) by simp
  have long: "logOf w' = logOf w2 @ others @ [e1, e2, endE]" "logOf w' = logOf w @ [startE] @ others @ [e1, e2, endE]"
    using lg' i2(2) by simp_all
  have price: "priced ?sf (logOf w') (sel_shadowed sel) = priced ?sf (logOf w2) (sel_shadowed sel)"
    unfolding long(1) by (rule priced_local) (use onLog_below [OF onLog_grow [OF sh, of "[startE]"]] i2(2) in simp)
  have "priced ?sf (logOf w') [Suc ?n] = [\<lparr>tn_seq = Suc ?n,
      tn_tokens = estimateMessage ?sf (checkpointMessage env (ro_sourceCommandId opts) r)\<rparr>]"
    unfolding priced_def priceOf_def list.map at e2 by simp
  then have "nodeTokens (priced ?sf (logOf w') (nodes st')) < nodeTokens (priced ?sf (logOf w') (nodes st))"
    using less price by (simp only: st'(2) st(2) priced_simps nodeTokens_append) (simp add: nodeTokens_def)
  moreover have "openCalls (logOf w') (sel_shadowed sel) = 0"
    unfolding long(2) using open_local [OF sh] sel(7) by simp
  moreover have "take (Suc ?n) (logOf w') = logOf w2 @ others @ [e1]" by (simp add: lg')
  ultimately show ?thesis
    using st st' fin at e2 sel whole st0(1) res pend
    by (intro exI [of _ st] exI [of _ st'] exI [of _ pre] exI [of _ "sel_shadowed sel"] exI [of _ post]
        exI [of _ "checkpointMessage env (ro_sourceCommandId opts) r"])
      (simp add: checkpointMessage_def)
qed

section \<open>An example\<close>

text \<open>Evaluation goes through the throws of a sequence before it looks at what follows.\<close>

declare bindR_def [code_unfold] thenR_def [code_unfold]

definition sample_region_env :: region_env where
  "sample_region_env =
     \<lparr>re_stringify = (\<lambda>_. ''''), re_now = int, re_veto = (\<lambda>_. False), re_compactionId = ''k'',
      re_messageId = ''cp'', re_during = [],
      re_summarize = (\<lambda>_. Inr \<lparr>sr_summary = [], sr_provider = ''p'', sr_model = ''m'',
        sr_maxTokens = None, sr_usage = None, sr_rawOutput = None, sr_llmStreamCall = False\<rparr>),
      re_abortedStart = False, re_abortedSummary = False, re_abortedEnd = False, re_flush = Some True,
      re_describe = (\<lambda>_. ''failed'')\<rparr>"

definition sample_manual :: region_options where
  "sample_manual = \<lparr>ro_manual = True, ro_selectedSpan = True, ro_sourceCommandId = None\<rparr>"

text \<open>A session with two messages of many blocks and a message of one.\<close>

definition sample_text :: "nat \<Rightarrow> message" where
  "sample_text n = \<lparr>msg_id = ''u'', msg_role = User, msg_content = replicate n (TextBlock ''''),
     msg_source = UserSource\<rparr>"

definition sample_add :: "session \<Rightarrow> nat \<Rightarrow> session" where
  "sample_add S n = fst (append S 0 (Some (UserMsg (sample_text n))) (Some (Some (JStr ''append''), None)))"

definition sample_region :: region_world where
  "sample_region =
     \<lparr>rw_session = sample_add (sample_add (sample_add sample_start 12) 12) 1, rw_balance = None,
      rw_meter = newMeter\<rparr>"

lemma sample_region_inv: "regionInv sf sample_region"
proof -
  have "live (rw_session sample_region)"
    unfolding sample_region_def sample_add_def
    by (simp, (rule live_append [OF _ prod.collapse [symmetric]])+, rule sample_start_live)
  then show ?thesis
    using live_inv meterInv_new by (simp add: regionInv_def sample_region_def)
qed

theorem selected_range_is_longest_witness:
  "\<exists>w2 k. snd (selectCompactableRange (fst (measureWorld sample_region_env sample_region))
       (projr (snd (measureWorld sample_region_env sample_region))) 5) = Inr (Some (0, 1))
     \<and> snd (validateSurfaceRegion w2 0 1) = Inr \<lparr>sel_start = 0, sel_end = 1, sel_startIdx = 0,
         sel_endIdx = k - 1, sel_shadowed = [0, 1]\<rparr>"
proof -
  let ?m = "measureWorld sample_region_env sample_region"
  let ?r = "selectCompactableRange (fst ?m) (projr (snd ?m)) 5"
  have st: "surfaceLog (logOf sample_region) = Inr \<lparr>nodes = [0, 1, 2], replaceGeneration = 0\<rparr>"
    by code_simp
  have "\<not> isl (snd ?m)" by code_simp
  then have m: "?m = (fst ?m, Inr (projr (snd ?m)))" by (simp add: prod_eq_iff)
  have r: "snd ?r = Inr (Some (0, 1))" by code_simp
  then have r': "?r = (fst ?r, Inr (Some (0, 1)))" by (simp add: prod_eq_iff)
  from selected_range_is_longest [OF sample_region_inv st m r'] obtain k where
    k: "snd (validateSurfaceRegion (fst ?r) 0 1) = Inr \<lparr>sel_start = 0, sel_end = 1, sel_startIdx = 0,
         sel_endIdx = k - 1, sel_shadowed = take k [0, 1, 2]\<rparr>" by auto
  moreover have "sel_shadowed (projr (snd (validateSurfaceRegion (fst ?r) 0 1))) = [0, 1]" by code_simp
  ultimately show ?thesis using r by (intro exI [of _ "fst ?r"] exI [of _ k]) simp
qed

abbreviation sample_compaction :: "region_world \<times> (region_error + compaction_result)" where
  "sample_compaction \<equiv> compactSurfaceRegion sample_region_env sample_manual sample_region 0 1"

lemma sample_compaction_run:
  "(case sample_compaction of
      (w, Inl _) \<Rightarrow> False
    | (w, Inr res) \<Rightarrow> length (logOf w) = 7 \<and> cr_shadowedSeqs res = [0, 1])"
  by code_simp

theorem bracket_closes_witness:
  "length (logOf (fst sample_compaction)) = 7
     \<and> (\<exists>b e. ev_data (last (logOf (fst sample_compaction))) = CompactionEnd b e)"
proof -
  have l: "length (logOf (fst sample_compaction)) = 7"
    using sample_compaction_run by (auto split: prod.splits sum.splits)
  have n: "length (logOf sample_region) = 3" by code_simp
  have "\<not> re_veto sample_region_env 3" "\<not> re_veto sample_region_env 4"
    by (simp_all add: sample_region_env_def)
  from bracket_closes [OF sample_region_inv prod.collapse [symmetric] this, of sample_manual 0 1] l n
  show ?thesis by auto
qed

theorem compaction_replaces_range_witness:
  "\<exists>res st'. snd sample_compaction = Inr res \<and> cr_shadowedSeqs res = [0, 1]
     \<and> surfaceLog (logOf (fst sample_compaction)) = Inr st' \<and> Suc (cr_summarySeq res) \<in> set (nodes st')"
proof -
  obtain w res where c: "sample_compaction = (w, Inr res)" "cr_shadowedSeqs res = [0, 1]"
    using sample_compaction_run by (auto split: prod.splits sum.splits)
  from compaction_replaces_range [OF sample_region_inv c(1)]
  obtain st' pre post where "surfaceLog (logOf w) = Inr st'" "nodes st' = pre @ [Suc (cr_summarySeq res)] @ post"
    by blast
  then show ?thesis using c by auto
qed

end
