(* ===== verification/Compaction_Companion.thy ===== *)
theory Compaction_Companion
  imports Compaction_Facts
begin

text \<open>
  \<^verbatim>\<open>packages/compaction/compaction/src/invariant.ts\<close>: the relational checks of the compaction
  events of a log, made before such an event is published. \<open>validateCompactionEvent\<close> is pure
  and returns the transition that \<open>applyCompactionTransition\<close> commits when the event is
  published. The theory ends with the proof that the transaction of \<open>Compaction\<close> writes only
  what these checks accept.
\<close>

section \<open>The trace of one session\<close>

record compaction_trace =
  ct_compactionId :: string
  ct_sourceCommandId :: "string option"
  ct_startSeq :: nat
  ct_turn :: "int option"
  ct_summarized :: bool

record bracket_trace =
  bt_openTurn :: "int option"
  bt_compaction :: "compaction_trace option"

datatype compaction_transition =
    StartTransition string "string option" nat "int option"
  | SummaryTransition string "string option" nat "int option"
  | EndTransition
  | EndSeedTransition

datatype bracket_error =
    BadId string
  | SourceMismatch string "json option" "string option"
  | NoMatchingStart string
  | IdMismatch string string string
  | BoundaryCrosses string "int option"
  | StandaloneInTurn string int
  | OwnerOutsideTurn string int
  | OwnerMismatch string int int
  | StillCompacting "int option"
  | RepeatedSummary
  | EmptyShadow
  | RangeMismatch
  | BadTokenCount int
  | EndOwnerMismatch "int option" "int option"
  | UnsummarizedEnd
  | BracketNotStaged

definition freshBrackets :: bracket_trace where
  "freshBrackets = \<lparr>bt_openTurn = None, bt_compaction = None\<rparr>"

section \<open>Checks\<close>

definition validateId :: "json option \<Rightarrow> string \<Rightarrow> bracket_error + string" where
  "validateId v label =
     (case v of Some (JStr s) \<Rightarrow> if s = [] then Inl (BadId label) else Inr s | _ \<Rightarrow> Inl (BadId label))"

text \<open>An optional identity: checked when it is there.\<close>

definition validateOptionalId :: "json option \<Rightarrow> string \<Rightarrow> bracket_error + unit" where
  "validateOptionalId v label = (if v = None then Inr () else mapR (\<lambda>_. ()) (validateId v label))"

definition validateSourceCommandId ::
  "string \<Rightarrow> json option \<Rightarrow> string option \<Rightarrow> bracket_error + unit" where
  "validateSourceCommandId kind v expected =
     bindR (validateOptionalId v (kind @ '' sourceCommandId'')) (\<lambda>_.
       if v \<noteq> map_option JStr expected then Inl (SourceMismatch kind v expected) else Inr ())"

definition validateOwner :: "int option \<Rightarrow> int option \<Rightarrow> string \<Rightarrow> bracket_error + unit" where
  "validateOwner owner open_turn kind =
     (case owner of
        None \<Rightarrow> (case open_turn of None \<Rightarrow> Inr () | Some turn \<Rightarrow> Inl (StandaloneInTurn kind turn))
      | Some turn \<Rightarrow>
          (case open_turn of
             None \<Rightarrow> Inl (OwnerOutsideTurn kind turn)
           | Some turn' \<Rightarrow> if turn \<noteq> turn' then Inl (OwnerMismatch kind turn turn') else Inr ()))"

definition isCompactCheckpointSource :: "message_source \<Rightarrow> bool" where
  "isCompactCheckpointSource source =
     (case source of PluginSource plugin _ \<Rightarrow> plugin = ''compact'' | _ \<Rightarrow> False)"

text \<open>The members of a plugin's provenance beside its kind and its name.\<close>

definition sourceProp :: "string \<Rightarrow> message_source \<Rightarrow> json option" where
  "sourceProp k source = (case source of PluginSource _ j \<Rightarrow> jprop k j | _ \<Rightarrow> None)"

definition validateCheckpoint :: "bracket_trace \<Rightarrow> message \<Rightarrow> bracket_error + unit" where
  "validateCheckpoint t m =
     (let cid = sourceProp ''compactionId'' (msg_source m);
          command = sourceProp ''sourceCommandId'' (msg_source m)
      in bindR (validateId cid ''compaction checkpoint compactionId'') (\<lambda>cid.
         bindR (validateOptionalId command ''compaction checkpoint sourceCommandId'') (\<lambda>_.
           case bt_compaction t of
             None \<Rightarrow> Inl (NoMatchingStart ''compaction checkpoint'')
           | Some c \<Rightarrow>
               if cid \<noteq> ct_compactionId c
               then Inl (IdMismatch ''compaction checkpoint'' cid (ct_compactionId c))
               else validateSourceCommandId ''compaction checkpoint'' command (ct_sourceCommandId c))))"

definition validateTurnBoundary :: "bracket_trace \<Rightarrow> event \<Rightarrow> bracket_error + unit" where
  "validateTurnBoundary t e =
     (case bt_compaction t of
        None \<Rightarrow> Inr ()
      | Some c \<Rightarrow>
          (case ev_data e of
             TurnStart _ \<Rightarrow> Inl (BoundaryCrosses ''turn/start'' (ct_turn c))
           | TurnEnd _ _ \<Rightarrow> Inl (BoundaryCrosses ''turn/end'' (ct_turn c))
           | _ \<Rightarrow> Inr ()))"

text \<open>The result says whether the event was a boundary.\<close>

definition applyTurnBoundary :: "bracket_trace \<Rightarrow> event \<Rightarrow> bracket_trace \<times> bool" where
  "applyTurnBoundary t e =
     (case ev_data e of
        TurnStart turn \<Rightarrow> (t\<lparr>bt_openTurn := Some turn\<rparr>, True)
      | TurnEnd _ _ \<Rightarrow> (t\<lparr>bt_openTurn := None\<rparr>, True)
      | _ \<Rightarrow> (t, False))"

definition validateStart ::
  "bracket_trace \<Rightarrow> event \<Rightarrow> compaction_bracket \<Rightarrow> bracket_error + compaction_transition" where
  "validateStart t e b =
     bindR (validateId (Some (JStr (cb_compactionId b))) ''compaction/start compactionId'') (\<lambda>cid.
     bindR (validateOptionalId (map_option JStr (cb_sourceCommandId b)) ''compaction/start sourceCommandId'') (\<lambda>_.
       case bt_compaction t of
         Some c \<Rightarrow> Inl (StillCompacting (ct_turn c))
       | None \<Rightarrow>
           bindR (validateOwner (cb_turn b) (bt_openTurn t) ''compaction/start'') (\<lambda>_.
             Inr (StartTransition cid (cb_sourceCommandId b) (seq e) (cb_turn b)))))"

text \<open>What the summary and the end check in common: their identities, against the open start.\<close>

definition validateMatch ::
  "bracket_trace \<Rightarrow> string \<Rightarrow> string \<Rightarrow> string option \<Rightarrow> bracket_error + compaction_trace" where
  "validateMatch t kind cid command =
     bindR (validateId (Some (JStr cid)) (kind @ '' compactionId'')) (\<lambda>cid.
     bindR (validateOptionalId (map_option JStr command) (kind @ '' sourceCommandId'')) (\<lambda>_.
       case bt_compaction t of
         None \<Rightarrow> Inl (NoMatchingStart kind)
       | Some c \<Rightarrow>
           if cid \<noteq> ct_compactionId c then Inl (IdMismatch kind cid (ct_compactionId c))
           else
             bindR (validateSourceCommandId kind (map_option JStr command) (ct_sourceCommandId c)) (\<lambda>_.
               Inr c)))"

definition validateSummary ::
  "bracket_trace \<Rightarrow> compaction_summary \<Rightarrow> bracket_error + compaction_transition" where
  "validateSummary t p =
     bindR (validateMatch t ''compaction/summary'' (cs_bracket_id p) (cs_sourceCommandId p)) (\<lambda>c.
     bindR (validateOwner (ct_turn c) (bt_openTurn t) ''compaction/summary'') (\<lambda>_.
       if ct_summarized c then Inl RepeatedSummary
       else if cs_shadowedSeqs p = [] then Inl EmptyShadow
       else if hd (cs_shadowedSeqs p) \<noteq> cs_start p \<or> last (cs_shadowedSeqs p) \<noteq> cs_end p
       then Inl RangeMismatch
       else if \<not> safeInt (cs_shadowedTokenCount p) \<or> cs_shadowedTokenCount p < 0
       then Inl (BadTokenCount (cs_shadowedTokenCount p))
       else Inr (SummaryTransition (ct_compactionId c) (ct_sourceCommandId c) (ct_startSeq c) (ct_turn c))))"

definition validateEnd ::
  "bracket_trace \<Rightarrow> compaction_bracket \<Rightarrow> string option \<Rightarrow> bracket_error + compaction_transition" where
  "validateEnd t b err =
     bindR (validateMatch t ''compaction/end'' (cb_compactionId b) (cb_sourceCommandId b)) (\<lambda>c.
       if cb_turn b \<noteq> ct_turn c then Inl (EndOwnerMismatch (cb_turn b) (ct_turn c))
       else
         bindR (validateOwner (ct_turn c) (bt_openTurn t) ''compaction/end'') (\<lambda>_.
           if err = None \<and> \<not> ct_summarized c then Inl UnsummarizedEnd else Inr EndTransition))"

definition validateCompactionEvent ::
  "bracket_trace \<Rightarrow> event \<Rightarrow> bracket_error + compaction_transition option" where
  "validateCompactionEvent t e =
     (case ev_data e of
        EndSeed \<Rightarrow> Inr (Some EndSeedTransition)
      | UserMsg m \<Rightarrow>
          if isReplacementSurfaceEvent e \<and> isCompactCheckpointSource (msg_source m)
          then mapR (\<lambda>_. None) (validateCheckpoint t m) else Inr None
      | CompactionStart b \<Rightarrow> mapR Some (validateStart t e b)
      | CompactionSummary p \<Rightarrow> mapR Some (validateSummary t p)
      | CompactionEnd b err \<Rightarrow> mapR Some (validateEnd t b err)
      | _ \<Rightarrow> Inr None)"

fun applyCompactionTransition :: "compaction_transition \<Rightarrow> compaction_trace option" where
  "applyCompactionTransition (StartTransition cid command s turn) =
     Some \<lparr>ct_compactionId = cid, ct_sourceCommandId = command, ct_startSeq = s, ct_turn = turn,
           ct_summarized = False\<rparr>"
| "applyCompactionTransition (SummaryTransition cid command s turn) =
     Some \<lparr>ct_compactionId = cid, ct_sourceCommandId = command, ct_startSeq = s, ct_turn = turn,
           ct_summarized = True\<rparr>"
| "applyCompactionTransition _ = None"

definition commitTransition :: "bracket_trace \<Rightarrow> compaction_transition option \<Rightarrow> bracket_trace" where
  "commitTransition t tr =
     (case tr of None \<Rightarrow> t | Some x \<Rightarrow> t\<lparr>bt_compaction := applyCompactionTransition x\<rparr>)"

section \<open>Seeding\<close>

text \<open>The loop carries the stale starts found so far and the start that is open.\<close>

fun orphanLoop :: "nat list \<Rightarrow> nat option \<Rightarrow> event list \<Rightarrow> nat list" where
  "orphanLoop stale start [] = stale"
| "orphanLoop stale start (e # es) =
     (case ev_data e of
        CompactionStart _ \<Rightarrow> orphanLoop stale (Some (seq e)) es
      | CompactionEnd _ _ \<Rightarrow> orphanLoop stale None es
      | EndSeed \<Rightarrow>
          orphanLoop (case start of None \<Rightarrow> stale | Some s \<Rightarrow> List.insert s stale) None es
      | _ \<Rightarrow> orphanLoop stale start es)"

definition inheritedOrphanStartSeqs :: "event list \<Rightarrow> nat list" where
  "inheritedOrphanStartSeqs events = orphanLoop [] None events"

text \<open>The body of the seeding loop.\<close>

definition bracketStep :: "nat list \<Rightarrow> bracket_trace \<Rightarrow> event \<Rightarrow> bracket_error + bracket_trace" where
  "bracketStep stale t e =
     bindR
       (if (case bt_compaction t of None \<Rightarrow> True | Some c \<Rightarrow> ct_startSeq c \<notin> set stale)
        then validateTurnBoundary t e else Inr ()) (\<lambda>_.
     mapR (\<lambda>tr. fst (applyTurnBoundary (commitTransition t tr) e)) (validateCompactionEvent t e))"

definition seedBrackets :: "event list \<Rightarrow> bracket_error + bracket_trace" where
  "seedBrackets events = runR (bracketStep (inheritedOrphanStartSeqs events)) freshBrackets events"

section \<open>The installed companion\<close>

text \<open>
  Sessions and event objects are named by a number each. The loop of a seeding mutates the trace
  it has stored, so a failure leaves the trace of the events before it.
\<close>

record bracket_companion =
  bc_traces :: "nat \<rightharpoonup> bracket_trace"
  bc_staged :: "nat \<rightharpoonup> nat \<times> compaction_transition"

fun bracketSeedLoop ::
  "nat list \<Rightarrow> bracket_trace \<Rightarrow> event list \<Rightarrow> bracket_trace \<times> bracket_error option" where
  "bracketSeedLoop stale t [] = (t, None)"
| "bracketSeedLoop stale t (e # es) =
     (case bracketStep stale t e of
        Inl err \<Rightarrow> (t, Some err)
      | Inr t' \<Rightarrow> bracketSeedLoop stale t' es)"

definition seedBracketSession ::
  "bracket_companion \<Rightarrow> nat \<Rightarrow> event list \<Rightarrow> bracket_companion \<times> (bracket_error + bracket_trace)" where
  "seedBracketSession c sid events =
     (case bracketSeedLoop (inheritedOrphanStartSeqs events) freshBrackets events of
        (t, err) \<Rightarrow>
          (c\<lparr>bc_traces := (bc_traces c)(sid \<mapsto> t)\<rparr>,
           case err of None \<Rightarrow> Inr t | Some x \<Rightarrow> Inl x))"

definition bracketTraceFor ::
  "bracket_companion \<Rightarrow> nat \<Rightarrow> event list \<Rightarrow> bracket_companion \<times> (bracket_error + bracket_trace)" where
  "bracketTraceFor c sid events =
     (case bc_traces c sid of Some t \<Rightarrow> (c, Inr t) | None \<Rightarrow> seedBracketSession c sid events)"

text \<open>The listener of \<^verbatim>\<open>internal/dispatch\<close>.\<close>

definition onBracketDispatch ::
  "bracket_companion \<Rightarrow> nat \<Rightarrow> event list \<Rightarrow> nat \<Rightarrow> event \<Rightarrow> bracket_companion \<times> (bracket_error + unit)"
where
  "onBracketDispatch c sid events key e =
     thenR (bracketTraceFor c sid events) (\<lambda>c t.
     thenR (c, validateTurnBoundary t e) (\<lambda>c _.
     thenR (c, validateCompactionEvent t e) (\<lambda>c tr.
       (case tr of None \<Rightarrow> c | Some x \<Rightarrow> c\<lparr>bc_staged := (bc_staged c)(key \<mapsto> (sid, x))\<rparr>, Inr ()))))"

definition isBracketEvent :: "event_data \<Rightarrow> bool" where
  "isBracketEvent d =
     (case d of EndSeed \<Rightarrow> True | CompactionStart _ \<Rightarrow> True | CompactionSummary _ \<Rightarrow> True
      | CompactionEnd _ _ \<Rightarrow> True | _ \<Rightarrow> False)"

text \<open>The listener of \<^verbatim>\<open>session/event\<close>.\<close>

definition onBracketEvent ::
  "bracket_companion \<Rightarrow> nat \<Rightarrow> event list \<Rightarrow> nat \<Rightarrow> event \<Rightarrow> bracket_companion \<times> (bracket_error + unit)"
where
  "onBracketEvent c sid events key e =
     thenR (bracketTraceFor c sid events) (\<lambda>c t.
     thenR (c, validateTurnBoundary t e) (\<lambda>c _.
       (case applyTurnBoundary t e of (t', boundary) \<Rightarrow>
          let c = c\<lparr>bc_traces := (bc_traces c)(sid \<mapsto> t')\<rparr>
          in if boundary \<or> \<not> isBracketEvent (ev_data e) then (c, Inr ())
             else
               (case bc_staged c key of
                  None \<Rightarrow> (c, Inl BracketNotStaged)
                | Some (sid', tr) \<Rightarrow>
                    if sid' \<noteq> sid then (c, Inl BracketNotStaged)
                    else
                      (c\<lparr>bc_staged := (bc_staged c)(key := None),
                         bc_traces := (bc_traces c)(sid \<mapsto> t'\<lparr>bt_compaction := applyCompactionTransition tr\<rparr>)\<rparr>,
                       Inr ())))))"
end
