(* ===== verification/Bracket_Facts.thy ===== *)
theory Bracket_Facts
  imports Compaction_Companion
begin

text \<open>
  The compaction transaction against the compaction companion. The backward scan with which a
  transaction decides whether it may start agrees with the trace of the companion, and whatever a
  transaction writes, in success and in failure, the companion accepts.
\<close>

section \<open>The entry scan and the trace\<close>

text \<open>What the backward loop looks for, each on its own, in a log read from its end.\<close>

fun findTurn :: "event list \<Rightarrow> int option" where
  "findTurn [] = None"
| "findTurn (e # es) =
     (case ev_data e of TurnStart t \<Rightarrow> Some t | TurnEnd _ _ \<Rightarrow> None | _ \<Rightarrow> findTurn es)"

fun findStart :: "event list \<Rightarrow> event option" where
  "findStart [] = None"
| "findStart (e # es) =
     (case ev_data e of CompactionStart _ \<Rightarrow> Some e | CompactionEnd _ _ \<Rightarrow> None | _ \<Rightarrow> findStart es)"

fun findSeed :: "event list \<Rightarrow> nat option" where
  "findSeed [] = None"
| "findSeed (e # es) = (if ev_data e = EndSeed then Some (seq e) else findSeed es)"

lemma entryLoop_turn:
  "(\<not> es_turnKnown st \<longrightarrow> es_openTurn st = None)
    \<Longrightarrow> es_openTurn (entryLoop st es) = (if es_turnKnown st then es_openTurn st else findTurn es)"
proof (induction es arbitrary: st)
  case (Cons e es)
  then show ?case
    by (cases "ev_data e"; cases "es_turnKnown st"; cases "es_startKnown st"; cases "es_endSeed st")
      (simp_all add: Let_def)
qed simp

lemma entryLoop_start:
  "(\<not> es_startKnown st \<longrightarrow> es_start st = None)
    \<Longrightarrow> es_start (entryLoop st es) = (if es_startKnown st then es_start st else findStart es)"
proof (induction es arbitrary: st)
  case (Cons e es)
  then show ?case
    by (cases "ev_data e"; cases "es_turnKnown st"; cases "es_startKnown st"; cases "es_endSeed st")
      (simp_all add: Let_def)
qed simp

lemma entryLoop_seed:
  "es_endSeed (entryLoop st es) = (if es_endSeed st \<noteq> None then es_endSeed st else findSeed es)"
proof (induction es arbitrary: st)
  case (Cons e es)
  then show ?case
    by (cases "ev_data e"; cases "es_turnKnown st"; cases "es_startKnown st"; cases "es_endSeed st")
      (simp_all add: Let_def)
qed simp

lemma inspect_finds:
  "es_openTurn (inspectCompactionEntryState lg) = findTurn (rev lg)"
  "es_start (inspectCompactionEntryState lg) = findStart (rev lg)"
  "es_endSeed (inspectCompactionEntryState lg) = findSeed (rev lg)"
  by (simp_all add: inspectCompactionEntryState_def entryLoop_turn entryLoop_start entryLoop_seed)

lemma findStart_mem: "findStart es = Some e \<Longrightarrow> e \<in> set es"
  by (induction es) (auto split: event_data.splits)

lemma findSeed_mem: "findSeed es = Some n \<Longrightarrow> n \<in> seq ` set es"
  by (induction es) (auto split: if_splits)

lemmas bracket_checks = validateTurnBoundary_def applyTurnBoundary_def validateCompactionEvent_def
  commitTransition_def

text \<open>One event, seen by the companion and by the scan.\<close>

lemma step_openTurn:
  "bracketStep S t e = Inr t' \<Longrightarrow> bt_openTurn t' =
     (case ev_data e of TurnStart n \<Rightarrow> Some n | TurnEnd _ _ \<Rightarrow> None | _ \<Rightarrow> bt_openTurn t)"
  by (cases "ev_data e")
    (auto simp: bracketStep_def bracket_checks result_simps split: option.splits if_splits)

lemma summary_keeps_open:
  "validateSummary t p = Inr tr \<Longrightarrow> bt_compaction t \<noteq> None \<and> applyCompactionTransition tr \<noteq> None"
  by (auto simp: validateSummary_def validateMatch_def result_simps split: option.splits if_splits)

lemma start_opens:
  "validateStart t e b = Inr tr \<Longrightarrow> bt_compaction t = None \<and> applyCompactionTransition tr \<noteq> None"
  by (auto simp: validateStart_def result_simps split: option.splits)

lemma end_closes:
  "validateEnd t b err = Inr tr \<Longrightarrow> tr = EndTransition"
  by (auto simp: validateEnd_def result_simps split: if_splits)

lemma bracketStep_Inr:
  assumes "bracketStep S t e = Inr t'"
  obtains tr where "validateCompactionEvent t e = Inr tr" "t' = fst (applyTurnBoundary (commitTransition t tr) e)"
  using assms by (auto simp: bracketStep_def result_simps)

lemma boundary_compaction [simp]: "bt_compaction (fst (applyTurnBoundary t e)) = bt_compaction t"
  by (simp add: applyTurnBoundary_def split: event_data.split)

lemma step_compaction:
  assumes "bracketStep S t e = Inr t'"
  shows "bt_compaction t' = None \<longleftrightarrow>
     (case ev_data e of CompactionStart _ \<Rightarrow> False | CompactionEnd _ _ \<Rightarrow> True | EndSeed \<Rightarrow> True
      | _ \<Rightarrow> bt_compaction t = None)"
proof -
  obtain tr where "validateCompactionEvent t e = Inr tr" "bt_compaction t' = bt_compaction (commitTransition t tr)"
    using bracketStep_Inr [OF assms] by (metis boundary_compaction)
  then show ?thesis
    by (cases "ev_data e")
      (auto simp: validateCompactionEvent_def commitTransition_def result_simps
        dest: summary_keeps_open start_opens end_closes split: if_splits)
qed

text \<open>A start is live when no end and no later end of a seed follows it.\<close>

definition liveStart :: "event option \<Rightarrow> nat option \<Rightarrow> bool" where
  "liveStart start endSeed \<longleftrightarrow> assertCompactionInactive start endSeed \<noteq> Inr ()"

lemma entry_agrees:
  assumes "\<forall>i < length lg. seq (lg ! i) = i" and "runR (bracketStep S) freshBrackets lg = Inr t"
  shows "findTurn (rev lg) = bt_openTurn t
    \<and> (liveStart (findStart (rev lg)) (findSeed (rev lg)) \<longleftrightarrow> bt_compaction t \<noteq> None)"
  using assms
proof (induction lg arbitrary: t rule: rev_induct)
  case Nil
  then show ?case by (auto simp: freshBrackets_def liveStart_def assertCompactionInactive_def)
next
  case (snoc e lg)
  obtain t0 where t0: "runR (bracketStep S) freshBrackets lg = Inr t0" "bracketStep S t0 e = Inr t"
    using snoc.prems(2) by (auto simp: runR_snoc result_simps)
  have seqs: "\<forall>i < length lg. seq (lg ! i) = i"
    using snoc.prems(1) by (metis length_append_singleton less_Suc_eq nth_append)
  have e: "seq e = length lg" using snoc.prems(1) by (auto dest: spec [of _ "length lg"])
  note ih = snoc.IH [OF seqs t0(1)]
  have below: "\<forall>x \<in> set lg. seq x < length lg" using seqs by (auto simp: in_set_conv_nth)
  have start: "seq x < length lg" if "findStart (rev lg) = Some x" for x
    using findStart_mem [OF that] below by simp
  have seed: "n < length lg" if "findSeed (rev lg) = Some n" for n
    using findSeed_mem [OF that] below by auto
  have "findTurn (rev (lg @ [e])) = bt_openTurn t"
    using ih step_openTurn [OF t0(2)] by (cases "ev_data e") simp_all
  moreover have "liveStart (findStart (rev (lg @ [e]))) (findSeed (rev (lg @ [e]))) \<longleftrightarrow> bt_compaction t \<noteq> None"
  proof (cases "ev_data e = EndSeed")
    case True
    then show ?thesis using step_compaction [OF t0(2)] start e
      by (cases "findStart (rev lg)") (simp_all add: liveStart_def assertCompactionInactive_def)
  next
    case False
    show ?thesis
    proof (cases "\<exists>b. ev_data e = CompactionStart b")
      case True
      then show ?thesis using step_compaction [OF t0(2)] seed e False
        by (cases "findSeed (rev lg)") (auto simp: liveStart_def assertCompactionInactive_def dest: less_imp_not_less)
    next
      case no: False
      then show ?thesis using step_compaction [OF t0(2)] ih False
        by (cases "ev_data e") (simp_all add: liveStart_def assertCompactionInactive_def)
    qed
  qed
  ultimately show ?case by blast
qed

section \<open>The listeners\<close>

text \<open>
  The loop of a seeding computes the fold; and for a session whose trace is stored, the two
  listeners together make one step of the fold without stale starts: the dispatch is vetoed where
  that step fails, and otherwise the publication stores its trace.
\<close>

lemma bracketSeedLoop_run: "bracketSeedLoop S t es = (t', None) \<longleftrightarrow> runR (bracketStep S) t es = Inr t'"
  by (induction es arbitrary: t) (auto split: sum.split)

lemma dispatch_vetoes:
  assumes "bc_traces c sid = Some t" and "bracketStep [] t e = Inl err"
  shows "onBracketDispatch c sid events key e = (c, Inl err)"
  using assms
  by (cases "validateTurnBoundary t e"; cases "validateCompactionEvent t e")
    (auto simp: onBracketDispatch_def bracketTraceFor_def bracketStep_def result_simps split: option.splits if_splits)

lemma listeners_step:
  assumes t: "bc_traces c sid = Some t" and s: "bracketStep [] t e = Inr t'"
  obtains c1 c2 where "onBracketDispatch c sid events key e = (c1, Inr ())"
    "onBracketEvent c1 sid events' key e = (c2, Inr ())" "bc_traces c2 = (bc_traces c)(sid \<mapsto> t')"
proof -
  obtain tr where tr: "validateCompactionEvent t e = Inr tr"
      "t' = fst (applyTurnBoundary (commitTransition t tr) e)" using bracketStep_Inr [OF s] .
  have v: "validateTurnBoundary t e = Inr ()"
    using s by (auto simp: bracketStep_def result_simps split: option.splits)
  define c1 where "c1 = (case tr of None \<Rightarrow> c | Some x \<Rightarrow> c\<lparr>bc_staged := (bc_staged c)(key \<mapsto> (sid, x))\<rparr>)"
  have d: "onBracketDispatch c sid events key e = (c1, Inr ())"
    using t tr(1) v by (simp add: onBracketDispatch_def bracketTraceFor_def c1_def)
  have t1: "bc_traces c1 = bc_traces c" by (simp add: c1_def split: option.split)
  have kind: "isBracketEvent (ev_data e) \<longleftrightarrow> tr \<noteq> None"
    using tr(1) by (cases "ev_data e")
      (auto simp: isBracketEvent_def validateCompactionEvent_def result_simps split: if_splits)
  have boundary: "applyTurnBoundary x e = (x, False)" if "tr \<noteq> None" for x
    using kind that by (cases "ev_data e") (auto simp: isBracketEvent_def applyTurnBoundary_def)
  show thesis
  proof (cases tr)
    case None
    then show thesis
      using that [OF d] t t1 v tr(2) kind
      by (cases "applyTurnBoundary t e")
        (simp add: onBracketEvent_def bracketTraceFor_def commitTransition_def Let_def)
  next
    case (Some x)
    then have staged: "bc_staged c1 key = Some (sid, x)" by (simp add: c1_def)
    show thesis
      using that [OF d] t t1 v tr(2) kind boundary Some staged
      by (simp add: onBracketEvent_def bracketTraceFor_def commitTransition_def Let_def)
  qed
qed

section \<open>Events of other code\<close>

text \<open>
  What other code may append while a bracket is open: everything that is no boundary of a turn, no
  end of a seed, no compaction event and no message of a checkpoint.
\<close>

definition foreignEvent :: "event_data \<Rightarrow> bool" where
  "foreignEvent d \<longleftrightarrow>
     (case d of
        TurnStart _ \<Rightarrow> False
      | TurnEnd _ _ \<Rightarrow> False
      | UserMsg m \<Rightarrow> \<not> isCompactCheckpointSource (msg_source m)
      | _ \<Rightarrow> \<not> isBracketEvent d)"

lemma step_foreign: "foreignEvent (ev_data e) \<Longrightarrow> bracketStep S t e = Inr t"
  by (cases "ev_data e")
    (auto simp: bracketStep_def bracket_checks foreignEvent_def isBracketEvent_def split: option.splits)

lemma run_foreign: "list_all (\<lambda>e. foreignEvent (ev_data e)) es \<Longrightarrow> runR (bracketStep S) t es = Inr t"
  by (induction es) (simp_all add: step_foreign)

lemma orphan_noSeed: "list_all (\<lambda>e. ev_data e \<noteq> EndSeed) es \<Longrightarrow> orphanLoop stale start es = stale"
  by (induction es arbitrary: start) (simp_all split: event_data.split)

lemma orphan_append:
  "list_all (\<lambda>e. ev_data e \<noteq> EndSeed) es \<Longrightarrow> orphanLoop stale start (lg @ es) = orphanLoop stale start lg"
  by (induction lg arbitrary: stale start) (simp_all add: orphan_noSeed split: event_data.split)

lemma inherited_append:
  "list_all (\<lambda>e. ev_data e \<noteq> EndSeed) es
    \<Longrightarrow> inheritedOrphanStartSeqs (lg @ es) = inheritedOrphanStartSeqs lg"
  by (simp add: inheritedOrphanStartSeqs_def orphan_append)

section \<open>The transaction keeps the trace\<close>

text \<open>
  The world of a transaction that wrote its start marker after the log \<open>base\<close>: the companion
  accepts the log, and its trace is the one given.
\<close>

definition traced :: "region_env \<Rightarrow> event list \<Rightarrow> bracket_trace \<Rightarrow> region_world \<Rightarrow> bool" where
  "traced env base t w \<longleftrightarrow>
     regionInv (re_stringify env) w
     \<and> (\<exists>es. logOf w = base @ es \<and> list_all (\<lambda>e. ev_data e \<noteq> EndSeed) es
          \<and> runR (bracketStep (inheritedOrphanStartSeqs base)) freshBrackets (logOf w) = Inr t)"

definition openTrace :: "nat \<Rightarrow> compaction_bracket \<Rightarrow> bool \<Rightarrow> bracket_trace" where
  "openTrace s b summarized =
     \<lparr>bt_openTurn = cb_turn b,
      bt_compaction = Some \<lparr>ct_compactionId = cb_compactionId b,
        ct_sourceCommandId = cb_sourceCommandId b, ct_startSeq = s, ct_turn = cb_turn b,
        ct_summarized = summarized\<rparr>\<rparr>"

definition closedTrace :: "compaction_bracket \<Rightarrow> bracket_trace" where
  "closedTrace b = \<lparr>bt_openTurn = cb_turn b, bt_compaction = None\<rparr>"

definition goodIds :: "compaction_bracket \<Rightarrow> bool" where
  "goodIds b \<longleftrightarrow> cb_compactionId b \<noteq> [] \<and> cb_sourceCommandId b \<noteq> Some []"

lemma traced_inv: "traced env base t w \<Longrightarrow> regionInv (re_stringify env) w"
  by (simp add: traced_def)

lemma traced_seed: "traced env base t w \<Longrightarrow> seedBrackets (logOf w) = Inr t"
  by (auto simp: traced_def seedBrackets_def inherited_append)

lemma traced_quiet: "quiet (re_stringify env) w w' \<Longrightarrow> traced env base t w \<Longrightarrow> traced env base t w'"
  by (auto simp: quiet_def traced_def)

lemma traced_foreign:
  assumes "writes (re_stringify env) (\<lambda>e. foreignEvent (ev_data e)) w w'" and "traced env base t w"
  shows "traced env base t w'"
proof -
  obtain es xs where w: "regionInv (re_stringify env) w" "logOf w = base @ xs"
      "list_all (\<lambda>e. ev_data e \<noteq> EndSeed) xs"
      "runR (bracketStep (inheritedOrphanStartSeqs base)) freshBrackets (logOf w) = Inr t"
    and w': "regionInv (re_stringify env) w'" "logOf w' = (base @ xs) @ es"
      "list_all (\<lambda>e. foreignEvent (ev_data e)) es"
    using assms by (auto simp: traced_def writes_def)
  have "list_all (\<lambda>e. ev_data e \<noteq> EndSeed) es"
    using w'(3) by (auto simp: list_all_iff foreignEvent_def isBracketEvent_def)
  moreover have "runR (bracketStep (inheritedOrphanStartSeqs base)) freshBrackets ((base @ xs) @ es) = Inr t"
    using w(2,4) run_foreign [OF w'(3)] by (simp only: runR_append [of _ _ "base @ xs"]) simp
  ultimately show ?thesis
    using w(3) w'(1,2) by (simp add: traced_def)
qed

text \<open>An append of the transaction: the trace moves when the append gets through.\<close>

lemma traced_append:
  assumes t: "traced env base t w" and a: "regionAppend env k d meta w = (w', r)" and d: "d \<noteq> EndSeed"
    and step: "\<And>e. ev_data e = d \<Longrightarrow> seq e = length (logOf w) \<Longrightarrow> meta = (surfaceOp e, sourceEventSeqs e)
      \<Longrightarrow> bracketStep (inheritedOrphanStartSeqs base) t e = Inr t'"
  shows "traced env base (if isl r then t else t') w'"
proof (cases r)
  case (Inl err)
  then show ?thesis
    using t regionAppend_ok(1,2) [OF traced_inv [OF t] a] by (auto simp: traced_def)
next
  case (Inr e)
  then have e: "regionInv (re_stringify env) w'" "logOf w' = logOf w @ [e]" "ev_data e = d"
      "seq e = length (logOf w)" "meta = (surfaceOp e, sourceEventSeqs e)"
    using regionAppend_ok(1,3) [OF traced_inv [OF t] a] by auto
  then show ?thesis
    using t step [OF e(3-5)] d Inr by (auto simp: traced_def runR_snoc)
qed

lemma owner_same [simp]: "validateOwner owner owner kind = Inr ()"
  by (simp add: validateOwner_def split: option.split)

lemma good_match:
  assumes "goodIds b"
  shows "validateMatch (openTrace s b sm) kind (cb_compactionId b) (cb_sourceCommandId b)
    = Inr (the (bt_compaction (openTrace s b sm)))"
  using assms
  by (cases "cb_sourceCommandId b")
    (auto simp: goodIds_def validateMatch_def validateId_def validateOptionalId_def
      validateSourceCommandId_def openTrace_def)

lemma step_start:
  assumes "goodIds b" and "ev_data e = CompactionStart b" and "bt_compaction t = None" "bt_openTurn t = cb_turn b"
  shows "bracketStep S t e = Inr (openTrace (seq e) b False)"
  using assms
  by (cases "cb_sourceCommandId b")
    (auto simp: goodIds_def bracketStep_def bracket_checks validateStart_def validateId_def
      validateOptionalId_def openTrace_def)

lemma step_summary:
  assumes "goodIds b" and "ev_data e = CompactionSummary (summaryPayload b sel tokens r)"
    and "sel_shadowed sel \<noteq> []" "hd (sel_shadowed sel) = sel_start sel" "last (sel_shadowed sel) = sel_end sel"
    and "0 \<le> tokens" "tokens \<le> maxSafeInteger"
  shows "bracketStep S (openTrace s b False) e = Inr (openTrace s b True)"
  using assms good_match [OF assms(1), of s False]
  by (simp add: bracketStep_def bracket_checks validateSummary_def summaryPayload_def safeInt_def)
    (simp add: openTrace_def)

lemma step_checkpoint:
  assumes "goodIds b" and "ev_data e = UserMsg m"
    and "msg_source m = compactCheckpointSource (cb_compactionId b) (cb_sourceCommandId b)"
  shows "bracketStep S (openTrace s b sm) e = Inr (openTrace s b sm)"
  using assms
  by (cases "cb_sourceCommandId b")
    (auto simp: goodIds_def bracketStep_def bracket_checks validateCheckpoint_def validateId_def Let_def
      validateOptionalId_def validateSourceCommandId_def openTrace_def sourceProp_def
      compactCheckpointSource_def)

lemma step_end:
  assumes "goodIds b" and "ev_data e = CompactionEnd b err" and "err = None \<longrightarrow> sm"
  shows "bracketStep S (openTrace s b sm) e = Inr (closedTrace b)"
  using assms good_match [OF assms(1), of s sm]
  by (simp add: bracketStep_def bracket_checks validateEnd_def)
    (auto simp: openTrace_def closedTrace_def)

text \<open>A computation that starts with an open bracket and, if it succeeds, has summarized it.\<close>

definition summarizes ::
  "region_env \<Rightarrow> event list \<Rightarrow> nat \<Rightarrow> compaction_bracket \<Rightarrow> region_world \<times> ('e + 'a) \<Rightarrow> bool" where
  "summarizes env base s b m \<longleftrightarrow>
     (\<exists>sm. traced env base (openTrace s b sm) (fst m) \<and> (\<not> isl (snd m) \<longrightarrow> sm))"

lemma isl_mapErr [simp]: "isl (mapErr f r) = isl r"
  by (cases r) simp_all

lemma summarizes_atStage [simp]:
  "summarizes env base s b (atStage stage closing m) \<longleftrightarrow> summarizes env base s b m"
  by (simp add: summarizes_def atStage_def)

lemma summarizes_thenR:
  assumes "traced env base (openTrace s b False) (fst m)"
    and "\<And>w1 x. m = (w1, Inr x) \<Longrightarrow> traced env base (openTrace s b False) w1 \<Longrightarrow> summarizes env base s b (k w1 x)"
  shows "summarizes env base s b (thenR m k)"
proof (cases m)
  case (Pair w1 r)
  then show ?thesis using assms by (cases r) (auto simp: summarizes_def)
qed

lemma commit_traced:
  assumes t: "traced env base (openTrace s b False) w" and ids: "goodIds b"
    and sel: "sel_shadowed (pc_selection p) \<noteq> []"
      "hd (sel_shadowed (pc_selection p)) = sel_start (pc_selection p)"
      "last (sel_shadowed (pc_selection p)) = sel_end (pc_selection p)"
    and tokens: "0 \<le> pc_shadowedTokens p" "pc_shadowedTokens p \<le> maxSafeInteger"
    and source: "msg_source (snd x) = compactCheckpointSource (cb_compactionId b) (cb_sourceCommandId b)"
  shows "summarizes env base s b (commitCompactionBody env w startE b p x)"
proof -
  let ?sel = "pc_selection p"
  obtain w1 r1 where a1: "regionAppend env 1
      (CompactionSummary (summaryPayload b ?sel (pc_shadowedTokens p) (fst x))) (None, None) w = (w1, r1)"
    by fastforce
  have t1: "traced env base (if isl r1 then openTrace s b False else openTrace s b True) w1"
    using step_summary [OF ids _ sel tokens] by (intro traced_append [OF t a1]) simp_all
  show ?thesis
  proof (cases r1)
    case (Inl err)
    then show ?thesis using t1 a1 by (auto simp: summarizes_def commitCompactionBody_def Let_def)
  next
    case (Inr e1)
    then have t1': "traced env base (openTrace s b True) w1" using t1 by simp
    obtain w2 r2 where a2: "regionAppend env 2 (UserMsg (snd x))
        (Some (replaceJson (sel_start ?sel) (sel_end ?sel)),
         Some (seqsJson (seq startE # seq e1 # sel_shadowed ?sel))) w1 = (w2, r2)" by fastforce
    have "traced env base (if isl r2 then openTrace s b True else openTrace s b True) w2"
      using step_checkpoint [OF ids _ source] by (intro traced_append [OF t1' a2]) simp_all
    then show ?thesis
      using a1 a2 Inr by (cases r2) (auto simp: summarizes_def commitCompactionBody_def Let_def)
  qed
qed

lemma work_traced:
  assumes t: "traced env base (openTrace s b False) w" and st: "surfaceLog (logOf w) = Inr st0"
    and ids: "goodIds b" "cb_compactionId b = re_compactionId env" "cb_sourceCommandId b = ro_sourceCommandId opts"
    and sel: "sel_shadowed sel \<noteq> []" "hd (sel_shadowed sel) = sel_start sel" "last (sel_shadowed sel) = sel_end sel"
    and tokens: "nodeTokens (priced (re_stringify env) (logOf w) (sel_shadowed sel)) \<le> maxSafeInteger"
    and others: "list_all (\<lambda>x. foreignEvent (fst x)) (re_during env)"
  shows "summarizes env base s b (compactionWork env opts w startE b sel)"
  unfolding compactionWork_def
proof (rule summarizes_thenR)
  show "traced env base (openTrace s b False) (fst (atStage SummaryStage False (prepareCompaction env w sel)))"
    using traced_quiet [OF prepare_quiet t] by simp
next
  fix w1 p
  assume "atStage SummaryStage False (prepareCompaction env w sel) = (w1, Inr p)"
    and t1: "traced env base (openTrace s b False) w1"
  then have p: "pc_selection p = sel"
      "pc_shadowedTokens p = nodeTokens (priced (re_stringify env) (logOf w) (sel_shadowed sel))"
    using prepare_Inr [OF traced_inv [OF t] st] by (auto simp: atStage_Inr)
  let ?sum = "summarizeCompaction env w1 p (ro_sourceCommandId opts)"
  have fw: "fst ?sum = foldl otherAppend w1 (re_during env)"
    by (cases "re_summarize env (pc_input p)") (simp_all add: summarizeCompaction_def Let_def)
  have "writes (re_stringify env) (\<lambda>e. foreignEvent (ev_data e)) w1 (fst ?sum)"
    unfolding fw by (rule otherAppend_writes) (use others in \<open>auto simp: list_all_iff\<close>)
  then have t2: "traced env base (openTrace s b False) (fst ?sum)" using traced_foreign t1 by blast
  show "summarizes env base s b
    (thenR (atStage SummaryStage False ?sum) (\<lambda>w x.
     thenR (atStage SummaryStage False
         (w, if ro_manual opts \<and> re_abortedSummary env then Inl RegionAborted else Inr ())) (\<lambda>w _.
     thenR (atStage SummaryStage False (assertStable env opts w p)) (\<lambda>w _.
     atStage CommitStage False (commitCompactionBody env w startE b p x)))))"
  proof (rule summarizes_thenR)
    fix w2 x
    assume "atStage SummaryStage False ?sum = (w2, Inr x)"
    then have "snd x = checkpointMessage env (ro_sourceCommandId opts) (fst x)"
      using summarize_checkpoint by (simp add: atStage_Inr)
    then have source: "msg_source (snd x) = compactCheckpointSource (cb_compactionId b) (cb_sourceCommandId b)"
      using ids by (simp add: checkpointMessage_def)
    assume t2: "traced env base (openTrace s b False) w2"
    show "summarizes env base s b
      (thenR (atStage SummaryStage False
         (w2, if ro_manual opts \<and> re_abortedSummary env then Inl RegionAborted else Inr ())) (\<lambda>w _.
       thenR (atStage SummaryStage False (assertStable env opts w p)) (\<lambda>w _.
       atStage CommitStage False (commitCompactionBody env w startE b p x))))"
    proof (intro summarizes_thenR)
      fix w3 w4 :: region_world
      assume "traced env base (openTrace s b False) w3"
      then show "traced env base (openTrace s b False) (fst (atStage SummaryStage False (assertStable env opts w3 p)))"
        using traced_quiet [OF stable_quiet] by simp
      assume "traced env base (openTrace s b False) w4"
      then show "summarizes env base s b (atStage CommitStage False (commitCompactionBody env w4 startE b p x))"
        using commit_traced [OF _ ids(1) _ _ _ _ _ source, where base = base and s = s and w = w4 and p = p] sel tokens p nodeTokens_priced_nonneg
        by simp
    qed (use t2 in simp)
  qed (use t2 in simp)
qed

lemma attempt_traced:
  assumes w: "summarizes env base s b (compactionWork env opts w startE b sel)" and ids: "goodIds b"
    and a: "attemptCompaction env opts w startE b sel = (w', r)"
  shows "(\<exists>sm. traced env base (openTrace s b sm) w' \<and> isl r) \<or> traced env base (closedTrace b) w' \<and> \<not> isl r"
proof -
  obtain w1 q where q: "compactionWork env opts w startE b sel = (w1, q)" by fastforce
  show ?thesis
  proof (cases q)
    case (Inl x)
    then show ?thesis using w a q by (auto simp: summarizes_def attemptCompaction_def)
  next
    case (Inr pending)
    then have t1: "traced env base (openTrace s b True) w1" using w q by (auto simp: summarizes_def)
    obtain w2 z where z: "regionAppend env 3 (CompactionEnd b None) (None, None) w1 = (w2, z)" by fastforce
    have "traced env base (if isl z then openTrace s b True else closedTrace b) w2"
      using step_end [OF ids] by (intro traced_append [OF t1 z]) simp_all
    then show ?thesis
      using a q Inr z by (cases z) (auto simp: attemptCompaction_def atStage_def)
  qed
qed

lemma settle_traced:
  assumes w: "summarizes env base s b (compactionWork env opts w startE b sel)" and ids: "goodIds b"
    and a: "settleCompaction env b (attemptCompaction env opts w startE b sel) = (w', ended, outcome)"
  shows "(\<exists>sm. traced env base (openTrace s b sm) w' \<and> isl outcome \<and> \<not> ended)
    \<or> traced env base (closedTrace b) w' \<and> ended"
proof -
  obtain w1 r where r: "attemptCompaction env opts w startE b sel = (w1, r)" by fastforce
  note t = attempt_traced [OF w ids r]
  show ?thesis
  proof (cases r)
    case (Inr res)
    then show ?thesis using t a r by (auto simp: settleCompaction_def)
  next
    case (Inl x)
    obtain stage closing e where x: "x = (stage, closing, e)" by (cases x) auto
    obtain sm where sm: "traced env base (openTrace s b sm) w1" using t Inl by auto
    show ?thesis
    proof (cases closing)
      case True
      then show ?thesis using sm a r Inl x by (auto simp: settleCompaction_def)
    next
      case False
      obtain w2 z where z: "regionAppend env 4 (CompactionEnd b (Some (re_describe env e))) (None, None) w1
          = (w2, z)" by fastforce
      have "traced env base (if isl z then openTrace s b sm else closedTrace b) w2"
        using step_end [OF ids] by (intro traced_append [OF sm z]) simp_all
      then show ?thesis using False a r Inl x z by (cases z) (auto simp: settleCompaction_def)
    qed
  qed
qed

lemma priced_part_le:
  assumes "ns = pre @ sh @ post"
  shows "nodeTokens (priced sf lg sh) \<le> nodeTokens (priced sf lg ns)"
  using nodeTokens_priced_nonneg [of sf lg pre] nodeTokens_priced_nonneg [of sf lg post]
  by (simp add: assms nodeTokens_append)

text \<open>The entry checks of a transaction answer what the trace holds.\<close>

lemma scan_agrees:
  assumes "surfaceLog lg = Inr st" "seedBrackets lg = Inr t"
  shows "(assertNoActiveCompaction lg = Inr () \<longleftrightarrow> bt_compaction t = None)
    \<and> es_openTurn (inspectCompactionEntryState lg) = bt_openTurn t"
proof -
  have "\<forall>i < length lg. seq (lg ! i) = i" using surfaceLog_seq [OF assms(1)] by blast
  from entry_agrees [OF this assms(2) [unfolded seedBrackets_def]] show ?thesis
    by (cases "bt_compaction t") (simp_all add: inspect_finds liveStart_def assertNoActiveCompaction_def Let_def)
qed

text \<open>
  Claim C28: the companion accepts whatever a compaction writes. When it accepted the log before,
  the backward scan of the transaction agrees with its trace: the scan finds no active compaction
  exactly when no bracket is open, and it finds the turn that is open. With a bracket open the call
  fails and writes nothing. Otherwise the companion accepts the log afterwards, whatever failed in
  between and whatever was vetoed, the open turn is the same, and the bracket is closed after a
  success and after every failure but a vetoed end marker. The identities are not empty, the priced
  surface stays below the safe integers, and what other code appends meanwhile are not events of
  the companion itself.
\<close>

theorem compaction_obeys_companion:
  assumes inv: "regionInv (re_stringify env) w" and seeded: "seedBrackets (logOf w) = Inr t"
    and ids: "re_compactionId env \<noteq> []" "ro_sourceCommandId opts \<noteq> Some []"
    and tokens: "surfaceLog (logOf w) = Inr st"
      "nodeTokens (priced (re_stringify env) (logOf w) (nodes st)) \<le> maxSafeInteger"
    and others: "list_all (\<lambda>x. foreignEvent (fst x)) (re_during env)"
    and c: "compactSurfaceRegion env opts w from to = (w', r)"
  shows "(assertNoActiveCompaction (logOf w) = Inr () \<longleftrightarrow> bt_compaction t = None)
    \<and> es_openTurn (inspectCompactionEntryState (logOf w)) = bt_openTurn t
    \<and> (\<exists>t'. seedBrackets (logOf w') = Inr t' \<and> bt_openTurn t' = bt_openTurn t
        \<and> (bt_compaction t \<noteq> None \<longrightarrow> isl r \<and> logOf w' = logOf w)
        \<and> (\<not> isl r \<longrightarrow> bt_compaction t' = None)
        \<and> (bt_compaction t' = None \<or> logOf w' = logOf w \<or> re_veto env 3 \<or> re_veto env 4))"
  using inv c
proof (cases rule: compact_cases)
  case refused
  then show ?thesis using seeded scan_agrees [OF tokens(1) seeded] by auto
next
  case (opened w1 sel owner b w2 startE)
  note append0 = opened(7)
  note agrees = scan_agrees [OF tokens(1) seeded]
  have none: "bt_compaction t = None" using agrees opened(4) by simp
  have turn: "bt_openTurn t = cb_turn b"
    using agrees opened(5,6) by (auto simp: compactionOwner_def split: if_splits option.splits)
  have b: "goodIds b" "cb_compactionId b = re_compactionId env" "cb_sourceCommandId b = ro_sourceCommandId opts"
    using ids opened(6) by (simp_all add: goodIds_def)
  have t1: "traced env (logOf w) t w1"
    using opened(2,3) seeded by (simp add: traced_def seedBrackets_def)
  have e: "seq startE = length (logOf w)" "logOf w2 = logOf w @ [startE]"
    using regionAppend_ok(3) [OF opened(2) append0] opened(3) by simp_all
  have "traced env (logOf w) (if isl (Inr startE :: region_error + event) then t
      else openTrace (length (logOf w)) b False) w2"
    using step_start [OF b(1) _ none turn] opened(3) by (intro traced_append [OF t1 append0]) auto
  then have t2: "traced env (logOf w) (openTrace (length (logOf w)) b False) w2" by simp
  obtain st2 where st2: "surfaceLog (logOf w2) = Inr st2"
    using regionInv_surface [OF traced_inv [OF t2]] by blast
  obtain pre post where sel: "nodes st = pre @ sel_shadowed sel @ post" "sel_shadowed sel \<noteq> []"
      "hd (sel_shadowed sel) = sel_start sel" "last (sel_shadowed sel) = sel_end sel"
    using validate_Inr [OF inv tokens(1) opened(1)] by auto
  have sh: "onLog (logOf w) (sel_shadowed sel)"
    using regionInv_surface [OF inv] tokens(1) sel(1) by fastforce
  have "priced (re_stringify env) (logOf w2) (sel_shadowed sel) = priced (re_stringify env) (logOf w) (sel_shadowed sel)"
    unfolding e(2) by (rule priced_local) (use onLog_below [OF sh] in simp)
  then have price: "nodeTokens (priced (re_stringify env) (logOf w2) (sel_shadowed sel)) \<le> maxSafeInteger"
    using priced_part_le [OF sel(1), of "re_stringify env" "logOf w"] tokens(2) by simp
  note work = work_traced [OF t2 st2 b sel(2-4) price others, of startE]
  obtain w3 ended outcome where s3: "settleCompaction env b (attemptCompaction env opts w2 startE b sel)
      = (w3, ended, outcome)" by (metis prod_cases3)
  have w3: "w' = w3" using opened(8) finish_world [of env opts w3 ended outcome] s3 by simp
  have fails: "isl r" if "isl outcome"
    using opened(8) s3 finish_Inr [of env opts w3 ended outcome w'] that by (cases r) auto
  have ends: "ended" if "\<not> re_veto env 3" "\<not> re_veto env 4"
    using settle_closes [OF traced_inv [OF t2] b(3) that s3] by blast
  from settle_traced [OF work b(1) s3] show ?thesis
  proof
    assume "\<exists>sm. traced env (logOf w) (openTrace (length (logOf w)) b sm) w3 \<and> isl outcome \<and> \<not> ended"
    then show ?thesis using agrees w3 fails ends none turn traced_seed by (fastforce simp: openTrace_def)
  next
    assume "traced env (logOf w) (closedTrace b) w3 \<and> ended"
    then show ?thesis using agrees w3 none turn traced_seed by (fastforce simp: closedTrace_def)
  qed
qed

theorem compaction_obeys_companion_witness:
  "\<exists>t'. seedBrackets (logOf (fst sample_compaction)) = Inr t' \<and> bt_compaction t' = None"
proof -
  obtain w r where c: "sample_compaction = (w, Inr r)"
    using sample_compaction_run by (auto split: prod.splits sum.splits)
  have st: "surfaceLog (logOf sample_region) = Inr \<lparr>nodes = [0, 1, 2], replaceGeneration = 0\<rparr>"
    by code_simp
  have seeded: "seedBrackets (logOf sample_region) = Inr freshBrackets" by code_simp
  have price: "nodeTokens (priced (re_stringify sample_region_env) (logOf sample_region) [0, 1, 2]) \<le> maxSafeInteger"
    by code_simp
  have "re_compactionId sample_region_env \<noteq> []" "ro_sourceCommandId sample_manual \<noteq> Some []"
      "list_all (\<lambda>x. foreignEvent (fst x)) (re_during sample_region_env)"
    by (simp_all add: sample_region_env_def sample_manual_def)
  from compaction_obeys_companion [OF sample_region_inv seeded this(1,2) st _ this(3) c] price c
  show ?thesis by auto
qed

end
