(* ===== verification/Result_Pruner.thy ===== *)
theory Result_Pruner
  imports Compaction_Facts
begin

text \<open>
  The tool-result pruner (\<^verbatim>\<open>packages/compaction/compaction-tool-result-pruner/src\<close>,
  \<^verbatim>\<open>index.ts\<close> and \<^verbatim>\<open>config.ts\<close>): a rewrite of the large tool results of the surface that keeps
  the head and the tail of their text. Text of the model has no surrogates, so that its code points
  are its characters. The sum of the configured budgets is exact, as it is for doubles below
  \<open>2 ^ 53\<close>.
\<close>

section \<open>Configuration\<close>

record prune_config =
  pr_thresholdChars :: int
  pr_headChars :: int
  pr_tailChars :: int

datatype prune_config_error =
    UnknownPruneKey string
  | NotPositiveInteger string json
  | NotNonNegativeInteger string json
  | BudgetsExceedThreshold int int

definition PRUNE_MARKER :: string where
  "PRUNE_MARKER =
     newline @ newline @ ''[... tool result middle pruned ...]'' @ newline @ newline"

definition PRUNE_DEFAULTS :: prune_config where
  "PRUNE_DEFAULTS = \<lparr>pr_thresholdChars = 8192, pr_headChars = 4096, pr_tailChars = 1024\<rparr>"

definition PRUNE_KEYS :: "string list" where
  "PRUNE_KEYS = [''thresholdChars'', ''headChars'', ''tailChars'']"

definition codePointLength :: "string \<Rightarrow> int" where
  "codePointLength text = int (length text)"

text \<open>\<^verbatim>\<open>config.k ?? default\<close>\<close>

definition configured :: "(string \<times> json) list \<Rightarrow> string \<Rightarrow> int \<Rightarrow> json" where
  "configured ps k fallback =
     (case map_of ps k of None \<Rightarrow> JNum (of_int fallback) | Some JNull \<Rightarrow> JNum (of_int fallback) | Some j \<Rightarrow> j)"

definition integerOf :: "json \<Rightarrow> int option" where
  "integerOf j = (case j of JNum r \<Rightarrow> ratInt r | _ \<Rightarrow> None)"

definition assertPositiveInteger :: "string \<Rightarrow> json \<Rightarrow> prune_config_error + int" where
  "assertPositiveInteger name j =
     (case integerOf j of
        None \<Rightarrow> Inl (NotPositiveInteger name j)
      | Some n \<Rightarrow> if n \<le> 0 then Inl (NotPositiveInteger name j) else Inr n)"

definition assertNonNegativeInteger :: "string \<Rightarrow> json \<Rightarrow> prune_config_error + int" where
  "assertNonNegativeInteger name j =
     (case integerOf j of
        None \<Rightarrow> Inl (NotNonNegativeInteger name j)
      | Some n \<Rightarrow> if n < 0 then Inl (NotNonNegativeInteger name j) else Inr n)"

definition resolvePruneConfig :: "(string \<times> json) list \<Rightarrow> prune_config_error + prune_config" where
  "resolvePruneConfig ps =
     (case find (\<lambda>k. k \<notin> set PRUNE_KEYS) (objectKeys (JObj ps)) of
        Some k \<Rightarrow> Inl (UnknownPruneKey k)
      | None \<Rightarrow>
          bindR (assertPositiveInteger ''thresholdChars''
              (configured ps ''thresholdChars'' (pr_thresholdChars PRUNE_DEFAULTS))) (\<lambda>threshold.
          bindR (assertNonNegativeInteger ''headChars''
              (configured ps ''headChars'' (pr_headChars PRUNE_DEFAULTS))) (\<lambda>head.
          bindR (assertNonNegativeInteger ''tailChars''
              (configured ps ''tailChars'' (pr_tailChars PRUNE_DEFAULTS))) (\<lambda>tail.
            let emitted = head + codePointLength PRUNE_MARKER + tail
            in if emitted > threshold then Inl (BudgetsExceedThreshold emitted threshold)
               else Inr \<lparr>pr_thresholdChars = threshold, pr_headChars = head, pr_tailChars = tail\<rparr>))))"

section \<open>Content\<close>

datatype prune_error = MarkerLost | ReplacementNotSmaller int int

definition measureContent :: "content_block list \<Rightarrow> int" where
  "measureContent content =
     (\<Sum>b\<leftarrow>content. case b of TextBlock text \<Rightarrow> codePointLength text | _ \<Rightarrow> 0)"

text \<open>
  The loop over the content, with the code points consumed so far and whether the marker was
  emitted.
\<close>

fun pruneBlocks ::
  "int \<Rightarrow> int \<Rightarrow> int \<Rightarrow> bool \<Rightarrow> content_block list \<Rightarrow> content_block list \<times> bool" where
  "pruneBlocks removedStart removedEnd consumed inserted [] = ([], inserted)"
| "pruneBlocks removedStart removedEnd consumed inserted (TextBlock text # bs) =
     (let n = codePointLength text;
          headEnd = min n (max 0 (removedStart - consumed));
          tailStart = min n (max 0 (removedEnd - consumed));
          intersects = (consumed < removedEnd \<and> consumed + n > removedStart);
          marker = (if intersects \<and> \<not> inserted then PRUNE_MARKER else []);
          text' = take (nat headEnd) text @ marker @ drop (nat tailStart) text;
          (rest, found) = pruneBlocks removedStart removedEnd (consumed + n) (inserted \<or> marker \<noteq> []) bs
      in (if text' \<noteq> [] then TextBlock text' # rest else rest, found))"
| "pruneBlocks removedStart removedEnd consumed inserted (b # bs) =
     (let (rest, found) = pruneBlocks removedStart removedEnd consumed inserted bs in (b # rest, found))"

definition pruneContent :: "prune_config \<Rightarrow> content_block list \<Rightarrow> prune_error + content_block list option" where
  "pruneContent cfg content =
     (let total = measureContent content
      in if total \<le> pr_thresholdChars cfg then Inr None
         else
           (let (pruned, found) = pruneBlocks (pr_headChars cfg) (total - pr_tailChars cfg) 0 False content;
                after = measureContent pruned
            in if \<not> found then Inl MarkerLost
               else if after > pr_thresholdChars cfg \<or> after \<ge> total
               then Inl (ReplacementNotSmaller after total)
               else Inr (Some pruned)))"

section \<open>The session\<close>

record pruned_entry =
  pe_originalSeq :: nat
  pe_replacementSeq :: nat
  pe_callId :: string
  pe_charsBefore :: int
  pe_charsAfter :: int

record prune_result =
  ps_pruned :: "pruned_entry list"
  ps_charsRemoved :: int

datatype prune_failure = PruneRegion region_error | PruneBug prune_error

text \<open>What the run-time supplies: times and vetoes of the appends, in their order.\<close>

record prune_env =
  pv_stringify :: "json \<Rightarrow> string"
  pv_now :: "nat \<Rightarrow> int"
  pv_veto :: "nat \<Rightarrow> bool"

definition pruneAppend ::
  "prune_env \<Rightarrow> nat \<Rightarrow> event_data \<Rightarrow> json option \<times> json option \<Rightarrow> region_world
    \<Rightarrow> region_world \<times> (prune_failure + event)" where
  "pruneAppend env k d meta w =
     (case appendWith (rw_session w) (pv_now env k) (pv_veto env k) (Some d) (Some meta) of
        (S, r) \<Rightarrow> (w\<lparr>rw_session := S\<rparr>, mapErr (PruneRegion \<circ> RegionAppend) r))"

definition toolResultAt :: "event list \<Rightarrow> nat \<Rightarrow> (nat \<times> tool_result) option" where
  "toolResultAt events s =
     (case eventAt events 0 s of
        Some e \<Rightarrow> (case ev_data e of ToolResult r \<Rightarrow> Some (s, r) | _ \<Rightarrow> None)
      | None \<Rightarrow> None)"

definition shadowPrice :: "prune_env \<Rightarrow> nat \<Rightarrow> tool_result \<Rightarrow> event_data" where
  "shadowPrice env s r =
     PluginEvent ''compaction/prune''
       (JObj [(''shadowedRange'', JObj [(''start'', JNum (of_nat s)), (''end'', JNum (of_nat s))]),
              (''shadowedSeqs'', seqsJson [s]),
              (''shadowedTokenCount'',
                 JNum (of_int (estimateMessage (pv_stringify env) (asMessage (tr_message r)))))])"

definition withContent :: "tool_result \<Rightarrow> content_block list \<Rightarrow> tool_result" where
  "withContent r content = r\<lparr>tr_message := (tr_message r)\<lparr>tm_content := content\<rparr>\<rparr>"

text \<open>The loop over the candidates; \<open>k\<close> counts the appends.\<close>

fun pruneLoop ::
  "prune_env \<Rightarrow> prune_config \<Rightarrow> nat \<Rightarrow> (nat \<times> tool_result) list \<Rightarrow> region_world
    \<Rightarrow> region_world \<times> (prune_failure + pruned_entry list)" where
  "pruneLoop env cfg k [] w = (w, Inr [])"
| "pruneLoop env cfg k ((s, r) # cs) w =
     (let original = tm_content (tr_message r)
      in case pruneContent cfg original of
           Inl err \<Rightarrow> (w, Inl (PruneBug err))
         | Inr None \<Rightarrow> pruneLoop env cfg k cs w
         | Inr (Some content) \<Rightarrow>
             thenR (pruneAppend env k (shadowPrice env s r) (None, None) w) (\<lambda>w _.
             thenR (pruneAppend env (k + 1) (ToolResult (withContent r content))
                 (Some (replaceJson s s), Some (seqsJson [s])) w) (\<lambda>w replacement.
             thenR (pruneLoop env cfg (k + 2) cs w) (\<lambda>w es.
               (w, Inr (\<lparr>pe_originalSeq = s, pe_replacementSeq = seq replacement,
                         pe_callId = tm_sourceCallId (tr_message r),
                         pe_charsBefore = measureContent original,
                         pe_charsAfter = measureContent content\<rparr> # es))))))"

definition pruneSession ::
  "prune_env \<Rightarrow> prune_config \<Rightarrow> region_world \<Rightarrow> region_world \<times> (prune_failure + prune_result)" where
  "pruneSession env cfg w =
     (case readSurface w of
        (w, Inl err) \<Rightarrow> (w, Inl (PruneRegion err))
      | (w, Inr (ns, _)) \<Rightarrow>
          thenR (pruneLoop env cfg 0 (List.map_filter (toolResultAt (logOf w)) ns) w) (\<lambda>w es.
            (w, Inr \<lparr>ps_pruned = es,
                     ps_charsRemoved = (\<Sum>e\<leftarrow>es. pe_charsBefore e - pe_charsAfter e)\<rparr>)))"

end
