(* ===== verification/Pruner_Facts.thy ===== *)
theory Pruner_Facts
  imports Result_Pruner
begin

text \<open>
  Correctness of the tool-result pruner: pruned content keeps exactly the head and the tail of the
  text around the marker, and a pass over the surface replaces the large results in place, splits
  no call from its result, and leaves nothing for another pass.
\<close>

section \<open>Content\<close>

definition joined :: "content_block list \<Rightarrow> string" where
  "joined content = concat (map (\<lambda>b. case b of TextBlock tx \<Rightarrow> tx | _ \<Rightarrow> []) content)"

definition richBlocks :: "content_block list \<Rightarrow> content_block list" where
  "richBlocks content = filter (\<lambda>b. case b of TextBlock _ \<Rightarrow> False | _ \<Rightarrow> True) content"

lemma joined_simps [simp]:
  "joined [] = []" "joined (TextBlock tx # bs) = tx @ joined bs"
  "\<forall>tx. b \<noteq> TextBlock tx \<Longrightarrow> joined (b # bs) = joined bs"
  by (simp_all add: joined_def split: content_block.split)

lemma richBlocks_simps [simp]:
  "richBlocks [] = []" "richBlocks (TextBlock tx # bs) = richBlocks bs"
  "\<forall>tx. b \<noteq> TextBlock tx \<Longrightarrow> richBlocks (b # bs) = b # richBlocks bs"
  by (simp_all add: richBlocks_def split: content_block.split)

lemma measure_joined: "measureContent content = int (length (joined content))"
proof (induction content)
  case (Cons b bs)
  then show ?case by (cases b) (simp_all add: measureContent_def codePointLength_def)
qed (simp add: measureContent_def)

lemma marker_nonempty [simp]: "PRUNE_MARKER \<noteq> []"
  by (simp add: PRUNE_MARKER_def newline_def)

lemma richBlocks_text: "richBlocks (if tx \<noteq> [] then TextBlock tx # bs else bs) = richBlocks bs"
  by simp

lemma prune_rich: "richBlocks (fst (pruneBlocks rs re c ins bs)) = richBlocks bs"
proof (induction bs arbitrary: c ins)
  case (Cons b bs)
  show ?case
  proof (cases "\<exists>tx. b = TextBlock tx")
    case True
    then obtain tx where b: "b = TextBlock tx" by blast
    show ?thesis
      unfolding b pruneBlocks.simps(2) Let_def case_prod_beta fst_conv richBlocks_text richBlocks_simps(2)
      by (rule Cons.IH)
  next
    case False
    then show ?thesis using Cons.IH [of c ins] by (cases b) (simp_all add: case_prod_beta Let_def)
  qed
qed simp

lemma joined_text [simp]: "joined (if tx \<noteq> [] then TextBlock tx # bs else bs) = tx @ joined bs"
  by simp

text \<open>One text block of the loop.\<close>

lemma pruneBlocks_text:
  "joined (fst (pruneBlocks rs re c ins (TextBlock tx # bs))) =
      take (nat (rs - c)) tx
        @ (if c < re \<and> rs < c + int (length tx) \<and> \<not> ins then PRUNE_MARKER else [])
        @ drop (nat (re - c)) tx
        @ joined (fst (pruneBlocks rs re (c + int (length tx))
            (ins \<or> c < re \<and> rs < c + int (length tx) \<and> \<not> ins) bs))"
  "snd (pruneBlocks rs re c ins (TextBlock tx # bs)) =
      snd (pruneBlocks rs re (c + int (length tx)) (ins \<or> c < re \<and> rs < c + int (length tx) \<and> \<not> ins) bs)"
proof -
  have t: "take (nat (min (int (length tx)) (max 0 (rs - c)))) tx = take (nat (rs - c)) tx"
    by (cases "rs - c \<le> int (length tx)") (auto simp: min_def max_def nat_le_iff)
  have d: "drop (nat (min (int (length tx)) (max 0 (re - c)))) tx = drop (nat (re - c)) tx"
    by (cases "re - c \<le> int (length tx)") (auto simp: min_def max_def nat_le_iff)
  obtain rest found where r: "pruneBlocks rs re (c + int (length tx))
      (ins \<or> c < re \<and> rs < c + int (length tx) \<and> \<not> ins) bs = (rest, found)" by fastforce
  have flag: "((if (c < re \<and> rs < c + int (length tx)) \<and> \<not> ins then PRUNE_MARKER else []) \<noteq> [])
      = (c < re \<and> rs < c + int (length tx) \<and> \<not> ins)" by simp
  note step = pruneBlocks.simps(2) [of rs re c ins tx bs, unfolded Let_def codePointLength_def flag r prod.case t d]
  show "joined (fst (pruneBlocks rs re c ins (TextBlock tx # bs))) =
      take (nat (rs - c)) tx
        @ (if c < re \<and> rs < c + int (length tx) \<and> \<not> ins then PRUNE_MARKER else [])
        @ drop (nat (re - c)) tx
        @ joined (fst (pruneBlocks rs re (c + int (length tx))
            (ins \<or> c < re \<and> rs < c + int (length tx) \<and> \<not> ins) bs))"
    unfolding step r by (simp only: fst_conv joined_text append_assoc conj_assoc)
  show "snd (pruneBlocks rs re c ins (TextBlock tx # bs)) =
      snd (pruneBlocks rs re (c + int (length tx)) (ins \<or> c < re \<and> rs < c + int (length tx) \<and> \<not> ins) bs)"
    unfolding step r by simp
qed

lemma pruneBlocks_other:
  "\<forall>tx. b \<noteq> TextBlock tx \<Longrightarrow> joined (fst (pruneBlocks rs re c ins (b # bs))) = joined (fst (pruneBlocks rs re c ins bs))"
  "\<forall>tx. b \<noteq> TextBlock tx \<Longrightarrow> snd (pruneBlocks rs re c ins (b # bs)) = snd (pruneBlocks rs re c ins bs)"
  by (cases b; auto simp: Let_def split: prod.split)+

lemma nat_minus_length: "nat (x - (c + int (length tx))) = nat (x - c) - length tx"
  by simp

lemma prune_after:
  "rs \<le> c \<Longrightarrow> joined (fst (pruneBlocks rs re c True bs)) = drop (nat (re - c)) (joined bs)
    \<and> snd (pruneBlocks rs re c True bs)"
proof (induction bs arbitrary: c)
  case (Cons b bs)
  show ?case
  proof (cases "\<exists>tx. b = TextBlock tx")
    case True
    then obtain tx where b: "b = TextBlock tx" by blast
    show ?thesis
      using Cons.IH [of "c + int (length tx)"] Cons.prems
      unfolding b pruneBlocks_text nat_minus_length by simp
  next
    case False
    then show ?thesis using Cons.IH [of c] Cons.prems by (simp add: pruneBlocks_other)
  qed
qed simp

lemma prune_before:
  "c \<le> rs \<Longrightarrow> rs < re \<Longrightarrow>
     joined (fst (pruneBlocks rs re c False bs)) =
       (if c + int (length (joined bs)) > rs
        then take (nat (rs - c)) (joined bs) @ PRUNE_MARKER @ drop (nat (re - c)) (joined bs) else joined bs)
     \<and> snd (pruneBlocks rs re c False bs) = (c + int (length (joined bs)) > rs)"
proof (induction bs arbitrary: c)
  case (Cons b bs)
  show ?case
  proof (cases "\<exists>tx. b = TextBlock tx")
    case True
    then obtain tx where b: "b = TextBlock tx" by blast
    let ?n = "int (length tx)"
    show ?thesis
    proof (cases "c + ?n \<le> rs")
      case True
      then have "length tx \<le> nat (rs - c)" "length tx \<le> nat (re - c)" "\<not> rs < c + ?n" using Cons.prems by auto
      then show ?thesis
        using Cons.IH [of "c + ?n"] Cons.prems True
        unfolding b pruneBlocks_text nat_minus_length by (simp add: add.assoc)
    next
      case False
      then have "nat (rs - c) - length tx = 0" "c < re" "rs < c + ?n" using Cons.prems by auto
      then show ?thesis
        using prune_after [of rs "c + ?n" re bs] Cons.prems
        unfolding b pruneBlocks_text nat_minus_length by simp
    qed
  next
    case False
    then show ?thesis using Cons.IH [of c] Cons.prems by (simp add: pruneBlocks_other)
  qed
qed simp

definition pruneConfigOK :: "prune_config \<Rightarrow> bool" where
  "pruneConfigOK cfg \<longleftrightarrow> 0 \<le> pr_headChars cfg \<and> 0 \<le> pr_tailChars cfg
     \<and> pr_headChars cfg + int (length PRUNE_MARKER) + pr_tailChars cfg \<le> pr_thresholdChars cfg"

lemma resolved_prune_config: "resolvePruneConfig ps = Inr cfg \<Longrightarrow> pruneConfigOK cfg"
  by (auto simp: resolvePruneConfig_def pruneConfigOK_def assertPositiveInteger_def codePointLength_def
      assertNonNegativeInteger_def Let_def result_simps split: option.splits if_splits)

text \<open>The text that stands for a long one.\<close>

definition prunedText :: "prune_config \<Rightarrow> string \<Rightarrow> string" where
  "prunedText cfg tx =
     take (nat (pr_headChars cfg)) tx @ PRUNE_MARKER
       @ drop (length tx - nat (pr_tailChars cfg)) tx"

lemma pruneContent_cases:
  assumes cfg: "pruneConfigOK cfg"
  obtains (small) "pruneContent cfg content = Inr None" "measureContent content \<le> pr_thresholdChars cfg"
  | (large) bs where "pruneContent cfg content = Inr (Some bs)" "pr_thresholdChars cfg < measureContent content"
      "joined bs = prunedText cfg (joined content)" "richBlocks bs = richBlocks content"
      "measureContent bs = pr_headChars cfg + int (length PRUNE_MARKER) + pr_tailChars cfg"
proof (cases "measureContent content \<le> pr_thresholdChars cfg")
  case True
  then show thesis using small by (simp add: pruneContent_def)
next
  case False
  let ?total = "measureContent content" and ?head = "pr_headChars cfg" and ?tail = "pr_tailChars cfg"
  have pos: "0 < int (length PRUNE_MARKER)" by simp
  have b: "0 \<le> ?head" "0 \<le> ?tail" "?head + int (length PRUNE_MARKER) + ?tail \<le> pr_thresholdChars cfg"
    using cfg by (simp_all add: pruneConfigOK_def)
  have r: "?head < ?total - ?tail" "?head < ?total" using b False pos by linarith+
  obtain bs found where p: "pruneBlocks ?head (?total - ?tail) 0 False content = (bs, found)" by fastforce
  have t: "nat (?total - ?tail) = length (joined content) - nat ?tail"
    using b(2) by (simp add: measure_joined nat_diff_distrib')
  have bs: "joined bs = prunedText cfg (joined content)" "found"
    using prune_before [of 0 ?head "?total - ?tail" content] b(1) r p t
    by (simp_all add: measure_joined [symmetric] prunedText_def)
  have "int (length (joined bs)) = ?head + int (length PRUNE_MARKER) + ?tail"
    using b r bs(1) by (simp add: prunedText_def measure_joined)
  then have m: "measureContent bs = ?head + int (length PRUNE_MARKER) + ?tail" by (simp add: measure_joined)
  have "richBlocks bs = richBlocks content" using prune_rich [of ?head "?total - ?tail" 0 False content] p by simp
  then show thesis
    using large [of bs] bs m b False p by (simp add: pruneContent_def)
qed

text \<open>
  Claim C29: pruning never fails and keeps what it promises. Under every configuration that
  resolves, content within the threshold is left alone; longer content becomes content whose text
  is exactly the configured head, the marker and the configured tail, however the text was cut into
  content, with every other block kept in its order, and which another pass leaves alone.
\<close>

theorem pruned_content:
  assumes "resolvePruneConfig ps = Inr cfg"
  shows "(\<exists>bs. pruneContent cfg content = Inr (Some bs) \<and> pr_thresholdChars cfg < measureContent content
        \<and> joined bs = prunedText cfg (joined content) \<and> richBlocks bs = richBlocks content
        \<and> measureContent bs < measureContent content \<and> pruneContent cfg bs = Inr None)
    \<or> pruneContent cfg content = Inr None \<and> measureContent content \<le> pr_thresholdChars cfg"
proof -
  have ok: "pruneConfigOK cfg" using resolved_prune_config [OF assms] .
  from ok show ?thesis
  proof (cases rule: pruneContent_cases [where content = content])
    case (large bs)
    then have "measureContent bs \<le> pr_thresholdChars cfg" using ok by (simp add: pruneConfigOK_def)
    with large show ?thesis by (auto simp: pruneContent_def)
  qed simp
qed

definition sample_prune :: "(string \<times> json) list" where
  "sample_prune = [(''thresholdChars'', JNum 60), (''headChars'', JNum 3), (''tailChars'', JNum 2)]"

theorem pruned_content_witness:
  "\<exists>cfg bs. resolvePruneConfig sample_prune = Inr cfg
     \<and> pruneContent cfg [TextBlock ''ab'', TextBlock (''cd'' @ replicate 70 (CHR ''x'') @ ''y''), TextBlock ''z'']
       = Inr (Some bs)
     \<and> joined bs = ''abc'' @ PRUNE_MARKER @ ''yz''"
proof -
  let ?cfg = "\<lparr>pr_thresholdChars = 60, pr_headChars = 3, pr_tailChars = 2\<rparr>"
  let ?src = "[TextBlock ''ab'', TextBlock (''cd'' @ replicate 70 (CHR ''x'') @ ''y''), TextBlock ''z'']"
  have r: "resolvePruneConfig sample_prune = Inr ?cfg" by code_simp
  have "measureContent ?src = 76" by code_simp
  moreover have "prunedText ?cfg (joined ?src) = ''abc'' @ PRUNE_MARKER @ ''yz''" by code_simp
  ultimately show ?thesis using pruned_content [OF r, of ?src] r by auto
qed

section \<open>The surface\<close>

definition runtimeOf :: "prune_env \<Rightarrow> region_env" where
  "runtimeOf env = undefined\<lparr>re_now := pv_now env, re_veto := pv_veto env\<rparr>"

lemma pruneAppend_region:
  "pruneAppend env k d meta w =
     (case regionAppend (runtimeOf env) k d meta w of (w', r) \<Rightarrow> (w', mapErr PruneRegion r))"
  by (cases "appendWith (rw_session w) (pv_now env k) (pv_veto env k) (Some d) (Some meta)";
      cases "snd (appendWith (rw_session w) (pv_now env k) (pv_veto env k) (Some d) (Some meta))")
    (auto simp: pruneAppend_def regionAppend_def runtimeOf_def)

text \<open>An append gets through when the surface takes its event and nobody vetoes it.\<close>

lemma pruneAppend_accepted:
  assumes inv: "regionInv sf w" and v: "\<not> pv_veto env k" and d: "assertSupportedRequestHeader (event_type d) (reasonOf d) = Inr ()"
    and e: "e = \<lparr>seq = length (logOf w), time = pv_now env k, ev_data = d, surfaceOp = op,
      sourceEventSeqs = src, ignorable = False\<rparr>"
    and st: "surfaceLog (logOf w @ [e]) = Inr st"
  obtains w' where "pruneAppend env k d (op, src) w = (w', Inr e)" "regionInv sf w'" "logOf w' = logOf w @ [e]"
proof -
  let ?S = "rw_session w"
  obtain st0 where st0: "surfaceLog (s_log ?S) = Inr st0" and m: "managerInv (s_log ?S) (s_manager ?S)"
    using inv by (auto simp: regionInv_def sessionInv_def)
  obtain m' r where n: "validateNext (s_log ?S) (s_manager ?S) e = (m', r)" by fastforce
  have "r = None" using validateNext_accepts [OF m st0 n] st by (auto simp: logOf_def)
  with n v d obtain w' where w': "pruneAppend env k d (op, src) w = (w', Inr e)"
    by (auto simp: e pruneAppend_def appendWith_def prepareAppend_def Let_def logOf_def)
  then obtain q where q: "regionAppend (runtimeOf env) k d (op, src) w = (w', Inr e)"
    by (cases "regionAppend (runtimeOf env) k d (op, src) w"; cases "snd (regionAppend (runtimeOf env) k d (op, src) w)")
      (auto simp: pruneAppend_region)
  show thesis using that w' regionAppend_ok(1,3) [OF inv q] by blast
qed

lemma rewrite_accepted:
  assumes st: "surfaceLog lg = Inr st" and ns: "nodes st = dn @ s # rest"
    and old: "ev_data (lg ! s) = ToolResult r" "pred_option json_ok (tr_meta r)"
    and safe: "int (length lg) \<le> maxSafeInteger"
    and e: "seq e = length lg" "ev_data e = ToolResult (withContent r c)"
      "surfaceOp e = Some (replaceJson s s)" "sourceEventSeqs e = Some (seqsJson [s])"
  obtains st' where "surfaceLog (lg @ [e]) = Inr st'" "nodes st' = dn @ length lg # rest"
proof -
  have inv: "distinct (nodes st)" "s < length lg"
    using surfaceLog_inv [OF st] surfaceInv_below [OF surfaceLog_inv [OF st]] ns by (auto simp: surfaceInv_def)
  then have ix: "indexOf (nodes st) s = Some (length dn)"
    using indexOf_nth [of "nodes st" "length dn"] ns by (simp add: nth_append)
  have seqs: "eventSeqOf (JNum (of_nat s)) = Some s"
    using inv(2) safe by (simp add: eventSeqOf_of_nat safeInt_def)
  have op: "surfaceOpOf e = Inr (Some (OpReplace s s))"
    using seqs by (simp add: surfaceOpOf_def e isSurfaceEligibleType_def SURFACE_EVENT_TYPES_def
        replaceJson_def replaceOpOf_def)
  have range: "replacementRange st s s = Inr (length dn, length dn, [s])"
    using ix by (simp add: replacementRange_def ns)
  have prov: "assertProvenance e [s] = Inr ()"
    using inv(2) seqs by (simp add: assertProvenance_def citedSources_def e seqsJson_def Let_def)
  have same: "equalBesidesContent r (withContent r c)"
    using old(2) by (auto simp: equalBesidesContent_def withContent_def isDeepEqualJson_refl split: option.split)
  have rewrite: "assertToolResultRewrite e [s] lg 0 = Inr ()"
    using old inv(2) same by (simp add: assertToolResultRewrite_def e eventAt_def)
  have plan: "planSurfaceEvent st e (length lg) lg 0 = Inr (Some (PlanReplace
      \<lparr>rp_seq = seq e, rp_start = s, rp_end = s, rp_shadowed = [s]\<rparr> (length dn) (length dn)))"
    by (simp add: planSurfaceEvent_def op range prov rewrite e(1))
  show thesis
    by (rule that [of "fst (applySurfacePlan st (Some (PlanReplace
      \<lparr>rp_seq = seq e, rp_start = s, rp_end = s, rp_shadowed = [s]\<rparr> (length dn) (length dn))))"])
      (simp_all add: surfaceLog_snoc st plan ns splice_list_def e(1))
qed

lemma prune_event_silent:
  assumes "surfaceLog lg = Inr st" and "seq e = length lg" "ev_data e = shadowPrice env s r"
    and "surfaceOp e = None" "sourceEventSeqs e = None"
  shows "surfaceLog (lg @ [e]) = Inr st"
  using assms by (simp add: surfaceLog_snoc planSurfaceEvent_def surfaceOpOf_def shadowPrice_def
      isSurfaceEligibleType_def SURFACE_EVENT_TYPES_def)

text \<open>What becomes of a node of the surface.\<close>

definition prunedNode :: "prune_config \<Rightarrow> event list \<Rightarrow> event list \<Rightarrow> nat \<Rightarrow> nat \<Rightarrow> bool" where
  "prunedNode cfg lg lg' s s' \<longleftrightarrow>
     (case ev_data (lg ! s) of
        ToolResult r \<Rightarrow>
          (case pruneContent cfg (tm_content (tr_message r)) of
             Inr (Some content) \<Rightarrow> s' < length lg' \<and> ev_data (lg' ! s') = ToolResult (withContent r content)
           | _ \<Rightarrow> s' = s)
      | _ \<Rightarrow> s' = s)"

lemma prunedNode_grow: "prunedNode cfg lg lg' s s' \<Longrightarrow> prunedNode cfg lg (lg' @ es) s s'"
  by (auto simp: prunedNode_def nth_append split: event_data.splits sum.splits option.splits)

definition metaOK :: "event \<Rightarrow> bool" where
  "metaOK e \<longleftrightarrow> (case ev_data e of ToolResult r \<Rightarrow> (case tr_meta r of None \<Rightarrow> True | Some j \<Rightarrow> json_ok j) | _ \<Rightarrow> True)"

lemma prune_loop:
  assumes cfg: "pruneConfigOK cfg" and v: "\<And>k. \<not> pv_veto env k"
    and "regionInv sf w" and "surfaceLog (logOf w) = Inr st" and "nodes st = dn @ rest"
    and "logOf w = lg @ ext" and "onLog lg rest" and "\<forall>s \<in> set rest. metaOK (lg ! s)"
    and "int (length (logOf w) + 2 * length rest) \<le> maxSafeInteger"
  shows "\<exists>w' st' rest'. (\<exists>es. pruneLoop env cfg k (List.map_filter (toolResultAt lg) rest) w = (w', Inr es))
    \<and> regionInv sf w' \<and> surfaceLog (logOf w') = Inr st' \<and> nodes st' = dn @ rest'
    \<and> (\<exists>ext. logOf w' = logOf w @ ext) \<and> list_all2 (prunedNode cfg lg (logOf w')) rest rest'"
  using assms(3-)
proof (induction rest arbitrary: w st dn k ext)
  case Nil
  then show ?case by auto
next
  case (Cons s rest)
  have s: "s < length lg" "onLog lg rest" using Cons.prems(5) by simp_all
  have keep: ?case if "prunedNode cfg lg lg' s s" "\<And>lg'. prunedNode cfg lg lg' s s"
    "pruneLoop env cfg k (List.map_filter (toolResultAt lg) (s # rest)) w
      = pruneLoop env cfg k (List.map_filter (toolResultAt lg) rest) w" for lg'
  proof -
    obtain w' es st' rest' where "pruneLoop env cfg k (List.map_filter (toolResultAt lg) rest) w = (w', Inr es)"
        "regionInv sf w'" "surfaceLog (logOf w') = Inr st'" "nodes st' = (dn @ [s]) @ rest'"
        "\<exists>ext. logOf w' = logOf w @ ext" "list_all2 (prunedNode cfg lg (logOf w')) rest rest'"
      using Cons.IH [of w st "dn @ [s]" ext k] Cons.prems s(2) by auto
    then show ?thesis using that(2,3)
      by (intro exI [of _ w'] exI [of _ st'] exI [of _ "s # rest'"]) simp
  qed
  show ?case
  proof (cases "\<exists>r. ev_data (lg ! s) = ToolResult r")
    case False
    then show ?thesis
      using s(1) by (intro keep)
        (auto simp: prunedNode_def List.map_filter_def toolResultAt_def eventAt_def split: event_data.splits)
  next
    case True
    then obtain r where r: "ev_data (lg ! s) = ToolResult r" by blast
    then have cand: "List.map_filter (toolResultAt lg) (s # rest)
        = (s, r) # List.map_filter (toolResultAt lg) rest"
      using s(1) by (simp add: List.map_filter_def toolResultAt_def eventAt_def)
    from cfg show ?thesis
    proof (cases rule: pruneContent_cases [where content = "tm_content (tr_message r)"])
      case small
      then show ?thesis
        using s(1) r by (intro keep) (simp_all add: prunedNode_def toolResultAt_def eventAt_def)
    next
      case (large content)
      let ?e1 = "\<lparr>seq = length (logOf w), time = pv_now env k, ev_data = shadowPrice env s r,
          surfaceOp = None, sourceEventSeqs = None, ignorable = False\<rparr>"
      have st1: "surfaceLog (logOf w @ [?e1]) = Inr st"
        by (rule prune_event_silent [OF Cons.prems(2)]) simp_all
      obtain w1 where w1: "pruneAppend env k (shadowPrice env s r) (None, None) w = (w1, Inr ?e1)"
          "regionInv sf w1" "logOf w1 = logOf w @ [?e1]"
        by (rule pruneAppend_accepted [OF Cons.prems(1) v _ refl st1]) (simp_all add: shadowPrice_def assertSupportedRequestHeader_def)
      let ?e2 = "\<lparr>seq = length (logOf w1), time = pv_now env (k + 1), ev_data = ToolResult (withContent r content),
          surfaceOp = Some (replaceJson s s), sourceEventSeqs = Some (seqsJson [s]), ignorable = False\<rparr>"
      have st1': "surfaceLog (logOf w1) = Inr st" using st1 w1(3) by simp
      have "logOf w1 ! s = lg ! s" using w1(3) Cons.prems(4) s(1) by (simp add: nth_append)
      then obtain st2 where st2: "surfaceLog (logOf w1 @ [?e2]) = Inr st2"
          "nodes st2 = dn @ length (logOf w1) # rest"
        by (rule_tac rewrite_accepted [OF st1' Cons.prems(3), of r ?e2 content])
          (use r Cons.prems(6,7) w1(3) in \<open>auto simp: metaOK_def split: option.splits\<close>)
      obtain w2 where w2: "pruneAppend env (k + 1) (ToolResult (withContent r content))
            (Some (replaceJson s s), Some (seqsJson [s])) w1 = (w2, Inr ?e2)"
          "regionInv sf w2" "logOf w2 = logOf w1 @ [?e2]"
        by (rule pruneAppend_accepted [OF w1(2) v _ refl st2(1)]) (simp_all add: assertSupportedRequestHeader_def)
      obtain w' es st' rest' where ih: "pruneLoop env cfg (k + 2) (List.map_filter (toolResultAt lg) rest) w2 = (w', Inr es)"
          "regionInv sf w'" "surfaceLog (logOf w') = Inr st'" "nodes st' = (dn @ [length (logOf w1)]) @ rest'"
          "\<exists>ext. logOf w' = logOf w2 @ ext" "list_all2 (prunedNode cfg lg (logOf w')) rest rest'"
        using Cons.IH [of w2 st2 "dn @ [length (logOf w1)]" "ext @ [?e1, ?e2]" "k + 2"] Cons.prems(4,6,7) s(2)
          w2 w1(3) st2 by auto
      have "prunedNode cfg lg (logOf w2) s (length (logOf w1))"
        using large(1) w2(3) r by (simp add: prunedNode_def)
      then have "prunedNode cfg lg (logOf w') s (length (logOf w1))"
        using ih(5) prunedNode_grow by metis
      moreover have "\<exists>es'. pruneLoop env cfg k (List.map_filter (toolResultAt lg) (s # rest)) w = (w', Inr es')"
        unfolding cand using large(1) w1(1) w2(1) ih(1) by (simp add: Let_def)
      moreover have "\<exists>ext. logOf w' = logOf w @ ext" using ih(5) w1(3) w2(3) by auto
      ultimately show ?thesis
        using ih(2-4,6)
        by (intro exI [of _ w'] exI [of _ st'] exI [of _ "length (logOf w1) # rest'"]) simp
    qed
  qed
qed

lemma prune_loop_idle:
  "\<forall>(s, r) \<in> set cs. pruneContent cfg (tm_content (tr_message r)) = Inr None
    \<Longrightarrow> pruneLoop env cfg k cs w = (w, Inr [])"
  by (induction cs) (auto simp: Let_def)

lemma prunedNode_small:
  assumes cfg: "pruneConfigOK cfg" and "prunedNode cfg lg lg' s s'" and "lg' = lg @ ext" "s < length lg"
  shows "eventDelta (ev_data (lg' ! s')) = eventDelta (ev_data (lg ! s))"
    and "ev_data (lg' ! s') = ToolResult r' \<Longrightarrow> pruneContent cfg (tm_content (tr_message r')) = Inr None"
proof -
  have at: "lg' ! s = lg ! s" using assms(3,4) by (simp add: nth_append)
  have small: "pruneContent cfg bs = Inr None" if "measureContent bs \<le> pr_thresholdChars cfg" for bs
    using that by (simp add: pruneContent_def)
  show "eventDelta (ev_data (lg' ! s')) = eventDelta (ev_data (lg ! s))"
    using assms(2) at by (auto simp: prunedNode_def eventDelta_def split: event_data.splits sum.splits option.splits)
  show "pruneContent cfg (tm_content (tr_message r')) = Inr None" if r': "ev_data (lg' ! s') = ToolResult r'"
  proof (cases "\<exists>r. ev_data (lg ! s) = ToolResult r")
    case False
    then show ?thesis using assms(2) at r' by (auto simp: prunedNode_def split: event_data.splits)
  next
    case True
    then obtain r where r: "ev_data (lg ! s) = ToolResult r" by blast
    from cfg show ?thesis
    proof (cases rule: pruneContent_cases [where content = "tm_content (tr_message r)"])
      case small
      then show ?thesis using assms(2) at r r' by (simp add: prunedNode_def)
    next
      case (large bs)
      then have "r' = withContent r bs" using assms(2) r r' by (simp add: prunedNode_def)
      then show ?thesis using large(5) cfg small by (simp add: withContent_def pruneConfigOK_def)
    qed
  qed
qed

text \<open>
  Claim C30: a pass of the pruner over the surface succeeds unless an append is vetoed. Afterwards
  the surface has the same nodes in the same places, but for the tool results over the threshold:
  each of them is replaced by the same result with its pruned content. Every cut between nodes has
  as many open calls as before, so nothing is torn from its call, and another pass changes nothing.
\<close>

theorem pruned_surface:
  assumes inv: "regionInv sf w" and cfg: "resolvePruneConfig ps = Inr cfg" and st: "surfaceLog (logOf w) = Inr st"
    and meta: "list_all (\<lambda>s. metaOK (logOf w ! s)) (nodes st)"
    and safe: "int (length (logOf w) + 2 * length (nodes st)) \<le> maxSafeInteger"
    and v: "\<And>k. \<not> pv_veto env k"
  shows "\<exists>w' res st'. pruneSession env cfg w = (w', Inr res) \<and> surfaceLog (logOf w') = Inr st'
    \<and> list_all2 (prunedNode cfg (logOf w) (logOf w')) (nodes st) (nodes st')
    \<and> (\<forall>k. openCalls (logOf w') (take k (nodes st')) = openCalls (logOf w) (take k (nodes st)))
    \<and> (\<exists>w2. pruneSession env2 cfg w' = (w2, Inr \<lparr>ps_pruned = [], ps_charsRemoved = 0\<rparr>)
        \<and> logOf w2 = logOf w')"
proof -
  have ok: "pruneConfigOK cfg" using resolved_prune_config [OF cfg] .
  obtain w1 where w1: "readSurface w = (w1, Inr (nodes st, replaceGeneration st))" "quiet sf w w1"
    using readSurface_ok [OF inv st] by blast
  have q1: "regionInv sf w1" "logOf w1 = logOf w" using quiet_D [OF w1(2) inv] by simp_all
  obtain w' es st' where l: "pruneLoop env cfg 0 (List.map_filter (toolResultAt (logOf w)) (nodes st)) w1 = (w', Inr es)"
      "regionInv sf w'" "surfaceLog (logOf w') = Inr st'" "\<exists>ext. logOf w' = logOf w @ ext"
      "list_all2 (prunedNode cfg (logOf w) (logOf w')) (nodes st) (nodes st')"
    using prune_loop [OF ok v q1(1), of st "[]" "nodes st" "logOf w" "[]" 0] st q1(2) meta safe
      surface_onLog [OF st] by (auto simp: list_all_iff)
  have run: "\<exists>res. pruneSession env cfg w = (w', Inr res)"
    using w1(1) q1(2) l(1) by (simp add: pruneSession_def)
  have below: "\<forall>s \<in> set (nodes st). s < length (logOf w)" using surfaceInv_below [OF surfaceLog_inv [OF st]] .
  have delta: "openCalls (logOf w') ns' = openCalls (logOf w) ns"
    if "list_all2 (prunedNode cfg (logOf w) (logOf w')) ns ns'" "set ns \<subseteq> set (nodes st)" for ns ns'
    using that below l(4)
    by (induction rule: list_all2_induct) (auto dest: prunedNode_small(1) [OF ok])
  have cuts: "openCalls (logOf w') (take k (nodes st')) = openCalls (logOf w) (take k (nodes st))" for k
    by (rule delta) (use l(5) in \<open>auto intro: list_all2_takeI dest: in_set_takeD\<close>)
  obtain w2 where w2: "readSurface w' = (w2, Inr (nodes st', replaceGeneration st'))" "quiet sf w' w2"
    using readSurface_ok [OF l(2,3)] by blast
  have q2: "logOf w2 = logOf w'" using quiet_D [OF w2(2) l(2)] by simp
  have "pruneContent cfg (tm_content (tr_message r)) = Inr None"
    if h: "toolResultAt (logOf w') s' = Some (x, r)" and mem: "s' \<in> set (nodes st')" for s' x r
  proof -
    obtain s where "s \<in> set (nodes st)" "prunedNode cfg (logOf w) (logOf w') s s'"
      using l(5) mem by (metis in_set_conv_nth list_all2_conv_all_nth)
    moreover have "ev_data (logOf w' ! s') = ToolResult r"
      using h by (auto simp: toolResultAt_def eventAt_def split: if_splits event_data.splits)
    ultimately show ?thesis using prunedNode_small(2) [OF ok] l(4) below by blast
  qed
  then have "pruneLoop env2 cfg 0 (List.map_filter (toolResultAt (logOf w')) (nodes st')) w2 = (w2, Inr [])"
    by (intro prune_loop_idle) (auto simp: List.map_filter_def)
  then have "pruneSession env2 cfg w' = (w2, Inr \<lparr>ps_pruned = [], ps_charsRemoved = 0\<rparr>)"
    using w2(1) q2 by (simp add: pruneSession_def)
  with run l(3,5) cuts q2 show ?thesis by blast
qed

definition sample_result :: tool_result where
  "sample_result = \<lparr>tr_turn = 1, tr_step = 1,
     tr_message = \<lparr>tm_id = ''t'', tm_sourceCallId = ''c'', tm_toolCallId = ''c'',
       tm_content = [TextBlock (replicate 99 (CHR ''x''))], tm_isError = None\<rparr>,
     tr_error = None, tr_meta = None\<rparr>"

definition sample_pruning :: region_world where
  "sample_pruning =
     \<lparr>rw_session = fst (append (sample_add sample_start 1) 0 (Some (ToolResult sample_result))
        (Some (Some (JStr ''append''), None))), rw_balance = None, rw_meter = newMeter\<rparr>"

definition sample_prune_env :: prune_env where
  "sample_prune_env = \<lparr>pv_stringify = (\<lambda>_. ''''), pv_now = int, pv_veto = (\<lambda>_. False)\<rparr>"

theorem pruned_surface_witness:
  "\<exists>cfg w' res st'. resolvePruneConfig sample_prune = Inr cfg
     \<and> pruneSession sample_prune_env cfg sample_pruning = (w', Inr res)
     \<and> surfaceLog (logOf w') = Inr st' \<and> length (nodes st') = 2"
proof -
  let ?cfg = "\<lparr>pr_thresholdChars = 60, pr_headChars = 3, pr_tailChars = 2\<rparr>"
  have live: "live (rw_session sample_pruning)"
    unfolding sample_pruning_def sample_add_def
    by (simp, (rule live_append [OF _ prod.collapse [symmetric]])+, rule sample_start_live)
  have inv: "regionInv (\<lambda>_. '''') sample_pruning"
    using live_inv [OF live] meterInv_new by (simp add: regionInv_def sample_pruning_def)
  have r: "resolvePruneConfig sample_prune = Inr ?cfg" by code_simp
  have st: "surfaceLog (logOf sample_pruning) = Inr \<lparr>nodes = [0, 1], replaceGeneration = 0\<rparr>" by code_simp
  have "metaOK (logOf sample_pruning ! 0)" "metaOK (logOf sample_pruning ! 1)" by code_simp+
  then have m: "list_all (\<lambda>s. metaOK (logOf sample_pruning ! s)) [0, 1]" by simp
  have n: "length (logOf sample_pruning) = 2" by code_simp
  have "\<And>k. \<not> pv_veto sample_prune_env k" by (simp add: sample_prune_env_def)
  from pruned_surface [OF inv r st _ _ this] m n r show ?thesis
    by (fastforce simp: maxSafeInteger_def dest: list_all2_lengthD)
qed

end
