(* ===== verification/Loop_Env.thy ===== *)
theory Loop_Env
  imports Inbox_Facts
begin

text \<open>
  What the driver of an agent and the code around it do to the session and the inbox of the agent.
  The driver appends through \<open>driverAppend\<close>; other plugins append and splice while the driver
  awaits, which is a \<open>foreign\<close> step. The kinds of events that only the driver writes are
  \<open>loopOwned\<close>.
\<close>

section \<open>Appends of the driver\<close>

text \<open>
  The time of an append, whether its dispatch is vetoed, and whether the payload is lossless JSON.
\<close>

record append_env =
  ae_now :: int
  ae_veto :: bool
  ae_lossless :: bool

definition sessionOf :: "inbox_state \<Rightarrow> session" where
  "sessionOf st = fst (snd st)"

definition logS :: "inbox_state \<Rightarrow> event list" where
  "logS st = s_log (sessionOf st)"

definition driverAppend ::
  "append_env \<Rightarrow> event_data \<Rightarrow> json option \<times> json option \<Rightarrow> inbox_state
    \<Rightarrow> inbox_state \<times> (append_error + event)" where
  "driverAppend ae d meta st =
     (case st of (ib, S, notes) \<Rightarrow>
      case appendWith S (ae_now ae) (ae_veto ae) (if ae_lossless ae then Some d else None) (Some meta) of
        (S', r) \<Rightarrow> ((ib, S', notes), r))"

definition unmarked :: "json option \<times> json option" where
  "unmarked = (None, None)"

text \<open>\<^verbatim>\<open>{ surfaceOp: 'append' }\<close>, with the cited sources when there are any.\<close>

definition surfaced :: "nat list option \<Rightarrow> json option \<times> json option" where
  "surfaced sources =
     (Some (JStr ''append''), map_option (\<lambda>ss. JArr (map (\<lambda>s. JNum (of_nat s)) ss)) sources)"

lemma driverAppend_Inr:
  "driverAppend ae d meta st = (st', Inr ev) \<Longrightarrow>
     logS st' = logS st @ [ev] \<and> ev_data ev = d \<and> seq ev = length (logS st)
     \<and> (surfaceOp ev, sourceEventSeqs ev) = meta \<and> fst st' = fst st"
  by (cases "ae_lossless ae")
    (auto simp: driverAppend_def logS_def sessionOf_def split: prod.splits dest: appendWith_Inr)

lemma driverAppend_Inl:
  "driverAppend ae d meta st = (st', Inl err) \<Longrightarrow> logS st' = logS st \<and> fst st' = fst st"
  by (auto simp: driverAppend_def logS_def sessionOf_def split: prod.splits dest: appendWith_Inl)

section \<open>Other code\<close>

text \<open>
  \<^verbatim>\<open>tool/result\<close> is the driver's when it is new on the surface; a rewrite of a result is not.
\<close>

fun loopOwned :: "event_data \<Rightarrow> json option \<Rightarrow> bool" where
  "loopOwned (TurnStart _) op = True"
| "loopOwned (TurnEnd _ _) op = True"
| "loopOwned (StepStart _ _) op = True"
| "loopOwned (StepEnd _ _) op = True"
| "loopOwned (AssistantChunk _ _ _) op = True"
| "loopOwned (AssistantMsg _ _ _ _) op = True"
| "loopOwned (ToolCall _ _ _ _ _) op = True"
| "loopOwned (ToolResult _) op = (op = Some (JStr ''append''))"
| "loopOwned (RequestHeader _ _) op = True"
| "loopOwned (RequestContext _) op = True"
| "loopOwned _ op = False"

abbreviation loopEvent :: "event \<Rightarrow> bool" where
  "loopEvent e \<equiv> loopOwned (ev_data e) (surfaceOp e)"

datatype foreign =
    ForeignAppend event_data "json option" "json option" append_env
  | ForeignSplice inbox_target js_number js_number "message list" append_env

definition admissible :: "foreign \<Rightarrow> bool" where
  "admissible f = (case f of ForeignAppend d op _ _ \<Rightarrow> \<not> loopOwned d op | _ \<Rightarrow> True)"

definition applyForeign :: "inbox_state \<Rightarrow> foreign \<Rightarrow> inbox_state" where
  "applyForeign st f =
     (case f of
        ForeignAppend d op sources ae \<Rightarrow> fst (driverAppend ae d (op, sources) st)
      | ForeignSplice target start n inserted ae \<Rightarrow>
          fst (spliceInbox st (ae_now ae) (ae_veto ae) target start n inserted))"

definition foreignGrowth :: "inbox_state \<Rightarrow> inbox_state \<Rightarrow> bool" where
  "foreignGrowth st st' \<longleftrightarrow>
     (\<exists>es. logS st' = logS st @ es \<and> list_all (\<lambda>e. \<not> loopEvent e) es
        \<and> map seq es = [length (logS st) ..< length (logS st) + length es])"

lemma foreignGrowth_refl: "logS st' = logS st \<Longrightarrow> foreignGrowth st st'"
  by (simp add: foreignGrowth_def)

lemma foreignGrowth_one:
  "logS st' = logS st @ [e] \<Longrightarrow> \<not> loopEvent e \<Longrightarrow> seq e = length (logS st) \<Longrightarrow> foreignGrowth st st'"
  by (auto simp: foreignGrowth_def)

lemma foreignGrowth_trans:
  assumes "foreignGrowth a b" and "foreignGrowth b c"
  shows "foreignGrowth a c"
proof -
  obtain es where es: "logS b = logS a @ es" "list_all (\<lambda>e. \<not> loopEvent e) es"
      "map seq es = [length (logS a) ..< length (logS a) + length es]"
    using assms(1) by (auto simp: foreignGrowth_def)
  obtain fs where fs: "logS c = logS b @ fs" "list_all (\<lambda>e. \<not> loopEvent e) fs"
      "map seq fs = [length (logS b) ..< length (logS b) + length fs]"
    using assms(2) by (auto simp: foreignGrowth_def)
  have "map seq (es @ fs) = [length (logS a) ..< length (logS a) + length (es @ fs)]"
    using es(3) fs(3) upt_add_eq_append [of "length (logS a)" "length (logS a) + length es" "length fs"]
    by (simp add: es(1) add.assoc)
  then show ?thesis
    unfolding foreignGrowth_def using es(1,2) fs(1,2) by (intro exI [of _ "es @ fs"]) simp
qed

lemma splice_growth:
  assumes "logAppend S now veto d = (S', r)" and "\<And>x. d = Some x \<Longrightarrow> \<not> loopOwned x None"
  shows "foreignGrowth (ib, S, ns) (ib', S', ns')"
proof (cases r)
  case (Inl err)
  then have "s_log S' = s_log S" using assms(1) logAppend_Inl by blast
  then show ?thesis by (intro foreignGrowth_refl) (simp add: logS_def sessionOf_def)
next
  case (Inr ev)
  then have "s_log S' = s_log S @ [ev]" "d = Some (ev_data ev)" "surfaceOp ev = None" "seq ev = length (s_log S)"
    using assms(1) appendWith_Inr [of S now veto d "Some (None, None)" S' ev] by (auto simp: logAppend_def)
  then show ?thesis
    using assms(2) by (intro foreignGrowth_one [of _ _ ev]) (auto simp: logS_def sessionOf_def)
qed

lemma mutate_growth:
  assumes "mutate st now veto target start n ins d = (st', r)"
  shows "foreignGrowth st st'"
proof -
  obtain ib S ns where st: "st = (ib, S, ns)" by (cases st)
  from assms show ?thesis
    by (auto simp: mutate_def st Let_def split: prod.splits if_split_asm sum.splits
        intro: foreignGrowth_refl) (erule splice_growth, force)+
qed

lemma foreign_growth:
  assumes "admissible f"
  shows "foreignGrowth st (applyForeign st f)"
proof (cases f)
  case (ForeignAppend d op sources ae)
  obtain st' r where a: "driverAppend ae d (op, sources) st = (st', r)" by fastforce
  then show ?thesis
    using ForeignAppend assms driverAppend_Inr [of ae d _ st st'] driverAppend_Inl [of ae d _ st st']
    by (cases r) (auto simp: applyForeign_def admissible_def intro: foreignGrowth_refl foreignGrowth_one)
next
  case (ForeignSplice target start n inserted ae)
  then show ?thesis
    unfolding applyForeign_def spliceInbox_def
    by (auto intro: mutate_growth prod.collapse [symmetric])
qed

end
