(* ===== verification/Tool_Scheduler.thy ===== *)
theory Tool_Scheduler
  imports Loop_Env
begin

text \<open>
  \<^verbatim>\<open>packages/core/agent-loop/src/tool-calls.ts\<close>: the scheduler of the tool calls of one
  assistant step. \<open>runGroup\<close> is a machine that stops at every \<^verbatim>\<open>await\<close>: an input of the
  machine is either what the awaited promise yields, with what the synchronous code after it reads
  from the run-time, or something that happens meanwhile (a dispatch settles, the signal aborts,
  other code writes). \<open>poolStep\<close> gives no successor when the input does not fit the stage.
\<close>

section \<open>Calls, results and their events\<close>

datatype execution_mode = ParallelMode | ExclusiveMode

text \<open>\<^verbatim>\<open>ToolExecutionResult\<close>, as far as the scheduler reads it.\<close>

record tool_outcome =
  to_content :: "content_block list"
  to_isError :: bool
  to_errorInfo :: "(string \<times> string) option"
  to_meta :: "json option"
  to_contexts :: "message list"
  to_concludes :: bool

text \<open>\<^verbatim>\<open>ScheduledToolPreparation\<close>\<close>

datatype preparation = PrepDispatch | PrepPost tool_outcome | PrepFinal tool_outcome

datatype scheduler_error =
    ScheduleAppend append_error
  | ContextRefused inbox_error
  | PrepareFailed string
  | DispatchFailed string
  | FinalizeFailed string
  | UncommittedCalls

text \<open>The place of a call and, for a result, the fresh identity of its message.\<close>

definition callData :: "int \<Rightarrow> int \<Rightarrow> content_block \<Rightarrow> event_data" where
  "callData turn step block = ToolCall turn step (call_id block) (call_name block) (call_arguments block)"

definition resultData :: "int \<Rightarrow> int \<Rightarrow> content_block \<Rightarrow> tool_outcome \<Rightarrow> string \<Rightarrow> event_data" where
  "resultData turn step block r mid =
     ToolResult
       \<lparr>tr_turn = turn, tr_step = step,
        tr_message = \<lparr>tm_id = mid, tm_sourceCallId = call_id block, tm_toolCallId = call_id block,
                      tm_content = to_content r, tm_isError = Some (to_isError r)\<rparr>,
        tr_error = to_errorInfo r, tr_meta = to_meta r\<rparr>"

definition appendToolCall ::
  "int \<Rightarrow> int \<Rightarrow> content_block \<Rightarrow> append_env \<Rightarrow> inbox_state \<Rightarrow> inbox_state \<times> (append_error + event)"
where
  "appendToolCall turn step block ae st = driverAppend ae (callData turn step block) unmarked st"

definition appendToolResult ::
  "int \<Rightarrow> int \<Rightarrow> content_block \<Rightarrow> tool_outcome \<Rightarrow> nat \<Rightarrow> string \<Rightarrow> append_env \<Rightarrow> inbox_state
    \<Rightarrow> inbox_state \<times> (append_error + event)" where
  "appendToolResult turn step block r callSeq mid ae st =
     driverAppend ae (resultData turn step block r mid) (surfaced (Some [callSeq])) st"

definition TOOL_ABORTED_BEFORE_DISPATCH :: string where
  "TOOL_ABORTED_BEFORE_DISPATCH = ''ABORTED_BEFORE_DISPATCH''"

definition skippedOutcome :: tool_outcome where
  "skippedOutcome =
     \<lparr>to_content = [TextBlock ''Error: tool call aborted before dispatch''], to_isError = True,
      to_errorInfo = Some (''AbortError'', TOOL_ABORTED_BEFORE_DISPATCH), to_meta = None,
      to_contexts = [], to_concludes = False\<rparr>"

text \<open>What one skipped call takes from the run-time: two appends and an identity.\<close>

type_synonym skip_env = "append_env \<times> append_env \<times> string"

definition appendSkippedToolCall ::
  "int \<Rightarrow> int \<Rightarrow> content_block \<Rightarrow> skip_env \<Rightarrow> inbox_state \<Rightarrow> inbox_state \<times> (append_error + event)"
where
  "appendSkippedToolCall turn step block env st =
     (case env of (ae1, ae2, mid) \<Rightarrow>
        thenR (appendToolCall turn step block ae1 st) (\<lambda>st call.
          appendToolResult turn step block skippedOutcome (seq call) mid ae2 st))"

fun skipCalls ::
  "int \<Rightarrow> int \<Rightarrow> content_block list \<Rightarrow> (nat \<Rightarrow> skip_env) \<Rightarrow> inbox_state
    \<Rightarrow> inbox_state \<times> (append_error + unit)" where
  "skipCalls turn step [] env st = (st, Inr ())"
| "skipCalls turn step (b # bs) env st =
     thenR (appendSkippedToolCall turn step b (env 0) st) (\<lambda>st _.
       skipCalls turn step bs (\<lambda>n. env (Suc n)) st)"

section \<open>One group\<close>

record group_config =
  gc_turn :: int
  gc_step :: int
  gc_group :: "content_block list"
  gc_mode :: execution_mode
  gc_maxParallel :: nat

record group_outcome =
  go_consumed :: nat
  go_aborted :: bool
  go_concluded :: bool

text \<open>
  Where the machine is. \<open>Filling\<close> is the head of the loop of \<^verbatim>\<open>fillPool\<close> and \<open>Committing\<close>
  the one of \<^verbatim>\<open>commitReady\<close>; the machine waits at \<open>Preparing\<close>, \<open>Finalizing\<close>,
  \<open>Racing\<close> and \<open>Draining\<close> for a promise, and at \<open>Started\<close>, \<open>Committed\<close> and \<open>Filled\<close> for
  the return of an asynchronous function of its own.
\<close>

datatype pool_stage =
    Filling
  | Preparing
  | Started
  | Committing
  | Finalizing
  | Committed
  | Filled
  | Racing
  | Draining
  | GroupReturned group_outcome
  | GroupThrown scheduler_error

record pool =
  pl_state :: inbox_state
  pl_slots :: "(tool_outcome \<times> bool) option list"
  pl_callSeqs :: "nat option list"
  pl_nextToStart :: nat
  pl_committed :: nat
  pl_started :: nat
  pl_aborted :: bool
  pl_concluded :: bool
  pl_failure :: "scheduler_error option"
  pl_inFlight :: "nat list"
  pl_settled :: "nat list"
  pl_signal :: bool
  pl_stage :: pool_stage

definition newPool :: "content_block list \<Rightarrow> inbox_state \<Rightarrow> bool \<Rightarrow> pool" where
  "newPool grp st aborted =
     \<lparr>pl_state = st, pl_slots = replicate (length grp) None,
      pl_callSeqs = replicate (length grp) None, pl_nextToStart = 0, pl_committed = 0,
      pl_started = 0, pl_aborted = aborted, pl_concluded = False, pl_failure = None,
      pl_inFlight = [], pl_settled = [], pl_signal = aborted, pl_stage = Filling\<rparr>"

text \<open>The \<^verbatim>\<open>catch\<close> block up to its await: the first failure is the one that is kept.\<close>

definition failPool :: "scheduler_error \<Rightarrow> pool \<Rightarrow> pool" where
  "failPool err p =
     p\<lparr>pl_failure := (case pl_failure p of None \<Rightarrow> Some err | Some e \<Rightarrow> Some e), pl_stage := Draining\<rparr>"

text \<open>\<^verbatim>\<open>throwSchedulerFailure\<close>, and what follows it.\<close>

definition unlessFailed :: "pool \<Rightarrow> pool \<Rightarrow> pool" where
  "unlessFailed p continue = (case pl_failure p of Some _ \<Rightarrow> p\<lparr>pl_stage := Draining\<rparr> | None \<Rightarrow> continue)"

definition startNext :: "group_config \<Rightarrow> append_env \<Rightarrow> pool \<Rightarrow> pool" where
  "startNext cfg ae p =
     (let i = pl_nextToStart p
      in case appendToolCall (gc_turn cfg) (gc_step cfg) (gc_group cfg ! i) ae (pl_state p) of
           (st, Inl err) \<Rightarrow> failPool (ScheduleAppend err) (p\<lparr>pl_state := st\<rparr>)
         | (st, Inr ev) \<Rightarrow>
             p\<lparr>pl_state := st, pl_callSeqs := (pl_callSeqs p)[i := Some (seq ev)],
               pl_started := pl_started p + 1, pl_stage := Preparing\<rparr>)"

text \<open>One round of \<^verbatim>\<open>fillPool\<close>; \<open>mode\<close> is the execution mode of the next call as it is now.\<close>

definition fillRound :: "group_config \<Rightarrow> execution_mode \<Rightarrow> append_env \<Rightarrow> pool \<Rightarrow> pool" where
  "fillRound cfg mode ae p =
     (if \<not> pl_aborted p \<and> pl_nextToStart p < length (gc_group cfg)
         \<and> length (pl_inFlight p) < gc_maxParallel cfg
      then if pl_nextToStart p > 0 \<and> gc_mode cfg = ParallelMode \<and> mode \<noteq> ParallelMode
           then p\<lparr>pl_stage := Filled\<rparr>
           else startNext cfg ae p
      else p\<lparr>pl_stage := Filled\<rparr>)"

definition afterPrepare :: "preparation \<Rightarrow> pool \<Rightarrow> pool" where
  "afterPrepare prepared p =
     (let i = pl_nextToStart p
      in case prepared of
           PrepDispatch \<Rightarrow> p\<lparr>pl_inFlight := pl_inFlight p @ [i], pl_stage := Started\<rparr>
         | PrepPost r \<Rightarrow> p\<lparr>pl_slots := (pl_slots p)[i := Some (r, True)], pl_stage := Started\<rparr>
         | PrepFinal r \<Rightarrow> p\<lparr>pl_slots := (pl_slots p)[i := Some (r, False)], pl_stage := Started\<rparr>)"

text \<open>
  \<^verbatim>\<open>acceptContext\<close> of the agent: each context goes to the end of its next-step inbox. The
  environments are the ones of the splices.
\<close>

fun acceptContexts ::
  "message list \<Rightarrow> (nat \<Rightarrow> append_env) \<Rightarrow> inbox_state \<Rightarrow> inbox_state \<times> (inbox_error + unit)" where
  "acceptContexts [] env st = (st, Inr ())"
| "acceptContexts (m # ms) env st =
     thenR (spliceInbox st (ae_now (env 0)) (ae_veto (env 0)) NextStep
              (Finite (of_nat (length (ib_nextStep (fst st))))) (Finite 0) [m]) (\<lambda>st _.
       acceptContexts ms (\<lambda>n. env (Suc n)) st)"

text \<open>What committing one slot takes from the run-time.\<close>

record commit_env =
  ce_messageId :: string
  ce_append :: append_env
  ce_contexts :: "nat \<Rightarrow> append_env"

definition commitSlot :: "group_config \<Rightarrow> commit_env \<Rightarrow> tool_outcome \<Rightarrow> pool \<Rightarrow> pool" where
  "commitSlot cfg env r p =
     (let i = pl_committed p; callSeq = (case pl_callSeqs p ! i of Some s \<Rightarrow> s | None \<Rightarrow> 0)
      in case appendToolResult (gc_turn cfg) (gc_step cfg) (gc_group cfg ! i) r callSeq
                (ce_messageId env) (ce_append env) (pl_state p) of
           (st, Inl err) \<Rightarrow> failPool (ScheduleAppend err) (p\<lparr>pl_state := st\<rparr>)
         | (st, Inr _) \<Rightarrow>
             (case acceptContexts (to_contexts r) (ce_contexts env) st of
                (st', Inl err) \<Rightarrow> failPool (ContextRefused err) (p\<lparr>pl_state := st'\<rparr>)
              | (st', Inr _) \<Rightarrow>
                  p\<lparr>pl_state := st', pl_concluded := pl_concluded p \<or> to_concludes r,
                    pl_committed := i + 1, pl_stage := Committing\<rparr>))"

text \<open>
  One round of \<^verbatim>\<open>commitReady\<close>; \<open>finish\<close> is what \<^verbatim>\<open>finish\<close> makes of a result that needs no
  post-execution.
\<close>

definition commitRound ::
  "group_config \<Rightarrow> (tool_outcome \<Rightarrow> string + tool_outcome) \<Rightarrow> commit_env \<Rightarrow> pool \<Rightarrow> pool" where
  "commitRound cfg finish env p =
     (if pl_committed p < length (gc_group cfg)
      then case pl_slots p ! pl_committed p of
             None \<Rightarrow> p\<lparr>pl_stage := Committed\<rparr>
           | Some (r, True) \<Rightarrow> p\<lparr>pl_stage := Finalizing\<rparr>
           | Some (r, False) \<Rightarrow>
               (case finish r of
                  Inl err \<Rightarrow> failPool (FinalizeFailed err) p
                | Inr r' \<Rightarrow> commitSlot cfg env r' p)
      else p\<lparr>pl_stage := Committed\<rparr>)"

text \<open>The code after the \<^verbatim>\<open>try\<close>.\<close>

definition finishGroup :: "group_config \<Rightarrow> (nat \<Rightarrow> skip_env) \<Rightarrow> pool \<Rightarrow> pool" where
  "finishGroup cfg env p =
     (if pl_aborted p
      then case skipCalls (gc_turn cfg) (gc_step cfg) (drop (pl_started p) (gc_group cfg)) env (pl_state p) of
             (st, Inl err) \<Rightarrow> p\<lparr>pl_state := st, pl_stage := GroupThrown (ScheduleAppend err)\<rparr>
           | (st, Inr _) \<Rightarrow>
               p\<lparr>pl_state := st,
                 pl_stage := GroupReturned \<lparr>go_consumed = length (gc_group cfg), go_aborted = True,
                                            go_concluded = pl_concluded p\<rparr>\<rparr>
      else if pl_committed p \<noteq> pl_started p then p\<lparr>pl_stage := GroupThrown UncommittedCalls\<rparr>
      else p\<lparr>pl_stage := GroupReturned \<lparr>go_consumed = pl_started p, go_aborted = False,
                                         go_concluded = pl_concluded p\<rparr>\<rparr>)"

section \<open>The machine\<close>

datatype pool_input =
    Fill execution_mode append_env
  | Prepared "string + preparation"
  | Resume
  | Commit "tool_outcome \<Rightarrow> string + tool_outcome" commit_env
  | Finalized "string + tool_outcome" commit_env
  | Race nat
  | Drained
  | Finish "nat \<Rightarrow> skip_env"
  | Settle nat "string + (tool_outcome \<times> bool)"
  | Abort
  | Foreign foreign

text \<open>
  An own input is a synchronous step of the scheduler, with what the functions it calls return.
  An answer settles a promise of the tool registry that the scheduler has asked for: the result of
  \<^verbatim>\<open>prepare\<close>, of \<^verbatim>\<open>finalize\<close> or of a dispatch. The others are what other code does meanwhile.
\<close>

fun ownInput :: "pool_input \<Rightarrow> bool" where
  "ownInput (Fill _ _) = True"
| "ownInput Resume = True"
| "ownInput (Commit _ _) = True"
| "ownInput (Race _) = True"
| "ownInput Drained = True"
| "ownInput (Finish _) = True"
| "ownInput _ = False"

fun answerInput :: "pool_input \<Rightarrow> bool" where
  "answerInput (Prepared _) = True"
| "answerInput (Finalized _ _) = True"
| "answerInput (Settle _ _) = True"
| "answerInput _ = False"

fun suspended :: "pool_stage \<Rightarrow> bool" where
  "suspended Filling = False"
| "suspended Committing = False"
| "suspended _ = True"

definition settle :: "nat \<Rightarrow> string + (tool_outcome \<times> bool) \<Rightarrow> pool \<Rightarrow> pool" where
  "settle i r p =
     (case r of
        Inr slot \<Rightarrow> p\<lparr>pl_slots := (pl_slots p)[i := Some slot], pl_settled := i # pl_settled p\<rparr>
      | Inl err \<Rightarrow>
          p\<lparr>pl_failure := (case pl_failure p of None \<Rightarrow> Some (DispatchFailed err) | Some e \<Rightarrow> Some e),
            pl_settled := i # pl_settled p\<rparr>)"

definition resume :: "pool \<Rightarrow> pool option" where
  "resume p =
     (case pl_stage p of
        Started \<Rightarrow>
          (let p' = p\<lparr>pl_nextToStart := pl_nextToStart p + 1\<rparr>
           in Some (unlessFailed p' (p'\<lparr>pl_stage := Committing\<rparr>)))
      | Committed \<Rightarrow>
          Some (unlessFailed p (p\<lparr>pl_aborted := pl_aborted p \<or> pl_signal p, pl_stage := Filling\<rparr>))
      | Filled \<Rightarrow> if pl_inFlight p = [] then None else Some (p\<lparr>pl_stage := Racing\<rparr>)
      | _ \<Rightarrow> None)"

fun poolStep :: "group_config \<Rightarrow> pool \<Rightarrow> pool_input \<Rightarrow> pool option" where
  "poolStep cfg p (Fill mode ae) =
     (if pl_stage p = Filling then Some (fillRound cfg mode ae p) else None)"
| "poolStep cfg p (Prepared r) =
     (if pl_stage p = Preparing
      then Some (case r of
          Inl err \<Rightarrow> failPool (PrepareFailed err) p
        | Inr prepared \<Rightarrow> unlessFailed p (afterPrepare prepared p))
      else None)"
| "poolStep cfg p Resume = resume p"
| "poolStep cfg p (Commit finish env) =
     (if pl_stage p = Committing then Some (commitRound cfg finish env p) else None)"
| "poolStep cfg p (Finalized r env) =
     (if pl_stage p = Finalizing
      then Some (case r of
          Inl err \<Rightarrow> failPool (FinalizeFailed err) p
        | Inr r' \<Rightarrow> commitSlot cfg env r' p)
      else None)"
| "poolStep cfg p (Race i) =
     (if pl_stage p = Racing \<and> i \<in> set (pl_inFlight p) \<and> i \<in> set (pl_settled p)
      then (let p' = p\<lparr>pl_inFlight := remove1 i (pl_inFlight p)\<rparr>
            in Some (unlessFailed p' (p'\<lparr>pl_stage := Committing\<rparr>)))
      else None)"
| "poolStep cfg p Drained =
     (if pl_stage p = Draining \<and> set (pl_inFlight p) \<subseteq> set (pl_settled p)
      then map_option (\<lambda>err. p\<lparr>pl_stage := GroupThrown err\<rparr>) (pl_failure p)
      else None)"
| "poolStep cfg p (Finish env) =
     (if pl_stage p = Filled \<and> pl_inFlight p = [] then Some (finishGroup cfg env p) else None)"
| "poolStep cfg p (Settle i r) =
     (if suspended (pl_stage p) \<and> i \<in> set (pl_inFlight p) \<and> i \<notin> set (pl_settled p)
      then Some (settle i r p) else None)"
| "poolStep cfg p Abort = Some (p\<lparr>pl_signal := True\<rparr>)"
| "poolStep cfg p (Foreign f) =
     (if suspended (pl_stage p) \<and> admissible f then Some (p\<lparr>pl_state := applyForeign (pl_state p) f\<rparr>)
      else None)"

fun poolRun :: "group_config \<Rightarrow> pool \<Rightarrow> pool_input list \<Rightarrow> pool option" where
  "poolRun cfg p [] = Some p"
| "poolRun cfg p (x # xs) = Option.bind (poolStep cfg p x) (\<lambda>p'. poolRun cfg p' xs)"

section \<open>The whole step\<close>

datatype exec_stage = Choosing | Running group_config pool | Done bool | Thrown scheduler_error

record exec =
  ex_turn :: int
  ex_step :: int
  ex_planned :: "content_block list"
  ex_maxParallel :: nat
  ex_state :: inbox_state
  ex_signal :: bool
  ex_next :: nat
  ex_concluded :: bool
  ex_stage :: exec_stage

definition newExec :: "int \<Rightarrow> int \<Rightarrow> content_block list \<Rightarrow> nat \<Rightarrow> inbox_state \<Rightarrow> bool \<Rightarrow> exec" where
  "newExec turn step toolCalls maxParallel st signal =
     \<lparr>ex_turn = turn, ex_step = step, ex_planned = toolCalls, ex_maxParallel = maxParallel,
      ex_state = st, ex_signal = signal, ex_next = 0, ex_concluded = False, ex_stage = Choosing\<rparr>"

datatype exec_input =
    Classify execution_mode
  | Group pool_input
  | Collect "nat \<Rightarrow> skip_env"

text \<open>
  The outcome of a group returns to the loop of \<^verbatim>\<open>executeToolCalls\<close>, which skips what an aborted
  group left.
\<close>

definition collectGroup :: "exec \<Rightarrow> pool \<Rightarrow> group_outcome \<Rightarrow> (nat \<Rightarrow> skip_env) \<Rightarrow> exec" where
  "collectGroup x p out env =
     (let next = ex_next x + go_consumed out; concluded = (ex_concluded x \<or> go_concluded out)
      in if go_aborted out
         then case skipCalls (ex_turn x) (ex_step x) (drop next (ex_planned x)) env (pl_state p) of
                (st, Inl err) \<Rightarrow>
                  x\<lparr>ex_state := st, ex_signal := pl_signal p, ex_next := next, ex_concluded := concluded,
                    ex_stage := Thrown (ScheduleAppend err)\<rparr>
              | (st, Inr _) \<Rightarrow>
                  x\<lparr>ex_state := st, ex_signal := pl_signal p, ex_next := next, ex_concluded := concluded,
                    ex_stage := Done concluded\<rparr>
         else x\<lparr>ex_state := pl_state p, ex_signal := pl_signal p, ex_next := next,
                ex_concluded := concluded, ex_stage := Choosing\<rparr>)"

fun execStep :: "exec \<Rightarrow> exec_input \<Rightarrow> exec option" where
  "execStep x (Classify mode) =
     (case ex_stage x of
        Choosing \<Rightarrow>
          if ex_next x < length (ex_planned x)
          then (let grp = (if mode = ParallelMode then drop (ex_next x) (ex_planned x)
                           else [ex_planned x ! ex_next x]);
                    cfg = \<lparr>gc_turn = ex_turn x, gc_step = ex_step x, gc_group = grp, gc_mode = mode,
                           gc_maxParallel = ex_maxParallel x\<rparr>
                in Some (x\<lparr>ex_stage := Running cfg (newPool grp (ex_state x) (ex_signal x))\<rparr>))
          else Some (x\<lparr>ex_stage := Done (ex_concluded x)\<rparr>)
      | _ \<Rightarrow> None)"
| "execStep x (Group i) =
     (case ex_stage x of
        Running cfg p \<Rightarrow> map_option (\<lambda>p'. x\<lparr>ex_stage := Running cfg p'\<rparr>) (poolStep cfg p i)
      | _ \<Rightarrow> None)"
| "execStep x (Collect env) =
     (case ex_stage x of
        Running cfg p \<Rightarrow>
          (case pl_stage p of
             GroupReturned out \<Rightarrow> Some (collectGroup x p out env)
           | GroupThrown err \<Rightarrow>
               Some (x\<lparr>ex_state := pl_state p, ex_signal := pl_signal p, ex_stage := Thrown err\<rparr>)
           | _ \<Rightarrow> None)
      | _ \<Rightarrow> None)"

fun execRun :: "exec \<Rightarrow> exec_input list \<Rightarrow> exec option" where
  "execRun x [] = Some x"
| "execRun x (i # is) = Option.bind (execStep x i) (\<lambda>x'. execRun x' is)"

end
