(* ===== verification/Scheduler_Facts.thy ===== *)
theory Scheduler_Facts
  imports Tool_Scheduler
begin

text \<open>
  What the scheduler of tool calls guarantees. In every execution, whatever settles, aborts, fails
  or writes meanwhile, the calls enter the log in model order, and so do the results, one for each
  call, each citing the event of its call; an execution that returns has done so for every call.
\<close>

section \<open>Calls and results in a log\<close>

fun isCallEvent :: "event \<Rightarrow> bool" where
  "isCallEvent e = (case ev_data e of ToolCall _ _ _ _ _ \<Rightarrow> True | _ \<Rightarrow> False)"

fun isNewResult :: "event \<Rightarrow> bool" where
  "isNewResult e = (case ev_data e of ToolResult _ \<Rightarrow> surfaceOp e = Some (JStr ''append'') | _ \<Rightarrow> False)"

abbreviation callsOf :: "event list \<Rightarrow> event list" where "callsOf \<equiv> filter isCallEvent"
abbreviation resultsOf :: "event list \<Rightarrow> event list" where "resultsOf \<equiv> filter isNewResult"

lemma foreign_no_tools:
  assumes "list_all (\<lambda>e. \<not> loopEvent e) es"
  shows "callsOf es = []" "resultsOf es = []"
  using assms by (induction es) (auto split: event_data.splits)

definition answersCall :: "int \<Rightarrow> int \<Rightarrow> event \<Rightarrow> event \<times> content_block \<Rightarrow> bool" where
  "answersCall turn step e = (\<lambda>(c, b).
     (\<exists>r mid. ev_data e = resultData turn step b r mid) \<and> surfaceOp e = Some (JStr ''append'')
     \<and> sourceEventSeqs e = Some (JArr [JNum (of_nat (seq c))]) \<and> seq c < seq e)"

text \<open>
  The stretch of log records the calls \<open>bs\<close> in order, and in order the results of the first
  \<open>k\<close> of them.
\<close>

definition toolLog :: "int \<Rightarrow> int \<Rightarrow> event list \<Rightarrow> content_block list \<Rightarrow> nat \<Rightarrow> bool" where
  "toolLog turn step es bs k \<longleftrightarrow>
     k \<le> length bs
     \<and> list_all2 (\<lambda>c b. ev_data c = callData turn step b) (callsOf es) bs
     \<and> list_all2 (answersCall turn step) (resultsOf es) (take k (zip (callsOf es) bs))"

lemma toolLog_lengths:
  assumes "toolLog turn step es bs k"
  shows "length (callsOf es) = length bs" "length (resultsOf es) = k" "k \<le> length bs"
  using assms by (auto simp: toolLog_def dest!: list_all2_lengthD)

lemma toolLog_Nil: "toolLog turn step [] [] 0"
  by (simp add: toolLog_def)

lemma toolLog_foreign:
  "toolLog turn step es bs k \<Longrightarrow> list_all (\<lambda>e. \<not> loopEvent e) fs \<Longrightarrow> toolLog turn step (es @ fs) bs k"
  by (simp add: toolLog_def foreign_no_tools)

lemma toolLog_append:
  assumes "toolLog turn step es bs (length bs)" and "toolLog turn step fs cs k"
  shows "toolLog turn step (es @ fs) (bs @ cs) (length bs + k)"
  using assms toolLog_lengths [OF assms(1)]
  by (auto simp: toolLog_def intro: list_all2_appendI)

lemma toolLog_call:
  assumes "toolLog turn step es bs k" and c: "ev_data c = callData turn step b"
  shows "toolLog turn step (es @ [c]) (bs @ [b]) k"
proof -
  have "isCallEvent c" "\<not> isNewResult c" using c by (simp_all add: callData_def)
  then show ?thesis
    using assms toolLog_lengths [OF assms(1)] by (auto simp: toolLog_def intro: list_all2_appendI)
qed

lemma toolLog_result:
  assumes l: "toolLog turn step es bs k" and k: "k < length bs"
    and a: "answersCall turn step e (callsOf es ! k, bs ! k)"
  shows "toolLog turn step (es @ [e]) bs (Suc k)"
proof -
  have "isNewResult e" "\<not> isCallEvent e" using a by (auto simp: answersCall_def resultData_def)
  moreover have "take (Suc k) (zip (callsOf es) bs) = take k (zip (callsOf es) bs) @ [(callsOf es ! k, bs ! k)]"
    using k toolLog_lengths(1) [OF l] by (simp add: take_Suc_conv_app_nth)
  ultimately show ?thesis
    using l k a by (auto simp: toolLog_def intro: list_all2_appendI)
qed

section \<open>The invariant of a group\<close>

abbreviation poolLog :: "pool \<Rightarrow> event list" where
  "poolLog p \<equiv> logS (pl_state p)"

definition ready :: "pool \<Rightarrow> nat \<Rightarrow> bool" where
  "ready p k \<longleftrightarrow> (\<forall>i < k. pl_slots p ! i \<noteq> None \<or> i \<in> set (pl_inFlight p))"

text \<open>What holds wherever the machine is inside the \<^verbatim>\<open>try\<close> block.\<close>

definition poolCore :: "group_config \<Rightarrow> nat \<Rightarrow> pool \<Rightarrow> bool" where
  "poolCore cfg base p \<longleftrightarrow>
     length (pl_slots p) = length (gc_group cfg) \<and> length (pl_callSeqs p) = length (gc_group cfg)
     \<and> pl_committed p \<le> pl_started p \<and> pl_started p \<le> length (gc_group cfg)
     \<and> base \<le> length (poolLog p)
     \<and> toolLog (gc_turn cfg) (gc_step cfg) (drop base (poolLog p)) (take (pl_started p) (gc_group cfg))
         (pl_committed p)
     \<and> (\<forall>i < pl_started p. pl_callSeqs p ! i = Some (seq (callsOf (drop base (poolLog p)) ! i)))
     \<and> (\<forall>c \<in> set (callsOf (drop base (poolLog p))). seq c < length (poolLog p))
     \<and> distinct (pl_inFlight p) \<and> (\<forall>i \<in> set (pl_inFlight p). i < pl_started p)
     \<and> (\<forall>i < length (gc_group cfg). pl_slots p ! i \<noteq> None \<longrightarrow> i < pl_started p)
     \<and> length (pl_inFlight p) \<le> gc_maxParallel cfg
     \<and> (\<forall>i \<in> set (pl_settled p). i < pl_started p) \<and> pl_failure p \<noteq> Some UncommittedCalls
     \<and> (pl_failure p = None \<longrightarrow>
          (\<forall>i \<in> set (pl_inFlight p). i \<in> set (pl_settled p) \<longrightarrow> pl_slots p ! i \<noteq> None))"

definition stageOK :: "group_config \<Rightarrow> pool \<Rightarrow> bool" where
  "stageOK cfg p \<longleftrightarrow>
     (case pl_stage p of
        Preparing \<Rightarrow>
          pl_started p = Suc (pl_nextToStart p) \<and> ready p (pl_nextToStart p)
          \<and> pl_nextToStart p \<notin> set (pl_inFlight p) \<and> pl_nextToStart p \<notin> set (pl_settled p)
          \<and> length (pl_inFlight p) < gc_maxParallel cfg
      | Started \<Rightarrow> pl_started p = Suc (pl_nextToStart p) \<and> ready p (pl_started p)
      | Committing \<Rightarrow> pl_started p = pl_nextToStart p \<and> ready p (pl_started p)
      | Finalizing \<Rightarrow>
          pl_started p = pl_nextToStart p \<and> ready p (pl_started p)
          \<and> pl_committed p < length (gc_group cfg) \<and> pl_slots p ! pl_committed p \<noteq> None
      | _ \<Rightarrow>
          pl_started p = pl_nextToStart p \<and> ready p (pl_started p)
          \<and> (pl_committed p < pl_started p \<longrightarrow> pl_committed p \<in> set (pl_inFlight p)))"

definition groupDone :: "group_config \<Rightarrow> nat \<Rightarrow> pool \<Rightarrow> group_outcome \<Rightarrow> bool" where
  "groupDone cfg base p out \<longleftrightarrow>
     base \<le> length (poolLog p) \<and> go_consumed out \<le> length (gc_group cfg)
     \<and> toolLog (gc_turn cfg) (gc_step cfg) (drop base (poolLog p))
         (take (go_consumed out) (gc_group cfg)) (go_consumed out)
     \<and> (go_aborted out \<longrightarrow> go_consumed out = length (gc_group cfg))"

definition partialLog :: "group_config \<Rightarrow> nat \<Rightarrow> pool \<Rightarrow> bool" where
  "partialLog cfg base p \<longleftrightarrow>
     base \<le> length (poolLog p)
     \<and> (\<exists>m k. toolLog (gc_turn cfg) (gc_step cfg) (drop base (poolLog p)) (take m (gc_group cfg)) k)"

definition poolInv :: "group_config \<Rightarrow> nat \<Rightarrow> pool \<Rightarrow> bool" where
  "poolInv cfg base p \<longleftrightarrow>
     (case pl_stage p of
        GroupReturned out \<Rightarrow> groupDone cfg base p out
      | GroupThrown err \<Rightarrow> err \<noteq> UncommittedCalls \<and> partialLog cfg base p
      | Draining \<Rightarrow>
          pl_failure p \<noteq> None \<and> pl_failure p \<noteq> Some UncommittedCalls \<and> partialLog cfg base p
      | _ \<Rightarrow> poolCore cfg base p \<and> stageOK cfg p)"

lemma stage_frame [simp]:
  "poolCore cfg base (p\<lparr>pl_stage := s\<rparr>) = poolCore cfg base p"
  "partialLog cfg base (p\<lparr>pl_stage := s\<rparr>) = partialLog cfg base p"
  "partialLog cfg base (p\<lparr>pl_failure := f\<rparr>) = partialLog cfg base p"
  "poolCore cfg base (p\<lparr>pl_nextToStart := n\<rparr>) = poolCore cfg base p"
  "poolCore cfg base (p\<lparr>pl_aborted := b\<rparr>) = poolCore cfg base p"
  by (simp_all add: poolCore_def partialLog_def)

lemma ready_frame [simp]:
  "ready (p\<lparr>pl_stage := s\<rparr>) k = ready p k"
  "ready (p\<lparr>pl_state := st\<rparr>) k = ready p k"
  "ready (p\<lparr>pl_nextToStart := n\<rparr>) k = ready p k"
  "ready (p\<lparr>pl_aborted := b\<rparr>) k = ready p k"
  by (simp_all add: ready_def)

lemma signal_frame [simp]:
  "poolCore cfg base (p\<lparr>pl_signal := b\<rparr>) = poolCore cfg base p"
  "stageOK cfg (p\<lparr>pl_signal := b\<rparr>) = stageOK cfg p"
  "partialLog cfg base (p\<lparr>pl_signal := b\<rparr>) = partialLog cfg base p"
  "groupDone cfg base (p\<lparr>pl_signal := b\<rparr>) out = groupDone cfg base p out"
  by (simp add: poolCore_def, cases "pl_stage p", simp_all add: stageOK_def ready_def partialLog_def groupDone_def)

lemma failPool_frame [simp]:
  "pl_stage (failPool err p) = Draining" "pl_inFlight (failPool err p) = pl_inFlight p"
  "pl_started (failPool err p) = pl_started p" "pl_committed (failPool err p) = pl_committed p"
  by (simp_all add: failPool_def)

lemma core_partial: "poolCore cfg base p \<Longrightarrow> partialLog cfg base p"
  by (auto simp: poolCore_def partialLog_def)

lemma core_failure: "poolCore cfg base p \<Longrightarrow> pl_failure p \<noteq> Some UncommittedCalls"
  by (simp add: poolCore_def)

lemma poolInv_new: "poolInv cfg (length (logS st)) (newPool (gc_group cfg) st aborted)"
  by (auto simp: poolInv_def poolCore_def stageOK_def newPool_def ready_def toolLog_Nil)

lemma fail_inv:
  "partialLog cfg base p \<Longrightarrow> pl_failure p \<noteq> Some UncommittedCalls \<Longrightarrow> err \<noteq> UncommittedCalls
    \<Longrightarrow> poolInv cfg base (failPool err p)"
  by (cases "pl_failure p") (simp_all add: poolInv_def failPool_def)

lemma unless_inv:
  assumes "poolCore cfg base p" and "pl_failure p = None \<Longrightarrow> poolInv cfg base q"
  shows "poolInv cfg base (unlessFailed p q)"
  using assms core_partial [OF assms(1)] core_failure [OF assms(1)]
  by (cases "pl_failure p") (simp_all add: poolInv_def unlessFailed_def)

text \<open>The log may grow by events of other code at any time.\<close>

lemma toolLog_grow:
  assumes "foreignGrowth st st'" and "base \<le> length (logS st)"
  shows "base \<le> length (logS st')"
    and "toolLog turn step (drop base (logS st)) bs k \<Longrightarrow> toolLog turn step (drop base (logS st')) bs k"
    and "callsOf (drop base (logS st')) = callsOf (drop base (logS st))"
    and "length (logS st) \<le> length (logS st')"
proof -
  obtain es where es: "logS st' = logS st @ es" "list_all (\<lambda>e. \<not> loopEvent e) es"
    using assms(1) by (auto simp: foreignGrowth_def)
  with assms(2) show "base \<le> length (logS st')" "length (logS st) \<le> length (logS st')"
      "callsOf (drop base (logS st')) = callsOf (drop base (logS st))"
    by (simp_all add: foreign_no_tools)
  show "toolLog turn step (drop base (logS st)) bs k \<Longrightarrow> toolLog turn step (drop base (logS st')) bs k"
    using es assms(2) toolLog_foreign [OF _ es(2)] by simp
qed

lemma core_grow:
  assumes c: "poolCore cfg base p" and g: "foreignGrowth (pl_state p) st"
  shows "poolCore cfg base (p\<lparr>pl_state := st\<rparr>)"
proof -
  have "base \<le> length (poolLog p)" using c by (simp add: poolCore_def)
  note grow = toolLog_grow [OF g this]
  show ?thesis using c grow(1,2,4) by (auto simp: poolCore_def grow(3))
qed

lemma partial_grow:
  assumes "partialLog cfg base p" and "foreignGrowth (pl_state p) st"
  shows "partialLog cfg base (p\<lparr>pl_state := st\<rparr>)"
  using assms toolLog_grow [OF assms(2)] by (fastforce simp: partialLog_def)

section \<open>Every input keeps it\<close>

lemma startNext_inv:
  assumes c: "poolCore cfg base p" and s: "stageOK cfg p" "pl_stage p = Filling"
    and n: "pl_nextToStart p < length (gc_group cfg)" and m: "length (pl_inFlight p) < gc_maxParallel cfg"
  shows "poolInv cfg base (startNext cfg ae p)"
proof -
  let ?i = "pl_nextToStart p"
  obtain st r where a: "appendToolCall (gc_turn cfg) (gc_step cfg) (gc_group cfg ! ?i) ae (pl_state p) = (st, r)"
    by fastforce
  show ?thesis
  proof (cases r)
    case (Inl err)
    then have "foreignGrowth (pl_state p) st"
      using a by (auto simp: appendToolCall_def intro: foreignGrowth_refl dest: driverAppend_Inl)
    then have "poolCore cfg base (p\<lparr>pl_state := st\<rparr>)" by (rule core_grow [OF c])
    then show ?thesis
      using a Inl core_failure [OF c] by (simp add: startNext_def Let_def fail_inv core_partial)
  next
    case (Inr ev)
    have ev: "logS st = poolLog p @ [ev]" "ev_data ev = callData (gc_turn cfg) (gc_step cfg) (gc_group cfg ! ?i)"
        "seq ev = length (poolLog p)"
      using a Inr by (auto simp: appendToolCall_def dest: driverAppend_Inr)
    have st: "pl_started p = ?i" "ready p ?i" using s by (auto simp: stageOK_def)
    have is_call: "isCallEvent ev" using ev(2) by (simp add: callData_def)
    have base: "base \<le> length (poolLog p)" and log: "toolLog (gc_turn cfg) (gc_step cfg)
        (drop base (poolLog p)) (take ?i (gc_group cfg)) (pl_committed p)"
      using c st(1) by (simp_all add: poolCore_def)
    let ?q = "p\<lparr>pl_state := st, pl_callSeqs := (pl_callSeqs p)[?i := Some (seq ev)],
               pl_started := pl_started p + 1, pl_stage := Preparing\<rparr>"
    have calls: "callsOf (drop base (logS st)) = callsOf (drop base (poolLog p)) @ [ev]"
      using base is_call by (simp add: ev(1))
    have len: "length (callsOf (drop base (poolLog p))) = ?i"
      using toolLog_lengths(1) [OF log] n by simp
    have "toolLog (gc_turn cfg) (gc_step cfg) (drop base (logS st)) (take (Suc ?i) (gc_group cfg)) (pl_committed p)"
      using toolLog_call [OF log ev(2)] base n by (simp add: ev(1) take_Suc_conv_app_nth)
    moreover have "\<forall>i < Suc ?i. (pl_callSeqs p)[?i := Some (seq ev)] ! i
        = Some (seq (callsOf (drop base (logS st)) ! i))"
      using c st(1) n len by (auto simp: poolCore_def calls nth_append nth_list_update less_Suc_eq)
    moreover have "\<forall>c \<in> set (callsOf (drop base (logS st))). seq c < length (logS st)"
      using c by (auto simp: poolCore_def calls ev(1,3) intro: less_SucI)
    moreover have "\<forall>i \<in> set (pl_inFlight p). i < Suc ?i" "\<forall>i \<in> set (pl_settled p). i < Suc ?i"
        "\<forall>i < length (gc_group cfg). pl_slots p ! i \<noteq> None \<longrightarrow> i < Suc ?i"
        "\<forall>i \<in> set (pl_inFlight p) \<union> set (pl_settled p). i < ?i" "pl_committed p \<le> ?i"
      using c st(1) by (auto simp: poolCore_def)
    ultimately have "poolCore cfg base ?q" "stageOK cfg ?q"
      using c base n st m unfolding poolCore_def stageOK_def ready_def by (simp_all add: ev(1)) blast+
    then show ?thesis
      using a Inr by (simp add: startNext_def Let_def poolInv_def)
  qed
qed

lemma fill_inv:
  assumes "poolCore cfg base p" and "stageOK cfg p" and "pl_stage p = Filling"
  shows "poolInv cfg base (fillRound cfg mode ae p)"
  using assms startNext_inv [OF assms] by (auto simp: fillRound_def poolInv_def stageOK_def)

lemma prepared_inv:
  assumes c: "poolCore cfg base p" and s: "stageOK cfg p" and g: "pl_stage p = Preparing"
    and f: "pl_failure p = None"
  shows "poolInv cfg base (afterPrepare prepared p)"
proof -
  let ?i = "pl_nextToStart p"
  have i: "pl_started p = Suc ?i" "ready p ?i" "?i \<notin> set (pl_inFlight p)" "?i \<notin> set (pl_settled p)"
      "length (pl_inFlight p) < gc_maxParallel cfg"
    using s g by (simp_all add: stageOK_def)
  have n: "?i < length (pl_slots p)" using c i(1) by (simp add: poolCore_def)
  have slot: "poolCore cfg base (p\<lparr>pl_slots := (pl_slots p)[?i := Some x], pl_stage := Started\<rparr>)
      \<and> ready (p\<lparr>pl_slots := (pl_slots p)[?i := Some x], pl_stage := Started\<rparr>) (Suc ?i)" for x
  proof -
    have "ready (p\<lparr>pl_slots := (pl_slots p)[?i := Some x], pl_stage := Started\<rparr>) (Suc ?i)"
      using i(2) n by (simp add: ready_def nth_list_update less_Suc_eq)
    then show ?thesis
      using c i(1) by (simp add: poolCore_def nth_list_update)
  qed
  show ?thesis
  proof (cases prepared)
    case PrepDispatch
    then show ?thesis
      using c i by (auto simp: afterPrepare_def Let_def poolInv_def stageOK_def poolCore_def ready_def less_Suc_eq)
  next
    case (PrepPost r)
    then show ?thesis using slot i(1) by (simp add: afterPrepare_def Let_def poolInv_def stageOK_def)
  next
    case (PrepFinal r)
    then show ?thesis using slot i(1) by (simp add: afterPrepare_def Let_def poolInv_def stageOK_def)
  qed
qed

lemma resume_inv:
  assumes c: "poolCore cfg base p" and s: "stageOK cfg p" and r: "resume p = Some q"
  shows "poolInv cfg base q"
proof (cases "pl_stage p")
  case Started
  let ?p = "p\<lparr>pl_nextToStart := pl_nextToStart p + 1\<rparr>"
  have "poolInv cfg base (unlessFailed ?p (?p\<lparr>pl_stage := Committing\<rparr>))"
    by (rule unless_inv) (use c s Started in \<open>auto simp: poolInv_def stageOK_def\<close>)
  then show ?thesis using r Started by (simp add: resume_def Let_def)
next
  case Committed
  have "poolInv cfg base (unlessFailed p (p\<lparr>pl_aborted := pl_aborted p \<or> pl_signal p, pl_stage := Filling\<rparr>))"
    by (rule unless_inv) (use c s Committed in \<open>auto simp: poolInv_def stageOK_def\<close>)
  then show ?thesis using r Committed by (simp add: resume_def)
next
  case Filled
  then show ?thesis
    using c s r by (auto simp: resume_def poolInv_def stageOK_def split: if_splits)
qed (use r in \<open>simp_all add: resume_def\<close>)

lemma race_inv:
  assumes c: "poolCore cfg base p" and s: "stageOK cfg p" "pl_stage p = Racing"
    and i: "i \<in> set (pl_inFlight p)" "i \<in> set (pl_settled p)"
  shows "poolInv cfg base (unlessFailed (p\<lparr>pl_inFlight := remove1 i (pl_inFlight p)\<rparr>)
           (p\<lparr>pl_inFlight := remove1 i (pl_inFlight p), pl_stage := Committing\<rparr>))"
proof (rule unless_inv)
  let ?p = "p\<lparr>pl_inFlight := remove1 i (pl_inFlight p)\<rparr>"
  have len: "length (remove1 i (pl_inFlight p)) \<le> length (pl_inFlight p)" by (simp add: length_remove1)
  show core: "poolCore cfg base ?p"
    using c len by (auto simp: poolCore_def set_remove1_eq)
  assume "pl_failure ?p = None"
  then have "pl_slots p ! i \<noteq> None" using c i by (simp add: poolCore_def)
  moreover have "pl_started p = pl_nextToStart p" "ready p (pl_started p)" using s by (auto simp: stageOK_def)
  ultimately have "stageOK cfg (?p\<lparr>pl_stage := Committing\<rparr>)"
    using c by (auto simp: stageOK_def ready_def poolCore_def set_remove1_eq)
  then show "poolInv cfg base (?p\<lparr>pl_stage := Committing\<rparr>)" using core by (simp add: poolInv_def)
qed

lemma accept_growth: "acceptContexts ms env st = (st', r) \<Longrightarrow> foreignGrowth st st'"
proof (induction ms arbitrary: st env)
  case (Cons m ms)
  from Cons.prems show ?case
    unfolding acceptContexts.simps spliceInbox_def
    by (cases rule: thenR_cases) (auto intro: foreignGrowth_trans mutate_growth Cons.IH)
qed (simp add: foreignGrowth_refl)

lemma commitSlot_inv:
  assumes c: "poolCore cfg base p" and s: "stageOK cfg p"
    and g: "pl_stage p = Committing \<or> pl_stage p = Finalizing"
    and i: "pl_committed p < length (gc_group cfg)" "pl_slots p ! pl_committed p \<noteq> None"
  shows "poolInv cfg base (commitSlot cfg env r p)"
proof -
  let ?i = "pl_committed p"
  let ?T = "gc_turn cfg" and ?P = "gc_step cfg"
  have lt: "?i < pl_started p" using c i by (simp add: poolCore_def)
  have st: "pl_started p = pl_nextToStart p" "ready p (pl_started p)"
    using s g by (auto simp: stageOK_def)
  define bs where "bs = take (pl_started p) (gc_group cfg)"
  define calls where "calls = callsOf (drop base (poolLog p))"
  have base: "base \<le> length (poolLog p)" and log: "toolLog ?T ?P (drop base (poolLog p)) bs ?i"
    and callSeq: "pl_callSeqs p ! ?i = Some (seq (calls ! ?i))"
    and old: "\<forall>c \<in> set calls. seq c < length (poolLog p)"
    using c lt by (simp_all add: poolCore_def bs_def calls_def)
  have len: "length calls = length bs" "?i < length bs"
    using toolLog_lengths(1) [OF log] lt c by (simp_all add: calls_def bs_def poolCore_def)
  have b: "gc_group cfg ! ?i = bs ! ?i" using lt by (simp add: bs_def)
  obtain st1 x where a: "appendToolResult ?T ?P (gc_group cfg ! ?i) r (seq (calls ! ?i))
      (ce_messageId env) (ce_append env) (pl_state p) = (st1, x)" by fastforce
  show ?thesis
  proof (cases x)
    case (Inl err)
    then have "foreignGrowth (pl_state p) st1"
      using a by (auto simp: appendToolResult_def intro: foreignGrowth_refl dest: driverAppend_Inl)
    then have "poolCore cfg base (p\<lparr>pl_state := st1\<rparr>)" by (rule core_grow [OF c])
    then show ?thesis
      using a Inl callSeq core_failure [OF c] by (simp add: commitSlot_def Let_def fail_inv core_partial)
  next
    case (Inr ev)
    have ev: "logS st1 = poolLog p @ [ev]" "ev_data ev = resultData ?T ?P (bs ! ?i) r (ce_messageId env)"
        "seq ev = length (poolLog p)" "(surfaceOp ev, sourceEventSeqs ev) = surfaced (Some [seq (calls ! ?i)])"
      using a Inr b by (auto simp: appendToolResult_def dest: driverAppend_Inr)
    have "answersCall ?T ?P ev (calls ! ?i, bs ! ?i)"
      using ev(2-4) old len by (auto simp: answersCall_def surfaced_def)
    then have log1: "toolLog ?T ?P (drop base (logS st1)) bs (Suc ?i)"
      using toolLog_result [OF log len(2)] base by (simp add: ev(1) calls_def)
    have calls1: "callsOf (drop base (logS st1)) = calls"
      using base ev(2) by (simp add: ev(1) calls_def resultData_def)
    obtain st2 y where acc: "acceptContexts (to_contexts r) (ce_contexts env) st1 = (st2, y)" by fastforce
    have base1: "base \<le> length (logS st1)" using base by (simp add: ev(1))
    note grow = toolLog_grow [OF accept_growth [OF acc] base1]
    have log2: "toolLog ?T ?P (drop base (logS st2)) bs (Suc ?i)" using grow(2) log1 .
    show ?thesis
    proof (cases y)
      case (Inl err)
      have "partialLog cfg base (p\<lparr>pl_state := st2\<rparr>)"
        using log2 grow(1) by (auto simp: partialLog_def bs_def)
      then show ?thesis
        using a Inr acc Inl callSeq core_failure [OF c] by (simp add: commitSlot_def Let_def fail_inv)
    next
      case (Inr u)
      let ?q = "p\<lparr>pl_state := st2, pl_concluded := pl_concluded p \<or> to_concludes r,
                    pl_committed := ?i + 1, pl_stage := Committing\<rparr>"
      have "\<forall>c \<in> set (callsOf (drop base (logS st2))). seq c < length (logS st2)"
        using old grow(3,4) calls1 by (auto simp: ev(1))
      then have "poolCore cfg base ?q"
        using c lt log2 grow(1,3) calls1 by (simp add: poolCore_def bs_def calls_def)
      moreover have "stageOK cfg ?q" using st by (simp add: stageOK_def ready_def)
      ultimately show ?thesis
        using a \<open>x = Inr ev\<close> acc Inr callSeq by (simp add: commitSlot_def Let_def poolInv_def)
    qed
  qed
qed

lemma poolCommit_inv:
  assumes c: "poolCore cfg base p" and s: "stageOK cfg p" and g: "pl_stage p = Committing"
  shows "poolInv cfg base (commitRound cfg finish env p)"
proof (cases "pl_committed p < length (gc_group cfg) \<and> pl_slots p ! pl_committed p \<noteq> None")
  case True
  then obtain r post where slot: "pl_slots p ! pl_committed p = Some (r, post)" by (cases "pl_slots p ! pl_committed p") auto
  show ?thesis
  proof (cases post)
    case True
    then show ?thesis
      using slot c s g \<open>_ \<and> _\<close> by (auto simp: commitRound_def poolInv_def stageOK_def)
  next
    case False
    then show ?thesis
      using slot c s g \<open>_ \<and> _\<close> core_failure [OF c]
      by (auto simp: commitRound_def fail_inv core_partial commitSlot_inv split: sum.splits)
  qed
next
  case False
  then have "commitRound cfg finish env p = p\<lparr>pl_stage := Committed\<rparr>"
    by (cases "pl_slots p ! pl_committed p") (auto simp: commitRound_def)
  moreover have "pl_committed p \<in> set (pl_inFlight p)" if "pl_committed p < pl_started p"
  proof -
    have "ready p (pl_started p)" using s g by (auto simp: stageOK_def)
    moreover have "pl_started p \<le> length (gc_group cfg)" using c by (simp add: poolCore_def)
    ultimately show ?thesis using that False by (auto simp: ready_def)
  qed
  then have "stageOK cfg (p\<lparr>pl_stage := Committed\<rparr>)"
    using s g by (auto simp: stageOK_def)
  ultimately show ?thesis using c by (simp add: poolInv_def)
qed

lemma skipCalls_log:
  assumes "skipCalls turn step bs env st = (st', r)"
  shows "\<exists>es. logS st' = logS st @ es
     \<and> (case r of Inr _ \<Rightarrow> toolLog turn step es bs (length bs) | Inl _ \<Rightarrow> \<exists>m k. toolLog turn step es (take m bs) k)"
  using assms
proof (induction bs arbitrary: st env)
  case Nil
  then show ?case by (auto simp: toolLog_Nil)
next
  case (Cons b bs)
  obtain ae1 ae2 mid where e: "env 0 = (ae1, ae2, mid)" by (cases "env 0")
  obtain st1 x where a1: "appendToolCall turn step b ae1 st = (st1, x)" by fastforce
  show ?case
  proof (cases x)
    case (Inl err)
    then have "logS st' = logS st" "isl r"
      using Cons.prems a1 e driverAppend_Inl [of ae1 _ _ st st1 err]
      by (auto simp: appendSkippedToolCall_def appendToolCall_def)
    then show ?thesis by (cases r) (auto intro!: exI [of _ "0::nat"] simp: toolLog_Nil)
  next
    case (Inr c)
    have c: "logS st1 = logS st @ [c]" "ev_data c = callData turn step b" "seq c = length (logS st)"
      using a1 Inr by (auto simp: appendToolCall_def dest: driverAppend_Inr)
    have one: "toolLog turn step [c] [b] 0" using toolLog_call [OF toolLog_Nil c(2)] by simp
    obtain st2 y where a2: "appendToolResult turn step b skippedOutcome (seq c) mid ae2 st1 = (st2, y)" by fastforce
    show ?thesis
    proof (cases y)
      case (Inl err)
      then have "logS st' = logS st @ [c]" "isl r"
        using Cons.prems a1 a2 Inr e c(1) driverAppend_Inl [of ae2 _ _ st1 st2 err]
        by (auto simp: appendSkippedToolCall_def appendToolResult_def)
      moreover have "\<exists>m k. toolLog turn step [c] (take m (b # bs)) k"
        using one by (intro exI [of _ 1] exI [of _ 0]) simp
      ultimately show ?thesis by (cases r) auto
    next
      case (Inr ev)
      have ev: "logS st2 = logS st1 @ [ev]" "ev_data ev = resultData turn step b skippedOutcome mid"
          "seq ev = length (logS st1)" "(surfaceOp ev, sourceEventSeqs ev) = surfaced (Some [seq c])"
        using a2 Inr by (auto simp: appendToolResult_def dest: driverAppend_Inr)
      have is_call: "isCallEvent c" using c(2) by (simp add: callData_def)
      have "answersCall turn step ev (c, b)"
        using ev c(1,3) by (auto simp: answersCall_def surfaced_def)
      then have two: "toolLog turn step [c, ev] [b] 1"
        using toolLog_result [OF one, of ev] is_call by simp
      have "skipCalls turn step bs (\<lambda>n. env (Suc n)) st2 = (st', r)"
        using Cons.prems a1 a2 \<open>x = Inr c\<close> Inr e by (simp add: appendSkippedToolCall_def)
      from Cons.IH [OF this] obtain es where es: "logS st' = logS st2 @ es"
        "case r of Inr _ \<Rightarrow> toolLog turn step es bs (length bs) | Inl _ \<Rightarrow> \<exists>m k. toolLog turn step es (take m bs) k"
        by blast
      have grow: "toolLog turn step ([c, ev] @ es) (b # cs) (Suc k)" if "toolLog turn step es cs k" for cs k
        using toolLog_append [OF _ that, of "[c, ev]" "[b]"] two by simp
      have "logS st' = logS st @ ([c, ev] @ es)" by (simp add: es(1) ev(1) c(1))
      moreover have "case r of Inr _ \<Rightarrow> toolLog turn step ([c, ev] @ es) (b # bs) (length (b # bs))
          | Inl _ \<Rightarrow> \<exists>m k. toolLog turn step ([c, ev] @ es) (take m (b # bs)) k"
      proof (cases r)
        case (Inl err)
        then obtain m k where "toolLog turn step es (take m bs) k" using es(2) by auto
        from grow [OF this] have "toolLog turn step ([c, ev] @ es) (take (Suc m) (b # bs)) (Suc k)" by simp
        then show ?thesis using Inl by (simp del: take_Suc_Cons) blast
      next
        case (Inr u)
        then show ?thesis using es(2) grow by simp
      qed
      ultimately show ?thesis by blast
    qed
  qed
qed

lemma finish_inv:
  assumes c: "poolCore cfg base p" and s: "stageOK cfg p" and g: "pl_stage p = Filled"
    and f: "pl_inFlight p = []"
  shows "poolInv cfg base (finishGroup cfg env p)"
proof -
  let ?T = "gc_turn cfg" and ?P = "gc_step cfg"
  have le: "pl_committed p \<le> pl_started p" "pl_started p \<le> length (gc_group cfg)"
    and base: "base \<le> length (poolLog p)" using c by (simp_all add: poolCore_def)
  moreover have eq: "pl_committed p = pl_started p" using s g f le(1) by (auto simp: stageOK_def)
  ultimately have log: "toolLog ?T ?P (drop base (poolLog p)) (take (pl_started p) (gc_group cfg)) (pl_started p)"
    using c by (simp add: poolCore_def)
  show ?thesis
  proof (cases "pl_aborted p")
    case False
    then show ?thesis
      using log base le eq by (simp add: finishGroup_def poolInv_def groupDone_def)
  next
    case True
    obtain st r where k: "skipCalls ?T ?P (drop (pl_started p) (gc_group cfg)) env (pl_state p) = (st, r)" by fastforce
    from skipCalls_log [OF k] obtain es where es: "logS st = poolLog p @ es"
      "case r of Inr _ \<Rightarrow> toolLog ?T ?P es (drop (pl_started p) (gc_group cfg)) (length (drop (pl_started p) (gc_group cfg)))
         | Inl _ \<Rightarrow> \<exists>m k. toolLog ?T ?P es (take m (drop (pl_started p) (gc_group cfg))) k" by blast
    have new: "drop base (logS st) = drop base (poolLog p) @ es" using base by (simp add: es(1))
    have len: "length (take (pl_started p) (gc_group cfg)) = pl_started p" using le by simp
    note glue = toolLog_append [where es = "drop base (poolLog p)" and bs = "take (pl_started p) (gc_group cfg)",
        unfolded len, OF log]
    show ?thesis
    proof (cases r)
      case (Inl err)
      then obtain m j where "toolLog ?T ?P es (take m (drop (pl_started p) (gc_group cfg))) j" using es(2) by auto
      from glue [OF this] have "partialLog cfg base (p\<lparr>pl_state := st\<rparr>)"
        using base by (auto simp: partialLog_def new es(1) take_add [symmetric])
      then show ?thesis
        using True k Inl by (auto simp: finishGroup_def poolInv_def partialLog_def)
    next
      case (Inr u)
      have "toolLog ?T ?P (drop base (logS st)) (gc_group cfg) (length (gc_group cfg))"
        using glue [of es "drop (pl_started p) (gc_group cfg)" "length (gc_group cfg) - pl_started p"] es(2) Inr le
        by (simp add: new)
      then show ?thesis
        using True k Inr base by (simp add: finishGroup_def poolInv_def groupDone_def es(1))
    qed
  qed
qed

lemma settle_inv:
  assumes c: "poolCore cfg base p" and s: "stageOK cfg p" and i: "i \<in> set (pl_inFlight p)"
  shows "poolCore cfg base (settle i r p) \<and> stageOK cfg (settle i r p)"
proof -
  have lt: "i < pl_started p" "i < length (pl_slots p)" using c i by (auto simp: poolCore_def)
  have ready: "ready (settle i r p) k" if "ready p k" for k
    using that lt by (auto simp: ready_def settle_def nth_list_update split: sum.splits option.splits)
  have frame: "pl_stage (settle i r p) = pl_stage p" "pl_started (settle i r p) = pl_started p"
      "pl_nextToStart (settle i r p) = pl_nextToStart p" "pl_inFlight (settle i r p) = pl_inFlight p"
      "pl_committed (settle i r p) = pl_committed p" "pl_settled (settle i r p) = i # pl_settled p"
    by (simp_all add: settle_def split: sum.splits)
  have slots: "pl_slots p ! k \<noteq> None \<Longrightarrow> pl_slots (settle i r p) ! k \<noteq> None" for k
    using lt by (cases "k = i") (auto simp: settle_def split: sum.splits)
  have "poolCore cfg base (settle i r p)"
    using c lt by (auto simp: poolCore_def settle_def nth_list_update split: sum.splits option.splits if_splits)
  moreover have "stageOK cfg (settle i r p)"
    using s i slots ready by (auto simp: stageOK_def frame split: pool_stage.splits)
  ultimately show ?thesis ..
qed

lemma drained_inv:
  assumes "poolInv cfg base p" and "pl_stage p = Draining" and "pl_failure p = Some err"
  shows "poolInv cfg base (p\<lparr>pl_stage := GroupThrown err\<rparr>)"
  using assms by (simp add: poolInv_def)

definition inTry :: "pool_stage \<Rightarrow> bool" where
  "inTry s \<longleftrightarrow> (case s of Draining \<Rightarrow> False | GroupReturned _ \<Rightarrow> False | GroupThrown _ \<Rightarrow> False | _ \<Rightarrow> True)"

lemma poolInv_inTry: "inTry (pl_stage p) \<Longrightarrow> poolInv cfg base p \<longleftrightarrow> poolCore cfg base p \<and> stageOK cfg p"
  by (auto simp: poolInv_def inTry_def split: pool_stage.splits)

lemma groupDone_grow:
  assumes "groupDone cfg base p out" and "foreignGrowth (pl_state p) st"
  shows "groupDone cfg base (p\<lparr>pl_state := st\<rparr>) out"
  using assms toolLog_grow [OF assms(2)] by (auto simp: groupDone_def)

lemma foreign_inv:
  assumes i: "poolInv cfg base p" and a: "admissible f"
  shows "poolInv cfg base (p\<lparr>pl_state := applyForeign (pl_state p) f\<rparr>)"
proof (cases "inTry (pl_stage p)")
  case True
  then show ?thesis
    using i core_grow [OF _ foreign_growth [OF a]] by (auto simp: poolInv_inTry stageOK_def split: pool_stage.splits)
next
  case False
  then show ?thesis
    using i partial_grow [OF _ foreign_growth [OF a]] groupDone_grow [OF _ foreign_growth [OF a]]
    by (auto simp: poolInv_def inTry_def split: pool_stage.splits)
qed

lemma poolInv_step:
  assumes i: "poolInv cfg base p" and s: "poolStep cfg p x = Some q"
  shows "poolInv cfg base q"
proof (cases x)
  case (Fill mode ae)
  then show ?thesis using i s by (auto simp: poolInv_inTry inTry_def intro: fill_inv split: if_splits)
next
  case (Prepared r)
  then have g: "pl_stage p = Preparing" and c: "poolCore cfg base p" "stageOK cfg p"
    and q: "q = (case r of Inl err \<Rightarrow> failPool (PrepareFailed err) p
                | Inr prepared \<Rightarrow> unlessFailed p (afterPrepare prepared p))"
    using i s by (auto simp: poolInv_inTry inTry_def split: if_splits)
  show ?thesis
    unfolding q using c g core_failure [OF c(1)]
    by (auto intro: fail_inv core_partial unless_inv prepared_inv split: sum.split)
next
  case Resume
  then have "inTry (pl_stage p)" using s by (auto simp: resume_def inTry_def split: pool_stage.splits)
  then show ?thesis using i s Resume by (auto simp: poolInv_inTry intro: resume_inv)
next
  case (Commit finish env)
  then show ?thesis using i s by (auto simp: poolInv_inTry inTry_def intro: poolCommit_inv split: if_splits)
next
  case (Finalized r env)
  then have g: "pl_stage p = Finalizing" and c: "poolCore cfg base p" "stageOK cfg p"
    and q: "q = (case r of Inl err \<Rightarrow> failPool (FinalizeFailed err) p | Inr r' \<Rightarrow> commitSlot cfg env r' p)"
    using i s by (auto simp: poolInv_inTry inTry_def split: if_splits)
  have "pl_committed p < length (gc_group cfg)" "pl_slots p ! pl_committed p \<noteq> None"
    using c(2) g by (simp_all add: stageOK_def)
  then show ?thesis
    unfolding q using c g core_failure [OF c(1)]
    by (auto intro: fail_inv core_partial commitSlot_inv split: sum.split)
next
  case (Race k)
  then show ?thesis
    using i s race_inv [of cfg base p k] by (auto simp: poolInv_inTry inTry_def Let_def split: if_splits)
next
  case Drained
  then show ?thesis using i s by (auto intro: drained_inv split: if_splits)
next
  case (Finish env)
  then show ?thesis using i s by (auto simp: poolInv_inTry inTry_def intro: finish_inv split: if_splits)
next
  case (Settle k r)
  then have q: "q = settle k r p" "k \<in> set (pl_inFlight p)" using s by (auto split: if_splits)
  show ?thesis
  proof (cases "inTry (pl_stage p)")
    case True
    moreover have "pl_stage q = pl_stage p" by (simp add: q(1) settle_def split: sum.split)
    ultimately show ?thesis using i settle_inv [of cfg base p k r] q by (simp add: poolInv_inTry)
  next
    case False
    then show ?thesis
      using i by (auto simp: q(1) settle_def poolInv_def inTry_def partialLog_def groupDone_def
          split: pool_stage.splits sum.splits option.splits)
  qed
next
  case Abort
  then have "q = p\<lparr>pl_signal := True\<rparr>" using s by simp
  then show ?thesis using i by (cases "pl_stage p") (simp_all add: poolInv_def)
next
  case (Foreign f)
  then show ?thesis using i s by (auto intro: foreign_inv split: if_splits)
qed

lemma poolInv_run: "poolRun cfg p xs = Some q \<Longrightarrow> poolInv cfg base p \<Longrightarrow> poolInv cfg base q"
  by (induction xs arbitrary: p) (auto simp: Option.bind_eq_Some_conv intro: poolInv_step)

section \<open>The whole step\<close>

abbreviation execLog :: "exec \<Rightarrow> event list" where
  "execLog x \<equiv> logS (ex_state x)"

text \<open>
  Between groups the calls before \<open>ex_next\<close> are answered; inside one, they were when it began.
\<close>

definition execInv :: "nat \<Rightarrow> exec \<Rightarrow> bool" where
  "execInv base x \<longleftrightarrow>
     base \<le> length (execLog x) \<and> ex_next x \<le> length (ex_planned x)
     \<and> (case ex_stage x of
          Choosing \<Rightarrow>
            toolLog (ex_turn x) (ex_step x) (drop base (execLog x)) (take (ex_next x) (ex_planned x)) (ex_next x)
        | Running cfg p \<Rightarrow>
            toolLog (ex_turn x) (ex_step x) (drop base (execLog x)) (take (ex_next x) (ex_planned x)) (ex_next x)
            \<and> gc_turn cfg = ex_turn x \<and> gc_step cfg = ex_step x \<and> gc_maxParallel cfg = ex_maxParallel x
            \<and> (\<exists>m. gc_group cfg = take m (drop (ex_next x) (ex_planned x)))
            \<and> take (length (execLog x)) (poolLog p) = execLog x
            \<and> poolInv cfg (length (execLog x)) p
        | Done _ \<Rightarrow>
            toolLog (ex_turn x) (ex_step x) (drop base (execLog x)) (ex_planned x) (length (ex_planned x))
        | Thrown err \<Rightarrow>
            err \<noteq> UncommittedCalls
            \<and> (\<exists>m k. toolLog (ex_turn x) (ex_step x) (drop base (execLog x)) (take m (ex_planned x)) k))"

text \<open>The log of a group only grows.\<close>

lemma driverAppend_prefix: "driverAppend ae d meta st = (st', r) \<Longrightarrow> \<exists>es. logS st' = logS st @ es"
  by (cases r) (auto dest: driverAppend_Inr driverAppend_Inl)

lemma growth_prefix: "foreignGrowth st st' \<Longrightarrow> \<exists>es. logS st' = logS st @ es"
  by (auto simp: foreignGrowth_def)

lemma unlessFailed_state [simp]: "pl_state p = pl_state q \<Longrightarrow> pl_state (unlessFailed p q) = pl_state q"
  by (simp add: unlessFailed_def split: option.split)

lemma failPool_state [simp]: "pl_state (failPool err p) = pl_state p"
  by (simp add: failPool_def)

lemma startNext_prefix: "\<exists>es. poolLog (startNext cfg ae p) = poolLog p @ es"
proof -
  obtain st r where a: "appendToolCall (gc_turn cfg) (gc_step cfg) (gc_group cfg ! pl_nextToStart p) ae (pl_state p)
      = (st, r)" by fastforce
  with driverAppend_prefix show ?thesis
    by (cases r) (auto simp: startNext_def Let_def appendToolCall_def)
qed

lemma commitSlot_prefix: "\<exists>es. poolLog (commitSlot cfg env r p) = poolLog p @ es"
proof -
  let ?s = "case pl_callSeqs p ! pl_committed p of Some s \<Rightarrow> s | None \<Rightarrow> 0"
  obtain st x where a: "appendToolResult (gc_turn cfg) (gc_step cfg) (gc_group cfg ! pl_committed p) r ?s
      (ce_messageId env) (ce_append env) (pl_state p) = (st, x)" by fastforce
  obtain st' y where b: "acceptContexts (to_contexts r) (ce_contexts env) st = (st', y)" by fastforce
  obtain es fs where "logS st = poolLog p @ es" "logS st' = logS st @ fs"
    using driverAppend_prefix a growth_prefix [OF accept_growth [OF b]] unfolding appendToolResult_def by blast
  with a b show ?thesis by (cases x; cases y) (auto simp: commitSlot_def Let_def)
qed

lemma poolStep_prefix:
  assumes "poolStep cfg p x = Some q"
  shows "\<exists>es. poolLog q = poolLog p @ es"
proof (cases x)
  case (Fill mode ae)
  then show ?thesis using assms startNext_prefix by (auto simp: fillRound_def split: if_splits)
next
  case (Prepared r)
  then show ?thesis
    using assms by (auto simp: afterPrepare_def Let_def unlessFailed_def
        split: if_splits sum.splits preparation.splits option.splits)
next
  case Resume
  then show ?thesis
    using assms by (auto simp: resume_def Let_def split: pool_stage.splits if_splits)
next
  case (Commit finish env)
  then show ?thesis
    using assms commitSlot_prefix
    by (auto simp: commitRound_def split: if_splits option.splits bool.splits sum.splits)
next
  case (Finalized r env)
  then show ?thesis using assms commitSlot_prefix by (auto split: if_splits sum.splits)
next
  case (Finish env)
  then have "q = finishGroup cfg env p" using assms by (auto split: if_splits)
  then show ?thesis
    using skipCalls_log [of "gc_turn cfg" "gc_step cfg" "drop (pl_started p) (gc_group cfg)" env "pl_state p"]
    by (fastforce simp: finishGroup_def split: prod.splits sum.splits)
next
  case (Foreign f)
  then show ?thesis using assms growth_prefix [OF foreign_growth [of f "pl_state p"]] by (auto split: if_splits)
qed (use assms in \<open>auto simp: Let_def settle_def split: if_splits sum.splits\<close>)

lemma execInv_new: "execInv (length (logS st)) (newExec turn step calls maxParallel st signal)"
  by (simp add: execInv_def newExec_def toolLog_Nil)

lemma classify_inv:
  assumes i: "execInv base x" and s: "execStep x (Classify mode) = Some y"
  shows "execInv base y"
proof -
  have c: "ex_stage x = Choosing" using s by (auto split: exec_stage.splits)
  show ?thesis
  proof (cases "ex_next x < length (ex_planned x)")
    case False
    then show ?thesis using i s c by (auto simp: execInv_def)
  next
    case True
    define grp where "grp = (if mode = ParallelMode then drop (ex_next x) (ex_planned x) else [ex_planned x ! ex_next x])"
    define cfg where "cfg = \<lparr>gc_turn = ex_turn x, gc_step = ex_step x, gc_group = grp, gc_mode = mode,
                           gc_maxParallel = ex_maxParallel x\<rparr>"
    have y: "y = x\<lparr>ex_stage := Running cfg (newPool grp (ex_state x) (ex_signal x))\<rparr>"
      using s c True by (simp add: grp_def cfg_def Let_def)
    have "\<exists>m. grp = take m (drop (ex_next x) (ex_planned x))"
      using True by (auto simp: grp_def Cons_nth_drop_Suc [symmetric] intro: exI [of _ "Suc 0"]
          exI [of _ "length (ex_planned x)"])
    moreover have "poolInv cfg (length (execLog x)) (newPool grp (ex_state x) (ex_signal x))"
      using poolInv_new [of cfg "ex_state x"] by (simp add: cfg_def)
    moreover have "pl_state (newPool grp (ex_state x) (ex_signal x)) = ex_state x" by (simp add: newPool_def)
    ultimately show ?thesis using i c by (simp add: execInv_def y cfg_def)
  qed
qed

lemma group_inv:
  assumes i: "execInv base x" and s: "execStep x (Group g) = Some y"
  shows "execInv base y"
proof -
  obtain cfg p q where r: "ex_stage x = Running cfg p" "poolStep cfg p g = Some q"
      and y: "y = x\<lparr>ex_stage := Running cfg q\<rparr>"
    using s by (auto split: exec_stage.splits)
  obtain es where "poolLog q = poolLog p @ es" using poolStep_prefix [OF r(2)] by blast
  moreover have "take (length (execLog x)) (poolLog p) = execLog x" using i r by (simp add: execInv_def)
  ultimately have "take (length (execLog x)) (poolLog q) = execLog x"
    using arg_cong [of "take (length (execLog x)) (poolLog p)" _ length] by (simp add: min_def split: if_splits)
  then show ?thesis using i r poolInv_step [OF _ r(2)] by (simp add: execInv_def y)
qed

lemma collect_inv:
  assumes i: "execInv base x" and s: "execStep x (Collect env) = Some y"
  shows "execInv base y"
proof -
  let ?T = "ex_turn x" and ?P = "ex_step x" and ?n = "length (execLog x)" and ?k = "ex_next x"
  obtain cfg p where r: "ex_stage x = Running cfg p" using s by (auto split: exec_stage.splits)
  obtain m where cfg: "gc_turn cfg = ?T" "gc_step cfg = ?P" "gc_group cfg = take m (drop ?k (ex_planned x))"
    and old: "toolLog ?T ?P (drop base (execLog x)) (take ?k (ex_planned x)) ?k"
    and pre: "take ?n (poolLog p) = execLog x" and inv: "poolInv cfg ?n p"
    and base: "base \<le> ?n" and k: "?k \<le> length (ex_planned x)"
    using i r by (auto simp: execInv_def)
  have split: "drop base (poolLog p) = drop base (execLog x) @ drop ?n (poolLog p)"
    using append_take_drop_id [of ?n "poolLog p"] base unfolding pre by (metis drop_append drop_0 diff_is_0_eq)
  have glue: "toolLog ?T ?P (drop base (poolLog p)) (take (?k + j) (ex_planned x)) (?k + l)"
    if "toolLog ?T ?P (drop ?n (poolLog p)) (take j (drop ?k (ex_planned x))) l" for j l
    using toolLog_append [where bs = "take ?k (ex_planned x)", OF _ that] old k
    by (simp add: split take_add min_absorb2)
  have len: "base \<le> length (poolLog p)"
    using base arg_cong [OF pre, of length] by simp
  show ?thesis
  proof (cases "pl_stage p")
    case (GroupThrown err)
    then obtain j l where e: "err \<noteq> UncommittedCalls"
      and log: "toolLog ?T ?P (drop ?n (poolLog p)) (take j (gc_group cfg)) l"
      using inv by (auto simp: poolInv_def partialLog_def cfg)
    have "toolLog ?T ?P (drop base (poolLog p)) (take (?k + min j m) (ex_planned x)) (?k + l)"
      using glue log by (simp add: cfg(3))
    moreover have "y = x\<lparr>ex_state := pl_state p, ex_signal := pl_signal p, ex_stage := Thrown err\<rparr>"
      using s r GroupThrown by simp
    ultimately show ?thesis using e len k by (auto simp: execInv_def)
  next
    case (GroupReturned out)
    then have y: "y = collectGroup x p out env" using s r by simp
    let ?c = "go_consumed out"
    have d: "?c \<le> length (gc_group cfg)" "toolLog ?T ?P (drop ?n (poolLog p)) (take ?c (gc_group cfg)) ?c"
      using inv GroupReturned by (simp_all only: poolInv_def groupDone_def cfg pool_stage.case)
    have le: "?c \<le> m" "?k + ?c \<le> length (ex_planned x)" using d(1) k by (auto simp: cfg(3))
    have log: "toolLog ?T ?P (drop base (poolLog p)) (take (?k + ?c) (ex_planned x)) (?k + ?c)"
      using glue [of ?c ?c] d(2) le by (simp add: cfg(3) min_absorb1)
    show ?thesis
    proof (cases "go_aborted out")
      case False
      then show ?thesis using log len le by (simp add: y collectGroup_def Let_def execInv_def)
    next
      case True
      let ?rest = "drop (?k + ?c) (ex_planned x)"
      obtain st z where sk: "skipCalls ?T ?P ?rest env (pl_state p) = (st, z)" by fastforce
      from skipCalls_log [OF this] obtain es where es: "logS st = poolLog p @ es"
        "case z of Inr _ \<Rightarrow> toolLog ?T ?P es ?rest (length ?rest) | Inl _ \<Rightarrow> \<exists>m k. toolLog ?T ?P es (take m ?rest) k"
        by blast
      have new: "drop base (logS st) = drop base (poolLog p) @ es" "base \<le> length (logS st)"
        using len by (simp_all add: es(1))
      note more = toolLog_append [where bs = "take (?k + ?c) (ex_planned x)" and es = "drop base (poolLog p)"]
      show ?thesis
      proof (cases z)
        case (Inl err)
        then obtain j l where "toolLog ?T ?P es (take j ?rest) l" using es(2) by auto
        from more [OF _ this] log le(2)
        have "toolLog ?T ?P (drop base (logS st)) (take (?k + ?c + j) (ex_planned x)) (?k + ?c + l)"
          by (simp add: new(1) take_add [of "?k + ?c" j] min_absorb2)
        then show ?thesis
          using True sk Inl le new(2) by (auto simp: y collectGroup_def Let_def execInv_def)
      next
        case (Inr u)
        have "toolLog ?T ?P (drop base (logS st)) (ex_planned x) (length (ex_planned x))"
          using more [of _ _ es ?rest "length ?rest"] log le(2) es(2) Inr by (simp add: new(1) min_absorb2)
        then show ?thesis
          using True sk Inr le new(2) by (simp add: y collectGroup_def Let_def execInv_def)
      qed
    qed
  qed (use s r in simp_all)
qed

lemma execInv_step: "execInv base x \<Longrightarrow> execStep x i = Some y \<Longrightarrow> execInv base y"
  by (cases i) (metis classify_inv, metis group_inv, metis collect_inv)

lemma execInv_run: "execRun x is = Some y \<Longrightarrow> execInv base x \<Longrightarrow> execInv base y"
  by (induction "is" arbitrary: x) (auto simp: Option.bind_eq_Some_conv intro: execInv_step)

lemma execStep_frame:
  assumes "execStep x i = Some y"
  shows "ex_turn y = ex_turn x" "ex_step y = ex_step x" "ex_planned y = ex_planned x"
    "ex_maxParallel y = ex_maxParallel x"
  using assms
  by (cases i; auto simp: collectGroup_def Let_def split: exec_stage.splits pool_stage.splits if_splits
      prod.splits sum.splits)+

lemma execRun_frame:
  "execRun x is = Some y \<Longrightarrow> ex_turn y = ex_turn x \<and> ex_step y = ex_step x
     \<and> ex_planned y = ex_planned x \<and> ex_maxParallel y = ex_maxParallel x"
  by (induction "is" arbitrary: x) (auto simp: Option.bind_eq_Some_conv dest: execStep_frame)

lemma newExec_frame [simp]:
  "ex_turn (newExec turn step calls maxParallel st signal) = turn"
  "ex_step (newExec turn step calls maxParallel st signal) = step"
  "ex_planned (newExec turn step calls maxParallel st signal) = calls"
  "ex_maxParallel (newExec turn step calls maxParallel st signal) = maxParallel"
  "ex_state (newExec turn step calls maxParallel st signal) = st"
  by (simp_all add: newExec_def)

text \<open>
  Claim C31: however the dispatches of a step settle, fail or are aborted, and whatever other code
  writes meanwhile, a scheduler that returns has recorded every tool call of the step, in model
  order, and one result for each, in the same order, each citing the event of its own call. One
  that throws has recorded a beginning of the calls and of the results, and it never throws for
  calls it left uncommitted.
\<close>

theorem every_call_answered_once:
  assumes "execRun (newExec turn step calls maxParallel st signal) is = Some x"
  shows "case ex_stage x of
      Done _ \<Rightarrow> toolLog turn step (drop (length (logS st)) (execLog x)) calls (length calls)
    | Thrown err \<Rightarrow>
        err \<noteq> UncommittedCalls
        \<and> (\<exists>m k. toolLog turn step (drop (length (logS st)) (execLog x)) (take m calls) k)
    | _ \<Rightarrow> True"
proof -
  have "execInv (length (logS st)) x" by (rule execInv_run [OF assms execInv_new])
  then show ?thesis
    using execRun_frame [OF assms] by (simp add: execInv_def split: exec_stage.splits)
qed

section \<open>An example\<close>

definition sample_env :: append_env where
  "sample_env = \<lparr>ae_now = 0, ae_veto = False, ae_lossless = True\<rparr>"

text \<open>A session inside its first step.\<close>

definition sample_step_state :: inbox_state where
  "sample_step_state =
     fst (driverAppend sample_env (StepStart 1 1) unmarked
       (fst (driverAppend sample_env (TurnStart 1) unmarked (emptyInbox, sample_start, []))))"

definition sample_outcome :: tool_outcome where
  "sample_outcome =
     \<lparr>to_content = [TextBlock ''ok''], to_isError = False, to_errorInfo = None, to_meta = None,
      to_contexts = [], to_concludes = False\<rparr>"

definition sample_commit :: pool_input where
  "sample_commit =
     Commit Inr \<lparr>ce_messageId = ''m'', ce_append = sample_env, ce_contexts = (\<lambda>_. sample_env)\<rparr>"

definition sample_calls :: "content_block list" where
  "sample_calls = [ToolCallBlock ''c1'' ''ls'' ''{}'', ToolCallBlock ''c2'' ''pwd'' ''{}'']"

text \<open>Two calls of one pool: the first is dispatched and settles after the second is prepared.\<close>

definition sample_exec_inputs :: "exec_input list" where
  "sample_exec_inputs =
     [Classify ParallelMode, Group (Fill ParallelMode sample_env), Group (Prepared (Inr PrepDispatch)),
      Group Resume, Group sample_commit, Group Resume, Group (Fill ParallelMode sample_env),
      Group (Prepared (Inr (PrepFinal sample_outcome))), Group Resume, Group sample_commit,
      Group Resume, Group (Fill ParallelMode sample_env), Group Resume,
      Group (Settle 0 (Inr (sample_outcome, False))), Group (Race 0), Group sample_commit,
      Group sample_commit, Group sample_commit, Group Resume, Group (Fill ParallelMode sample_env),
      Group (Finish (\<lambda>_. (sample_env, sample_env, ''m''))), Collect (\<lambda>_. (sample_env, sample_env, ''m'')),
      Classify ParallelMode]"

lemma sample_exec_run:
  "(case execRun (newExec 1 1 sample_calls 2 sample_step_state False) sample_exec_inputs of
      Some x \<Rightarrow> (case ex_stage x of Done c \<Rightarrow> \<not> c | _ \<Rightarrow> False)
    | None \<Rightarrow> False)"
  by code_simp

theorem every_call_answered_once_witness:
  "\<exists>x. execRun (newExec 1 1 sample_calls 2 sample_step_state False) sample_exec_inputs = Some x
     \<and> length (callsOf (drop (length (logS sample_step_state)) (execLog x))) = 2
     \<and> length (resultsOf (drop (length (logS sample_step_state)) (execLog x))) = 2"
proof -
  obtain x c where x: "execRun (newExec 1 1 sample_calls 2 sample_step_state False) sample_exec_inputs = Some x"
      "ex_stage x = Done c"
    using sample_exec_run by (auto split: option.splits exec_stage.splits)
  from every_call_answered_once [OF x(1)] have "toolLog 1 1 (drop (length (logS sample_step_state)) (execLog x))
      sample_calls (length sample_calls)"
    by (simp add: x(2))
  from toolLog_lengths [OF this] x(1) show ?thesis by (simp add: sample_calls_def)
qed

end
