(* ===== verification/Scheduler_Progress.thy ===== *)
theory Scheduler_Progress
  imports Scheduler_Facts
begin

text \<open>
  The pool of the scheduler stays within its bound, and a step of tool calls ends: the machine
  waits for nothing but the promises of the tool registry it has asked for, and every step of its
  own and every answer uses up a weight that nothing around it gives back.
\<close>

section \<open>Bounds and progress\<close>

text \<open>The second invariant of a group: the pool is bounded, and its stages make sense.\<close>

definition poolLive :: "group_config \<Rightarrow> pool \<Rightarrow> bool" where
  "poolLive cfg p \<longleftrightarrow>
     length (pl_inFlight p) \<le> gc_maxParallel cfg
     \<and> (case pl_stage p of
          Preparing \<Rightarrow> length (pl_inFlight p) < gc_maxParallel cfg
        | Racing \<Rightarrow> pl_inFlight p \<noteq> [] \<and> (pl_aborted p \<or> 0 < pl_started p)
        | Filled \<Rightarrow> pl_aborted p \<or> 0 < pl_started p
        | GroupReturned out \<Rightarrow> go_aborted out \<or> 0 < go_consumed out
        | _ \<Rightarrow> True)"

fun stageWeight :: "pool_stage \<Rightarrow> nat" where
  "stageWeight (GroupReturned _) = 0"
| "stageWeight (GroupThrown _) = 0"
| "stageWeight Draining = 1"
| "stageWeight Racing = 3"
| "stageWeight Filled = 4"
| "stageWeight Filling = 5"
| "stageWeight Committed = 6"
| "stageWeight Finalizing = 6"
| "stageWeight Committing = 7"
| "stageWeight Started = 8"
| "stageWeight Preparing = 20"

text \<open>How many steps of its own the group can still make, at most.\<close>

definition poolWeight :: "group_config \<Rightarrow> pool \<Rightarrow> nat" where
  "poolWeight cfg p =
     (case pl_stage p of
        GroupReturned _ \<Rightarrow> 0
      | GroupThrown _ \<Rightarrow> 0
      | s \<Rightarrow> 20 * (length (gc_group cfg) - pl_started p) + 2 * (length (gc_group cfg) - pl_committed p)
            + 6 * length (pl_inFlight p) + stageWeight s)"

lemma startNext_weight:
  assumes "pl_started p < length (gc_group cfg)" "pl_stage p = Filling"
    "length (pl_inFlight p) < gc_maxParallel cfg"
  shows "poolLive cfg (startNext cfg ae p) \<and> poolWeight cfg (startNext cfg ae p) < poolWeight cfg p"
  using assms by (auto simp: startNext_def Let_def poolLive_def poolWeight_def split: prod.split sum.split)

lemma commitSlot_weight:
  assumes "pl_committed p < length (gc_group cfg)" "pl_stage p = Committing \<or> pl_stage p = Finalizing"
    "length (pl_inFlight p) \<le> gc_maxParallel cfg"
  shows "poolLive cfg (commitSlot cfg env r p) \<and> poolWeight cfg (commitSlot cfg env r p) < poolWeight cfg p"
  using assms
  by (auto simp: commitSlot_def Let_def poolLive_def poolWeight_def split: prod.split sum.split option.split)

text \<open>Every step uses up weight; a dispatch that settles and other code leave it as it is.\<close>

fun spends :: "pool_input \<Rightarrow> bool" where
  "spends (Settle _ _) = False"
| "spends Abort = False"
| "spends (Foreign _) = False"
| "spends _ = True"

lemma poolStep_weight:
  assumes i: "poolInv cfg base p" and l: "poolLive cfg p" and s: "poolStep cfg p x = Some q"
    and pos: "0 < gc_maxParallel cfg" "gc_group cfg \<noteq> []"
  shows "poolLive cfg q \<and> (if spends x then poolWeight cfg q < poolWeight cfg p
     else poolWeight cfg q = poolWeight cfg p)"
proof (cases x)
  case (Fill mode ae)
  then have g: "pl_stage p = Filling" and c: "poolCore cfg base p" "stageOK cfg p"
    and q: "q = fillRound cfg mode ae p"
    using i s by (auto simp: poolInv_inTry inTry_def split: if_splits)
  have st: "pl_started p = pl_nextToStart p" using c(2) g by (simp add: stageOK_def)
  have "pl_inFlight p = []" if "pl_started p = 0" using c(1) that by (cases "pl_inFlight p") (auto simp: poolCore_def)
  then show ?thesis
    using startNext_weight [of p cfg ae] g l st pos Fill
    by (auto simp: q fillRound_def poolLive_def poolWeight_def)
next
  case (Prepared r)
  then have g: "pl_stage p = Preparing" and c: "poolCore cfg base p" "stageOK cfg p"
    and q: "q = (case r of Inl err \<Rightarrow> failPool (PrepareFailed err) p
                | Inr prepared \<Rightarrow> unlessFailed p (afterPrepare prepared p))"
    using i s by (auto simp: poolInv_inTry inTry_def split: if_splits)
  have "pl_started p \<le> length (gc_group cfg)" using c(1) by (simp add: poolCore_def)
  then show ?thesis
    using g l Prepared
    by (auto simp: q unlessFailed_def afterPrepare_def Let_def poolLive_def poolWeight_def
        split: sum.split option.split preparation.split)
next
  case Resume
  then show ?thesis
    using s l by (auto simp: resume_def Let_def unlessFailed_def poolLive_def poolWeight_def
        split: pool_stage.splits option.splits if_splits)
next
  case (Commit finish env)
  then show ?thesis
    using s l commitSlot_weight [of p cfg env]
    by (auto simp: commitRound_def poolLive_def poolWeight_def
        split: if_splits option.splits bool.splits sum.splits)
next
  case (Finalized r env)
  then have g: "pl_stage p = Finalizing" and c: "poolCore cfg base p" "stageOK cfg p"
    and q: "q = (case r of Inl err \<Rightarrow> failPool (FinalizeFailed err) p | Inr r' \<Rightarrow> commitSlot cfg env r' p)"
    using i s by (auto simp: poolInv_inTry inTry_def split: if_splits)
  have "pl_committed p < length (gc_group cfg)" using c(2) g by (simp add: stageOK_def)
  then show ?thesis
    using commitSlot_weight [of p cfg env] g l Finalized
    by (auto simp: q poolLive_def poolWeight_def split: sum.split)
next
  case (Race k)
  then have k: "k \<in> set (pl_inFlight p)" "pl_stage p = Racing" using s by (auto split: if_splits)
  then have "Suc (length (remove1 k (pl_inFlight p))) = length (pl_inFlight p)"
    using length_pos_if_in_set [of k "pl_inFlight p"] by (simp add: length_remove1)
  then show ?thesis
    using s l k Race by (auto simp: Let_def unlessFailed_def poolLive_def poolWeight_def
        split: if_splits option.splits)
next
  case Drained
  then show ?thesis using s l by (auto simp: poolLive_def poolWeight_def split: if_splits)
next
  case (Finish env)
  then have g: "pl_stage p = Filled" "pl_inFlight p = []" "q = finishGroup cfg env p"
    using s by (auto split: if_splits)
  then show ?thesis
    using l pos Finish by (auto simp: finishGroup_def poolLive_def poolWeight_def split: prod.split sum.split)
next
  case (Settle k r)
  then have "q = settle k r p" using s by (auto split: if_splits)
  moreover have "pl_stage (settle k r p) = pl_stage p" "pl_inFlight (settle k r p) = pl_inFlight p"
      "pl_started (settle k r p) = pl_started p" "pl_committed (settle k r p) = pl_committed p"
      "pl_aborted (settle k r p) = pl_aborted p"
    by (simp_all add: settle_def split: sum.split)
  ultimately show ?thesis using Settle l by (cases "pl_stage p") (simp_all add: poolLive_def poolWeight_def)
next
  case Abort
  then have q: "q = p\<lparr>pl_signal := True\<rparr>" using s by simp
  then show ?thesis using Abort l by (cases "pl_stage p") (simp_all add: poolLive_def poolWeight_def)
next
  case (Foreign f)
  then have q: "q = p\<lparr>pl_state := applyForeign (pl_state p) f\<rparr>" using s by (auto split: if_splits)
  then show ?thesis using Foreign l by (cases "pl_stage p") (simp_all add: poolLive_def poolWeight_def)
qed

text \<open>With the dispatches that are still to settle, the answers count too.\<close>

definition unsettled :: "pool \<Rightarrow> nat" where
  "unsettled p = card (set (pl_inFlight p) - set (pl_settled p))"

definition poolLoad :: "group_config \<Rightarrow> pool \<Rightarrow> nat" where
  "poolLoad cfg p = 2 * poolWeight cfg p + unsettled p"

lemma unsettled_same:
  "pl_inFlight q = pl_inFlight p \<Longrightarrow> pl_settled q = pl_settled p \<Longrightarrow> unsettled q = unsettled p"
  by (simp add: unsettled_def)

lemma commitSlot_flight [simp]:
  "pl_inFlight (commitSlot cfg env r p) = pl_inFlight p" "pl_settled (commitSlot cfg env r p) = pl_settled p"
  by (simp_all add: commitSlot_def failPool_def Let_def split: prod.split sum.split)

lemma startNext_flight [simp]:
  "pl_inFlight (startNext cfg ae p) = pl_inFlight p" "pl_settled (startNext cfg ae p) = pl_settled p"
  by (simp_all add: startNext_def failPool_def Let_def split: prod.split sum.split)

lemma fail_flight [simp]:
  "pl_inFlight (failPool err p) = pl_inFlight p" "pl_settled (failPool err p) = pl_settled p"
  "pl_inFlight (unlessFailed p (p\<lparr>pl_stage := s\<rparr>)) = pl_inFlight p"
  "pl_settled (unlessFailed p (p\<lparr>pl_stage := s\<rparr>)) = pl_settled p"
  by (simp_all add: failPool_def unlessFailed_def split: option.split)

lemma poolStep_unsettled:
  assumes s: "poolStep cfg p x = Some q"
  shows "case x of
      Prepared _ \<Rightarrow> unsettled q \<le> Suc (unsettled p)
    | Settle _ _ \<Rightarrow> Suc (unsettled q) = unsettled p
    | _ \<Rightarrow> unsettled q \<le> unsettled p \<and> (spends x \<or> unsettled q = unsettled p)"
proof (cases x)
  case (Fill mode ae)
  then have "unsettled q = unsettled p"
    using s by (intro unsettled_same) (auto simp: fillRound_def split: if_splits)
  then show ?thesis using Fill by simp
next
  case (Prepared r)
  have "card (insert i A - B) \<le> Suc (card (A - B))" if "finite A" for i :: nat and A B
    using that by (cases "i \<in> B") (simp_all add: insert_Diff_if card_insert_if)
  then have "unsettled q \<le> Suc (unsettled p)"
    using s Prepared by (auto simp: unsettled_def unlessFailed_def afterPrepare_def failPool_def Let_def
        split: if_splits sum.splits option.splits preparation.splits)
  then show ?thesis using Prepared by simp
next
  case Resume
  then have "unsettled q = unsettled p"
    using s by (intro unsettled_same) (auto simp: resume_def unlessFailed_def Let_def
        split: pool_stage.splits option.splits if_splits)
  then show ?thesis using Resume by simp
next
  case (Commit finish env)
  then have "unsettled q = unsettled p"
    using s by (intro unsettled_same) (auto simp: commitRound_def split: if_splits option.splits bool.splits sum.splits)
  then show ?thesis using Commit by simp
next
  case (Finalized r env)
  then have "unsettled q = unsettled p"
    using s by (intro unsettled_same) (auto split: if_splits sum.splits)
  then show ?thesis using Finalized by simp
next
  case (Race k)
  then have "pl_settled q = pl_settled p" "set (pl_inFlight q) \<subseteq> set (pl_inFlight p)"
    using s by (auto simp: unlessFailed_def Let_def split: if_splits option.splits
        dest!: set_remove1_subset [THEN subsetD])
  then show ?thesis using Race by (auto simp: unsettled_def intro!: card_mono)
next
  case Drained
  then have "unsettled q = unsettled p" using s by (intro unsettled_same) (auto split: if_splits)
  then show ?thesis using Drained by simp
next
  case (Finish env)
  then have "unsettled q = unsettled p"
    using s by (intro unsettled_same) (auto simp: finishGroup_def split: if_splits prod.splits sum.splits)
  then show ?thesis using Finish by simp
next
  case (Settle k r)
  then have q: "pl_inFlight q = pl_inFlight p" "pl_settled q = k # pl_settled p"
      and k: "k \<in> set (pl_inFlight p) - set (pl_settled p)"
    using s by (auto simp: settle_def split: if_splits sum.splits)
  have "set (pl_inFlight p) - set (k # pl_settled p) = set (pl_inFlight p) - set (pl_settled p) - {k}" by auto
  then show ?thesis using Settle q k card_Suc_Diff1 [OF _ k] by (simp add: unsettled_def)
next
  case Abort
  then have "unsettled q = unsettled p" using s by (intro unsettled_same) auto
  then show ?thesis using Abort by simp
next
  case (Foreign f)
  then have "unsettled q = unsettled p" using s by (intro unsettled_same) (auto split: if_splits)
  then show ?thesis using Foreign by simp
qed

lemma poolStep_load:
  assumes i: "poolInv cfg base p" and l: "poolLive cfg p" and s: "poolStep cfg p x = Some q"
    and pos: "0 < gc_maxParallel cfg" "gc_group cfg \<noteq> []"
  shows "if ownInput x \<or> answerInput x then poolLoad cfg q < poolLoad cfg p else poolLoad cfg q = poolLoad cfg p"
  using poolStep_weight [OF assms] poolStep_unsettled [OF s] by (cases x) (simp_all add: poolLoad_def)

text \<open>
  What the group waits for: nothing, unless it stands at one of its four awaits. At the race that
  is every dispatch in flight when none has settled, and after a failure those that have not.
\<close>

datatype call_await = AwaitPrepare | AwaitFinalize | AwaitDispatch nat

definition poolAwaits :: "pool \<Rightarrow> call_await set" where
  "poolAwaits p =
     (case pl_stage p of
        Preparing \<Rightarrow> {AwaitPrepare}
      | Finalizing \<Rightarrow> {AwaitFinalize}
      | Racing \<Rightarrow> if set (pl_inFlight p) \<inter> set (pl_settled p) = {}
                 then AwaitDispatch ` set (pl_inFlight p) else {}
      | Draining \<Rightarrow> AwaitDispatch ` (set (pl_inFlight p) - set (pl_settled p))
      | _ \<Rightarrow> {})"

text \<open>The answers that settle an await, whatever they bring.\<close>

fun settlesPool :: "call_await \<Rightarrow> pool_input \<Rightarrow> bool" where
  "settlesPool AwaitPrepare (Prepared _) = True"
| "settlesPool AwaitFinalize (Finalized _ _) = True"
| "settlesPool (AwaitDispatch k) (Settle k' _) = (k' = k)"
| "settlesPool _ _ = False"

lemma pool_settles:
  assumes "w \<in> poolAwaits p" "settlesPool w x"
  shows "poolStep cfg p x \<noteq> None"
  using assms by (cases "(w, x)" rule: settlesPool.cases)
    (auto simp: poolAwaits_def split: pool_stage.splits if_splits)

fun groupEnded :: "pool \<Rightarrow> bool" where
  "groupEnded p = (case pl_stage p of GroupReturned _ \<Rightarrow> True | GroupThrown _ \<Rightarrow> True | _ \<Rightarrow> False)"

lemma pool_enabled:
  assumes i: "poolInv cfg base p" and l: "poolLive cfg p" and "\<not> groupEnded p"
  shows "(\<exists>x. ownInput x \<and> poolStep cfg p x \<noteq> None) \<longleftrightarrow> poolAwaits p = {}"
proof
  assume "\<exists>x. ownInput x \<and> poolStep cfg p x \<noteq> None"
  then obtain x where x: "ownInput x" "poolStep cfg p x \<noteq> None" by blast
  then show "poolAwaits p = {}"
    by (cases x) (auto simp: poolAwaits_def resume_def split: pool_stage.splits if_splits)
next
  assume none: "poolAwaits p = {}"
  show "\<exists>x. ownInput x \<and> poolStep cfg p x \<noteq> None"
  proof (cases "pl_stage p")
    case Filling
    then show ?thesis by (intro exI [of _ "Fill ParallelMode undefined"]) simp
  next
    case Started
    then show ?thesis by (intro exI [of _ Resume]) (simp add: resume_def Let_def)
  next
    case Committing
    then show ?thesis by (intro exI [of _ "Commit Inr undefined"]) simp
  next
    case Committed
    then show ?thesis by (intro exI [of _ Resume]) (simp add: resume_def)
  next
    case Filled
    then show ?thesis
      by (cases "pl_inFlight p = []") (intro exI [of _ "Finish undefined"] exI [of _ Resume]; simp add: resume_def)+
  next
    case Racing
    then have "set (pl_inFlight p) \<inter> set (pl_settled p) \<noteq> {}"
      using none l by (auto simp: poolAwaits_def poolLive_def split: if_splits)
    then obtain k where "k \<in> set (pl_inFlight p)" "k \<in> set (pl_settled p)" by blast
    then show ?thesis using Racing by (intro exI [of _ "Race k"]) (simp add: Let_def)
  next
    case Draining
    then have "pl_failure p \<noteq> None" using i by (simp add: poolInv_def)
    moreover have "set (pl_inFlight p) \<subseteq> set (pl_settled p)" using none Draining by (auto simp: poolAwaits_def)
    ultimately show ?thesis using Draining by (intro exI [of _ Drained]) auto
  qed (use none assms(3) in \<open>simp_all add: poolAwaits_def\<close>)
qed

section \<open>The whole step\<close>

text \<open>The group that runs, and the weight of the execution.\<close>

definition execLive :: "exec \<Rightarrow> bool" where
  "execLive x \<longleftrightarrow>
     (case ex_stage x of
        Running cfg p \<Rightarrow> poolLive cfg p \<and> gc_group cfg \<noteq> [] \<and> gc_maxParallel cfg = ex_maxParallel x
          \<and> length (gc_group cfg) \<le> length (ex_planned x) - ex_next x
          \<and> (gc_mode cfg = ExclusiveMode \<longrightarrow> length (gc_group cfg) = 1)
          \<and> poolWeight cfg p \<le> 22 * length (ex_planned x) + 5
      | _ \<Rightarrow> True)"

definition execWeight :: "exec \<Rightarrow> nat" where
  "execWeight x =
     (let round = 22 * length (ex_planned x) + 10; left = length (ex_planned x) - ex_next x
      in case ex_stage x of
           Choosing \<Rightarrow> round * left + 1
         | Running cfg p \<Rightarrow> round * (left - 1) + poolWeight cfg p + 2
         | _ \<Rightarrow> 0)"

text \<open>Own steps and answers of the whole step: to classify and to collect are synchronous.\<close>

fun ownExecInput :: "exec_input \<Rightarrow> bool" where
  "ownExecInput (Group g) = ownInput g"
| "ownExecInput _ = True"

fun answerExecInput :: "exec_input \<Rightarrow> bool" where
  "answerExecInput (Group g) = answerInput g"
| "answerExecInput _ = False"

fun spendsExec :: "exec_input \<Rightarrow> bool" where
  "spendsExec (Group g) = spends g"
| "spendsExec _ = True"

definition execLoad :: "exec \<Rightarrow> nat" where
  "execLoad x = 2 * execWeight x + (case ex_stage x of Running cfg p \<Rightarrow> unsettled p | _ \<Rightarrow> 0)"

lemma newPool_weight:
  "poolLive cfg (newPool grp st b)"
  "gc_group cfg = grp \<Longrightarrow> poolWeight cfg (newPool grp st b) = 22 * length grp + 5"
  by (simp_all add: poolLive_def poolWeight_def newPool_def)

lemma execStep_weight:
  assumes i: "execInv base x" and l: "execLive x" and s: "execStep x e = Some y"
    and pos: "0 < ex_maxParallel x"
  shows "execLive y \<and> (if spendsExec e then execWeight y < execWeight x else execWeight y = execWeight x)"
proof (cases e)
  case (Classify mode)
  then have c: "ex_stage x = Choosing" using s by (auto split: exec_stage.splits)
  show ?thesis
  proof (cases "ex_next x < length (ex_planned x)")
    case False
    then show ?thesis using s c Classify by (auto simp: execLive_def execWeight_def Let_def)
  next
    case True
    define grp where "grp = (if mode = ParallelMode then drop (ex_next x) (ex_planned x) else [ex_planned x ! ex_next x])"
    define cfg where "cfg = \<lparr>gc_turn = ex_turn x, gc_step = ex_step x, gc_group = grp, gc_mode = mode,
                           gc_maxParallel = ex_maxParallel x\<rparr>"
    have y: "y = x\<lparr>ex_stage := Running cfg (newPool grp (ex_state x) (ex_signal x))\<rparr>"
      using s c True Classify by (simp add: grp_def cfg_def Let_def)
    have grp: "grp \<noteq> []" "length grp \<le> length (ex_planned x) - ex_next x" "length grp \<le> length (ex_planned x)"
        "mode = ExclusiveMode \<Longrightarrow> length grp = 1"
      using True by (auto simp: grp_def)
    have w: "poolWeight cfg (newPool grp (ex_state x) (ex_signal x)) = 22 * length grp + 5"
      by (rule newPool_weight) (simp add: cfg_def)
    obtain left where "length (ex_planned x) - ex_next x = Suc left"
      using True by (metis Suc_diff_Suc)
    then show ?thesis
      using newPool_weight(1) [of cfg grp] grp w c Classify
      by (simp add: y execLive_def execWeight_def Let_def cfg_def)
  qed
next
  case (Group g)
  obtain cfg p q where r: "ex_stage x = Running cfg p" "poolStep cfg p g = Some q"
      and y: "y = x\<lparr>ex_stage := Running cfg q\<rparr>"
    using s Group by (auto split: exec_stage.splits)
  have "poolInv cfg (length (execLog x)) p" using i r by (simp add: execInv_def)
  from poolStep_weight [OF this _ r(2)] l r(1) pos
  have "poolLive cfg q" "if spends g then poolWeight cfg q < poolWeight cfg p else poolWeight cfg q = poolWeight cfg p"
    by (simp_all add: execLive_def)
  then show ?thesis using l r(1) Group by (auto simp: y execLive_def execWeight_def Let_def split: if_splits)
next
  case (Collect env)
  obtain cfg p where r: "ex_stage x = Running cfg p" using s Collect by (auto split: exec_stage.splits)
  show ?thesis
  proof (cases "pl_stage p")
    case (GroupThrown err)
    then show ?thesis using s Collect r by (auto simp: execLive_def execWeight_def Let_def)
  next
    case (GroupReturned out)
    then have y: "y = collectGroup x p out env" using s r Collect by simp
    have "go_aborted out \<or> 0 < go_consumed out" "gc_group cfg \<noteq> []"
        "length (gc_group cfg) \<le> length (ex_planned x) - ex_next x"
      using l r GroupReturned by (simp_all add: execLive_def poolLive_def)
    moreover have "go_consumed out \<le> length (gc_group cfg)"
      using i r GroupReturned by (simp add: execInv_def poolInv_def groupDone_def)
    ultimately have le: "length (ex_planned x) - (ex_next x + go_consumed out)
        \<le> length (ex_planned x) - Suc (ex_next x)" if "\<not> go_aborted out"
      using that by simp
    have lt: "K * (length (ex_planned x) - (ex_next x + go_consumed out))
        < Suc (K * (length (ex_planned x) - Suc (ex_next x)) + w)" if "\<not> go_aborted out" for K w
      unfolding less_Suc_eq_le by (rule trans_le_add1 [OF mult_le_mono2 [OF le [OF that]]])
    show ?thesis
      using lt r Collect
      by (auto simp: y collectGroup_def execLive_def execWeight_def Let_def split: prod.split sum.split)
  qed (use s r Collect in simp_all)
qed

lemma execStep_load:
  assumes i: "execInv base x" and l: "execLive x" and s: "execStep x e = Some y"
    and pos: "0 < ex_maxParallel x"
  shows "if ownExecInput e \<or> answerExecInput e then execLoad y < execLoad x else execLoad y = execLoad x"
proof (cases e)
  case (Group g)
  obtain cfg p q where r: "ex_stage x = Running cfg p" "poolStep cfg p g = Some q"
      and y: "y = x\<lparr>ex_stage := Running cfg q\<rparr>"
    using s Group by (auto split: exec_stage.splits)
  have "poolInv cfg (length (execLog x)) p" using i r by (simp add: execInv_def)
  from poolStep_load [OF this _ r(2)] l r(1) pos
  have "if ownInput g \<or> answerInput g then poolLoad cfg q < poolLoad cfg p else poolLoad cfg q = poolLoad cfg p"
    by (simp_all add: execLive_def)
  then show ?thesis
    using r(1) Group by (auto simp: y execLoad_def poolLoad_def execWeight_def Let_def split: if_splits)
next
  case (Classify mode)
  have "(case ex_stage y of Running cfg p \<Rightarrow> unsettled p | _ \<Rightarrow> 0) = 0"
    using s Classify by (auto simp: Let_def unsettled_def newPool_def split: exec_stage.splits if_splits)
  then show ?thesis using execStep_weight [OF assms] Classify by (simp add: execLoad_def)
next
  case (Collect env)
  have "(case ex_stage y of Running cfg p \<Rightarrow> unsettled p | _ \<Rightarrow> 0) = 0"
    using s Collect by (auto simp: collectGroup_def Let_def split: exec_stage.splits pool_stage.splits prod.splits sum.splits if_splits)
  then show ?thesis using execStep_weight [OF assms] Collect by (simp add: execLoad_def)
qed

lemma execLive_new: "execLive (newExec turn step calls maxParallel st signal)"
  by (simp add: execLive_def newExec_def)

lemma execLive_run:
  "execRun x is = Some y \<Longrightarrow> execInv base x \<Longrightarrow> execLive x \<Longrightarrow> 0 < ex_maxParallel x \<Longrightarrow> execLive y"
proof (induction "is" arbitrary: x)
  case (Cons i "is")
  then obtain z where z: "execStep x i = Some z" "execRun z is = Some y" by (auto simp: Option.bind_eq_Some_conv)
  then show ?case
    using Cons.IH [OF z(2)] Cons.prems execInv_step execStep_weight execStep_frame(4) by metis
qed simp

definition execAwaits :: "exec \<Rightarrow> call_await set" where
  "execAwaits x = (case ex_stage x of Running cfg p \<Rightarrow> poolAwaits p | _ \<Rightarrow> {})"

fun settlesCall :: "call_await \<Rightarrow> exec_input \<Rightarrow> bool" where
  "settlesCall w (Group g) = settlesPool w g"
| "settlesCall _ _ = False"

definition ended :: "exec \<Rightarrow> bool" where
  "ended x = (case ex_stage x of Done _ \<Rightarrow> True | Thrown _ \<Rightarrow> True | _ \<Rightarrow> False)"

text \<open>
  A step of its own is open to the scheduler exactly when it has not ended and waits for nothing,
  and every answer it waits for is taken.
\<close>

lemma exec_enabled:
  assumes i: "execInv base x" and l: "execLive x"
  shows "(\<exists>e. ownExecInput e \<and> execStep x e \<noteq> None) \<longleftrightarrow> \<not> ended x \<and> execAwaits x = {}"
proof (cases "ex_stage x")
  case Choosing
  then show ?thesis
    by (auto simp: ended_def execAwaits_def Let_def intro!: exI [of _ "Classify ParallelMode"])
next
  case (Running cfg p)
  have inv: "poolInv cfg (length (execLog x)) p" "poolLive cfg p"
    using i l Running by (simp_all add: execInv_def execLive_def)
  show ?thesis
  proof (cases "groupEnded p")
    case True
    then have "execAwaits x = {}" "execStep x (Collect undefined) \<noteq> None"
      using Running by (auto simp: execAwaits_def poolAwaits_def split: pool_stage.splits)
    then show ?thesis using Running by (auto simp: ended_def intro!: exI [of _ "Collect undefined"])
  next
    case False
    have "ownExecInput e \<and> execStep x e \<noteq> None \<longleftrightarrow> (\<exists>g. e = Group g \<and> ownInput g \<and> poolStep cfg p g \<noteq> None)" for e
      using Running False by (cases e) (auto split: pool_stage.splits)
    then have "(\<exists>e. ownExecInput e \<and> execStep x e \<noteq> None) \<longleftrightarrow> (\<exists>g. ownInput g \<and> poolStep cfg p g \<noteq> None)" by blast
    then show ?thesis using pool_enabled [OF inv False] Running by (simp add: ended_def execAwaits_def)
  qed
next
  case (Done c)
  have "\<not> (ownExecInput e \<and> execStep x e \<noteq> None)" for e using Done by (cases e) simp_all
  then show ?thesis using Done by (simp add: ended_def)
next
  case (Thrown err)
  have "\<not> (ownExecInput e \<and> execStep x e \<noteq> None)" for e using Thrown by (cases e) simp_all
  then show ?thesis using Thrown by (simp add: ended_def)
qed

lemma exec_settles:
  assumes "w \<in> execAwaits x" "settlesCall w e"
  shows "execStep x e \<noteq> None"
  using assms pool_settles by (cases e) (auto simp: execAwaits_def split: exec_stage.splits)

lemma execRun_load:
  "execRun x is = Some y \<Longrightarrow> execInv base x \<Longrightarrow> execLive x \<Longrightarrow> 0 < ex_maxParallel x
    \<Longrightarrow> length (filter (\<lambda>i. ownExecInput i \<or> answerExecInput i) is) + execLoad y \<le> execLoad x"
proof (induction "is" arbitrary: x)
  case (Cons i "is")
  then obtain z where z: "execStep x i = Some z" "execRun z is = Some y" by (auto simp: bind_eq_Some_conv)
  have inv: "execInv base z" by (rule execInv_step [OF Cons.prems(2) z(1)])
  have live: "execLive z" "0 < ex_maxParallel z"
    using execStep_weight [OF Cons.prems(2,3) z(1) Cons.prems(4)] execStep_frame(4) [OF z(1)] Cons.prems(4) by simp_all
  show ?case
    using Cons.IH [OF z(2) inv live] execStep_load [OF Cons.prems(2,3) z(1) Cons.prems(4)] by (auto split: if_splits)
qed simp

lemma execLoad_new:
  "execLoad (newExec turn step calls maxParallel st signal) = 2 * ((22 * length calls + 10) * length calls + 1)"
  by (simp add: execLoad_def execWeight_def newExec_def Let_def)

lemma execAwaits_bound:
  assumes "execLive x" "0 < ex_maxParallel x"
  shows "card (execAwaits x) \<le> ex_maxParallel x"
proof (cases "ex_stage x")
  case (Running cfg p)
  have "length (pl_inFlight p) \<le> ex_maxParallel x"
    using assms Running by (simp add: execLive_def poolLive_def)
  moreover have "card (AwaitDispatch ` A) \<le> length (pl_inFlight p)" if "A \<subseteq> set (pl_inFlight p)" for A
    using card_image_le [of A AwaitDispatch] card_mono [OF _ that] card_length [of "pl_inFlight p"]
      finite_subset [OF that] by simp
  ultimately have "card (AwaitDispatch ` A) \<le> ex_maxParallel x" if "A \<subseteq> set (pl_inFlight p)" for A
    using that le_trans by blast
  then show ?thesis using Running assms(2) by (auto simp: execAwaits_def poolAwaits_def split: pool_stage.split)
qed (simp_all add: execAwaits_def)

text \<open>
  Claim C32: a step of tool calls ends. With a pool of at least one place, the scheduler takes
  steps of its own and answers in a number that the calls alone bound, whatever other code does
  meanwhile. It stands still exactly when it has ended or waits for promises of the tool registry
  that it has asked for: the preparation of one call, the finalization of one, or the dispatches in
  flight, of which there are never more than the bound, and one group when the call is exclusive.
  Whatever such a promise yields, the scheduler takes it.
\<close>

theorem tool_calls_end:
  assumes run: "execRun (newExec turn step calls maxParallel st signal) is = Some x"
    and pos: "0 < maxParallel"
  shows "length (filter (\<lambda>i. ownExecInput i \<or> answerExecInput i) is)
        \<le> 2 * ((22 * length calls + 10) * length calls + 1)
     \<and> ((\<exists>i. ownExecInput i \<and> execStep x i \<noteq> None) \<longleftrightarrow> \<not> ended x \<and> execAwaits x = {})
     \<and> (\<forall>w \<in> execAwaits x. \<forall>i. settlesCall w i \<longrightarrow> execStep x i \<noteq> None)
     \<and> card (execAwaits x) \<le> maxParallel
     \<and> (\<forall>cfg p. ex_stage x = Running cfg p \<and> gc_mode cfg = ExclusiveMode \<longrightarrow> length (gc_group cfg) = 1)"
proof (intro conjI ballI impI allI)
  have i: "execInv (length (logS st)) x" by (rule execInv_run [OF run execInv_new])
  have m: "ex_maxParallel x = maxParallel" using execRun_frame [OF run] by simp
  have l: "execLive x" by (rule execLive_run [OF run execInv_new execLive_new]) (simp add: pos)
  have p: "0 < ex_maxParallel (newExec turn step calls maxParallel st signal)" using pos by (simp add: newExec_def)
  show "length (filter (\<lambda>i. ownExecInput i \<or> answerExecInput i) is)
      \<le> 2 * ((22 * length calls + 10) * length calls + 1)"
    using execRun_load [OF run execInv_new execLive_new p] unfolding execLoad_new by simp
  show "(\<exists>i. ownExecInput i \<and> execStep x i \<noteq> None) \<longleftrightarrow> \<not> ended x \<and> execAwaits x = {}"
    by (rule exec_enabled [OF i l])
  show "execStep x e \<noteq> None" if "w \<in> execAwaits x" "settlesCall w e" for w e
    by (rule exec_settles [OF that])
  show "card (execAwaits x) \<le> maxParallel" using execAwaits_bound [OF l] m pos by simp
  show "length (gc_group cfg) = 1" if "ex_stage x = Running cfg p \<and> gc_mode cfg = ExclusiveMode" for cfg p
    using l that by (simp add: execLive_def)
qed

theorem tool_calls_end_witness:
  "\<exists>x. execRun (newExec 1 1 sample_calls 2 sample_step_state False) (take 13 sample_exec_inputs) = Some x
     \<and> execAwaits x = {AwaitDispatch 0} \<and> execStep x (Group (Settle 0 (Inl ''broken''))) \<noteq> None
     \<and> \<not> (\<exists>i. ownExecInput i \<and> execStep x i \<noteq> None)"
proof -
  have "(case execRun (newExec 1 1 sample_calls 2 sample_step_state False) (take 13 sample_exec_inputs) of
      Some x \<Rightarrow> (case ex_stage x of
          Running cfg p \<Rightarrow> pl_inFlight p = [0] \<and> pl_settled p = [] \<and> pl_stage p = Racing | _ \<Rightarrow> False)
    | None \<Rightarrow> False)"
    by code_simp
  then obtain x cfg p where
    x: "execRun (newExec 1 1 sample_calls 2 sample_step_state False) (take 13 sample_exec_inputs) = Some x"
      "ex_stage x = Running cfg p" "pl_inFlight p = [0]" "pl_settled p = []" "pl_stage p = Racing"
    by (auto split: option.splits exec_stage.splits)
  have w: "execAwaits x = {AwaitDispatch 0}" using x by (simp add: execAwaits_def poolAwaits_def)
  have "settlesCall (AwaitDispatch 0) (Group (Settle 0 (Inl ''broken'')))" by simp
  with tool_calls_end [OF x(1) zero_less_numeral] have "execStep x (Group (Settle 0 (Inl ''broken''))) \<noteq> None"
      "\<not> (\<exists>i. ownExecInput i \<and> execStep x i \<noteq> None)"
    unfolding w by blast+
  with x(1) w show ?thesis by blast
qed

end
