(* ===== verification/Scheduler_Companion.thy ===== *)
theory Scheduler_Companion
  imports Scheduler_Facts Trace_Facts
begin

text \<open>
  The scheduler and the relational invariants of the session together: what the scheduler writes
  inside an open step is always accepted by the companion that checks the log.
\<close>

section \<open>Where a log stands\<close>

definition atTrace :: "int option \<Rightarrow> int option \<Rightarrow> int \<Rightarrow> int \<Rightarrow> string set \<Rightarrow> event list \<Rightarrow> bool" where
  "atTrace turn step nt ns pend lg \<longleftrightarrow>
     (\<exists>t. seedTrace lg = Inr t \<and> lastSeq t < int (length lg) \<and> openTurn t = turn \<and> openStep t = step
        \<and> nextTurn t = nt \<and> nextStep t = ns \<and> pend \<subseteq> set (pendingCalls t))"

lemma atTrace_mono: "atTrace turn step nt ns P lg \<Longrightarrow> Q \<subseteq> P \<Longrightarrow> atTrace turn step nt ns Q lg"
  by (auto simp: atTrace_def)

lemma seedTrace_snoc:
  "seedTrace (lg @ [e]) = bindR (seedTrace lg) (\<lambda>t. traceStep t e)"
  by (simp add: seedTrace_def runR_snoc)

text \<open>One event that the companion accepts where the log stands.\<close>

lemma atTrace_step:
  assumes "atTrace turn step nt ns pend lg" and "seq e = length lg"
    and "\<And>t. lastSeq t < int (length lg) \<Longrightarrow> openTurn t = turn \<Longrightarrow> openStep t = step \<Longrightarrow> nextTurn t = nt
      \<Longrightarrow> nextStep t = ns \<Longrightarrow> pend \<subseteq> set (pendingCalls t)
      \<Longrightarrow> \<exists>t'. traceStep t e = Inr t' \<and> lastSeq t' = int (seq e) \<and> openTurn t' = turn' \<and> openStep t' = step'
        \<and> nextTurn t' = nt' \<and> nextStep t' = ns' \<and> pend' \<subseteq> set (pendingCalls t')"
  shows "atTrace turn' step' nt' ns' pend' (lg @ [e])"
proof -
  obtain t where t: "seedTrace lg = Inr t" "lastSeq t < int (length lg)" "openTurn t = turn" "openStep t = step"
      "nextTurn t = nt" "nextStep t = ns" "pend \<subseteq> set (pendingCalls t)"
    using assms(1) by (auto simp: atTrace_def)
  from assms(3) [OF t(2-7)] obtain t' where "traceStep t e = Inr t'" "lastSeq t' = int (seq e)"
      "openTurn t' = turn'" "openStep t' = step'" "nextTurn t' = nt'" "nextStep t' = ns'"
      "pend' \<subseteq> set (pendingCalls t')" by blast
  then show ?thesis
    using t(1) assms(2) by (simp add: atTrace_def seedTrace_snoc)
qed

lemmas trace_simps = traceStep_def validateEvent_def applyTransition_def keep_def requireOpenStep_def

lemma atTrace_foreign:
  assumes "atTrace (Some turn) step nt ns pend lg" and "\<not> loopEvent e" and "seq e = length lg"
  shows "atTrace (Some turn) step nt ns pend (lg @ [e])"
  by (rule atTrace_step [OF assms(1,3)])
    (use assms(2,3) in \<open>cases "ev_data e"; auto simp: trace_simps split: if_splits\<close>)

lemma atTrace_call:
  assumes "atTrace (Some turn) (Some step) nt ns pend lg" and "seq e = length lg"
    and "ev_data e = callData turn step b"
  shows "atTrace (Some turn) (Some step) nt ns (insert (call_id b) pend) (lg @ [e])"
  by (rule atTrace_step [OF assms(1,2)]) (use assms(2,3) in \<open>auto simp: trace_simps callData_def\<close>)

lemma atTrace_result:
  assumes "atTrace (Some turn) (Some step) nt ns pend lg" and "seq e = length lg"
    and "ev_data e = resultData turn step b r mid" and "call_id b \<in> pend"
    and "surfaceOp e = Some (JStr ''append'')"
  shows "atTrace (Some turn) (Some step) nt ns (pend - {call_id b}) (lg @ [e])"
  by (rule atTrace_step [OF assms(1,2)])
    (use assms(2-5) in \<open>auto simp: trace_simps resultData_def Let_def\<close>)

lemma atTrace_growth:
  assumes "atTrace (Some turn) step nt ns pend (logS st)" and "foreignGrowth st st'"
  shows "atTrace (Some turn) step nt ns pend (logS st')"
proof -
  obtain es where es: "logS st' = logS st @ es" "list_all (\<lambda>e. \<not> loopEvent e) es"
      "map seq es = [length (logS st) ..< length (logS st) + length es]"
    using assms(2) by (auto simp: foreignGrowth_def)
  have "atTrace (Some turn) step nt ns pend (lg @ es)"
    if "atTrace (Some turn) step nt ns pend lg" "list_all (\<lambda>e. \<not> loopEvent e) es"
      "map seq es = [length lg ..< length lg + length es]" for lg
    using that
  proof (induction es arbitrary: lg)
    case (Cons e es)
    have "seq e = length lg" "map seq es = [Suc (length lg) ..< Suc (length lg) + length es]"
      using Cons.prems(3) upt_conv_Cons [of "length lg" "length lg + length (e # es)"]
      by (simp_all del: upt_Suc)
    then show ?case
      using Cons.IH [of "lg @ [e]"] Cons.prems(1,2) atTrace_foreign [OF Cons.prems(1)] by simp
  qed simp
  then show ?thesis using es assms(1) by simp
qed

section \<open>The group\<close>

definition openIds :: "group_config \<Rightarrow> pool \<Rightarrow> string set" where
  "openIds cfg p = call_id ` set (drop (pl_committed p) (take (pl_started p) (gc_group cfg)))"

definition poolTrace :: "group_config \<Rightarrow> int \<Rightarrow> int \<Rightarrow> pool \<Rightarrow> bool" where
  "poolTrace cfg nt ns p \<longleftrightarrow>
     atTrace (Some (gc_turn cfg)) (Some (gc_step cfg)) nt ns
       (if inTry (pl_stage p) then openIds cfg p else {}) (poolLog p)"

lemma poolTraceI:
  "atTrace (Some (gc_turn cfg)) (Some (gc_step cfg)) nt ns (openIds cfg p) (poolLog p) \<Longrightarrow> poolTrace cfg nt ns p"
  by (auto simp: poolTrace_def intro: atTrace_mono)

lemma poolTrace_out: "atTrace (Some (gc_turn cfg)) (Some (gc_step cfg)) nt ns {} (poolLog p) \<Longrightarrow>
    \<not> inTry (pl_stage p) \<Longrightarrow> poolTrace cfg nt ns p"
  by (simp add: poolTrace_def)

lemma poolTrace_any: "poolTrace cfg nt ns p \<Longrightarrow>
    atTrace (Some (gc_turn cfg)) (Some (gc_step cfg)) nt ns {} (poolLog p)"
  by (auto simp: poolTrace_def intro: atTrace_mono)

lemma startNext_trace:
  assumes c: "poolCore cfg base p" and s: "stageOK cfg p" "pl_stage p = Filling"
    and n: "pl_nextToStart p < length (gc_group cfg)" and t: "poolTrace cfg nt ns p"
  shows "poolTrace cfg nt ns (startNext cfg ae p)"
proof -
  let ?i = "pl_nextToStart p"
  have at: "atTrace (Some (gc_turn cfg)) (Some (gc_step cfg)) nt ns (openIds cfg p) (poolLog p)"
    using t s(2) by (simp add: poolTrace_def inTry_def)
  obtain st r where a: "appendToolCall (gc_turn cfg) (gc_step cfg) (gc_group cfg ! ?i) ae (pl_state p) = (st, r)"
    by fastforce
  show ?thesis
  proof (cases r)
    case (Inl err)
    then have "logS st = poolLog p" using a by (auto simp: appendToolCall_def dest: driverAppend_Inl)
    then show ?thesis
      using a Inl atTrace_mono [OF at] by (intro poolTrace_out) (simp_all add: startNext_def Let_def inTry_def)
  next
    case (Inr ev)
    have ev: "logS st = poolLog p @ [ev]" "ev_data ev = callData (gc_turn cfg) (gc_step cfg) (gc_group cfg ! ?i)"
        "seq ev = length (poolLog p)"
      using a Inr by (auto simp: appendToolCall_def dest: driverAppend_Inr)
    have st: "pl_started p = ?i" "pl_committed p \<le> ?i" using s c by (auto simp: stageOK_def poolCore_def)
    let ?q = "startNext cfg ae p"
    have q: "pl_state ?q = st" "pl_started ?q = Suc ?i" "pl_committed ?q = pl_committed p"
      using a Inr st(1) by (simp_all add: startNext_def Let_def)
    have "openIds cfg ?q = insert (call_id (gc_group cfg ! ?i)) (openIds cfg p)"
      using n st by (simp add: openIds_def q take_Suc_conv_app_nth)
    then show ?thesis
      using atTrace_call [OF at ev(3,2)] by (intro poolTraceI) (simp add: q ev(1))
  qed
qed

lemma commitSlot_trace:
  assumes c: "poolCore cfg base p" and g: "pl_stage p = Committing \<or> pl_stage p = Finalizing"
    and i: "pl_committed p < length (gc_group cfg)" "pl_slots p ! pl_committed p \<noteq> None"
    and d: "distinct (map call_id (gc_group cfg))" and t: "poolTrace cfg nt ns p"
  shows "poolTrace cfg nt ns (commitSlot cfg env r p)"
proof -
  let ?i = "pl_committed p" and ?T = "gc_turn cfg" and ?P = "gc_step cfg"
  let ?s = "case pl_callSeqs p ! ?i of Some s \<Rightarrow> s | None \<Rightarrow> 0"
  have lt: "?i < pl_started p" "pl_started p \<le> length (gc_group cfg)" using c i by (simp_all add: poolCore_def)
  have at: "atTrace (Some ?T) (Some ?P) nt ns (openIds cfg p) (poolLog p)"
    using t g by (auto simp: poolTrace_def inTry_def)
  obtain st1 x where a: "appendToolResult ?T ?P (gc_group cfg ! ?i) r ?s
      (ce_messageId env) (ce_append env) (pl_state p) = (st1, x)" by fastforce
  show ?thesis
  proof (cases x)
    case (Inl err)
    then have "logS st1 = poolLog p" using a by (auto simp: appendToolResult_def dest: driverAppend_Inl)
    then show ?thesis
      using a Inl atTrace_mono [OF at] by (intro poolTrace_out) (simp_all add: commitSlot_def Let_def inTry_def)
  next
    case (Inr ev)
    have ev: "logS st1 = poolLog p @ [ev]" "ev_data ev = resultData ?T ?P (gc_group cfg ! ?i) r (ce_messageId env)"
        "seq ev = length (poolLog p)" "surfaceOp ev = Some (JStr ''append'')"
      using a Inr driverAppend_Inr [of "ce_append env" _ _ "pl_state p" st1 ev]
      by (auto simp: appendToolResult_def surfaced_def)
    define rest where "rest = call_id ` set (drop (Suc ?i) (take (pl_started p) (gc_group cfg)))"
    have split: "drop ?i (take (pl_started p) (gc_group cfg))
        = gc_group cfg ! ?i # drop (Suc ?i) (take (pl_started p) (gc_group cfg))"
      using lt by (simp add: Cons_nth_drop_Suc [symmetric])
    have "distinct (map call_id (drop ?i (take (pl_started p) (gc_group cfg))))"
      using d by (simp add: drop_map [symmetric] take_map [symmetric])
    then have rest: "openIds cfg p - {call_id (gc_group cfg ! ?i)} = rest" "call_id (gc_group cfg ! ?i) \<in> openIds cfg p"
      unfolding split openIds_def rest_def by auto
    have at1: "atTrace (Some ?T) (Some ?P) nt ns rest (logS st1)"
      using atTrace_result [OF at ev(3,2) rest(2) ev(4)] by (simp add: rest(1) ev(1))
    obtain st2 y where acc: "acceptContexts (to_contexts r) (ce_contexts env) st1 = (st2, y)" by fastforce
    have at2: "atTrace (Some ?T) (Some ?P) nt ns rest (logS st2)"
      by (rule atTrace_growth [OF at1 accept_growth [OF acc]])
    show ?thesis
    proof (cases y)
      case (Inl err)
      then show ?thesis
        using a Inr acc atTrace_mono [OF at2]
        by (intro poolTrace_out) (simp_all add: commitSlot_def Let_def inTry_def)
    next
      case (Inr u)
      then show ?thesis
        using a \<open>x = Inr ev\<close> acc at2
        by (intro poolTraceI) (simp add: commitSlot_def Let_def openIds_def rest_def)
    qed
  qed
qed

lemma skipCalls_trace:
  "skipCalls turn step bs env st = (st', r) \<Longrightarrow> atTrace (Some turn) (Some step) nt ns {} (logS st)
    \<Longrightarrow> atTrace (Some turn) (Some step) nt ns {} (logS st')"
proof (induction bs arbitrary: st env)
  case (Cons b bs)
  obtain ae1 ae2 mid where e: "env 0 = (ae1, ae2, mid)" by (cases "env 0")
  obtain st1 x where a1: "appendToolCall turn step b ae1 st = (st1, x)" by fastforce
  show ?case
  proof (cases x)
    case (Inl err)
    then have "logS st' = logS st"
      using Cons.prems(1) a1 e driverAppend_Inl [of ae1 _ _ st st1 err]
      by (auto simp: appendSkippedToolCall_def appendToolCall_def)
    then show ?thesis using Cons.prems(2) by simp
  next
    case (Inr c)
    have c: "logS st1 = logS st @ [c]" "ev_data c = callData turn step b" "seq c = length (logS st)"
      using a1 Inr by (auto simp: appendToolCall_def dest: driverAppend_Inr)
    have at1: "atTrace (Some turn) (Some step) nt ns {call_id b} (logS st1)"
      using atTrace_call [OF Cons.prems(2) c(3,2)] by (simp add: c(1))
    obtain st2 y where a2: "appendToolResult turn step b skippedOutcome (seq c) mid ae2 st1 = (st2, y)" by fastforce
    show ?thesis
    proof (cases y)
      case (Inl err)
      then have "logS st' = logS st1"
        using Cons.prems(1) a1 a2 Inr e driverAppend_Inl [of ae2 _ _ st1 st2 err]
        by (auto simp: appendSkippedToolCall_def appendToolResult_def)
      then show ?thesis using atTrace_mono [OF at1] by simp
    next
      case (Inr ev)
      have ev: "logS st2 = logS st1 @ [ev]" "ev_data ev = resultData turn step b skippedOutcome mid"
          "seq ev = length (logS st1)" "surfaceOp ev = Some (JStr ''append'')"
        using a2 Inr driverAppend_Inr [of ae2 _ _ st1 st2 ev] by (auto simp: appendToolResult_def surfaced_def)
      have "atTrace (Some turn) (Some step) nt ns {} (logS st2)"
        using atTrace_result [OF at1 ev(3,2) _ ev(4)] by (simp add: ev(1))
      moreover have "skipCalls turn step bs (\<lambda>n. env (Suc n)) st2 = (st', r)"
        using Cons.prems(1) a1 a2 \<open>x = Inr c\<close> Inr e by (simp add: appendSkippedToolCall_def)
      ultimately show ?thesis by (rule Cons.IH [rotated])
    qed
  qed
qed simp

lemma finish_trace:
  assumes "poolTrace cfg nt ns p"
  shows "poolTrace cfg nt ns (finishGroup cfg env p)"
proof -
  note at = poolTrace_any [OF assms]
  obtain st r where k: "skipCalls (gc_turn cfg) (gc_step cfg) (drop (pl_started p) (gc_group cfg)) env (pl_state p)
      = (st, r)" by fastforce
  show ?thesis
    using at skipCalls_trace [OF k at] k
    by (intro poolTrace_out) (auto simp: finishGroup_def inTry_def split: sum.split)
qed

lemma poolTrace_frame:
  assumes "poolTrace cfg nt ns p" and "poolLog q = poolLog p" and "openIds cfg q = openIds cfg p"
    and "inTry (pl_stage q) \<Longrightarrow> inTry (pl_stage p)"
  shows "poolTrace cfg nt ns q"
  using assms by (auto simp: poolTrace_def intro: atTrace_mono split: if_splits)

lemma openIds_frame [simp]:
  "openIds cfg (p\<lparr>pl_stage := s\<rparr>) = openIds cfg p"
  "openIds cfg (p\<lparr>pl_state := st\<rparr>) = openIds cfg p"
  "openIds cfg (p\<lparr>pl_signal := b\<rparr>) = openIds cfg p"
  "openIds cfg (p\<lparr>pl_aborted := b\<rparr>) = openIds cfg p"
  "openIds cfg (p\<lparr>pl_nextToStart := n\<rparr>) = openIds cfg p"
  "openIds cfg (p\<lparr>pl_inFlight := is\<rparr>) = openIds cfg p"
  "openIds cfg (p\<lparr>pl_slots := xs\<rparr>) = openIds cfg p"
  "openIds cfg (failPool err p) = openIds cfg p"
  "openIds cfg (settle i r p) = openIds cfg p"
  by (simp_all add: openIds_def settle_def split: sum.split)

lemma poolTrace_step:
  assumes i: "poolInv cfg base p" and d: "distinct (map call_id (gc_group cfg))"
    and t: "poolTrace cfg nt ns p" and s: "poolStep cfg p x = Some q"
  shows "poolTrace cfg nt ns q"
proof (cases x)
  case (Fill mode ae)
  then have g: "pl_stage p = Filling" and q: "q = fillRound cfg mode ae p" using s by (auto split: if_splits)
  then have "poolCore cfg base p" "stageOK cfg p" using i by (simp_all add: poolInv_inTry inTry_def)
  from startNext_trace [OF this g _ t] have "pl_nextToStart p < length (gc_group cfg) \<Longrightarrow> poolTrace cfg nt ns (startNext cfg ae p)" .
  then show ?thesis
    using poolTrace_frame [OF t, of "p\<lparr>pl_stage := Filled\<rparr>"] g
    by (auto simp: q fillRound_def inTry_def)
next
  case (Prepared r)
  then have g: "pl_stage p = Preparing" using s by (auto split: if_splits)
  show ?thesis
    by (rule poolTrace_frame [OF t])
      (use s g Prepared in \<open>auto simp: unlessFailed_def afterPrepare_def Let_def inTry_def
        split: sum.splits option.splits preparation.splits\<close>)
next
  case Resume
  have "poolLog q = poolLog p \<and> openIds cfg q = openIds cfg p \<and> inTry (pl_stage p)"
    using s Resume by (auto simp: resume_def unlessFailed_def Let_def inTry_def
        split: pool_stage.splits option.splits if_splits)
  then show ?thesis using poolTrace_frame [OF t] by blast
next
  case (Commit finish env)
  then have g: "pl_stage p = Committing" and q: "q = commitRound cfg finish env p" using s by (auto split: if_splits)
  then have c: "poolCore cfg base p" using i by (simp_all add: poolInv_inTry inTry_def)
  have frame: "poolTrace cfg nt ns (p\<lparr>pl_stage := s\<rparr>)" "poolTrace cfg nt ns (failPool err p)" for s err
    using poolTrace_frame [OF t] g by (simp_all add: inTry_def)
  show ?thesis
    using commitSlot_trace [OF c _ _ _ d t] g frame
    by (auto simp: q commitRound_def split: option.split bool.split sum.split)
next
  case (Finalized r env)
  then have g: "pl_stage p = Finalizing"
    and q: "q = (case r of Inl err \<Rightarrow> failPool (FinalizeFailed err) p | Inr r' \<Rightarrow> commitSlot cfg env r' p)"
    using s by (auto split: if_splits)
  then have c: "poolCore cfg base p" "pl_committed p < length (gc_group cfg)" "pl_slots p ! pl_committed p \<noteq> None"
    using i by (simp_all add: poolInv_inTry inTry_def stageOK_def)
  show ?thesis
    using commitSlot_trace [OF c(1) _ c(2,3) d t] g poolTrace_frame [OF t]
    by (auto simp: q inTry_def split: sum.split)
next
  case (Race k)
  have "poolLog q = poolLog p \<and> openIds cfg q = openIds cfg p \<and> inTry (pl_stage p)"
    using s Race by (auto simp: unlessFailed_def Let_def inTry_def split: option.splits if_splits)
  then show ?thesis using poolTrace_frame [OF t] by blast
next
  case Drained
  have "poolLog q = poolLog p \<and> \<not> inTry (pl_stage q)"
    using s Drained by (auto simp: inTry_def split: if_splits)
  then show ?thesis using poolTrace_any [OF t] poolTrace_out by simp
next
  case (Finish env)
  then show ?thesis using s finish_trace [OF t] by (auto split: if_splits)
next
  case (Settle k r)
  then have "q = settle k r p" using s by (auto split: if_splits)
  moreover have "poolLog (settle k r p) = poolLog p" "pl_stage (settle k r p) = pl_stage p"
    by (simp_all add: settle_def split: sum.split)
  ultimately show ?thesis using poolTrace_frame [OF t, of q] by simp
next
  case Abort
  then show ?thesis using s poolTrace_frame [OF t, of q] by auto
next
  case (Foreign f)
  then have q: "q = p\<lparr>pl_state := applyForeign (pl_state p) f\<rparr>" "admissible f" using s by (auto split: if_splits)
  show ?thesis
    using t atTrace_growth [OF _ foreign_growth [OF q(2)]]
    by (cases "inTry (pl_stage p)") (simp_all add: q(1) poolTrace_def)
qed

section \<open>The whole step\<close>

definition currentLog :: "exec \<Rightarrow> event list" where
  "currentLog x = (case ex_stage x of Running cfg p \<Rightarrow> poolLog p | _ \<Rightarrow> execLog x)"

definition execTrace :: "int \<Rightarrow> int \<Rightarrow> exec \<Rightarrow> bool" where
  "execTrace nt ns x \<longleftrightarrow>
     (case ex_stage x of
        Running cfg p \<Rightarrow> poolTrace cfg nt ns p
      | _ \<Rightarrow> atTrace (Some (ex_turn x)) (Some (ex_step x)) nt ns {} (execLog x))"

lemma execTrace_step:
  assumes i: "execInv base x" and d: "distinct (map call_id (ex_planned x))"
    and t: "execTrace nt ns x" and s: "execStep x e = Some y"
  shows "execTrace nt ns y"
proof (cases e)
  case (Classify mode)
  then have c: "ex_stage x = Choosing" using s by (auto split: exec_stage.splits)
  have "poolTrace cfg nt ns (newPool grp (ex_state x) b)"
    if "gc_turn cfg = ex_turn x" "gc_step cfg = ex_step x" for cfg grp b
    using t c that by (simp add: execTrace_def poolTrace_def openIds_def newPool_def)
  then show ?thesis using s c t Classify by (auto simp: execTrace_def Let_def split: if_splits)
next
  case (Group g)
  obtain cfg p q where r: "ex_stage x = Running cfg p" "poolStep cfg p g = Some q"
      and y: "y = x\<lparr>ex_stage := Running cfg q\<rparr>"
    using s Group by (auto split: exec_stage.splits)
  obtain m where "gc_group cfg = take m (drop (ex_next x) (ex_planned x))" and inv: "poolInv cfg (length (execLog x)) p"
    using i r by (auto simp: execInv_def)
  then have "distinct (map call_id (gc_group cfg))"
    using d by (simp add: drop_map [symmetric] take_map [symmetric])
  from poolTrace_step [OF inv this _ r(2)] show ?thesis using t r by (simp add: execTrace_def y)
next
  case (Collect env)
  obtain cfg p where r: "ex_stage x = Running cfg p" using s Collect by (auto split: exec_stage.splits)
  have "gc_turn cfg = ex_turn x" "gc_step cfg = ex_step x" using i r by (auto simp: execInv_def)
  then have at: "atTrace (Some (ex_turn x)) (Some (ex_step x)) nt ns {} (poolLog p)"
    using poolTrace_any [of cfg nt ns p] t r by (simp add: execTrace_def)
  show ?thesis
  proof (cases "pl_stage p")
    case (GroupThrown err)
    then show ?thesis using s r at Collect by (auto simp: execTrace_def)
  next
    case (GroupReturned out)
    then have y: "y = collectGroup x p out env" using s r Collect by simp
    obtain st z where k: "skipCalls (ex_turn x) (ex_step x) (drop (ex_next x + go_consumed out) (ex_planned x)) env
        (pl_state p) = (st, z)" by fastforce
    show ?thesis
      using at skipCalls_trace [OF k at] k
      by (auto simp: y collectGroup_def Let_def execTrace_def split: sum.split)
  qed (use s r Collect in simp_all)
qed

lemma execTrace_run:
  "execRun x is = Some y \<Longrightarrow> execInv base x \<Longrightarrow> distinct (map call_id (ex_planned x)) \<Longrightarrow> execTrace nt ns x
    \<Longrightarrow> execTrace nt ns y"
proof (induction "is" arbitrary: x)
  case (Cons i "is")
  then obtain z where z: "execStep x i = Some z" "execRun z is = Some y" by (auto simp: Option.bind_eq_Some_conv)
  then show ?case
    using Cons.IH [OF z(2)] Cons.prems execInv_step execTrace_step execStep_frame(3) by metis
qed simp

text \<open>
  Claim C33: the scheduler and the relational invariants of the session fit together. Started inside
  an open step of an accepted log, with calls of distinct identities, the scheduler leaves the log
  accepted and the same step open at every moment, through failures and aborts and with other code
  writing in between: no call it records is outside a step, and no result is without its call.
\<close>

theorem scheduler_obeys_companion:
  assumes "seedTrace (logS st) = Inr t" and "lastSeq t < int (length (logS st))"
    and "openTurn t = Some turn" and "openStep t = Some step" and "distinct (map call_id calls)"
    and run: "execRun (newExec turn step calls maxParallel st signal) is = Some x"
  shows "\<exists>t'. seedTrace (currentLog x) = Inr t' \<and> openTurn t' = Some turn \<and> openStep t' = Some step
     \<and> nextTurn t' = nextTurn t \<and> nextStep t' = nextStep t"
proof -
  have "atTrace (Some turn) (Some step) (nextTurn t) (nextStep t) {} (logS st)"
    using assms(1-4) by (auto simp: atTrace_def)
  then have "execTrace (nextTurn t) (nextStep t) (newExec turn step calls maxParallel st signal)"
    by (simp add: execTrace_def newExec_def)
  then have tr: "execTrace (nextTurn t) (nextStep t) x"
    using execTrace_run [OF run execInv_new] assms(5) by simp
  have inv: "execInv (length (logS st)) x" by (rule execInv_run [OF run execInv_new])
  have "ex_turn x = turn" "ex_step x = step" using execRun_frame [OF run] by simp_all
  have "atTrace (Some turn) (Some step) (nextTurn t) (nextStep t) {} (currentLog x)"
  proof (cases "ex_stage x")
    case (Running cfg p)
    then have "gc_turn cfg = turn" "gc_step cfg = step"
      using inv \<open>ex_turn x = turn\<close> \<open>ex_step x = step\<close> by (auto simp: execInv_def)
    then show ?thesis using tr Running poolTrace_any [of cfg _ _ p] by (simp add: execTrace_def currentLog_def)
  qed (use tr \<open>ex_turn x = turn\<close> \<open>ex_step x = step\<close> in \<open>simp_all add: execTrace_def currentLog_def\<close>)
  then show ?thesis by (auto simp: atTrace_def)
qed

theorem scheduler_obeys_companion_witness:
  "\<exists>x t'. execRun (newExec 1 1 sample_calls 2 sample_step_state False) sample_exec_inputs = Some x
     \<and> seedTrace (currentLog x) = Inr t' \<and> openTurn t' = Some 1 \<and> openStep t' = Some 1"
proof -
  obtain x where x: "execRun (newExec 1 1 sample_calls 2 sample_step_state False) sample_exec_inputs = Some x"
    using sample_exec_run by (auto split: option.splits)
  define t where "t = \<lparr>lastSeq = 1, openTurn = Some 1, openStep = Some 1, nextTurn = 1, nextStep = 1,
     pendingCalls = []\<rparr>"
  have "seedTrace (logS sample_step_state) = Inr t" unfolding t_def by code_simp
  moreover have "length (logS sample_step_state) = 2" by code_simp
  ultimately show ?thesis
    using scheduler_obeys_companion [OF _ _ _ _ _ x, of t] x by (auto simp: t_def sample_calls_def)
qed

end
