(* ===== verification/Prompt_Render.thy ===== *)
theory Prompt_Render
  imports Prelude Session_Types "HOL-Library.List_Lexorder" "HOL-Library.Char_ord" "HOL-Library.Multiset"
begin

text \<open>
  The pure functions of \<^verbatim>\<open>packages/core/system-prompt/src/index.ts\<close>: the strict
  interpolation of \<^verbatim>\<open>{{variable}}\<close> references, the rendering of an assembly and the
  canonical order of its tool schemas. The order of strings is the one of their code units.
\<close>

section \<open>Assemblies\<close>

text \<open>\<^verbatim>\<open>AssembledSection\<close> and \<^verbatim>\<open>AssembledContext\<close>.\<close>

record assembled_part =
  ap_name :: string
  ap_text :: string

record tool_schema =
  ts_name :: string
  ts_description :: string
  ts_parameters :: json

text \<open>A variable may be registered without a value.\<close>

type_synonym prompt_variables = "(string, string option) omap"

record prompt_assembly =
  pa_sections :: "assembled_part list"
  pa_contexts :: "assembled_part list"
  pa_tools :: "tool_schema list"
  pa_variables :: prompt_variables

datatype part_kind = SectionPart | ContextPart

datatype prompt_error =
    MalformedReference string part_kind string
  | MalformedName string part_kind string
  | UnknownVariable string part_kind string "string list"
  | UndefinedVariable string part_kind string
  | RepeatedTool string
  | MissingRest
  | ReservedTool
  | UnregisteredTools "string list" "string list"
  | MultipleComplete "string list"
  | ProviderFailed string
  | UnboundedOrder string
  | InvalidVariable string

section \<open>Interpolation\<close>

text \<open>\<^verbatim>\<open>text.indexOf(pat)\<close> for a pattern that is not empty.\<close>

fun indexOfSub :: "string \<Rightarrow> string \<Rightarrow> nat option" where
  "indexOfSub pat [] = None"
| "indexOfSub pat (c # cs) =
     (if take (length pat) (c # cs) = pat then Some 0 else map_option Suc (indexOfSub pat cs))"

text \<open>The regular expression \<^verbatim>\<open>GROUP_AT\<close>, giving what is between the braces.\<close>

definition groupAt :: "string \<Rightarrow> string option" where
  "groupAt s =
     (if take 2 s = ''{{''
      then (let name = takeWhile (\<lambda>c. c \<noteq> CHR ''{'' \<and> c \<noteq> CHR ''}'') (drop 2 s)
            in if take 2 (drop (2 + length name) s) = ''}}'' then Some name else None)
      else None)"

text \<open>The regular expression \<^verbatim>\<open>VARIABLE_NAME\<close>.\<close>

definition isLower :: "char \<Rightarrow> bool" where
  "isLower c \<longleftrightarrow> CHR ''a'' \<le> c \<and> c \<le> CHR ''z''"

fun variableName :: "string \<Rightarrow> bool" where
  "variableName [] = False"
| "variableName (c # cs) =
     (isLower c \<and> list_all (\<lambda>d. isLower d \<or> (CHR ''0'' \<le> d \<and> d \<le> CHR ''9'') \<or> d = CHR ''_'') cs)"

definition referenceValue ::
  "prompt_variables \<Rightarrow> part_kind \<Rightarrow> string \<Rightarrow> string \<Rightarrow> prompt_error + string" where
  "referenceValue variables kind input name =
     (if \<not> variableName name then Inl (MalformedName name kind input)
      else case map_of variables name of
             None \<Rightarrow> Inl (UnknownVariable name kind input (map fst variables))
           | Some None \<Rightarrow> Inl (UndefinedVariable name kind input)
           | Some (Some v) \<Rightarrow> Inr v)"

lemma indexOfSub_length: "indexOfSub pat s = Some k \<Longrightarrow> k + length pat \<le> length s"
  by (induction pat s arbitrary: k rule: indexOfSub.induct) (auto split: if_splits dest: arg_cong [of _ _ length])

text \<open>
  The scan, from the position \<^verbatim>\<open>last\<close> on: \<open>rest\<close> is the text from there. The part of the
  result that is already built is put in front on the way back.
\<close>

function interpolateFrom ::
  "prompt_variables \<Rightarrow> part_kind \<Rightarrow> string \<Rightarrow> string \<Rightarrow> prompt_error + string" where
  "interpolateFrom variables kind input rest =
     (case indexOfSub ''{{'' rest of
        None \<Rightarrow> Inr rest
      | Some k \<Rightarrow>
          (case groupAt (drop k rest) of
             None \<Rightarrow>
               if indexOfSub ''}}'' (drop (k + 2) rest) \<noteq> None
               then Inl (MalformedReference (take 16 (drop k rest)) kind input)
               else mapR (\<lambda>r. take (k + 2) rest @ r)
                      (interpolateFrom variables kind input (drop (k + 2) rest))
           | Some name \<Rightarrow>
               bindR (referenceValue variables kind input name) (\<lambda>v.
                 mapR (\<lambda>r. take k rest @ v @ r)
                   (interpolateFrom variables kind input (drop (k + length name + 4) rest)))))"
  by pat_completeness auto

termination
  by (relation "measure (\<lambda>(_, _, _, rest). length rest)") (auto dest!: indexOfSub_length)

declare interpolateFrom.simps [simp del]

definition interpolate ::
  "prompt_variables \<Rightarrow> part_kind \<Rightarrow> assembled_part \<Rightarrow> prompt_error + string" where
  "interpolate variables kind input = interpolateFrom variables kind (ap_name input) (ap_text input)"

section \<open>Rendering\<close>

fun joinWith :: "string \<Rightarrow> string list \<Rightarrow> string" where
  "joinWith sep [] = ''''"
| "joinWith sep [s] = s"
| "joinWith sep (s # ss) = s @ sep @ joinWith sep ss"

definition paragraph_break :: string where
  "paragraph_break = [CHR 0x0A, CHR 0x0A]"

definition renderPrompt :: "prompt_assembly \<Rightarrow> prompt_error + string" where
  "renderPrompt a =
     mapR (\<lambda>texts. joinWith paragraph_break (filter (\<lambda>t. length t > 0) texts))
       (mapM (interpolate (pa_variables a) SectionPart) (pa_sections a))"

definition renderContextSections :: "prompt_assembly \<Rightarrow> prompt_error + assembled_part list" where
  "renderContextSections a =
     mapR (filter (\<lambda>s. length (ap_text s) > 0))
       (mapM (\<lambda>c. mapR (\<lambda>t. \<lparr>ap_name = ap_name c, ap_text = t\<rparr>)
                    (interpolate (pa_variables a) ContextPart c)) (pa_contexts a))"

definition joinContextSections :: "assembled_part list \<Rightarrow> string" where
  "joinContextSections sections =
     (let body = joinWith paragraph_break (map ap_text sections)
      in if length body = 0 then ''''
         else ''Current runtime context. This snapshot supersedes earlier runtime-context snapshots.''
                @ paragraph_break @ body)"

definition renderContextSnapshot :: "prompt_assembly \<Rightarrow> prompt_error + string" where
  "renderContextSnapshot a = mapR joinContextSections (renderContextSections a)"

section \<open>Tool order\<close>

definition TOOL_ORDER_REST :: string where
  "TOOL_ORDER_REST = ''<unlisted-tools>''"

fun firstDuplicate :: "string set \<Rightarrow> string list \<Rightarrow> string option" where
  "firstDuplicate seen [] = None"
| "firstDuplicate seen (n # ns) = (if n \<in> seen then Some n else firstDuplicate (insert n seen) ns)"

definition validateToolOrder :: "string list option \<Rightarrow> prompt_error + string list option" where
  "validateToolOrder toolOrder =
     (case toolOrder of
        None \<Rightarrow> Inr None
      | Some names \<Rightarrow>
          (case firstDuplicate {} names of
             Some n \<Rightarrow> Inl (RepeatedTool n)
           | None \<Rightarrow> if TOOL_ORDER_REST \<notin> set names then Inl MissingRest else Inr (Some names)))"

text \<open>\<^verbatim>\<open>sort(compareToolNames)\<close>: the sort of the language is stable, as \<open>sort_key\<close> is.\<close>

definition sortTools :: "tool_schema list \<Rightarrow> tool_schema list" where
  "sortTools tools = sort_key ts_name tools"

definition orderTools ::
  "tool_schema list \<Rightarrow> string list option \<Rightarrow> string list \<Rightarrow> prompt_error + tool_schema list" where
  "orderTools tools toolOrder knownNames =
     (if find (\<lambda>t. ts_name t = TOOL_ORDER_REST) tools \<noteq> None then Inl ReservedTool
      else case toolOrder of
        None \<Rightarrow> Inr (sortTools tools)
      | Some names \<Rightarrow>
          (let unknown = filter (\<lambda>n. n \<noteq> TOOL_ORDER_REST \<and> n \<notin> set knownNames) names
           in if length unknown > 0 then Inl (UnregisteredTools unknown (sort (remdups knownNames)))
              else
                (let rest = sortTools (filter (\<lambda>t. ts_name t \<notin> set names) tools)
                 in Inr (concat (map (\<lambda>n. if n = TOOL_ORDER_REST then rest
                                          else filter (\<lambda>t. ts_name t = n) tools) names)))))"

end
