(* ===== verification/Prompt_Facts.thy ===== *)
theory Prompt_Facts
  imports Prompt_Render "HOL-Library.Sublist"
begin

text \<open>
  Interpolation against a reading of the text as a list of pieces, which every text has exactly
  once, and the canonical order of tool schemas.
\<close>

section \<open>Interpolation is evaluation of pieces\<close>

datatype piece = Literal string | Reference string | Malformed string

fun pieceValue :: "prompt_variables \<Rightarrow> part_kind \<Rightarrow> string \<Rightarrow> piece \<Rightarrow> prompt_error + string" where
  "pieceValue variables kind input (Literal s) = Inr s"
| "pieceValue variables kind input (Reference n) = referenceValue variables kind input n"
| "pieceValue variables kind input (Malformed s) = Inl (MalformedReference s kind input)"

text \<open>
  How a text is read. Prose is a text where no opening pair has a closing pair anywhere behind it,
  so that a lone pair is prose with all that follows. Otherwise the text splits at its first
  opening pair: either a group of characters that are no braces is closed right there, or the pair
  and the fourteen characters behind it are malformed, and the reading stops.
\<close>

definition prose :: "string \<Rightarrow> bool" where
  "prose s \<longleftrightarrow> (\<forall>a b. s = a @ ''{{'' @ b \<longrightarrow> \<not> sublist ''}}'' b)"

definition firstPair :: "string \<Rightarrow> bool" where
  "firstPair a \<longleftrightarrow> \<not> sublist ''{{'' (a @ ''{'')"

definition braceless :: "string \<Rightarrow> bool" where
  "braceless n \<longleftrightarrow> CHR ''{'' \<notin> set n \<and> CHR ''}'' \<notin> set n"

inductive reads :: "string \<Rightarrow> piece list \<Rightarrow> bool" where
  reads_prose: "prose s \<Longrightarrow> reads s [Literal s]"
| reads_group: "firstPair a \<Longrightarrow> braceless n \<Longrightarrow> reads b ps
    \<Longrightarrow> reads (a @ ''{{'' @ n @ ''}}'' @ b) (Literal a # Reference n # ps)"
| reads_malformed: "firstPair a \<Longrightarrow> sublist ''}}'' b \<Longrightarrow> (\<And>n c. braceless n \<Longrightarrow> b \<noteq> n @ ''}}'' @ c)
    \<Longrightarrow> reads (a @ ''{{'' @ b) [Literal a, Malformed (take 16 (''{{'' @ b))]"

text \<open>What the search and the group expression find.\<close>

lemma take_prefix: "take (length p) s = p \<longleftrightarrow> prefix p s"
  by (auto simp: prefix_def) (metis append_take_drop_id)

lemma indexOfSub_Cons:
  "indexOfSub pat (c # cs) = (if prefix pat (c # cs) then Some 0 else map_option Suc (indexOfSub pat cs))"
  by (simp add: take_prefix)

declare indexOfSub.simps(2) [simp del]

lemma indexOfSub_None: "pat \<noteq> [] \<Longrightarrow> indexOfSub pat s = None \<longleftrightarrow> \<not> sublist pat s"
  by (induction s) (auto simp: sublist_Cons_right indexOfSub_Cons)

lemma firstPair_Nil: "firstPair []"
  by (simp add: firstPair_def sublist_Cons_right)

lemma firstPair_Cons: "firstPair (c # a) \<longleftrightarrow> \<not> prefix ''{{'' (c # a @ ''{'') \<and> firstPair a"
  by (simp add: firstPair_def sublist_Cons_right del: prefix_Cons)

lemma indexOfSub_first:
  "indexOfSub ''{{'' s = Some k \<Longrightarrow> \<exists>a b. s = a @ ''{{'' @ b \<and> length a = k \<and> firstPair a"
proof (induction s arbitrary: k)
  case (Cons c cs)
  show ?case
  proof (cases "prefix ''{{'' (c # cs)")
    case True
    then obtain b where "c # cs = ''{{'' @ b" by (auto simp: prefix_def)
    moreover have "k = 0" using Cons.prems unfolding indexOfSub_Cons if_P [OF True] by simp
    ultimately show ?thesis using firstPair_Nil by (intro exI [of _ "[]"] exI [of _ b]) simp
  next
    case False
    then obtain j where "indexOfSub ''{{'' cs = Some j" "k = Suc j"
      using Cons.prems unfolding indexOfSub_Cons if_not_P [OF False] by auto
    then obtain a b where ab: "cs = a @ ''{{'' @ b" "length a = j" "firstPair a" using Cons.IH by blast
    have "\<not> prefix ''{{'' (c # a @ ''{'')" using False ab(1) by (cases a) auto
    then show ?thesis using ab \<open>k = Suc j\<close>
      by (intro exI [of _ "c # a"] exI [of _ b]) (simp add: firstPair_Cons del: prefix_Cons)
  qed
qed simp

lemma indexOfSub_at: "firstPair a \<Longrightarrow> indexOfSub ''{{'' (a @ ''{{'' @ b) = Some (length a)"
proof (induction a)
  case Nil
  then show ?case by (simp add: indexOfSub_Cons)
next
  case (Cons c a)
  then have "\<not> prefix ''{{'' ((c # a) @ ''{{'' @ b)" by (cases a) (auto simp: firstPair_Cons)
  then show ?case using Cons by (simp add: indexOfSub_Cons firstPair_Cons del: prefix_Cons)
qed

lemma groupAt_Some: "groupAt (''{{'' @ b) = Some n \<longleftrightarrow> braceless n \<and> (\<exists>c. b = n @ ''}}'' @ c)"
proof
  assume g: "groupAt (''{{'' @ b) = Some n"
  then have n: "n = takeWhile (\<lambda>c. c \<noteq> CHR ''{'' \<and> c \<noteq> CHR ''}'') b" "take 2 (drop (length n) b) = ''}}''"
    by (auto simp: groupAt_def Let_def split: if_splits)
  have "braceless n" using set_takeWhileD by (fastforce simp: braceless_def n(1))
  moreover have "take (length n) b = n" by (simp add: n(1) takeWhile_eq_take [symmetric])
  then have "b = n @ take 2 (drop (length n) b) @ drop 2 (drop (length n) b)"
    by (metis append_take_drop_id)
  then have "b = n @ ''}}'' @ drop 2 (drop (length n) b)" unfolding n(2) .
  ultimately show "braceless n \<and> (\<exists>c. b = n @ ''}}'' @ c)" by blast
next
  assume "braceless n \<and> (\<exists>c. b = n @ ''}}'' @ c)"
  then obtain c where b: "b = n @ ''}}'' @ c" "braceless n" by blast
  then have "takeWhile (\<lambda>c. c \<noteq> CHR ''{'' \<and> c \<noteq> CHR ''}'') b = n"
    by (subst b(1), subst takeWhile_append2) (auto simp: braceless_def)
  then show "groupAt (''{{'' @ b) = Some n" by (simp add: groupAt_def Let_def b(1))
qed

text \<open>A text without a pair to close is left alone.\<close>

lemma prose_skip: "prose (a @ ''{{'' @ b) \<Longrightarrow> \<not> sublist ''}}'' b \<and> prose b"
proof
  assume p: "prose (a @ ''{{'' @ b)"
  then show "\<not> sublist ''}}'' b" by (simp add: prose_def)
  show "prose b" unfolding prose_def
  proof (intro allI impI)
    fix c d assume "b = c @ ''{{'' @ d"
    then have "a @ ''{{'' @ b = (a @ ''{{'' @ c) @ ''{{'' @ d" by simp
    then show "\<not> sublist ''}}'' d" using p unfolding prose_def by blast
  qed
qed

lemma not_prose: "indexOfSub ''{{'' s = Some k \<Longrightarrow> sublist ''}}'' (drop (k + 2) s) \<longleftrightarrow> \<not> prose s"
proof -
  assume "indexOfSub ''{{'' s = Some k"
  then obtain a b where s: "s = a @ ''{{'' @ b" "length a = k" "firstPair a" using indexOfSub_first by blast
  have "sublist ''}}'' b" if "s = c @ ''{{'' @ d" "sublist ''}}'' d" for c d
  proof -
    have "length a \<le> length c"
      using s(3) that(1) s(1)
    proof (induction a arbitrary: c s)
      case (Cons x a)
      then show ?case by (cases c; cases a) (auto simp: firstPair_Cons)
    qed simp
    then have "length d \<le> length b" using arg_cong [OF that(1), of length] s(1) by simp
    moreover have "suffix d s" "suffix b s" using that(1) s(1) by (auto simp: suffix_def) (metis append.assoc append_Cons append_Nil)+
    ultimately have "suffix d b" by (metis suffix_length_suffix)
    then show ?thesis using that(2) by (meson sublist_order.order_trans suffix_imp_sublist)
  qed
  then show ?thesis using s by (auto simp: prose_def)
qed

lemma interpolateFrom_prose: "prose s \<Longrightarrow> interpolateFrom variables kind input s = Inr s"
proof (induction s rule: length_induct)
  case (1 s)
  show ?case
  proof (cases "indexOfSub ''{{'' s")
    case None
    then show ?thesis by (simp add: interpolateFrom.simps)
  next
    case (Some k)
    then obtain a b where s: "s = a @ ''{{'' @ b" "length a = k" "firstPair a" using indexOfSub_first by blast
    have p: "\<not> sublist ''}}'' b" "prose b" using prose_skip 1(2) s(1) by blast+
    have d: "drop k s = ''{{'' @ b" "drop (k + 2) s = b" "take (k + 2) s = a @ ''{{''" using s(1,2) by simp_all
    have "groupAt (''{{'' @ b) = None"
      using p(1) by (metis groupAt_Some not_None_eq sublist_appendI)
    moreover have "interpolateFrom variables kind input b = Inr b" using 1(1) p(2) s(1) by simp
    moreover have "indexOfSub ''}}'' b = None" using p(1) indexOfSub_None [of "''}}''" b] by blast
    ultimately show ?thesis
      by (subst interpolateFrom.simps) (simp only: Some option.case d, simp add: s(1))
  qed
qed

lemma interpolateFrom_reads:
  "reads s ps \<Longrightarrow>
     interpolateFrom variables kind input s = mapR concat (mapM (pieceValue variables kind input) ps)"
proof (induction rule: reads.induct)
  case (reads_prose s)
  then show ?case by (simp add: interpolateFrom_prose)
next
  case (reads_group a n b ps)
  let ?s = "a @ ''{{'' @ n @ ''}}'' @ b"
  have ix: "indexOfSub ''{{'' ?s = Some (length a)" by (rule indexOfSub_at [OF reads_group(1)])
  have g: "groupAt (drop (length a) ?s) = Some n"
    using groupAt_Some [of "n @ ''}}'' @ b" n] reads_group(2) by simp
  have d: "drop (length a + length n + 4) ?s = b" "take (length a) ?s = a"
    by (simp_all add: numeral_eq_Suc)
  show ?case
    by (subst interpolateFrom.simps)
      (simp only: ix g option.case d reads_group.IH, cases "referenceValue variables kind input n";
       cases "mapM (pieceValue variables kind input) ps"; simp)
next
  case (reads_malformed a b)
  let ?s = "a @ ''{{'' @ b"
  have ix: "indexOfSub ''{{'' ?s = Some (length a)" by (rule indexOfSub_at [OF reads_malformed(1)])
  have d: "drop (length a) ?s = ''{{'' @ b" "drop (length a + 2) ?s = b" by simp_all
  have g: "groupAt (''{{'' @ b) = None"
    using groupAt_Some reads_malformed(3) by (metis not_None_eq)
  have "indexOfSub ''}}'' b \<noteq> None" using reads_malformed(2) indexOfSub_None [of "''}}''" b] by blast
  then show ?case
    by (subst interpolateFrom.simps) (simp only: ix d g option.case if_True not_False_eq_True, simp)
qed

text \<open>Every text has exactly one reading.\<close>

lemma reads_inverse:
  assumes "reads s ps"
  shows "if prose s then ps = [Literal s]
    else \<exists>k. indexOfSub ''{{'' s = Some k \<and>
      (case groupAt (drop k s) of
         None \<Rightarrow> ps = [Literal (take k s), Malformed (take 16 (drop k s))]
       | Some n \<Rightarrow> \<exists>qs. reads (drop (k + length n + 4) s) qs \<and> ps = Literal (take k s) # Reference n # qs)"
  using assms
proof cases
  case reads_prose
  then show ?thesis by simp
next
  case (reads_group a n b qs)
  have g: "groupAt (''{{'' @ n @ ''}}'' @ b) = Some n" using groupAt_Some reads_group(4) by blast
  have "\<not> prose s" unfolding prose_def reads_group(1) by (metis sublist_appendI)
  moreover have "groupAt (drop (length a) s) = Some n" unfolding reads_group(1) using g by simp
  moreover have "take (length a) s = a" "drop (length a + length n + 4) s = b"
    unfolding reads_group(1) by (simp_all add: numeral_eq_Suc)
  moreover have "indexOfSub ''{{'' s = Some (length a)"
    unfolding reads_group(1) by (rule indexOfSub_at [OF reads_group(3)])
  ultimately show ?thesis using reads_group(2,5) by simp
next
  case (reads_malformed a b)
  have g: "groupAt (''{{'' @ b) = None" using groupAt_Some reads_malformed(5) by (metis not_None_eq)
  have "\<not> prose s" using reads_malformed(4) unfolding prose_def reads_malformed(1) by blast
  moreover have "groupAt (drop (length a) s) = None" unfolding reads_malformed(1) using g by simp
  moreover have "take (length a) s = a" "take 16 (drop (length a) s) = take 16 (''{{'' @ b)"
    unfolding reads_malformed(1) by simp_all
  moreover have "indexOfSub ''{{'' s = Some (length a)"
    unfolding reads_malformed(1) by (rule indexOfSub_at [OF reads_malformed(3)])
  ultimately show ?thesis using reads_malformed(2) by simp
qed

lemma reads_unique: "reads s ps \<Longrightarrow> reads s qs \<Longrightarrow> qs = ps"
proof (induction s arbitrary: ps qs rule: length_induct)
  case (1 s)
  show ?case
  proof (cases "prose s")
    case True
    then show ?thesis using reads_inverse [OF 1(2)] reads_inverse [OF 1(3)] by simp
  next
    case False
    obtain k where k: "indexOfSub ''{{'' s = Some k" using reads_inverse [OF 1(2)] False by auto
    have l: "length (drop (k + length n + 4) s) < length s" for n :: string
      using indexOfSub_length [OF k] by auto
    show ?thesis
    proof (cases "groupAt (drop k s)")
      case None
      then show ?thesis using reads_inverse [OF 1(2)] reads_inverse [OF 1(3)] False k by simp
    next
      case (Some n)
      obtain ps' where "reads (drop (k + length n + 4) s) ps'" "ps = Literal (take k s) # Reference n # ps'"
        using reads_inverse [OF 1(2)] False k Some by auto
      moreover obtain qs' where "reads (drop (k + length n + 4) s) qs'" "qs = Literal (take k s) # Reference n # qs'"
        using reads_inverse [OF 1(3)] False k Some by auto
      ultimately show ?thesis using 1(1) l [of n] by blast
    qed
  qed
qed

lemma reads_exists: "\<exists>ps. reads s ps"
proof (induction s rule: length_induct)
  case (1 s)
  show ?case
  proof (cases "prose s")
    case True
    then show ?thesis by (blast intro: reads_prose)
  next
    case False
    then obtain a0 b0 where "s = a0 @ ''{{'' @ b0" by (auto simp: prose_def)
    then have "indexOfSub ''{{'' s \<noteq> None" using indexOfSub_None [of "''{{''" s] by (metis sublist_appendI list.distinct(1))
    then obtain k a b where k: "indexOfSub ''{{'' s = Some k" and s: "s = a @ ''{{'' @ b" "length a = k" "firstPair a"
      using indexOfSub_first by blast
    have c: "sublist ''}}'' b" using not_prose [OF k] False s by simp
    show ?thesis
    proof (cases "groupAt (''{{'' @ b)")
      case None
      then have "\<And>n c. braceless n \<Longrightarrow> b \<noteq> n @ ''}}'' @ c" using groupAt_Some by (metis option.distinct(1))
      then show ?thesis unfolding s(1) using reads_malformed [OF s(3) c] by blast
    next
      case (Some n)
      then obtain c where b: "b = n @ ''}}'' @ c" "braceless n" using groupAt_Some by blast
      have "length c < length s" by (simp add: s(1) b(1))
      then obtain qs where "reads c qs" using 1 by blast
      then show ?thesis unfolding s(1) b(1) using reads_group [OF s(3) b(2)] by blast
    qed
  qed
qed

text \<open>
  Claim C34: interpolation is evaluation. Every text, whatever braces it has, has exactly one
  reading as literals, references and malformed groups, and its value is the value of these pieces
  one after the other: substituted values are not scanned again, a pair that nothing closes is
  prose, and the first piece that is malformed, unknown or without a value is the error.
\<close>

theorem interpolate_is_evaluation:
  "\<exists>ps. reads (ap_text part) ps \<and> (\<forall>qs. reads (ap_text part) qs \<longrightarrow> qs = ps)
     \<and> interpolate variables kind part = mapR concat (mapM (pieceValue variables kind (ap_name part)) ps)"
proof -
  obtain ps where "reads (ap_text part) ps" using reads_exists by blast
  then show ?thesis
    using reads_unique interpolateFrom_reads [of _ ps variables kind "ap_name part"]
    unfolding interpolate_def by blast
qed

theorem interpolate_is_evaluation_witness:
  "interpolate [(''cwd'', Some ''{{user}}''), (''user'', None)] SectionPart
       \<lparr>ap_name = ''s'', ap_text = ''{ {{cwd}} and {{ x''\<rparr> = Inr ''{ {{user}} and {{ x''
   \<and> interpolate [(''cwd'', Some '''')] SectionPart \<lparr>ap_name = ''s'', ap_text = ''{{cwd}}{{{cwd}} and more of it''\<rparr>
       = Inl (MalformedReference ''{{{cwd}} and mor'' SectionPart ''s'')"
proof
  have f: "firstPair ''{ ''" "braceless ''cwd''" "firstPair []"
    by (simp_all add: firstPair_def braceless_def sublist_Cons_right)
  have p: "prose '' and {{ x''"
    using not_prose [of "'' and {{ x''" 5] by (simp add: indexOfSub_Cons sublist_Cons_right)
  have "reads (''{ '' @ ''{{'' @ ''cwd'' @ ''}}'' @ '' and {{ x'')
      [Literal ''{ '', Reference ''cwd'', Literal '' and {{ x'']"
    by (rule reads_group [OF f(1,2) reads_prose [OF p]])
  then have r: "reads ''{ {{cwd}} and {{ x'' [Literal ''{ '', Reference ''cwd'', Literal '' and {{ x'']" by simp
  obtain ps where ps: "\<forall>qs. reads ''{ {{cwd}} and {{ x'' qs \<longrightarrow> qs = ps"
      "interpolate [(''cwd'', Some ''{{user}}''), (''user'', None)] SectionPart
         \<lparr>ap_name = ''s'', ap_text = ''{ {{cwd}} and {{ x''\<rparr>
       = mapR concat (mapM (pieceValue [(''cwd'', Some ''{{user}}''), (''user'', None)] SectionPart ''s'') ps)"
    using interpolate_is_evaluation [where part = "\<lparr>ap_name = ''s'', ap_text = ''{ {{cwd}} and {{ x''\<rparr>"]
    unfolding assembled_part.simps by blast
  show "interpolate [(''cwd'', Some ''{{user}}''), (''user'', None)] SectionPart
       \<lparr>ap_name = ''s'', ap_text = ''{ {{cwd}} and {{ x''\<rparr> = Inr ''{ {{user}} and {{ x''"
    unfolding ps(2) ps(1) [rule_format, OF r, symmetric] by (simp add: referenceValue_def isLower_def)
  have "reads ([] @ ''{{'' @ ''{cwd}} and more of it'') [Literal [], Malformed (take 16 (''{{'' @ ''{cwd}} and more of it''))]"
  proof (rule reads_malformed [OF f(3)])
    show "''{cwd}} and more of it'' \<noteq> n @ ''}}'' @ c" if "braceless n" for n c
      using that by (cases n) (auto simp: braceless_def)
  qed (simp add: sublist_Cons_right)
  then have "reads ([] @ ''{{'' @ ''cwd'' @ ''}}'' @ ''{{{cwd}} and more of it'')
      [Literal [], Reference ''cwd'', Literal [], Malformed ''{{{cwd}} and mor'']"
    by (intro reads_group [OF f(3,2)]) simp
  then have r': "reads ''{{cwd}}{{{cwd}} and more of it''
      [Literal [], Reference ''cwd'', Literal [], Malformed ''{{{cwd}} and mor'']" by simp
  obtain qs where qs: "\<forall>ps. reads ''{{cwd}}{{{cwd}} and more of it'' ps \<longrightarrow> ps = qs"
      "interpolate [(''cwd'', Some '''')] SectionPart
         \<lparr>ap_name = ''s'', ap_text = ''{{cwd}}{{{cwd}} and more of it''\<rparr>
       = mapR concat (mapM (pieceValue [(''cwd'', Some '''')] SectionPart ''s'') qs)"
    using interpolate_is_evaluation [where part = "\<lparr>ap_name = ''s'', ap_text = ''{{cwd}}{{{cwd}} and more of it''\<rparr>"]
    unfolding assembled_part.simps by blast
  show "interpolate [(''cwd'', Some '''')] SectionPart \<lparr>ap_name = ''s'', ap_text = ''{{cwd}}{{{cwd}} and more of it''\<rparr>
       = Inl (MalformedReference ''{{{cwd}} and mor'' SectionPart ''s'')"
    unfolding qs(2) qs(1) [rule_format, OF r', symmetric] by (simp add: referenceValue_def isLower_def)
qed

section \<open>Tool order\<close>

lemma firstDuplicate_None: "firstDuplicate seen ns = None \<longleftrightarrow> distinct ns \<and> seen \<inter> set ns = {}"
  by (induction ns arbitrary: seen) auto

lemma named_tools_mset:
  "distinct ns \<Longrightarrow> mset (concat (map (\<lambda>n. filter (\<lambda>t. ts_name t = n) tools) ns))
     = filter_mset (\<lambda>t. ts_name t \<in> set ns) (mset tools)"
proof (induction ns)
  case (Cons n ns)
  have "filter_mset (\<lambda>t. ts_name t \<in> set (n # ns)) (mset tools)
      = filter_mset (\<lambda>t. ts_name t = n) (mset tools) + filter_mset (\<lambda>t. ts_name t \<in> set ns) (mset tools)"
    using Cons.prems by (induction tools) auto
  then show ?case using Cons by simp
qed simp

text \<open>The listed order, split at the place of the unlisted tools.\<close>

lemma listed_order:
  assumes "distinct ns" and "TOOL_ORDER_REST \<in> set ns"
  obtains xs ys where "ns = xs @ TOOL_ORDER_REST # ys" and "TOOL_ORDER_REST \<notin> set (xs @ ys)"
    and "distinct (xs @ ys)"
proof -
  from split_list [OF assms(2)] obtain xs ys where ns: "ns = xs @ TOOL_ORDER_REST # ys" by blast
  show thesis by (rule that [OF ns]) (use assms(1) ns in auto)
qed

lemma map_off_rest:
  "TOOL_ORDER_REST \<notin> set xs \<Longrightarrow>
     map (\<lambda>n. if n = TOOL_ORDER_REST then r else f n) xs = map f xs"
  by (rule map_cong) auto

lemma ordered_mset:
  assumes "distinct ns" and "TOOL_ORDER_REST \<in> set ns" and "\<forall>t \<in> set tools. ts_name t \<noteq> TOOL_ORDER_REST"
  shows "mset (concat (map (\<lambda>n. if n = TOOL_ORDER_REST then sortTools (filter (\<lambda>t. ts_name t \<notin> set ns) tools)
      else filter (\<lambda>t. ts_name t = n) tools) ns)) = mset tools"
proof -
  obtain xs ys where ns: "ns = xs @ TOOL_ORDER_REST # ys" "TOOL_ORDER_REST \<notin> set (xs @ ys)" "distinct (xs @ ys)"
    by (rule listed_order [OF assms(1,2)])
  let ?named = "\<lambda>ns. concat (map (\<lambda>n. filter (\<lambda>t. ts_name t = n) tools) ns)"
  have "mset (?named xs) + mset (?named ys) = filter_mset (\<lambda>t. ts_name t \<in> set (xs @ ys)) (mset tools)"
    using named_tools_mset [OF ns(3), of tools] by simp
  moreover have "filter_mset (\<lambda>t. ts_name t \<notin> set ns) (mset tools)
      = filter_mset (\<lambda>t. ts_name t \<notin> set (xs @ ys)) (mset tools)"
    by (rule filter_mset_cong) (use assms(3) ns(1) in auto)
  moreover have "mset tools = filter_mset (\<lambda>t. ts_name t \<in> set (xs @ ys)) (mset tools)
      + filter_mset (\<lambda>t. ts_name t \<notin> set (xs @ ys)) (mset tools)"
    by (rule multiset_partition)
  ultimately have "mset (?named xs) + (mset (?named ys) + filter_mset (\<lambda>t. ts_name t \<notin> set ns) (mset tools))
      = mset tools"
    by (simp only: add.assoc [symmetric])
  then show ?thesis
    using ns(2) by (simp add: ns(1) map_off_rest sortTools_def ac_simps)
qed

lemma sortTools_canonical:
  assumes "mset tools' = mset tools" and "distinct (map ts_name tools)"
  shows "sortTools tools' = sortTools tools"
  unfolding sortTools_def
proof (rule sort_key_inj_key_eq)
  show "mset tools' = mset (sort_key ts_name tools)" using assms(1) by simp
  show "inj_on ts_name (set tools')"
    using assms mset_eq_setD [OF assms(1)] by (simp add: distinct_map)
qed simp

lemma named_canonical:
  assumes "mset tools' = mset tools" and "distinct (map ts_name tools)"
  shows "filter (\<lambda>t. ts_name t = n) tools' = filter (\<lambda>t. ts_name t = n) tools"
proof -
  have short: "length (filter (\<lambda>t. ts_name t = n) ts) \<le> 1" if "distinct (map ts_name ts)" for ts
    using that
  proof (induction ts)
    case (Cons t ts)
    have "ts_name t = n \<Longrightarrow> filter (\<lambda>t. ts_name t = n) ts = []" using Cons.prems by (auto simp: filter_empty_conv image_iff)
    then show ?case using Cons by auto
  qed simp
  have d: "distinct (map ts_name tools')"
    using assms mset_eq_imp_distinct_iff [of "map ts_name tools'" "map ts_name tools"] by simp
  have single: "xs = ys" if "mset xs = mset ys" "length xs \<le> 1" for xs ys :: "'z list"
    using that by (cases xs rule: list.exhaust; cases "tl xs") auto
  show ?thesis by (rule single [OF _ short [OF d]]) (use assms(1) in simp)
qed

lemma orderTools_cong:
  assumes m: "mset tools' = mset tools" and d: "distinct (map ts_name tools)"
  shows "orderTools tools' names known = orderTools tools names known"
proof -
  have "find (\<lambda>t. ts_name t = TOOL_ORDER_REST) tools' \<noteq> None \<longleftrightarrow> find (\<lambda>t. ts_name t = TOOL_ORDER_REST) tools \<noteq> None"
    using mset_eq_setD [OF m] by (auto simp: find_None_iff)
  moreover have "sortTools (filter P tools') = sortTools (filter P tools)" for P
    by (rule sortTools_canonical) (use m d in \<open>simp_all add: distinct_map_filter\<close>)
  moreover have "(\<lambda>n. if n = TOOL_ORDER_REST then r else filter (\<lambda>t. ts_name t = n) tools')
      = (\<lambda>n. if n = TOOL_ORDER_REST then r else filter (\<lambda>t. ts_name t = n) tools)" for r
    by (simp add: fun_eq_iff named_canonical [OF m d])
  ultimately show ?thesis
    using sortTools_canonical [OF m d] unfolding orderTools_def Let_def by (simp only:)
qed

text \<open>
  The place of a name: its index in the configured order, and for a name that is not configured
  the index of the rest marker; without a configured order all names have one place. Names that
  share a place are ordered by their code units.
\<close>

definition placeIn :: "string list \<Rightarrow> string \<Rightarrow> nat" where
  "placeIn ns n = length (takeWhile (\<lambda>m. m \<noteq> n) ns)"

definition toolPlace :: "string list option \<Rightarrow> string \<Rightarrow> nat" where
  "toolPlace names n =
     (case names of
        None \<Rightarrow> 0
      | Some ns \<Rightarrow> placeIn ns (if n \<in> set ns then n else TOOL_ORDER_REST))"

definition toolsOrdered :: "string list option \<Rightarrow> string \<Rightarrow> string \<Rightarrow> bool" where
  "toolsOrdered names n m \<longleftrightarrow>
     toolPlace names n < toolPlace names m \<or> (toolPlace names n = toolPlace names m \<and> n \<le> m)"

lemma sorted_wrt_concat:
  "\<lbrakk>\<forall>n \<in> set ns. sorted_wrt R (g n); sorted_wrt (\<lambda>n m. \<forall>t \<in> set (g n). \<forall>u \<in> set (g m). R t u) ns\<rbrakk>
   \<Longrightarrow> sorted_wrt R (concat (map g ns))"
  by (induction ns) (auto simp: sorted_wrt_append)

lemma placeIn_sorted: "distinct ns \<Longrightarrow> sorted_wrt (\<lambda>n m. placeIn ns n < placeIn ns m) ns"
proof (induction ns)
  case (Cons n ns)
  then have "sorted_wrt (\<lambda>m k. placeIn (n # ns) m < placeIn (n # ns) k) ns"
    by (intro sorted_wrt_mono_rel [OF _ Cons.IH]) (auto simp: placeIn_def)
  then show ?case using Cons.prems by (auto simp: placeIn_def)
qed simp

text \<open>What one place of the configured order holds.\<close>

definition toolsAt :: "tool_schema list \<Rightarrow> string list \<Rightarrow> string \<Rightarrow> tool_schema list" where
  "toolsAt tools ns n =
     (if n = TOOL_ORDER_REST then sortTools (filter (\<lambda>t. ts_name t \<notin> set ns) tools)
      else filter (\<lambda>t. ts_name t = n) tools)"

lemma toolsAt_place:
  assumes "t \<in> set (toolsAt tools ns n)" "n \<in> set ns"
  shows "toolPlace (Some ns) (ts_name t) = placeIn ns n"
  using assms by (auto simp: toolsAt_def toolPlace_def sortTools_def split: if_splits)

lemma toolsAt_sorted:
  assumes "n \<in> set ns"
  shows "sorted_wrt (\<lambda>t u. toolsOrdered (Some ns) (ts_name t) (ts_name u)) (toolsAt tools ns n)"
proof -
  have "sorted_wrt (\<lambda>t u. ts_name t \<le> ts_name u) (toolsAt tools ns n)"
  proof (cases "n = TOOL_ORDER_REST")
    case True
    then show ?thesis
      using sorted_sort_key [of ts_name] by (simp add: toolsAt_def sortTools_def sorted_map)
  next
    case False
    then have "toolsAt tools ns n = filter (\<lambda>t. ts_name t = n) tools" by (simp add: toolsAt_def)
    moreover have "sorted_wrt (\<lambda>t u. ts_name t \<le> ts_name u) (filter (\<lambda>t. ts_name t = n) tools)"
      by (induction tools) auto
    ultimately show ?thesis by simp
  qed
  then show ?thesis
    by (rule sorted_wrt_mono_rel [rotated]) (simp add: toolsOrdered_def toolsAt_place [OF _ assms])
qed

lemma ordered_places:
  assumes "distinct ns"
  shows "sorted_wrt (\<lambda>t u. toolsOrdered (Some ns) (ts_name t) (ts_name u)) (concat (map (toolsAt tools ns) ns))"
proof (rule sorted_wrt_concat)
  show "\<forall>n \<in> set ns. sorted_wrt (\<lambda>t u. toolsOrdered (Some ns) (ts_name t) (ts_name u)) (toolsAt tools ns n)"
    using toolsAt_sorted by blast
  show "sorted_wrt (\<lambda>n m. \<forall>t \<in> set (toolsAt tools ns n). \<forall>u \<in> set (toolsAt tools ns m).
      toolsOrdered (Some ns) (ts_name t) (ts_name u)) ns"
    by (rule sorted_wrt_mono_rel [OF _ placeIn_sorted [OF assms]]) (simp add: toolsOrdered_def toolsAt_place)
qed

text \<open>Schemas of one name keep the order in which the providers contributed them.\<close>

lemma filter_sortTools: "filter (\<lambda>t. ts_name t = n) (sortTools tools) = filter (\<lambda>t. ts_name t = n) tools"
  by (simp add: sortTools_def sort_key_stable)

lemma filter_absent: "(\<And>t. t \<in> set xs \<Longrightarrow> \<not> P t) \<Longrightarrow> filter P xs = []"
  by (simp add: filter_empty_conv)

lemma filter_toolsAt:
  assumes "\<forall>t \<in> set tools. ts_name t \<noteq> TOOL_ORDER_REST"
  shows "filter (\<lambda>t. ts_name t = k) (toolsAt tools ns n)
     = (if k = n \<or> (n = TOOL_ORDER_REST \<and> k \<notin> set ns) then filter (\<lambda>t. ts_name t = k) tools else [])"
  using assms
  by (auto simp: toolsAt_def filter_sortTools intro!: filter_absent filter_cong dest: filter_set [THEN equalityD1, THEN subsetD])

lemma concat_single:
  "distinct ns \<Longrightarrow> m \<in> set ns \<Longrightarrow> concat (map (\<lambda>n. if n = m then xs else []) ns) = xs"
proof (induction ns)
  case (Cons n ns)
  have "concat (map (\<lambda>n. if n = m then xs else []) ns) = []" if "m \<notin> set ns" using that by (induction ns) auto
  then show ?case using Cons by auto
qed simp

lemma ordered_stable:
  assumes "distinct ns" "TOOL_ORDER_REST \<in> set ns" "\<forall>t \<in> set tools. ts_name t \<noteq> TOOL_ORDER_REST"
  shows "filter (\<lambda>t. ts_name t = k) (concat (map (toolsAt tools ns) ns)) = filter (\<lambda>t. ts_name t = k) tools"
proof -
  let ?m = "if k \<in> set ns then k else TOOL_ORDER_REST"
  have c: "(k = n \<or> (n = TOOL_ORDER_REST \<and> k \<notin> set ns)) = (n = ?m)" if "n \<in> set ns" for n
    using that by (cases "k \<in> set ns") auto
  have at_place: "filter (\<lambda>t. ts_name t = k) (toolsAt tools ns n)
      = (if n = ?m then filter (\<lambda>t. ts_name t = k) tools else [])" if "n \<in> set ns" for n
    unfolding filter_toolsAt [OF assms(3)] c [OF that] ..
  have "filter (\<lambda>t. ts_name t = k) (concat (map (toolsAt tools ns) ns))
      = concat (map (\<lambda>n. if n = ?m then filter (\<lambda>t. ts_name t = k) tools else []) ns)"
    unfolding filter_concat map_map comp_def
    by (rule arg_cong [of _ _ concat], rule map_cong [OF refl], rule at_place)
  also have "\<dots> = filter (\<lambda>t. ts_name t = k) tools" by (rule concat_single) (use assms in auto)
  finally show ?thesis .
qed

lemma validateToolOrder_Some:
  "validateToolOrder order = Inr (Some ns) \<Longrightarrow> distinct ns \<and> TOOL_ORDER_REST \<in> set ns"
  by (auto simp: validateToolOrder_def firstDuplicate_None split: option.splits if_splits)

lemma orderTools_listed:
  assumes "orderTools tools (Some ns) known = Inr out"
  shows "out = concat (map (toolsAt tools ns) ns)"
  using assms by (auto simp: orderTools_def Let_def toolsAt_def [abs_def] split: if_splits)

text \<open>
  Claim C35: the canonical order of tools. Every schema is sent exactly once. A tool that the
  configuration names stands at its configured place, every other one at the place of the rest
  marker, and tools that share a place are sorted by name (all of them, when no order is
  configured); schemas of one name keep the order of their contribution. So when the names are
  distinct the result does not depend on the order in which the providers contributed.
\<close>

theorem tool_order_canonical:
  assumes "validateToolOrder order = Inr names" and "orderTools tools names known = Inr out"
  shows "mset out = mset tools \<and> sorted_wrt (toolsOrdered names) (map ts_name out)
     \<and> (\<forall>k. filter (\<lambda>t. ts_name t = k) out = filter (\<lambda>t. ts_name t = k) tools)
     \<and> (distinct (map ts_name tools) \<longrightarrow>
          (\<forall>tools'. mset tools' = mset tools \<longrightarrow> orderTools tools' names known = Inr out))"
proof (intro conjI impI allI)
  have fresh: "\<forall>t \<in> set tools. ts_name t \<noteq> TOOL_ORDER_REST"
    using assms(2) by (auto simp: orderTools_def find_None_iff split: if_splits)
  have none: "out = sortTools tools" if "names = None"
    using that assms(2) by (auto simp: orderTools_def split: if_splits)
  have some: "distinct ns" "TOOL_ORDER_REST \<in> set ns" "out = concat (map (toolsAt tools ns) ns)" if "names = Some ns" for ns
    using assms(1) orderTools_listed [of tools ns known out] assms(2)
    unfolding that by (simp_all add: validateToolOrder_Some)
  show "mset out = mset tools"
  proof (cases names)
    case (Some ns)
    then show ?thesis using ordered_mset [OF some(1,2) fresh] some(3) by (simp add: toolsAt_def [abs_def])
  qed (simp add: none sortTools_def)
  show "sorted_wrt (toolsOrdered names) (map ts_name out)"
  proof (cases names)
    case (Some ns)
    then show ?thesis using ordered_places [OF some(1)] some(3) by (simp add: sorted_wrt_map)
  next
    case None
    then have "sorted (map ts_name out)" by (simp add: none sortTools_def)
    then show ?thesis
      by (rule sorted_wrt_mono_rel [rotated]) (simp add: None toolsOrdered_def toolPlace_def)
  qed
  show "filter (\<lambda>t. ts_name t = k) out = filter (\<lambda>t. ts_name t = k) tools" for k
  proof (cases names)
    case (Some ns)
    then show ?thesis using ordered_stable [OF some(1,2) fresh] some(3) by simp
  qed (simp add: none filter_sortTools)
  show "orderTools tools' names known = Inr out" if "distinct (map ts_name tools)" "mset tools' = mset tools" for tools'
    using orderTools_cong [OF that(2,1)] assms(2) by simp
qed

definition sample_schema :: "string \<Rightarrow> tool_schema" where
  "sample_schema n = \<lparr>ts_name = n, ts_description = '''', ts_parameters = JObj []\<rparr>"

theorem tool_order_canonical_witness:
  "orderTools (map sample_schema [''write'', ''bash'', ''read'', ''glob'']) (Some [''write'', TOOL_ORDER_REST, ''bash''])
       [''bash'', ''read'', ''glob'', ''write''] = Inr (map sample_schema [''write'', ''glob'', ''read'', ''bash''])"
proof -
  let ?names = "Some [''write'', TOOL_ORDER_REST, ''bash'']"
  have v: "validateToolOrder ?names = Inr ?names"
    by (simp add: validateToolOrder_def TOOL_ORDER_REST_def)
  have o: "orderTools (map sample_schema [''read'', ''bash'', ''write'', ''glob'']) ?names
      [''bash'', ''read'', ''glob'', ''write''] = Inr (map sample_schema [''write'', ''glob'', ''read'', ''bash''])"
    by code_simp
  have "mset (map sample_schema [''write'', ''bash'', ''read'', ''glob''])
      = mset (map sample_schema [''read'', ''bash'', ''write'', ''glob''])"
    by (simp add: ac_simps)
  moreover have "distinct (map ts_name (map sample_schema [''read'', ''bash'', ''write'', ''glob'']))"
    by (simp add: sample_schema_def)
  ultimately show ?thesis using tool_order_canonical [OF v o] by blast
qed

end
