(* ===== verification/Scope_Layers.thy ===== *)
theory Scope_Layers
  imports Scope_Store
begin

text \<open>
  The rest of \<^verbatim>\<open>packages/core/scope/src/store.ts\<close>: anonymous entries and \<open>ScopedLayers\<close>, the
  global layer and the exact-scope layers of one registry. Layers are objects with identity,
  numbered with the global layer first; an effect keeps the number of the layer it wrote to, which
  its disposer uses although the scope may have another layer by then.
\<close>

section \<open>Anonymous entries\<close>

text \<open>The fresh symbol of an entry is the numeral of how many entries were appended before it.\<close>

definition appendEntry :: "'v named_entries \<Rightarrow> 'v \<Rightarrow> scope_error + ('v named_entries \<times> nat)" where
  "appendEntry t v = insertEntry t (natStr (length (ne_undos t))) v"

definition valuesOf :: "'v named_entries \<Rightarrow> 'v list" where
  "valuesOf t = map snd (entriesOf t)"

definition noEntries :: "'v named_entries \<Rightarrow> bool" where
  "noEntries t \<longleftrightarrow> entriesOf t = []"

section \<open>Layers of a registry\<close>

record 'l scoped_layers =
  sl_objects :: "nat \<Rightarrow> 'l"
  sl_next :: nat
  sl_scoped :: "nat \<rightharpoonup> nat"
  sl_changes :: nat

text \<open>What an effect keeps for its disposer: the scope, the layer object and the undo.\<close>

record 'l layer_effect =
  le_scope :: "nat option"
  le_object :: nat
  le_undo :: "'l \<Rightarrow> 'l"

definition newLayers :: "'l \<Rightarrow> 'l scoped_layers" where
  "newLayers fresh =
     \<lparr>sl_objects = (\<lambda>_. fresh), sl_next = 1, sl_scoped = Map.empty, sl_changes = 0\<rparr>"

definition globalLayer :: "'l scoped_layers \<Rightarrow> 'l" where
  "globalLayer L = sl_objects L 0"

definition peek :: "'l scoped_layers \<Rightarrow> nat option \<Rightarrow> 'l option" where
  "peek L scope = (case scope of None \<Rightarrow> None | Some k \<Rightarrow> map_option (sl_objects L) (sl_scoped L k))"

definition chainOf :: "scope_parents \<Rightarrow> 'l scoped_layers \<Rightarrow> nat option \<Rightarrow> 'l list option" where
  "chainOf p L scope =
     map_option (\<lambda>ks. List.map_filter (\<lambda>k. map_option (sl_objects L) (sl_scoped L k)) (rev ks))
       (scopeChainOf p scope)"

definition mergeNamed ::
  "scope_parents \<Rightarrow> 'l scoped_layers \<Rightarrow> nat option \<Rightarrow> ('l \<Rightarrow> 'v named_entries) \<Rightarrow> (string, 'v) omap option"
where
  "mergeNamed p L scope pick =
     map_option (\<lambda>layers. foldl overlay (entriesOf (pick (globalLayer L))) (map (\<lambda>l. entriesOf (pick l)) layers))
       (chainOf p L scope)"

text \<open>
  \<^verbatim>\<open>effect\<close>: a layer is made when the scope has none, and dropped again when the action throws.
  The action gives the layer and the undo of its insertion.
\<close>

definition layerFor ::
  "'l \<Rightarrow> 'l scoped_layers \<Rightarrow> nat option \<Rightarrow> 'l scoped_layers \<times> nat \<times> bool" where
  "layerFor fresh L scope =
     (case scope of
        None \<Rightarrow> (L, 0, False)
      | Some k \<Rightarrow>
          (case sl_scoped L k of
             Some n \<Rightarrow> (L, n, False)
           | None \<Rightarrow>
               (L\<lparr>sl_objects := (sl_objects L)(sl_next L := fresh), sl_next := Suc (sl_next L),
                  sl_scoped := (sl_scoped L)(k \<mapsto> sl_next L)\<rparr>, sl_next L, True)))"

definition dropScope :: "'l scoped_layers \<Rightarrow> nat option \<Rightarrow> 'l scoped_layers" where
  "dropScope L scope =
     (case scope of None \<Rightarrow> L | Some k \<Rightarrow> L\<lparr>sl_scoped := (sl_scoped L)(k := None)\<rparr>)"

definition notifyChange :: "bool \<Rightarrow> 'l scoped_layers \<Rightarrow> 'l scoped_layers" where
  "notifyChange notify L = (if notify then L\<lparr>sl_changes := Suc (sl_changes L)\<rparr> else L)"

definition effect ::
  "('l \<Rightarrow> bool) \<Rightarrow> 'l \<Rightarrow> bool \<Rightarrow> 'l scoped_layers \<Rightarrow> nat option \<Rightarrow> ('l \<Rightarrow> 'e + ('l \<times> ('l \<Rightarrow> 'l)))
    \<Rightarrow> 'l scoped_layers \<times> ('e + 'l layer_effect)" where
  "effect isEmpty fresh notify L scope act =
     (case layerFor fresh L scope of
        (L1, n, created) \<Rightarrow>
          (case act (sl_objects L1 n) of
             Inl err \<Rightarrow>
               (if scope \<noteq> None \<and> created \<and> isEmpty (sl_objects L1 n) then dropScope L1 scope else L1, Inl err)
           | Inr (l, undo) \<Rightarrow>
               (notifyChange notify (L1\<lparr>sl_objects := (sl_objects L1)(n := l)\<rparr>),
                Inr \<lparr>le_scope = scope, le_object = n, le_undo = undo\<rparr>)))"

definition disposeEffect ::
  "('l \<Rightarrow> bool) \<Rightarrow> bool \<Rightarrow> 'l scoped_layers \<Rightarrow> 'l layer_effect \<Rightarrow> 'l scoped_layers" where
  "disposeEffect isEmpty notify L eff =
     (let l = le_undo eff (sl_objects L (le_object eff));
          L1 = L\<lparr>sl_objects := (sl_objects L)(le_object eff := l)\<rparr>
      in notifyChange notify
           (if le_scope eff \<noteq> None \<and> isEmpty l then dropScope L1 (le_scope eff) else L1))"

section \<open>A property of every table of a registry\<close>

text \<open>
  \<open>entriesOK P m\<close>: the names of a map are distinct and every entry has \<open>P\<close>; \<open>tableOK P t\<close> says
  so of every generation of a table.
\<close>

definition entriesOK :: "(string \<Rightarrow> 'v \<Rightarrow> bool) \<Rightarrow> (string, 'v) omap \<Rightarrow> bool" where
  "entriesOK P m \<longleftrightarrow> distinct (map fst m) \<and> (\<forall>e \<in> set m. P (fst e) (snd e))"

definition tableOK :: "(string \<Rightarrow> 'v \<Rightarrow> bool) \<Rightarrow> 'v named_entries \<Rightarrow> bool" where
  "tableOK P t \<longleftrightarrow> (\<forall>d. entriesOK P (ne_maps t d))"

lemma set_mapSet: "set (mapSet m k v) \<subseteq> insert (k, v) (set m)"
proof (induction m)
  case (Cons e m)
  then show ?case by (cases e) auto
qed simp

lemma entriesOK_mapSet: "entriesOK P m \<Longrightarrow> P k v \<Longrightarrow> entriesOK P (mapSet m k v)"
  using set_mapSet [of m k v] by (fastforce simp: entriesOK_def distinct_mapSet)

lemma entriesOK_mapDelete: "entriesOK P m \<Longrightarrow> entriesOK P (mapDelete m k)"
  by (simp add: entriesOK_def distinct_mapDelete) (simp add: mapDelete_def)

lemma entriesOK_Nil [simp]: "entriesOK P []"
  by (simp add: entriesOK_def)

lemma tableOK_empty [simp]: "tableOK P emptyEntries"
  by (simp add: tableOK_def emptyEntries_def)

lemma tableOK_insert:
  "tableOK P t \<Longrightarrow> insertEntry t name v = Inr (t', i) \<Longrightarrow> P name v \<Longrightarrow> tableOK P t'"
  by (auto simp: tableOK_def insertEntry_def entriesOf_def entriesOK_mapSet split: if_splits)

lemma tableOK_undo: "tableOK P t \<Longrightarrow> tableOK P (undoEntry t i)"
  using entriesOK_mapDelete
  by (auto simp: tableOK_def undoEntry_def Let_def split: prod.split)

lemma tableOK_entries: "tableOK P t \<Longrightarrow> entriesOK P (entriesOf t)"
  by (simp add: tableOK_def entriesOf_def)

lemma overlay_OK:
  "entriesOK P m \<Longrightarrow> \<forall>e \<in> set t. P (fst e) (snd e) \<Longrightarrow> entriesOK P (overlay m t)"
  by (induction t arbitrary: m) (auto simp: overlay_def entriesOK_mapSet)

lemma mergeNamed_OK:
  assumes "mergeNamed p L scope pick = Some m" and "\<forall>n. tableOK P (pick (sl_objects L n))"
  shows "entriesOK P m"
proof -
  obtain layers where l: "chainOf p L scope = Some layers"
      and m: "m = foldl overlay (entriesOf (pick (globalLayer L))) (map (\<lambda>l. entriesOf (pick l)) layers)"
    using assms(1) by (auto simp: mergeNamed_def)
  have "\<forall>l \<in> set layers. tableOK P (pick l)"
    using l assms(2) by (auto simp: chainOf_def List.map_filter_def)
  then have ok: "\<forall>l \<in> set layers. \<forall>e \<in> set (entriesOf (pick l)). P (fst e) (snd e)"
    using tableOK_entries [of P] by (fastforce simp: entriesOK_def)
  have "entriesOK P (foldl overlay m0 (map (\<lambda>l. entriesOf (pick l)) ls))"
    if "entriesOK P m0" "\<forall>l \<in> set ls. \<forall>e \<in> set (entriesOf (pick l)). P (fst e) (snd e)" for m0 ls
    using that by (induction ls arbitrary: m0) (simp_all add: overlay_OK)
  moreover have "entriesOK P (entriesOf (pick (globalLayer L)))"
    by (rule tableOK_entries) (simp add: assms(2) globalLayer_def)
  ultimately show ?thesis using m ok by blast
qed

end
