(* ===== verification/System_Prompt.thy ===== *)
theory System_Prompt
  imports Prompt_Facts Scope_Layers
begin

text \<open>
  The service \<open>SystemPrompt\<close> of \<^verbatim>\<open>packages/core/system-prompt/src/index.ts\<close>: registrations in
  layers and \<open>assemble\<close>, with the companion of \<^verbatim>\<open>invariant.ts\<close> that checks what an assembly
  looks like. A provider is a function of the context of the assembly that may throw; a static
  text is a constant one. The context type is a parameter.
\<close>

section \<open>Registrations\<close>

record 'c prompt_part =
  pp_name :: string
  pp_order :: js_number
  pp_text :: "'c \<Rightarrow> string + string"

record 'c prompt_section = "'c prompt_part" +
  ps_complete :: bool

text \<open>\<^verbatim>\<open>ToolProviderResult\<close>\<close>

record provided_tools =
  pt_schemas :: "tool_schema list"
  pt_knownNames :: "string list option"

type_synonym 'c tool_provider = "'c \<Rightarrow> string + provided_tools"
type_synonym 'c variable_provider = "'c \<Rightarrow> string + string option"

record 'c prompt_layer =
  ly_sections :: "'c prompt_section named_entries"
  ly_contexts :: "'c prompt_part named_entries"
  ly_suppressors :: "unit named_entries"
  ly_toolProviders :: "'c tool_provider named_entries"
  ly_variables :: "'c variable_provider named_entries"

definition emptyLayer :: "'c prompt_layer" where
  "emptyLayer =
     \<lparr>ly_sections = emptyEntries, ly_contexts = emptyEntries, ly_suppressors = emptyEntries,
      ly_toolProviders = emptyEntries, ly_variables = emptyEntries\<rparr>"

definition layerEmpty :: "'c prompt_layer \<Rightarrow> bool" where
  "layerEmpty l \<longleftrightarrow>
     noEntries (ly_sections l) \<and> noEntries (ly_contexts l) \<and> noEntries (ly_suppressors l)
     \<and> noEntries (ly_toolProviders l) \<and> noEntries (ly_variables l)"

datatype registration_error = InvalidEntry prompt_error | TakenEntry scope_error

text \<open>The insertions into a layer, each with its undo.\<close>

definition insertSection ::
  "'c prompt_section \<Rightarrow> 'c prompt_layer \<Rightarrow> registration_error + ('c prompt_layer \<times> ('c prompt_layer \<Rightarrow> 'c prompt_layer))"
where
  "insertSection s l =
     mapErr TakenEntry
       (mapR (\<lambda>(t, i). (l\<lparr>ly_sections := t\<rparr>, \<lambda>l. l\<lparr>ly_sections := undoEntry (ly_sections l) i\<rparr>))
         (insertEntry (ly_sections l) (pp_name s) s))"

definition insertContext ::
  "'c prompt_part \<Rightarrow> 'c prompt_layer \<Rightarrow> registration_error + ('c prompt_layer \<times> ('c prompt_layer \<Rightarrow> 'c prompt_layer))"
where
  "insertContext c l =
     mapErr TakenEntry
       (mapR (\<lambda>(t, i). (l\<lparr>ly_contexts := t\<rparr>, \<lambda>l. l\<lparr>ly_contexts := undoEntry (ly_contexts l) i\<rparr>))
         (insertEntry (ly_contexts l) (pp_name c) c))"

definition insertSuppressor ::
  "'c prompt_layer \<Rightarrow> registration_error + ('c prompt_layer \<times> ('c prompt_layer \<Rightarrow> 'c prompt_layer))"
where
  "insertSuppressor l =
     mapErr TakenEntry
       (mapR (\<lambda>(t, i). (l\<lparr>ly_suppressors := t\<rparr>, \<lambda>l. l\<lparr>ly_suppressors := undoEntry (ly_suppressors l) i\<rparr>))
         (appendEntry (ly_suppressors l) ()))"

definition insertTools ::
  "'c tool_provider \<Rightarrow> 'c prompt_layer \<Rightarrow> registration_error + ('c prompt_layer \<times> ('c prompt_layer \<Rightarrow> 'c prompt_layer))"
where
  "insertTools provider l =
     mapErr TakenEntry
       (mapR (\<lambda>(t, i). (l\<lparr>ly_toolProviders := t\<rparr>, \<lambda>l. l\<lparr>ly_toolProviders := undoEntry (ly_toolProviders l) i\<rparr>))
         (appendEntry (ly_toolProviders l) provider))"

definition insertVariable ::
  "string \<Rightarrow> 'c variable_provider \<Rightarrow> 'c prompt_layer
    \<Rightarrow> registration_error + ('c prompt_layer \<times> ('c prompt_layer \<Rightarrow> 'c prompt_layer))" where
  "insertVariable name provider l =
     mapErr TakenEntry
       (mapR (\<lambda>(t, i). (l\<lparr>ly_variables := t\<rparr>, \<lambda>l. l\<lparr>ly_variables := undoEntry (ly_variables l) i\<rparr>))
         (insertEntry (ly_variables l) name provider))"

section \<open>The service\<close>

record 'c system_prompt =
  sp_layers :: "'c prompt_layer scoped_layers"
  sp_toolOrder :: "string list option"

fun finiteOrder :: "js_number \<Rightarrow> bool" where
  "finiteOrder (Finite _) = True"
| "finiteOrder NegZero = True"
| "finiteOrder _ = False"

definition register ::
  "'c system_prompt \<Rightarrow> nat option
    \<Rightarrow> ('c prompt_layer \<Rightarrow> registration_error + ('c prompt_layer \<times> ('c prompt_layer \<Rightarrow> 'c prompt_layer)))
    \<Rightarrow> 'c system_prompt \<times> (registration_error + 'c prompt_layer layer_effect)" where
  "register P scope act =
     (case effect layerEmpty emptyLayer True (sp_layers P) scope act of
        (L, r) \<Rightarrow> (P\<lparr>sp_layers := L\<rparr>, r))"

definition registerSection ::
  "'c system_prompt \<Rightarrow> nat option \<Rightarrow> 'c prompt_section
    \<Rightarrow> 'c system_prompt \<times> (registration_error + 'c prompt_layer layer_effect)" where
  "registerSection P scope s =
     (if \<not> finiteOrder (pp_order s) then (P, Inl (InvalidEntry (UnboundedOrder (pp_name s))))
      else register P scope (insertSection s))"

definition registerContext ::
  "'c system_prompt \<Rightarrow> nat option \<Rightarrow> 'c prompt_part
    \<Rightarrow> 'c system_prompt \<times> (registration_error + 'c prompt_layer layer_effect)" where
  "registerContext P scope c =
     (if \<not> finiteOrder (pp_order c) then (P, Inl (InvalidEntry (UnboundedOrder (pp_name c))))
      else register P scope (insertContext c))"

definition suppressRuntimeContext ::
  "'c system_prompt \<Rightarrow> nat option \<Rightarrow> 'c system_prompt \<times> (registration_error + 'c prompt_layer layer_effect)"
where
  "suppressRuntimeContext P scope = register P scope insertSuppressor"

definition registerTools ::
  "'c system_prompt \<Rightarrow> nat option \<Rightarrow> 'c tool_provider
    \<Rightarrow> 'c system_prompt \<times> (registration_error + 'c prompt_layer layer_effect)" where
  "registerTools P scope provider = register P scope (insertTools provider)"

definition registerVariable ::
  "'c system_prompt \<Rightarrow> nat option \<Rightarrow> string \<Rightarrow> 'c variable_provider
    \<Rightarrow> 'c system_prompt \<times> (registration_error + 'c prompt_layer layer_effect)" where
  "registerVariable P scope name provider =
     (if \<not> variableName name then (P, Inl (InvalidEntry (InvalidVariable name)))
      else register P scope (insertVariable name provider))"

definition unregister :: "'c system_prompt \<Rightarrow> 'c prompt_layer layer_effect \<Rightarrow> 'c system_prompt" where
  "unregister P eff = P\<lparr>sp_layers := disposeEffect layerEmpty True (sp_layers P) eff\<rparr>"

text \<open>The constructor; the defaults of the configuration are filled in.\<close>

record prompt_config =
  pc_includeHarnessIdentity :: bool
  pc_includeRuntimeContext :: bool
  pc_persona :: string
  pc_toolOrder :: "string list option"

definition staticSection :: "string \<Rightarrow> rat \<Rightarrow> string \<Rightarrow> 'c prompt_section" where
  "staticSection name order t =
     \<lparr>pp_name = name, pp_order = Finite order, pp_text = (\<lambda>_. Inr t), ps_complete = False\<rparr>"

definition PERSONA_SECTION :: string where
  "PERSONA_SECTION = ''deployment:persona''"

definition newSystemPrompt :: "prompt_config \<Rightarrow> prompt_error + 'c system_prompt" where
  "newSystemPrompt cfg =
     mapR (\<lambda>order.
       let P = \<lparr>sp_layers = newLayers emptyLayer, sp_toolOrder = order\<rparr>;
           P = (if pc_includeHarnessIdentity cfg
                then fst (registerSection P None
                       (staticSection ''harness:identity'' (-100) ''You are an AI agent powered by DeepSeek Harness.''))
                else P);
           P = fst (registerSection P None (staticSection PERSONA_SECTION 0 (pc_persona cfg)))
       in if pc_includeRuntimeContext cfg then P else fst (suppressRuntimeContext P None))
       (validateToolOrder (pc_toolOrder cfg))"

section \<open>Assembly\<close>

definition orderValue :: "'c prompt_part \<Rightarrow> rat" where
  "orderValue s = (case pp_order s of Finite r \<Rightarrow> r | _ \<Rightarrow> 0)"

definition sectionPart :: "'c prompt_section \<Rightarrow> 'c prompt_part" where
  "sectionPart s = \<lparr>pp_name = pp_name s, pp_order = pp_order s, pp_text = pp_text s\<rparr>"

definition evaluatePart :: "'c \<Rightarrow> 'c prompt_part \<Rightarrow> prompt_error + assembled_part" where
  "evaluatePart c s =
     mapErr ProviderFailed (mapR (\<lambda>t. \<lparr>ap_name = pp_name s, ap_text = t\<rparr>) (pp_text s c))"

fun evaluateVariables ::
  "'c \<Rightarrow> prompt_variables \<Rightarrow> (string \<times> 'c variable_provider) list \<Rightarrow> prompt_error + prompt_variables" where
  "evaluateVariables c vars [] = Inr vars"
| "evaluateVariables c vars ((name, provider) # rest) =
     bindR (mapErr ProviderFailed (provider c)) (\<lambda>v. evaluateVariables c (mapSet vars name v) rest)"

fun collectTools ::
  "'c \<Rightarrow> tool_schema list \<Rightarrow> string list \<Rightarrow> 'c tool_provider list
    \<Rightarrow> prompt_error + (tool_schema list \<times> string list)" where
  "collectTools c collected known [] = Inr (collected, known)"
| "collectTools c collected known (provider # rest) =
     bindR (mapErr ProviderFailed (provider c)) (\<lambda>r.
       collectTools c (collected @ pt_schemas r)
         (known @ (case pt_knownNames r of None \<Rightarrow> map ts_name (pt_schemas r) | Some ns \<Rightarrow> ns)) rest)"

text \<open>
  \<^verbatim>\<open>assemble\<close>: \<open>None\<close> when a scope walk does not end; \<open>transform\<close> is the waterfall, which receives
  the assembly and may give another one. What is complete or suppressed is restored after it.
\<close>

definition assemblePrompt ::
  "scope_parents \<Rightarrow> 'c system_prompt \<Rightarrow> nat option \<Rightarrow> 'c
    \<Rightarrow> (prompt_assembly \<Rightarrow> prompt_error + prompt_assembly) \<Rightarrow> (prompt_error + prompt_assembly) option" where
  "assemblePrompt p P scope c transform =
     (let L = sp_layers P
      in Option.bind (chainOf p L scope) (\<lambda>layers.
         Option.bind (mergeNamed p L scope ly_sections) (\<lambda>sectionByName.
         Option.bind (mergeNamed p L scope ly_contexts) (\<lambda>contextByName.
         let suppressed = (list_ex (\<lambda>l. \<not> noEntries (ly_suppressors l)) (globalLayer L # layers));
             definitions = sort_key (\<lambda>s. orderValue (sectionPart s)) (map snd sectionByName);
             complete = filter ps_complete definitions
         in Some (
           bindR (evaluateVariables c [] (concat (map (\<lambda>l. entriesOf (ly_variables l)) (globalLayer L # layers)))) (\<lambda>variables.
           bindR (collectTools c [] [] (concat (map (\<lambda>l. valuesOf (ly_toolProviders l)) (globalLayer L # layers))))
             (\<lambda>(collected, known).
           if length complete > 1 then Inl (MultipleComplete (map pp_name complete))
           else
             bindR (mapM (\<lambda>s. evaluatePart c (sectionPart s)) definitions) (\<lambda>sections.
             bindR (if suppressed then Inr []
                    else mapM (evaluatePart c) (sort_key orderValue (map snd contextByName))) (\<lambda>contexts.
             bindR (orderTools collected (sp_toolOrder P) known) (\<lambda>tools.
             mapR (\<lambda>transformed.
                 transformed\<lparr>
                   pa_sections :=
                     (if complete = [] then pa_sections transformed
                      else map snd (filter (\<lambda>(s, part). ps_complete s) (zip definitions sections))),
                   pa_contexts := (if suppressed then [] else pa_contexts transformed)\<rparr>)
               (transform \<lparr>pa_sections = sections, pa_contexts = contexts, pa_tools = tools,
                           pa_variables = variables\<rparr>)))))))))))"

section \<open>The companion\<close>

datatype assembly_fault =
    EmptySectionName
  | DuplicateSection string
  | EmptyContextName
  | DuplicateContext string
  | EmptyToolName
  | BadVariableName string

fun checkNames ::
  "assembly_fault \<Rightarrow> (string \<Rightarrow> assembly_fault) \<Rightarrow> string set \<Rightarrow> assembled_part list \<Rightarrow> assembly_fault + unit" where
  "checkNames none dup seen [] = Inr ()"
| "checkNames none dup seen (s # ss) =
     (if length (ap_name s) = 0 then Inl none
      else if ap_name s \<in> seen then Inl (dup (ap_name s))
      else checkNames none dup (insert (ap_name s) seen) ss)"

definition validateAssembly :: "prompt_assembly \<Rightarrow> assembly_fault + unit" where
  "validateAssembly a =
     bindR (checkNames EmptySectionName DuplicateSection {} (pa_sections a)) (\<lambda>_.
     bindR (checkNames EmptyContextName DuplicateContext {} (pa_contexts a)) (\<lambda>_.
     if list_ex (\<lambda>t. length (ts_name t) = 0) (pa_tools a) then Inl EmptyToolName
     else case find (\<lambda>v. \<not> variableName (fst v)) (pa_variables a) of
            Some v \<Rightarrow> Inl (BadVariableName (fst v))
          | None \<Rightarrow> Inr ()))"

end
