(* ===== verification/Prompt_Assembly.thy ===== *)
theory Prompt_Assembly
  imports System_Prompt
begin

text \<open>
  What the registry of \<open>System_Prompt\<close> builds passes the companion that checks assemblies, whatever
  was registered and disposed in whatever order.
\<close>

section \<open>The registries a program can build\<close>

inductive prompt_reach :: "'c system_prompt \<Rightarrow> 'c prompt_layer layer_effect list \<Rightarrow> bool" where
  created: "newSystemPrompt cfg = Inr P \<Longrightarrow> prompt_reach P []"
| sectioned: "prompt_reach P effs \<Longrightarrow> registerSection P scope s = (P', r)
    \<Longrightarrow> prompt_reach P' (case r of Inl _ \<Rightarrow> effs | Inr e \<Rightarrow> e # effs)"
| contextual: "prompt_reach P effs \<Longrightarrow> registerContext P scope k = (P', r)
    \<Longrightarrow> prompt_reach P' (case r of Inl _ \<Rightarrow> effs | Inr e \<Rightarrow> e # effs)"
| suppressed: "prompt_reach P effs \<Longrightarrow> suppressRuntimeContext P scope = (P', r)
    \<Longrightarrow> prompt_reach P' (case r of Inl _ \<Rightarrow> effs | Inr e \<Rightarrow> e # effs)"
| tools: "prompt_reach P effs \<Longrightarrow> registerTools P scope provider = (P', r)
    \<Longrightarrow> prompt_reach P' (case r of Inl _ \<Rightarrow> effs | Inr e \<Rightarrow> e # effs)"
| variable: "prompt_reach P effs \<Longrightarrow> registerVariable P scope name value = (P', r)
    \<Longrightarrow> prompt_reach P' (case r of Inl _ \<Rightarrow> effs | Inr e \<Rightarrow> e # effs)"
| disposed: "prompt_reach P effs \<Longrightarrow> e \<in> set effs \<Longrightarrow> prompt_reach (unregister P e) effs"

definition layerOK :: "'c prompt_layer \<Rightarrow> bool" where
  "layerOK l \<longleftrightarrow>
     tableOK (\<lambda>k s. k = pp_name s) (ly_sections l) \<and> tableOK (\<lambda>k s. k = pp_name s) (ly_contexts l)
     \<and> tableOK (\<lambda>k _. variableName k) (ly_variables l)"

definition keepsOK :: "('c prompt_layer \<Rightarrow> 'c prompt_layer) \<Rightarrow> bool" where
  "keepsOK f \<longleftrightarrow> (\<forall>l. layerOK l \<longrightarrow> layerOK (f l))"

text \<open>An action on a layer that keeps it well formed and whose undo does.\<close>

definition goodAction ::
  "('c prompt_layer \<Rightarrow> registration_error + ('c prompt_layer \<times> ('c prompt_layer \<Rightarrow> 'c prompt_layer))) \<Rightarrow> bool"
where
  "goodAction act \<longleftrightarrow>
     (\<forall>l l' undo. layerOK l \<longrightarrow> act l = Inr (l', undo) \<longrightarrow> layerOK l' \<and> keepsOK undo)"

lemma emptyLayer_OK: "layerOK emptyLayer"
  by (simp add: layerOK_def emptyLayer_def)

lemma goodActions:
  "goodAction (insertSection s)" "goodAction (insertContext k)" "goodAction insertSuppressor"
  "goodAction (insertTools provider)" "variableName name \<Longrightarrow> goodAction (insertVariable name value)"
  by (auto simp: goodAction_def insertSection_def insertContext_def insertSuppressor_def insertTools_def
      insertVariable_def result_simps layerOK_def keepsOK_def tableOK_insert tableOK_undo)

definition promptInv :: "'c system_prompt \<Rightarrow> bool" where
  "promptInv P \<longleftrightarrow> (\<forall>n. layerOK (sl_objects (sp_layers P) n))"

lemma register_inv:
  assumes "promptInv P" and "goodAction act" and "register P scope act = (P', r)"
  shows "promptInv P' \<and> (\<forall>e. r = Inr e \<longrightarrow> keepsOK (le_undo e))"
proof -
  obtain L n created where f: "layerFor emptyLayer (sp_layers P) scope = (L, n, created)"
    by (cases "layerFor emptyLayer (sp_layers P) scope")
  have ok: "\<forall>n. layerOK (sl_objects L n)"
    using f assms(1) emptyLayer_OK
    by (auto simp: layerFor_def promptInv_def split: option.splits)
  show ?thesis
  proof (cases "act (sl_objects L n)")
    case (Inl err)
    then show ?thesis
      using assms(3) ok by (auto simp: register_def effect_def f promptInv_def dropScope_def split: option.split)
  next
    case (Inr x)
    obtain l undo where x: "x = (l, undo)" by (cases x)
    have "layerOK l" "keepsOK undo" using assms(2) ok Inr x unfolding goodAction_def by blast+
    then show ?thesis
      using assms(3) ok Inr x by (auto simp: register_def effect_def f promptInv_def notifyChange_def)
  qed
qed

lemma registerSection_inv: "promptInv P \<Longrightarrow> promptInv (fst (registerSection P scope s))"
  using register_inv [of P "insertSection s" scope] goodActions(1) [of s]
  by (cases "register P scope (insertSection s)") (auto simp: registerSection_def)

lemma suppressRuntimeContext_inv: "promptInv P \<Longrightarrow> promptInv (fst (suppressRuntimeContext P scope))"
  using register_inv [of P insertSuppressor scope] goodActions(3)
  by (cases "register P scope insertSuppressor") (auto simp: suppressRuntimeContext_def)

lemma fresh_inv: "promptInv \<lparr>sp_layers = newLayers emptyLayer, sp_toolOrder = order\<rparr>"
  by (simp add: promptInv_def newLayers_def emptyLayer_OK)

lemma newSystemPrompt_inv: "newSystemPrompt cfg = Inr P \<Longrightarrow> promptInv P"
  by (auto simp: newSystemPrompt_def Let_def result_simps intro!: registerSection_inv suppressRuntimeContext_inv fresh_inv)

lemma prompt_reach_inv: "prompt_reach P effs \<Longrightarrow> promptInv P \<and> (\<forall>e \<in> set effs. keepsOK (le_undo e))"
proof (induction rule: prompt_reach.induct)
  case (created cfg P)
  then show ?case using newSystemPrompt_inv by simp
next
  case (sectioned P effs scope s P' r)
  then show ?case
    using register_inv [OF _ goodActions(1) [of s], of P scope P' r]
    by (auto simp: registerSection_def split: sum.split if_splits)
next
  case (contextual P effs scope k P' r)
  then show ?case
    using register_inv [OF _ goodActions(2) [of k], of P scope P' r]
    by (auto simp: registerContext_def split: sum.split if_splits)
next
  case (suppressed P effs scope P' r)
  then show ?case
    using register_inv [OF _ goodActions(3), of P scope P' r]
    by (auto simp: suppressRuntimeContext_def split: sum.split)
next
  case (tools P effs scope provider P' r)
  then show ?case
    using register_inv [OF _ goodActions(4) [of provider], of P scope P' r]
    by (auto simp: registerTools_def split: sum.split)
next
  case (variable P effs scope name val P' r)
  then show ?case
    using register_inv [OF _ goodActions(5) [of name val], of P scope P' r]
    by (auto simp: registerVariable_def split: sum.split if_splits)
next
  case (disposed P effs e)
  then show ?case
    by (auto simp: unregister_def promptInv_def keepsOK_def disposeEffect_def Let_def dropScope_def notifyChange_def
        split: option.split)
qed

section \<open>What an assembly looks like\<close>

lemma checkNames_OK:
  "distinct (map ap_name ss) \<Longrightarrow> seen \<inter> ap_name ` set ss = {} \<Longrightarrow> '''' \<notin> ap_name ` set ss
    \<Longrightarrow> checkNames none dup seen ss = Inr ()"
  by (induction ss arbitrary: seen) auto

lemma evaluateVariables_names:
  "evaluateVariables c vars ps = Inr vars' \<Longrightarrow> \<forall>v \<in> set ps. variableName (fst v)
    \<Longrightarrow> \<forall>v \<in> set vars. variableName (fst v) \<Longrightarrow> \<forall>v \<in> set vars'. variableName (fst v)"
proof (induction c vars ps arbitrary: vars' rule: evaluateVariables.induct)
  case (2 c vars name provider rest)
  obtain x where x: "provider c = Inr x" "evaluateVariables c (mapSet vars name x) rest = Inr vars'"
    using 2(2) by (auto simp: result_simps)
  have "\<forall>v \<in> set (mapSet vars name x). variableName (fst v)"
    using set_mapSet [of vars name x] 2(3,4) by auto
  then show ?case using 2(1) x 2(3) by simp
qed simp

lemma evaluated_names:
  "mapM (\<lambda>s. evaluatePart c (f s)) ps = Inr parts \<Longrightarrow> map ap_name parts = map (\<lambda>s. pp_name (f s)) ps"
  by (induction ps arbitrary: parts) (auto simp: result_simps evaluatePart_def)

lemma named_values:
  "entriesOK (\<lambda>k s. k = pp_name s) m \<Longrightarrow> map pp_name (map snd m) = map fst m"
  by (auto simp: entriesOK_def)

lemma sorted_names_distinct:
  "distinct (map f xs) \<Longrightarrow> distinct (map f (sort_key g xs))"
  using mset_eq_imp_distinct_iff [of "map f (sort_key g xs)" "map f xs"] by simp

lemma distinct_zip_filter:
  assumes "distinct (map f ys)" and "length xs = length ys"
  shows "distinct (map f (map snd (filter P (zip xs ys))))"
  using assms(2,1)
proof (induction xs ys rule: list_induct2)
  case (Cons x xs y ys)
  have "snd ` set (filter P (zip xs ys)) \<subseteq> set ys" by (auto dest: set_zip_rightD)
  then show ?case using Cons by auto
qed simp

lemma chain_objects: "chainOf p L scope = Some layers \<Longrightarrow> l \<in> set layers \<Longrightarrow> \<exists>n. l = sl_objects L n"
proof -
  assume "chainOf p L scope = Some layers" "l \<in> set layers"
  then obtain k n where "sl_scoped L k = Some n" "l = sl_objects L n"
    by (auto simp: chainOf_def List.map_filter_def)
  then show ?thesis by blast
qed

text \<open>
  Result: the assembly the registry builds, when no listener changes it, passes the companion,
  unless a section, a context or a tool was registered with the empty name. It holds for every
  sequence of registrations and disposals in every nesting of scopes.
\<close>

theorem built_assembly_valid:
  assumes "prompt_reach P effs" and "assemblePrompt p P scope c Inr = Some (Inr a)"
    and "'''' \<notin> ap_name ` set (pa_sections a @ pa_contexts a)" and "'''' \<notin> ts_name ` set (pa_tools a)"
  shows "validateAssembly a = Inr ()"
proof -
  let ?L = "sp_layers P"
  have ok: "\<forall>n. layerOK (sl_objects ?L n)"
    using prompt_reach_inv [OF assms(1)] by (simp add: promptInv_def)
  obtain layers ss cs where l: "chainOf p ?L scope = Some layers"
      and ss: "mergeNamed p ?L scope ly_sections = Some ss" and cs: "mergeNamed p ?L scope ly_contexts = Some cs"
    using assms(2) by (auto simp: assemblePrompt_def Let_def bind_eq_Some_conv)
  let ?defs = "sort_key (\<lambda>s. orderValue (sectionPart s)) (map snd ss)"
  let ?suppressed = "list_ex (\<lambda>l. \<not> noEntries (ly_suppressors l)) (globalLayer ?L # layers)"
  obtain vars sections contexts where
      v: "evaluateVariables c [] (concat (map (\<lambda>l. entriesOf (ly_variables l)) (globalLayer ?L # layers))) = Inr vars"
    and s: "mapM (\<lambda>s. evaluatePart c (sectionPart s)) ?defs = Inr sections"
    and k: "(if ?suppressed then Inr [] else mapM (evaluatePart c) (sort_key orderValue (map snd cs))) = Inr contexts"
    and a: "pa_sections a = (if filter ps_complete ?defs = [] then sections
              else map snd (filter (\<lambda>(s, part). ps_complete s) (zip ?defs sections)))"
      "pa_contexts a = (if ?suppressed then [] else contexts)" "pa_variables a = vars"
    using assms(2) unfolding assemblePrompt_def Let_def l ss cs
    by (auto simp: result_simps split: if_split_asm)
  have e1: "entriesOK (\<lambda>k s. k = pp_name s) ss"
    by (rule mergeNamed_OK [OF ss]) (use ok in \<open>simp add: layerOK_def\<close>)
  have e2: "entriesOK (\<lambda>k s. k = pp_name s) cs"
    by (rule mergeNamed_OK [OF cs]) (use ok in \<open>simp add: layerOK_def\<close>)
  have d: "distinct (map pp_name (map snd ss))" "distinct (map pp_name (map snd cs))"
    unfolding named_values [OF e1] named_values [OF e2] using e1 e2 by (simp_all add: entriesOK_def)
  have names: "map ap_name sections = map pp_name ?defs"
    using evaluated_names [OF s] by (simp add: sectionPart_def)
  have ds: "distinct (map ap_name sections)" "length ?defs = length sections"
    unfolding names by (rule sorted_names_distinct [OF d(1)]) (use arg_cong [OF names, of length] in simp)
  have "distinct (map ap_name (map snd (filter (\<lambda>(s, part). ps_complete s) (zip ?defs sections))))"
    by (rule distinct_zip_filter [OF ds])
  then have sections: "distinct (map ap_name (pa_sections a))" using ds a(1) by simp
  have contexts: "distinct (map ap_name (pa_contexts a))"
    using k a(2) evaluated_names [of c "\<lambda>s. s" "sort_key orderValue (map snd cs)" contexts]
      sorted_names_distinct [OF d(2), of orderValue]
    by (auto split: if_split_asm)
  have "\<forall>v \<in> set (concat (map (\<lambda>l. entriesOf (ly_variables l)) (globalLayer ?L # layers))). variableName (fst v)"
  proof -
    have "\<forall>v \<in> set (entriesOf (ly_variables (sl_objects ?L n))). variableName (fst v)" for n
      using ok tableOK_entries [of "\<lambda>k _. variableName k"] by (auto simp: layerOK_def entriesOK_def)
    then show ?thesis using chain_objects [OF l] by (fastforce simp: globalLayer_def)
  qed
  then have "\<forall>v \<in> set vars. variableName (fst v)"
    using evaluateVariables_names [OF v] by simp
  then have "find (\<lambda>v. \<not> variableName (fst v)) (pa_variables a) = None" by (auto simp: find_None_iff a(3))
  moreover have "checkNames EmptySectionName DuplicateSection {} (pa_sections a) = Inr ()"
      "checkNames EmptyContextName DuplicateContext {} (pa_contexts a) = Inr ()"
    using sections contexts assms(3) by (auto intro: checkNames_OK)
  moreover have "\<not> list_ex (\<lambda>t. length (ts_name t) = 0) (pa_tools a)"
    using assms(4) by (force simp: list_ex_iff)
  ultimately show ?thesis by (simp add: validateAssembly_def)
qed

definition sample_prompt :: "unit system_prompt" where
  "sample_prompt =
     fst (registerSection
       (projr (newSystemPrompt \<lparr>pc_includeHarnessIdentity = True, pc_includeRuntimeContext = True,
          pc_persona = ''Be brief.'', pc_toolOrder = None\<rparr>))
       (Some 1) (staticSection PERSONA_SECTION 0 ''Plan first.''))"

theorem built_assembly_valid_witness:
  "\<exists>a. assemblePrompt Map.empty sample_prompt (Some 1) () Inr = Some (Inr a)
     \<and> map ap_text (pa_sections a) = [''You are an AI agent powered by DeepSeek Harness.'', ''Plan first.'']
     \<and> validateAssembly a = Inr ()"
proof -
  let ?cfg = "\<lparr>pc_includeHarnessIdentity = True, pc_includeRuntimeContext = True,
     pc_persona = ''Be brief.'', pc_toolOrder = None\<rparr>"
  let ?new = "newSystemPrompt ?cfg :: prompt_error + unit system_prompt"
  have "?new = Inr (projr ?new)" by (simp add: newSystemPrompt_def validateToolOrder_def)
  from prompt_reach.sectioned [OF prompt_reach.created [OF this], of "Some 1"
      "staticSection PERSONA_SECTION 0 ''Plan first.''" "sample_prompt"]
  obtain effs where r: "prompt_reach sample_prompt effs"
    unfolding sample_prompt_def by (metis prod.collapse)
  obtain a where a: "assemblePrompt Map.empty sample_prompt (Some 1) () Inr = Some (Inr a)"
      "map ap_text (pa_sections a) = [''You are an AI agent powered by DeepSeek Harness.'', ''Plan first.'']"
      "map ap_name (pa_sections a @ pa_contexts a) = [''harness:identity'', PERSONA_SECTION]" "pa_tools a = []"
  proof -
    have "case assemblePrompt Map.empty sample_prompt (Some 1) () Inr of
        Some (Inr a) \<Rightarrow> map ap_text (pa_sections a) = [''You are an AI agent powered by DeepSeek Harness.'', ''Plan first.'']
          \<and> map ap_name (pa_sections a @ pa_contexts a) = [''harness:identity'', PERSONA_SECTION] \<and> pa_tools a = []
      | _ \<Rightarrow> False" by code_simp
    then show thesis using that by (auto split: option.splits sum.splits)
  qed
  have names: "ap_name ` set (pa_sections a @ pa_contexts a) = set [''harness:identity'', PERSONA_SECTION]"
    unfolding set_map [symmetric] a(3) ..
  have "validateAssembly a = Inr ()"
  proof (rule built_assembly_valid [OF r a(1)])
    show "'''' \<notin> ap_name ` set (pa_sections a @ pa_contexts a)"
      unfolding names by (simp add: PERSONA_SECTION_def)
    show "'''' \<notin> ts_name ` set (pa_tools a)" by (simp add: a(4))
  qed
  with a(1,2) show ?thesis by (intro exI [of _ a] conjI)
qed

end
