(* ===== verification/Runtime_Context.thy ===== *)
theory Runtime_Context
  imports Surface_Facts Prompt_Render
begin

text \<open>
  \<^verbatim>\<open>packages/core/agent-loop/src/runtime-context.ts\<close>: the projection that remembers the last
  runtime-context snapshot the model was given, restored from the log of a session once and then
  kept up to date by the published events. It decides whether the next step needs a new snapshot.
\<close>

definition CONTEXT_SOURCE :: string where
  "CONTEXT_SOURCE = ''@deepseek-ai/dsh-system-prompt''"

definition CLEARED :: string where
  "CLEARED = ''Current runtime context: none. Earlier runtime-context snapshots no longer apply.''"

fun isOwned :: "message \<Rightarrow> bool" where
  "isOwned m = (case msg_source m of PluginSource plugin _ \<Rightarrow> plugin = CONTEXT_SOURCE | _ \<Rightarrow> False)"

fun textOf :: "message \<Rightarrow> string option" where
  "textOf m = (case msg_content m of [TextBlock t] \<Rightarrow> Some t | _ \<Rightarrow> None)"

text \<open>\<^verbatim>\<open>undefined\<close>, \<^verbatim>\<open>null\<close> or the snapshot that is retained.\<close>

datatype retained = NoSnapshot | NoneRetained | Retained nat "string option"

fun retainedText :: "retained \<Rightarrow> string option" where
  "retainedText (Retained _ t) = t"
| "retainedText _ = None"

section \<open>Restore and follow\<close>

text \<open>The loop of the constructor, from the last event down.\<close>

fun restoreScan :: "nat set \<Rightarrow> retained \<Rightarrow> event list \<Rightarrow> retained" where
  "restoreScan surface r [] = r"
| "restoreScan surface r (e # es) =
     (case ev_data e of
        UserMsg m \<Rightarrow>
          if \<not> isOwned m then restoreScan surface r es
          else
            (let r' = (if r = NoSnapshot then NoneRetained else r)
             in if seq e \<in> surface then Retained (seq e) (textOf m) else restoreScan surface r' es)
      | _ \<Rightarrow> restoreScan surface r es)"

definition restoreContext :: "nat list \<Rightarrow> event list \<Rightarrow> retained" where
  "restoreContext surfaceNodes events = restoreScan (set surfaceNodes) NoSnapshot (rev events)"

definition cites :: "event \<Rightarrow> nat \<Rightarrow> bool" where
  "cites e s \<longleftrightarrow> (case sourceEventSeqs e of Some (JArr xs) \<Rightarrow> JNum (of_nat s) \<in> set xs | _ \<Rightarrow> False)"

text \<open>The listener of \<^verbatim>\<open>session/event\<close>.\<close>

definition dropReplaced :: "retained \<Rightarrow> event \<Rightarrow> retained" where
  "dropReplaced r e =
     (case r of
        Retained s _ \<Rightarrow> if isReplacementSurfaceEvent e \<and> cites e s then NoneRetained else r
      | _ \<Rightarrow> r)"

definition observe :: "retained \<Rightarrow> event \<Rightarrow> retained" where
  "observe r e =
     (case ev_data e of
        UserMsg m \<Rightarrow> if isOwned m then Retained (seq e) (textOf m) else dropReplaced r e
      | _ \<Rightarrow> dropReplaced r e)"

text \<open>\<^verbatim>\<open>project\<close>: the candidate message, with a fresh identity, when one is needed.\<close>

definition snapshotSource :: "assembled_part list \<Rightarrow> message_source" where
  "snapshotSource sections =
     PluginSource CONTEXT_SOURCE
       (JObj (if length sections = 0 then []
              else [(''form'', JStr ''snapshot''),
                    (''sections'', JArr (map (\<lambda>s. JObj [(''name'', JStr (ap_name s)),
                       (''text'', JStr (ap_text s))]) sections))]))"

definition project :: "retained \<Rightarrow> string \<Rightarrow> assembled_part list \<Rightarrow> string \<Rightarrow> message option" where
  "project r current sections fresh =
     (if r = NoSnapshot \<and> length current = 0 then None
      else
        (let snapshot = (if length current = 0 then CLEARED else current)
         in if retainedText r = Some snapshot then None
            else Some \<lparr>msg_id = fresh, msg_role = User, msg_content = [TextBlock snapshot],
                       msg_source = snapshotSource sections\<rparr>))"

section \<open>What is remembered is what the model sees\<close>

fun ownedMessage :: "event_data \<Rightarrow> bool" where
  "ownedMessage (UserMsg m) = isOwned m"
| "ownedMessage _ = False"

text \<open>
  \<open>contextInv\<close>: a retained snapshot is the last owned message of the log and still on the surface;
  before the first owned message nothing is remembered.
\<close>

definition contextInv :: "event list \<Rightarrow> nat list \<Rightarrow> retained \<Rightarrow> bool" where
  "contextInv es ns r \<longleftrightarrow>
     (r = NoSnapshot \<longrightarrow> (\<forall>e \<in> set es. \<not> ownedMessage (ev_data e)))
     \<and> (\<forall>s t. r = Retained s t \<longrightarrow>
          s < length es \<and> s \<in> set ns \<and> (\<exists>m. ev_data (es ! s) = UserMsg m \<and> isOwned m \<and> t = textOf m)
          \<and> (\<forall>k \<in> set ns. s < k \<longrightarrow> k < length es \<longrightarrow> \<not> ownedMessage (ev_data (es ! k))))"

lemma restoreScan_owned:
  "restoreScan ns r es = NoSnapshot \<Longrightarrow> r = NoSnapshot \<and> (\<forall>e \<in> set es. \<not> ownedMessage (ev_data e))"
  by (induction ns r es rule: restoreScan.induct)
    (auto split: event_data.splits if_splits simp: Let_def simp del: isOwned.simps textOf.simps)

lemma restoreScan_retained:
  assumes "restoreScan ns r (rev es) = Retained s t" and "\<forall>s t. r \<noteq> Retained s t"
    and "\<forall>i < length es. seq (es ! i) = i"
  shows "s < length es \<and> s \<in> ns \<and> (\<exists>m. ev_data (es ! s) = UserMsg m \<and> isOwned m \<and> t = textOf m)
     \<and> (\<forall>k \<in> ns. s < k \<longrightarrow> k < length es \<longrightarrow> \<not> ownedMessage (ev_data (es ! k)))"
  using assms
proof (induction es arbitrary: r rule: rev_induct)
  case (snoc e es)
  have seqs: "\<forall>i < length es. seq (es ! i) = i" and e: "seq e = length es"
    using snoc.prems(3) by (auto simp: nth_append less_Suc_eq)
  show ?case
  proof (cases "ownedMessage (ev_data e) \<and> seq e \<in> ns")
    case True
    then obtain m where m: "ev_data e = UserMsg m" "isOwned m"
      by (cases "ev_data e") (auto simp del: isOwned.simps)
    then have "s = length es" "t = textOf m"
      using snoc.prems(1) True e by (simp_all add: Let_def del: isOwned.simps textOf.simps)
    then show ?thesis using m True e by (auto simp: nth_append simp del: isOwned.simps textOf.simps)
  next
    case False
    then obtain r' where "restoreScan ns r' (rev es) = Retained s t" "\<forall>s t. r' \<noteq> Retained s t"
      using snoc.prems(1,2)
      by (cases "ev_data e") (auto simp: Let_def simp del: isOwned.simps textOf.simps split: if_splits)
    from snoc.IH [OF this seqs] show ?thesis
      using False e by (auto simp: nth_append less_Suc_eq simp del: isOwned.simps textOf.simps)
  qed
qed simp

lemma restoreContext_inv:
  assumes "surfaceLog es = Inr st"
  shows "contextInv es (nodes st) (restoreContext (nodes st) es)"
proof -
  have "\<forall>i < length es. seq (es ! i) = i" using surfaceLog_seq [OF assms] by blast
  then show ?thesis
    using restoreScan_owned [of "set (nodes st)" NoSnapshot "rev es"]
      restoreScan_retained [of "set (nodes st)" NoSnapshot es]
    by (simp add: contextInv_def restoreContext_def del: isOwned.simps textOf.simps)
qed

lemma cited_by_source:
  assumes "assertProvenance e shadowed = Inr ()" and "s \<in> set shadowed"
  shows "cites e s"
proof -
  obtain sources where c: "citedSources e = Inr sources" "s \<in> set sources"
    using assms by (auto simp: assertProvenance_Inr)
  then obtain raw where raw: "sourceEventSeqs e = Some (JArr raw)"
    by (auto simp: citedSources_def split: option.splits json.splits)
  have "mapM (\<lambda>j. case eventSeqOf j of None \<Rightarrow> Inl (SourceNotSeq (ev_type e)) | Some s \<Rightarrow> Inr s) raw = Inr sources"
    using c(1) raw by (auto simp: citedSources_def result_simps split: if_splits option.splits)
  then have "\<exists>j \<in> set raw. eventSeqOf j = Some s"
    using c(2) unfolding mapM_Inr_iff
    by (fastforce simp: in_set_conv_nth list_all2_conv_all_nth split: option.splits)
  then show ?thesis using raw by (auto simp: cites_def dest: eventSeqOf_SomeD)
qed

lemma observe_inv:
  assumes log: "surfaceLog (es @ [e]) = Inr st'" and st: "surfaceLog es = Inr st"
    and inv: "contextInv es (nodes st) r"
  shows "contextInv (es @ [e]) (nodes st') (observe r e)"
proof -
  obtain plan where plan: "planSurfaceEvent st e (length es) es 0 = Inr plan"
      and st': "st' = fst (applySurfacePlan st plan)"
    using surfaceLog_plan [OF log] st by auto
  have low: "\<forall>n \<in> set (nodes st). n < length es"
    using surfaceLog_inv [OF st] by (rule surfaceInv_below)
  have seq_e: "seq e = length es" using plan by (cases rule: planSurfaceEvent_cases) auto
  show ?thesis
  proof (cases "ownedMessage (ev_data e)")
    case True
    then obtain m where m: "ev_data e = UserMsg m" "isOwned m"
      by (cases "ev_data e") (auto simp del: isOwned.simps)
    from plan have "length es \<in> set (nodes st')"
      by (cases rule: planSurfaceEvent_cases)
        (use m in \<open>auto simp: st' isSurfaceEligibleType_def SURFACE_EVENT_TYPES_def splice_list_def\<close>)
    then show ?thesis
      using m seq_e by (auto simp: contextInv_def observe_def simp del: isOwned.simps textOf.simps)
  next
    case False
    then have o: "observe r e = dropReplaced r e"
      by (cases "ev_data e") (auto simp: observe_def simp del: isOwned.simps)
    have grow: "k \<in> set (nodes st) \<or> k = length es" if "k \<in> set (nodes st')" for k
      using plan that
      by (cases rule: planSurfaceEvent_cases)
        (use set_splice_list in \<open>fastforce simp: st'\<close>)+
    have stay: "s \<in> set (nodes st')" if r: "dropReplaced r e = Retained s t" for s t
    proof -
      have "r = Retained s t" and keeps: "\<not> (isReplacementSurfaceEvent e \<and> cites e s)"
        using r by (cases r; auto simp: dropReplaced_def split: if_splits)+
      then have s: "s \<in> set (nodes st)" using inv by (simp add: contextInv_def)
      from plan show ?thesis
      proof (cases rule: planSurfaceEvent_cases)
        case (replace a b i j shadowed)
        have "isReplacementSurfaceEvent e"
          using replace(2,3) by (auto simp: isReplacementSurfaceEvent_def surfaceOpOf_def split: option.splits if_splits)
        then have "s \<notin> set shadowed" using keeps cited_by_source [OF replace(5)] by blast
        moreover note range = replacementRange_InrD [OF replace(4)]
        have "nodes st = take i (nodes st) @ shadowed @ drop (j + 1) (nodes st)"
          using splice_decompose [of i "j + 1 - i" "nodes st"] range(1,2,3) by simp
        then have "set (nodes st) = set (take i (nodes st)) \<union> set shadowed \<union> set (drop (j + 1) (nodes st))"
          by (metis set_append sup_assoc)
        ultimately show ?thesis
          using s range(1) by (auto simp: st' replace(7) splice_list_def)
      qed (use s in \<open>simp_all add: st'\<close>)
    qed
    have "dropReplaced r e = NoSnapshot \<Longrightarrow> r = NoSnapshot"
      by (cases r) (auto simp: dropReplaced_def split: if_splits)
    moreover have "dropReplaced r e = Retained s t \<Longrightarrow> r = Retained s t" for s t
      by (cases r) (auto simp: dropReplaced_def split: if_splits)
    ultimately have from_r: "\<And>s t. dropReplaced r e = Retained s t \<Longrightarrow> r = Retained s t"
        "dropReplaced r e = NoSnapshot \<Longrightarrow> r = NoSnapshot" by blast+
    have later: "\<not> ownedMessage (ev_data ((es @ [e]) ! k))"
      if "r = Retained s t" "k \<in> set (nodes st')" "s < k" for s t k
    proof (cases "k = length es")
      case False
      then have "k \<in> set (nodes st)" using grow [OF that(2)] by blast
      then have "k < length es" "\<not> ownedMessage (ev_data (es ! k))"
        using low inv that(1,3) by (auto simp: contextInv_def)
      then show ?thesis by (simp add: nth_append)
    qed (simp add: False)
    show ?thesis
      unfolding contextInv_def o
    proof (intro conjI impI allI)
      show "\<forall>x \<in> set (es @ [e]). \<not> ownedMessage (ev_data x)" if "dropReplaced r e = NoSnapshot"
        using from_r(2) [OF that] inv False by (auto simp: contextInv_def)
      fix s t
      assume r: "dropReplaced r e = Retained s t"
      note r0 = from_r(1) [OF r]
      then obtain m where m: "s < length es" "ev_data (es ! s) = UserMsg m" "isOwned m" "t = textOf m"
        using inv by (auto simp: contextInv_def simp del: isOwned.simps textOf.simps)
      show "s < length (es @ [e])" using m(1) by simp
      show "s \<in> set (nodes st')" by (rule stay [OF r])
      show "\<exists>m. ev_data ((es @ [e]) ! s) = UserMsg m \<and> isOwned m \<and> t = textOf m"
        using m by (intro exI [of _ m]) (simp add: nth_append del: isOwned.simps textOf.simps)
      show "\<forall>k \<in> set (nodes st'). s < k \<longrightarrow> k < length (es @ [e]) \<longrightarrow> \<not> ownedMessage (ev_data ((es @ [e]) ! k))"
        using later [OF r0] by blast
    qed
  qed
qed

lemma follow_inv:
  assumes "surfaceLog (es @ later) = Inr st'" and "surfaceLog es = Inr st" and "contextInv es (nodes st) r"
  shows "contextInv (es @ later) (nodes st') (foldl observe r later)"
  using assms
proof (induction later arbitrary: st' rule: rev_induct)
  case (snoc e later)
  obtain st1 where st1: "surfaceLog (es @ later) = Inr st1"
    using surfaceLog_prefix [of "es @ later" "[e]"] snoc.prems(1) by auto
  show ?case
    using observe_inv [of "es @ later" e st' st1] snoc.IH [OF st1] snoc.prems st1 by simp
qed simp

text \<open>
  Claim C36: no update is suppressed that the model needs. However the log grew since the
  projection was restored, when no new snapshot is proposed for a context that is not empty, the
  last runtime-context message on the surface is there and says exactly this context; and when
  none is proposed for an empty context, the last one says that there is none, or there never was
  one.
\<close>

theorem suppressed_context_is_visible:
  assumes "surfaceLog es = Inr st" and "surfaceLog (es @ later) = Inr st'"
    and "project (foldl observe (restoreContext (nodes st) es) later) current sections fresh = None"
  shows "(current = '''' \<and> (\<forall>e \<in> set (es @ later). \<not> ownedMessage (ev_data e)))
     \<or> (\<exists>n m. n \<in> set (nodes st') \<and> ev_data ((es @ later) ! n) = UserMsg m \<and> isOwned m
          \<and> msg_content m = [TextBlock (if current = '''' then CLEARED else current)]
          \<and> (\<forall>k \<in> set (nodes st'). n < k \<longrightarrow> \<not> ownedMessage (ev_data ((es @ later) ! k))))"
proof -
  let ?r = "foldl observe (restoreContext (nodes st) es) later"
  have inv: "contextInv (es @ later) (nodes st') ?r"
    by (rule follow_inv [OF assms(2,1) restoreContext_inv [OF assms(1)]])
  have low: "\<forall>n \<in> set (nodes st'). n < length (es @ later)"
    using surfaceLog_inv [OF assms(2)] by (rule surfaceInv_below)
  show ?thesis
  proof (cases ?r)
    case (Retained n t)
    then obtain m where m: "n \<in> set (nodes st')" "ev_data ((es @ later) ! n) = UserMsg m" "isOwned m" "t = textOf m"
        "\<forall>k \<in> set (nodes st'). n < k \<longrightarrow> \<not> ownedMessage (ev_data ((es @ later) ! k))"
      using inv low by (auto simp: contextInv_def simp del: isOwned.simps textOf.simps)
    have "textOf m = Some (if current = '''' then CLEARED else current)"
      using assms(3) Retained m(4) by (auto simp: project_def Let_def split: if_splits simp del: isOwned.simps textOf.simps)
    then have "msg_content m = [TextBlock (if current = '''' then CLEARED else current)]"
      by (auto split: list.splits content_block.splits)
    then show ?thesis using m by blast
  qed (use assms(3) inv in \<open>auto simp: project_def contextInv_def Let_def split: if_splits simp del: isOwned.simps\<close>)
qed

definition sample_context :: "nat \<Rightarrow> event" where
  "sample_context n =
     (sample_user n)\<lparr>ev_data := UserMsg \<lparr>msg_id = ''c'', msg_role = User, msg_content = [TextBlock ''ctx''],
        msg_source = PluginSource CONTEXT_SOURCE (JObj [])\<rparr>\<rparr>"

theorem suppressed_context_is_visible_witness:
  "\<exists>n \<in> {0, 1}. ownedMessage (ev_data ([sample_user 0, sample_context 1] ! n))
     \<and> project (restoreContext [0] [sample_user 0]) ''ctx'' [] ''f'' \<noteq> None
     \<and> project (observe (restoreContext [0] [sample_user 0]) (sample_context 1)) ''ctx'' [] ''f'' = None"
proof -
  have a: "surfaceLog [sample_user 0] = Inr \<lparr>nodes = [0], replaceGeneration = 0\<rparr>" by code_simp
  have b: "surfaceLog ([sample_user 0] @ [sample_context 1]) = Inr \<lparr>nodes = [0, 1], replaceGeneration = 0\<rparr>"
    by code_simp
  have c: "project (foldl observe (restoreContext (nodes \<lparr>nodes = [0], replaceGeneration = 0\<rparr>) [sample_user 0])
      [sample_context 1]) ''ctx'' [] ''f'' = None" by code_simp
  have d: "project (restoreContext [0] [sample_user 0]) ''ctx'' [] ''f'' \<noteq> None" by code_simp
  from suppressed_context_is_visible [OF a b c] obtain n m where
      "n \<in> set (nodes \<lparr>nodes = [0, 1], replaceGeneration = 0\<rparr>)"
      "ev_data (([sample_user 0] @ [sample_context 1]) ! n) = UserMsg m" "isOwned m" by auto
  with c d show ?thesis by (intro bexI [of _ n]) (auto simp del: isOwned.simps)
qed

end
