(* ===== verification/Agent_Loop.thy ===== *)
theory Agent_Loop
  imports Tool_Scheduler Runtime_Context Assembler
begin

text \<open>
  \<^verbatim>\<open>packages/core/agent-loop/src/agent.ts\<close>: the driver of one agent over queued turns and
  step boundaries. Like the scheduler of tool calls it is a machine that stops wherever the code
  awaits or publishes, and an input is what the awaited promise yields together with what the
  synchronous code after it reads from the run-time. The calls of other code (\<open>send\<close>, \<open>cancel\<close>,
  maintenance, appends of plugins) are inputs too and may come between any two steps.
\<close>

section \<open>State\<close>

text \<open>What other code throws: a value with a text, or an \<^verbatim>\<open>LlmError\<close> with its facts.\<close>

datatype thrown = Plain string | LlmThrown llm_failure

datatype loop_error =
    LoopAborted
  | LoopAppend append_error
  | LoopInbox inbox_error
  | LoopPrompt prompt_error
  | LoopDerive session_error
  | LoopNoModel
  | LoopAssemble string
  | LoopTools scheduler_error
  | LoopThrown thrown

text \<open>
  The options of the agent, the bound of its tool scheduler, and \<^verbatim>\<open>errorChain\<close>, which makes the
  text of an error.
\<close>

record agent_config =
  ac_provider :: "string option"
  ac_model :: "string option"
  ac_maxTokens :: "rat option"
  ac_maxParallel :: nat
  ac_errorChain :: "loop_error \<Rightarrow> string"

text \<open>An abort controller is the cause it was aborted with, if it was.\<close>

datatype agent_phase =
    IdlePhase int
  | MaintenancePhase "cancel_cause option" int bool
  | RunningPhase "cancel_cause option" int int bool

datatype delivery = Streamed | Buffered

datatype pre_decision = Reject | Enter "message list" "delivery option"

record loop_request =
  lr_config :: call_config
  lr_messages :: "message list"
  lr_system :: "string option"
  lr_tools :: "json list option"

text \<open>The \<^verbatim>\<open>PreparedLlmCall\<close>, as far as the driver reads it.\<close>

record prepared_call =
  pr_config :: call_config
  pr_adapterDefaults :: "adapter_defaults option"
  pr_contextWindow :: "rat option"

text \<open>The locals of one request of a step.\<close>

record attempt =
  at_request :: loop_request
  at_assembler :: assembler
  at_chunkSeqs :: "nat list"
  at_buffered :: "stream_chunk list"

datatype turn_close = Throwing loop_error | ReturnFalse | FallThrough

datatype driver_stage =
    NoDriver
  | TurnOpening
  | PreStepping inbox_target
  | Assembling "message list"
  | Deciding "message list" "message list" prompt_assembly
  | StepOpening "message list" prompt_assembly delivery
  | Posting "message list" prompt_assembly delivery
  | Building prompt_assembly delivery
  | Proposing prompt_assembly delivery string "message list" call_config
  | PreparingCall prompt_assembly delivery string "message list" call_config
  | Dispatching prompt_assembly delivery loop_request
  | Streaming prompt_assembly delivery attempt
  | Recovering prompt_assembly delivery llm_failure
  | Reviewing prompt_assembly attempt message
  | Reassembling delivery
  | Answering delivery attempt message
  | Executing exec
  | StepClosing "loop_error + turn_end_reason option"
  | Stopping
  | TurnClosing turn_close
  | Converging

text \<open>
  The fields after \<open>ag_stage\<close> are the events \<^verbatim>\<open>agent/status\<close> (is it running?) and
  \<^verbatim>\<open>agent/error\<close> that the agent has published. \<open>ag_turnEnds\<close> is the local of \<^verbatim>\<open>turn\<close>.
\<close>

record agent =
  ag_config :: agent_config
  ag_state :: inbox_state
  ag_phase :: agent_phase
  ag_retained :: retained
  ag_headerLogged :: bool
  ag_turnEnds :: "turn_end_reason option"
  ag_stage :: driver_stage
  ag_statuses :: "bool list"
  ag_errors :: "(int \<times> int \<times> loop_error) list"

section \<open>Phases\<close>

fun abortOf :: "agent_phase \<Rightarrow> cancel_cause option" where
  "abortOf (IdlePhase _) = None"
| "abortOf (MaintenancePhase ab _ _) = ab"
| "abortOf (RunningPhase ab _ _ _) = ab"

fun turnOf :: "agent_phase \<Rightarrow> int" where
  "turnOf (IdlePhase t) = t"
| "turnOf (MaintenancePhase _ t _) = t"
| "turnOf (RunningPhase _ t _ _) = t"

fun stepOf :: "agent_phase \<Rightarrow> int" where
  "stepOf (RunningPhase _ _ s _) = s"
| "stepOf _ = 0"

fun isRunning :: "agent_phase \<Rightarrow> bool" where
  "isRunning (RunningPhase _ _ _ _) = True"
| "isRunning _ = False"

definition aborted :: "agent \<Rightarrow> bool" where
  "aborted a \<longleftrightarrow> abortOf (ag_phase a) \<noteq> None"

definition setPhase :: "agent_phase \<Rightarrow> agent \<Rightarrow> agent" where
  "setPhase next a =
     (let a' = a\<lparr>ag_phase := next\<rparr>
      in if isRunning next \<noteq> isRunning (ag_phase a)
         then a'\<lparr>ag_statuses := ag_statuses a' @ [isRunning next]\<rparr> else a')"

fun withStep :: "int \<Rightarrow> agent_phase \<Rightarrow> agent_phase" where
  "withStep s (RunningPhase ab t _ w) = RunningPhase ab t s w"
| "withStep s ph = ph"

fun withTurn :: "int \<Rightarrow> agent_phase \<Rightarrow> agent_phase" where
  "withTurn t (RunningPhase ab _ s w) = RunningPhase ab t s w"
| "withTurn t ph = ph"

fun abortPhase :: "cancel_cause \<Rightarrow> agent_phase \<Rightarrow> agent_phase" where
  "abortPhase cause (RunningPhase None t s w) = RunningPhase (Some cause) t s w"
| "abortPhase cause (MaintenancePhase None t w) = MaintenancePhase (Some cause) t w"
| "abortPhase cause ph = ph"

fun withWake :: "bool \<Rightarrow> agent_phase \<Rightarrow> agent_phase" where
  "withWake w (RunningPhase ab t s _) = RunningPhase ab t s w"
| "withWake w (MaintenancePhase ab t _) = MaintenancePhase ab t w"
| "withWake w ph = ph"

fun wakeRequested :: "agent_phase \<Rightarrow> bool" where
  "wakeRequested (RunningPhase _ _ _ w) = w"
| "wakeRequested (MaintenancePhase _ _ w) = w"
| "wakeRequested _ = False"

text \<open>\<^verbatim>\<open>events.findLast(event => event.type === 'turn/start')?.data.turn ?? 0\<close>\<close>

fun turnStarted :: "event_data \<Rightarrow> int option" where
  "turnStarted (TurnStart t) = Some t"
| "turnStarted _ = None"

definition lastTurnOf :: "event list \<Rightarrow> int" where
  "lastTurnOf events =
     (case find (\<lambda>e. turnStarted (ev_data e) \<noteq> None) (rev events) of
        Some e \<Rightarrow> the (turnStarted (ev_data e))
      | None \<Rightarrow> 0)"

text \<open>The constructor; \<^verbatim>\<open>session.surface.nodes\<close> may throw, as may the inbox.\<close>

definition newAgent :: "agent_config \<Rightarrow> session \<Rightarrow> loop_error + agent" where
  "newAgent cfg S =
     bindR (mapErr LoopInbox (newInbox S)) (\<lambda>ib.
       case managerNodes (s_log S) (s_manager S) of
            (m, Inl err) \<Rightarrow> Inl (LoopDerive (SurfaceRejected err))
          | (m, Inr ns) \<Rightarrow>
              Inr \<lparr>ag_config = cfg, ag_state = (ib, S\<lparr>s_manager := m\<rparr>, []), ag_phase = IdlePhase (lastTurnOf (s_log S)),
                   ag_retained = restoreContext ns (s_log S), ag_headerLogged = False,
                   ag_turnEnds = None, ag_stage = NoDriver, ag_statuses = [], ag_errors = []\<rparr>)"

section \<open>Waking\<close>

definition startDriver :: "agent \<Rightarrow> agent" where
  "startDriver a =
     (setPhase (RunningPhase None (turnOf (ag_phase a)) 0 False) a)\<lparr>ag_stage := TurnOpening\<rparr>"

definition wakeDriver :: "bool \<Rightarrow> agent \<Rightarrow> agent" where
  "wakeDriver wakeAfterAbort a =
     (case ag_phase a of
        IdlePhase _ \<Rightarrow> startDriver a
      | ph \<Rightarrow>
          if abortOf ph \<noteq> Some CancelDisposed \<and> (\<not> isRunning ph \<or> wakeAfterAbort)
          then a\<lparr>ag_phase := withWake True ph\<rparr> else a)"

section \<open>Failures\<close>

definition reportError :: "loop_error \<Rightarrow> agent \<Rightarrow> agent" where
  "reportError err a =
     a\<lparr>ag_errors := ag_errors a @ [(turnOf (ag_phase a), stepOf (ag_phase a), err)]\<rparr>"

definition failureOf :: "agent \<Rightarrow> loop_error \<Rightarrow> llm_failure" where
  "failureOf a err =
     (case err of
        LoopThrown (LlmThrown f) \<Rightarrow> f
      | _ \<Rightarrow> \<lparr>failure_message = ac_errorChain (ag_config a) err, failure_code = ''UNKNOWN'',
              failure_status = None, failure_retryAfterMs = None, failure_requestId = None\<rparr>)"

text \<open>The \<^verbatim>\<open>catch\<close> block of \<^verbatim>\<open>turn\<close>.\<close>

definition failTurn :: "loop_error \<Rightarrow> agent \<Rightarrow> agent" where
  "failTurn err a =
     (case abortOf (ag_phase a) of
        Some cause \<Rightarrow> a\<lparr>ag_turnEnds := Some (Aborted cause), ag_stage := TurnClosing (Throwing err)\<rparr>
      | None \<Rightarrow>
          (reportError err a)\<lparr>ag_turnEnds := Some (Failed (failureOf a err)),
                              ag_stage := TurnClosing (Throwing err)\<rparr>)"

definition failStep :: "loop_error \<Rightarrow> agent \<Rightarrow> agent" where
  "failStep err a = a\<lparr>ag_stage := StepClosing (Inl err)\<rparr>"

text \<open>\<^verbatim>\<open>signal.throwIfAborted()\<close> inside a turn and inside a step.\<close>

definition turnAlive :: "agent \<Rightarrow> agent \<Rightarrow> agent" where
  "turnAlive a continue = (if aborted a then failTurn LoopAborted a else continue)"

definition stepAlive :: "agent \<Rightarrow> agent \<Rightarrow> agent" where
  "stepAlive a continue = (if aborted a then failStep LoopAborted a else continue)"

definition loopAppend ::
  "append_env \<Rightarrow> event_data \<Rightarrow> json option \<times> json option \<Rightarrow> agent \<Rightarrow> agent \<times> (loop_error + event)"
where
  "loopAppend ae d meta a =
     (case driverAppend ae d meta (ag_state a) of
        (st, r) \<Rightarrow> (a\<lparr>ag_state := st\<rparr>, mapErr LoopAppend r))"

definition onSession :: "(session \<Rightarrow> session \<times> 'r) \<Rightarrow> agent \<Rightarrow> agent \<times> 'r" where
  "onSession f a =
     (case ag_state a of
        (ib, S, notes) \<Rightarrow> (case f S of (S', r) \<Rightarrow> (a\<lparr>ag_state := (ib, S', notes)\<rparr>, r)))"

section \<open>The turn\<close>

text \<open>The head of \<^verbatim>\<open>turn\<close>: nothing is written when the driver was aborted before it.\<close>

definition openTurnStep :: "append_env \<Rightarrow> agent \<Rightarrow> agent" where
  "openTurnStep ae a =
     (if aborted a then a\<lparr>ag_stage := Converging\<rparr>
      else
        (let turn = turnOf (ag_phase a) + 1
         in case loopAppend ae (TurnStart turn) unmarked a of
              (a', Inl err) \<Rightarrow> (reportError err a')\<lparr>ag_stage := Converging\<rparr>
            | (a', Inr _) \<Rightarrow>
                a'\<lparr>ag_phase := withTurn turn (ag_phase a'), ag_turnEnds := None,
                   ag_stage := PreStepping NextTurn\<rparr>))"

text \<open>The head of the loop and of \<^verbatim>\<open>preStep\<close>.\<close>

definition claimStep :: "int \<Rightarrow> bool \<times> bool \<Rightarrow> inbox_target \<Rightarrow> agent \<Rightarrow> agent" where
  "claimStep now vetoes target a =
     turnAlive a
       (case claimInbox (ag_state a) now vetoes target (turnOf (ag_phase a)) of
          (st, Inl err) \<Rightarrow> failTurn (LoopInbox err) (a\<lparr>ag_state := st\<rparr>)
        | (st, Inr claimed) \<Rightarrow> a\<lparr>ag_state := st, ag_stage := Assembling claimed\<rparr>)"

definition assembledStep ::
  "prompt_error + prompt_assembly \<Rightarrow> string \<Rightarrow> message list \<Rightarrow> agent \<Rightarrow> agent" where
  "assembledStep r fresh claimed a =
     (case r of
        Inl err \<Rightarrow> failTurn (LoopPrompt err) a
      | Inr assembly \<Rightarrow>
          turnAlive a
            (case renderContextSections assembly of
               Inl err \<Rightarrow> failTurn (LoopPrompt err) a
             | Inr sections \<Rightarrow>
                 (let candidate = project (ag_retained a) (joinContextSections sections) sections fresh
                  in a\<lparr>ag_stage := Deciding claimed
                         (case candidate of None \<Rightarrow> claimed | Some m \<Rightarrow> claimed @ [m]) assembly\<rparr>)))"

text \<open>
  The end of \<^verbatim>\<open>preStep\<close>: \<open>decide\<close> is the waterfall, from the payload and the default decision;
  the result is \<open>None\<close> for a rejection.
\<close>

definition preStepDecision ::
  "(message list \<Rightarrow> pre_decision \<Rightarrow> thrown + pre_decision) \<Rightarrow> message list \<Rightarrow> message list
    \<Rightarrow> thrown + (message list \<times> delivery) option" where
  "preStepDecision decide claimed proposed =
     mapR (\<lambda>decision.
         case decision of
           Reject \<Rightarrow> None
         | Enter messages mode \<Rightarrow> Some (messages, case mode of None \<Rightarrow> Streamed | Some d \<Rightarrow> d))
       (decide claimed (Enter proposed None))"

text \<open>What \<^verbatim>\<open>turn\<close> does with the decision.\<close>

definition decidedStep ::
  "(message list \<Rightarrow> pre_decision \<Rightarrow> thrown + pre_decision) \<Rightarrow> message list \<Rightarrow> message list
    \<Rightarrow> prompt_assembly \<Rightarrow> agent \<Rightarrow> agent" where
  "decidedStep decide claimed proposed assembly a =
     (case preStepDecision decide claimed proposed of
        Inl err \<Rightarrow> failTurn (LoopThrown err) a
      | Inr decision \<Rightarrow>
          turnAlive a
            (case decision of
               None \<Rightarrow> a\<lparr>ag_turnEnds := Some Blocked, ag_stage := TurnClosing ReturnFalse\<rparr>
             | Some (messages, mode) \<Rightarrow>
                 if ag_turnEnds a \<noteq> None \<and> messages = []
                 then a\<lparr>ag_stage := TurnClosing FallThrough\<rparr>
                 else if stepOf (ag_phase a) = 0 \<and> messages = []
                 then a\<lparr>ag_turnEnds := Some Completed, ag_stage := TurnClosing ReturnFalse\<rparr>
                 else a\<lparr>ag_stage := StepOpening messages assembly mode\<rparr>))"

definition openStepStep ::
  "append_env \<Rightarrow> message list \<Rightarrow> prompt_assembly \<Rightarrow> delivery \<Rightarrow> agent \<Rightarrow> agent" where
  "openStepStep ae messages assembly mode a =
     turnAlive a
       (let step = stepOf (ag_phase a) + 1
        in case loopAppend ae (StepStart (turnOf (ag_phase a)) step) unmarked a of
             (a', Inl err) \<Rightarrow> failTurn err a'
           | (a', Inr _) \<Rightarrow>
               a'\<lparr>ag_phase := withStep step (ag_phase a'),
                  ag_stage := (if messages = [] then Building assembly mode
                               else Posting messages assembly mode)\<rparr>)"

definition postStep ::
  "append_env \<Rightarrow> message \<Rightarrow> message list \<Rightarrow> prompt_assembly \<Rightarrow> delivery \<Rightarrow> agent \<Rightarrow> agent" where
  "postStep ae m rest assembly mode a =
     (case loopAppend ae (UserMsg m) (surfaced None) a of
        (a', Inl err) \<Rightarrow> failStep err a'
      | (a', Inr _) \<Rightarrow>
          a'\<lparr>ag_stage := (if rest = [] then Building assembly mode else Posting rest assembly mode)\<rparr>)"

text \<open>The \<^verbatim>\<open>finally\<close> of a step and what follows it in the loop of \<^verbatim>\<open>turn\<close>.\<close>

definition stopOrGo :: "agent \<Rightarrow> agent" where
  "stopOrGo a =
     (if ag_turnEnds a \<noteq> None \<and> ib_nextStep (fst (ag_state a)) = []
      then a\<lparr>ag_stage := TurnClosing FallThrough\<rparr> else a\<lparr>ag_stage := PreStepping NextStep\<rparr>)"

definition closeStepStep ::
  "append_env \<Rightarrow> loop_error + turn_end_reason option \<Rightarrow> agent \<Rightarrow> agent" where
  "closeStepStep ae result a =
     (let a0 = (case result of
                  Inl _ \<Rightarrow> a
                | Inr ends \<Rightarrow> if ag_turnEnds a = Some MaxTokens then a else a\<lparr>ag_turnEnds := ends\<rparr>)
      in case loopAppend ae (StepEnd (turnOf (ag_phase a)) (stepOf (ag_phase a))) unmarked a0 of
           (a', Inl err) \<Rightarrow> failTurn err a'
         | (a', Inr _) \<Rightarrow>
             (case result of
                Inl err \<Rightarrow> failTurn err a'
              | Inr _ \<Rightarrow>
                  turnAlive a'
                    (if ag_turnEnds a' \<noteq> None \<and> ib_nextStep (fst (ag_state a')) = []
                     then a'\<lparr>ag_stage := Stopping\<rparr> else a'\<lparr>ag_stage := PreStepping NextStep\<rparr>)))"

definition stoppedStep :: "thrown + unit \<Rightarrow> agent \<Rightarrow> agent" where
  "stoppedStep r a =
     (case r of Inl err \<Rightarrow> failTurn (LoopThrown err) a | Inr _ \<Rightarrow> turnAlive a (stopOrGo a))"

text \<open>The \<^verbatim>\<open>finally\<close> of a turn and what follows it; every exit has assigned an ending.\<close>

definition closeTurnStep :: "append_env \<Rightarrow> turn_close \<Rightarrow> turn_end_reason \<Rightarrow> agent \<Rightarrow> agent" where
  "closeTurnStep ae exit reason a =
     (case loopAppend ae (TurnEnd (turnOf (ag_phase a)) reason) unmarked a of
        (a', Inl err) \<Rightarrow> (reportError err a')\<lparr>ag_stage := Converging\<rparr>
      | (a', Inr _) \<Rightarrow>
          (case exit of
             FallThrough \<Rightarrow>
               if hasPending (fst (ag_state a'))
               then a'\<lparr>ag_phase := RunningPhase None (turnOf (ag_phase a')) 0 False, ag_stage := TurnOpening\<rparr>
               else a'\<lparr>ag_stage := Converging\<rparr>
           | _ \<Rightarrow> a'\<lparr>ag_stage := Converging\<rparr>))"

text \<open>The \<^verbatim>\<open>finally\<close> of \<^verbatim>\<open>kick\<close>.\<close>

definition convergeStep :: "agent \<Rightarrow> agent" where
  "convergeStep a =
     (let wake = wakeRequested (ag_phase a);
          a' = (setPhase (IdlePhase (turnOf (ag_phase a))) a)\<lparr>ag_stage := NoDriver\<rparr>
      in if wake \<and> hasPending (fst (ag_state a')) then wakeDriver False a' else a')"

section \<open>Requests\<close>

text \<open>\<^verbatim>\<open>requestProposal\<close>: what the adapter filled in is not proposed again.\<close>

definition requestProposal :: "epoch_header \<Rightarrow> call_config" where
  "requestProposal h =
     (case eh_adapterDefaults h of
        None \<Rightarrow> eh_config h
      | Some d \<Rightarrow>
          (let c = (if ad_reasoningEffort d then (eh_config h)\<lparr>cfg_reasoningEffort := None\<rparr> else eh_config h)
           in if ad_maxTokens d then c\<lparr>cfg_maxTokens := None\<rparr> else c))"

definition optionText :: "string option \<Rightarrow> string" where
  "optionText s = (case s of None \<Rightarrow> '''' | Some t \<Rightarrow> t)"

text \<open>The configuration a request starts from, and what the log says about it.\<close>

definition seedConfig :: "agent \<Rightarrow> epoch_header option \<Rightarrow> call_config" where
  "seedConfig a persisted =
     (let provider = optionText (ac_provider (ag_config a)); model = optionText (ac_model (ag_config a));
          base = \<lparr>cfg_provider = provider, cfg_model = model, cfg_reasoningEffort = None, cfg_temperature = None,
                  cfg_maxTokens = ac_maxTokens (ag_config a), cfg_stop = None\<rparr>
      in case persisted of
           None \<Rightarrow> base
         | Some h \<Rightarrow>
             if ag_headerLogged a then requestProposal h
             else if cfg_provider (eh_config h) = provider \<and> cfg_model (eh_config h) = model
               \<and> \<not> (case eh_adapterDefaults h of None \<Rightarrow> False | Some d \<Rightarrow> ad_reasoningEffort d)
             then base\<lparr>cfg_reasoningEffort := cfg_reasoningEffort (eh_config h)\<rparr>
             else base)"

definition toolJson :: "tool_schema \<Rightarrow> json" where
  "toolJson t =
     JObj [(''name'', JStr (ts_name t)), (''description'', JStr (ts_description t)),
           (''parameters'', ts_parameters t)]"

text \<open>The head of the loop of \<^verbatim>\<open>step\<close>, up to the first wait of \<^verbatim>\<open>buildRequest\<close>.\<close>

definition buildStep :: "prompt_assembly \<Rightarrow> delivery \<Rightarrow> agent \<Rightarrow> agent" where
  "buildStep assembly mode a =
     stepAlive a
       (case renderPrompt assembly of
          Inl err \<Rightarrow> failStep (LoopPrompt err) a
        | Inr system \<Rightarrow>
            (case onSession deriveMessages a of
               (a1, Inl err) \<Rightarrow> failStep (LoopDerive err) a1
             | (a1, Inr boundary) \<Rightarrow>
                 (case onSession requestHeader a1 of
                    (a2, persisted) \<Rightarrow>
                      a2\<lparr>ag_stage := Proposing assembly mode system boundary (seedConfig a2 persisted)\<rparr>)))"

definition proposedStep ::
  "(call_config \<Rightarrow> thrown + call_config) \<Rightarrow> prompt_assembly \<Rightarrow> delivery \<Rightarrow> string \<Rightarrow> message list
    \<Rightarrow> call_config \<Rightarrow> agent \<Rightarrow> agent" where
  "proposedStep propose assembly mode system boundary seed a =
     (case propose seed of
        Inl err \<Rightarrow> failStep (LoopThrown err) a
      | Inr proposed \<Rightarrow>
          stepAlive a
            (if cfg_provider proposed = '''' \<or> cfg_model proposed = '''' then failStep LoopNoModel a
             else a\<lparr>ag_stage := PreparingCall assembly mode system boundary proposed\<rparr>))"

text \<open>The header and the route of the request are logged when they changed.\<close>

definition logHeader :: "append_env \<Rightarrow> epoch_header \<Rightarrow> agent \<Rightarrow> agent \<times> (loop_error + unit)" where
  "logHeader ae header a =
     (case onSession requestHeader a of
        (a1, baseline) \<Rightarrow>
          if \<not> ag_headerLogged a1 then
            (case loopAppend ae (RequestHeader header (if baseline = None then ''initial'' else ''resume'')) unmarked a1 of
               (a2, Inl err) \<Rightarrow> (a2, Inl err)
             | (a2, Inr _) \<Rightarrow> (a2\<lparr>ag_headerLogged := True\<rparr>, Inr ()))
          else if (case baseline of None \<Rightarrow> True | Some h \<Rightarrow> \<not> headerEquals h header) then
            (case loopAppend ae (RequestHeader header ''change'') unmarked a1 of
               (a2, r) \<Rightarrow> (a2, mapR (\<lambda>_. ()) r))
          else (a1, Inr ()))"

definition logContext :: "append_env \<Rightarrow> request_context \<Rightarrow> agent \<Rightarrow> agent \<times> (loop_error + unit)" where
  "logContext ae ctx a =
     (case onSession requestContext a of
        (a1, previous) \<Rightarrow>
          if (case previous of
                None \<Rightarrow> True
              | Some p \<Rightarrow> rc_provider p \<noteq> rc_provider ctx \<or> rc_model p \<noteq> rc_model ctx
                          \<or> rc_contextWindow p \<noteq> rc_contextWindow ctx)
          then (case loopAppend ae (RequestContext ctx) unmarked a1 of (a2, r) \<Rightarrow> (a2, mapR (\<lambda>_. ()) r))
          else (a1, Inr ()))"

text \<open>
  After \<^verbatim>\<open>prepareCall\<close>: a route without an adapter keeps the proposed configuration.
\<close>

definition preparedStep ::
  "thrown + prepared_call \<Rightarrow> append_env \<Rightarrow> append_env \<Rightarrow> prompt_assembly \<Rightarrow> delivery \<Rightarrow> string
    \<Rightarrow> message list \<Rightarrow> call_config \<Rightarrow> agent \<Rightarrow> agent" where
  "preparedStep r ae1 ae2 assembly mode system boundary proposed a =
     (case (case r of
              Inr p \<Rightarrow> Inr (Some p)
            | Inl (LlmThrown f) \<Rightarrow> if failure_code f = ''NO_ADAPTER'' then Inr None else Inl (LlmThrown f)
            | Inl err \<Rightarrow> Inl err) of
        Inl err \<Rightarrow> failStep (LoopThrown err) a
      | Inr prepared \<Rightarrow>
          stepAlive a
            (let config = (case prepared of None \<Rightarrow> proposed | Some p \<Rightarrow> pr_config p);
                 header = canonicalHeader
                   \<lparr>eh_config = config, eh_adapterDefaults = Option.bind prepared pr_adapterDefaults,
                    eh_system = (if system = '''' then None else Some system),
                    eh_tools = (if pa_tools assembly = [] then None else Some (map toolJson (pa_tools assembly)))\<rparr>;
                 ctx = \<lparr>rc_provider = cfg_provider config, rc_model = cfg_model config,
                        rc_contextWindow = Option.bind prepared pr_contextWindow\<rparr>
             in case logHeader ae1 header a of
                  (a1, Inl err) \<Rightarrow> failStep err a1
                | (a1, Inr _) \<Rightarrow>
                    (case logContext ae2 ctx a1 of
                       (a2, Inl err) \<Rightarrow> failStep err a2
                     | (a2, Inr _) \<Rightarrow>
                         a2\<lparr>ag_stage := Dispatching assembly mode
                              \<lparr>lr_config = eh_config header, lr_messages = boundary,
                               lr_system = eh_system header, lr_tools = eh_tools header\<rparr>\<rparr>)))"

text \<open>The stream is requested; the signal is looked at before and after.\<close>

definition dispatchStep ::
  "thrown + unit \<Rightarrow> prompt_assembly \<Rightarrow> delivery \<Rightarrow> loop_request \<Rightarrow> agent \<Rightarrow> agent" where
  "dispatchStep r assembly mode request a =
     stepAlive a
       (case r of
          Inl err \<Rightarrow> failStep (LoopThrown err) a
        | Inr _ \<Rightarrow>
            a\<lparr>ag_stage := Streaming assembly mode
                 \<lparr>at_request = request, at_assembler = emptyAssembler, at_chunkSeqs = [], at_buffered = []\<rparr>\<rparr>)"

section \<open>The response\<close>

definition chunkStep ::
  "stream_chunk \<Rightarrow> append_env \<Rightarrow> prompt_assembly \<Rightarrow> delivery \<Rightarrow> attempt \<Rightarrow> agent \<Rightarrow> agent" where
  "chunkStep chunk ae assembly mode att a =
     stepAlive a
       (case mode of
          Streamed \<Rightarrow>
            (case loopAppend ae (AssistantChunk (turnOf (ag_phase a)) (stepOf (ag_phase a)) chunk) unmarked a of
               (a', Inl err) \<Rightarrow> failStep err a'
             | (a', Inr ev) \<Rightarrow>
                 a'\<lparr>ag_stage := Streaming assembly mode
                      (att\<lparr>at_chunkSeqs := at_chunkSeqs att @ [seq ev],
                           at_assembler := push (at_assembler att) chunk\<rparr>)\<rparr>)
        | Buffered \<Rightarrow>
            a\<lparr>ag_stage := Streaming assembly mode
                 (att\<lparr>at_buffered := at_buffered att @ [chunk],
                      at_assembler := push (at_assembler att) chunk\<rparr>)\<rparr>)"

definition modelMessage :: "string \<Rightarrow> attempt \<Rightarrow> content_block list \<Rightarrow> message" where
  "modelMessage fresh att content =
     \<lparr>msg_id = fresh, msg_role = Assistant, msg_content = content,
      msg_source = ModelSource (cfg_provider (lr_config (at_request att)))
        (cfg_model (lr_config (at_request att))) (as_replayState (at_assembler att))\<rparr>"

text \<open>The stream is over: an error asks for a retry, a buffered answer for a review.\<close>

definition streamEndStep ::
  "string \<Rightarrow> prompt_assembly \<Rightarrow> delivery \<Rightarrow> attempt \<Rightarrow> agent \<Rightarrow> agent" where
  "streamEndStep fresh assembly mode att a =
     stepAlive a
       (let answer =
          (case blocks (at_assembler att) of
             Inl err \<Rightarrow> failStep (LoopAssemble err) a
           | Inr content \<Rightarrow>
               (let m = modelMessage fresh att content
                in if mode = Buffered \<and> finishOf (at_assembler att) \<noteq> FinishMaxTokens
                     \<and> filter isToolCall content = []
                   then a\<lparr>ag_stage := Reviewing assembly att m\<rparr>
                   else a\<lparr>ag_stage := Answering mode att m\<rparr>))
        in case finishOf (at_assembler att) of
             FinishError f \<Rightarrow> a\<lparr>ag_stage := Recovering assembly mode f\<rparr>
           | FinishAborted f \<Rightarrow> a\<lparr>ag_stage := Recovering assembly mode f\<rparr>
           | _ \<Rightarrow> answer)"

text \<open>After \<^verbatim>\<open>agent/request-error\<close>; the value is whether the action is a retry.\<close>

definition recoveredStep ::
  "thrown + bool \<Rightarrow> prompt_assembly \<Rightarrow> delivery \<Rightarrow> llm_failure \<Rightarrow> agent \<Rightarrow> agent" where
  "recoveredStep r assembly mode f a =
     (case r of
        Inl err \<Rightarrow> failStep (LoopThrown err) a
      | Inr retry \<Rightarrow>
          stepAlive a
            (if retry then a\<lparr>ag_stage := Building assembly mode\<rparr>
             else failStep (LoopThrown (LlmThrown f)) a))"

definition reviewedStep :: "thrown + bool \<Rightarrow> attempt \<Rightarrow> message \<Rightarrow> agent \<Rightarrow> agent" where
  "reviewedStep r att m a =
     (case r of
        Inl err \<Rightarrow> failStep (LoopThrown err) a
      | Inr retry \<Rightarrow>
          stepAlive a
            (if retry then a\<lparr>ag_stage := Reassembling Buffered\<rparr>
             else a\<lparr>ag_stage := Answering Buffered att m\<rparr>))"

definition reassembledStep :: "prompt_error + prompt_assembly \<Rightarrow> delivery \<Rightarrow> agent \<Rightarrow> agent" where
  "reassembledStep r mode a =
     (case r of
        Inl err \<Rightarrow> failStep (LoopPrompt err) a
      | Inr assembly \<Rightarrow> stepAlive a (a\<lparr>ag_stage := Building assembly mode\<rparr>))"

text \<open>A buffered stream enters the log before its message.\<close>

fun flushChunks ::
  "int \<Rightarrow> int \<Rightarrow> stream_chunk list \<Rightarrow> (nat \<Rightarrow> append_env) \<Rightarrow> inbox_state
    \<Rightarrow> inbox_state \<times> (append_error + nat list)" where
  "flushChunks turn step [] env st = (st, Inr [])"
| "flushChunks turn step (c # cs) env st =
     thenR (driverAppend (env 0) (AssistantChunk turn step c) unmarked st) (\<lambda>st ev.
       thenR (flushChunks turn step cs (\<lambda>n. env (Suc n)) st) (\<lambda>st seqs. (st, Inr (seq ev # seqs))))"

definition answerStep ::
  "(nat \<Rightarrow> append_env) \<Rightarrow> append_env \<Rightarrow> delivery \<Rightarrow> attempt \<Rightarrow> message \<Rightarrow> agent \<Rightarrow> agent" where
  "answerStep env ae mode att m a =
     (let turn = turnOf (ag_phase a); step = stepOf (ag_phase a)
      in case flushChunks turn step (if mode = Buffered then at_buffered att else []) env (ag_state a) of
           (st, Inl err) \<Rightarrow> failStep (LoopAppend err) (a\<lparr>ag_state := st\<rparr>)
         | (st, Inr flushed) \<Rightarrow>
             (case loopAppend ae (AssistantMsg turn step m (usageOf (at_assembler att)))
                     (surfaced (Some (at_chunkSeqs att @ flushed))) (a\<lparr>ag_state := st\<rparr>) of
                (a', Inl err) \<Rightarrow> failStep err a'
              | (a', Inr _) \<Rightarrow>
                  if finishOf (at_assembler att) = FinishMaxTokens
                  then a'\<lparr>ag_stage := StepClosing (Inr (Some MaxTokens))\<rparr>
                  else
                    (let calls = filter isToolCall (msg_content m)
                     in if calls = [] then a'\<lparr>ag_stage := StepClosing (Inr (Some Completed))\<rparr>
                        else a'\<lparr>ag_stage := Executing
                               (newExec turn step calls (ac_maxParallel (ag_config a')) (ag_state a')
                                  (aborted a'))\<rparr>)))"

definition execState :: "exec \<Rightarrow> inbox_state" where
  "execState x = (case ex_stage x of Running cfg p \<Rightarrow> pl_state p | _ \<Rightarrow> ex_state x)"

text \<open>One step of the tool scheduler, and the return of \<^verbatim>\<open>executeToolCalls\<close>.\<close>

definition afterExec :: "exec \<Rightarrow> agent \<Rightarrow> agent" where
  "afterExec x a =
     (a\<lparr>ag_state := execState x\<rparr>)\<lparr>ag_stage :=
        (case ex_stage x of
           Done concluded \<Rightarrow> StepClosing (Inr (if concluded then Some Completed else None))
         | Thrown err \<Rightarrow> StepClosing (Inl (LoopTools err))
         | _ \<Rightarrow> Executing x)\<rparr>"

section \<open>The calls of other code\<close>

text \<open>
  Other code reaches the session and the inbox at any moment the driver is not running code of its
  own; while tools run that is when the scheduler is suspended.
\<close>

definition outside :: "foreign \<Rightarrow> agent \<Rightarrow> agent option" where
  "outside f a =
     (case ag_stage a of
        Executing x \<Rightarrow>
          map_option (\<lambda>x'. a\<lparr>ag_state := execState x', ag_stage := Executing x'\<rparr>)
            (execStep x (Group (Foreign f)))
      | _ \<Rightarrow> if admissible f then Some (a\<lparr>ag_state := applyForeign (ag_state a) f\<rparr>) else None)"

definition spliced :: "agent \<Rightarrow> foreign \<Rightarrow> bool" where
  "spliced a f =
     (case f of
        ForeignSplice target start n inserted ae \<Rightarrow>
          \<not> isl (snd (spliceInbox (ag_state a) (ae_now ae) (ae_veto ae) target start n inserted))
      | _ \<Rightarrow> False)"

text \<open>
  \<^verbatim>\<open>send\<close>, with the target resolved before the insertion; the driver is woken only when the
  insertion did not throw.
\<close>

definition sendStep :: "message \<Rightarrow> inbox_target \<Rightarrow> bool \<Rightarrow> append_env \<Rightarrow> agent \<Rightarrow> agent option" where
  "sendStep m target wakeup ae a =
     (let wakingAfterAbort = (wakeup \<and> aborted a);
          f = ForeignSplice (if wakingAfterAbort then NextTurn else target) PlusInfinity (Finite 0) [m] ae
      in map_option (\<lambda>a'. if wakeup \<and> spliced a f then wakeDriver wakingAfterAbort a' else a')
           (outside f a))"

definition followup :: "message \<Rightarrow> append_env \<Rightarrow> agent \<Rightarrow> agent option" where
  "followup m ae a = sendStep m NextTurn True ae a"

definition steer :: "message \<Rightarrow> append_env \<Rightarrow> agent \<Rightarrow> agent option" where
  "steer m ae a = sendStep m NextStep True ae a"

definition inject :: "message \<Rightarrow> append_env \<Rightarrow> agent \<Rightarrow> agent option" where
  "inject m ae a = sendStep m NextStep False ae a"

text \<open>The abort reaches a running scheduler through the signal they share.\<close>

definition raiseAbort :: "cancel_cause \<Rightarrow> agent \<Rightarrow> agent" where
  "raiseAbort cause a =
     (let a' = a\<lparr>ag_phase := abortPhase cause (ag_phase a)\<rparr>
      in case ag_stage a of
           Executing x \<Rightarrow>
             (case execStep x (Group Abort) of
                Some x' \<Rightarrow> a'\<lparr>ag_stage := Executing x'\<rparr>
              | None \<Rightarrow> a'\<lparr>ag_stage := Executing (x\<lparr>ex_signal := True\<rparr>)\<rparr>)
         | _ \<Rightarrow> a')"

definition clearing :: "inbox_target \<Rightarrow> append_env \<Rightarrow> agent \<Rightarrow> foreign" where
  "clearing target ae a =
     ForeignSplice target (Finite 0) (Finite (of_nat (length (pending (fst (ag_state a)) target)))) [] ae"

text \<open>\<^verbatim>\<open>cancel\<close>: when clearing the inbox throws, nothing is aborted.\<close>

definition cancelStep :: "cancel_cause \<Rightarrow> bool \<Rightarrow> append_env \<Rightarrow> append_env \<Rightarrow> agent \<Rightarrow> agent option" where
  "cancelStep cause keepInbox ae1 ae2 a =
     (if keepInbox then Some (raiseAbort cause a)
      else
        (let f1 = clearing NextStep ae1 a
         in Option.bind (outside f1 a) (\<lambda>a1.
            if \<not> spliced a f1 then Some a1
            else
              (let f2 = clearing NextTurn ae2 a1
               in map_option (\<lambda>a2.
                    if \<not> spliced a1 f2 then a2
                    else raiseAbort cause (a2\<lparr>ag_phase := withWake False (ag_phase a2)\<rparr>)) (outside f2 a1)))))"

text \<open>\<^verbatim>\<open>runMaintenance\<close>: its synchronous part, and what runs when the job has settled.\<close>

definition startMaintenance :: "agent \<Rightarrow> agent option" where
  "startMaintenance a =
     (case ag_phase a of
        IdlePhase t \<Rightarrow> Some (setPhase (MaintenancePhase None t False) a)
      | _ \<Rightarrow> None)"

definition endMaintenance :: "agent \<Rightarrow> agent option" where
  "endMaintenance a =
     (case ag_phase a of
        MaintenancePhase _ t wake \<Rightarrow>
          (let a' = setPhase (IdlePhase t) a
           in Some (if wake \<and> hasPending (fst (ag_state a')) then wakeDriver False a' else a'))
      | _ \<Rightarrow> None)"

section \<open>The machine\<close>

datatype loop_input =
    OpenTurn append_env
  | Claim int "bool \<times> bool"
  | Assembled "prompt_error + prompt_assembly" string
  | Decided "message list \<Rightarrow> pre_decision \<Rightarrow> thrown + pre_decision"
  | OpenStep append_env
  | Post append_env
  | Build
  | Proposed "call_config \<Rightarrow> thrown + call_config"
  | CallPrepared "thrown + prepared_call" append_env append_env
  | Dispatched "thrown + unit"
  | Chunk stream_chunk append_env
  | StreamThrew thrown
  | StreamEnded string
  | Recovered "thrown + bool"
  | Reviewed "thrown + bool"
  | Answer "nat \<Rightarrow> append_env" append_env
  | Tools exec_input
  | CloseStep append_env
  | Stopped "thrown + unit"
  | CloseTurn append_env
  | Converge
  | Send message inbox_target bool append_env
  | Cancel cancel_cause bool append_env append_env
  | StartMaintenance
  | EndMaintenance
  | Outside foreign

text \<open>
  The calls of other code, and the answers the driver awaits: what a promise of the prompt, of a
  hook, of the model or of the tool registry yields. All other inputs are synchronous steps of the
  driver.
\<close>

fun externalInput :: "loop_input \<Rightarrow> bool" where
  "externalInput (Send _ _ _ _) = True"
| "externalInput (Cancel _ _ _ _) = True"
| "externalInput StartMaintenance = True"
| "externalInput EndMaintenance = True"
| "externalInput (Outside _) = True"
| "externalInput (Tools (Group i)) = (\<not> ownInput i \<and> \<not> answerInput i)"
| "externalInput _ = False"

fun awaitedInput :: "loop_input \<Rightarrow> bool" where
  "awaitedInput (Assembled _ _) = True"
| "awaitedInput (Decided _) = True"
| "awaitedInput (Proposed _) = True"
| "awaitedInput (CallPrepared _ _ _) = True"
| "awaitedInput (Chunk _ _) = True"
| "awaitedInput (StreamThrew _) = True"
| "awaitedInput (StreamEnded _) = True"
| "awaitedInput (Recovered _) = True"
| "awaitedInput (Reviewed _) = True"
| "awaitedInput (Stopped _) = True"
| "awaitedInput (Tools (Group i)) = answerInput i"
| "awaitedInput _ = False"

definition driverInput :: "loop_input \<Rightarrow> bool" where
  "driverInput i \<longleftrightarrow> \<not> externalInput i \<and> \<not> awaitedInput i"

text \<open>The scheduler sees an abort only through the signal of the driver, which \<open>Cancel\<close> raises.\<close>

fun abortInput :: "exec_input \<Rightarrow> bool" where
  "abortInput (Group Abort) = True"
| "abortInput _ = False"

definition driverStep :: "agent \<Rightarrow> loop_input \<Rightarrow> agent option" where
  "driverStep a i =
     (case (ag_stage a, i) of
        (TurnOpening, OpenTurn ae) \<Rightarrow> Some (openTurnStep ae a)
      | (PreStepping target, Claim now vetoes) \<Rightarrow> Some (claimStep now vetoes target a)
      | (Assembling claimed, Assembled r fresh) \<Rightarrow> Some (assembledStep r fresh claimed a)
      | (Deciding claimed proposed assembly, Decided decide) \<Rightarrow>
          Some (decidedStep decide claimed proposed assembly a)
      | (StepOpening messages assembly mode, OpenStep ae) \<Rightarrow> Some (openStepStep ae messages assembly mode a)
      | (Posting (m # rest) assembly mode, Post ae) \<Rightarrow> Some (postStep ae m rest assembly mode a)
      | (Building assembly mode, Build) \<Rightarrow> Some (buildStep assembly mode a)
      | (Proposing assembly mode system boundary seed, Proposed propose) \<Rightarrow>
          Some (proposedStep propose assembly mode system boundary seed a)
      | (PreparingCall assembly mode system boundary proposed, CallPrepared r ae1 ae2) \<Rightarrow>
          Some (preparedStep r ae1 ae2 assembly mode system boundary proposed a)
      | (Dispatching assembly mode request, Dispatched r) \<Rightarrow> Some (dispatchStep r assembly mode request a)
      | (Streaming assembly mode att, Chunk chunk ae) \<Rightarrow> Some (chunkStep chunk ae assembly mode att a)
      | (Streaming assembly mode att, StreamThrew err) \<Rightarrow> Some (failStep (LoopThrown err) a)
      | (Streaming assembly mode att, StreamEnded fresh) \<Rightarrow> Some (streamEndStep fresh assembly mode att a)
      | (Recovering assembly mode f, Recovered r) \<Rightarrow> Some (recoveredStep r assembly mode f a)
      | (Reviewing assembly att m, Reviewed r) \<Rightarrow> Some (reviewedStep r att m a)
      | (Reassembling mode, Assembled r _) \<Rightarrow> Some (reassembledStep r mode a)
      | (Answering mode att m, Answer env ae) \<Rightarrow> Some (answerStep env ae mode att m a)
      | (Executing x, Tools e) \<Rightarrow>
          if abortInput e then None else map_option (\<lambda>x'. afterExec x' a) (execStep x e)
      | (StepClosing result, CloseStep ae) \<Rightarrow> Some (closeStepStep ae result a)
      | (Stopping, Stopped r) \<Rightarrow> Some (stoppedStep r a)
      | (TurnClosing exit, CloseTurn ae) \<Rightarrow> map_option (\<lambda>reason. closeTurnStep ae exit reason a) (ag_turnEnds a)
      | (Converging, Converge) \<Rightarrow> Some (convergeStep a)
      | (_, Send m target wakeup ae) \<Rightarrow> sendStep m target wakeup ae a
      | (_, Cancel cause keepInbox ae1 ae2) \<Rightarrow> cancelStep cause keepInbox ae1 ae2 a
      | (_, StartMaintenance) \<Rightarrow> startMaintenance a
      | (_, EndMaintenance) \<Rightarrow> endMaintenance a
      | (_, Outside f) \<Rightarrow> outside f a
      | _ \<Rightarrow> None)"

text \<open>The runtime-context projection follows every event that was published in the step.\<close>

definition followEvents :: "agent \<Rightarrow> agent \<Rightarrow> agent" where
  "followEvents a a' =
     a'\<lparr>ag_retained := foldl observe (ag_retained a) (drop (length (logS (ag_state a))) (logS (ag_state a')))\<rparr>"

definition loopStep :: "agent \<Rightarrow> loop_input \<Rightarrow> agent option" where
  "loopStep a i = map_option (followEvents a) (driverStep a i)"

fun loopRun :: "agent \<Rightarrow> loop_input list \<Rightarrow> agent option" where
  "loopRun a [] = Some a"
| "loopRun a (i # is) = Option.bind (loopStep a i) (\<lambda>a'. loopRun a' is)"

end
