(* ===== verification/Loop_Trace.thy ===== *)
theory Loop_Trace
  imports Agent_Loop Scheduler_Companion
begin

text \<open>
  The driver and the relational invariants of the session together: what the driver writes is
  always accepted by the companion that checks the log, and the place of the machine says which
  turn and step are open.
\<close>

section \<open>Growth of the log\<close>

definition loopLog :: "agent \<Rightarrow> event list" where
  "loopLog a = logS (ag_state a)"

text \<open>\<open>grows Q st st'\<close>: the log of \<open>st'\<close> is the one of \<open>st\<close> and some events that have \<open>Q\<close>.\<close>

definition grows :: "(event \<Rightarrow> bool) \<Rightarrow> inbox_state \<Rightarrow> inbox_state \<Rightarrow> bool" where
  "grows Q st st' \<longleftrightarrow>
     (\<exists>es. logS st' = logS st @ es \<and> list_all Q es
        \<and> map seq es = [length (logS st) ..< length (logS st) + length es])"

lemma foreignGrowth_grows: "foreignGrowth st st' = grows (\<lambda>e. \<not> loopEvent e) st st'"
  by (simp add: foreignGrowth_def grows_def)

lemma grows_refl: "logS st' = logS st \<Longrightarrow> grows Q st st'"
  by (simp add: grows_def)

lemma grows_one: "logS st' = logS st @ [e] \<Longrightarrow> Q e \<Longrightarrow> seq e = length (logS st) \<Longrightarrow> grows Q st st'"
  by (auto simp: grows_def)

lemma grows_mono: "grows Q st st' \<Longrightarrow> (\<And>e. Q e \<Longrightarrow> R e) \<Longrightarrow> grows R st st'"
  by (auto simp: grows_def list_all_iff)

lemma grows_trans:
  assumes "grows Q a b" and "grows Q b c"
  shows "grows Q a c"
proof -
  obtain es where es: "logS b = logS a @ es" "list_all Q es"
      "map seq es = [length (logS a) ..< length (logS a) + length es]"
    using assms(1) by (auto simp: grows_def)
  obtain fs where fs: "logS c = logS b @ fs" "list_all Q fs"
      "map seq fs = [length (logS b) ..< length (logS b) + length fs]"
    using assms(2) by (auto simp: grows_def)
  have "map seq (es @ fs) = [length (logS a) ..< length (logS a) + length (es @ fs)]"
    using es(3) fs(3) upt_add_eq_append [of "length (logS a)" "length (logS a) + length es" "length fs"]
    by (simp add: es(1) add.assoc)
  then show ?thesis
    unfolding grows_def using es(1,2) fs(1,2) by (intro exI [of _ "es @ fs"]) simp
qed

text \<open>The splices of an inbox, and the events that may come between two turns.\<close>

fun quiet :: "event_data \<Rightarrow> bool" where
  "quiet (TodoWrite _) = False"
| "quiet (ToolResult _) = False"
| "quiet _ = True"

definition between :: "event \<Rightarrow> bool" where
  "between e \<longleftrightarrow> \<not> loopEvent e \<and> quiet (ev_data e)"

lemma logAppend_between:
  assumes "logAppend S now veto d = (S', r)" and "\<And>x. d = Some x \<Longrightarrow> \<not> loopOwned x None \<and> quiet x"
  shows "grows between (ib, S, ns) (ib', S', ns')"
proof (cases r)
  case (Inl err)
  then have "s_log S' = s_log S" using assms(1) logAppend_Inl by blast
  then show ?thesis by (intro grows_refl) (simp add: logS_def sessionOf_def)
next
  case (Inr ev)
  then have "s_log S' = s_log S @ [ev]" "d = Some (ev_data ev)" "surfaceOp ev = None" "seq ev = length (s_log S)"
    using assms(1) appendWith_Inr [of S now veto d "Some (None, None)" S' ev] by (auto simp: logAppend_def)
  then show ?thesis
    using assms(2) by (intro grows_one [of _ _ ev]) (auto simp: logS_def sessionOf_def between_def)
qed

lemma mutate_between:
  assumes "mutate st now veto target start n ins d = (st', r)"
  shows "grows between st st'"
proof -
  obtain ib S ns where st: "st = (ib, S, ns)" by (cases st)
  from assms show ?thesis
    by (auto simp: mutate_def st Let_def split: prod.splits if_split_asm sum.splits
        intro: grows_refl) (erule logAppend_between, force)+
qed

lemma notifyClaimed_log: "logS (notifyClaimed st ms turn) = logS st"
  by (cases st) (simp add: notifyClaimed_def logS_def sessionOf_def)

lemma claim_between:
  assumes "claimInbox st now vetoes target turn = (st', r)"
  shows "grows between st st'"
proof -
  obtain st1 r1 where m1: "mutate st now (fst vetoes) NextStep (Finite 0)
      (Finite (of_nat (length (ib_nextStep (fst st))))) [] False = (st1, r1)" by fastforce
  obtain st2 r2 where m2: "mutate st1 now (snd vetoes) NextTurn (Finite 0) (Finite 1) [] False = (st2, r2)" by fastforce
  have "grows between st st1" "grows between st st2"
    using mutate_between [OF m1] grows_trans [OF mutate_between [OF m1] mutate_between [OF m2]] by blast+
  moreover have "logS st' = logS st1 \<or> logS st' = logS st2"
    using assms m1 m2 by (auto simp: claimInbox_def notifyClaimed_log split: sum.splits if_splits)
  ultimately show ?thesis by (auto simp: grows_def)
qed

lemma foreign_between:
  assumes "admissible f" and "\<And>d op ss ae. f = ForeignAppend d op ss ae \<Longrightarrow> quiet d"
  shows "grows between st (applyForeign st f)"
proof (cases f)
  case (ForeignAppend d op sources ae)
  obtain st' r where a: "driverAppend ae d (op, sources) st = (st', r)" by fastforce
  then show ?thesis
    using ForeignAppend assms driverAppend_Inr [of ae d _ st st'] driverAppend_Inl [of ae d _ st st']
    by (cases r) (auto simp: applyForeign_def admissible_def between_def intro: grows_refl grows_one)
next
  case (ForeignSplice target start n inserted ae)
  then show ?thesis
    unfolding applyForeign_def spliceInbox_def by (auto intro: mutate_between prod.collapse [symmetric])
qed

section \<open>Where the companion stands\<close>

lemma atTrace_grows:
  assumes "atTrace turn step nt ns pend (logS st)" and "grows Q st st'"
    and "\<And>lg e. atTrace turn step nt ns pend lg \<Longrightarrow> Q e \<Longrightarrow> seq e = length lg \<Longrightarrow> atTrace turn step nt ns pend (lg @ [e])"
  shows "atTrace turn step nt ns pend (logS st')"
proof -
  obtain es where es: "logS st' = logS st @ es" "list_all Q es"
      "map seq es = [length (logS st) ..< length (logS st) + length es]"
    using assms(2) by (auto simp: grows_def)
  have "atTrace turn step nt ns pend (lg @ es)"
    if "atTrace turn step nt ns pend lg" "list_all Q es" "map seq es = [length lg ..< length lg + length es]" for lg
    using that
  proof (induction es arbitrary: lg)
    case (Cons e es)
    have "seq e = length lg" "map seq es = [Suc (length lg) ..< Suc (length lg) + length es]"
      using Cons.prems(3) upt_conv_Cons [of "length lg" "length lg + length (e # es)"]
      by (simp_all del: upt_Suc)
    then show ?case
      using Cons.IH [of "lg @ [e]"] Cons.prems(1,2) assms(3) [OF Cons.prems(1)] by simp
  qed simp
  then show ?thesis using es assms(1) by simp
qed

lemma atTrace_between:
  assumes "atTrace turn step nt ns pend lg" and "between e" and "seq e = length lg"
  shows "atTrace turn step nt ns pend (lg @ [e])"
  by (rule atTrace_step [OF assms(1,3)])
    (use assms(2,3) in \<open>cases "ev_data e"; auto simp: between_def trace_simps split: if_splits\<close>)

lemma atTrace_turnStart:
  assumes "atTrace None None (T + 1) ns {} lg" and "seq e = length lg" and "ev_data e = TurnStart (T + 1)"
  shows "atTrace (Some (T + 1)) None (T + 1) 1 {} (lg @ [e])"
  by (rule atTrace_step [OF assms(1,2)]) (use assms(2,3) in \<open>auto simp: trace_simps\<close>)

lemma atTrace_turnEnd:
  assumes "atTrace (Some T) None T ns {} lg" and "seq e = length lg" and "ev_data e = TurnEnd T reason"
  shows "atTrace None None (T + 1) ns {} (lg @ [e])"
  by (rule atTrace_step [OF assms(1,2)]) (use assms(2,3) in \<open>auto simp: trace_simps\<close>)

lemma atTrace_stepStart:
  assumes "atTrace (Some T) None T P {} lg" and "seq e = length lg" and "ev_data e = StepStart T P"
  shows "atTrace (Some T) (Some P) T P {} (lg @ [e])"
  by (rule atTrace_step [OF assms(1,2)]) (use assms(2,3) in \<open>auto simp: trace_simps\<close>)

lemma atTrace_stepEnd:
  assumes "atTrace (Some T) (Some P) T P {} lg" and "seq e = length lg" and "ev_data e = StepEnd T P"
  shows "atTrace (Some T) None T (P + 1) {} (lg @ [e])"
  by (rule atTrace_step [OF assms(1,2)]) (use assms(2,3) in \<open>auto simp: trace_simps\<close>)

text \<open>The events of a step that move neither the turn nor the step.\<close>

fun stepEvent :: "int \<Rightarrow> int \<Rightarrow> event_data \<Rightarrow> bool" where
  "stepEvent T P (AssistantChunk t p _) = (t = T \<and> p = P)"
| "stepEvent T P (AssistantMsg t p _ _) = (t = T \<and> p = P)"
| "stepEvent T P (RequestHeader _ _) = True"
| "stepEvent T P (RequestContext _) = True"
| "stepEvent T P (UserMsg _) = True"
| "stepEvent T P _ = False"

lemma atTrace_stepEvent:
  assumes "atTrace (Some T) (Some P) T P {} lg" and "seq e = length lg" and "stepEvent T P (ev_data e)"
  shows "atTrace (Some T) (Some P) T P {} (lg @ [e])"
  by (rule atTrace_step [OF assms(1,2)])
    (use assms(2,3) in \<open>cases "ev_data e"; auto simp: trace_simps\<close>)

section \<open>The places of the machine\<close>

datatype place = BetweenTurns | InTurn | InStep

fun placeOf :: "driver_stage \<Rightarrow> place" where
  "placeOf NoDriver = BetweenTurns"
| "placeOf TurnOpening = BetweenTurns"
| "placeOf Converging = BetweenTurns"
| "placeOf (PreStepping _) = InTurn"
| "placeOf (Assembling _) = InTurn"
| "placeOf (Deciding _ _ _) = InTurn"
| "placeOf (StepOpening _ _ _) = InTurn"
| "placeOf Stopping = InTurn"
| "placeOf (TurnClosing _) = InTurn"
| "placeOf _ = InStep"

definition tracePlace :: "place \<Rightarrow> int \<Rightarrow> int \<Rightarrow> event list \<Rightarrow> bool" where
  "tracePlace pl T P lg =
     (case pl of
        BetweenTurns \<Rightarrow> (\<exists>ns. atTrace None None (T + 1) ns {} lg)
      | InTurn \<Rightarrow> atTrace (Some T) None T (P + 1) {} lg
      | InStep \<Rightarrow> atTrace (Some T) (Some P) T P {} lg)"

abbreviation "phaseTurn a \<equiv> turnOf (ag_phase a)"
abbreviation "phaseStep a \<equiv> stepOf (ag_phase a)"

definition execOK :: "agent \<Rightarrow> bool" where
  "execOK a \<longleftrightarrow>
     (case ag_stage a of
        Executing x \<Rightarrow>
          ag_state a = execState x \<and> ex_turn x = phaseTurn a \<and> ex_step x = phaseStep a
          \<and> distinct (map call_id (ex_planned x)) \<and> (\<exists>base. execInv base x)
          \<and> execTrace (phaseTurn a) (phaseStep a) x
      | _ \<Rightarrow> True)"

definition loopInv :: "agent \<Rightarrow> bool" where
  "loopInv a \<longleftrightarrow>
     (isRunning (ag_phase a) \<longleftrightarrow> ag_stage a \<noteq> NoDriver)
     \<and> (ag_stage a = TurnOpening \<longrightarrow> phaseStep a = 0)
     \<and> (\<forall>exit. ag_stage a = TurnClosing exit \<longrightarrow> ag_turnEnds a \<noteq> None)
     \<and> tracePlace (placeOf (ag_stage a)) (phaseTurn a) (phaseStep a) (loopLog a)
     \<and> execOK a"

lemma tracePlace_grows:
  assumes "tracePlace pl T P (logS st)" and "grows between st st'"
  shows "tracePlace pl T P (logS st')"
  using assms(1) atTrace_grows [OF _ assms(2)] atTrace_between
  unfolding tracePlace_def by (cases pl) (simp; blast)+

lemma tracePlace_foreign:
  assumes "tracePlace pl T P (logS st)" and "grows (\<lambda>e. \<not> loopEvent e) st st'" and "pl \<noteq> BetweenTurns"
  shows "tracePlace pl T P (logS st')"
  using assms(1,3) atTrace_grows [OF _ assms(2)] atTrace_foreign
  unfolding tracePlace_def by (cases pl) (simp; blast)+

section \<open>Every step keeps the companion satisfied\<close>

lemma loopLog_frame [simp]:
  "loopLog (a\<lparr>ag_stage := s\<rparr>) = loopLog a"
  "loopLog (a\<lparr>ag_phase := ph\<rparr>) = loopLog a"
  "loopLog (a\<lparr>ag_turnEnds := r\<rparr>) = loopLog a"
  "loopLog (a\<lparr>ag_headerLogged := b\<rparr>) = loopLog a"
  "loopLog (a\<lparr>ag_retained := k\<rparr>) = loopLog a"
  "loopLog (a\<lparr>ag_errors := es\<rparr>) = loopLog a"
  "loopLog (a\<lparr>ag_statuses := ss\<rparr>) = loopLog a"
  "loopLog (a\<lparr>ag_state := st\<rparr>) = logS st"
  by (simp_all add: loopLog_def)

lemma fail_frame [simp]:
  "loopLog (failTurn err a) = loopLog a" "ag_phase (failTurn err a) = ag_phase a"
  "ag_stage (failTurn err a) = TurnClosing (Throwing err)" "ag_turnEnds (failTurn err a) \<noteq> None"
  "ag_state (failTurn err a) = ag_state a"
  "loopLog (failStep err a) = loopLog a" "ag_phase (failStep err a) = ag_phase a"
  "ag_stage (failStep err a) = StepClosing (Inl err)" "ag_state (failStep err a) = ag_state a"
  "loopLog (reportError err a) = loopLog a" "ag_phase (reportError err a) = ag_phase a"
  "ag_stage (reportError err a) = ag_stage a" "ag_state (reportError err a) = ag_state a"
  by (simp_all add: failTurn_def failStep_def reportError_def split: option.split)

lemma loopAppend_cases:
  assumes "loopAppend ae d meta a = (a', r)"
  obtains (err) st err where "r = Inl err" "a' = a\<lparr>ag_state := st\<rparr>" "logS st = loopLog a"
  | (ok) st ev where "r = Inr ev" "a' = a\<lparr>ag_state := st\<rparr>" "logS st = loopLog a @ [ev]" "ev_data ev = d"
      "seq ev = length (loopLog a)" "(surfaceOp ev, sourceEventSeqs ev) = meta"
proof -
  obtain st q where q: "driverAppend ae d meta (ag_state a) = (st, q)" by fastforce
  then have a': "a' = a\<lparr>ag_state := st\<rparr>" "r = mapErr LoopAppend q" using assms by (simp_all add: loopAppend_def)
  show thesis
  proof (cases q)
    case (Inl e)
    then show thesis using err [of "LoopAppend e" st] a' q by (simp add: loopLog_def driverAppend_Inl)
  next
    case (Inr ev)
    then show thesis using ok [of ev st] a' q by (auto simp: loopLog_def dest: driverAppend_Inr)
  qed
qed

lemma onSession_frame:
  assumes "onSession f a = (a', r)" and "\<And>S. s_log (fst (f S)) = s_log S"
  obtains st where "a' = a\<lparr>ag_state := st\<rparr>" and "logS st = loopLog a" and "fst st = fst (ag_state a)"
proof -
  obtain ib S ns where st: "ag_state a = (ib, S, ns)" by (cases "ag_state a")
  then have "a' = a\<lparr>ag_state := (ib, fst (f S), ns)\<rparr>" using assms(1) by (auto simp: onSession_def split: prod.splits)
  then show thesis using that assms(2) [of S] st by (simp add: loopLog_def logS_def sessionOf_def)
qed

lemma read_logs:
  "s_log (fst (requestHeader S)) = s_log S" "s_log (fst (requestContext S)) = s_log S"
  "s_log (fst (deriveMessages S)) = s_log S"
  by (auto simp: requestHeader_def requestContext_def deriveMessages_def Let_def split: prod.split sum.split)

definition inTurn :: "agent \<Rightarrow> bool" where
  "inTurn a \<longleftrightarrow> isRunning (ag_phase a) \<and> tracePlace InTurn (phaseTurn a) (phaseStep a) (loopLog a)"

definition inStep :: "agent \<Rightarrow> bool" where
  "inStep a \<longleftrightarrow> isRunning (ag_phase a) \<and> tracePlace InStep (phaseTurn a) (phaseStep a) (loopLog a)"

lemma loopInv_inTurn:
  "inTurn a \<Longrightarrow> placeOf (ag_stage a) = InTurn \<Longrightarrow> (\<And>exit. ag_stage a = TurnClosing exit \<Longrightarrow> ag_turnEnds a \<noteq> None)
    \<Longrightarrow> loopInv a"
  by (cases "ag_stage a") (auto simp: loopInv_def inTurn_def execOK_def)

lemma loopInv_inStep:
  "inStep a \<Longrightarrow> placeOf (ag_stage a) = InStep \<Longrightarrow> execOK a \<Longrightarrow> loopInv a"
  by (cases "ag_stage a") (auto simp: loopInv_def inStep_def)

lemma inTurn_of: "loopInv a \<Longrightarrow> placeOf (ag_stage a) = InTurn \<Longrightarrow> inTurn a"
  by (cases "ag_stage a") (auto simp: loopInv_def inTurn_def)

lemma inStep_of: "loopInv a \<Longrightarrow> placeOf (ag_stage a) = InStep \<Longrightarrow> inStep a"
  by (cases "ag_stage a") (auto simp: loopInv_def inStep_def)

lemma place_frame [simp]:
  "inTurn (a\<lparr>ag_stage := s\<rparr>) = inTurn a" "inStep (a\<lparr>ag_stage := s\<rparr>) = inStep a"
  "inTurn (a\<lparr>ag_turnEnds := r\<rparr>) = inTurn a" "inStep (a\<lparr>ag_turnEnds := r\<rparr>) = inStep a"
  "inTurn (a\<lparr>ag_headerLogged := b\<rparr>) = inTurn a" "inStep (a\<lparr>ag_headerLogged := b\<rparr>) = inStep a"
  "inTurn (failTurn err a) = inTurn a" "inStep (failStep err a) = inStep a"
  by (simp_all add: inTurn_def inStep_def)

lemma inTurn_state: "inTurn a \<Longrightarrow> logS st = loopLog a \<Longrightarrow> inTurn (a\<lparr>ag_state := st\<rparr>)"
  by (simp add: inTurn_def)

lemma inStep_state: "inStep a \<Longrightarrow> logS st = loopLog a \<Longrightarrow> inStep (a\<lparr>ag_state := st\<rparr>)"
  by (simp add: inStep_def)

lemma failTurn_inv: "inTurn a \<Longrightarrow> loopInv (failTurn err a)"
  by (rule loopInv_inTurn) simp_all

lemma failStep_inv: "inStep a \<Longrightarrow> loopInv (failStep err a)"
  by (rule loopInv_inStep) (simp_all add: execOK_def)

lemma turnStage_inv: "inTurn a \<Longrightarrow> placeOf s = InTurn \<Longrightarrow> (\<And>exit. s \<noteq> TurnClosing exit) \<Longrightarrow> loopInv (a\<lparr>ag_stage := s\<rparr>)"
  by (rule loopInv_inTurn) simp_all

lemma stepStage_inv: "inStep a \<Longrightarrow> placeOf s = InStep \<Longrightarrow> (\<And>x. s \<noteq> Executing x) \<Longrightarrow> loopInv (a\<lparr>ag_stage := s\<rparr>)"
  by (rule loopInv_inStep) (simp_all add: execOK_def split: driver_stage.split)

lemma turnAlive_inv: "inTurn a \<Longrightarrow> loopInv b \<Longrightarrow> loopInv (turnAlive a b)"
  by (simp add: turnAlive_def failTurn_inv)

lemma stepAlive_inv: "inStep a \<Longrightarrow> loopInv b \<Longrightarrow> loopInv (stepAlive a b)"
  by (simp add: stepAlive_def failStep_inv)

lemma closing_inv: "inTurn a \<Longrightarrow> ag_turnEnds a \<noteq> None \<Longrightarrow> loopInv (a\<lparr>ag_stage := TurnClosing exit\<rparr>)"
  by (rule loopInv_inTurn) simp_all

text \<open>An append of the driver inside a step.\<close>

lemma inStep_append:
  assumes "inStep a" and "logS st = loopLog a @ [ev]" and "seq ev = length (loopLog a)"
    and "stepEvent (phaseTurn a) (phaseStep a) (ev_data ev)"
  shows "inStep (a\<lparr>ag_state := st\<rparr>)"
  using assms atTrace_stepEvent by (auto simp: inStep_def tracePlace_def)

section \<open>The steps of a turn\<close>

lemma openTurnStep_inv:
  assumes "loopInv a" and "ag_stage a = TurnOpening"
  shows "loopInv (openTurnStep ae a)"
proof -
  let ?T = "phaseTurn a"
  have run: "isRunning (ag_phase a)" "phaseStep a = 0" using assms by (simp_all add: loopInv_def)
  have tr: "tracePlace BetweenTurns ?T P (loopLog a)" for P
    using assms by (simp add: loopInv_def tracePlace_def)
  obtain a' r where ap: "loopAppend ae (TurnStart (?T + 1)) unmarked a = (a', r)" by fastforce
  then show ?thesis
  proof (cases rule: loopAppend_cases)
    case (err st e)
    then show ?thesis
      using run tr ap by (simp add: openTurnStep_def Let_def loopInv_def execOK_def tracePlace_def)
  next
    case (ok st ev)
    obtain ns where ns: "atTrace None None (?T + 1) ns {} (loopLog a)" using tr by (auto simp: tracePlace_def)
    obtain ab t w where ph: "ag_phase a = RunningPhase ab t 0 w"
      using run by (cases "ag_phase a") auto
    have "atTrace (Some (?T + 1)) None (?T + 1) 1 {} (logS st)"
      using atTrace_turnStart [OF ns ok(5,4)] ok(3) by simp
    then show ?thesis
      using ap ok(1,2) ph tr
      by (auto simp: openTurnStep_def Let_def loopInv_def execOK_def tracePlace_def)
  qed
qed

lemma claimStep_inv:
  assumes "inTurn a"
  shows "loopInv (claimStep now vetoes target a)"
proof -
  obtain st r where c: "claimInbox (ag_state a) now vetoes target (phaseTurn a) = (st, r)" by fastforce
  have "tracePlace InTurn (phaseTurn a) (phaseStep a) (logS st)"
    using tracePlace_grows [OF _ claim_between [OF c]] assms by (simp add: inTurn_def loopLog_def)
  then have "inTurn (a\<lparr>ag_state := st\<rparr>)" using assms by (simp add: inTurn_def)
  then show ?thesis
    using c assms by (cases r) (auto simp: claimStep_def intro!: turnAlive_inv failTurn_inv turnStage_inv)
qed

lemma assembledStep_inv: "inTurn a \<Longrightarrow> loopInv (assembledStep r fresh claimed a)"
  by (auto simp: assembledStep_def Let_def intro!: turnAlive_inv failTurn_inv turnStage_inv split: sum.split)

lemma decidedStep_inv: "inTurn a \<Longrightarrow> loopInv (decidedStep decide claimed proposed assembly a)"
  by (auto simp: decidedStep_def
      intro!: turnAlive_inv failTurn_inv turnStage_inv closing_inv loopInv_inTurn
      split: sum.split option.split)

lemma stopOrGo_inv: "inTurn a \<Longrightarrow> loopInv (stopOrGo a)"
  by (auto simp: stopOrGo_def intro!: turnStage_inv closing_inv)

lemma stoppedStep_inv: "inTurn a \<Longrightarrow> loopInv (stoppedStep r a)"
  by (auto simp: stoppedStep_def intro!: turnAlive_inv failTurn_inv stopOrGo_inv split: sum.split)

lemma openStepStep_inv:
  assumes "inTurn a"
  shows "loopInv (openStepStep ae messages assembly mode a)"
proof -
  let ?T = "phaseTurn a" and ?P = "phaseStep a + 1"
  obtain a' r where ap: "loopAppend ae (StepStart ?T ?P) unmarked a = (a', r)" by fastforce
  then have "loopInv (case r of Inl err \<Rightarrow> failTurn err a'
      | Inr _ \<Rightarrow> a'\<lparr>ag_phase := withStep ?P (ag_phase a'),
          ag_stage := (if messages = [] then Building assembly mode else Posting messages assembly mode)\<rparr>)"
  proof (cases rule: loopAppend_cases)
    case (err st e)
    then show ?thesis using assms inTurn_state failTurn_inv by simp
  next
    case (ok st ev)
    obtain ab t s w where ph: "ag_phase a = RunningPhase ab t s w"
      using assms by (cases "ag_phase a") (auto simp: inTurn_def)
    have "atTrace (Some ?T) (Some ?P) ?T ?P {} (logS st)"
      using assms atTrace_stepStart [OF _ ok(5,4)] ok(3) by (simp add: inTurn_def tracePlace_def)
    then show ?thesis
      using ok(1,2) ph by (auto intro!: loopInv_inStep simp: inStep_def tracePlace_def execOK_def)
  qed
  from turnAlive_inv [OF assms this] show ?thesis
    by (simp only: openStepStep_def Let_def ap prod.case)
qed

lemma postStep_inv:
  assumes "inStep a"
  shows "loopInv (postStep ae m rest assembly mode a)"
proof -
  obtain a' r where ap: "loopAppend ae (UserMsg m) (surfaced None) a = (a', r)" by fastforce
  then show ?thesis
  proof (cases rule: loopAppend_cases)
    case (err st e)
    then show ?thesis using ap assms inStep_state failStep_inv by (simp add: postStep_def)
  next
    case (ok st ev)
    then have "inStep a'" using inStep_append [OF assms ok(3,5)] by simp
    then show ?thesis using ap ok(1) by (auto simp: postStep_def intro!: stepStage_inv)
  qed
qed

lemma closeStepStep_inv:
  assumes "inStep a" and acc: "\<not> isl (snd (driverAppend ae (StepEnd (phaseTurn a) (phaseStep a)) unmarked (ag_state a)))"
  shows "loopInv (closeStepStep ae result a)"
proof -
  let ?T = "phaseTurn a" and ?P = "phaseStep a"
  define a0 where "a0 = (case result of
      Inl _ \<Rightarrow> a | Inr ends \<Rightarrow> if ag_turnEnds a = Some MaxTokens then a else a\<lparr>ag_turnEnds := ends\<rparr>)"
  have a0: "ag_state a0 = ag_state a" "ag_phase a0 = ag_phase a" "loopLog a0 = loopLog a"
    by (simp_all add: a0_def split: sum.split)
  obtain a' r where ap: "loopAppend ae (StepEnd ?T ?P) unmarked a0 = (a', r)" by fastforce
  then show ?thesis
  proof (cases rule: loopAppend_cases)
    case (err st e)
    then show ?thesis using ap acc a0(1) by (auto simp: loopAppend_def split: prod.splits sum.splits) (case_tac x2; simp)+
  next
    case (ok st ev)
    have "atTrace (Some ?T) None ?T (?P + 1) {} (logS st)"
      using assms(1) atTrace_stepEnd [of ?T ?P "loopLog a" ev] ok(3,4,5) a0(3) by (simp add: inStep_def tracePlace_def)
    then have "inTurn a'" using assms(1) ok(2) a0(2) by (simp add: inTurn_def inStep_def tracePlace_def)
    then show ?thesis
      using ap ok(1)
      by (auto simp: closeStepStep_def Let_def a0_def [symmetric]
          intro!: turnAlive_inv failTurn_inv turnStage_inv split: sum.split)
  qed
qed

lemma closeTurnStep_inv:
  assumes "inTurn a" and acc: "\<not> isl (snd (driverAppend ae (TurnEnd (phaseTurn a) reason) unmarked (ag_state a)))"
  shows "loopInv (closeTurnStep ae exit reason a)"
proof -
  let ?T = "phaseTurn a" and ?P = "phaseStep a"
  obtain a' r where ap: "loopAppend ae (TurnEnd ?T reason) unmarked a = (a', r)" by fastforce
  then show ?thesis
  proof (cases rule: loopAppend_cases)
    case (err st e)
    then show ?thesis using ap acc by (auto simp: loopAppend_def split: prod.splits) (case_tac x2; simp)+
  next
    case (ok st ev)
    have "atTrace None None (?T + 1) (?P + 1) {} (logS st)"
      using assms(1) atTrace_turnEnd [OF _ ok(5,4)] ok(3) by (simp add: inTurn_def tracePlace_def)
    then show ?thesis
      using ap ok(1,2) assms(1)
      by (cases exit) (auto simp: closeTurnStep_def loopInv_def inTurn_def execOK_def tracePlace_def)
  qed
qed

section \<open>The steps of a step\<close>

lemma onSession_inStep:
  assumes "inStep a" and "onSession f a = (a', r)" and "\<And>S. s_log (fst (f S)) = s_log S"
  shows "inStep a'"
  using onSession_frame [OF assms(2,3)] inStep_state [OF assms(1)] by metis

lemma buildStep_inv:
  assumes "inStep a"
  shows "loopInv (buildStep assembly mode a)"
proof -
  obtain a1 r1 where o1: "onSession deriveMessages a = (a1, r1)" by fastforce
  obtain a2 r2 where o2: "onSession requestHeader a1 = (a2, r2)" by fastforce
  have i1: "inStep a1" by (rule onSession_inStep [OF assms o1 read_logs(3)])
  have "inStep a2" by (rule onSession_inStep [OF i1 o2 read_logs(1)])
  with i1 show ?thesis
    using assms o1 o2
    by (auto simp: buildStep_def intro!: stepAlive_inv failStep_inv stepStage_inv split: sum.split)
qed

lemma proposedStep_inv: "inStep a \<Longrightarrow> loopInv (proposedStep propose assembly mode system boundary seed a)"
  by (auto simp: proposedStep_def intro!: stepAlive_inv failStep_inv stepStage_inv split: sum.split)

lemma loopAppend_inStep:
  assumes "inStep a" and "loopAppend ae d meta a = (a', r)" and "stepEvent (phaseTurn a) (phaseStep a) d"
  shows "inStep a'"
  using assms(2)
proof (cases rule: loopAppend_cases)
  case (err st e)
  then show ?thesis using inStep_state [OF assms(1)] by simp
next
  case (ok st ev)
  then show ?thesis using inStep_append [OF assms(1) ok(3,5)] assms(3) by simp
qed

lemma logHeader_inStep:
  assumes "inStep a" and "logHeader ae header a = (a', r)"
  shows "inStep a'"
proof -
  obtain a1 baseline where o: "onSession requestHeader a = (a1, baseline)" by fastforce
  have i: "inStep a1" by (rule onSession_inStep [OF assms(1) o read_logs(1)])
  have app: "inStep x" if "loopAppend ae (RequestHeader header t) unmarked a1 = (x, q)" for t x q
    by (rule loopAppend_inStep [OF i that]) simp
  show ?thesis
    using assms(2) o i
    by (auto simp: logHeader_def split: prod.splits sum.splits if_split_asm dest!: app)
qed

lemma logContext_inStep:
  assumes "inStep a" and "logContext ae ctx a = (a', r)"
  shows "inStep a'"
proof -
  obtain a1 previous where o: "onSession requestContext a = (a1, previous)" by fastforce
  have i: "inStep a1" by (rule onSession_inStep [OF assms(1) o read_logs(2)])
  have app: "inStep x" if "loopAppend ae (RequestContext ctx) unmarked a1 = (x, q)" for x q
    by (rule loopAppend_inStep [OF i that]) simp
  show ?thesis
    using assms(2) o i
    by (auto simp: logContext_def split: prod.splits if_split_asm dest!: app)
qed

lemma preparedStep_inv:
  assumes "inStep a"
  shows "loopInv (preparedStep r ae1 ae2 assembly mode system boundary proposed a)"
proof -
  have log: "loopInv (case logHeader ae1 header a of
         (a1, Inl err) \<Rightarrow> failStep err a1
       | (a1, Inr _) \<Rightarrow>
           (case logContext ae2 ctx a1 of
              (a2, Inl err) \<Rightarrow> failStep err a2
            | (a2, Inr _) \<Rightarrow> a2\<lparr>ag_stage := Dispatching assembly mode request\<rparr>))" for header ctx request
    using logHeader_inStep [OF assms] logContext_inStep
    by (fastforce intro!: failStep_inv stepStage_inv split: prod.split sum.split)
  show ?thesis
    unfolding preparedStep_def Let_def
    using assms by (auto intro!: failStep_inv stepAlive_inv log split: sum.split)
qed

lemma dispatchStep_inv: "inStep a \<Longrightarrow> loopInv (dispatchStep r assembly mode request a)"
  by (auto simp: dispatchStep_def intro!: stepAlive_inv failStep_inv stepStage_inv split: sum.split)

lemma chunkStep_inv:
  assumes "inStep a"
  shows "loopInv (chunkStep chunk ae assembly mode att a)"
proof -
  obtain a' r where ap: "loopAppend ae (AssistantChunk (phaseTurn a) (phaseStep a) chunk) unmarked a = (a', r)"
    by fastforce
  have "inStep a'" by (rule loopAppend_inStep [OF assms ap]) simp
  then show ?thesis
    using assms ap
    by (auto simp: chunkStep_def intro!: stepAlive_inv failStep_inv stepStage_inv split: sum.split delivery.split)
qed

lemma streamEndStep_inv: "inStep a \<Longrightarrow> loopInv (streamEndStep fresh assembly mode att a)"
  by (auto simp: streamEndStep_def Let_def intro!: stepAlive_inv failStep_inv stepStage_inv
      split: sum.split finish_reason.split)

lemma recoveredStep_inv: "inStep a \<Longrightarrow> loopInv (recoveredStep r assembly mode f a)"
  by (auto simp: recoveredStep_def intro!: stepAlive_inv failStep_inv stepStage_inv split: sum.split)

lemma reviewedStep_inv: "inStep a \<Longrightarrow> loopInv (reviewedStep r att m a)"
  by (auto simp: reviewedStep_def intro!: stepAlive_inv failStep_inv stepStage_inv split: sum.split)

lemma reassembledStep_inv: "inStep a \<Longrightarrow> loopInv (reassembledStep r mode a)"
  by (auto simp: reassembledStep_def intro!: stepAlive_inv failStep_inv stepStage_inv split: sum.split)

text \<open>A run of chunks of the open step.\<close>

lemma flushChunks_trace:
  "flushChunks turn step cs env st = (st', r) \<Longrightarrow> atTrace (Some turn) (Some step) turn step {} (logS st)
    \<Longrightarrow> atTrace (Some turn) (Some step) turn step {} (logS st')"
proof (induction cs arbitrary: st st' env r)
  case (Cons c cs)
  obtain st1 x where a: "driverAppend (env 0) (AssistantChunk turn step c) unmarked st = (st1, x)" by fastforce
  show ?case
  proof (cases x)
    case (Inl err)
    then show ?thesis using Cons.prems a driverAppend_Inl [of "env 0" _ _ st st1 err] by simp
  next
    case (Inr ev)
    have ev: "logS st1 = logS st @ [ev]" "ev_data ev = AssistantChunk turn step c" "seq ev = length (logS st)"
      using a Inr driverAppend_Inr [of "env 0" _ _ st st1 ev] by auto
    have "atTrace (Some turn) (Some step) turn step {} (logS st1)"
      using atTrace_stepEvent [OF Cons.prems(2) ev(3)] ev(1,2) by simp
    moreover obtain st2 y where f: "flushChunks turn step cs (\<lambda>n. env (Suc n)) st1 = (st2, y)" by fastforce
    ultimately have "atTrace (Some turn) (Some step) turn step {} (logS st2)" by (rule Cons.IH [rotated])
    moreover have "st2 = st'" using Cons.prems(1) a Inr f by (cases y) simp_all
    ultimately show ?thesis by simp
  qed
qed simp

lemma newExec_OK:
  assumes "inStep a" and "distinct (map call_id calls)"
    and "ag_stage b = Executing (newExec (phaseTurn a) (phaseStep a) calls n (ag_state a) s)"
    and "ag_state b = ag_state a" and "ag_phase b = ag_phase a"
  shows "execOK b"
proof -
  let ?x = "newExec (phaseTurn a) (phaseStep a) calls n (ag_state a) s"
  have "execInv (length (logS (ag_state a))) ?x" by (rule execInv_new)
  moreover have "execTrace (phaseTurn a) (phaseStep a) ?x"
    using assms(1) by (simp add: newExec_def execTrace_def inStep_def tracePlace_def loopLog_def)
  moreover have "ex_turn ?x = phaseTurn a" "ex_step ?x = phaseStep a" "ex_planned ?x = calls"
      "execState ?x = ag_state a"
    by (simp_all add: newExec_def execState_def)
  ultimately show ?thesis using assms(2-5) by (auto simp: execOK_def)
qed

lemma answerStep_inv:
  assumes "inStep a" and d: "distinct (map call_id (filter isToolCall (msg_content m)))"
  shows "loopInv (answerStep env ae mode att m a)"
proof -
  let ?T = "phaseTurn a" and ?P = "phaseStep a"
  obtain st r where f: "flushChunks ?T ?P (if mode = Buffered then at_buffered att else []) env (ag_state a) = (st, r)"
    by fastforce
  have "atTrace (Some ?T) (Some ?P) ?T ?P {} (logS st)"
    using flushChunks_trace [OF f] assms(1) by (simp add: inStep_def tracePlace_def loopLog_def)
  then have i: "inStep (a\<lparr>ag_state := st\<rparr>)" using assms(1) by (simp add: inStep_def tracePlace_def)
  show ?thesis
  proof (cases r)
    case (Inl err)
    then show ?thesis using f i failStep_inv by (simp add: answerStep_def Let_def)
  next
    case (Inr flushed)
    obtain a' q where ap: "loopAppend ae (AssistantMsg ?T ?P m (usageOf (at_assembler att)))
        (surfaced (Some (at_chunkSeqs att @ flushed))) (a\<lparr>ag_state := st\<rparr>) = (a', q)" by fastforce
    have i': "inStep a'" by (rule loopAppend_inStep [OF i ap]) simp
    from ap have ph: "ag_phase a' = ag_phase a" by (cases rule: loopAppend_cases) simp_all
    have exec: "loopInv (a'\<lparr>ag_stage := Executing (newExec ?T ?P (filter isToolCall (msg_content m)) n (ag_state a') s)\<rparr>)"
      for n s
      by (rule loopInv_inStep) (use i' ph newExec_OK [OF i' d] in simp_all)
    show ?thesis
      using f Inr ap i' exec
      by (auto simp: answerStep_def Let_def intro!: failStep_inv stepStage_inv split: sum.split)
  qed
qed

section \<open>The scheduler inside a step\<close>

lemma execLog_state: "currentLog x = logS (execState x)"
  by (simp add: currentLog_def execState_def split: exec_stage.split)

lemma execTrace_place:
  assumes "execInv base x" and "execTrace T P x" and "ex_turn x = T" and "ex_step x = P"
  shows "tracePlace InStep T P (logS (execState x))"
proof (cases "ex_stage x")
  case (Running cfg p)
  then have "gc_turn cfg = T" "gc_step cfg = P" using assms by (auto simp: execInv_def)
  then show ?thesis
    using assms(2) Running poolTrace_any [of cfg T P p]
    by (simp add: execTrace_def tracePlace_def execState_def)
qed (use assms in \<open>simp_all add: execTrace_def tracePlace_def execState_def\<close>)

lemma exec_moved:
  assumes "loopInv a" and "ag_stage a = Executing x" and "execStep x e = Some y"
  shows "tracePlace InStep (phaseTurn a) (phaseStep a) (logS (execState y))"
    and "ex_turn y = phaseTurn a" and "ex_step y = phaseStep a" and "distinct (map call_id (ex_planned y))"
    and "\<exists>base. execInv base y" and "execTrace (phaseTurn a) (phaseStep a) y"
proof -
  have ok: "ex_turn x = phaseTurn a" "ex_step x = phaseStep a" "distinct (map call_id (ex_planned x))"
      "execTrace (phaseTurn a) (phaseStep a) x" and "\<exists>base. execInv base x"
    using assms(1,2) by (simp_all add: loopInv_def execOK_def)
  then obtain base where inv: "execInv base x" by blast
  show y: "ex_turn y = phaseTurn a" "ex_step y = phaseStep a" "distinct (map call_id (ex_planned y))"
    using ok execStep_frame [OF assms(3)] by simp_all
  have inv': "execInv base y" by (rule execInv_step [OF inv assms(3)])
  then show "\<exists>base. execInv base y" by blast
  show tr: "execTrace (phaseTurn a) (phaseStep a) y" by (rule execTrace_step [OF inv ok(3,4) assms(3)])
  show "tracePlace InStep (phaseTurn a) (phaseStep a) (logS (execState y))"
    by (rule execTrace_place [OF inv' tr y(1,2)])
qed

lemma executing_inv:
  assumes "loopInv a" and "ag_stage a = Executing x" and "execStep x e = Some y"
    and "ag_phase b = ag_phase a \<or> (turnOf (ag_phase b) = phaseTurn a \<and> stepOf (ag_phase b) = phaseStep a
      \<and> isRunning (ag_phase b))"
    and "ag_state b = execState y" and "ag_stage b = Executing y"
  shows "loopInv b"
proof -
  have ph: "turnOf (ag_phase b) = phaseTurn a" "stepOf (ag_phase b) = phaseStep a" "isRunning (ag_phase b)"
    using assms(1,2,4) by (auto simp: loopInv_def)
  show ?thesis
  proof (rule loopInv_inStep)
    show "inStep b" using exec_moved(1) [OF assms(1-3)] ph assms(5) by (simp add: inStep_def loopLog_def)
    show "execOK b" using exec_moved [OF assms(1-3)] ph assms(5,6) by (simp add: execOK_def)
  qed (simp add: assms(6))
qed

lemma afterExec_inv:
  assumes "loopInv a" and "ag_stage a = Executing x" and "execStep x e = Some y"
  shows "loopInv (afterExec y a)"
proof (cases "\<exists>r. ag_stage (afterExec y a) = StepClosing r")
  case True
  then have "ag_phase (afterExec y a) = ag_phase a" "ag_state (afterExec y a) = execState y"
    by (simp_all add: afterExec_def)
  moreover have "isRunning (ag_phase a)" using assms(1,2) by (simp add: loopInv_def)
  ultimately have "inStep (afterExec y a)"
    using exec_moved(1) [OF assms] by (simp add: inStep_def loopLog_def)
  then show ?thesis using True by (intro loopInv_inStep) (auto simp: execOK_def)
next
  case False
  then have "ag_stage (afterExec y a) = Executing y" by (auto simp: afterExec_def split: exec_stage.splits)
  then show ?thesis by (intro executing_inv [OF assms]) (simp_all add: afterExec_def)
qed

section \<open>The calls of other code\<close>

definition quietForeign :: "foreign \<Rightarrow> bool" where
  "quietForeign f = (case f of ForeignAppend d _ _ _ \<Rightarrow> quiet d | _ \<Rightarrow> True)"

lemma tracePlace_outside:
  assumes "tracePlace pl T P (logS st)" and "admissible f" and "pl = BetweenTurns \<Longrightarrow> quietForeign f"
  shows "tracePlace pl T P (logS (applyForeign st f))"
proof (cases "pl = BetweenTurns")
  case True
  then have "grows between st (applyForeign st f)"
    using assms(2,3) by (intro foreign_between) (auto simp: quietForeign_def)
  then show ?thesis by (rule tracePlace_grows [OF assms(1)])
next
  case False
  then show ?thesis
    using tracePlace_foreign [OF assms(1)] foreign_growth [OF assms(2), of st] by (simp add: foreignGrowth_grows)
qed

lemma loopInv_frame:
  assumes "loopInv a" and "\<And>x. ag_stage a \<noteq> Executing x"
    and "tracePlace (placeOf (ag_stage a)) (phaseTurn a) (phaseStep a) (loopLog b)"
    and "turnOf (ag_phase b) = phaseTurn a" and "stepOf (ag_phase b) = phaseStep a"
    and "isRunning (ag_phase b) = isRunning (ag_phase a)"
    and "ag_stage b = ag_stage a" and "ag_turnEnds b = ag_turnEnds a"
  shows "loopInv b"
proof -
  have "execOK b" using assms(2,7) by (auto simp: execOK_def split: driver_stage.split)
  then show ?thesis using assms(1,3-8) by (simp add: loopInv_def)
qed

lemma outside_inv:
  assumes "loopInv a" and "outside f a = Some b" and "placeOf (ag_stage a) = BetweenTurns \<Longrightarrow> quietForeign f"
  shows "loopInv b \<and> ag_phase b = ag_phase a"
proof (cases "\<exists>x. ag_stage a = Executing x")
  case True
  then obtain x y where x: "ag_stage a = Executing x" "execStep x (Group (Foreign f)) = Some y"
      "b = a\<lparr>ag_state := execState y, ag_stage := Executing y\<rparr>"
    using assms(2) by (auto simp: outside_def)
  then show ?thesis using executing_inv [OF assms(1) x(1,2), of b] by simp
next
  case False
  then have b: "admissible f" "b = a\<lparr>ag_state := applyForeign (ag_state a) f\<rparr>"
    using assms(2) by (auto simp: outside_def split: driver_stage.splits if_splits)
  have "tracePlace (placeOf (ag_stage a)) (phaseTurn a) (phaseStep a) (loopLog b)"
    using assms(1,3) tracePlace_outside [of _ _ _ "ag_state a" f] b by (simp add: loopInv_def loopLog_def)
  then show ?thesis using loopInv_frame [OF assms(1), of b] False b(2) by simp
qed

lemma wake_frame [simp]:
  "turnOf (withWake w ph) = turnOf ph" "stepOf (withWake w ph) = stepOf ph"
  "isRunning (withWake w ph) = isRunning ph" "abortOf (withWake w ph) = abortOf ph"
  by (cases ph; simp)+

lemma abort_frame [simp]:
  "turnOf (abortPhase c ph) = turnOf ph" "stepOf (abortPhase c ph) = stepOf ph"
  "isRunning (abortPhase c ph) = isRunning ph"
  by (induction c ph rule: abortPhase.induct) simp_all

lemma setPhase_frame [simp]:
  "ag_phase (setPhase ph a) = ph" "ag_stage (setPhase ph a) = ag_stage a"
  "ag_state (setPhase ph a) = ag_state a" "loopLog (setPhase ph a) = loopLog a"
  "ag_turnEnds (setPhase ph a) = ag_turnEnds a"
  by (simp_all add: setPhase_def loopLog_def Let_def)

lemma startDriver_inv:
  assumes "tracePlace BetweenTurns (phaseTurn a) (phaseStep a) (loopLog a)"
  shows "loopInv (startDriver a)"
  using assms by (simp add: startDriver_def loopInv_def execOK_def tracePlace_def)

lemma wakeDriver_inv:
  assumes "loopInv a"
  shows "loopInv (wakeDriver b a)"
proof (cases "ag_phase a")
  case (IdlePhase t)
  then have "ag_stage a = NoDriver" using assms by (auto simp: loopInv_def)
  then have "tracePlace BetweenTurns (phaseTurn a) (phaseStep a) (loopLog a)"
    using assms by (simp add: loopInv_def)
  then show ?thesis using startDriver_inv IdlePhase by (simp add: wakeDriver_def)
next
  case (MaintenancePhase ab t w)
  then show ?thesis using assms by (auto simp: wakeDriver_def loopInv_def execOK_def split: driver_stage.split)
next
  case (RunningPhase ab t s w)
  then show ?thesis using assms by (auto simp: wakeDriver_def loopInv_def execOK_def split: driver_stage.split)
qed

lemma sendStep_inv:
  assumes "loopInv a" and "sendStep m target wakeup ae a = Some b"
  shows "loopInv b"
proof -
  let ?f = "ForeignSplice (if wakeup \<and> aborted a then NextTurn else target) PlusInfinity (Finite 0) [m] ae"
  obtain a1 where a1: "outside ?f a = Some a1"
      and b: "b = (if wakeup \<and> spliced a ?f then wakeDriver (wakeup \<and> aborted a) a1 else a1)"
    using assms(2) by (auto simp: sendStep_def Let_def)
  have "loopInv a1" using outside_inv [OF assms(1) a1] by (simp add: quietForeign_def)
  then show ?thesis using b wakeDriver_inv by simp
qed

lemma raiseAbort_inv:
  assumes "loopInv a"
  shows "loopInv (raiseAbort cause a)"
proof (cases "\<exists>x. ag_stage a = Executing x")
  case True
  then obtain x where x: "ag_stage a = Executing x" by blast
  have run: "isRunning (ag_phase a)" using assms x by (simp add: loopInv_def)
  show ?thesis
  proof (cases "execStep x (Group Abort)")
    case None
    then have st: "\<And>cfg p. ex_stage x \<noteq> Running cfg p" by (auto split: exec_stage.splits)
    have "execInv base (x\<lparr>ex_signal := True\<rparr>) = execInv base x" for base
      by (cases "ex_stage x") (simp_all add: execInv_def)
    moreover have "execTrace T P (x\<lparr>ex_signal := True\<rparr>) = execTrace T P x" for T P
      by (cases "ex_stage x") (simp_all add: execTrace_def)
    moreover have "execState (x\<lparr>ex_signal := True\<rparr>) = execState x"
      by (cases "ex_stage x") (simp_all add: execState_def)
    ultimately show ?thesis
      using assms x None by (simp add: raiseAbort_def Let_def loopInv_def execOK_def)
  next
    case (Some y)
    then have "execState y = execState x" by (auto simp: execState_def split: exec_stage.splits)
    moreover have "ag_state a = execState x" using assms x by (simp add: loopInv_def execOK_def)
    ultimately show ?thesis
      using executing_inv [OF assms x Some, of "raiseAbort cause a"] x Some run by (simp add: raiseAbort_def Let_def)
  qed
next
  case False
  then have r: "raiseAbort cause a = a\<lparr>ag_phase := abortPhase cause (ag_phase a)\<rparr>"
    by (auto simp: raiseAbort_def Let_def split: driver_stage.split)
  show ?thesis
    by (rule loopInv_frame [OF assms]) (use assms False in \<open>simp_all add: r loopInv_def\<close>)
qed

lemma unwake_inv: "loopInv a \<Longrightarrow> loopInv (a\<lparr>ag_phase := withWake w (ag_phase a)\<rparr>)"
  by (auto simp: loopInv_def execOK_def split: driver_stage.split)

lemma cancelStep_inv:
  assumes "loopInv a" and "cancelStep cause keepInbox ae1 ae2 a = Some b"
  shows "loopInv b"
proof (cases keepInbox)
  case True
  then show ?thesis using assms raiseAbort_inv by (auto simp: cancelStep_def)
next
  case False
  have q: "quietForeign (clearing t ae c)" for t ae c by (simp add: clearing_def quietForeign_def)
  obtain a1 where a1: "outside (clearing NextStep ae1 a) a = Some a1"
    using assms(2) False by (auto simp: cancelStep_def Let_def bind_eq_Some_conv)
  have i1: "loopInv a1" using outside_inv [OF assms(1) a1 q] by simp
  show ?thesis
  proof (cases "spliced a (clearing NextStep ae1 a)")
    case True
    then obtain a2 where a2: "outside (clearing NextTurn ae2 a1) a1 = Some a2"
        and b: "b = (if \<not> spliced a1 (clearing NextTurn ae2 a1) then a2
                 else raiseAbort cause (a2\<lparr>ag_phase := withWake False (ag_phase a2)\<rparr>))"
      using assms(2) False a1 by (auto simp: cancelStep_def Let_def)
    have "loopInv a2" using outside_inv [OF i1 a2 q] by simp
    then show ?thesis using b raiseAbort_inv unwake_inv by simp
  qed (use assms(2) False a1 i1 in \<open>simp add: cancelStep_def Let_def\<close>)
qed

lemma maintenance_inv:
  "loopInv a \<Longrightarrow> startMaintenance a = Some b \<Longrightarrow> loopInv b"
  "loopInv a \<Longrightarrow> endMaintenance a = Some b \<Longrightarrow> loopInv b"
proof -
  assume a: "loopInv a"
  then have n: "ag_stage a = NoDriver" if "\<not> isRunning (ag_phase a)" using that by (simp add: loopInv_def)
  show "loopInv b" if "startMaintenance a = Some b"
    using a that n by (auto simp: startMaintenance_def loopInv_def execOK_def tracePlace_def split: agent_phase.splits)
  show "loopInv b" if m: "endMaintenance a = Some b"
  proof -
    obtain ab t w where ph: "ag_phase a = MaintenancePhase ab t w"
      using m by (cases "ag_phase a") (simp_all add: endMaintenance_def)
    then have "loopInv (setPhase (IdlePhase t) a)"
      using a n by (simp add: loopInv_def execOK_def tracePlace_def)
    then show ?thesis using m ph wakeDriver_inv by (auto simp: endMaintenance_def Let_def split: if_splits)
  qed
qed

lemma convergeStep_inv:
  assumes "loopInv a" and "ag_stage a = Converging"
  shows "loopInv (convergeStep a)"
proof -
  have "loopInv ((setPhase (IdlePhase (phaseTurn a)) a)\<lparr>ag_stage := NoDriver\<rparr>)"
    using assms by (simp add: loopInv_def execOK_def tracePlace_def)
  then show ?thesis using wakeDriver_inv by (simp add: convergeStep_def Let_def)
qed

section \<open>Runs\<close>

text \<open>
  What the claims about runs ask of the run-time: the two end markers are not refused, a model
  gives its tool calls distinct identities, and other code does not write between turns what the
  companion accepts only inside one.
\<close>

definition okInput :: "agent \<Rightarrow> loop_input \<Rightarrow> bool" where
  "okInput a i =
     (case (ag_stage a, i) of
        (StepClosing _, CloseStep ae) \<Rightarrow>
          \<not> isl (snd (driverAppend ae (StepEnd (phaseTurn a) (phaseStep a)) unmarked (ag_state a)))
      | (TurnClosing _, CloseTurn ae) \<Rightarrow>
          (case ag_turnEnds a of
             None \<Rightarrow> True
           | Some reason \<Rightarrow> \<not> isl (snd (driverAppend ae (TurnEnd (phaseTurn a) reason) unmarked (ag_state a))))
      | (Answering _ _ m, Answer _ _) \<Rightarrow> distinct (map call_id (filter isToolCall (msg_content m)))
      | (s, Outside f) \<Rightarrow> placeOf s = BetweenTurns \<longrightarrow> quietForeign f
      | _ \<Rightarrow> True)"

fun orderly :: "agent \<Rightarrow> loop_input list \<Rightarrow> bool" where
  "orderly a [] = True"
| "orderly a (i # is) =
     (okInput a i \<and> (case loopStep a i of None \<Rightarrow> True | Some b \<Rightarrow> orderly b is))"

lemma followEvents_inv: "loopInv (followEvents a b) = loopInv b"
  by (cases "ag_stage b") (simp_all add: followEvents_def loopInv_def execOK_def)

lemma driverStep_inv:
  assumes "loopInv a" and "driverStep a i = Some b" and "okInput a i"
  shows "loopInv b"
proof (cases i)
  case (Send m target wakeup ae)
  then have "sendStep m target wakeup ae a = Some b"
    using assms(2) by (simp add: driverStep_def split: driver_stage.splits list.splits)
  then show ?thesis by (rule sendStep_inv [OF assms(1)])
next
  case (Cancel cause keepInbox ae1 ae2)
  then have "cancelStep cause keepInbox ae1 ae2 a = Some b"
    using assms(2) by (simp add: driverStep_def split: driver_stage.splits list.splits)
  then show ?thesis by (rule cancelStep_inv [OF assms(1)])
next
  case StartMaintenance
  then have "startMaintenance a = Some b"
    using assms(2) by (simp add: driverStep_def split: driver_stage.splits list.splits)
  then show ?thesis by (rule maintenance_inv(1) [OF assms(1)])
next
  case EndMaintenance
  then have "endMaintenance a = Some b"
    using assms(2) by (simp add: driverStep_def split: driver_stage.splits list.splits)
  then show ?thesis by (rule maintenance_inv(2) [OF assms(1)])
next
  case (Outside f)
  then have "outside f a = Some b" "placeOf (ag_stage a) = BetweenTurns \<Longrightarrow> quietForeign f"
    using assms(2,3) by (simp_all add: driverStep_def okInput_def split: driver_stage.splits list.splits)
  then show ?thesis using outside_inv [OF assms(1)] by blast
next
  case (Tools e)
  then obtain x y where x: "ag_stage a = Executing x" "execStep x e = Some y" "b = afterExec y a"
    using assms(2) by (auto simp: driverStep_def split: driver_stage.splits list.splits if_splits)
  then show ?thesis using afterExec_inv [OF assms(1) x(1,2)] by simp
next
  case (OpenTurn ae)
  then have "ag_stage a = TurnOpening" "b = openTurnStep ae a"
    using assms(2) by (auto simp: driverStep_def split: driver_stage.splits list.splits)
  then show ?thesis using openTurnStep_inv [OF assms(1)] by simp
next
  case (Claim now vetoes)
  then obtain target where "ag_stage a = PreStepping target" "b = claimStep now vetoes target a"
    using assms(2) by (auto simp: driverStep_def split: driver_stage.splits list.splits)
  then show ?thesis using claimStep_inv inTurn_of [OF assms(1)] by simp
next
  case (Assembled r fresh)
  then have "(\<exists>claimed. ag_stage a = Assembling claimed \<and> b = assembledStep r fresh claimed a)
      \<or> (\<exists>mode. ag_stage a = Reassembling mode \<and> b = reassembledStep r mode a)"
    using assms(2) by (auto simp: driverStep_def split: driver_stage.splits list.splits)
  then show ?thesis
    using assembledStep_inv inTurn_of [OF assms(1)] reassembledStep_inv inStep_of [OF assms(1)] by auto
next
  case (Decided decide)
  then obtain c p s where "ag_stage a = Deciding c p s" "b = decidedStep decide c p s a"
    using assms(2) by (auto simp: driverStep_def split: driver_stage.splits list.splits)
  then show ?thesis using decidedStep_inv inTurn_of [OF assms(1)] by simp
next
  case (OpenStep ae)
  then obtain ms s d where "ag_stage a = StepOpening ms s d" "b = openStepStep ae ms s d a"
    using assms(2) by (auto simp: driverStep_def split: driver_stage.splits list.splits)
  then show ?thesis using openStepStep_inv inTurn_of [OF assms(1)] by simp
next
  case (Post ae)
  then obtain m ms s d where "ag_stage a = Posting (m # ms) s d" "b = postStep ae m ms s d a"
    using assms(2) by (auto simp: driverStep_def split: driver_stage.splits list.splits)
  then show ?thesis using postStep_inv inStep_of [OF assms(1)] by simp
next
  case Build
  then obtain s d where "ag_stage a = Building s d" "b = buildStep s d a"
    using assms(2) by (auto simp: driverStep_def split: driver_stage.splits list.splits)
  then show ?thesis using buildStep_inv inStep_of [OF assms(1)] by simp
next
  case (Proposed f)
  then obtain s d t bs c where "ag_stage a = Proposing s d t bs c" "b = proposedStep f s d t bs c a"
    using assms(2) by (auto simp: driverStep_def split: driver_stage.splits list.splits)
  then show ?thesis using proposedStep_inv inStep_of [OF assms(1)] by simp
next
  case (CallPrepared r ae1 ae2)
  then obtain s d t bs c where "ag_stage a = PreparingCall s d t bs c" "b = preparedStep r ae1 ae2 s d t bs c a"
    using assms(2) by (auto simp: driverStep_def split: driver_stage.splits list.splits)
  then show ?thesis using preparedStep_inv inStep_of [OF assms(1)] by simp
next
  case (Dispatched r)
  then obtain s d q where "ag_stage a = Dispatching s d q" "b = dispatchStep r s d q a"
    using assms(2) by (auto simp: driverStep_def split: driver_stage.splits list.splits)
  then show ?thesis using dispatchStep_inv inStep_of [OF assms(1)] by simp
next
  case (Chunk c ae)
  then obtain s d t where "ag_stage a = Streaming s d t" "b = chunkStep c ae s d t a"
    using assms(2) by (auto simp: driverStep_def split: driver_stage.splits list.splits)
  then show ?thesis using chunkStep_inv inStep_of [OF assms(1)] by simp
next
  case (StreamThrew err)
  then obtain s d t where "ag_stage a = Streaming s d t" "b = failStep (LoopThrown err) a"
    using assms(2) by (auto simp: driverStep_def split: driver_stage.splits list.splits)
  then show ?thesis using failStep_inv inStep_of [OF assms(1)] by simp
next
  case (StreamEnded fresh)
  then obtain s d t where "ag_stage a = Streaming s d t" "b = streamEndStep fresh s d t a"
    using assms(2) by (auto simp: driverStep_def split: driver_stage.splits list.splits)
  then show ?thesis using streamEndStep_inv inStep_of [OF assms(1)] by simp
next
  case (Recovered r)
  then obtain s d f where "ag_stage a = Recovering s d f" "b = recoveredStep r s d f a"
    using assms(2) by (auto simp: driverStep_def split: driver_stage.splits list.splits)
  then show ?thesis using recoveredStep_inv inStep_of [OF assms(1)] by simp
next
  case (Reviewed r)
  then obtain s t m where "ag_stage a = Reviewing s t m" "b = reviewedStep r t m a"
    using assms(2) by (auto simp: driverStep_def split: driver_stage.splits list.splits)
  then show ?thesis using reviewedStep_inv inStep_of [OF assms(1)] by simp
next
  case (Answer env ae)
  then obtain d t m where s: "ag_stage a = Answering d t m" "b = answerStep env ae d t m a"
    using assms(2) by (auto simp: driverStep_def split: driver_stage.splits list.splits)
  then have "distinct (map call_id (filter isToolCall (msg_content m)))"
    using assms(3) Answer by (simp add: okInput_def)
  then show ?thesis using answerStep_inv inStep_of [OF assms(1)] s by simp
next
  case (CloseStep ae)
  then obtain r where s: "ag_stage a = StepClosing r" "b = closeStepStep ae r a"
    using assms(2) by (auto simp: driverStep_def split: driver_stage.splits list.splits)
  then show ?thesis using closeStepStep_inv inStep_of [OF assms(1)] assms(3) CloseStep by (simp add: okInput_def)
next
  case (Stopped r)
  then have "ag_stage a = Stopping" "b = stoppedStep r a"
    using assms(2) by (auto simp: driverStep_def split: driver_stage.splits list.splits)
  then show ?thesis using stoppedStep_inv inTurn_of [OF assms(1)] by simp
next
  case (CloseTurn ae)
  then obtain exit reason where s: "ag_stage a = TurnClosing exit" "ag_turnEnds a = Some reason"
      "b = closeTurnStep ae exit reason a"
    using assms(2) by (auto simp: driverStep_def split: driver_stage.splits list.splits)
  then show ?thesis using closeTurnStep_inv inTurn_of [OF assms(1)] assms(3) CloseTurn by (simp add: okInput_def)
next
  case Converge
  then have "ag_stage a = Converging" "b = convergeStep a"
    using assms(2) by (auto simp: driverStep_def split: driver_stage.splits list.splits)
  then show ?thesis using convergeStep_inv [OF assms(1)] by simp
qed

lemma loopStep_inv: "loopInv a \<Longrightarrow> loopStep a i = Some b \<Longrightarrow> okInput a i \<Longrightarrow> loopInv b"
  using driverStep_inv [of a i] followEvents_inv by (auto simp: loopStep_def)

lemma loopRun_inv: "loopRun a is = Some b \<Longrightarrow> orderly a is \<Longrightarrow> loopInv a \<Longrightarrow> loopInv b"
proof (induction "is" arbitrary: a)
  case (Cons i "is")
  then obtain c where c: "loopStep a i = Some c" "loopRun c is = Some b" by (auto simp: bind_eq_Some_conv)
  then show ?case using Cons loopStep_inv [OF _ c(1)] by simp
qed simp

end
