(* ===== verification/Loop_Companion.thy ===== *)
theory Loop_Companion
  imports Loop_Trace
begin

text \<open>
  The driver of an agent and the relational invariants of its session: along every run the log is
  accepted by the companion, and the open turn and step are the ones of the driver.
\<close>

section \<open>The start\<close>

lemma lastTurnOf_snoc:
  "lastTurnOf (lg @ [e]) = (case turnStarted (ev_data e) of Some t \<Rightarrow> t | None \<Rightarrow> lastTurnOf lg)"
  by (auto simp: lastTurnOf_def split: option.split)

text \<open>The turn numbers of an accepted log count up, so the last one names the next.\<close>

lemma trace_last_turn:
  "seedTrace lg = Inr t \<Longrightarrow>
     (case openTurn t of
        None \<Rightarrow> openStep t = None \<and> nextTurn t = lastTurnOf lg + 1
      | Some turn \<Rightarrow> turn = lastTurnOf lg \<and> nextTurn t = turn)"
proof (induction lg arbitrary: t rule: rev_induct)
  case Nil
  then show ?case by (auto simp: seedTrace_def freshTrace_def lastTurnOf_def)
next
  case (snoc e lg)
  then obtain s where s: "seedTrace lg = Inr s" "traceStep s e = Inr t"
    by (auto simp: seedTrace_snoc result_simps)
  show ?case
    using snoc.IH [OF s(1)] s(2)
    by (cases "ev_data e")
      (auto simp: trace_simps Let_def lastTurnOf_snoc result_simps split: if_splits option.splits)
qed

lemma trace_last_seq:
  "surfaceLog lg = Inr st \<Longrightarrow> seedTrace lg = Inr t \<Longrightarrow> lastSeq t < int (length lg)"
proof (induction lg arbitrary: t rule: rev_induct)
  case Nil
  then show ?case by (auto simp: seedTrace_def freshTrace_def)
next
  case (snoc e lg)
  then obtain s where s: "traceStep s e = Inr t" by (auto simp: seedTrace_snoc result_simps)
  have "seq e = length lg" using surfaceLog_seq [OF snoc.prems(1), of "length lg"] by simp
  then show ?case
    using s by (cases "ev_data e") (auto simp: trace_simps Let_def result_simps split: if_splits)
qed

lemma newAgent_parts:
  assumes "newAgent cfg S = Inr a"
  shows "loopLog a = s_log S" and "ag_phase a = IdlePhase (lastTurnOf (s_log S))" and "ag_stage a = NoDriver"
    and "sessionOf (ag_state a) = S\<lparr>s_manager := fst (managerNodes (s_log S) (s_manager S))\<rparr>"
    and "ag_headerLogged a = False"
proof -
  obtain m r where mr: "managerNodes (s_log S) (s_manager S) = (m, r)" by (cases "managerNodes (s_log S) (s_manager S)")
  obtain ib ns where *: "newInbox S = Inr ib" "r = Inr ns"
    using assms mr by (cases "newInbox S"; cases r) (auto simp: newAgent_def result_simps)
  have "a = \<lparr>ag_config = cfg, ag_state = (ib, S\<lparr>s_manager := m\<rparr>, []), ag_phase = IdlePhase (lastTurnOf (s_log S)),
               ag_retained = restoreContext ns (s_log S), ag_headerLogged = False,
               ag_turnEnds = None, ag_stage = NoDriver, ag_statuses = [], ag_errors = []\<rparr>"
    using assms mr * by (simp add: newAgent_def result_simps)
  then show "loopLog a = s_log S" "ag_phase a = IdlePhase (lastTurnOf (s_log S))" "ag_stage a = NoDriver"
    "sessionOf (ag_state a) = S\<lparr>s_manager := fst (managerNodes (s_log S) (s_manager S))\<rparr>"
    "ag_headerLogged a = False"
    by (simp_all add: loopLog_def logS_def sessionOf_def mr)
qed

lemma newAgent_inv:
  assumes "surfaceLog (s_log S) = Inr st" and "newAgent cfg S = Inr a"
    and "seedTrace (s_log S) = Inr t" and "openTurn t = None"
  shows "loopInv a"
proof -
  have "openStep t = None" "nextTurn t = lastTurnOf (s_log S) + 1"
    using trace_last_turn [OF assms(3)] assms(4) by simp_all
  then have "atTrace None None (lastTurnOf (s_log S) + 1) (nextStep t) {} (s_log S)"
    using assms(3,4) trace_last_seq [OF assms(1,3)] by (auto simp: atTrace_def)
  then show ?thesis
    using newAgent_parts [OF assms(2)] by (auto simp: loopInv_def execOK_def tracePlace_def)
qed

text \<open>
  Claim C37: the driver and the relational invariants of the session fit together. An agent on an
  accepted log with no open turn keeps the log accepted along every run, through failures, retries,
  cancellations, maintenance and what other code writes in between; the open turn and step are the
  ones of the driver, and an idle agent has none open. It is asked that no end marker is refused,
  that a response gives its tool calls distinct identities, and that other code writes nothing
  between turns that belongs inside one.
\<close>

theorem driver_obeys_companion:
  assumes "live S" and "seedTrace (s_log S) = Inr t" and "openTurn t = None" and "newAgent cfg S = Inr a0"
    and "loopRun a0 is = Some a" and "orderly a0 is"
  shows "\<exists>t'. seedTrace (loopLog a) = Inr t'
     \<and> (openTurn t', openStep t') =
         (case placeOf (ag_stage a) of
            BetweenTurns \<Rightarrow> (None, None)
          | InTurn \<Rightarrow> (Some (phaseTurn a), None)
          | InStep \<Rightarrow> (Some (phaseTurn a), Some (phaseStep a)))
     \<and> (isRunning (ag_phase a) \<longleftrightarrow> ag_stage a \<noteq> NoDriver)"
proof -
  obtain st where st: "surfaceLog (s_log S) = Inr st" using live_surface [OF assms(1)] .
  have "loopInv a" by (rule loopRun_inv [OF assms(5,6) newAgent_inv [OF st assms(4,2,3)]])
  then show ?thesis
    by (cases "placeOf (ag_stage a)") (auto simp: loopInv_def tracePlace_def atTrace_def)
qed

section \<open>An example\<close>

definition sample_config :: agent_config where
  "sample_config =
     \<lparr>ac_provider = Some ''p'', ac_model = Some ''m'', ac_maxTokens = None, ac_maxParallel = 2,
      ac_errorChain = (\<lambda>_. ''failed'')\<rparr>"

definition sample_agent :: agent where
  "sample_agent = projr (newAgent sample_config sample_start)"

definition sample_prompt_message :: message where
  "sample_prompt_message =
     \<lparr>msg_id = ''u'', msg_role = User, msg_content = [TextBlock ''hi''], msg_source = UserSource\<rparr>"

definition sample_assembly :: prompt_assembly where
  "sample_assembly = \<lparr>pa_sections = [], pa_contexts = [], pa_tools = [], pa_variables = []\<rparr>"

definition sample_call_config :: call_config where
  "sample_call_config =
     \<lparr>cfg_provider = ''p'', cfg_model = ''m'', cfg_reasoningEffort = None, cfg_temperature = None,
      cfg_maxTokens = None, cfg_stop = None\<rparr>"

definition sample_prepared :: prepared_call where
  "sample_prepared = \<lparr>pr_config = sample_call_config, pr_adapterDefaults = None, pr_contextWindow = Some 8\<rparr>"

definition sample_request_inputs :: "loop_input list" where
  "sample_request_inputs =
     [Send sample_prompt_message NextTurn True sample_env, OpenTurn sample_env, Claim 0 (False, False),
      Assembled (Inr sample_assembly) ''x'', Decided (\<lambda>_ d. Inr d), OpenStep sample_env, Post sample_env,
      Build, Proposed Inr, CallPrepared (Inr sample_prepared) sample_env sample_env]"

definition sample_answer_inputs :: "loop_input list" where
  "sample_answer_inputs =
     [Dispatched (Inr ()), Chunk (TextDelta 0 ''ok'') sample_env, Chunk (FinishChunk FinishStop None) sample_env,
      StreamEnded ''a'', Answer (\<lambda>_. sample_env) sample_env, CloseStep sample_env, Stopped (Inr ()),
      CloseTurn sample_env, Converge]"


lemma sample_agent_new: "newAgent sample_config sample_start = Inr sample_agent"
proof -
  have "\<not> isl (newAgent sample_config sample_start)" by code_simp
  then show ?thesis by (simp add: sample_agent_def)
qed

lemma sample_turn_orderly: "orderly sample_agent (sample_request_inputs @ sample_answer_inputs)"
  by code_simp

lemma sample_turn_run:
  "(case loopRun sample_agent (sample_request_inputs @ sample_answer_inputs) of
      Some a \<Rightarrow> length (loopLog a) = 12 \<and> \<not> isRunning (ag_phase a) \<and> phaseTurn a = 1
    | None \<Rightarrow> False)"
  by code_simp

theorem driver_obeys_companion_witness:
  "\<exists>a t'. loopRun sample_agent (sample_request_inputs @ sample_answer_inputs) = Some a
     \<and> length (loopLog a) = 12 \<and> seedTrace (loopLog a) = Inr t' \<and> openTurn t' = None"
proof -
  obtain a where a: "loopRun sample_agent (sample_request_inputs @ sample_answer_inputs) = Some a"
      "length (loopLog a) = 12" "\<not> isRunning (ag_phase a)"
    using sample_turn_run by (auto split: option.splits)
  have "seedTrace (s_log sample_start) = Inr freshTrace" by code_simp
  then show ?thesis
    using driver_obeys_companion [OF sample_start_live _ _ sample_agent_new a(1) sample_turn_orderly] a
    by (auto simp: freshTrace_def)
qed

end
