(* ===== verification/Loop_Steady.thy ===== *)
theory Loop_Steady
  imports Loop_Companion
begin

text \<open>
  What every step of the driver keeps of the session: its log only grows, its caches stay in
  agreement with the log, and the events of a model call are written by the steps that handle one.
\<close>

section \<open>Steps that write no part of a model call\<close>

fun calm :: "event_data \<Rightarrow> bool" where
  "calm (AssistantChunk _ _ _) = False"
| "calm (AssistantMsg _ _ _ _) = False"
| "calm (RequestHeader _ _) = False"
| "calm _ = True"

definition steady :: "inbox_state \<Rightarrow> inbox_state \<Rightarrow> bool" where
  "steady st st' \<longleftrightarrow>
     (\<exists>es. logS st' = logS st @ es \<and> list_all (\<lambda>e. calm (ev_data e)) es)
     \<and> (sessionInv (sessionOf st) \<longrightarrow> sessionInv (sessionOf st'))"

lemma steady_refl [simp, intro]: "steady st st"
  by (simp add: steady_def)

lemma steady_trans: "steady a b \<Longrightarrow> steady b c \<Longrightarrow> steady a c"
  by (force simp: steady_def)

lemma steady_same:
  "logS st' = logS st \<Longrightarrow> (sessionInv (sessionOf st) \<Longrightarrow> sessionInv (sessionOf st')) \<Longrightarrow> steady st st'"
  by (simp add: steady_def)

lemma calm_foreign: "\<not> loopOwned d op \<Longrightarrow> calm d"
  by (cases d) simp_all

lemma driverAppend_sessionInv:
  "driverAppend ae d meta st = (st', r) \<Longrightarrow> sessionInv (sessionOf st) \<Longrightarrow> sessionInv (sessionOf st')"
  by (auto simp: driverAppend_def sessionOf_def split: prod.splits intro: appendWith_session)

lemma driverAppend_steady:
  assumes "driverAppend ae d meta st = (st', r)" and "calm d"
  shows "steady st st'"
  unfolding steady_def
  using driverAppend_sessionInv [OF assms(1)] driverAppend_Inl [of ae d meta st st'] driverAppend_Inr [of ae d meta st st'] assms
  by (cases r) auto

lemma logAppend_steady:
  assumes "logAppend S now veto d = (S', q)" and "\<And>x. d = Some x \<Longrightarrow> calm x"
  shows "steady (ib, S, ns) (ib', S', ns')"
proof -
  have inv: "sessionInv S \<Longrightarrow> sessionInv S'"
    using appendWith_session assms(1) by (auto simp: logAppend_def)
  show ?thesis
  proof (cases q)
    case (Inl err)
    then have "s_log S' = s_log S" using assms(1) by (auto simp: logAppend_def dest: appendWith_Inl)
    then show ?thesis using inv by (simp add: steady_def logS_def sessionOf_def)
  next
    case (Inr ev)
    then have "s_log S' = s_log S @ [ev]" "d = Some (ev_data ev)"
      using assms(1) by (auto simp: logAppend_def dest: appendWith_Inr)
    then show ?thesis using inv assms(2) by (simp add: steady_def logS_def sessionOf_def)
  qed
qed

lemma mutate_steady:
  assumes "mutate st now veto target start n ins d = (st', r)"
  shows "steady st st'"
proof -
  obtain ib S ns where st: "st = (ib, S, ns)" by (cases st)
  from assms show ?thesis
    by (auto simp: mutate_def st Let_def split: prod.splits if_split_asm sum.splits)
      (erule logAppend_steady, force)+
qed

lemma splice_steady: "spliceInbox st now veto target start n ins = (st', r) \<Longrightarrow> steady st st'"
  unfolding spliceInbox_def by (rule mutate_steady)

lemma claim_steady:
  assumes "claimInbox st now vetoes target turn = (st', r)"
  shows "steady st st'"
proof -
  have notified: "steady x (notifyClaimed y ms t) = steady x y" for x y ms t
    by (cases y) (simp add: notifyClaimed_def steady_def logS_def sessionOf_def)
  show ?thesis
    using assms
    by (auto simp: claimInbox_def notified split: prod.splits sum.splits if_split_asm
        dest!: mutate_steady intro: steady_trans)
qed

lemma foreign_steady: "admissible f \<Longrightarrow> steady st (applyForeign st f)"
  by (cases f)
    (auto simp: applyForeign_def admissible_def
      intro: driverAppend_steady [OF prod.collapse [symmetric]] splice_steady [OF prod.collapse [symmetric]]
        calm_foreign)

section \<open>The scheduler\<close>

lemma callAppend_steady: "appendToolCall turn step b ae st = (st', r) \<Longrightarrow> steady st st'"
  unfolding appendToolCall_def by (erule driverAppend_steady) (simp add: callData_def)

lemma resultAppend_steady: "appendToolResult turn step b out cs mid ae st = (st', r) \<Longrightarrow> steady st st'"
  unfolding appendToolResult_def by (erule driverAppend_steady) (simp add: resultData_def)

lemma skipCalls_steady: "skipCalls turn step bs env st = (st', r) \<Longrightarrow> steady st st'"
proof (induction bs arbitrary: env st st' r)
  case (Cons b bs)
  from Cons.prems have "thenR (appendSkippedToolCall turn step b (env 0) st)
      (\<lambda>st _. skipCalls turn step bs (\<lambda>n. env (Suc n)) st) = (st', r)" by simp
  moreover have "steady st w" if "appendSkippedToolCall turn step b (env 0) st = (w, q)" for w q
    using that
    by (auto simp: appendSkippedToolCall_def elim!: thenR_cases split: prod.splits
        dest!: callAppend_steady resultAppend_steady intro: steady_trans)
  ultimately show ?case by (cases rule: thenR_cases) (auto intro: steady_trans Cons.IH)
qed simp

lemma acceptContexts_steady: "acceptContexts ms env st = (st', r) \<Longrightarrow> steady st st'"
proof (induction ms arbitrary: env st st' r)
  case (Cons m ms)
  from Cons.prems have "thenR (spliceInbox st (ae_now (env 0)) (ae_veto (env 0)) NextStep
      (Finite (of_nat (length (ib_nextStep (fst st))))) (Finite 0) [m])
      (\<lambda>st _. acceptContexts ms (\<lambda>n. env (Suc n)) st) = (st', r)" by simp
  then show ?case by (cases rule: thenR_cases) (auto intro: steady_trans splice_steady Cons.IH)
qed simp

lemma commitSlot_steady: "steady (pl_state p) (pl_state (commitSlot cfg env out p))"
  by (auto simp: commitSlot_def Let_def split: prod.split sum.split
      dest!: resultAppend_steady acceptContexts_steady intro: steady_trans)

lemma poolStep_steady: "poolStep cfg p x = Some q \<Longrightarrow> steady (pl_state p) (pl_state q)"
  by (cases x)
    (auto simp: fillRound_def startNext_def Let_def commitRound_def commitSlot_steady finishGroup_def
        unlessFailed_def afterPrepare_def resume_def settle_def foreign_steady
      split: if_splits prod.splits sum.splits option.splits preparation.splits pool_stage.splits bool.splits
      dest: callAppend_steady skipCalls_steady)

lemma execStep_steady:
  assumes "execStep x e = Some y"
  shows "steady (execState x) (execState y)"
proof (cases e)
  case (Group i)
  then show ?thesis
    using assms by (auto simp: execState_def split: exec_stage.splits intro: poolStep_steady)
next
  case (Classify mode)
  then show ?thesis
    using assms by (auto simp: execState_def newPool_def Let_def split: exec_stage.splits if_splits)
next
  case (Collect env)
  then obtain cfg p where p: "ex_stage x = Running cfg p" using assms by (auto split: exec_stage.splits)
  show ?thesis
    using assms Collect p
    by (auto simp: execState_def collectGroup_def Let_def split: pool_stage.splits if_splits prod.splits sum.splits
        dest: skipCalls_steady)
qed

end
