(* ===== verification/Loop_Calls.thy ===== *)
theory Loop_Calls
  imports Loop_Steady
begin

text \<open>
  Model calls and the log: what a request is made of, and what a response leaves behind. One
  invariant follows a call through its stages, from the derivation of its messages to the message
  that cites the chunks it was assembled from.
\<close>

section \<open>Requests and responses in a log\<close>

text \<open>\<open>ss\<close> are, in order, the places of the chunks \<open>cs\<close> of a step.\<close>

definition cited :: "int \<Rightarrow> int \<Rightarrow> event list \<Rightarrow> nat list \<Rightarrow> stream_chunk list \<Rightarrow> bool" where
  "cited T P lg ss cs \<longleftrightarrow>
     sorted_wrt (<) ss
     \<and> list_all2 (\<lambda>s c. s < length lg \<and> ev_data (lg ! s) = AssistantChunk T P c) ss cs"

text \<open>The message of the model at a place of the log is what the chunks it cites assemble to.\<close>

definition answersAt :: "event list \<Rightarrow> nat \<Rightarrow> bool" where
  "answersAt lg i \<longleftrightarrow>
     (case ev_data (lg ! i) of
        AssistantMsg T P m u \<Rightarrow>
          (\<exists>ss cs. (surfaceOp (lg ! i), sourceEventSeqs (lg ! i)) = surfaced (Some ss)
             \<and> cited T P (take i lg) ss cs \<and> blocks (pushAll cs) = Inr (msg_content m)
             \<and> u = usageOf (pushAll cs))
      | _ \<Rightarrow> True)"

text \<open>Messages that some earlier part of the log derives, with its step already open.\<close>

definition derivedIn :: "int \<Rightarrow> int \<Rightarrow> event list \<Rightarrow> message list \<Rightarrow> bool" where
  "derivedIn T P lg ms \<longleftrightarrow>
     (\<exists>k st. k \<le> length lg \<and> surfaceLog (take k lg) = Inr st \<and> ms = modelHistory (take k lg) (nodes st)
        \<and> (\<exists>e \<in> set (take k lg). ev_data e = StepStart T P))"

definition underHeader :: "event list \<Rightarrow> loop_request \<Rightarrow> bool" where
  "underHeader lg rq \<longleftrightarrow>
     (\<exists>h. foldRequestHeader lg None = Some h \<and> lr_config rq = eh_config h \<and> lr_system rq = eh_system h
        \<and> lr_tools rq = eh_tools h)"

definition attemptOK :: "int \<Rightarrow> int \<Rightarrow> event list \<Rightarrow> delivery \<Rightarrow> attempt \<Rightarrow> bool" where
  "attemptOK T P lg mode att \<longleftrightarrow>
     (\<exists>cs. at_assembler att = pushAll cs
        \<and> (case mode of
             Streamed \<Rightarrow> cited T P lg (at_chunkSeqs att) cs
           | Buffered \<Rightarrow> at_chunkSeqs att = [] \<and> at_buffered att = cs))"

definition started :: "int \<Rightarrow> int \<Rightarrow> event list \<Rightarrow> bool" where
  "started T P lg \<longleftrightarrow> (\<exists>e \<in> set lg. ev_data e = StepStart T P)"

definition stageFacts :: "int \<Rightarrow> int \<Rightarrow> inbox_state \<Rightarrow> driver_stage \<Rightarrow> bool" where
  "stageFacts T P st s \<longleftrightarrow>
     (placeOf s = InStep \<longrightarrow> started T P (logS st))
     \<and> (case s of
          Proposing _ _ _ boundary _ \<Rightarrow> derivedIn T P (logS st) boundary
        | PreparingCall _ _ _ boundary _ \<Rightarrow> derivedIn T P (logS st) boundary
        | Dispatching _ _ rq \<Rightarrow> derivedIn T P (logS st) (lr_messages rq) \<and> underHeader (logS st) rq
        | Streaming _ mode att \<Rightarrow> attemptOK T P (logS st) mode att
        | Reviewing _ att m \<Rightarrow>
            attemptOK T P (logS st) Buffered att \<and> blocks (at_assembler att) = Inr (msg_content m)
        | Answering mode att m \<Rightarrow>
            attemptOK T P (logS st) mode att \<and> blocks (at_assembler att) = Inr (msg_content m)
        | Executing x \<Rightarrow> st = execState x
        | _ \<Rightarrow> True)"

text \<open>\<open>n\<close> is the length of the log the agent started from.\<close>

definition callLog :: "nat \<Rightarrow> inbox_state \<Rightarrow> bool \<Rightarrow> bool" where
  "callLog n st logged \<longleftrightarrow>
     sessionInv (sessionOf st) \<and> n \<le> length (logS st)
     \<and> (\<forall>i. n \<le> i \<and> i < length (logS st) \<longrightarrow> answersAt (logS st) i)
     \<and> (logged \<longrightarrow> foldRequestHeader (logS st) None \<noteq> None)"

definition callInv :: "nat \<Rightarrow> agent \<Rightarrow> bool" where
  "callInv n a \<longleftrightarrow>
     callLog n (ag_state a) (ag_headerLogged a)
     \<and> (isRunning (ag_phase a) \<longleftrightarrow> ag_stage a \<noteq> NoDriver)
     \<and> stageFacts (phaseTurn a) (phaseStep a) (ag_state a) (ag_stage a)"

section \<open>Growth\<close>

lemma cited_grow: "cited T P lg ss cs \<Longrightarrow> cited T P (lg @ es) ss cs"
  unfolding cited_def by (auto elim!: list_all2_mono simp: nth_append)

lemma cited_snoc:
  assumes "cited T P lg ss cs" and "ev_data e = AssistantChunk T P c"
  shows "cited T P (lg @ [e]) (ss @ [length lg]) (cs @ [c])"
proof -
  have "list_all2 (\<lambda>s c. s < length lg \<and> ev_data (lg ! s) = AssistantChunk T P c) ss cs"
    using assms(1) by (simp add: cited_def)
  then have "s < length lg" if "s \<in> set ss" for s
    using that by (auto simp: in_set_conv_nth list_all2_conv_all_nth)
  then show ?thesis
    using cited_grow [OF assms(1), of "[e]"] assms
    by (auto simp: cited_def sorted_wrt_append list_all2_appendI)
qed

lemma answersAt_grow: "i < length lg \<Longrightarrow> answersAt (lg @ es) i = answersAt lg i"
proof -
  assume "i < length lg"
  then have "(lg @ es) ! i = lg ! i" "take i (lg @ es) = take i lg" by (simp_all add: nth_append)
  then show ?thesis by (simp only: answersAt_def)
qed

lemma calm_answers: "calm (ev_data (lg ! i)) \<Longrightarrow> answersAt lg i"
  by (cases "ev_data (lg ! i)") (simp_all add: answersAt_def)

lemma derivedIn_grow: "derivedIn T P lg ms \<Longrightarrow> derivedIn T P (lg @ es) ms"
  unfolding derivedIn_def by (elim exE conjE, rule_tac x = k in exI) auto

lemma started_grow: "started T P lg \<Longrightarrow> started T P (lg @ es)"
  by (auto simp: started_def)

lemma attemptOK_grow: "attemptOK T P lg mode att \<Longrightarrow> attemptOK T P (lg @ es) mode att"
  unfolding attemptOK_def by (cases mode) (auto intro: cited_grow)

lemma calm_header: "list_all (\<lambda>e. calm (ev_data e)) es \<Longrightarrow> foldRequestHeader es q = q"
  by (induction es arbitrary: q) (auto split: event_data.split)

lemma calm_underHeader: "underHeader lg rq \<Longrightarrow> list_all (\<lambda>e. calm (ev_data e)) es \<Longrightarrow> underHeader (lg @ es) rq"
  by (simp add: underHeader_def foldRequestHeader_append calm_header)

lemma callLog_steady:
  assumes "callLog n st logged" and "steady st st'"
  shows "callLog n st' logged"
proof -
  obtain es where es: "logS st' = logS st @ es" "list_all (\<lambda>e. calm (ev_data e)) es"
    using assms(2) by (auto simp: steady_def)
  have "answersAt (logS st @ es) i" if "n \<le> i" "i < length (logS st @ es)" for i
  proof (cases "i < length (logS st)")
    case True
    then show ?thesis using assms(1) that answersAt_grow by (simp add: callLog_def)
  next
    case False
    then show ?thesis
      using es(2) that by (intro calm_answers) (simp add: nth_append list_all_length)
  qed
  then show ?thesis
    using assms es by (auto simp: callLog_def steady_def foldRequestHeader_append calm_header)
qed

lemma stageFacts_steady:
  assumes "stageFacts T P st s" and "steady st st'" and "\<And>x. s \<noteq> Executing x"
  shows "stageFacts T P st' s"
proof -
  obtain es where es: "logS st' = logS st @ es" "list_all (\<lambda>e. calm (ev_data e)) es"
    using assms(2) by (auto simp: steady_def)
  show ?thesis
    using assms(1,3) es
    by (cases s)
      (auto simp: stageFacts_def started_grow derivedIn_grow attemptOK_grow calm_underHeader)
qed

section \<open>Where a step of the driver ends\<close>

definition callTurn :: "nat \<Rightarrow> agent \<Rightarrow> bool" where
  "callTurn n a \<longleftrightarrow> callLog n (ag_state a) (ag_headerLogged a) \<and> isRunning (ag_phase a)"

definition callStep :: "nat \<Rightarrow> agent \<Rightarrow> bool" where
  "callStep n a \<longleftrightarrow> callTurn n a \<and> started (phaseTurn a) (phaseStep a) (loopLog a)"

lemma callTurn_of: "callInv n a \<Longrightarrow> ag_stage a \<noteq> NoDriver \<Longrightarrow> callTurn n a"
  by (simp add: callInv_def callTurn_def)

lemma callStep_of: "callInv n a \<Longrightarrow> placeOf (ag_stage a) = InStep \<Longrightarrow> callStep n a"
  by (cases "ag_stage a") (auto simp: callInv_def callTurn_def callStep_def stageFacts_def loopLog_def)

lemma callInv_turn:
  "callTurn n a \<Longrightarrow> placeOf s \<noteq> InStep \<Longrightarrow> s \<noteq> NoDriver \<Longrightarrow> callInv n (a\<lparr>ag_stage := s\<rparr>)"
  by (cases s) (auto simp: callInv_def callTurn_def stageFacts_def)

lemma callInv_step:
  "callStep n a \<Longrightarrow> stageFacts (phaseTurn a) (phaseStep a) (ag_state a) s \<Longrightarrow> s \<noteq> NoDriver
    \<Longrightarrow> callInv n (a\<lparr>ag_stage := s\<rparr>)"
  by (simp add: callInv_def callTurn_def callStep_def)

lemma call_frame [simp]:
  "callTurn n (a\<lparr>ag_stage := s\<rparr>) = callTurn n a" "callStep n (a\<lparr>ag_stage := s\<rparr>) = callStep n a"
  "callTurn n (a\<lparr>ag_turnEnds := r\<rparr>) = callTurn n a" "callStep n (a\<lparr>ag_turnEnds := r\<rparr>) = callStep n a"
  "callTurn n (a\<lparr>ag_errors := es\<rparr>) = callTurn n a"
  by (simp_all add: callTurn_def callStep_def)

lemma callTurn_report [simp]: "callTurn n (reportError err a) = callTurn n a"
  by (simp add: reportError_def)

lemma failTurn_call: "callTurn n a \<Longrightarrow> callInv n (failTurn err a)"
  by (auto simp: failTurn_def intro!: callInv_turn split: option.split)

lemma failStep_call: "callStep n a \<Longrightarrow> callInv n (failStep err a)"
  unfolding failStep_def
  by (rule callInv_step) (simp_all add: stageFacts_def callStep_def loopLog_def)

lemma turnAlive_call: "callTurn n a \<Longrightarrow> callInv n b \<Longrightarrow> callInv n (turnAlive a b)"
  by (simp add: turnAlive_def failTurn_call)

lemma stepAlive_call: "callStep n a \<Longrightarrow> callInv n b \<Longrightarrow> callInv n (stepAlive a b)"
  by (simp add: stepAlive_def failStep_call)

lemma callStep_turn: "callStep n a \<Longrightarrow> callTurn n a"
  by (simp add: callStep_def)

text \<open>Stages of a step that carry nothing of a call.\<close>

fun bareStage :: "driver_stage \<Rightarrow> bool" where
  "bareStage (Posting _ _ _) = True"
| "bareStage (Building _ _) = True"
| "bareStage (Recovering _ _ _) = True"
| "bareStage (Reassembling _) = True"
| "bareStage (StepClosing _) = True"
| "bareStage _ = False"

lemma callInv_bare: "callStep n a \<Longrightarrow> bareStage s \<Longrightarrow> callInv n (a\<lparr>ag_stage := s\<rparr>)"
  by (rule callInv_step; cases s) (simp_all add: stageFacts_def callStep_def loopLog_def)

lemma steady_call:
  assumes "steady (ag_state a) st"
  shows "callTurn n a \<Longrightarrow> callTurn n (a\<lparr>ag_state := st\<rparr>)"
    and "callStep n a \<Longrightarrow> callStep n (a\<lparr>ag_state := st\<rparr>)"
  using assms callLog_steady [OF _ assms]
  by (auto simp: callTurn_def callStep_def loopLog_def steady_def started_grow)

lemma loopAppend_state:
  "loopAppend ae d meta a = (a', r) \<Longrightarrow>
     \<exists>st q. driverAppend ae d meta (ag_state a) = (st, q) \<and> a' = a\<lparr>ag_state := st\<rparr> \<and> r = mapErr LoopAppend q"
  by (auto simp: loopAppend_def split: prod.splits)

lemma append_call:
  assumes "loopAppend ae d meta a = (a', r)" and "calm d"
  shows "callTurn n a \<Longrightarrow> callTurn n a'" and "callStep n a \<Longrightarrow> callStep n a'"
  using loopAppend_state [OF assms(1)] driverAppend_steady [OF _ assms(2)] steady_call by blast+

lemma onSession_steady:
  assumes "onSession f a = (a', r)"
    and "\<And>S. s_log (fst (f S)) = s_log S" and "\<And>S. sessionInv S \<Longrightarrow> sessionInv (fst (f S))"
  shows "\<exists>st. steady (ag_state a) st \<and> a' = a\<lparr>ag_state := st\<rparr> \<and> logS st = loopLog a"
proof -
  obtain ib S ns where st: "ag_state a = (ib, S, ns)" by (cases "ag_state a")
  then have "a' = a\<lparr>ag_state := (ib, fst (f S), ns)\<rparr>" using assms(1) by (auto simp: onSession_def split: prod.splits)
  moreover have "steady (ag_state a) (ib, fst (f S), ns)"
    using assms(2,3) [of S] st by (intro steady_same) (simp_all add: logS_def sessionOf_def)
  ultimately show ?thesis using assms(2) st by (auto simp: loopLog_def logS_def sessionOf_def)
qed

lemma read_sessionInv:
  assumes "sessionInv S"
  shows "sessionInv (fst (requestHeader S))" "sessionInv (fst (requestContext S))" "sessionInv (fst (deriveMessages S))"
proof -
  obtain st where st: "surfaceLog (s_log S) = Inr st" using assms by (auto simp: sessionInv_def)
  show "sessionInv (fst (requestHeader S))" "sessionInv (fst (requestContext S))" "sessionInv (fst (deriveMessages S))"
    using requestHeader_inv(1) [OF assms prod.collapse [symmetric]]
      requestContext_inv(1) [OF assms prod.collapse [symmetric]]
      deriveMessages_inv(1) [OF assms st prod.collapse [symmetric]] by auto
qed

lemma read_call:
  assumes "onSession f a = (a', r)"
    and "\<And>S. s_log (fst (f S)) = s_log S" and "\<And>S. sessionInv S \<Longrightarrow> sessionInv (fst (f S))"
  shows "callTurn n a \<Longrightarrow> callTurn n a'" and "callStep n a \<Longrightarrow> callStep n a'"
    and "loopLog a' = loopLog a" and "ag_phase a' = ag_phase a" and "ag_stage a' = ag_stage a"
proof -
  obtain st where st: "steady (ag_state a) st" "a' = a\<lparr>ag_state := st\<rparr>" "logS st = loopLog a"
    using onSession_steady [OF assms] by blast
  then show "callTurn n a \<Longrightarrow> callTurn n a'" "callStep n a \<Longrightarrow> callStep n a'" "loopLog a' = loopLog a"
    "ag_phase a' = ag_phase a" "ag_stage a' = ag_stage a"
    using steady_call [OF st(1)] by simp_all
qed

lemmas header_call = read_call [OF _ read_logs(1) read_sessionInv(1)]
lemmas context_call = read_call [OF _ read_logs(2) read_sessionInv(2)]

section \<open>The steps of a turn\<close>

lemma openTurnStep_call:
  assumes "callInv n a" and "ag_stage a = TurnOpening"
  shows "callInv n (openTurnStep ae a)"
proof -
  have t: "callTurn n a" using assms by (simp add: callTurn_of)
  obtain a' r where ap: "loopAppend ae (TurnStart (phaseTurn a + 1)) unmarked a = (a', r)" by fastforce
  have t': "callTurn n a'" using append_call(1) [OF ap _ t] by simp
  have "callTurn n (a'\<lparr>ag_phase := withTurn (phaseTurn a + 1) (ag_phase a')\<rparr>)"
    using t' by (cases "ag_phase a'") (simp_all add: callTurn_def)
  then show ?thesis
    using ap t t' by (auto simp: openTurnStep_def Let_def intro!: callInv_turn split: sum.split)
qed

lemma claimStep_call:
  assumes "callTurn n a"
  shows "callInv n (claimStep now vetoes target a)"
proof -
  obtain st r where c: "claimInbox (ag_state a) now vetoes target (phaseTurn a) = (st, r)" by fastforce
  have "callTurn n (a\<lparr>ag_state := st\<rparr>)" by (rule steady_call(1) [OF claim_steady [OF c] assms])
  then show ?thesis
    using c assms by (cases r) (auto simp: claimStep_def intro!: turnAlive_call failTurn_call callInv_turn)
qed

lemma assembledStep_call: "callTurn n a \<Longrightarrow> callInv n (assembledStep r fresh claimed a)"
  by (auto simp: assembledStep_def Let_def intro!: turnAlive_call failTurn_call callInv_turn split: sum.split)

lemma decidedStep_call: "callTurn n a \<Longrightarrow> callInv n (decidedStep decide claimed proposed assembly a)"
  by (auto simp: decidedStep_def intro!: turnAlive_call failTurn_call callInv_turn
      split: sum.split option.split)

lemma stoppedStep_call: "callTurn n a \<Longrightarrow> callInv n (stoppedStep r a)"
  by (auto simp: stoppedStep_def stopOrGo_def intro!: turnAlive_call failTurn_call callInv_turn split: sum.split)

lemma openStepStep_call:
  assumes "callTurn n a"
  shows "callInv n (openStepStep ae messages assembly mode a)"
proof -
  let ?P = "phaseStep a + 1"
  obtain a' r where ap: "loopAppend ae (StepStart (phaseTurn a) ?P) unmarked a = (a', r)" by fastforce
  have t: "callTurn n a'" using append_call(1) [OF ap _ assms] by simp
  have "callStep n (a'\<lparr>ag_phase := withStep ?P (ag_phase a')\<rparr>)" if "r = Inr ev" for ev
    using ap
  proof (cases rule: loopAppend_cases)
    case (ok st ev')
    obtain ab q s w where "ag_phase a = RunningPhase ab q s w"
      using assms by (cases "ag_phase a") (auto simp: callTurn_def)
    then show ?thesis using ok(2,3,4) t by (auto simp: callStep_def callTurn_def started_def)
  qed (use that in simp)
  then have s: "r = Inr ev \<Longrightarrow> bareStage s \<Longrightarrow>
      callInv n (a'\<lparr>ag_phase := withStep ?P (ag_phase a'), ag_stage := s\<rparr>)" for ev s
    using callInv_bare by auto
  show ?thesis
    using ap t assms s
    by (auto simp: openStepStep_def Let_def intro!: turnAlive_call failTurn_call split: sum.split)
qed

lemma postStep_call:
  assumes "callStep n a"
  shows "callInv n (postStep ae m rest assembly mode a)"
proof -
  obtain a' r where ap: "loopAppend ae (UserMsg m) (surfaced None) a = (a', r)" by fastforce
  have "callStep n a'" using append_call(2) [OF ap _ assms] by simp
  then show ?thesis
    using ap by (auto simp: postStep_def intro!: failStep_call callInv_bare split: sum.split)
qed

lemma closeStepStep_call:
  assumes "callTurn n a"
  shows "callInv n (closeStepStep ae result a)"
proof -
  define a0 where "a0 = (case result of
      Inl _ \<Rightarrow> a | Inr ends \<Rightarrow> if ag_turnEnds a = Some MaxTokens then a else a\<lparr>ag_turnEnds := ends\<rparr>)"
  have a0: "callTurn n a0" using assms by (simp add: a0_def split: sum.split)
  obtain a' r where ap: "loopAppend ae (StepEnd (phaseTurn a) (phaseStep a)) unmarked a0 = (a', r)" by fastforce
  have "callTurn n a'" using append_call(1) [OF ap _ a0] by simp
  then show ?thesis
    using ap by (auto simp: closeStepStep_def Let_def a0_def [symmetric]
        intro!: turnAlive_call failTurn_call callInv_turn split: sum.split)
qed

lemma closeTurnStep_call:
  assumes "callTurn n a"
  shows "callInv n (closeTurnStep ae exit reason a)"
proof -
  obtain a' r where ap: "loopAppend ae (TurnEnd (phaseTurn a) reason) unmarked a = (a', r)" by fastforce
  have t: "callTurn n a'" using append_call(1) [OF ap _ assms] by simp
  then have "callInv n (a'\<lparr>ag_phase := RunningPhase None T 0 False, ag_stage := TurnOpening\<rparr>)" for T
    by (simp add: callInv_def callTurn_def stageFacts_def)
  then show ?thesis
    using ap t by (auto simp: closeTurnStep_def intro!: callInv_turn split: sum.split turn_close.split)
qed

section \<open>The steps of a call\<close>

lemma buildStep_call:
  assumes "callStep n a"
  shows "callInv n (buildStep assembly mode a)"
proof -
  obtain a1 r1 where o1: "onSession deriveMessages a = (a1, r1)" by fastforce
  obtain a2 r2 where o2: "onSession requestHeader a1 = (a2, r2)" by fastforce
  obtain st1 where st1: "steady (ag_state a) st1" "a1 = a\<lparr>ag_state := st1\<rparr>" "logS st1 = loopLog a"
    using onSession_steady [OF o1 read_logs(3) read_sessionInv(3)] by blast
  have s1: "callStep n a1" using steady_call(2) [OF st1(1) assms] st1(2) by simp
  note r2 = header_call [OF o2]
  have s2: "callStep n a2" using r2(2) s1 by simp
  have inv: "sessionInv (sessionOf (ag_state a))" using assms by (simp add: callStep_def callTurn_def callLog_def)
  then obtain st where st: "surfaceLog (loopLog a) = Inr st"
    by (auto simp: sessionInv_def loopLog_def logS_def)
  have "r1 = Inr (modelHistory (loopLog a) (nodes st))"
    using o1 deriveMessages_inv(2) [OF inv _ prod.collapse [symmetric]] st
    by (auto simp: onSession_def loopLog_def logS_def sessionOf_def split: prod.splits)
  moreover have "derivedIn (phaseTurn a) (phaseStep a) (loopLog a) (modelHistory (loopLog a) (nodes st))"
    using assms st unfolding derivedIn_def callStep_def started_def
    by (intro exI [of _ "length (loopLog a)"] exI [of _ st]) simp
  ultimately have "callInv n (a2\<lparr>ag_stage := Proposing assembly mode system (projr r1) seed\<rparr>)" for system seed
    using s2 r2(3,4) st1(2,3)
    by (intro callInv_step) (simp_all add: stageFacts_def callStep_def loopLog_def)
  then show ?thesis
    using assms o1 o2 s1
    by (auto simp: buildStep_def intro!: stepAlive_call failStep_call split: sum.split)
qed

lemma proposedStep_call:
  assumes "callInv n a" and "ag_stage a = Proposing assembly mode system boundary seed"
  shows "callInv n (proposedStep propose assembly mode system boundary seed a)"
proof -
  have s: "callStep n a" using assms by (simp add: callStep_of)
  have "callInv n (a\<lparr>ag_stage := PreparingCall assembly mode system boundary c\<rparr>)" for c
    using assms by (intro callInv_step [OF s]) (simp_all add: callInv_def stageFacts_def)
  then show ?thesis
    using s by (auto simp: proposedStep_def intro!: stepAlive_call failStep_call split: sum.split)
qed

text \<open>An append of a part of the call itself.\<close>

lemma callLog_snoc:
  assumes "callLog n st logged" and "sessionInv (sessionOf st')" and "logS st' = logS st @ [e]"
    and "answersAt (logS st @ [e]) (length (logS st))"
    and "logged' \<Longrightarrow> logged \<or> (\<exists>h r. ev_data e = RequestHeader h r)"
  shows "callLog n st' logged'"
proof -
  have "answersAt (logS st @ [e]) i" if "n \<le> i" "i < length (logS st @ [e])" for i
    using that assms(1,4) answersAt_grow [of i "logS st" "[e]"]
    by (cases "i < length (logS st)") (auto simp: callLog_def less_Suc_eq)
  moreover have "foldRequestHeader (logS st @ [e]) None \<noteq> None" if "logged'"
    using assms(1,5) that by (auto simp: foldRequestHeader_append callLog_def split: event_data.split)
  ultimately show ?thesis using assms(1-3) by (simp add: callLog_def)
qed

lemma loud_append:
  assumes "callStep n a" and "loopAppend ae d meta a = (a', Inr ev)"
    and "\<And>e. ev_data e = d \<Longrightarrow> (surfaceOp e, sourceEventSeqs e) = meta
      \<Longrightarrow> answersAt (loopLog a @ [e]) (length (loopLog a))"
    and "logged \<Longrightarrow> ag_headerLogged a \<or> (\<exists>h r. d = RequestHeader h r)"
  shows "callStep n (a'\<lparr>ag_headerLogged := logged\<rparr>)" and "loopLog a' = loopLog a @ [ev]"
    and "seq ev = length (loopLog a)" and "ev_data ev = d" and "ag_phase a' = ag_phase a"
proof -
  obtain st q where st: "driverAppend ae d meta (ag_state a) = (st, q)" "a' = a\<lparr>ag_state := st\<rparr>" "Inr ev = mapErr LoopAppend q"
    using loopAppend_state [OF assms(2)] by blast
  then have "q = Inr ev" by (cases q) simp_all
  then have ev: "logS st = logS (ag_state a) @ [ev]" "ev_data ev = d" "seq ev = length (logS (ag_state a))"
      "(surfaceOp ev, sourceEventSeqs ev) = meta"
    using driverAppend_Inr [of ae d meta "ag_state a" st ev] st(1) by auto
  have inv: "sessionInv (sessionOf st)"
    using driverAppend_sessionInv [OF st(1)] assms(1) by (simp add: callStep_def callTurn_def callLog_def)
  have "callLog n st logged"
    by (rule callLog_snoc [OF _ inv ev(1)]) (use assms ev in \<open>auto simp: callStep_def callTurn_def loopLog_def\<close>)
  then show "callStep n (a'\<lparr>ag_headerLogged := logged\<rparr>)" "loopLog a' = loopLog a @ [ev]"
    "seq ev = length (loopLog a)" "ev_data ev = d" "ag_phase a' = ag_phase a"
    using assms(1) st(2) ev by (auto simp: callStep_def callTurn_def loopLog_def started_grow)
qed

text \<open>A refused append leaves the log alone.\<close>

lemma refused_append:
  assumes "callStep n a" and "loopAppend ae d meta a = (a', Inl err)"
  shows "callStep n a'"
proof -
  obtain st q where st: "driverAppend ae d meta (ag_state a) = (st, q)" "a' = a\<lparr>ag_state := st\<rparr>" "Inl err = mapErr LoopAppend q"
    using loopAppend_state [OF assms(2)] by blast
  then obtain e where "q = Inl e" by (cases q) simp_all
  then have "steady (ag_state a) st"
    using st(1) driverAppend_Inl [of ae d meta "ag_state a" st e] driverAppend_sessionInv by (intro steady_same) auto
  then show ?thesis using steady_call(2) assms(1) st(2) by simp
qed

lemma fold_canonical:
  "foldRequestHeader lg q = Some h \<Longrightarrow> (\<And>h. q = Some h \<Longrightarrow> canonical h) \<Longrightarrow> canonical h"
proof (induction lg arbitrary: q)
  case (Cons e lg)
  let ?q = "case ev_data e of RequestHeader h _ \<Rightarrow> Some (canonicalHeader h) | _ \<Rightarrow> q"
  have "foldRequestHeader lg ?q = Some h" using Cons.prems(1) by simp
  moreover have "\<And>h. ?q = Some h \<Longrightarrow> canonical h"
    using Cons.prems(2) canonicalHeader_idem by (auto split: event_data.splits)
  ultimately show ?case by (rule Cons.IH)
qed simp

lemma header_read:
  assumes "callStep n a" and "onSession requestHeader a = (a1, q)"
  shows "q = foldRequestHeader (loopLog a) None" and "ag_headerLogged a1 = ag_headerLogged a"
proof -
  have inv: "sessionInv (sessionOf (ag_state a))" using assms(1) by (simp add: callStep_def callTurn_def callLog_def)
  show "q = foldRequestHeader (loopLog a) None"
    using assms(2) requestHeader_inv(2) [OF inv prod.collapse [symmetric]]
    by (auto simp: onSession_def loopLog_def logS_def sessionOf_def split: prod.splits)
  show "ag_headerLogged a1 = ag_headerLogged a"
    using assms(2) by (auto simp: onSession_def split: prod.splits)
qed

lemma logHeader_call:
  assumes a: "callStep n a" and l: "logHeader ae header a = (b, r)" and c: "canonical header"
  shows "callStep n b \<and> ag_phase b = ag_phase a \<and> (\<exists>es. loopLog b = loopLog a @ es)
    \<and> (r = Inr () \<longrightarrow> foldRequestHeader (loopLog b) None = Some header)"
proof -
  obtain a1 q where o: "onSession requestHeader a = (a1, q)" by fastforce
  have a1: "callStep n a1" "loopLog a1 = loopLog a" "ag_phase a1 = ag_phase a"
    using header_call [OF o] a by auto
  have q: "q = foldRequestHeader (loopLog a) None" "ag_headerLogged a1 = ag_headerLogged a"
    using header_read [OF a o] by auto
  have app: "callStep n x \<and> callStep n (x\<lparr>ag_headerLogged := True\<rparr>) \<and> ag_phase x = ag_phase a
      \<and> (\<exists>es. loopLog x = loopLog a @ es)
      \<and> (\<not> isl y \<longrightarrow> foldRequestHeader (loopLog x) None = Some header)"
    if h: "loopAppend ae (RequestHeader header t) unmarked a1 = (x, y)" and n: "\<not> isl y" for x y t
  proof -
    obtain ev where y: "y = Inr ev" using n by (cases y) simp_all
    have ans: "answersAt (loopLog a1 @ [e]) (length (loopLog a1))" if "ev_data e = RequestHeader header t" for e
      using that by (simp add: answersAt_def)
    note L = loud_append [OF a1(1) h [unfolded y]]
    have "callStep n (x\<lparr>ag_headerLogged := True\<rparr>)" by (rule L(1)) (use ans in auto)
    moreover have "callStep n (x\<lparr>ag_headerLogged := ag_headerLogged x\<rparr>)"
      by (rule L(1)) (use ans loopAppend_state [OF h] in auto)
    moreover have "loopLog x = loopLog a @ [ev]" "ev_data ev = RequestHeader header t" "ag_phase x = ag_phase a"
      using L(2,4,5) [of False] ans a1 by auto
    ultimately show ?thesis
      using c by (auto simp: foldRequestHeader_append canonical_def)
  qed
  have ref: "callStep n x \<and> ag_phase x = ag_phase a \<and> (\<exists>es. loopLog x = loopLog a @ es)"
    if h: "loopAppend ae (RequestHeader header t) unmarked a1 = (x, Inl err)" for x err t
    using refused_append [OF a1(1) h] h a1 by (cases rule: loopAppend_cases [OF h]) auto
  have same: "foldRequestHeader (loopLog a) None = Some header" if "q = Some h" "headerEquals h header" for h
    using that q(1) headerEquals_canonical [OF fold_canonical c, of "loopLog a" None h] by simp
  have any: "callStep n x \<and> ag_phase x = ag_phase a \<and> (\<exists>es. loopLog x = loopLog a @ es)
      \<and> (\<not> isl y \<longrightarrow> callStep n (x\<lparr>ag_headerLogged := True\<rparr>)
            \<and> foldRequestHeader (loopLog x) None = Some header)"
    if "loopAppend ae (RequestHeader header t) unmarked a1 = (x, y)" for x y t
    using app [OF that] ref that by (cases y) auto
  consider (first) "\<not> ag_headerLogged a1"
    | (change) "ag_headerLogged a1" "case q of None \<Rightarrow> True | Some h \<Rightarrow> \<not> headerEquals h header"
    | (keep) h where "ag_headerLogged a1" "q = Some h" "headerEquals h header"
    by (cases q) auto
  then show ?thesis
  proof cases
    case first
    let ?d = "RequestHeader header (if q = None then ''initial'' else ''resume'')"
    obtain x y where x: "loopAppend ae ?d unmarked a1 = (x, y)" by fastforce
    show ?thesis using l o first x any [OF x] by (cases y) (auto simp: logHeader_def)
  next
    case change
    obtain x y where x: "loopAppend ae (RequestHeader header ''change'') unmarked a1 = (x, y)" by fastforce
    show ?thesis using l o change x any [OF x] by (cases y) (auto simp: logHeader_def)
  next
    case keep
    then show ?thesis using l o a1 same by (auto simp: logHeader_def)
  qed
qed

end
