(* ===== verification/Loop_Provenance.thy ===== *)
theory Loop_Provenance
  imports Loop_Calls
begin

text \<open>
  The invariant of model calls is kept by every step, so it holds along every run, however calls
  fail, are retried, reviewed or cancelled.
\<close>

section \<open>From the header to the stream\<close>

lemma logContext_call:
  assumes a: "callStep n a" and l: "logContext ae ctx a = (b, r)"
  shows "callStep n b \<and> ag_phase b = ag_phase a
    \<and> (\<exists>es. loopLog b = loopLog a @ es \<and> list_all (\<lambda>e. calm (ev_data e)) es)"
proof -
  obtain a1 q where o: "onSession requestContext a = (a1, q)" by fastforce
  have a1: "callStep n a1" "loopLog a1 = loopLog a" "ag_phase a1 = ag_phase a"
    using context_call [OF o] a by auto
  have "callStep n x \<and> ag_phase x = ag_phase a
      \<and> (\<exists>es. loopLog x = loopLog a @ es \<and> list_all (\<lambda>e. calm (ev_data e)) es)"
    if h: "loopAppend ae (RequestContext ctx) unmarked a1 = (x, y)" for x y
    using append_call(2) [OF h _ a1(1)] a1
    by (cases rule: loopAppend_cases [OF h]) auto
  then show ?thesis
    using l o a1 by (auto simp: logContext_def split: prod.splits if_split_asm)
qed

lemma preparedStep_call:
  assumes i: "callInv n a" and s: "ag_stage a = PreparingCall assembly mode system boundary proposed"
  shows "callInv n (preparedStep r ae1 ae2 assembly mode system boundary proposed a)"
proof -
  have a: "callStep n a" using i s by (simp add: callStep_of)
  have d: "derivedIn (phaseTurn a) (phaseStep a) (loopLog a) boundary"
    using i s by (simp add: callInv_def stageFacts_def loopLog_def)
  have logged: "callInv n (case logHeader ae1 (canonicalHeader h) a of
         (a1, Inl err) \<Rightarrow> failStep err a1
       | (a1, Inr _) \<Rightarrow>
           (case logContext ae2 ctx a1 of
              (a2, Inl err) \<Rightarrow> failStep err a2
            | (a2, Inr _) \<Rightarrow>
                a2\<lparr>ag_stage := Dispatching assembly mode
                     \<lparr>lr_config = eh_config (canonicalHeader h), lr_messages = boundary,
                      lr_system = eh_system (canonicalHeader h), lr_tools = eh_tools (canonicalHeader h)\<rparr>\<rparr>))"
    for h ctx
  proof -
    let ?h = "canonicalHeader h"
    obtain a1 r1 where l1: "logHeader ae1 ?h a = (a1, r1)" by fastforce
    obtain a2 r2 where l2: "logContext ae2 ctx a1 = (a2, r2)" by fastforce
    note h1 = logHeader_call [OF a l1 canonicalHeader_idem]
    note h2 = logContext_call [OF conjunct1 [OF h1] l2]
    have "callInv n (a2\<lparr>ag_stage := Dispatching assembly mode
          \<lparr>lr_config = eh_config ?h, lr_messages = boundary, lr_system = eh_system ?h, lr_tools = eh_tools ?h\<rparr>\<rparr>)"
      if "r1 = Inr ()"
    proof (rule callInv_step)
      show "callStep n a2" using h2 by blast
      have "derivedIn (phaseTurn a2) (phaseStep a2) (loopLog a2) boundary"
        using d h1 h2 derivedIn_grow by auto
      moreover have "foldRequestHeader (loopLog a2) None = Some ?h"
      proof -
        obtain es where es: "loopLog a2 = loopLog a1 @ es" "list_all (\<lambda>e. calm (ev_data e)) es" using h2 by blast
        show ?thesis using h1 that by (simp only: es(1) foldRequestHeader_append calm_header [OF es(2)])
      qed
      then have "underHeader (loopLog a2)
          \<lparr>lr_config = eh_config ?h, lr_messages = boundary, lr_system = eh_system ?h, lr_tools = eh_tools ?h\<rparr>"
        by (simp add: underHeader_def)
      ultimately show "stageFacts (phaseTurn a2) (phaseStep a2) (ag_state a2) (Dispatching assembly mode
          \<lparr>lr_config = eh_config ?h, lr_messages = boundary, lr_system = eh_system ?h, lr_tools = eh_tools ?h\<rparr>)"
        using h2 by (auto simp: stageFacts_def loopLog_def callStep_def)
    qed simp
    then show ?thesis
      using l1 l2 h1 h2 by (cases r1; cases r2) (auto intro: failStep_call)
  qed
  show ?thesis
    unfolding preparedStep_def Let_def
    using a by (auto intro!: failStep_call stepAlive_call logged split: sum.split)
qed

lemma dispatchStep_call:
  assumes "callStep n a"
  shows "callInv n (dispatchStep r assembly mode request a)"
proof -
  have "attemptOK T P lg mode \<lparr>at_request = request, at_assembler = emptyAssembler, at_chunkSeqs = [], at_buffered = []\<rparr>"
    for T P lg
    by (cases mode) (auto simp: attemptOK_def cited_def pushAll_def intro!: exI [of _ "[]"])
  then have "callInv n (a\<lparr>ag_stage := Streaming assembly mode
      \<lparr>at_request = request, at_assembler = emptyAssembler, at_chunkSeqs = [], at_buffered = []\<rparr>\<rparr>)"
    using assms by (intro callInv_step) (simp_all add: stageFacts_def callStep_def loopLog_def)
  then show ?thesis
    using assms by (auto simp: dispatchStep_def intro!: stepAlive_call failStep_call split: sum.split)
qed

lemma pushAll_snoc: "pushAll (cs @ [c]) = push (pushAll cs) c"
  by (simp add: pushAll_def)

lemma chunkStep_call:
  assumes i: "callInv n a" and s: "ag_stage a = Streaming assembly mode att"
  shows "callInv n (chunkStep chunk ae assembly mode att a)"
proof -
  have a: "callStep n a" using i s by (simp add: callStep_of)
  obtain cs where cs: "at_assembler att = pushAll cs"
      "case mode of Streamed \<Rightarrow> cited (phaseTurn a) (phaseStep a) (loopLog a) (at_chunkSeqs att) cs
        | Buffered \<Rightarrow> at_chunkSeqs att = [] \<and> at_buffered att = cs"
    using i s unfolding callInv_def stageFacts_def attemptOK_def loopLog_def by fastforce
  have "callInv n (case mode of
      Streamed \<Rightarrow>
        (case loopAppend ae (AssistantChunk (phaseTurn a) (phaseStep a) chunk) unmarked a of
           (a', Inl err) \<Rightarrow> failStep err a'
         | (a', Inr ev) \<Rightarrow>
             a'\<lparr>ag_stage := Streaming assembly mode
                  (att\<lparr>at_chunkSeqs := at_chunkSeqs att @ [seq ev],
                       at_assembler := push (at_assembler att) chunk\<rparr>)\<rparr>)
    | Buffered \<Rightarrow>
        a\<lparr>ag_stage := Streaming assembly mode
             (att\<lparr>at_buffered := at_buffered att @ [chunk],
                  at_assembler := push (at_assembler att) chunk\<rparr>)\<rparr>)"
  proof (cases mode)
    case Buffered
    then show ?thesis
      using a cs by (auto simp: stageFacts_def attemptOK_def callStep_def loopLog_def pushAll_snoc
          intro!: callInv_step [OF a] exI [of _ "cs @ [chunk]"])
  next
    case Streamed
    obtain a' r where ap: "loopAppend ae (AssistantChunk (phaseTurn a) (phaseStep a) chunk) unmarked a = (a', r)"
      by fastforce
    show ?thesis
    proof (cases r)
      case (Inl err)
      then show ?thesis using Streamed ap refused_append [OF a] failStep_call by auto
    next
      case (Inr ev)
      have ans: "answersAt (loopLog a @ [e]) (length (loopLog a))"
        if "ev_data e = AssistantChunk (phaseTurn a) (phaseStep a) chunk" for e
        using that by (simp add: answersAt_def)
      note L = loud_append [OF a ap [unfolded Inr]]
      have ev: "loopLog a' = loopLog a @ [ev]" "seq ev = length (loopLog a)" "ag_phase a' = ag_phase a"
          "ev_data ev = AssistantChunk (phaseTurn a) (phaseStep a) chunk"
        using L(2-5) [of False] ans by auto
      have a': "callStep n (a'\<lparr>ag_headerLogged := ag_headerLogged a'\<rparr>)"
        by (rule L(1)) (use ans loopAppend_state [OF ap] in auto)
      have "cited (phaseTurn a) (phaseStep a) (loopLog a') (at_chunkSeqs att @ [seq ev]) (cs @ [chunk])"
        using cited_snoc [of _ _ "loopLog a" _ cs ev] cs(2) Streamed ev by simp
      then have "callInv n (a'\<lparr>ag_stage := Streaming assembly mode
          (att\<lparr>at_chunkSeqs := at_chunkSeqs att @ [seq ev], at_assembler := push (at_assembler att) chunk\<rparr>)\<rparr>)"
        using a' cs(1) ev(3) Streamed
        by (intro callInv_step)
          (auto simp: stageFacts_def attemptOK_def callStep_def loopLog_def pushAll_snoc intro!: exI [of _ "cs @ [chunk]"])
      then show ?thesis using Streamed ap Inr by simp
    qed
  qed
  then show ?thesis unfolding chunkStep_def using a by (intro stepAlive_call) simp_all
qed

section \<open>The answer\<close>

lemma streamEndStep_call:
  assumes i: "callInv n a" and s: "ag_stage a = Streaming assembly mode att"
  shows "callInv n (streamEndStep fresh assembly mode att a)"
proof -
  have a: "callStep n a" using i s by (simp add: callStep_of)
  have att: "attemptOK (phaseTurn a) (phaseStep a) (loopLog a) mode att"
    using i s by (simp add: callInv_def stageFacts_def loopLog_def)
  have m: "msg_content (modelMessage fresh att content) = content" for content by (simp add: modelMessage_def)
  have st: "callInv n (a\<lparr>ag_stage := Answering mode att (modelMessage fresh att content)\<rparr>)"
    "mode = Buffered \<Longrightarrow> callInv n (a\<lparr>ag_stage := Reviewing assembly att (modelMessage fresh att content)\<rparr>)"
    if "blocks (at_assembler att) = Inr content" for content
    using a att that by (auto intro!: callInv_step simp: stageFacts_def callStep_def loopLog_def m)
  show ?thesis
    unfolding streamEndStep_def Let_def
    using a st by (intro stepAlive_call)
      (auto intro!: failStep_call callInv_bare split: sum.split finish_reason.split)
qed

lemma recoveredStep_call: "callStep n a \<Longrightarrow> callInv n (recoveredStep r assembly mode f a)"
  by (auto simp: recoveredStep_def intro!: stepAlive_call failStep_call callInv_bare split: sum.split)

lemma reassembledStep_call: "callStep n a \<Longrightarrow> callInv n (reassembledStep r mode a)"
  by (auto simp: reassembledStep_def intro!: stepAlive_call failStep_call callInv_bare split: sum.split)

lemma reviewedStep_call:
  assumes i: "callInv n a" and s: "ag_stage a = Reviewing assembly att m"
  shows "callInv n (reviewedStep r att m a)"
proof -
  have a: "callStep n a" using i s by (simp add: callStep_of)
  have "callInv n (a\<lparr>ag_stage := Answering Buffered att m\<rparr>)"
    using i s by (intro callInv_step [OF a]) (simp_all add: callInv_def stageFacts_def)
  then show ?thesis
    using a by (auto simp: reviewedStep_def intro!: stepAlive_call failStep_call callInv_bare split: sum.split)
qed

text \<open>The chunks of a buffered answer enter the log one after another.\<close>

lemma flushChunks_call:
  "flushChunks T P cs env st = (st', r) \<Longrightarrow> callLog n st logged \<Longrightarrow> cited T P (logS st) ss ds
    \<Longrightarrow> callLog n st' logged \<and> (\<exists>es. logS st' = logS st @ es)
      \<and> (\<forall>flushed. r = Inr flushed \<longrightarrow> cited T P (logS st') (ss @ flushed) (ds @ cs))"
proof (induction cs arbitrary: env st st' r ss ds)
  case (Cons c cs)
  obtain st1 x where a: "driverAppend (env 0) (AssistantChunk T P c) unmarked st = (st1, x)" by fastforce
  show ?case
  proof (cases x)
    case (Inl err)
    then have "steady st st1"
      using a driverAppend_Inl [of "env 0" _ _ st st1] driverAppend_sessionInv by (intro steady_same) auto
    then show ?thesis
      using Cons.prems a Inl callLog_steady by (auto simp: steady_def)
  next
    case (Inr ev)
    have ev: "logS st1 = logS st @ [ev]" "ev_data ev = AssistantChunk T P c" "seq ev = length (logS st)"
      using a Inr driverAppend_Inr [of "env 0" _ _ st st1 ev] by auto
    have "callLog n st1 logged"
      by (rule callLog_snoc [OF Cons.prems(2) _ ev(1)])
        (use driverAppend_sessionInv [OF a] Cons.prems(2) ev in \<open>auto simp: callLog_def answersAt_def\<close>)
    moreover have "cited T P (logS st1) (ss @ [seq ev]) (ds @ [c])"
      using cited_snoc [OF Cons.prems(3) ev(2)] ev by simp
    moreover obtain st2 y where f: "flushChunks T P cs (\<lambda>k. env (Suc k)) st1 = (st2, y)" by fastforce
    ultimately have ih: "callLog n st2 logged \<and> (\<exists>es. logS st2 = logS st1 @ es)
        \<and> (\<forall>flushed. y = Inr flushed \<longrightarrow> cited T P (logS st2) ((ss @ [seq ev]) @ flushed) ((ds @ [c]) @ cs))"
      using Cons.IH by blast
    show ?thesis using Cons.prems(1) a Inr f ih ev(1) by (cases y) auto
  qed
qed simp

lemma answerStep_call:
  assumes i: "callInv n a" and s: "ag_stage a = Answering mode att m"
  shows "callInv n (answerStep env ae mode att m a)"
proof -
  let ?T = "phaseTurn a" and ?P = "phaseStep a"
  have a: "callStep n a" using i s by (simp add: callStep_of)
  have "attemptOK ?T ?P (loopLog a) mode att" "blocks (at_assembler att) = Inr (msg_content m)"
    using i s by (simp_all add: callInv_def stageFacts_def loopLog_def)
  then obtain cs where cs: "at_assembler att = pushAll cs" "blocks (pushAll cs) = Inr (msg_content m)"
      "case mode of Streamed \<Rightarrow> cited ?T ?P (loopLog a) (at_chunkSeqs att) cs
        | Buffered \<Rightarrow> at_chunkSeqs att = [] \<and> at_buffered att = cs"
    unfolding attemptOK_def by auto
  define ds where "ds = (if mode = Buffered then [] else cs)"
  have ds: "cited ?T ?P (logS (ag_state a)) (at_chunkSeqs att) ds"
      "ds @ (if mode = Buffered then at_buffered att else []) = cs"
    using cs(3) by (cases mode; simp add: ds_def cited_def loopLog_def)+
  obtain st r where f: "flushChunks ?T ?P (if mode = Buffered then at_buffered att else []) env (ag_state a) = (st, r)"
    by fastforce
  have fc: "callLog n st (ag_headerLogged a) \<and> (\<exists>es. logS st = loopLog a @ es)
      \<and> (\<forall>flushed. r = Inr flushed \<longrightarrow> cited ?T ?P (logS st) (at_chunkSeqs att @ flushed) cs)"
    using flushChunks_call [OF f _ ds(1), of n "ag_headerLogged a"] a ds(2)
    by (simp add: callStep_def callTurn_def loopLog_def)
  then have b: "callStep n (a\<lparr>ag_state := st\<rparr>)"
    using a started_grow by (auto simp: callStep_def callTurn_def)
  show ?thesis
  proof (cases r)
    case (Inl err)
    then show ?thesis using f b failStep_call by (simp add: answerStep_def Let_def)
  next
    case (Inr flushed)
    define data where "data = AssistantMsg ?T ?P m (usageOf (at_assembler att))"
    obtain a' q where ap: "loopAppend ae data (surfaced (Some (at_chunkSeqs att @ flushed))) (a\<lparr>ag_state := st\<rparr>) = (a', q)"
      by fastforce
    have "callStep n a'"
    proof (cases q)
      case (Inl err)
      then show ?thesis using refused_append [OF b] ap by simp
    next
      case (Inr ev)
      have "answersAt (logS st @ [e]) (length (logS st))"
        if "ev_data e = data" "(surfaceOp e, sourceEventSeqs e) = surfaced (Some (at_chunkSeqs att @ flushed))" for e
        using that fc cs(1,2) \<open>r = Inr flushed\<close> by (auto simp: answersAt_def data_def)
      then have "callStep n (a'\<lparr>ag_headerLogged := ag_headerLogged a'\<rparr>)"
        by (intro loud_append(1) [OF b ap [unfolded Inr]]) (use loopAppend_state [OF ap] in auto)
      then show ?thesis by simp
    qed
    moreover have "callInv n (a'\<lparr>ag_stage := Executing (newExec T P calls k (ag_state a') b)\<rparr>)" for T P calls k b
      using \<open>callStep n a'\<close>
      by (intro callInv_step) (simp_all add: stageFacts_def callStep_def loopLog_def execState_def newExec_def)
    ultimately show ?thesis
      using f Inr ap
      by (auto simp: answerStep_def Let_def data_def intro!: failStep_call callInv_bare split: sum.split)
  qed
qed

section \<open>The scheduler and other code\<close>

lemma exec_call:
  assumes "callInv n a" and "ag_stage a = Executing x" and "execStep x e = Some y"
  shows "callInv n (a\<lparr>ag_state := execState y, ag_stage := Executing y\<rparr>)"
    and "callStep n (a\<lparr>ag_state := execState y\<rparr>)"
proof -
  have a: "callStep n a" using assms(1,2) by (simp add: callStep_of)
  have "steady (ag_state a) (execState y)"
    using execStep_steady [OF assms(3)] assms(1,2) by (simp add: callInv_def stageFacts_def)
  then show b: "callStep n (a\<lparr>ag_state := execState y\<rparr>)" using steady_call(2) a by blast
  then have "callInv n ((a\<lparr>ag_state := execState y\<rparr>)\<lparr>ag_stage := Executing y\<rparr>)"
    by (intro callInv_step) (simp_all add: stageFacts_def callStep_def loopLog_def)
  then show "callInv n (a\<lparr>ag_state := execState y, ag_stage := Executing y\<rparr>)" by simp
qed

lemma afterExec_call:
  assumes "callInv n a" and "ag_stage a = Executing x" and "execStep x e = Some y"
  shows "callInv n (afterExec y a)"
  using exec_call [OF assms] callInv_bare [OF exec_call(2) [OF assms]]
  by (auto simp: afterExec_def split: exec_stage.split)

lemma outside_call:
  assumes "callInv n a" and "outside f a = Some b"
  shows "callInv n b"
proof (cases "\<exists>x. ag_stage a = Executing x")
  case True
  then obtain x y where x: "ag_stage a = Executing x" "execStep x (Group (Foreign f)) = Some y"
      "b = a\<lparr>ag_state := execState y, ag_stage := Executing y\<rparr>"
    using assms(2) by (auto simp: outside_def)
  then show ?thesis using exec_call(1) [OF assms(1) x(1,2)] by simp
next
  case False
  then have b: "admissible f" "b = a\<lparr>ag_state := applyForeign (ag_state a) f\<rparr>"
    using assms(2) by (auto simp: outside_def split: driver_stage.splits if_splits)
  note st = foreign_steady [OF b(1), of "ag_state a"]
  show ?thesis
    using assms(1) False b callLog_steady [OF _ st] stageFacts_steady [OF _ st]
    by (auto simp: callInv_def)
qed

lemma phase_call:
  "callInv n a \<Longrightarrow> turnOf ph = phaseTurn a \<Longrightarrow> stepOf ph = phaseStep a \<Longrightarrow> isRunning ph = isRunning (ag_phase a)
    \<Longrightarrow> callInv n (a\<lparr>ag_phase := ph\<rparr>)"
  by (simp add: callInv_def)

lemma wakeDriver_call:
  assumes "callInv n a"
  shows "callInv n (wakeDriver w a)"
proof (cases "\<exists>t. ag_phase a = IdlePhase t")
  case True
  then show ?thesis
    using assms by (auto simp: wakeDriver_def startDriver_def setPhase_def Let_def callInv_def stageFacts_def)
next
  case False
  then have "wakeDriver w a = a \<or> wakeDriver w a = a\<lparr>ag_phase := withWake True (ag_phase a)\<rparr>"
    by (auto simp: wakeDriver_def split: agent_phase.split)
  then show ?thesis using assms phase_call [OF assms, of "withWake True (ag_phase a)"] by auto
qed

lemma sendStep_call: "callInv n a \<Longrightarrow> sendStep m target wakeup ae a = Some b \<Longrightarrow> callInv n b"
  by (auto simp: sendStep_def Let_def split: if_splits intro: wakeDriver_call outside_call)

lemma raiseAbort_call:
  assumes "callInv n a"
  shows "callInv n (raiseAbort cause a)"
proof (cases "\<exists>x. ag_stage a = Executing x")
  case True
  then obtain x where x: "ag_stage a = Executing x" by blast
  let ?a = "a\<lparr>ag_phase := abortPhase cause (ag_phase a)\<rparr>"
  have i: "callInv n ?a" using assms by (simp add: phase_call)
  have same: "callInv n (?a\<lparr>ag_stage := Executing y\<rparr>)" if "execState y = execState x" for y
    using i x that by (auto simp: callInv_def stageFacts_def)
  show ?thesis
  proof (cases "execStep x (Group Abort)")
    case None
    then have "execState (x\<lparr>ex_signal := True\<rparr>) = execState x"
      by (cases "ex_stage x") (simp_all add: execState_def)
    then show ?thesis using x None same by (simp add: raiseAbort_def Let_def)
  next
    case (Some y)
    then have "execState y = execState x" by (auto simp: execState_def split: exec_stage.splits)
    then show ?thesis using x Some same by (simp add: raiseAbort_def Let_def)
  qed
next
  case False
  then have "raiseAbort cause a = a\<lparr>ag_phase := abortPhase cause (ag_phase a)\<rparr>"
    by (auto simp: raiseAbort_def Let_def split: driver_stage.split)
  then show ?thesis using assms by (simp add: phase_call)
qed

lemma cancelStep_call:
  "callInv n a \<Longrightarrow> cancelStep cause keepInbox ae1 ae2 a = Some b \<Longrightarrow> callInv n b"
  by (auto simp: cancelStep_def Let_def bind_eq_Some_conv split: if_splits
      intro!: raiseAbort_call phase_call dest: outside_call)

lemma maintenance_call:
  assumes "callInv n a"
  shows "startMaintenance a = Some b \<Longrightarrow> callInv n b" and "endMaintenance a = Some b \<Longrightarrow> callInv n b"
proof -
  show "callInv n b" if "startMaintenance a = Some b"
    using assms that
    by (auto simp: startMaintenance_def setPhase_def Let_def callInv_def stageFacts_def split: agent_phase.splits)
  show "callInv n b" if e: "endMaintenance a = Some b"
  proof -
    obtain ab t w where ph: "ag_phase a = MaintenancePhase ab t w"
      using e by (cases "ag_phase a") (simp_all add: endMaintenance_def)
    then have "callInv n (setPhase (IdlePhase t) a)"
      using assms by (simp add: setPhase_def Let_def callInv_def stageFacts_def)
    then show ?thesis using e ph wakeDriver_call by (auto simp: endMaintenance_def Let_def split: if_splits)
  qed
qed

lemma convergeStep_call:
  assumes "callInv n a" and "ag_stage a = Converging"
  shows "callInv n (convergeStep a)"
proof -
  have "callInv n ((setPhase (IdlePhase (phaseTurn a)) a)\<lparr>ag_stage := NoDriver\<rparr>)"
    using assms by (simp add: callInv_def setPhase_def Let_def stageFacts_def)
  then show ?thesis using wakeDriver_call by (simp add: convergeStep_def Let_def)
qed

section \<open>Runs\<close>

text \<open>Which function of the driver an input runs.\<close>

lemma driverStep_cases:
  assumes "driverStep a i = Some b"
  obtains
    (openTurn) ae where "ag_stage a = TurnOpening" "i = OpenTurn ae" "b = openTurnStep ae a"
  | (claim) target now vetoes where "ag_stage a = PreStepping target" "i = Claim now vetoes" "b = claimStep now vetoes target a"
  | (assembled) claimed r fresh where "ag_stage a = Assembling claimed" "i = Assembled r fresh" "b = assembledStep r fresh claimed a"
  | (reassembled) mode r fresh where "ag_stage a = Reassembling mode" "i = Assembled r fresh" "b = reassembledStep r mode a"
  | (decided) claimed proposed assembly decide where "ag_stage a = Deciding claimed proposed assembly" "i = Decided decide" "b = decidedStep decide claimed proposed assembly a"
  | (openStep) messages assembly mode ae where "ag_stage a = StepOpening messages assembly mode" "i = OpenStep ae" "b = openStepStep ae messages assembly mode a"
  | (post) m rest assembly mode ae where "ag_stage a = Posting (m # rest) assembly mode" "i = Post ae" "b = postStep ae m rest assembly mode a"
  | (build) assembly mode where "ag_stage a = Building assembly mode" "i = Build" "b = buildStep assembly mode a"
  | (proposed) assembly mode system boundary seed propose where "ag_stage a = Proposing assembly mode system boundary seed" "i = Proposed propose" "b = proposedStep propose assembly mode system boundary seed a"
  | (prepared) assembly mode system boundary config r ae1 ae2 where "ag_stage a = PreparingCall assembly mode system boundary config" "i = CallPrepared r ae1 ae2" "b = preparedStep r ae1 ae2 assembly mode system boundary config a"
  | (dispatched) assembly mode request r where "ag_stage a = Dispatching assembly mode request" "i = Dispatched r" "b = dispatchStep r assembly mode request a"
  | (chunk) assembly mode att c ae where "ag_stage a = Streaming assembly mode att" "i = Chunk c ae" "b = chunkStep c ae assembly mode att a"
  | (threw) assembly mode att err where "ag_stage a = Streaming assembly mode att" "i = StreamThrew err" "b = failStep (LoopThrown err) a"
  | (streamed) assembly mode att fresh where "ag_stage a = Streaming assembly mode att" "i = StreamEnded fresh" "b = streamEndStep fresh assembly mode att a"
  | (recovered) assembly mode f r where "ag_stage a = Recovering assembly mode f" "i = Recovered r" "b = recoveredStep r assembly mode f a"
  | (reviewed) assembly att m r where "ag_stage a = Reviewing assembly att m" "i = Reviewed r" "b = reviewedStep r att m a"
  | (answer) mode att m env ae where "ag_stage a = Answering mode att m" "i = Answer env ae" "b = answerStep env ae mode att m a"
  | (tools) x e y where "ag_stage a = Executing x" "i = Tools e" "\<not> abortInput e" "execStep x e = Some y" "b = afterExec y a"
  | (closeStep) result ae where "ag_stage a = StepClosing result" "i = CloseStep ae" "b = closeStepStep ae result a"
  | (stopped) r where "ag_stage a = Stopping" "i = Stopped r" "b = stoppedStep r a"
  | (closeTurn) exit reason ae where "ag_stage a = TurnClosing exit" "ag_turnEnds a = Some reason" "i = CloseTurn ae" "b = closeTurnStep ae exit reason a"
  | (converge) "ag_stage a = Converging" "i = Converge" "b = convergeStep a"
  | (send) m target wakeup ae where "i = Send m target wakeup ae" "sendStep m target wakeup ae a = Some b"
  | (cancelled) cause keepInbox ae1 ae2 where "i = Cancel cause keepInbox ae1 ae2" "cancelStep cause keepInbox ae1 ae2 a = Some b"
  | (maintain) "i = StartMaintenance" "startMaintenance a = Some b"
  | (maintained) "i = EndMaintenance" "endMaintenance a = Some b"
  | (other) f where "i = Outside f" "outside f a = Some b"
proof (cases i)
  case (OpenTurn ae)
  then show ?thesis
    using assms that(1) by (auto simp: driverStep_def split: driver_stage.splits list.splits if_splits)
next
  case (Claim now vetoes)
  then show ?thesis
    using assms that(2) by (auto simp: driverStep_def split: driver_stage.splits list.splits if_splits)
next
  case (Assembled r fresh)
  then show ?thesis
    using assms that(3,4) by (auto simp: driverStep_def split: driver_stage.splits list.splits if_splits)
next
  case (Decided decide)
  then show ?thesis
    using assms that(5) by (auto simp: driverStep_def split: driver_stage.splits list.splits if_splits)
next
  case (OpenStep ae)
  then show ?thesis
    using assms that(6) by (auto simp: driverStep_def split: driver_stage.splits list.splits if_splits)
next
  case (Post ae)
  then show ?thesis
    using assms that(7) by (auto simp: driverStep_def split: driver_stage.splits list.splits if_splits)
next
  case Build
  then show ?thesis
    using assms that(8) by (auto simp: driverStep_def split: driver_stage.splits list.splits if_splits)
next
  case (Proposed propose)
  then show ?thesis
    using assms that(9) by (auto simp: driverStep_def split: driver_stage.splits list.splits if_splits)
next
  case (CallPrepared r ae1 ae2)
  then show ?thesis
    using assms that(10) by (auto simp: driverStep_def split: driver_stage.splits list.splits if_splits)
next
  case (Dispatched r)
  then show ?thesis
    using assms that(11) by (auto simp: driverStep_def split: driver_stage.splits list.splits if_splits)
next
  case (Chunk c ae)
  then show ?thesis
    using assms that(12) by (auto simp: driverStep_def split: driver_stage.splits list.splits if_splits)
next
  case (StreamThrew err)
  then show ?thesis
    using assms that(13) by (auto simp: driverStep_def split: driver_stage.splits list.splits if_splits)
next
  case (StreamEnded fresh)
  then show ?thesis
    using assms that(14) by (auto simp: driverStep_def split: driver_stage.splits list.splits if_splits)
next
  case (Recovered r)
  then show ?thesis
    using assms that(15) by (auto simp: driverStep_def split: driver_stage.splits list.splits if_splits)
next
  case (Reviewed r)
  then show ?thesis
    using assms that(16) by (auto simp: driverStep_def split: driver_stage.splits list.splits if_splits)
next
  case (Answer env ae)
  then show ?thesis
    using assms that(17) by (auto simp: driverStep_def split: driver_stage.splits list.splits if_splits)
next
  case (Tools e)
  then show ?thesis
    using assms that(18) by (auto simp: driverStep_def split: driver_stage.splits list.splits if_splits)
next
  case (CloseStep ae)
  then show ?thesis
    using assms that(19) by (auto simp: driverStep_def split: driver_stage.splits list.splits if_splits)
next
  case (Stopped r)
  then show ?thesis
    using assms that(20) by (auto simp: driverStep_def split: driver_stage.splits list.splits if_splits)
next
  case (CloseTurn ae)
  then show ?thesis
    using assms that(21) by (auto simp: driverStep_def split: driver_stage.splits list.splits if_splits)
next
  case Converge
  then show ?thesis
    using assms that(22) by (auto simp: driverStep_def split: driver_stage.splits list.splits if_splits)
next
  case (Send m target wakeup ae)
  then show ?thesis
    using assms that(23) by (auto simp: driverStep_def split: driver_stage.splits list.splits if_splits)
next
  case (Cancel cause keepInbox ae1 ae2)
  then show ?thesis
    using assms that(24) by (auto simp: driverStep_def split: driver_stage.splits list.splits if_splits)
next
  case StartMaintenance
  then show ?thesis
    using assms that(25) by (auto simp: driverStep_def split: driver_stage.splits list.splits if_splits)
next
  case EndMaintenance
  then show ?thesis
    using assms that(26) by (auto simp: driverStep_def split: driver_stage.splits list.splits if_splits)
next
  case (Outside f)
  then show ?thesis
    using assms that(27) by (auto simp: driverStep_def split: driver_stage.splits list.splits if_splits)
qed

lemma driverStep_call:
  assumes "callInv n a" and "driverStep a i = Some b"
  shows "callInv n b"
  using assms(2)
proof (cases rule: driverStep_cases)
  case (openTurn ae)
  then show ?thesis using openTurnStep_call [OF assms(1) openTurn(1)] by simp
next
  case (claim target now vetoes)
  then show ?thesis using callTurn_of [OF assms(1)] claimStep_call by simp
next
  case (assembled claimed r fresh)
  then show ?thesis using callTurn_of [OF assms(1)] assembledStep_call by simp
next
  case (reassembled mode r fresh)
  then show ?thesis using callStep_of [OF assms(1)] reassembledStep_call by simp
next
  case (decided claimed proposed assembly decide)
  then show ?thesis using callTurn_of [OF assms(1)] decidedStep_call by simp
next
  case (openStep messages assembly mode ae)
  then show ?thesis using callTurn_of [OF assms(1)] openStepStep_call by simp
next
  case (post m rest assembly mode ae)
  then show ?thesis using callStep_of [OF assms(1)] postStep_call by simp
next
  case (build assembly mode)
  then show ?thesis using callStep_of [OF assms(1)] buildStep_call by simp
next
  case (proposed assembly mode system boundary seed propose)
  then show ?thesis using proposedStep_call [OF assms(1) proposed(1)] by simp
next
  case (prepared assembly mode system boundary config r ae1 ae2)
  then show ?thesis using preparedStep_call [OF assms(1) prepared(1)] by simp
next
  case (dispatched assembly mode request r)
  then show ?thesis using callStep_of [OF assms(1)] dispatchStep_call by simp
next
  case (chunk assembly mode att c ae)
  then show ?thesis using chunkStep_call [OF assms(1) chunk(1)] by simp
next
  case (threw assembly mode att err)
  then show ?thesis using callStep_of [OF assms(1)] failStep_call by simp
next
  case (streamed assembly mode att fresh)
  then show ?thesis using streamEndStep_call [OF assms(1) streamed(1)] by simp
next
  case (recovered assembly mode f r)
  then show ?thesis using callStep_of [OF assms(1)] recoveredStep_call by simp
next
  case (reviewed assembly att m r)
  then show ?thesis using reviewedStep_call [OF assms(1) reviewed(1)] by simp
next
  case (answer mode att m env ae)
  then show ?thesis using answerStep_call [OF assms(1) answer(1)] by simp
next
  case (tools x e y)
  then show ?thesis by (simp add: afterExec_call [OF assms(1) tools(1,4)] tools(5))
next
  case (closeStep result ae)
  then show ?thesis using callTurn_of [OF assms(1)] closeStepStep_call by simp
next
  case (stopped r)
  then show ?thesis using callTurn_of [OF assms(1)] stoppedStep_call by simp
next
  case (closeTurn exit reason ae)
  then show ?thesis using callTurn_of [OF assms(1)] closeTurnStep_call by simp
next
  case converge
  then show ?thesis using convergeStep_call [OF assms(1) converge(1)] by simp
next
  case (send m target wakeup ae)
  show ?thesis by (rule sendStep_call [OF assms(1) send(2)])
next
  case (cancelled cause keepInbox ae1 ae2)
  show ?thesis by (rule cancelStep_call [OF assms(1) cancelled(2)])
next
  case maintain
  show ?thesis by (rule maintenance_call(1) [OF assms(1) maintain(2)])
next
  case maintained
  show ?thesis by (rule maintenance_call(2) [OF assms(1) maintained(2)])
next
  case (other f)
  show ?thesis by (rule outside_call [OF assms(1) other(2)])
qed

lemma loopRun_call: "loopRun a is = Some b \<Longrightarrow> callInv n a \<Longrightarrow> callInv n b"
proof (induction "is" arbitrary: a)
  case (Cons i "is")
  then obtain c where c: "loopStep a i = Some c" "loopRun c is = Some b" by (auto simp: bind_eq_Some_conv)
  then obtain d where "driverStep a i = Some d" "c = followEvents a d" by (auto simp: loopStep_def)
  then have "callInv n c" using driverStep_call [OF Cons.prems(2)] by (simp add: followEvents_def callInv_def)
  then show ?case using Cons.IH c(2) by blast
qed simp

lemma newAgent_call:
  assumes "live S" and "newAgent cfg S = Inr a"
  shows "callInv (length (s_log S)) a"
proof -
  obtain st where st: "surfaceLog (s_log S) = Inr st" using live_surface [OF assms(1)] .
  have inv: "sessionInv S" "managerInv (s_log S) (s_manager S)"
    using live_inv [OF assms(1)] by (simp_all add: sessionInv_def)
  then have "managerInv (s_log S) (fst (managerNodes (s_log S) (s_manager S)))"
    using manager_reads [OF inv(2) st] by (metis fst_conv)
  then have "sessionInv (sessionOf (ag_state a))"
    using newAgent_parts(4) [OF assms(2)] sessionInv_manager [OF inv(1)] by simp
  then show ?thesis
    using newAgent_parts [OF assms(2)]
    by (auto simp: callInv_def callLog_def stageFacts_def loopLog_def)
qed

end
