(* ===== verification/Loop_Requests.thy ===== *)
theory Loop_Requests
  imports Loop_Provenance
begin

text \<open>
  \<^verbatim>\<open>packages/core/agent-loop/src/invariant.ts\<close>: the check of every request the loop sends
  against the log of its session, and the provenance of requests and responses.
\<close>

section \<open>The companion of the loop\<close>

text \<open>
  A request of the loop is frozen and names its own live session, so those checks cannot fail;
  the comparison of serialized messages and tools is the comparison of the values.
\<close>

datatype request_fault =
    NoStepStart
  | NoHeaderLogged
  | DeriveThrew session_error
  | MessagesDiverge
  | HeaderDiverges

definition checkRequest :: "loop_request \<Rightarrow> session \<Rightarrow> session \<times> (request_fault + unit)" where
  "checkRequest rq S =
     (case getEvents S of (S1, events) \<Rightarrow>
        if \<not> list_ex (\<lambda>e. ev_type e = ''step/start'') events then (S1, Inl NoStepStart)
        else
          (case foldRequestHeader events None of
             None \<Rightarrow> (S1, Inl NoHeaderLogged)
           | Some header \<Rightarrow>
               (case deriveMessages S1 of
                  (S2, Inl err) \<Rightarrow> (S2, Inl (DeriveThrew err))
                | (S2, Inr expected) \<Rightarrow>
                    if lr_messages rq \<noteq> expected then (S2, Inl MessagesDiverge)
                    else if cfg_model (lr_config rq) = cfg_model (eh_config header)
                      \<and> lr_system rq = eh_system header
                      \<and> cfg_temperature (lr_config rq) = cfg_temperature (eh_config header)
                      \<and> cfg_maxTokens (lr_config rq) = cfg_maxTokens (eh_config header)
                      \<and> cfg_stop (lr_config rq) = cfg_stop (eh_config header)
                      \<and> (case lr_tools rq of None \<Rightarrow> [] | Some ts \<Rightarrow> ts)
                          = (case eh_tools header of None \<Rightarrow> [] | Some ts \<Rightarrow> ts)
                    then (S2, Inr ())
                    else (S2, Inl HeaderDiverges))))"

section \<open>Requests are what the log derives\<close>

lemma unsurfaced_nodes:
  assumes "surfaceLog (lg @ es) = Inr st'" and "surfaceLog lg = Inr st" and "list_all (\<lambda>e. surfaceOp e = None) es"
  shows "st' = st"
  using assms
proof (induction es arbitrary: st' rule: rev_induct)
  case (snoc e es)
  obtain st1 where st1: "surfaceLog (lg @ es) = Inr st1"
    using snoc.prems(1) by (metis append_assoc surfaceLog_prefix)
  then have "st1 = st" using snoc by simp
  moreover have "surfaceOp e = None" using snoc.prems(3) by simp
  ultimately show ?case
    using snoc.prems(1) st1 surfaceLog_snoc [of "lg @ es" e]
    by (auto simp: planSurfaceEvent_def surfaceOpOf_def result_simps split: if_splits)
qed simp

lemma unsurfaced_history:
  assumes "surfaceLog (lg @ es) = Inr st'" and "surfaceLog lg = Inr st" and "list_all (\<lambda>e. surfaceOp e = None) es"
  shows "modelHistory (lg @ es) (nodes st') = modelHistory lg (nodes st)"
  using unsurfaced_nodes [OF assms] modelHistory_grow surfaceInv_below [OF surfaceLog_inv [OF assms(2)]] by blast

lemma getEvents_session:
  assumes "sessionInv S"
  obtains S1 where "getEvents S = (S1, s_log S)" and "sessionInv S1" and "s_log S1 = s_log S"
  using getEvents_inv [OF assms prod.collapse [symmetric]] that [of "fst (getEvents S)"] by (simp add: prod_eq_iff)

lemma checkRequest_eq:
  assumes "sessionInv S" and "surfaceLog (s_log S) = Inr st"
    and "\<exists>e \<in> set (s_log S). ev_type e = ''step/start''" and "underHeader (s_log S) rq"
  shows "snd (checkRequest rq S) =
    (if lr_messages rq = modelHistory (s_log S) (nodes st) then Inr () else Inl MessagesDiverge)"
proof -
  obtain S1 where g: "getEvents S = (S1, s_log S)" "sessionInv S1" "s_log S1 = s_log S"
    using getEvents_session [OF assms(1)] .
  have "snd (deriveMessages S1) = Inr (modelHistory (s_log S) (nodes st))"
    using deriveMessages_inv(2) [OF g(2) _ prod.collapse [symmetric]] g(3) assms(2) by simp
  then obtain S2 where "deriveMessages S1 = (S2, Inr (modelHistory (s_log S) (nodes st)))"
    by (cases "deriveMessages S1") simp
  then show ?thesis
    using g(1) assms(3,4) by (auto simp: checkRequest_def underHeader_def list_ex_iff)
qed

text \<open>
  Claim C38: every request the loop is about to send is reconstructible from the log. Its messages
  are what some prefix of the log derives that already opened the step, its header is the one in
  force, and the companion can object to nothing but the messages; it accepts them unless other
  code put something on the surface since.
\<close>

theorem requests_reconstruct:
  assumes "live S" and "newAgent cfg S = Inr a0" and "loopRun a0 is = Some a"
    and "ag_stage a = Dispatching assembly mode rq"
  shows "snd (checkRequest rq (sessionOf (ag_state a))) \<in> {Inr (), Inl MessagesDiverge}
    \<and> (\<exists>before since st. loopLog a = before @ since \<and> surfaceLog before = Inr st
        \<and> lr_messages rq = modelHistory before (nodes st)
        \<and> (\<exists>e \<in> set before. ev_data e = StepStart (phaseTurn a) (phaseStep a))
        \<and> (list_all (\<lambda>e. surfaceOp e = None) since
            \<longrightarrow> snd (checkRequest rq (sessionOf (ag_state a))) = Inr ()))"
proof -
  let ?S = "sessionOf (ag_state a)"
  have i: "callInv (length (s_log S)) a" by (rule loopRun_call [OF assms(3) newAgent_call [OF assms(1,2)]])
  then have inv: "sessionInv ?S" and d: "derivedIn (phaseTurn a) (phaseStep a) (loopLog a) (lr_messages rq)"
      and h: "underHeader (loopLog a) rq"
    using assms(4) by (simp_all add: callInv_def callLog_def stageFacts_def loopLog_def)
  have lg: "s_log ?S = loopLog a" by (simp add: loopLog_def logS_def)
  obtain st' where st': "surfaceLog (loopLog a) = Inr st'" using inv lg by (auto simp: sessionInv_def)
  obtain k st e where k: "surfaceLog (take k (loopLog a)) = Inr st"
      "lr_messages rq = modelHistory (take k (loopLog a)) (nodes st)"
      "e \<in> set (take k (loopLog a))" "ev_data e = StepStart (phaseTurn a) (phaseStep a)"
    using d by (auto simp: derivedIn_def)
  have "\<exists>e \<in> set (loopLog a). ev_type e = ''step/start''"
    using k(3,4) in_set_takeD by (intro bexI [of _ e]) auto
  then have check: "snd (checkRequest rq ?S) =
      (if lr_messages rq = modelHistory (loopLog a) (nodes st') then Inr () else Inl MessagesDiverge)"
    using checkRequest_eq [OF inv] st' h lg by simp
  have "snd (checkRequest rq ?S) = Inr ()" if "list_all (\<lambda>e. surfaceOp e = None) (drop k (loopLog a))"
    using check k(2) unsurfaced_history [OF _ k(1) that] st' by simp
  then show ?thesis
    using check k by (intro conjI exI [of _ "take k (loopLog a)"] exI [of _ "drop k (loopLog a)"] exI [of _ st]) auto
qed

definition sample_sent :: agent where
  "sample_sent = the (loopRun sample_agent sample_request_inputs)"

definition sample_request :: loop_request where
  "sample_request =
     \<lparr>lr_config = sample_call_config, lr_messages = [sample_prompt_message], lr_system = None, lr_tools = None\<rparr>"

lemma sample_sent_run: "loopRun sample_agent sample_request_inputs = Some sample_sent"
proof -
  have "loopRun sample_agent sample_request_inputs \<noteq> None" by code_simp
  then show ?thesis by (simp add: sample_sent_def)
qed

lemma sample_sent_stage: "ag_stage sample_sent = Dispatching sample_assembly Streamed sample_request"
  by code_simp

theorem requests_reconstruct_witness:
  "snd (checkRequest sample_request (sessionOf (ag_state sample_sent))) \<in> {Inr (), Inl MessagesDiverge}
   \<and> length (loopLog sample_sent) = 7"
proof (rule conjI)
  show "snd (checkRequest sample_request (sessionOf (ag_state sample_sent))) \<in> {Inr (), Inl MessagesDiverge}"
    by (rule conjunct1 [OF requests_reconstruct [OF sample_start_live sample_agent_new sample_sent_run sample_sent_stage]])
  show "length (loopLog sample_sent) = 7" by code_simp
qed

section \<open>Responses are what their chunks assemble to\<close>

text \<open>
  Claim C39: every message of the model that the driver writes, streamed or buffered, cites chunks of
  its own turn and step, in ascending order and all earlier in the log, and its content and usage
  are what assembling exactly these chunks yields.
\<close>

theorem answers_cite_their_chunks:
  assumes "live S" and "newAgent cfg S = Inr a0" and "loopRun a0 is = Some a"
    and "length (s_log S) \<le> i" and "i < length (loopLog a)" and "ev_data (loopLog a ! i) = AssistantMsg T P m u"
  shows "\<exists>ss cs. (surfaceOp (loopLog a ! i), sourceEventSeqs (loopLog a ! i)) = surfaced (Some ss)
     \<and> sorted_wrt (<) ss
     \<and> list_all2 (\<lambda>s c. s < i \<and> ev_data (loopLog a ! s) = AssistantChunk T P c) ss cs
     \<and> blocks (pushAll cs) = Inr (msg_content m) \<and> u = usageOf (pushAll cs)"
proof -
  have "callInv (length (s_log S)) a" by (rule loopRun_call [OF assms(3) newAgent_call [OF assms(1,2)]])
  then have "answersAt (loopLog a) i" using assms(4,5) by (simp add: callInv_def callLog_def loopLog_def)
  then obtain ss cs where c: "(surfaceOp (loopLog a ! i), sourceEventSeqs (loopLog a ! i)) = surfaced (Some ss)"
      "cited T P (take i (loopLog a)) ss cs" "blocks (pushAll cs) = Inr (msg_content m)" "u = usageOf (pushAll cs)"
    using assms(6) by (auto simp: answersAt_def)
  have "list_all2 (\<lambda>s c. s < i \<and> ev_data (loopLog a ! s) = AssistantChunk T P c) ss cs"
    using c(2) assms(5) unfolding cited_def by (auto elim!: list_all2_mono)
  then show ?thesis using c by (auto simp: cited_def)
qed

definition sample_answered :: agent where
  "sample_answered = the (loopRun sample_agent (sample_request_inputs @ sample_answer_inputs))"

lemma sample_answered_run:
  "loopRun sample_agent (sample_request_inputs @ sample_answer_inputs) = Some sample_answered"
proof -
  have "loopRun sample_agent (sample_request_inputs @ sample_answer_inputs) \<noteq> None" by code_simp
  then show ?thesis by (simp add: sample_answered_def)
qed

theorem answers_cite_their_chunks_witness:
  "\<exists>m u ss cs. ev_data (loopLog sample_answered ! 9) = AssistantMsg 1 1 m u
     \<and> (surfaceOp (loopLog sample_answered ! 9), sourceEventSeqs (loopLog sample_answered ! 9)) = surfaced (Some ss)
     \<and> blocks (pushAll cs) = Inr (msg_content m)"
proof -
  have "case ev_data (loopLog sample_answered ! 9) of AssistantMsg T P _ _ \<Rightarrow> T = 1 \<and> P = 1 | _ \<Rightarrow> False"
    and n: "length (s_log sample_start) \<le> 9" "9 < length (loopLog sample_answered)" by code_simp+
  then obtain m u where m: "ev_data (loopLog sample_answered ! 9) = AssistantMsg 1 1 m u"
    by (auto split: event_data.splits)
  show ?thesis
    using answers_cite_their_chunks [OF sample_start_live sample_agent_new sample_answered_run n m] m by blast
qed

end
