(* ===== verification/Loop_Cancel.thy ===== *)
theory Loop_Cancel
  imports Loop_Provenance Scheduler_Progress
begin

text \<open>
  Cancellation converges: a driver whose turn was aborted makes only a bounded number of further
  steps and takes in a bounded number of answers, whatever happens around it, and it stands still
  only where it waits for a promise of other code, whose answer it takes.
\<close>

section \<open>How far an aborted driver can still go\<close>

text \<open>
  A stage of a turn is left for the end of the turn, a stage of a step for the end of the step.
  The steps that do not look at the signal are counted: the messages still to post, and the tool
  calls of an answer that was already complete.
\<close>

fun stageRank :: "driver_stage \<Rightarrow> nat" where
  "stageRank NoDriver = 0"
| "stageRank Converging = 1"
| "stageRank TurnOpening = 2"
| "stageRank (TurnClosing _) = 2"
| "stageRank (PreStepping _) = 3"
| "stageRank (Assembling _) = 3"
| "stageRank (Deciding _ _ _) = 3"
| "stageRank (StepOpening _ _ _) = 3"
| "stageRank Stopping = 3"
| "stageRank (StepClosing _) = 4"
| "stageRank (Posting ms _ _) = 5 + length ms"
| "stageRank (Executing x) = 5 + execLoad x"
| "stageRank (Answering _ _ m) =
     (let calls = length (filter isToolCall (msg_content m)) in 8 + 2 * ((22 * calls + 10) * calls))"
| "stageRank _ = 5"

definition driveBase :: "agent \<Rightarrow> bool" where
  "driveBase a \<longleftrightarrow> 0 < ac_maxParallel (ag_config a) \<and> isRunning (ag_phase a)"

definition driveOK :: "agent \<Rightarrow> bool" where
  "driveOK a \<longleftrightarrow>
     0 < ac_maxParallel (ag_config a) \<and> (isRunning (ag_phase a) \<longleftrightarrow> ag_stage a \<noteq> NoDriver)
     \<and> (case ag_stage a of
          Posting ms _ _ \<Rightarrow> ms \<noteq> []
        | TurnClosing _ \<Rightarrow> ag_turnEnds a \<noteq> None
        | Executing x \<Rightarrow> execLive x \<and> 0 < ex_maxParallel x \<and> (\<exists>base. execInv base x) \<and> \<not> ended x
        | _ \<Rightarrow> True)"

text \<open>Where a step of the driver that began with rank \<open>n\<close> leaves it.\<close>

definition lands :: "nat \<Rightarrow> bool \<Rightarrow> agent \<Rightarrow> bool" where
  "lands n ab b \<longleftrightarrow> driveOK b \<and> (ab \<longrightarrow> \<not> aborted b \<or> isRunning (ag_phase b) \<and> stageRank (ag_stage b) < n)"

fun plainStage :: "driver_stage \<Rightarrow> bool" where
  "plainStage NoDriver = False"
| "plainStage (Posting ms _ _) = (ms \<noteq> [])"
| "plainStage (TurnClosing _) = False"
| "plainStage (Executing _) = False"
| "plainStage _ = True"

lemma lands_stage:
  "driveBase a \<Longrightarrow> plainStage s \<Longrightarrow> (ab \<Longrightarrow> stageRank s < n) \<Longrightarrow> lands n ab (a\<lparr>ag_stage := s\<rparr>)"
  by (cases s) (auto simp: lands_def driveOK_def driveBase_def)

lemma lands_closing:
  "driveBase a \<Longrightarrow> ag_turnEnds a \<noteq> None \<Longrightarrow> (ab \<Longrightarrow> 2 < n) \<Longrightarrow> lands n ab (a\<lparr>ag_stage := TurnClosing exit\<rparr>)"
  by (auto simp: lands_def driveOK_def driveBase_def)

lemma fail_config [simp]:
  "ag_config (failTurn err a) = ag_config a" "ag_config (failStep err a) = ag_config a"
  "ag_config (reportError err a) = ag_config a"
  by (simp_all add: failTurn_def failStep_def reportError_def split: option.split)

lemma drive_frame [simp]:
  "driveBase (a\<lparr>ag_stage := s\<rparr>) = driveBase a" "driveBase (a\<lparr>ag_turnEnds := r\<rparr>) = driveBase a"
  "driveBase (a\<lparr>ag_state := st\<rparr>) = driveBase a" "driveBase (a\<lparr>ag_headerLogged := b\<rparr>) = driveBase a"
  "driveBase (reportError err a) = driveBase a"
  by (simp_all add: driveBase_def)

lemma aborted_frame [simp]:
  "aborted (a\<lparr>ag_stage := s\<rparr>) = aborted a" "aborted (a\<lparr>ag_turnEnds := r\<rparr>) = aborted a"
  "aborted (a\<lparr>ag_state := st\<rparr>) = aborted a" "aborted (a\<lparr>ag_headerLogged := b\<rparr>) = aborted a"
  "aborted (failTurn err a) = aborted a" "aborted (failStep err a) = aborted a"
  "aborted (reportError err a) = aborted a"
  by (simp_all add: aborted_def)

lemma lands_failTurn: "driveBase a \<Longrightarrow> (ab \<Longrightarrow> 2 < n) \<Longrightarrow> lands n ab (failTurn err a)"
  by (simp add: lands_def driveOK_def driveBase_def)

lemma lands_failStep: "driveBase a \<Longrightarrow> (ab \<Longrightarrow> 4 < n) \<Longrightarrow> lands n ab (failStep err a)"
  by (simp add: lands_def driveOK_def driveBase_def)

lemma lands_turnAlive:
  "driveBase a \<Longrightarrow> (ab \<Longrightarrow> 2 < n) \<Longrightarrow> (ab = aborted a \<Longrightarrow> \<not> aborted a \<Longrightarrow> lands n ab b)
    \<Longrightarrow> ab = aborted a \<Longrightarrow> lands n ab (turnAlive a b)"
  by (simp add: turnAlive_def lands_failTurn)

lemma lands_stepAlive:
  "driveBase a \<Longrightarrow> (ab \<Longrightarrow> 4 < n) \<Longrightarrow> (ab = aborted a \<Longrightarrow> \<not> aborted a \<Longrightarrow> lands n ab b)
    \<Longrightarrow> ab = aborted a \<Longrightarrow> lands n ab (stepAlive a b)"
  by (simp add: stepAlive_def lands_failStep)

lemma append_drive:
  assumes "loopAppend ae d meta a = (a', r)"
  shows "driveBase a' = driveBase a" and "aborted a' = aborted a" and "ag_phase a' = ag_phase a"
    and "ag_turnEnds a' = ag_turnEnds a" and "ag_config a' = ag_config a"
  using loopAppend_state [OF assms] by auto

lemma session_drive:
  assumes "onSession f a = (a', r)"
  shows "driveBase a' = driveBase a" and "aborted a' = aborted a" and "ag_phase a' = ag_phase a"
  using assms by (auto simp: onSession_def driveBase_def aborted_def split: prod.splits)

section \<open>The steps of a turn\<close>

lemma openTurnStep_lands:
  assumes "driveBase a"
  shows "lands 2 (aborted a) (openTurnStep ae a)"
proof -
  obtain a' r where ap: "loopAppend ae (TurnStart (phaseTurn a + 1)) unmarked a = (a', r)" by fastforce
  note d = append_drive [OF ap]
  have "driveBase (a'\<lparr>ag_phase := withTurn T (ag_phase a')\<rparr>)" for T
    using assms d by (cases "ag_phase a") (simp_all add: driveBase_def)
  then have "lands 2 False (a'\<lparr>ag_phase := withTurn T (ag_phase a'), ag_turnEnds := None, ag_stage := PreStepping t\<rparr>)" for T t
    using lands_stage [of "a'\<lparr>ag_phase := withTurn T (ag_phase a'), ag_turnEnds := None\<rparr>" "PreStepping t" False 2]
    by (simp add: driveBase_def)
  then show ?thesis
    using assms ap d by (auto simp: openTurnStep_def Let_def intro!: lands_stage split: sum.split)
qed

lemma claimStep_lands: "driveBase a \<Longrightarrow> lands 3 (aborted a) (claimStep now vetoes target a)"
  by (auto simp: claimStep_def intro!: lands_turnAlive lands_failTurn lands_stage split: prod.split sum.split)

lemma assembledStep_lands: "driveBase a \<Longrightarrow> lands 3 (aborted a) (assembledStep r fresh claimed a)"
  by (auto simp: assembledStep_def Let_def intro!: lands_turnAlive lands_failTurn lands_stage split: sum.split)

lemma decidedStep_lands: "driveBase a \<Longrightarrow> lands 3 (aborted a) (decidedStep decide claimed proposed assembly a)"
  by (auto simp: decidedStep_def intro!: lands_turnAlive lands_failTurn lands_stage lands_closing
      split: sum.split option.split)

lemma stoppedStep_lands: "driveBase a \<Longrightarrow> lands 3 (aborted a) (stoppedStep r a)"
  by (auto simp: stoppedStep_def stopOrGo_def intro!: lands_turnAlive lands_failTurn lands_stage lands_closing
      split: sum.split)

lemma openStepStep_lands:
  assumes "driveBase a"
  shows "lands 3 (aborted a) (openStepStep ae messages assembly mode a)"
proof -
  let ?P = "phaseStep a + 1"
  obtain a' r where ap: "loopAppend ae (StepStart (phaseTurn a) ?P) unmarked a = (a', r)" by fastforce
  note d = append_drive [OF ap]
  have "driveBase (a'\<lparr>ag_phase := withStep ?P (ag_phase a')\<rparr>)"
    using assms d by (cases "ag_phase a") (simp_all add: driveBase_def)
  then have s: "plainStage s \<Longrightarrow> lands 3 False (a'\<lparr>ag_phase := withStep ?P (ag_phase a'), ag_stage := s\<rparr>)" for s
    using lands_stage [of "a'\<lparr>ag_phase := withStep ?P (ag_phase a')\<rparr>" s False 3] by simp
  have "lands 3 False (case r of Inl err \<Rightarrow> failTurn err a'
      | Inr _ \<Rightarrow> a'\<lparr>ag_phase := withStep ?P (ag_phase a'),
          ag_stage := (if messages = [] then Building assembly mode else Posting messages assembly mode)\<rparr>)"
    using s assms d by (auto intro!: lands_failTurn split: sum.split)
  then show ?thesis
    using assms by (simp only: openStepStep_def Let_def ap prod.case) (rule lands_turnAlive; simp)
qed

lemma postStep_lands:
  assumes "driveBase a"
  shows "lands (6 + length rest) (aborted a) (postStep ae m rest assembly mode a)"
proof -
  obtain a' r where ap: "loopAppend ae (UserMsg m) (surfaced None) a = (a', r)" by fastforce
  show ?thesis
    using assms ap append_drive [OF ap]
    by (auto simp: postStep_def intro!: lands_failStep lands_stage split: sum.split)
qed

lemma closeStepStep_lands:
  assumes "driveBase a"
  shows "lands 4 (aborted a) (closeStepStep ae result a)"
proof -
  define a0 where "a0 = (case result of
      Inl _ \<Rightarrow> a | Inr ends \<Rightarrow> if ag_turnEnds a = Some MaxTokens then a else a\<lparr>ag_turnEnds := ends\<rparr>)"
  have a0: "driveBase a0 = driveBase a" "aborted a0 = aborted a" by (simp_all add: a0_def split: sum.split)
  obtain a' r where ap: "loopAppend ae (StepEnd (phaseTurn a) (phaseStep a)) unmarked a0 = (a', r)" by fastforce
  show ?thesis
    using assms ap append_drive [OF ap] a0
    by (auto simp: closeStepStep_def Let_def a0_def [symmetric]
        intro!: lands_turnAlive lands_failTurn lands_stage split: sum.split)
qed

lemma closeTurnStep_lands:
  assumes "driveBase a"
  shows "lands 2 (aborted a) (closeTurnStep ae exit reason a)"
proof -
  obtain a' r where ap: "loopAppend ae (TurnEnd (phaseTurn a) reason) unmarked a = (a', r)" by fastforce
  have "lands 2 ab (a'\<lparr>ag_phase := RunningPhase None T 0 False, ag_stage := TurnOpening\<rparr>)" for ab T
    using assms append_drive [OF ap] by (auto simp: lands_def driveOK_def driveBase_def aborted_def)
  then show ?thesis
    using assms ap append_drive [OF ap]
    by (auto simp: closeTurnStep_def intro!: lands_stage split: sum.split turn_close.split)
qed

section \<open>The steps of a step\<close>

lemma buildStep_lands:
  assumes "driveBase a"
  shows "lands 5 (aborted a) (buildStep assembly mode a)"
proof -
  obtain a1 r1 where o1: "onSession deriveMessages a = (a1, r1)" by fastforce
  obtain a2 r2 where o2: "onSession requestHeader a1 = (a2, r2)" by fastforce
  show ?thesis
    using assms o1 o2 session_drive(1) [OF o1] session_drive(1) [OF o2]
    by (auto simp: buildStep_def intro!: lands_stepAlive lands_failStep lands_stage split: sum.split)
qed

lemma proposedStep_lands:
  "driveBase a \<Longrightarrow> lands 5 (aborted a) (proposedStep propose assembly mode system boundary seed a)"
  by (auto simp: proposedStep_def intro!: lands_stepAlive lands_failStep lands_stage split: sum.split)

lemma logged_drive:
  shows "logHeader ae header a = (b, r) \<Longrightarrow> driveBase b = driveBase a"
    and "logContext ae ctx a = (b, r) \<Longrightarrow> driveBase b = driveBase a"
  by (auto simp: logHeader_def logContext_def split: prod.splits sum.splits if_split_asm
      dest!: session_drive(1) append_drive(1))

lemma preparedStep_lands:
  assumes "driveBase a"
  shows "lands 5 (aborted a) (preparedStep r ae1 ae2 assembly mode system boundary config a)"
proof -
  have log: "lands 5 False (case logHeader ae1 header a of
         (a1, Inl err) \<Rightarrow> failStep err a1
       | (a1, Inr _) \<Rightarrow>
           (case logContext ae2 ctx a1 of
              (a2, Inl err) \<Rightarrow> failStep err a2
            | (a2, Inr _) \<Rightarrow> a2\<lparr>ag_stage := Dispatching assembly mode request\<rparr>))" for header ctx request
    using assms by (auto intro!: lands_failStep lands_stage dest!: logged_drive split: prod.split sum.split)
  show ?thesis
    unfolding preparedStep_def Let_def
    using assms log by (auto intro!: lands_failStep lands_stepAlive split: sum.split)
qed

lemma dispatchStep_lands: "driveBase a \<Longrightarrow> lands 5 (aborted a) (dispatchStep r assembly mode request a)"
  by (auto simp: dispatchStep_def intro!: lands_stepAlive lands_failStep lands_stage split: sum.split)

lemma chunkStep_lands:
  assumes "driveBase a"
  shows "lands 5 (aborted a) (chunkStep chunk ae assembly mode att a)"
proof -
  obtain a' r where ap: "loopAppend ae (AssistantChunk (phaseTurn a) (phaseStep a) chunk) unmarked a = (a', r)"
    by fastforce
  show ?thesis
    using assms ap append_drive [OF ap]
    by (auto simp: chunkStep_def intro!: lands_stepAlive lands_failStep lands_stage split: sum.split delivery.split)
qed

lemma streamEndStep_lands: "driveBase a \<Longrightarrow> lands 5 (aborted a) (streamEndStep fresh assembly mode att a)"
  by (auto simp: streamEndStep_def Let_def intro!: lands_stepAlive lands_failStep lands_stage
      split: sum.split finish_reason.split)

lemma recoveredStep_lands: "driveBase a \<Longrightarrow> lands 5 (aborted a) (recoveredStep r assembly mode f a)"
  by (auto simp: recoveredStep_def intro!: lands_stepAlive lands_failStep lands_stage split: sum.split)

lemma reviewedStep_lands: "driveBase a \<Longrightarrow> lands 5 (aborted a) (reviewedStep r att m a)"
  by (auto simp: reviewedStep_def intro!: lands_stepAlive lands_failStep lands_stage split: sum.split)

lemma reassembledStep_lands: "driveBase a \<Longrightarrow> lands 5 (aborted a) (reassembledStep r mode a)"
  by (auto simp: reassembledStep_def intro!: lands_stepAlive lands_failStep lands_stage split: sum.split)

lemma answerStep_lands:
  assumes "driveBase a"
  shows "lands (stageRank (Answering mode att m)) (aborted a) (answerStep env ae mode att m a)"
proof -
  let ?T = "phaseTurn a" and ?P = "phaseStep a" and ?calls = "filter isToolCall (msg_content m)"
  let ?n = "stageRank (Answering mode att m)"
  have n: "4 < ?n" by (simp add: Let_def)
  obtain st r where f: "flushChunks ?T ?P (if mode = Buffered then at_buffered att else []) env (ag_state a) = (st, r)"
    by fastforce
  obtain flushed a' q where ap: "loopAppend ae (AssistantMsg ?T ?P m (usageOf (at_assembler att)))
      (surfaced (Some (at_chunkSeqs att @ flushed))) (a\<lparr>ag_state := st\<rparr>) = (a', q)"
    and flushed: "r = Inr x \<Longrightarrow> flushed = x" for x
    by (cases r) (fastforce, fastforce)
  have b: "driveBase a'" using append_drive(1) [OF ap] assms by simp
  have "lands ?n ab (a'\<lparr>ag_stage := Executing (newExec ?T ?P ?calls (ac_maxParallel (ag_config a')) (ag_state a') s)\<rparr>)"
    for ab s
  proof -
    let ?x = "newExec ?T ?P ?calls (ac_maxParallel (ag_config a')) (ag_state a') s"
    have "execLoad ?x = 2 * ((22 * length ?calls + 10) * length ?calls + 1)" by (rule execLoad_new)
    moreover have "execLive ?x" "\<exists>base. execInv base ?x" using execLive_new execInv_new by blast+
    moreover have "\<not> ended ?x" "0 < ex_maxParallel ?x" using b by (simp_all add: ended_def newExec_def driveBase_def)
    ultimately show ?thesis using b by (simp add: lands_def driveOK_def driveBase_def Let_def)
  qed
  then show ?thesis
    using assms f ap flushed b n
    by (cases r) (auto simp: answerStep_def Let_def intro!: lands_failStep lands_stage split: sum.split)
qed

lemma afterExec_lands:
  assumes "driveOK a" and s: "ag_stage a = Executing x" and e: "execStep x e = Some y"
    and own: "ownExecInput e \<or> answerExecInput e"
  shows "lands (stageRank (Executing x)) ab (afterExec y a)"
proof -
  obtain base where x: "execLive x" "0 < ex_maxParallel x" "execInv base x"
    using assms(1,2) by (auto simp: driveOK_def)
  have b: "driveBase a" using assms(1,2) by (simp add: driveOK_def driveBase_def)
  have w: "execLive y" "execLoad y < execLoad x"
    using execStep_weight [OF x(3,1) e x(2)] execStep_load [OF x(3,1) e x(2)] own by simp_all
  have y: "execInv base y" "ex_maxParallel y = ex_maxParallel x"
    using execInv_step [OF x(3) e] execStep_frame [OF e] by simp_all
  show ?thesis
  proof (cases "ended y")
    case True
    then show ?thesis
      using b by (auto simp: afterExec_def ended_def intro!: lands_stage split: exec_stage.split)
  next
    case False
    then have "afterExec y a = a\<lparr>ag_state := execState y, ag_stage := Executing y\<rparr>"
      by (auto simp: afterExec_def ended_def split: exec_stage.split)
    then show ?thesis using b w y x(2) False by (auto simp: lands_def driveOK_def driveBase_def)
  qed
qed

lemma convergeStep_lands:
  assumes "driveOK a" and "ag_stage a = Converging"
  shows "lands n ab (convergeStep a)"
  using assms
  by (auto simp: convergeStep_def Let_def wakeDriver_def startDriver_def setPhase_def lands_def driveOK_def aborted_def)

section \<open>What happens around the driver\<close>

text \<open>Nothing around the driver takes an abort back or gives it more to do.\<close>

definition drifts :: "agent \<Rightarrow> agent \<Rightarrow> bool" where
  "drifts a b \<longleftrightarrow>
     driveOK b
     \<and> (aborted a \<and> isRunning (ag_phase a) \<longrightarrow>
          aborted b \<and> isRunning (ag_phase b) \<and> stageRank (ag_stage b) = stageRank (ag_stage a))"

lemma driveOK_state: "driveOK (a\<lparr>ag_state := st\<rparr>) = driveOK a"
  by (cases "ag_stage a") (simp_all add: driveOK_def)

lemma driveOK_phase: "isRunning ph = isRunning (ag_phase a) \<Longrightarrow> driveOK (a\<lparr>ag_phase := ph\<rparr>) = driveOK a"
  by (cases "ag_stage a") (simp_all add: driveOK_def)

lemma drifts_refl: "driveOK a \<Longrightarrow> drifts a a"
  by (simp add: drifts_def)

lemma drifts_trans: "drifts a b \<Longrightarrow> drifts b c \<Longrightarrow> drifts a c"
  by (auto simp: drifts_def)

lemma exec_drifts:
  assumes "driveOK a" and s: "ag_stage a = Executing x" and e: "execStep x e = Some y"
    and own: "\<not> ownExecInput e" "\<not> answerExecInput e"
  shows "drifts a (a\<lparr>ag_state := st, ag_stage := Executing y\<rparr>)" and "afterExec y a = a\<lparr>ag_state := execState y, ag_stage := Executing y\<rparr>"
proof -
  obtain base where x: "execLive x" "0 < ex_maxParallel x" "execInv base x"
    using assms(1,2) by (auto simp: driveOK_def)
  have w: "execLive y" "execLoad y = execLoad x"
    using execStep_weight [OF x(3,1) e x(2)] execStep_load [OF x(3,1) e x(2)] own by simp_all
  have y: "execInv base y" "ex_maxParallel y = ex_maxParallel x"
    using execInv_step [OF x(3) e] execStep_frame [OF e] by simp_all
  have r: "\<exists>cfg p. ex_stage y = Running cfg p" using e own by (cases e) (auto split: exec_stage.splits)
  then have "\<not> ended y" by (auto simp: ended_def)
  then show "drifts a (a\<lparr>ag_state := st, ag_stage := Executing y\<rparr>)"
    using assms(1,2) w y x(2) by (auto simp: drifts_def driveOK_def aborted_def)
  show "afterExec y a = a\<lparr>ag_state := execState y, ag_stage := Executing y\<rparr>"
    using r by (auto simp: afterExec_def)
qed

lemma outside_drifts:
  assumes "driveOK a" and "outside f a = Some b"
  shows "drifts a b"
proof (cases "\<exists>x. ag_stage a = Executing x")
  case True
  then obtain x y where x: "ag_stage a = Executing x" "execStep x (Group (Foreign f)) = Some y"
      "b = a\<lparr>ag_state := execState y, ag_stage := Executing y\<rparr>"
    using assms(2) by (auto simp: outside_def)
  then show ?thesis using exec_drifts(1) [OF assms(1) x(1,2)] by simp
next
  case False
  then have "b = a\<lparr>ag_state := applyForeign (ag_state a) f\<rparr>"
    using assms(2) by (auto simp: outside_def split: driver_stage.splits if_splits)
  then show ?thesis using assms(1) by (simp add: drifts_def driveOK_state aborted_def)
qed

lemma abortOf_abort: "abortOf ph \<noteq> None \<Longrightarrow> abortOf (abortPhase cause ph) \<noteq> None"
  by (cases "(cause, ph)" rule: abortPhase.cases) simp_all

lemma phase_drifts:
  assumes "driveOK a" and "isRunning ph = isRunning (ag_phase a)" and "abortOf (ag_phase a) \<noteq> None \<Longrightarrow> abortOf ph \<noteq> None"
  shows "drifts a (a\<lparr>ag_phase := ph\<rparr>)"
  using assms by (simp add: drifts_def driveOK_phase aborted_def)

lemma wakeDriver_drifts:
  assumes "driveOK a"
  shows "drifts a (wakeDriver w a)"
proof (cases "\<exists>t. ag_phase a = IdlePhase t")
  case True
  then show ?thesis
    using assms by (auto simp: wakeDriver_def startDriver_def setPhase_def Let_def drifts_def driveOK_def)
next
  case False
  then have "wakeDriver w a = a \<or> wakeDriver w a = a\<lparr>ag_phase := withWake True (ag_phase a)\<rparr>"
    by (auto simp: wakeDriver_def split: agent_phase.split)
  then show ?thesis
    using drifts_refl [OF assms] phase_drifts [OF assms, of "withWake True (ag_phase a)"] by auto
qed

lemma drifts_OK: "drifts a b \<Longrightarrow> driveOK b"
  by (simp add: drifts_def)

lemma sendStep_drifts:
  assumes "driveOK a" and "sendStep m target wakeup ae a = Some b"
  shows "drifts a b"
proof -
  obtain f a1 w where a1: "outside f a = Some a1" and b: "b = a1 \<or> b = wakeDriver w a1"
    using assms(2) by (auto simp: sendStep_def Let_def split: if_splits)
  have d: "drifts a a1" by (rule outside_drifts [OF assms(1) a1])
  then show ?thesis using b drifts_trans [OF d wakeDriver_drifts [OF drifts_OK [OF d]]] by auto
qed

lemma raiseAbort_drifts:
  assumes "driveOK a"
  shows "drifts a (raiseAbort cause a)"
proof -
  let ?a = "a\<lparr>ag_phase := abortPhase cause (ag_phase a)\<rparr>"
  have p: "drifts a ?a" by (rule phase_drifts [OF assms]) (simp_all add: abortOf_abort)
  show ?thesis
  proof (cases "\<exists>x. ag_stage a = Executing x")
    case True
    then obtain x where x: "ag_stage a = Executing x" by blast
    show ?thesis
    proof (cases "execStep x (Group Abort)")
      case None
      then have st: "\<nexists>cfg p. ex_stage x = Running cfg p" by (auto split: exec_stage.splits)
      have "execInv base (x\<lparr>ex_signal := True\<rparr>) = execInv base x" for base
        by (cases "ex_stage x") (simp_all add: execInv_def)
      moreover have "execLive (x\<lparr>ex_signal := True\<rparr>) = execLive x" "execLoad (x\<lparr>ex_signal := True\<rparr>) = execLoad x"
          "ended (x\<lparr>ex_signal := True\<rparr>) = ended x"
        using st by (cases "ex_stage x"; simp add: execLive_def execLoad_def execWeight_def ended_def Let_def)+
      ultimately show ?thesis
        using p x None by (auto simp: raiseAbort_def Let_def drifts_def driveOK_def aborted_def)
    next
      case (Some y)
      have "drifts ?a (?a\<lparr>ag_state := ag_state ?a, ag_stage := Executing y\<rparr>)"
        by (rule exec_drifts(1) [OF drifts_OK [OF p] _ Some]) (simp_all add: x)
      then show ?thesis using drifts_trans [OF p] x Some by (simp add: raiseAbort_def Let_def)
    qed
  next
    case False
    then have "raiseAbort cause a = ?a" by (auto simp: raiseAbort_def Let_def split: driver_stage.split)
    then show ?thesis using p by simp
  qed
qed

lemma cancelStep_drifts:
  assumes "driveOK a" and "cancelStep cause keepInbox ae1 ae2 a = Some b"
  shows "drifts a b"
proof (cases keepInbox)
  case True
  then show ?thesis using assms raiseAbort_drifts by (auto simp: cancelStep_def)
next
  case False
  then obtain f1 a1 where a1: "outside f1 a = Some a1"
      and rest: "b = a1 \<or> (\<exists>f2 a2. outside f2 a1 = Some a2
        \<and> (b = a2 \<or> b = raiseAbort cause (a2\<lparr>ag_phase := withWake False (ag_phase a2)\<rparr>)))"
    using assms(2) by (auto simp: cancelStep_def Let_def bind_eq_Some_conv split: if_splits)
  have d1: "drifts a a1" by (rule outside_drifts [OF assms(1) a1])
  have "drifts a b" if o: "outside f2 a1 = Some a2"
      and b: "b = a2 \<or> b = raiseAbort cause (a2\<lparr>ag_phase := withWake False (ag_phase a2)\<rparr>)" for f2 a2
  proof -
    have d2: "drifts a a2" by (rule drifts_trans [OF d1 outside_drifts [OF drifts_OK [OF d1] o]])
    have "drifts a2 (a2\<lparr>ag_phase := withWake False (ag_phase a2)\<rparr>)"
      by (rule phase_drifts [OF drifts_OK [OF d2]]) simp_all
    then have "drifts a2 (raiseAbort cause (a2\<lparr>ag_phase := withWake False (ag_phase a2)\<rparr>))"
      using drifts_trans raiseAbort_drifts drifts_OK by blast
    then show ?thesis using b d2 drifts_trans by blast
  qed
  then show ?thesis using rest d1 by blast
qed

lemma maintenance_drifts:
  assumes "driveOK a"
  shows "startMaintenance a = Some b \<Longrightarrow> drifts a b" and "endMaintenance a = Some b \<Longrightarrow> drifts a b"
proof -
  show "drifts a b" if "startMaintenance a = Some b"
    using assms that by (auto simp: startMaintenance_def setPhase_def Let_def drifts_def driveOK_def split: agent_phase.splits)
  show "drifts a b" if e: "endMaintenance a = Some b"
  proof -
    obtain ab t w where ph: "ag_phase a = MaintenancePhase ab t w"
      using e by (cases "ag_phase a") (simp_all add: endMaintenance_def)
    then have "driveOK (setPhase (IdlePhase t) a)" using assms by (auto simp: setPhase_def Let_def driveOK_def)
    then have "driveOK b" using e ph wakeDriver_drifts drifts_OK by (auto simp: endMaintenance_def Let_def split: if_splits)
    then show ?thesis using ph by (simp add: drifts_def)
  qed
qed

section \<open>Convergence\<close>

lemma driverStep_rank:
  assumes "driveOK a" and "driverStep a i = Some b"
  shows "if externalInput i then drifts a b else lands (stageRank (ag_stage a)) (aborted a) b"
proof -
  have base: "driveBase a" if "ag_stage a \<noteq> NoDriver" using assms(1) that by (simp add: driveOK_def driveBase_def)
  from assms(2) show ?thesis
  proof (cases rule: driverStep_cases)
    case (tools x e y)
    have "externalInput i \<longleftrightarrow> \<not> ownExecInput e \<and> \<not> answerExecInput e" by (cases e) (simp_all add: tools(2))
    then show ?thesis
      using afterExec_lands [OF assms(1) tools(1,4)] exec_drifts [OF assms(1) tools(1,4)] tools(1,5) by auto
  next
    case (answer mode att m env ae)
    then show ?thesis using answerStep_lands base by fastforce
  qed (use base in \<open>auto simp: openTurnStep_lands claimStep_lands assembledStep_lands reassembledStep_lands
      decidedStep_lands openStepStep_lands postStep_lands buildStep_lands proposedStep_lands preparedStep_lands
      dispatchStep_lands chunkStep_lands lands_failStep streamEndStep_lands recoveredStep_lands reviewedStep_lands
      closeStepStep_lands stoppedStep_lands closeTurnStep_lands convergeStep_lands [OF assms(1)]
      intro: sendStep_drifts [OF assms(1)] cancelStep_drifts [OF assms(1)] maintenance_drifts [OF assms(1)]
        outside_drifts [OF assms(1)]\<close>)
qed

lemma followEvents_frame [simp]:
  "driveOK (followEvents a b) = driveOK b" "aborted (followEvents a b) = aborted b"
  "ag_phase (followEvents a b) = ag_phase b" "ag_stage (followEvents a b) = ag_stage b"
proof -
  show "driveOK (followEvents a b) = driveOK b"
    by (cases "ag_stage b") (simp_all add: followEvents_def driveOK_def)
qed (simp_all add: followEvents_def aborted_def)

lemma loopStep_rank:
  assumes "driveOK a" and "loopStep a i = Some b"
  shows "driveOK b"
    and "aborted a \<Longrightarrow> isRunning (ag_phase a) \<Longrightarrow> aborted b \<Longrightarrow> isRunning (ag_phase b)
      \<and> (if externalInput i then stageRank (ag_stage b) = stageRank (ag_stage a)
         else stageRank (ag_stage b) < stageRank (ag_stage a))"
proof -
  obtain c where c: "driverStep a i = Some c" "b = followEvents a c" using assms(2) by (auto simp: loopStep_def)
  note r = driverStep_rank [OF assms(1) c(1)]
  show "driveOK b" using r c(2) by (auto simp: lands_def drifts_def split: if_splits)
  show "isRunning (ag_phase b)
      \<and> (if externalInput i then stageRank (ag_stage b) = stageRank (ag_stage a)
         else stageRank (ag_stage b) < stageRank (ag_stage a))"
    if "aborted a" "isRunning (ag_phase a)" "aborted b"
  proof (cases "externalInput i")
    case True
    then show ?thesis using r c(2) that by (simp add: drifts_def)
  next
    case False
    then show ?thesis using r c(2) that by (simp add: lands_def)
  qed
qed

lemma loopRun_driveOK: "loopRun a is = Some b \<Longrightarrow> driveOK a \<Longrightarrow> driveOK b"
proof (induction "is" arbitrary: a)
  case (Cons i "is")
  then show ?case using loopStep_rank(1) by (auto simp: bind_eq_Some_conv)
qed simp

lemma awaited_inside: "awaitedInput i \<Longrightarrow> \<not> externalInput i"
proof (cases i)
  case (Tools e)
  then show "awaitedInput i \<Longrightarrow> \<not> externalInput i" by (cases e) simp_all
qed simp_all

text \<open>A run during which the driver stays aborted; it is over when the abort is gone.\<close>

fun stillAborted :: "agent \<Rightarrow> loop_input list \<Rightarrow> bool" where
  "stillAborted a [] = aborted a"
| "stillAborted a (i # is) =
     (aborted a \<and> (case loopStep a i of None \<Rightarrow> False | Some b \<Rightarrow> stillAborted b is))"

lemma stillAborted_bound:
  "stillAborted a is \<Longrightarrow> driveOK a \<Longrightarrow> isRunning (ag_phase a)
    \<Longrightarrow> length (filter (\<lambda>i. \<not> externalInput i) is) \<le> stageRank (ag_stage a)"
proof (induction "is" arbitrary: a)
  case (Cons i "is")
  then obtain b where b: "loopStep a i = Some b" "aborted a" "stillAborted b is" by (auto split: option.splits)
  then have "aborted b" by (cases "is") (simp_all split: option.splits)
  note r = loopStep_rank [OF Cons.prems(2) b(1)]
  have "isRunning (ag_phase b)" "if externalInput i then stageRank (ag_stage b) = stageRank (ag_stage a)
         else stageRank (ag_stage b) < stageRank (ag_stage a)"
    using r(2) b(2) Cons.prems(3) \<open>aborted b\<close> by auto
  then show ?case using Cons.IH [OF b(3) r(1)] by (auto split: if_splits)
qed simp

text \<open>
  What the driver waits for: the promises of the prompt, of the hooks, of the preparation of a
  call, of the model stream and of the tool registry that it has asked for.
\<close>

datatype loop_await =
    AwaitAssembly
  | AwaitPreStep
  | AwaitProposal
  | AwaitPreparedCall
  | AwaitStream
  | AwaitRecovery
  | AwaitReview
  | AwaitStopping
  | AwaitTool call_await

definition loopAwaits :: "agent \<Rightarrow> loop_await set" where
  "loopAwaits a =
     (case ag_stage a of
        Assembling _ \<Rightarrow> {AwaitAssembly}
      | Deciding _ _ _ \<Rightarrow> {AwaitPreStep}
      | Proposing _ _ _ _ _ \<Rightarrow> {AwaitProposal}
      | PreparingCall _ _ _ _ _ \<Rightarrow> {AwaitPreparedCall}
      | Streaming _ _ _ \<Rightarrow> {AwaitStream}
      | Recovering _ _ _ \<Rightarrow> {AwaitRecovery}
      | Reviewing _ _ _ \<Rightarrow> {AwaitReview}
      | Reassembling _ \<Rightarrow> {AwaitAssembly}
      | Stopping \<Rightarrow> {AwaitStopping}
      | Executing x \<Rightarrow> AwaitTool ` execAwaits x
      | _ \<Rightarrow> {})"

text \<open>The answers to an await, whatever they bring; a stream yields, throws or ends.\<close>

fun settlesLoop :: "loop_await \<Rightarrow> loop_input \<Rightarrow> bool" where
  "settlesLoop AwaitAssembly i = (case i of Assembled _ _ \<Rightarrow> True | _ \<Rightarrow> False)"
| "settlesLoop AwaitPreStep i = (case i of Decided _ \<Rightarrow> True | _ \<Rightarrow> False)"
| "settlesLoop AwaitProposal i = (case i of Proposed _ \<Rightarrow> True | _ \<Rightarrow> False)"
| "settlesLoop AwaitPreparedCall i = (case i of CallPrepared _ _ _ \<Rightarrow> True | _ \<Rightarrow> False)"
| "settlesLoop AwaitStream i = (case i of Chunk _ _ \<Rightarrow> True | StreamThrew _ \<Rightarrow> True | StreamEnded _ \<Rightarrow> True | _ \<Rightarrow> False)"
| "settlesLoop AwaitRecovery i = (case i of Recovered _ \<Rightarrow> True | _ \<Rightarrow> False)"
| "settlesLoop AwaitReview i = (case i of Reviewed _ \<Rightarrow> True | _ \<Rightarrow> False)"
| "settlesLoop AwaitStopping i = (case i of Stopped _ \<Rightarrow> True | _ \<Rightarrow> False)"
| "settlesLoop (AwaitTool w) i = (case i of Tools e \<Rightarrow> settlesCall w e | _ \<Rightarrow> False)"

lemma loopStep_None: "loopStep a i \<noteq> None \<longleftrightarrow> driverStep a i \<noteq> None"
  by (simp add: loopStep_def)

lemma loop_settles:
  assumes "w \<in> loopAwaits a" "settlesLoop w i"
  shows "loopStep a i \<noteq> None"
proof (cases "\<exists>x. ag_stage a = Executing x")
  case True
  then obtain x v where x: "ag_stage a = Executing x" "w = AwaitTool v" "v \<in> execAwaits x"
    using assms(1) by (auto simp: loopAwaits_def)
  then obtain e where e: "i = Tools e" "settlesCall v e" using assms(2) by (cases i) simp_all
  have "\<not> abortInput e" using e(2) by (cases e rule: abortInput.cases; cases v) simp_all
  then show ?thesis unfolding loopStep_None
    using exec_settles [OF x(3) e(2)] x(1) e(1) by (auto simp: driverStep_def)
next
  case False
  then show ?thesis unfolding loopStep_None using assms
    by (cases w; cases i) (auto simp: loopAwaits_def driverStep_def split: driver_stage.splits)
qed

text \<open>A step of its own is open to a running driver exactly when it waits for nothing.\<close>

lemma driver_own:
  assumes "driverInput i" "driverStep a i = Some b" "driveOK a"
  shows "loopAwaits a = {}"
  using assms(2)
proof (cases rule: driverStep_cases)
  case (tools x e y)
  have "ownExecInput e" using assms(1) tools(2) by (cases e) (auto simp: driverInput_def)
  moreover obtain base where "execInv base x" "execLive x" using assms(3) tools(1) by (auto simp: driveOK_def)
  ultimately have "execAwaits x = {}" using exec_enabled tools(4) by blast
  then show ?thesis using tools(1) by (simp add: loopAwaits_def)
qed (use assms(1) in \<open>auto simp: loopAwaits_def driverInput_def\<close>)

lemma driver_enabled:
  assumes ok: "driveOK a" and "isRunning (ag_phase a)"
  shows "(\<exists>i. driverInput i \<and> loopStep a i \<noteq> None) \<longleftrightarrow> loopAwaits a = {}"
proof
  assume "\<exists>i. driverInput i \<and> loopStep a i \<noteq> None"
  then show "loopAwaits a = {}" unfolding loopStep_None using driver_own ok by blast
next
  assume none: "loopAwaits a = {}"
  have "\<exists>i. driverInput i \<and> driverStep a i \<noteq> None"
  proof (cases "ag_stage a")
    case NoDriver
    then show ?thesis using assms(1,2) by (simp add: driveOK_def)
  next
    case (Posting ms s d)
    then obtain m rest where "ms = m # rest" using ok by (cases ms) (simp_all add: driveOK_def)
    then show ?thesis using Posting by (intro exI [of _ "Post undefined"]) (simp add: driverStep_def driverInput_def)
  next
    case (TurnClosing exit)
    then show ?thesis using ok
      by (intro exI [of _ "CloseTurn undefined"]) (auto simp: driverStep_def driveOK_def driverInput_def)
  next
    case (Executing x)
    then obtain base where x: "execInv base x" "execLive x" "\<not> ended x" using ok by (auto simp: driveOK_def)
    have "execAwaits x = {}" using none Executing by (simp add: loopAwaits_def)
    then obtain e where e: "ownExecInput e" "execStep x e \<noteq> None" using exec_enabled [OF x(1,2)] x(3) by blast
    have "\<not> abortInput e" "driverInput (Tools e)"
      using e(1) by (cases e rule: abortInput.cases; simp add: driverInput_def)+ 
    then show ?thesis using Executing e(2) by (intro exI [of _ "Tools e"]) (simp add: driverStep_def)
  next
    case TurnOpening
    then show ?thesis by (intro exI [of _ "OpenTurn undefined"]) (simp add: driverStep_def driverInput_def)
  next
    case PreStepping
    then show ?thesis by (intro exI [of _ "Claim 0 undefined"]) (simp add: driverStep_def driverInput_def)
  next
    case StepOpening
    then show ?thesis by (intro exI [of _ "OpenStep undefined"]) (simp add: driverStep_def driverInput_def)
  next
    case Building
    then show ?thesis by (intro exI [of _ Build]) (simp add: driverStep_def driverInput_def)
  next
    case Dispatching
    then show ?thesis by (intro exI [of _ "Dispatched undefined"]) (simp add: driverStep_def driverInput_def)
  next
    case Answering
    then show ?thesis by (intro exI [of _ "Answer undefined undefined"]) (simp add: driverStep_def driverInput_def)
  next
    case StepClosing
    then show ?thesis by (intro exI [of _ "CloseStep undefined"]) (simp add: driverStep_def driverInput_def)
  next
    case Converging
    then show ?thesis by (intro exI [of _ Converge]) (simp add: driverStep_def driverInput_def)
  qed (use none in \<open>simp_all add: loopAwaits_def\<close>)
  then show "\<exists>i. driverInput i \<and> loopStep a i \<noteq> None" unfolding loopStep_None .
qed

text \<open>
  Claim C40: cancellation converges. Once the activity of a running driver is aborted, the driver
  makes steps and takes in answers in a number that its stage bounds: fewer than nine, unless
  messages are being posted or tool calls remain. It stands still exactly while it waits for a
  promise of other code that it has asked for, and whatever such a promise yields, it takes it:
  so it reaches the end of its turn unless a promise it waits for never settles. Sends, further
  cancellations and the writes of other code change nothing of this.
\<close>

theorem cancel_converges:
  assumes "newAgent cfg S = Inr a0" and "0 < ac_maxParallel cfg" and "loopRun a0 is = Some a"
    and "isRunning (ag_phase a)"
  shows "(stillAborted a js \<longrightarrow> length (filter (\<lambda>i. driverInput i \<or> awaitedInput i) js) \<le> stageRank (ag_stage a))
     \<and> ((\<exists>i. driverInput i \<and> loopStep a i \<noteq> None) \<longleftrightarrow> loopAwaits a = {})
     \<and> (\<forall>w \<in> loopAwaits a. \<forall>i. settlesLoop w i \<longrightarrow> loopStep a i \<noteq> None)"
proof -
  have "ag_config a0 = cfg"
    using assms(1) by (cases "managerNodes (s_log S) (s_manager S)"; cases "newInbox S")
      (auto simp: newAgent_def result_simps split: sum.splits)
  then have "driveOK a0" using newAgent_parts [OF assms(1)] assms(2) by (simp add: driveOK_def)
  then have ok: "driveOK a" by (rule loopRun_driveOK [OF assms(3)])
  have "length (filter (\<lambda>i. driverInput i \<or> awaitedInput i) js) \<le> length (filter (\<lambda>i. \<not> externalInput i) js)"
    using awaited_inside by (induction js) (auto simp: driverInput_def)
  then show ?thesis
    using stillAborted_bound [OF _ ok assms(4), of js] driver_enabled [OF ok assms(4)] loop_settles by fastforce
qed

definition sample_cancelled :: agent where
  "sample_cancelled =
     the (loopRun sample_agent (sample_request_inputs @ [Cancel CancelUser True sample_env sample_env]))"

definition sample_stop_inputs :: "loop_input list" where
  "sample_stop_inputs =
     [Dispatched (Inr ()), Send sample_prompt_message NextStep True sample_env, CloseStep sample_env, CloseTurn sample_env]"

theorem cancel_converges_witness:
  "stillAborted sample_cancelled sample_stop_inputs
   \<and> length (filter (\<lambda>i. driverInput i \<or> awaitedInput i) sample_stop_inputs) \<le> 5
   \<and> (\<exists>i. driverInput i \<and> loopStep sample_cancelled i \<noteq> None)"
proof -
  have "loopRun sample_agent (sample_request_inputs @ [Cancel CancelUser True sample_env sample_env]) \<noteq> None"
    by code_simp
  then have run: "loopRun sample_agent (sample_request_inputs @ [Cancel CancelUser True sample_env sample_env])
      = Some sample_cancelled" by (simp add: sample_cancelled_def)
  have s: "stillAborted sample_cancelled sample_stop_inputs" by code_simp
  have r: "isRunning (ag_phase sample_cancelled)" "stageRank (ag_stage sample_cancelled) = 5" by code_simp+
  have st: "case ag_stage sample_cancelled of Dispatching _ _ _ \<Rightarrow> True | _ \<Rightarrow> False" by code_simp
  then have "loopAwaits sample_cancelled = {}" by (auto simp: loopAwaits_def split: driver_stage.splits)
  moreover have p: "0 < ac_maxParallel sample_config" by code_simp
  ultimately show ?thesis
    using cancel_converges [OF sample_agent_new p run r(1), of sample_stop_inputs] s r(2) by auto
qed

end
