(* ===== verification/Spec2Isabelle.thy ===== *)
theory Spec2Isabelle
  imports Surface_Facts Seed_Shape Request_Header Session_Facts Session_Reload Repair Trace_Facts
    Store_Facts Inbox_Facts Consumed_Work Scope Scope_Store Chunk_Facts Assembler Retry_Facts
    Goal_Facts Bracket_Facts Pruner_Facts Scheduler_Progress Scheduler_Companion
    Prompt_Assembly Runtime_Context Loop_Companion Loop_Requests Loop_Cancel
begin

text \<open>
  The session kernel and the agent loop of an agent harness (TypeScript, \<^verbatim>\<open>packages/\<close>): the
  append-only log of a session, everything that is folded from it, and the driver that turns queued
  messages into turns, steps, model calls and tool calls recorded in it.

  \<^bold>\<open>How the parts work together.\<close> The log of a session is its only durable state. \<open>Session\<close>
  validates and appends events; some events form the \<^emph>\<open>surface\<close>, the ordered list of
  what the model sees, which a replacement can shorten. The \<open>SessionStore\<close> owns the sessions and
  interleaves appends with listeners. The inbox, the goal, the retry history, the request header
  and the context projection are folds over the log; compaction replaces a range of the surface.
  The driver claims messages from the inbox, assembles a prompt, opens a turn and a step, sends a
  request derived from the log, records the chunks and the message of the answer, lets the
  scheduler run its tool calls, and closes what it opened. After a crash, repair closes what was
  left open.

  \<^bold>\<open>Parts and theories\<close> (paths under \<^verbatim>\<open>packages/\<close>; a definition has the name of its function).

  \<^item> \<^verbatim>\<open>Prelude\<close>, \<^verbatim>\<open>Json\<close>, \<^verbatim>\<open>Json_Read\<close>: errors as sums with \<open>bindR\<close>, \<open>mapM\<close>, \<open>runR\<close>, \<open>thenR\<close>; arrays
    and insertion-ordered maps of the language; numbers and JSON values; the locales
    \<open>validating_fold\<close> (folds that may throw) and \<open>log_projection\<close> (cached folds), interpreted where
    a fold is defined.
  \<^item> \<^verbatim>\<open>Session_Types\<close>: the events and messages (\<^verbatim>\<open>core/session/src/types.ts\<close>, \<^verbatim>\<open>llm/llm/src/types.ts\<close>).
  \<^item> \<^verbatim>\<open>Surface\<close>, \<^verbatim>\<open>Surface_Facts\<close>: \<^verbatim>\<open>core/session/src/surface.ts\<close>; the complete fold, the acceptance
    of one event and the incremental manager agree, and a replacement does what it says.
  \<^item> \<^verbatim>\<open>Seed_Shape\<close>, \<^verbatim>\<open>Request_Header\<close>, \<^verbatim>\<open>Session_Log\<close>, \<^verbatim>\<open>Session_Facts\<close>, \<^verbatim>\<open>Session_Live\<close>,
    \<^verbatim>\<open>Session_Reload\<close>, \<^verbatim>\<open>Component_Append\<close>: the class \<open>Session\<close> of \<^verbatim>\<open>core/session/src/index.ts\<close> with
    \<^verbatim>\<open>request-header.ts\<close>. The record \<open>session\<close> is the object with its caches; \<open>live\<close> are the
    sessions a program can hold; each cached read is the fold of the whole log, and \<open>append\<close>
    accepts exactly the lossless candidates that extend the surface. \<open>eventJson\<close> and \<open>headerJson\<close>
    are the objects a storage holds; the JSON of a payload is a parameter with the declared
    properties, and a load succeeds exactly for the logs whose events are \<open>loadable\<close>.
  \<^item> \<^verbatim>\<open>Repair\<close>, \<^verbatim>\<open>Trace\<close>, \<^verbatim>\<open>Trace_Facts\<close>: \<^verbatim>\<open>repair.ts\<close> and the relational companion \<^verbatim>\<open>invariant.ts\<close>; a
    log cut anywhere is accepted again after its repair.
  \<^item> \<^verbatim>\<open>Session_Store\<close>, \<^verbatim>\<open>Store_Facts\<close>: the class \<open>SessionStore\<close>, split where listeners run; one
    writer, paired notifications, forks.
  \<^item> \<^verbatim>\<open>Chunk_Rows\<close>, \<^verbatim>\<open>Chunk_Facts\<close>: \<^verbatim>\<open>chunk-rows.ts\<close>; packing loses nothing. Sums are rounded to
    doubles below \<open>2 ^ 54\<close>, which is every sum of two safe integers.
  \<^item> \<^verbatim>\<open>Inbox\<close>, \<^verbatim>\<open>Inbox_Facts\<close>, \<^verbatim>\<open>Consumed_Work\<close>: \<^verbatim>\<open>core/agent/src/inbox.ts\<close>, \<^verbatim>\<open>consumed-work.ts\<close>; the
    inbox is its own replay, and no message is lost but by a claim that fails halfway.
  \<^item> \<^verbatim>\<open>Scope\<close>, \<^verbatim>\<open>Scope_Store\<close>, \<^verbatim>\<open>Scope_Layers\<close>: \<^verbatim>\<open>core/scope/src\<close>; walks along parents are
    \<open>partial_function (option)\<close> and proved to end; tables, undo, layers, merged views.
  \<^item> \<^verbatim>\<open>Prompt_Render\<close>, \<^verbatim>\<open>Prompt_Facts\<close>, \<^verbatim>\<open>System_Prompt\<close>, \<^verbatim>\<open>Prompt_Assembly\<close>:
    \<^verbatim>\<open>core/system-prompt/src\<close>; interpolation is the evaluation of the one reading (\<open>reads\<close>) of a
    text, tools stand at their places (\<open>toolPlace\<close>), and what the registry builds passes its companion.
  \<^item> \<^verbatim>\<open>Assembler\<close>, \<^verbatim>\<open>Retry_Policy\<close>, \<^verbatim>\<open>Retry\<close>, \<^verbatim>\<open>Retry_Facts\<close>, \<^verbatim>\<open>Token_Meter\<close>: \<^verbatim>\<open>llm/llm/src/assembler.ts\<close>
    and \<^verbatim>\<open>retry-policy.ts\<close>, \<^verbatim>\<open>llm/llm-retry/src\<close>, \<^verbatim>\<open>llm/token-meter/src\<close>; blocks against a reference
    function, the numbering and the bound of retries, the price of the surface.
  \<^item> \<^verbatim>\<open>Goal_Fold\<close>, \<^verbatim>\<open>Goal_Service\<close>, \<^verbatim>\<open>Goal_Facts\<close>: \<^verbatim>\<open>goal/goal/src\<close>; the service never writes what
    the strict replay refuses.
  \<^item> \<^verbatim>\<open>Tool_Pairing\<close>, \<^verbatim>\<open>Compaction\<close>, \<^verbatim>\<open>Compaction_Facts\<close>: \<^verbatim>\<open>compaction/compaction/src/tool-pairing.ts\<close>,
    \<^verbatim>\<open>compaction/compaction-basic/src/region.ts\<close>; the selected range, what a success replaces, and
    that an opened bracket is closed.
  \<^item> \<^verbatim>\<open>Compaction_Companion\<close>, \<^verbatim>\<open>Bracket_Facts\<close>: \<^verbatim>\<open>compaction/compaction/src/invariant.ts\<close>; the
    companion of the compaction events accepts what a transaction writes, and the scan that lets a
    transaction start agrees with its trace.
  \<^item> \<^verbatim>\<open>Result_Pruner\<close>, \<^verbatim>\<open>Pruner_Facts\<close>: \<^verbatim>\<open>compaction/compaction-tool-result-pruner/src\<close>;
    what pruning keeps of a result and of the surface.
  \<^item> \<^verbatim>\<open>Loop_Env\<close>, \<^verbatim>\<open>Tool_Scheduler\<close>, \<^verbatim>\<open>Scheduler_Facts\<close>, \<^verbatim>\<open>Scheduler_Progress\<close>, \<^verbatim>\<open>Scheduler_Companion\<close>:
    \<^verbatim>\<open>core/agent-loop/src/tool-calls.ts\<close>; each call is answered once in order, the pool is bounded,
    its steps and answers are numbered, it stands still only at a promise it awaits
    (\<open>execAwaits\<close>), and the companion accepts what it writes.
  \<^item> \<^verbatim>\<open>Runtime_Context\<close>: \<^verbatim>\<open>core/agent-loop/src/runtime-context.ts\<close>; a snapshot is left out only when
    the model already sees it.
  \<^item> \<^verbatim>\<open>Agent_Loop\<close> and \<^verbatim>\<open>Loop_Trace\<close>, \<^verbatim>\<open>Loop_Companion\<close>, \<^verbatim>\<open>Loop_Steady\<close>, \<^verbatim>\<open>Loop_Calls\<close>,
    \<^verbatim>\<open>Loop_Provenance\<close>, \<^verbatim>\<open>Loop_Requests\<close>, \<^verbatim>\<open>Loop_Cancel\<close>: \<^verbatim>\<open>core/agent-loop/src/agent.ts\<close> and
    \<^verbatim>\<open>invariant.ts\<close>. The record \<open>agent\<close> is the object, its session and the locals of the driver;
    \<open>ag_stage\<close> is the place where the code is suspended. The companion accepts the log along
    every run, every request is reconstructible from the log, every answer cites the chunks it was
    assembled from, and a cancelled driver comes to rest, unless a promise it awaits (\<open>loopAwaits\<close>) never settles.

  \<^bold>\<open>Asynchrony.\<close> Code with suspension points is a machine: a state holds the locals and the place,
  an input holds what the awaited promise yields and what the synchronous code after it reads from
  the run-time (times, fresh identities, vetoed dispatches, payloads that are not lossless). What
  other code may do meanwhile (\<open>foreign\<close>: appends of events that the driver does not own, splices
  of the inbox; sends, cancellations, maintenance) is an input as well and may come between any
  two steps. What listeners do while one of several appends of the same synchronous stretch is
  published (the header and the context of a request, the chunks and the message of a buffered
  answer) is interleaved after the stretch. Steps take inputs they cannot
  use to \<open>None\<close>; results that say the code goes on are proved as such.

  \<^bold>\<open>Fuel and bounds.\<close> No definition is cut off by fuel. Loops recurse on their data; walks along
  scope parents may not end and are \<open>None\<close> then; the scheduler and the driver run as long as there
  are inputs, with weights (\<open>execLoad\<close>, \<open>stageRank\<close>) that bound their own steps and the answers to
  their awaits; that an awaited promise settles at all is assumed nowhere. Identities are
  minted from a list of candidates, of which one more than the used ones is enough.

  \<^bold>\<open>Parameters.\<close> Code outside the repository and other plugins are arguments: waterfalls are
  functions, providers are functions of the assembly context, \<^verbatim>\<open>JSON.stringify\<close> is a function in the
  token meter, the summarizer is the outcome of its call. Text is a list of 8-bit characters.
  Object identity and freezing are not modelled: a value that was frozen cannot change.

  \<^bold>\<open>Not modelled.\<close> Minting of scopes and contexts, effects and event dispatch of the plugin framework;
  \<open>whenIdle\<close>, which only waits for a promise; the walk over object graphs that decides whether
  a value is lossless JSON; the wording of error messages. The tool registry, model adapters,
  persistence, the sandbox, the user interfaces and the other packages are outside this
  development; the manifest lists them with the reason.
\<close>

end
